(* ===== verification/Warp_Prelude.thy ===== *)
theory Warp_Prelude
  imports Main "HOL-Library.Monad_Syntax" "HOL-Library.Word"
begin

text \<open>
  What every component of the development shares: the way a Rust panic is modelled, checked
  machine arithmetic and slice access, characters, and generic list lemmas.

  A Rust function that can panic is a function into \<open>'a option\<close>; \<open>None\<close> is the panic
  (an index out of range, a subtraction below zero under overflow checks, an \<open>unwrap\<close> of
  \<open>None\<close>, an \<open>ArrayVec\<close> beyond its capacity, an explicit \<open>panic!\<close>). A function whose
  Rust result is itself an \<open>Option\<close> returns it below that layer. A \<open>usize\<close> is a
  \<open>nat\<close>; sums of lengths and positions are far below \<open>2 ^ 64\<close> and are not checked,
  subtractions are.
\<close>

type_synonym 'a panics = "'a option"

named_theorems rust_simps \<open>unfolding of the checked primitives\<close>

subsection \<open>Checked primitives\<close>

definition usub :: "nat \<Rightarrow> nat \<Rightarrow> nat panics" where
  "usub a b = (if b \<le> a then Some (a - b) else None)"

definition nth_checked :: "'a list \<Rightarrow> nat \<Rightarrow> 'a panics" where
  "nth_checked xs i = (if i < length xs then Some (xs ! i) else None)"

definition update_checked :: "'a list \<Rightarrow> nat \<Rightarrow> 'a \<Rightarrow> 'a list panics" where
  "update_checked xs i x = (if i < length xs then Some (xs[i := x]) else None)"

definition swap_checked :: "'a list \<Rightarrow> nat \<Rightarrow> nat \<Rightarrow> 'a list panics" where
  "swap_checked xs i j =
     (if i < length xs \<and> j < length xs then Some (xs[i := xs ! j, j := xs ! i]) else None)"

definition assert_that :: "bool \<Rightarrow> unit panics" where
  "assert_that b = (if b then Some () else None)"

text \<open>\<open>for item in &mut xs[a..b]\<close>: every element of the slice is replaced.\<close>

definition map_range :: "('a \<Rightarrow> 'a) \<Rightarrow> nat \<Rightarrow> nat \<Rightarrow> 'a list \<Rightarrow> 'a list panics" where
  "map_range f a b xs =
     (if a \<le> b \<and> b \<le> length xs
      then Some (take a xs @ map f (drop a (take b xs)) @ drop b xs) else None)"

text \<open>A \<open>for\<close> loop whose body may panic.\<close>

fun fold_panics :: "('a \<Rightarrow> 's \<Rightarrow> 's panics) \<Rightarrow> 'a list \<Rightarrow> 's \<Rightarrow> 's panics" where
  "fold_panics f [] s = Some s"
| "fold_panics f (x # xs) s = (case f x s of None \<Rightarrow> None | Some s' \<Rightarrow> fold_panics f xs s')"

lemma usub_le [rust_simps]: "b \<le> a \<Longrightarrow> usub a b = Some (a - b)"
  by (simp add: usub_def)

lemma usub_None_iff: "usub a b = None \<longleftrightarrow> a < b"
  by (auto simp: usub_def)

lemma nth_checked_lt [rust_simps]: "i < length xs \<Longrightarrow> nth_checked xs i = Some (xs ! i)"
  by (simp add: nth_checked_def)

lemma update_checked_lt [rust_simps]: "i < length xs \<Longrightarrow> update_checked xs i x = Some (xs[i := x])"
  by (simp add: update_checked_def)

lemma swap_checked_lt [rust_simps]:
  "i < length xs \<Longrightarrow> j < length xs \<Longrightarrow> swap_checked xs i j = Some (xs[i := xs ! j, j := xs ! i])"
  by (simp add: swap_checked_def)

lemma assert_that_True [rust_simps]: "b \<Longrightarrow> assert_that b = Some ()"
  by (simp add: assert_that_def)

lemma assert_that_simps [simp]: "assert_that True = Some ()" "assert_that False = None"
  by (simp_all add: assert_that_def)

lemma assert_that_eq_Some [simp]: "assert_that b = Some u \<longleftrightarrow> b"
  by (simp add: assert_that_def)

lemma fold_panics_append:
  "fold_panics f (xs @ ys) s = Option.bind (fold_panics f xs s) (fold_panics f ys)"
  by (induction xs arbitrary: s) (auto split: option.splits)

lemma fold_panics_fold:
  assumes "\<And>x s. x \<in> set xs \<Longrightarrow> P s \<Longrightarrow> f x s = Some (g x s) \<and> P (g x s)" and "P s"
  shows "fold_panics f xs s = Some (fold g xs s) \<and> P (fold g xs s)"
  using assms by (induction xs arbitrary: s) auto

lemma fold_panics_invariant:
  assumes "fold_panics f xs s = Some t" and "P s"
    and "\<And>x s s'. x \<in> set xs \<Longrightarrow> P s \<Longrightarrow> f x s = Some s' \<Longrightarrow> P s'"
  shows "P t"
  using assms
proof (induction xs arbitrary: s)
  case (Cons x xs)
  then obtain s' where s': "f x s = Some s'" "fold_panics f xs s' = Some t"
    by (auto split: option.splits)
  have "P s'"
    using Cons.prems(3) [OF _ Cons.prems(2) s'(1)] by simp
  with s'(2) show ?case
    using Cons.prems(3) by (intro Cons.IH [of s']) auto
qed simp

text \<open>
  A computation that does not panic and ends in a state with a property. Proofs about operations
  that are sequences of steps go through \<open>ends_bind\<close>, loops through \<open>ends_fold\<close>.
\<close>

definition ends :: "('s \<Rightarrow> bool) \<Rightarrow> 's panics \<Rightarrow> bool" where
  "ends P m \<longleftrightarrow> (\<exists>s. m = Some s \<and> P s)"

lemma ends_simps [simp]: "ends P (Some s) \<longleftrightarrow> P s" "\<not> ends P None"
  by (simp_all add: ends_def)

lemma ends_bind:
  assumes "ends Q m" and "\<And>s. Q s \<Longrightarrow> ends P (f s)"
  shows "ends P (Option.bind m f)"
  using assms by (auto simp: ends_def)

lemma ends_mono: "ends Q m \<Longrightarrow> (\<And>s. Q s \<Longrightarrow> P s) \<Longrightarrow> ends P m"
  by (auto simp: ends_def)

lemma ends_if: "(b \<Longrightarrow> ends P m) \<Longrightarrow> (\<not> b \<Longrightarrow> ends P k) \<Longrightarrow> ends P (if b then m else k)"
  by simp

lemma ends_fold:
  assumes "P s" and "\<And>x s. x \<in> set xs \<Longrightarrow> P s \<Longrightarrow> ends P (f x s)"
  shows "ends P (fold_panics f xs s)"
  using assms
proof (induction xs arbitrary: s)
  case (Cons x xs)
  have "ends P (f x s)" using Cons.prems by simp
  then obtain s' where "f x s = Some s'" "P s'" by (auto simp: ends_def)
  with Cons show ?case by simp
qed simp

lemma ends_Some: "ends P m \<Longrightarrow> m = Some s \<Longrightarrow> P s"
  by (simp add: ends_def)

lemma endsE: "ends P m \<Longrightarrow> (\<And>s. m = Some s \<Longrightarrow> P s \<Longrightarrow> thesis) \<Longrightarrow> thesis"
  by (auto simp: ends_def)

lemma ends_conj: "ends P m \<Longrightarrow> ends Q m \<Longrightarrow> ends (\<lambda>s. P s \<and> Q s) m"
  by (auto simp: ends_def)

subsection \<open>Lists updated in a range\<close>

lemma length_map_range: "map_range f a b xs = Some ys \<Longrightarrow> length ys = length xs"
  by (auto simp: map_range_def split: if_splits)

lemma nth_map_range:
  assumes "map_range f a b xs = Some ys" and "i < length xs"
  shows "ys ! i = (if a \<le> i \<and> i < b then f (xs ! i) else xs ! i)"
proof -
  from assms(1) have ab: "a \<le> b" "b \<le> length xs"
    and ys: "ys = take a xs @ map f (drop a (take b xs)) @ drop b xs"
    by (auto simp: map_range_def split: if_splits)
  consider "i < a" | "a \<le> i" "i < b" | "b \<le> i" by linarith
  then show ?thesis
    using ab assms(2) by cases (auto simp: ys nth_append)
qed

lemma map_range_all: "map_range f 0 (length xs) xs = Some (map f xs)"
  by (simp add: map_range_def)

lemma nth_rotate_mod: "n < length xs \<Longrightarrow> rotate k xs ! n = xs ! ((k + n) mod length xs)"
  by (simp add: nth_rotate)

lemma fold_panics_cong:
  "(\<And>x s. x \<in> set xs \<Longrightarrow> f x s = g x s) \<Longrightarrow> fold_panics f xs s = fold_panics g xs s"
  by (induction xs arbitrary: s) (auto split: option.splits)

text \<open>
  Exchanging blocks of a list by swaps: bubbling the first \<open>k\<close> elements up by \<open>d\<close>, and pulling
  the elements of \<open>[e - d, m - d)\<close> up over a constant gap.
\<close>

definition swap_list :: "nat \<Rightarrow> nat \<Rightarrow> 'a list \<Rightarrow> 'a list" where
  "swap_list i j xs = xs[i := xs ! j, j := xs ! i]"

lemma length_swap_list [simp]: "length (swap_list i j xs) = length xs"
  by (simp add: swap_list_def)

lemma nth_swap_list:
  "i < length xs \<Longrightarrow> j < length xs \<Longrightarrow> k < length xs \<Longrightarrow>
     swap_list i j xs ! k = (if k = j then xs ! i else if k = i then xs ! j else xs ! k)"
  by (simp add: swap_list_def nth_list_update)

lemma length_fold_swap [simp]:
  "length (fold (\<lambda>i. swap_list (p i) (q i)) is xs) = length xs"
  by (induction "is" arbitrary: xs) simp_all

lemma set_swap_list: "i < length xs \<Longrightarrow> j < length xs \<Longrightarrow> set (swap_list i j xs) = set xs"
  by (simp add: swap_list_def set_swap)

lemma set_fold_swap:
  "(\<And>i. i \<in> set is \<Longrightarrow> p i < length xs \<and> q i < length xs) \<Longrightarrow>
     set (fold (\<lambda>i. swap_list (p i) (q i)) is xs) = set xs"
  by (induction "is" arbitrary: xs) (simp_all add: set_swap_list)

definition bubble_up :: "nat \<Rightarrow> nat \<Rightarrow> 'a list \<Rightarrow> 'a list" where
  "bubble_up k d = fold (\<lambda>i. swap_list i (i + d)) (rev [0..<k])"

definition bubble_down :: "nat \<Rightarrow> nat \<Rightarrow> 'a list \<Rightarrow> 'a list" where
  "bubble_down k d = fold (\<lambda>i. swap_list i (i + d)) [0..<k]"

lemma length_bubble [simp]:
  "length (bubble_up k d xs) = length xs" "length (bubble_down k d xs) = length xs"
  by (simp_all add: bubble_up_def bubble_down_def)

lemma bubble_up_nth:
  assumes "k + d \<le> length xs"
  shows "(\<forall>i<k. bubble_up k d xs ! (i + d) = xs ! i) \<and>
         (\<forall>j<length xs. k + d \<le> j \<longrightarrow> bubble_up k d xs ! j = xs ! j)"
  using assms
proof (induction k arbitrary: xs)
  case (Suc k)
  let ?xs = "swap_list k (k + d) xs"
  have *: "bubble_up (Suc k) d xs = bubble_up k d ?xs"
    by (simp add: bubble_up_def)
  have nth: "?xs ! j = (if j = k + d then xs ! k else if j = k then xs ! (k + d) else xs ! j)"
    if "j < length xs" for j
    using Suc.prems that by (subst nth_swap_list) auto
  have "k + d \<le> length ?xs" using Suc.prems by simp
  note IH = Suc.IH [OF this]
  show ?case
    unfolding *
  proof (intro conjI allI impI)
    fix i
    assume i: "i < Suc k"
    show "bubble_up k d ?xs ! (i + d) = xs ! i"
    proof (cases "i = k")
      case True
      with IH Suc.prems nth [of "k + d"] show ?thesis by simp
    next
      case False
      with i Suc.prems nth [of i] conjunct1 [OF IH, rule_format, of i] show ?thesis by auto
    qed
  next
    fix j
    assume j: "j < length xs" "Suc k + d \<le> j"
    with conjunct2 [OF IH, rule_format, of j] nth [of j]
    show "bubble_up k d ?xs ! j = xs ! j" by simp
  qed
qed (simp add: bubble_up_def)

text \<open>
  Bubbling down over a gap of \<open>d\<close> equal elements: they end up after the moved block.
\<close>

lemma bubble_down_nth:
  assumes "k + d \<le> length xs" and "\<And>i. i < d \<Longrightarrow> xs ! i = b"
  shows "(\<forall>i<k. bubble_down k d xs ! i = xs ! (i + d)) \<and>
         (\<forall>i<d. bubble_down k d xs ! (k + i) = b) \<and>
         (\<forall>j<length xs. k + d \<le> j \<longrightarrow> bubble_down k d xs ! j = xs ! j)"
  using assms(1)
proof (induction k)
  case 0
  with assms(2) show ?case by (simp add: bubble_down_def)
next
  case (Suc k)
  let ?ys = "bubble_down k d xs"
  have *: "bubble_down (Suc k) d xs = swap_list k (k + d) ?ys"
    by (simp add: bubble_down_def)
  have nth: "bubble_down (Suc k) d xs ! j =
      (if j = k + d then ?ys ! k else if j = k then ?ys ! (k + d) else ?ys ! j)"
    if "j < length xs" for j
    unfolding * using Suc.prems that by (subst nth_swap_list) auto
  from Suc have IH: "\<And>i. i < k \<Longrightarrow> ?ys ! i = xs ! (i + d)" "\<And>i. i < d \<Longrightarrow> ?ys ! (k + i) = b"
    "\<And>j. j < length xs \<Longrightarrow> k + d \<le> j \<Longrightarrow> ?ys ! j = xs ! j"
    by auto
  show ?case
  proof (intro conjI allI impI)
    fix i
    assume "i < Suc k"
    then show "bubble_down (Suc k) d xs ! i = xs ! (i + d)"
      using Suc.prems nth [of i] IH(1) [of i] IH(3) [of "k + d"] IH(2) [of 0]
      by (cases "i = k") (auto simp: less_Suc_eq)
  next
    fix i
    assume "i < d"
    then show "bubble_down (Suc k) d xs ! (Suc k + i) = b"
      using Suc.prems nth [of "Suc k + i"] IH(2) [of 0] IH(2) [of "Suc i"]
      by (cases "Suc i = d") auto
  next
    fix j
    assume "j < length xs" "Suc k + d \<le> j"
    then show "bubble_down (Suc k) d xs ! j = xs ! j"
      using nth [of j] IH(3) [of j] by simp
  qed
qed

text \<open>The same two exchanges at the other end of the list.\<close>

lemma rev_swap_list:
  "i < length xs \<Longrightarrow> j < length xs \<Longrightarrow>
     rev (swap_list i j xs) = swap_list (length xs - i - 1) (length xs - j - 1) (rev xs)"
  by (intro nth_equalityI) (auto simp: nth_swap_list rev_nth)

lemma fold_swap_mirror:
  assumes "\<And>i. i \<in> set is \<Longrightarrow> i + d < length xs"
  shows "fold (\<lambda>i. swap_list (length xs - i - 1) (length xs - i - 1 - d)) is xs =
           rev (fold (\<lambda>i. swap_list i (i + d)) is (rev xs))"
  using assms
proof (induction "is" arbitrary: xs)
  case (Cons i "is")
  have i: "i + d < length xs" using Cons.prems by simp
  then have "length xs - i - 1 - d = length xs - (i + d) - 1" by simp
  then have "rev (swap_list (length xs - i - 1) (length xs - i - 1 - d) xs) =
      swap_list i (i + d) (rev xs)"
    using i by (subst rev_swap_list) auto
  with Cons.IH [of "swap_list (length xs - i - 1) (length xs - i - 1 - d) xs"] Cons.prems
  show ?case by simp
qed simp

text \<open>
  Scrolling the rows \<open>[a, e)\<close> of a list by \<open>d\<close> through one rotation of the whole list: the rows
  outside are exchanged out of the way before it and back after it. \<open>b\<close> is the blank row.
\<close>

definition fill_range :: "nat \<Rightarrow> nat \<Rightarrow> 'a \<Rightarrow> 'a list \<Rightarrow> 'a list" where
  "fill_range i j b xs = fold (\<lambda>k ys. ys[k := b]) [i..<j] xs"

lemma length_fill_range [simp]: "length (fill_range i j b xs) = length xs"
proof -
  have "length (fold (\<lambda>k ys. ys[k := b]) ks xs) = length xs" for ks
    by (induction ks arbitrary: xs) simp_all
  then show ?thesis by (simp add: fill_range_def)
qed

lemma nth_fill_range:
  "k < length xs \<Longrightarrow> fill_range i j b xs ! k = (if i \<le> k \<and> k < j then b else xs ! k)"
proof (induction j)
  case (Suc j)
  have "fill_range i (Suc j) b xs = (if i \<le> j then (fill_range i j b xs)[j := b] else xs)"
    by (simp add: fill_range_def)
  with Suc show ?case by (auto simp: nth_list_update less_Suc_eq)
qed (simp add: fill_range_def)

definition scroll_up_spec :: "nat \<Rightarrow> nat \<Rightarrow> nat \<Rightarrow> 'a \<Rightarrow> 'a list \<Rightarrow> 'a list" where
  "scroll_up_spec a e d b xs =
     take a xs @ drop (a + d) (take e xs) @ replicate d b @ drop e xs"

definition scroll_down_spec :: "nat \<Rightarrow> nat \<Rightarrow> nat \<Rightarrow> 'a \<Rightarrow> 'a list \<Rightarrow> 'a list" where
  "scroll_down_spec a e d b xs =
     take a xs @ replicate d b @ drop a (take (e - d) xs) @ drop e xs"

lemma scroll_up_spec_nth:
  assumes "a + d \<le> e" and "e \<le> length xs" and "k < length xs"
  shows "scroll_up_spec a e d b xs ! k =
    (if k < a then xs ! k else if k < e - d then xs ! (k + d) else if k < e then b else xs ! k)"
proof -
  have "e + (k - a - (e - (a + d)) - d) = k" if "e \<le> k"
    using assms that by linarith+
  then show ?thesis
    using assms by (auto simp: scroll_up_spec_def nth_append add.commute)
qed

lemma scroll_down_spec_nth:
  assumes "a + d \<le> e" and "e \<le> length xs" and "k < length xs"
  shows "scroll_down_spec a e d b xs ! k =
    (if k < a then xs ! k else if k < a + d then b else if k < e then xs ! (k - d) else xs ! k)"
proof -
  have "a + (k - a - d) = k - d" if "a + d \<le> k"
    using assms that by linarith
  moreover have "e + (k - a - d - (e - d - a)) = k" if "e \<le> k"
    using assms that by linarith
  ultimately show ?thesis
    using assms by (auto simp: scroll_down_spec_def nth_append)
qed

lemma length_scroll_spec [simp]:
  assumes "a + d \<le> e" and "e \<le> length xs"
  shows "length (scroll_up_spec a e d b xs) = length xs"
    and "length (scroll_down_spec a e d b xs) = length xs"
  using assms by (simp_all add: scroll_up_spec_def scroll_down_spec_def)

lemma scroll_up_by_rotation:
  assumes "a + d \<le> e" and "e \<le> length xs"
  defines "n \<equiv> length xs"
  shows "rev (bubble_down (n - e) d (rev (fill_range (n - d) n b (rotate d (bubble_up a d xs))))) =
           scroll_up_spec a e d b xs" (is "rev (bubble_down _ _ (rev ?zs)) = _")
proof (rule nth_equalityI)
  have n: "length ?zs = n" by (simp add: n_def)
  show "length (rev (bubble_down (n - e) d (rev ?zs))) = length (scroll_up_spec a e d b xs)"
    using assms by simp
  fix k
  assume "k < length (rev (bubble_down (n - e) d (rev ?zs)))"
  then have k: "k < n" using n by simp
  have up: "bubble_up a d xs ! (i + d) = xs ! i" if "i < a" for i
    using bubble_up_nth [of a d xs] assms that by simp
  have up': "bubble_up a d xs ! j = xs ! j" if "a + d \<le> j" "j < n" for j
    using bubble_up_nth [of a d xs] assms that by (simp add: n_def)
  have zs: "?zs ! j = (if j < n - d then bubble_up a d xs ! (j + d) else b)" if "j < n" for j
    using that assms by (simp add: nth_fill_range nth_rotate n_def add.commute)
  have gap: "rev ?zs ! i = b" if "i < d" for i
  proof -
    have "i < n" "n - Suc i < n" "\<not> n - Suc i < n - d"
      using that assms by (auto simp: n_def)
    with that zs [of "n - Suc i"] n show ?thesis by (simp add: rev_nth)
  qed
  have down: "rev (bubble_down (n - e) d (rev ?zs)) ! k =
      (if e \<le> k then ?zs ! (k - d) else if e - d \<le> k then b else ?zs ! k)"
  proof -
    have "n - e + d \<le> length (rev ?zs)" using assms n by (simp add: n_def)
    note * = bubble_down_nth [OF this gap]
    have r: "rev (bubble_down (n - e) d (rev ?zs)) ! k = bubble_down (n - e) d (rev ?zs) ! (n - 1 - k)"
      using k n by (simp add: rev_nth)
    consider "e \<le> k" | "k < e" "e - d \<le> k" | "k < e - d" by linarith
    then show ?thesis
    proof cases
      case 1
      then have "n - 1 - k < n - e" "n - 1 - (n - 1 - k + d) = k - d" using k by auto
      with * r 1 k n assms(1) show ?thesis by (simp add: rev_nth n_def)
    next
      case 2
      then have "n - 1 - k = n - e + (n - 1 - k - (n - e))" "n - 1 - k - (n - e) < d"
        using k assms by (auto simp: n_def)
      with * r 2 show ?thesis by (metis not_le)
    next
      case 3
      then have "n - e + d \<le> n - 1 - k" "n - 1 - k < length (rev ?zs)" "\<not> e \<le> k" "\<not> e - d \<le> k"
        using k assms n by (auto simp: n_def)
      with * r 3 k n show ?thesis by (simp add: rev_nth)
    qed
  qed
  show "rev (bubble_down (n - e) d (rev ?zs)) ! k = scroll_up_spec a e d b xs ! k"
    using assms k up [of k] up' [of "k + d"] up' [of k] zs [of k] zs [of "k - d"]
    unfolding down scroll_up_spec_nth [OF assms(1,2) k [unfolded n_def]]
    by (auto simp: n_def)
qed

lemma scroll_down_by_rotation:
  assumes "a + d \<le> e" and "e \<le> length xs"
  defines "n \<equiv> length xs"
  shows "bubble_down a d (fill_range 0 d b (rotate (n - d) (rev (bubble_up (n - e) d (rev xs))))) =
           scroll_down_spec a e d b xs" (is "bubble_down _ _ ?zs = _")
proof (rule nth_equalityI)
  have n: "length ?zs = n" by (simp add: n_def)
  show "length (bubble_down a d ?zs) = length (scroll_down_spec a e d b xs)"
    using assms by simp
  fix k
  assume "k < length (bubble_down a d ?zs)"
  then have k: "k < n" using n by simp
  have bound: "n - e + d \<le> length (rev xs)" using assms by simp
  have ys: "rev (bubble_up (n - e) d (rev xs)) ! j = (if j < e - d then xs ! j else xs ! (j + d))"
    if "j < n - d" for j
  proof -
    have r: "rev (bubble_up (n - e) d (rev xs)) ! j = bubble_up (n - e) d (rev xs) ! (n - 1 - j)"
      using that by (simp add: rev_nth n_def)
    show ?thesis
    proof (cases "j < e - d")
      case True
      then have "n - e + d \<le> n - 1 - j" "n - 1 - j < length (rev xs)" "n - 1 - (n - 1 - j) = j"
        using that assms by (auto simp: n_def)
      with bubble_up_nth [OF bound] r True show ?thesis by (simp add: rev_nth n_def)
    next
      case False
      then have "n - 1 - j = (n - 1 - j - d) + d" "n - 1 - j - d < n - e"
        "n - 1 - j - d < length xs" "length xs - Suc (n - 1 - j - d) = j + d"
        using that assms by (auto simp: n_def)
      with bubble_up_nth [OF bound] r False show ?thesis by (metis rev_nth)
    qed
  qed
  have zs: "?zs ! j = (if j < d then b else rev (bubble_up (n - e) d (rev xs)) ! (j - d))"
    if "j < n" for j
  proof (cases "j < d")
    case False
    then have "n - d + j = j - d + n" using that assms by (auto simp: n_def)
    then have "(n - d + j) mod n = (j - d + n) mod n" by (rule arg_cong)
    also have "\<dots> = j - d" using that by simp
    finally have "(n - d + j) mod n = j - d" .
    with False that show ?thesis by (simp add: nth_fill_range nth_rotate n_def)
  qed (use that in \<open>simp add: nth_fill_range n_def\<close>)
  have "a + d \<le> length ?zs" and gap: "\<And>i. i < d \<Longrightarrow> ?zs ! i = b"
    using assms zs n by auto
  note down = bubble_down_nth [OF this]
  have "bubble_down a d ?zs ! k =
      (if k < a then ?zs ! (k + d) else if k < a + d then b else ?zs ! k)"
    using down k n by (auto simp: not_less dest: le_Suc_ex)
  then show "bubble_down a d ?zs ! k = scroll_down_spec a e d b xs ! k"
    using assms k zs [of k] zs [of "k + d"] ys [of k] ys [of "k - d"]
    unfolding scroll_down_spec_nth [OF assms(1,2) k [unfolded n_def]]
    by (auto simp: n_def)
qed

text \<open>A table whose values are distinct is injective.\<close>

lemma map_of_distinct_values:
  assumes "distinct (map snd t)" and "map_of t n = Some v" and "map_of t k = Some v"
  shows "n = k"
proof -
  have "(n, v) \<in> set t" and "(k, v) \<in> set t"
    using assms(2,3) by (auto dest: map_of_SomeD)
  with assms(1) show ?thesis
    by (induction t) (auto simp: rev_image_eqI)
qed

subsection \<open>Characters\<close>

text \<open>
  A Rust \<open>char\<close> is a Unicode scalar value, here its code point. Literals are written
  with HOL's characters: \<open>ch CHR ''a''\<close> is \<open>'a'\<close>, and \<open>one_of c ''ab''\<close> is the
  pattern \<open>'a' | 'b'\<close>.
\<close>

type_synonym uchar = nat

definition ch :: "char \<Rightarrow> uchar" where
  "ch c = of_char c"

definition one_of :: "uchar \<Rightarrow> string \<Rightarrow> bool" where
  "one_of c cs = list_ex (\<lambda>d. c = ch d) cs"

definition chars :: "string \<Rightarrow> uchar list" where
  "chars s = map ch s"

definition is_ascii_uppercase :: "uchar \<Rightarrow> bool" where
  "is_ascii_uppercase c \<longleftrightarrow> ch CHR ''A'' \<le> c \<and> c \<le> ch CHR ''Z''"

definition is_ascii_lowercase :: "uchar \<Rightarrow> bool" where
  "is_ascii_lowercase c \<longleftrightarrow> ch CHR ''a'' \<le> c \<and> c \<le> ch CHR ''z''"

definition is_ascii_digit :: "uchar \<Rightarrow> bool" where
  "is_ascii_digit c \<longleftrightarrow> ch CHR ''0'' \<le> c \<and> c \<le> ch CHR ''9''"

lemma ch_eq [simp]: "ch c = ch d \<longleftrightarrow> c = d"
  by (simp add: ch_def)

lemma one_of_Nil [simp]: "one_of c [] = False"
  by (simp add: one_of_def)

lemma one_of_Cons: "one_of c (d # ds) \<longleftrightarrow> c = ch d \<or> one_of c ds"
  by (simp add: one_of_def)

lemma one_of_ch_Cons [simp]: "one_of (ch c) (d # ds) \<longleftrightarrow> c = d \<or> one_of (ch c) ds"
  by (simp add: one_of_def)

lemma one_ofE: "one_of c cs \<Longrightarrow> (\<And>d. d \<in> set cs \<Longrightarrow> c = ch d \<Longrightarrow> P) \<Longrightarrow> P"
  by (auto simp: one_of_def list_ex_iff)

end
