(* ===== verification/Ansi_Params.thy ===== *)
theory Ansi_Params
  imports Warp_Prelude
begin

text \<open>
  The vocabulary of terminal control sequences and its decoding:
  \<^verbatim>\<open>crates/warp_terminal/src/model/ansi/control_sequence_parameters.rs\<close>. The enums are
  datatypes with the source's variants (prefixed by the enum's initials); a \<open>match\<close> on a
  number is a table looked up with \<open>map_of\<close>. The \<open>vte\<close> parameter iterator is a list; a
  parameter is never empty, so it is a pair of its first number and its sub-parameters.
\<close>

section \<open>Cursor styles and modes\<close>

datatype cursor_shape = CS_Block | CS_Underline | CS_Beam | CS_HollowBlock | CS_Hidden

record cursor_style =
  cstyle_shape :: cursor_shape
  cstyle_blinking :: bool

definition default_cursor_style :: cursor_style where
  "default_cursor_style = \<lparr>cstyle_shape = CS_Block, cstyle_blinking = False\<rparr>"

datatype mode =
    M_CursorKeys | M_DECCOLM | M_Insert | M_Origin | M_LineWrap | M_BlinkingCursor
  | M_LineFeedNewLine | M_ShowCursor | M_ReportMouseClicks | M_ReportCellMouseMotion
  | M_ReportAllMouseMotion | M_ReportFocusInOut | M_Utf8Mouse | M_SgrMouse | M_AlternateScroll
  | M_UrgencyHints | M_SwapScreen bool | M_BracketedPaste | M_SyncOutput

definition private_modes :: "(nat \<times> mode) list" where
  "private_modes =
    [(1, M_CursorKeys), (3, M_DECCOLM), (6, M_Origin), (7, M_LineWrap), (12, M_BlinkingCursor),
     (25, M_ShowCursor), (1000, M_ReportMouseClicks), (1002, M_ReportCellMouseMotion),
     (1003, M_ReportAllMouseMotion), (1004, M_ReportFocusInOut), (1005, M_Utf8Mouse),
     (1006, M_SgrMouse), (1007, M_AlternateScroll), (1042, M_UrgencyHints),
     (47, M_SwapScreen False), (1049, M_SwapScreen True), (2004, M_BracketedPaste),
     (2026, M_SyncOutput)]"

definition ansi_modes :: "(nat \<times> mode) list" where
  "ansi_modes = [(4, M_Insert), (20, M_LineFeedNewLine)]"

text \<open>\<open>intermediate\<close> is the byte before the number, if any; only \<open>?\<close> is a private mode.\<close>

definition mode_from_primitive :: "uchar option \<Rightarrow> nat \<Rightarrow> mode option" where
  "mode_from_primitive intermediate num =
    (if num = 0 then None
     else case intermediate of
       Some b \<Rightarrow> if b = ch CHR ''?'' then map_of private_modes num else None
     | None \<Rightarrow> map_of ansi_modes num)"

datatype line_clear_mode = LCM_Right | LCM_Left | LCM_All

datatype clear_mode =
  CM_Below | CM_Above | CM_All | CM_Saved | CM_ResetAndClear | CM_ActiveBlock

datatype tabulation_clear_mode = TCM_Current | TCM_All

section \<open>Colors\<close>

datatype named_color =
    NC_Black | NC_Red | NC_Green | NC_Yellow | NC_Blue
  | NC_Magenta | NC_Cyan | NC_White | NC_BrightBlack | NC_BrightRed
  | NC_BrightGreen | NC_BrightYellow | NC_BrightBlue | NC_BrightMagenta | NC_BrightCyan
  | NC_BrightWhite | NC_Foreground | NC_Background | NC_Cursor | NC_DimBlack
  | NC_DimRed | NC_DimGreen | NC_DimYellow | NC_DimBlue | NC_DimMagenta
  | NC_DimCyan | NC_DimWhite | NC_BrightForeground | NC_DimForeground

fun to_bright :: "named_color \<Rightarrow> named_color" where
  "to_bright NC_Foreground = NC_BrightForeground"
| "to_bright NC_Black = NC_BrightBlack"
| "to_bright NC_Red = NC_BrightRed"
| "to_bright NC_Green = NC_BrightGreen"
| "to_bright NC_Yellow = NC_BrightYellow"
| "to_bright NC_Blue = NC_BrightBlue"
| "to_bright NC_Magenta = NC_BrightMagenta"
| "to_bright NC_Cyan = NC_BrightCyan"
| "to_bright NC_White = NC_BrightWhite"
| "to_bright NC_DimForeground = NC_Foreground"
| "to_bright NC_DimBlack = NC_Black"
| "to_bright NC_DimRed = NC_Red"
| "to_bright NC_DimGreen = NC_Green"
| "to_bright NC_DimYellow = NC_Yellow"
| "to_bright NC_DimBlue = NC_Blue"
| "to_bright NC_DimMagenta = NC_Magenta"
| "to_bright NC_DimCyan = NC_Cyan"
| "to_bright NC_DimWhite = NC_White"
| "to_bright val = val"

fun to_dim :: "named_color \<Rightarrow> named_color" where
  "to_dim NC_Black = NC_DimBlack"
| "to_dim NC_Red = NC_DimRed"
| "to_dim NC_Green = NC_DimGreen"
| "to_dim NC_Yellow = NC_DimYellow"
| "to_dim NC_Blue = NC_DimBlue"
| "to_dim NC_Magenta = NC_DimMagenta"
| "to_dim NC_Cyan = NC_DimCyan"
| "to_dim NC_White = NC_DimWhite"
| "to_dim NC_Foreground = NC_DimForeground"
| "to_dim NC_BrightBlack = NC_Black"
| "to_dim NC_BrightRed = NC_Red"
| "to_dim NC_BrightGreen = NC_Green"
| "to_dim NC_BrightYellow = NC_Yellow"
| "to_dim NC_BrightBlue = NC_Blue"
| "to_dim NC_BrightMagenta = NC_Magenta"
| "to_dim NC_BrightCyan = NC_Cyan"
| "to_dim NC_BrightWhite = NC_White"
| "to_dim NC_BrightForeground = NC_Foreground"
| "to_dim val = val"

text \<open>\<open>None\<close> is the \<open>bail!\<close> of a color that has no such code.\<close>

fun to_ansi_bg_escape_code :: "named_color \<Rightarrow> nat option" where
  "to_ansi_bg_escape_code NC_Black = Some 40"
| "to_ansi_bg_escape_code NC_DimBlack = Some 40"
| "to_ansi_bg_escape_code NC_Red = Some 41"
| "to_ansi_bg_escape_code NC_DimRed = Some 41"
| "to_ansi_bg_escape_code NC_Green = Some 42"
| "to_ansi_bg_escape_code NC_DimGreen = Some 42"
| "to_ansi_bg_escape_code NC_Yellow = Some 43"
| "to_ansi_bg_escape_code NC_DimYellow = Some 43"
| "to_ansi_bg_escape_code NC_Blue = Some 44"
| "to_ansi_bg_escape_code NC_DimBlue = Some 44"
| "to_ansi_bg_escape_code NC_Magenta = Some 45"
| "to_ansi_bg_escape_code NC_DimMagenta = Some 45"
| "to_ansi_bg_escape_code NC_Cyan = Some 46"
| "to_ansi_bg_escape_code NC_DimCyan = Some 46"
| "to_ansi_bg_escape_code NC_White = Some 47"
| "to_ansi_bg_escape_code NC_DimWhite = Some 47"
| "to_ansi_bg_escape_code NC_Background = Some 49"
| "to_ansi_bg_escape_code NC_BrightBlack = Some 100"
| "to_ansi_bg_escape_code NC_BrightRed = Some 101"
| "to_ansi_bg_escape_code NC_BrightGreen = Some 102"
| "to_ansi_bg_escape_code NC_BrightYellow = Some 103"
| "to_ansi_bg_escape_code NC_BrightBlue = Some 104"
| "to_ansi_bg_escape_code NC_BrightMagenta = Some 105"
| "to_ansi_bg_escape_code NC_BrightCyan = Some 106"
| "to_ansi_bg_escape_code NC_BrightWhite = Some 107"
| "to_ansi_bg_escape_code _ = None"

fun to_ansi_fg_escape_code :: "named_color \<Rightarrow> nat option" where
  "to_ansi_fg_escape_code NC_Black = Some 30"
| "to_ansi_fg_escape_code NC_DimBlack = Some 30"
| "to_ansi_fg_escape_code NC_Red = Some 31"
| "to_ansi_fg_escape_code NC_DimRed = Some 31"
| "to_ansi_fg_escape_code NC_Green = Some 32"
| "to_ansi_fg_escape_code NC_DimGreen = Some 32"
| "to_ansi_fg_escape_code NC_Yellow = Some 33"
| "to_ansi_fg_escape_code NC_DimYellow = Some 33"
| "to_ansi_fg_escape_code NC_Blue = Some 34"
| "to_ansi_fg_escape_code NC_DimBlue = Some 34"
| "to_ansi_fg_escape_code NC_Magenta = Some 35"
| "to_ansi_fg_escape_code NC_DimMagenta = Some 35"
| "to_ansi_fg_escape_code NC_Cyan = Some 36"
| "to_ansi_fg_escape_code NC_DimCyan = Some 36"
| "to_ansi_fg_escape_code NC_White = Some 37"
| "to_ansi_fg_escape_code NC_DimWhite = Some 37"
| "to_ansi_fg_escape_code NC_Foreground = Some 39"
| "to_ansi_fg_escape_code NC_BrightForeground = Some 39"
| "to_ansi_fg_escape_code NC_DimForeground = Some 39"
| "to_ansi_fg_escape_code NC_BrightBlack = Some 90"
| "to_ansi_fg_escape_code NC_BrightRed = Some 91"
| "to_ansi_fg_escape_code NC_BrightGreen = Some 92"
| "to_ansi_fg_escape_code NC_BrightYellow = Some 93"
| "to_ansi_fg_escape_code NC_BrightBlue = Some 94"
| "to_ansi_fg_escape_code NC_BrightMagenta = Some 95"
| "to_ansi_fg_escape_code NC_BrightCyan = Some 96"
| "to_ansi_fg_escape_code NC_BrightWhite = Some 97"
| "to_ansi_fg_escape_code _ = None"

fun into_color_index :: "named_color \<Rightarrow> nat" where
  "into_color_index NC_Black = 0"
| "into_color_index NC_Red = 1"
| "into_color_index NC_Green = 2"
| "into_color_index NC_Yellow = 3"
| "into_color_index NC_Blue = 4"
| "into_color_index NC_Magenta = 5"
| "into_color_index NC_Cyan = 6"
| "into_color_index NC_White = 7"
| "into_color_index NC_BrightBlack = 8"
| "into_color_index NC_BrightRed = 9"
| "into_color_index NC_BrightGreen = 10"
| "into_color_index NC_BrightYellow = 11"
| "into_color_index NC_BrightBlue = 12"
| "into_color_index NC_BrightMagenta = 13"
| "into_color_index NC_BrightCyan = 14"
| "into_color_index NC_BrightWhite = 15"
| "into_color_index NC_Foreground = 256"
| "into_color_index NC_Background = 257"
| "into_color_index NC_Cursor = 258"
| "into_color_index NC_DimBlack = 259"
| "into_color_index NC_DimRed = 260"
| "into_color_index NC_DimGreen = 261"
| "into_color_index NC_DimYellow = 262"
| "into_color_index NC_DimBlue = 263"
| "into_color_index NC_DimMagenta = 264"
| "into_color_index NC_DimCyan = 265"
| "into_color_index NC_DimWhite = 266"
| "into_color_index NC_BrightForeground = 267"
| "into_color_index NC_DimForeground = 268"

record color_u =
  cu_r :: nat
  cu_g :: nat
  cu_b :: nat
  cu_a :: nat

datatype color = Named named_color | Spec color_u | Indexed nat

section \<open>Graphic rendition attributes\<close>

datatype attr =
    A_Reset | A_Bold | A_Dim | A_Italic | A_Underline | A_DoubleUnderline | A_BlinkSlow
  | A_BlinkFast | A_Reverse | A_Hidden | A_Strike | A_CancelBold | A_CancelBoldDim
  | A_CancelItalic | A_CancelUnderline | A_CancelBlink | A_CancelReverse | A_CancelHidden
  | A_CancelStrike | A_Foreground color | A_Background color

datatype charset_index = G0 | G1 | G2 | G3

datatype standard_charset = SC_Ascii | SC_SpecialCharacterAndusizeDrawing

definition line_drawing_table :: "(uchar \<times> uchar) list" where
  "line_drawing_table =
    [(ch CHR 0x60, 0x25C6), (ch CHR ''a'', 0x2592), (ch CHR ''b'', 0x9), (ch CHR ''c'', 0xC),
     (ch CHR ''d'', 0xD), (ch CHR ''e'', 0xA), (ch CHR ''f'', 0xB0), (ch CHR ''g'', 0xB1),
     (ch CHR ''h'', 0x2424), (ch CHR ''i'', 0xB), (ch CHR ''j'', 0x2518), (ch CHR ''k'', 0x2510),
     (ch CHR ''l'', 0x250C), (ch CHR ''m'', 0x2514), (ch CHR ''n'', 0x253C), (ch CHR ''o'', 0x23BA),
     (ch CHR ''p'', 0x23BB), (ch CHR ''q'', 0x2500), (ch CHR ''r'', 0x23BC), (ch CHR ''s'', 0x23BD),
     (ch CHR ''t'', 0x251C), (ch CHR ''u'', 0x2524), (ch CHR ''v'', 0x2534), (ch CHR ''w'', 0x252C),
     (ch CHR ''x'', 0x2502), (ch CHR ''y'', 0x2264), (ch CHR ''z'', 0x2265), (ch CHR 0x7B, 0x3C0),
     (ch CHR 0x7C, 0x2260), (ch CHR 0x7D, 0xA3), (ch CHR 0x7E, 0xB7)]"

fun charset_map :: "standard_charset \<Rightarrow> uchar \<Rightarrow> uchar" where
  "charset_map SC_Ascii c = c"
| "charset_map SC_SpecialCharacterAndusizeDrawing c =
    (case map_of line_drawing_table c of Some d \<Rightarrow> d | None \<Rightarrow> c)"

type_synonym sgr_param = "nat \<times> nat list"

definition u8_try_from :: "nat \<Rightarrow> nat option" where
  "u8_try_from n = (if n < 256 then Some n else None)"


text \<open>
  The color that follows a 38 or 48 is read off the iterator of numbers; the numbers left in
  the iterator are returned with it, also when the color is malformed.
\<close>

fun take_u8 :: "nat list \<Rightarrow> nat option \<times> nat list" where
  "take_u8 [] = (None, [])"
| "take_u8 (n # ns) = (u8_try_from n, ns)"

definition parse_rgb :: "nat list \<Rightarrow> color option \<times> nat list" where
  "parse_rgb ns =
    (case take_u8 ns of
       (None, ns1) \<Rightarrow> (None, ns1)
     | (Some r, ns1) \<Rightarrow>
        (case take_u8 ns1 of
           (None, ns2) \<Rightarrow> (None, ns2)
         | (Some g, ns2) \<Rightarrow>
            (case take_u8 ns2 of
               (None, ns3) \<Rightarrow> (None, ns3)
             | (Some b, ns3) \<Rightarrow>
                 (Some (Spec \<lparr>cu_r = r, cu_g = g, cu_b = b, cu_a = 255\<rparr>), ns3))))"

fun parse_sgr_color :: "nat list \<Rightarrow> color option \<times> nat list" where
  "parse_sgr_color [] = (None, [])"
| "parse_sgr_color (n # ns) =
    (if n = 2 then parse_rgb ns
     else if n = 5 then (case take_u8 ns of (i, ns') \<Rightarrow> (map_option Indexed i, ns'))
     else (None, ns))"

definition sgr_table :: "(nat \<times> attr) list" where
  "sgr_table =
    [(0, A_Reset), (1, A_Bold), (2, A_Dim), (3, A_Italic), (5, A_BlinkSlow), (6, A_BlinkFast),
     (7, A_Reverse), (8, A_Hidden), (9, A_Strike), (21, A_CancelBold), (22, A_CancelBoldDim),
     (23, A_CancelItalic), (24, A_CancelUnderline), (25, A_CancelBlink), (27, A_CancelReverse),
     (28, A_CancelHidden), (29, A_CancelStrike), (30, A_Foreground (Named NC_Black)),
     (31, A_Foreground (Named NC_Red)), (32, A_Foreground (Named NC_Green)),
     (33, A_Foreground (Named NC_Yellow)), (34, A_Foreground (Named NC_Blue)),
     (35, A_Foreground (Named NC_Magenta)), (36, A_Foreground (Named NC_Cyan)),
     (37, A_Foreground (Named NC_White)), (39, A_Foreground (Named NC_Foreground)),
     (40, A_Background (Named NC_Black)), (41, A_Background (Named NC_Red)),
     (42, A_Background (Named NC_Green)), (43, A_Background (Named NC_Yellow)),
     (44, A_Background (Named NC_Blue)), (45, A_Background (Named NC_Magenta)),
     (46, A_Background (Named NC_Cyan)), (47, A_Background (Named NC_White)),
     (49, A_Background (Named NC_Background)), (90, A_Foreground (Named NC_BrightBlack)),
     (91, A_Foreground (Named NC_BrightRed)), (92, A_Foreground (Named NC_BrightGreen)),
     (93, A_Foreground (Named NC_BrightYellow)), (94, A_Foreground (Named NC_BrightBlue)),
     (95, A_Foreground (Named NC_BrightMagenta)), (96, A_Foreground (Named NC_BrightCyan)),
     (97, A_Foreground (Named NC_BrightWhite)), (100, A_Background (Named NC_BrightBlack)),
     (101, A_Background (Named NC_BrightRed)), (102, A_Background (Named NC_BrightGreen)),
     (103, A_Background (Named NC_BrightYellow)), (104, A_Background (Named NC_BrightBlue)),
     (105, A_Background (Named NC_BrightMagenta)), (106, A_Background (Named NC_BrightCyan)),
     (107, A_Background (Named NC_BrightWhite))]"

text \<open>
  One iteration of the loop: the attribute of a parameter and the parameters the iterator has
  left. A lone 38 or 48 takes its color from the first numbers of the parameters that follow;
  with sub-parameters the color is in them, after a color space if there are more than four.
\<close>

definition subparam_color :: "nat list \<Rightarrow> color option" where
  "subparam_color ps =
    (let rgb_start = (if length ps > 4 then 2 else 1)
     in fst (parse_sgr_color (hd ps # drop rgb_start ps)))"

definition following_color :: "sgr_param list \<Rightarrow> color option \<times> sgr_param list" where
  "following_color ps =
    (case parse_sgr_color (map fst ps) of
       (c, ns) \<Rightarrow> (c, drop (length ps - length ns) ps))"

fun sgr_step :: "sgr_param \<Rightarrow> sgr_param list \<Rightarrow> attr option \<times> sgr_param list" where
  "sgr_step (n, []) ps =
    (if n = 4 then (Some A_Underline, ps)
     else if n = 38 then (case following_color ps of (c, ps') \<Rightarrow> (map_option A_Foreground c, ps'))
     else if n = 48 then (case following_color ps of (c, ps') \<Rightarrow> (map_option A_Background c, ps'))
     else (map_of sgr_table n, ps))"
| "sgr_step (n, m # ms) ps =
    (if n = 4 then
       (if m = 0 \<and> ms = [] then (Some A_CancelUnderline, ps)
        else if m = 2 \<and> ms = [] then (Some A_DoubleUnderline, ps)
        else (Some A_Underline, ps))
     else if n = 38 then (map_option A_Foreground (subparam_color (m # ms)), ps)
     else if n = 48 then (map_option A_Background (subparam_color (m # ms)), ps)
     else (None, ps))"

lemma length_take_u8: "take_u8 ns = (a, ns') \<Longrightarrow> length ns' \<le> length ns"
  by (cases ns) auto

lemma length_parse_rgb: "parse_rgb ns = (c, ns') \<Longrightarrow> length ns' \<le> length ns"
  by (auto simp: parse_rgb_def split: option.splits prod.splits dest!: length_take_u8)

lemma length_parse_sgr_color:
  "parse_sgr_color ns = (c, ns') \<Longrightarrow> length ns' \<le> length ns - 1"
  by (cases ns)
    (auto split: if_splits prod.splits dest: length_parse_rgb length_take_u8)

lemma length_sgr_step: "length (snd (sgr_step p ps)) \<le> length ps"
  by (cases "(p, ps)" rule: sgr_step.cases) (auto simp: following_color_def split: prod.splits)

function attrs_from_sgr_parameters :: "sgr_param list \<Rightarrow> attr option list" where
  "attrs_from_sgr_parameters [] = []"
| "attrs_from_sgr_parameters (p # ps) =
    (case sgr_step p ps of (a, ps') \<Rightarrow> a # attrs_from_sgr_parameters ps')"
  by pat_completeness auto
termination
proof (relation "measure length")
  fix p ps a ps'
  assume "(a, ps') = sgr_step p ps"
  then show "(ps', p # ps) \<in> measure length"
    using length_sgr_step [of p ps] by (metis in_measure le_imp_less_Suc length_Cons snd_conv)
qed simp

section \<open>Prompt markers\<close>

datatype prompt_kind = PK_Initial | PK_Right

datatype prompt_marker = StartPrompt prompt_kind | EndPrompt

datatype prompt_marker_parse_error = UnknownParam | MalformedOption

definition prompt_kind_try_from :: "uchar list \<Rightarrow> prompt_kind option" where
  "prompt_kind_try_from value =
    (if value = chars ''i'' then Some PK_Initial
     else if value = chars ''r'' then Some PK_Right else None)"

fun position :: "('a \<Rightarrow> bool) \<Rightarrow> 'a list \<Rightarrow> nat option" where
  "position p [] = None"
| "position p (x # xs) = (if p x then Some 0 else map_option Suc (position p xs))"

text \<open>The loop over the options of a \<open>P\<close> marker: the last well-formed \<open>k\<close> wins.\<close>

fun prompt_options ::
  "uchar list list \<Rightarrow> prompt_kind \<Rightarrow> prompt_marker_parse_error + prompt_kind" where
  "prompt_options [] kind = Inr kind"
| "prompt_options (param # params) kind =
    (case position (\<lambda>b. b = ch CHR ''='') param of
       None \<Rightarrow> Inl MalformedOption
     | Some eq_index \<Rightarrow>
        if eq_index + 1 \<ge> length param then Inl MalformedOption
        else
          let key = take eq_index param; val = drop (eq_index + 1) param
          in prompt_options params
               (if key = chars ''k'' then
                  (case prompt_kind_try_from val of Some k \<Rightarrow> k | None \<Rightarrow> kind)
                else kind))"

fun prompt_marker_try_from :: "uchar list list \<Rightarrow> prompt_marker_parse_error + prompt_marker" where
  "prompt_marker_try_from [] = Inl UnknownParam"
| "prompt_marker_try_from (p # params) =
    (if p = chars ''A'' then Inr (StartPrompt PK_Initial)
     else if p = chars ''B'' then Inr EndPrompt
     else if p = chars ''P'' then
       (case prompt_options params PK_Initial of
          Inl e \<Rightarrow> Inl e | Inr k \<Rightarrow> Inr (StartPrompt k))
     else Inl UnknownParam)"

section \<open>Properties\<close>

text \<open>Palette colors: brightening undoes dimming and the indices do not collide.\<close>

definition is_base_color :: "named_color \<Rightarrow> bool" where
  "is_base_color c \<longleftrightarrow>
     c \<in> {NC_Black, NC_Red, NC_Green, NC_Yellow, NC_Blue, NC_Magenta, NC_Cyan, NC_White,
          NC_Foreground}"

lemma to_bright_to_dim: "is_base_color c \<Longrightarrow> to_bright (to_dim c) = c"
  by (auto simp: is_base_color_def)

lemma to_dim_to_bright: "is_base_color c \<Longrightarrow> to_dim (to_bright c) = c"
  by (auto simp: is_base_color_def)

lemma into_color_index_inject: "into_color_index c = into_color_index d \<longleftrightarrow> c = d"
  by (cases c; cases d; simp)

text \<open>
  What a terminal shows for a color it can only select through a code without a dim variant:
  the dim colors map to their base color, the three foregrounds to one.
\<close>

fun canonical_color :: "named_color \<Rightarrow> named_color" where
  "canonical_color NC_BrightForeground = NC_Foreground"
| "canonical_color NC_DimForeground = NC_Foreground"
| "canonical_color NC_DimBlack = NC_Black"
| "canonical_color NC_DimRed = NC_Red"
| "canonical_color NC_DimGreen = NC_Green"
| "canonical_color NC_DimYellow = NC_Yellow"
| "canonical_color NC_DimBlue = NC_Blue"
| "canonical_color NC_DimMagenta = NC_Magenta"
| "canonical_color NC_DimCyan = NC_Cyan"
| "canonical_color NC_DimWhite = NC_White"
| "canonical_color c = c"

lemma fg_code_lookup:
  "to_ansi_fg_escape_code c = Some code \<Longrightarrow>
     code \<noteq> 4 \<and> code \<noteq> 38 \<and> code \<noteq> 48 \<and>
     map_of sgr_table code = Some (A_Foreground (Named (canonical_color c)))"
  by (cases c) (auto simp: sgr_table_def)

lemma bg_code_lookup:
  "to_ansi_bg_escape_code c = Some code \<Longrightarrow>
     code \<noteq> 4 \<and> code \<noteq> 38 \<and> code \<noteq> 48 \<and>
     map_of sgr_table code = Some (A_Background (Named (canonical_color c)))"
  by (cases c) (auto simp: sgr_table_def)

lemma map_of_sgr_fg: "map_of sgr_table n = Some (A_Foreground (Named c)) \<Longrightarrow>
    to_ansi_fg_escape_code c = Some n"
  by (drule map_of_SomeD) (auto simp: sgr_table_def)

lemma map_of_sgr_bg: "map_of sgr_table n = Some (A_Background (Named c)) \<Longrightarrow>
    to_ansi_bg_escape_code c = Some n"
  by (drule map_of_SomeD) (auto simp: sgr_table_def)

lemma parse_rgb_named: "fst (parse_rgb ns) \<noteq> Some (Named c)"
  by (auto simp: parse_rgb_def split: option.splits prod.splits)

lemma parse_sgr_color_named: "fst (parse_sgr_color ns) \<noteq> Some (Named c)"
  using parse_rgb_named by (cases ns) (auto split: prod.splits)

lemma sgr_step_named_fg:
  "sgr_step (n, ms) ps = (Some (A_Foreground (Named c)), ps') \<Longrightarrow>
     to_ansi_fg_escape_code c = Some n \<and> ms = []"
  using parse_sgr_color_named [of "map fst ps" c]
    parse_sgr_color_named [of "hd ms # drop (if length ms > 4 then 2 else 1) ms" c]
  by (cases ms)
    (auto simp: following_color_def subparam_color_def Let_def
      dest: map_of_sgr_fg split: if_splits prod.splits)

text \<open>Direct colors: the numbers of a color are taken off the stream and nothing else is.\<close>

lemma parse_sgr_color_rgb:
  "r < 256 \<Longrightarrow> g < 256 \<Longrightarrow> b < 256 \<Longrightarrow>
     parse_sgr_color (2 # r # g # b # ns) =
       (Some (Spec \<lparr>cu_r = r, cu_g = g, cu_b = b, cu_a = 255\<rparr>), ns)"
  by (simp add: parse_rgb_def u8_try_from_def)

lemma parse_sgr_color_indexed:
  "i < 256 \<Longrightarrow> parse_sgr_color (5 # i # ns) = (Some (Indexed i), ns)"
  by (simp add: u8_try_from_def)

lemma attrs_length: "length (attrs_from_sgr_parameters ps) \<le> length ps"
proof (induction ps rule: attrs_from_sgr_parameters.induct)
  case (2 p ps)
  obtain a ps' where step: "sgr_step p ps = (a, ps')" by fastforce
  with 2 [OF step [symmetric]] length_sgr_step [of p ps] show ?case by simp
qed simp

lemma position_Some:
  "position p xs = Some i \<longleftrightarrow> i < length xs \<and> p (xs ! i) \<and> (\<forall>j<i. \<not> p (xs ! j))"
proof (induction xs arbitrary: i)
  case (Cons x xs)
  then show ?case by (cases i) (auto simp: less_Suc_eq_0_disj)
qed simp

lemma position_None: "position p xs = None \<longleftrightarrow> (\<forall>x\<in>set xs. \<not> p x)"
  by (induction xs) auto

definition well_formed_option :: "uchar list \<Rightarrow> bool" where
  "well_formed_option p \<longleftrightarrow>
     (case position (\<lambda>b. b = ch CHR ''='') p of None \<Rightarrow> False | Some i \<Rightarrow> i + 1 < length p)"

lemma prompt_options_error:
  "prompt_options params k = Inl e \<longleftrightarrow>
     e = MalformedOption \<and> (\<exists>p\<in>set params. \<not> well_formed_option p)"
  by (induction params arbitrary: k)
    (auto simp: well_formed_option_def Let_def split: option.splits if_splits)

lemma private_modes_inject:
  "map_of private_modes n = Some m \<Longrightarrow> map_of private_modes k = Some m \<Longrightarrow> n = k"
  by (erule (1) map_of_distinct_values [rotated]) (simp add: private_modes_def)

lemma ansi_modes_inject:
  "map_of ansi_modes n = Some m \<Longrightarrow> map_of ansi_modes k = Some m \<Longrightarrow> n = k"
  by (erule (1) map_of_distinct_values [rotated]) (simp add: ansi_modes_def)

lemma modes_disjoint:
  assumes "map_of private_modes n = Some m"
  shows "map_of ansi_modes k \<noteq> Some m"
  using map_of_SomeD [OF assms]
  by (auto simp: private_modes_def ansi_modes_def split: if_splits)

lemma prompt_options_Inr: "prompt_options params k = Inr k' \<Longrightarrow> p \<in> set params \<Longrightarrow> well_formed_option p"
  using prompt_options_error [of params k MalformedOption] by auto

text \<open>
  Selecting a foreground color by its escape code and decoding that code gives the color
  back, up to the dim and foreground variants that share a code; the rest of the parameters is
  decoded as if the color were not there.
\<close>

theorem fg_escape_code_roundtrip:
  assumes "to_ansi_fg_escape_code c = Some code"
  shows "attrs_from_sgr_parameters ((code, []) # ps) =
           Some (A_Foreground (Named (canonical_color c))) # attrs_from_sgr_parameters ps"
  using fg_code_lookup [OF assms] by simp

theorem fg_escape_code_roundtrip_witness:
  "to_ansi_fg_escape_code NC_DimRed = Some 31 \<and>
   attrs_from_sgr_parameters [(31, [])] = [Some (A_Foreground (Named NC_Red))]"
  using fg_escape_code_roundtrip [of NC_DimRed 31 "[]"] by simp

text \<open>
  The other way round: a parameter decoded to a named foreground color is the escape code of
  that color, and it has no sub-parameters.
\<close>

theorem named_fg_reencodes:
  assumes "attrs_from_sgr_parameters ((n, ms) # ps) =
             Some (A_Foreground (Named c)) # attrs_from_sgr_parameters ps'"
  shows "to_ansi_fg_escape_code c = Some n \<and> ms = []"
  using assms sgr_step_named_fg by (auto split: prod.splits)

theorem named_fg_reencodes_witness:
  "to_ansi_fg_escape_code NC_BrightCyan = Some 96"
  using named_fg_reencodes [of 96 "[]" "[]" NC_BrightCyan "[]"]
  by (simp add: sgr_table_def)

text \<open>
  The three spellings of a 24-bit foreground color (semicolons, colons, colons with a color
  space) decode to the same attribute, and none of them takes a parameter of what follows.
\<close>

theorem truecolor_spellings_agree:
  assumes "r < 256" and "g < 256" and "b < 256"
  defines "rgb \<equiv> Some (A_Foreground (Spec \<lparr>cu_r = r, cu_g = g, cu_b = b, cu_a = 255\<rparr>))"
  shows "attrs_from_sgr_parameters ((38, []) # (2, u) # (r, v) # (g, w) # (b, x) # ps) =
           rgb # attrs_from_sgr_parameters ps
       \<and> attrs_from_sgr_parameters ((38, [2, r, g, b]) # ps) = rgb # attrs_from_sgr_parameters ps
       \<and> attrs_from_sgr_parameters ((38, [2, cs, r, g, b]) # ps) =
           rgb # attrs_from_sgr_parameters ps"
  using parse_sgr_color_rgb [OF assms(1-3)] unfolding rgb_def
  by (simp add: following_color_def subparam_color_def Let_def)

theorem truecolor_spellings_agree_witness:
  "attrs_from_sgr_parameters [(38, []), (2, []), (10, []), (20, []), (30, []), (1, [])] =
     [Some (A_Foreground (Spec \<lparr>cu_r = 10, cu_g = 20, cu_b = 30, cu_a = 255\<rparr>)), Some A_Bold]"
  using truecolor_spellings_agree [of 10 20 30 "[]" "[]" "[]" "[]" "[(1, [])]" 0]
  by (simp add: sgr_table_def)

text \<open>
  A mode number and the marker before it are determined by the mode they select: no two
  control sequences set the same mode.
\<close>

theorem mode_from_primitive_inject:
  assumes "mode_from_primitive i n = Some m" and "mode_from_primitive j k = Some m"
  shows "i = j \<and> n = k"
  using assms private_modes_inject ansi_modes_inject modes_disjoint
  by (auto simp: mode_from_primitive_def split: if_splits option.splits)

theorem mode_from_primitive_inject_witness:
  "mode_from_primitive (Some (ch CHR ''?'')) 1049 = Some (M_SwapScreen True)"
proof -
  have "mode_from_primitive (Some (ch CHR ''?'')) 1049 = Some (M_SwapScreen True)"
    by (simp add: mode_from_primitive_def private_modes_def)
  with mode_from_primitive_inject [OF this this] show ?thesis by simp
qed

text \<open>
  A prompt marker is rejected as malformed exactly when it is a \<open>P\<close> marker with an option
  that has no \<open>=\<close> or nothing after it.
\<close>

theorem prompt_marker_malformed_iff:
  "prompt_marker_try_from ps = Inl MalformedOption \<longleftrightarrow>
     (\<exists>params. ps = chars ''P'' # params \<and> (\<exists>p\<in>set params. \<not> well_formed_option p))"
  by (cases ps)
    (auto simp: prompt_options_error chars_def ch_def dest: prompt_options_Inr split: sum.splits)

end
