(* ===== verification/Grid_Row.thy ===== *)
theory Grid_Row
  imports Ansi_Params
begin

unbundle bit_operations_syntax

text \<open>
  Cells and rows of the terminal grid:
  \<^verbatim>\<open>crates/warp_terminal/src/model/grid/cell.rs\<close> and \<^verbatim>\<open>row.rs\<close> beside it.
  A \<open>Row\<close> is its cells and \<open>occ\<close>, the number of cells that may differ from a freshly
  reset row; the invariant \<open>row_wf\<close> is what that counter promises, and the correctness of
  the fast \<open>reset\<close> rests on it.
\<close>

section \<open>Cells\<close>

type_synonym flags = "16 word"

definition F_INVERSE :: flags where "F_INVERSE = 0x1"
definition F_BOLD :: flags where "F_BOLD = 0x2"
definition F_ITALIC :: flags where "F_ITALIC = 0x4"
definition F_UNDERLINE :: flags where "F_UNDERLINE = 0x8"
definition F_WRAPLINE :: flags where "F_WRAPLINE = 0x10"
definition F_WIDE_CHAR :: flags where "F_WIDE_CHAR = 0x20"
definition F_WIDE_CHAR_SPACER :: flags where "F_WIDE_CHAR_SPACER = 0x40"
definition F_DIM :: flags where "F_DIM = 0x80"
definition F_HIDDEN :: flags where "F_HIDDEN = 0x100"
definition F_STRIKEOUT :: flags where "F_STRIKEOUT = 0x200"
definition F_LEADING_WIDE_CHAR_SPACER :: flags where "F_LEADING_WIDE_CHAR_SPACER = 0x400"
definition F_DOUBLE_UNDERLINE :: flags where "F_DOUBLE_UNDERLINE = 0x800"
definition F_HAS_CURSOR :: flags where "F_HAS_CURSOR = 0x1000"

lemmas flag_defs = F_INVERSE_def F_BOLD_def F_ITALIC_def F_UNDERLINE_def F_WRAPLINE_def
  F_WIDE_CHAR_def F_WIDE_CHAR_SPACER_def F_DIM_def F_HIDDEN_def F_STRIKEOUT_def
  F_LEADING_WIDE_CHAR_SPACER_def F_DOUBLE_UNDERLINE_def F_HAS_CURSOR_def

text \<open>The operations of the \<open>bitflags\<close> crate the code uses.\<close>

definition flags_contains :: "flags \<Rightarrow> flags \<Rightarrow> bool" where
  "flags_contains fs f \<longleftrightarrow> fs AND f = f"

definition flags_intersects :: "flags \<Rightarrow> flags \<Rightarrow> bool" where
  "flags_intersects fs f \<longleftrightarrow> fs AND f \<noteq> 0"

definition flags_insert :: "flags \<Rightarrow> flags \<Rightarrow> flags" where
  "flags_insert f fs = fs OR f"

definition flags_remove :: "flags \<Rightarrow> flags \<Rightarrow> flags" where
  "flags_remove f fs = fs AND NOT f"

lemma contains_insert: "flags_contains (flags_insert f fs) f"
  by (simp add: flags_contains_def flags_insert_def bit_eq_iff bit_simps)

lemma remove_insert_contains: "\<not> flags_intersects (flags_remove f fs) f"
  by (simp add: flags_intersects_def flags_remove_def bit_eq_iff bit_simps)

record end_of_prompt_marker =
  has_extra_trailing_newline :: bool

record cell_extra_data =
  cell_with_zero_width :: "uchar list option"
  end_of_prompt :: "end_of_prompt_marker option"

record cell =
  cell_c :: uchar
  cell_fg :: color
  cell_bg :: color
  cell_flags :: flags
  cell_extra :: "cell_extra_data option"

definition DEFAULT_CHAR :: uchar where "DEFAULT_CHAR = 0"
definition MAX_GRAPHEME_BYTES :: nat where "MAX_GRAPHEME_BYTES = 256"

definition default_cell :: cell where
  "default_cell =
    \<lparr>cell_c = DEFAULT_CHAR, cell_fg = Named NC_Foreground, cell_bg = Named NC_Background,
     cell_flags = 0, cell_extra = None\<rparr>"

definition default_extra :: cell_extra_data where
  "default_extra = \<lparr>cell_with_zero_width = None, end_of_prompt = None\<rparr>"

text \<open>A blank cell of a background color, the \<open>From<Color>\<close> of a cell.\<close>

definition cell_from_color :: "color \<Rightarrow> cell" where
  "cell_from_color bg = default_cell\<lparr>cell_bg := bg\<rparr>"

definition cell_reset :: "cell \<Rightarrow> cell \<Rightarrow> cell" where
  "cell_reset template c = default_cell\<lparr>cell_bg := cell_bg template\<rparr>"

definition content_with_zerowidth :: "cell \<Rightarrow> uchar list option" where
  "content_with_zerowidth c = Option.bind (cell_extra c) cell_with_zero_width"

datatype char_or_str = Char uchar | Str "uchar list"

definition raw_content :: "cell \<Rightarrow> char_or_str" where
  "raw_content c =
    (case content_with_zerowidth c of Some s \<Rightarrow> Str s | None \<Rightarrow> Char (cell_c c))"

definition content_for_display :: "cell \<Rightarrow> char_or_str" where
  "content_for_display c =
    (case raw_content c of
       Char d \<Rightarrow> if d = DEFAULT_CHAR then Char (ch CHR '' '') else Char d
     | content \<Rightarrow> content)"

definition len_utf8 :: "uchar \<Rightarrow> nat" where
  "len_utf8 c = (if c < 0x80 then 1 else if c < 0x800 then 2 else if c < 0x10000 then 3 else 4)"

text \<open>\<open>String::len\<close> counts bytes.\<close>

definition str_len :: "uchar list \<Rightarrow> nat" where
  "str_len s = sum_list (map len_utf8 s)"

definition push_zerowidth :: "uchar \<Rightarrow> cell \<Rightarrow> cell" where
  "push_zerowidth c cl =
    (let cl1 = (if cell_c cl = DEFAULT_CHAR then cl\<lparr>cell_c := ch CHR '' ''\<rparr> else cl);
         extra = (case cell_extra cl1 of Some e \<Rightarrow> e | None \<Rightarrow> default_extra)
     in case cell_with_zero_width extra of
          Some zerowidth \<Rightarrow>
            if str_len zerowidth + len_utf8 c > MAX_GRAPHEME_BYTES
            then cl1\<lparr>cell_extra := Some extra\<rparr>
            else cl1\<lparr>cell_extra := Some (extra\<lparr>cell_with_zero_width := Some (zerowidth @ [c])\<rparr>)\<rparr>
        | None \<Rightarrow>
            cl1\<lparr>cell_extra := Some (extra\<lparr>cell_with_zero_width := Some [cell_c cl1, c]\<rparr>)\<rparr>)"

definition end_of_prompt_of :: "cell \<Rightarrow> end_of_prompt_marker option" where
  "end_of_prompt_of c = Option.bind (cell_extra c) end_of_prompt"

definition is_end_of_prompt :: "cell \<Rightarrow> bool" where
  "is_end_of_prompt c \<longleftrightarrow> end_of_prompt_of c \<noteq> None"

definition mark_end_of_prompt :: "bool \<Rightarrow> cell \<Rightarrow> cell" where
  "mark_end_of_prompt b c =
    c\<lparr>cell_extra :=
       Some ((case cell_extra c of Some e \<Rightarrow> e | None \<Rightarrow> default_extra)
         \<lparr>end_of_prompt := Some \<lparr>has_extra_trailing_newline = b\<rparr>\<rparr>)\<rparr>"

definition drop_extra :: "cell \<Rightarrow> cell" where
  "drop_extra c =
    (case cell_extra c of
       None \<Rightarrow> c
     | Some extra \<Rightarrow>
        (case end_of_prompt extra of
           None \<Rightarrow> c\<lparr>cell_extra := None\<rparr>
         | Some m \<Rightarrow> mark_end_of_prompt (has_extra_trailing_newline m) (c\<lparr>cell_extra := None\<rparr>)))"

definition cell_is_empty :: "cell \<Rightarrow> bool" where
  "cell_is_empty c \<longleftrightarrow>
     cell_c c = DEFAULT_CHAR \<and> cell_bg c = Named NC_Background \<and> cell_fg c = Named NC_Foreground \<and>
     \<not> flags_intersects (cell_flags c)
         (F_INVERSE OR F_UNDERLINE OR F_DOUBLE_UNDERLINE OR F_STRIKEOUT OR F_WRAPLINE OR
          F_WIDE_CHAR_SPACER OR F_LEADING_WIDE_CHAR_SPACER OR F_HAS_CURSOR)"

definition is_ascii_whitespace :: "uchar \<Rightarrow> bool" where
  "is_ascii_whitespace c \<longleftrightarrow> c \<in> {0x20, 0x9, 0xA, 0xC, 0xD}"

definition cell_is_visible :: "cell \<Rightarrow> bool" where
  "cell_is_visible c \<longleftrightarrow> \<not> cell_is_empty c \<and> \<not> is_ascii_whitespace (cell_c c)"

section \<open>Rows\<close>

record row =
  row_inner :: "cell list"
  row_occ :: nat

definition row_new :: "nat \<Rightarrow> row panics" where
  "row_new cols =
    do { assert_that (cols \<ge> 1);
         Some \<lparr>row_inner = replicate cols default_cell, row_occ = 0\<rparr> }"

definition row_len :: "row \<Rightarrow> nat" where
  "row_len r = length (row_inner r)"

text \<open>\<open>Vec::resize_with\<close> either truncates or appends default values.\<close>

definition row_grow :: "nat \<Rightarrow> row \<Rightarrow> row" where
  "row_grow cols r =
    (if length (row_inner r) \<ge> cols then r
     else r\<lparr>row_inner := row_inner r @ replicate (cols - length (row_inner r)) default_cell\<rparr>)"

text \<open>\<open>rposition\<close> of the last cell to keep, plus one.\<close>

definition kept_prefix :: "cell list \<Rightarrow> cell list" where
  "kept_prefix cs =
     rev (dropWhile (\<lambda>c. cell_is_empty c \<and> \<not> is_end_of_prompt c) (rev cs))"

definition row_shrink :: "nat \<Rightarrow> row \<Rightarrow> cell list option \<times> row" where
  "row_shrink cols r =
    (if length (row_inner r) \<le> cols then (None, r)
     else
       let new_row = kept_prefix (drop cols (row_inner r));
           r' = r\<lparr>row_inner := take cols (row_inner r), row_occ := min (row_occ r) cols\<rparr>
       in (if new_row = [] then None else Some new_row, r'))"

definition row_truncate :: "nat \<Rightarrow> row \<Rightarrow> row" where
  "row_truncate cols r = r\<lparr>row_inner := take cols (row_inner r)\<rparr>"

definition row_reset :: "cell \<Rightarrow> row \<Rightarrow> row panics" where
  "row_reset template r =
    do { assert_that (row_inner r \<noteq> []);
         let len = length (row_inner r);
         let occ = (if cell_bg (row_inner r ! (len - 1)) \<noteq> cell_bg template then len
                    else row_occ r);
         cells \<leftarrow> map_range (cell_reset template) 0 occ (row_inner r);
         Some \<lparr>row_inner = cells, row_occ = 0\<rparr> }"

definition row_get :: "nat \<Rightarrow> row \<Rightarrow> cell option" where
  "row_get i r = (if i < row_len r then Some (row_inner r ! i) else None)"

definition row_last :: "row \<Rightarrow> cell option" where
  "row_last r = (if row_inner r = [] then None else Some (last (row_inner r)))"

definition row_append :: "cell list \<Rightarrow> row \<Rightarrow> row" where
  "row_append cs r = r\<lparr>row_occ := row_occ r + length cs, row_inner := row_inner r @ cs\<rparr>"

definition row_append_front :: "cell list \<Rightarrow> row \<Rightarrow> row" where
  "row_append_front cs r = r\<lparr>row_occ := row_occ r + length cs, row_inner := cs @ row_inner r\<rparr>"

definition row_is_clear :: "row \<Rightarrow> bool" where
  "row_is_clear r \<longleftrightarrow> list_all cell_is_empty (row_inner r)"

definition has_no_end_of_prompt_marker :: "row \<Rightarrow> bool" where
  "has_no_end_of_prompt_marker r \<longleftrightarrow> list_all (\<lambda>c. \<not> is_end_of_prompt c) (row_inner r)"

text \<open>\<open>Vec::split_off\<close> panics beyond the end.\<close>

definition row_front_split_off :: "nat \<Rightarrow> row \<Rightarrow> (cell list \<times> row) panics" where
  "row_front_split_off at r =
    do { assert_that (at \<le> length (row_inner r));
         Some (take at (row_inner r),
               r\<lparr>row_occ := row_occ r - at, row_inner := drop at (row_inner r)\<rparr>) }"

definition dirty_cells :: "row \<Rightarrow> cell list panics" where
  "dirty_cells r =
    do { assert_that (row_occ r \<le> length (row_inner r)); Some (take (row_occ r) (row_inner r)) }"

subsection \<open>Mutable indexing\<close>

text \<open>
  Every mutable borrow first raises \<open>occ\<close> to cover what it hands out. The update \<open>f\<close> is
  what the borrower does with a cell of the slice.
\<close>

definition row_index_mut :: "nat \<Rightarrow> (cell \<Rightarrow> cell) \<Rightarrow> row \<Rightarrow> row panics" where
  "row_index_mut i f r =
    do { cells \<leftarrow> map_range f i (i + 1) (row_inner r);
         Some \<lparr>row_inner = cells, row_occ = max (row_occ r) (i + 1)\<rparr> }"

definition row_range_mut :: "nat \<Rightarrow> nat \<Rightarrow> (cell \<Rightarrow> cell) \<Rightarrow> row \<Rightarrow> row panics" where
  "row_range_mut a b f r =
    do { cells \<leftarrow> map_range f a b (row_inner r);
         Some \<lparr>row_inner = cells, row_occ = max (row_occ r) b\<rparr> }"

definition row_range_to_mut :: "nat \<Rightarrow> (cell \<Rightarrow> cell) \<Rightarrow> row \<Rightarrow> row panics" where
  "row_range_to_mut b f r =
    do { cells \<leftarrow> map_range f 0 b (row_inner r);
         Some \<lparr>row_inner = cells, row_occ = max (row_occ r) b\<rparr> }"

definition row_range_from_mut :: "nat \<Rightarrow> (cell \<Rightarrow> cell) \<Rightarrow> row \<Rightarrow> row panics" where
  "row_range_from_mut a f r =
    do { cells \<leftarrow> map_range f a (length (row_inner r)) (row_inner r);
         Some \<lparr>row_inner = cells, row_occ = length (row_inner r)\<rparr> }"

definition row_range_to_inclusive_mut :: "nat \<Rightarrow> (cell \<Rightarrow> cell) \<Rightarrow> row \<Rightarrow> row panics" where
  "row_range_to_inclusive_mut b f r =
    do { cells \<leftarrow> map_range f 0 (b + 1) (row_inner r);
         Some \<lparr>row_inner = cells, row_occ = max (row_occ r) b\<rparr> }"

text \<open>The whole row as one slice, for borrowers that move cells around.\<close>

definition row_full_mut :: "(cell list \<Rightarrow> cell list panics) \<Rightarrow> row \<Rightarrow> row panics" where
  "row_full_mut f r =
    do { cells \<leftarrow> f (row_inner r); Some \<lparr>row_inner = cells, row_occ = length (row_inner r)\<rparr> }"

definition row_last_mut :: "(cell \<Rightarrow> cell) \<Rightarrow> row \<Rightarrow> row" where
  "row_last_mut f r =
    (if row_inner r = [] then r\<lparr>row_occ := 0\<rparr>
     else \<lparr>row_inner = butlast (row_inner r) @ [f (last (row_inner r))],
           row_occ = length (row_inner r)\<rparr>)"

text \<open>\<open>LineLength\<close>: a wrapped line is full, otherwise the trailing untouched cells are cut.\<close>

definition line_length :: "row \<Rightarrow> nat" where
  "line_length r =
    (if row_inner r = [] then 0
     else if flags_contains (cell_flags (last (row_inner r))) F_WRAPLINE then row_len r
     else length (dropWhile (\<lambda>c. cell_c c = DEFAULT_CHAR) (rev (row_inner r))))"

section \<open>The promise of \<open>occ\<close>\<close>

text \<open>
  The doc comment of \<open>occ\<close>: no cell at or after it has been modified since the last reset,
  and all of them are equal. They are blank cells of the background color of the last one.
\<close>

definition row_wf :: "row \<Rightarrow> bool" where
  "row_wf r \<longleftrightarrow>
     row_occ r \<le> length (row_inner r) \<and>
     (let tail = drop (row_occ r) (row_inner r)
      in list_all (\<lambda>c. c = cell_from_color (cell_bg (hd tail))) tail)"

lemma cell_reset_eq: "cell_reset t c = cell_from_color (cell_bg t)"
  by (simp add: cell_reset_def cell_from_color_def)

lemma cell_bg_from_color [simp]: "cell_bg (cell_from_color c) = c"
  by (simp add: cell_from_color_def)

lemma default_cell_eq: "default_cell = cell_from_color (Named NC_Background)"
  by (simp add: cell_from_color_def default_cell_def)

lemma row_wf_iff:
  "row_wf r \<longleftrightarrow>
     row_occ r \<le> length (row_inner r) \<and>
     (\<exists>bg. \<forall>c \<in> set (drop (row_occ r) (row_inner r)). c = cell_from_color bg)"
  by (cases "drop (row_occ r) (row_inner r)") (auto simp: row_wf_def list_all_iff)

lemma row_wf_full: "row_occ r = length (row_inner r) \<Longrightarrow> row_wf r"
  by (simp add: row_wf_iff)

lemma row_wf_suffix:
  assumes "row_wf r" and "row_occ r' \<le> length (row_inner r')"
    and "set (drop (row_occ r') (row_inner r')) \<subseteq> set (drop (row_occ r) (row_inner r))"
  shows "row_wf r'"
  using assms unfolding row_wf_iff by blast

lemma row_wf_nth:
  assumes "row_wf r"
  shows "\<exists>bg. \<forall>i < length (row_inner r). row_occ r \<le> i \<longrightarrow> row_inner r ! i = cell_from_color bg"
proof -
  obtain bg where bg: "\<forall>c \<in> set (drop (row_occ r) (row_inner r)). c = cell_from_color bg"
    using assms by (auto simp: row_wf_iff)
  have "row_inner r ! i = cell_from_color bg"
    if "row_occ r \<le> i" "i < length (row_inner r)" for i
  proof -
    have "drop (row_occ r) (row_inner r) ! (i - row_occ r) \<in> set (drop (row_occ r) (row_inner r))"
      using that by (intro nth_mem) simp
    with that bg show ?thesis by simp
  qed
  then show ?thesis by blast
qed

lemma row_new_Some:
  "1 \<le> cols \<Longrightarrow> row_new cols = Some \<lparr>row_inner = replicate cols default_cell, row_occ = 0\<rparr>"
  by (simp add: row_new_def assert_that_def)

lemma row_new_wf: "row_new cols = Some r \<Longrightarrow> row_wf r"
  by (auto simp: row_new_def row_wf_iff default_cell_eq split: bind_splits)

definition blank_row :: "nat \<Rightarrow> color \<Rightarrow> row" where
  "blank_row cols bg = \<lparr>row_inner = replicate cols (cell_from_color bg), row_occ = 0\<rparr>"

lemma blank_row_wf [simp]: "row_wf (blank_row cols bg)"
  by (auto simp: row_wf_iff blank_row_def)

lemma row_len_blank [simp]: "row_len (blank_row cols bg) = cols"
  by (simp add: row_len_def blank_row_def)

text \<open>The fast reset is a full reset on every row that keeps the promise.\<close>

lemma row_reset_correct:
  assumes "row_wf r" and "row_inner r \<noteq> []"
  shows "row_reset t r = Some (blank_row (row_len r) (cell_bg t))"
proof -
  let ?cs = "row_inner r"
  define occ where
    "occ = (if cell_bg (?cs ! (length ?cs - 1)) \<noteq> cell_bg t then length ?cs else row_occ r)"
  have occ: "occ \<le> length ?cs"
    using assms(1) by (simp add: occ_def row_wf_def)
  obtain bg where bg: "\<And>i. row_occ r \<le> i \<Longrightarrow> i < length ?cs \<Longrightarrow> ?cs ! i = cell_from_color bg"
    using row_wf_nth [OF assms(1)] by blast
  have tail: "?cs ! i = cell_from_color (cell_bg t)" if i: "i < length ?cs" "occ \<le> i" for i
  proof -
    have "cell_bg (?cs ! (length ?cs - 1)) = cell_bg t" and occ_i: "row_occ r \<le> i"
      using i by (auto simp: occ_def split: if_splits)
    moreover have "?cs ! (length ?cs - 1) = cell_from_color bg"
      using bg [of "length ?cs - 1"] occ_i i by simp
    ultimately show ?thesis using bg [OF occ_i i(1)] by simp
  qed
  have cells: "map (cell_reset t) (take occ ?cs) @ drop occ ?cs =
      replicate (length ?cs) (cell_from_color (cell_bg t))"
    using occ tail by (intro nth_equalityI) (auto simp: nth_append cell_reset_eq)
  have "map_range (cell_reset t) 0 occ ?cs =
      Some (replicate (length ?cs) (cell_from_color (cell_bg t)))"
    using occ cells by (simp add: map_range_def)
  then show ?thesis
    using assms(2) unfolding row_reset_def Let_def occ_def [symmetric]
    by (simp add: blank_row_def row_len_def)
qed

text \<open>Every operation but the inclusive slice, \<open>grow\<close> and \<open>append\<close> keeps the promise.\<close>

lemma drop_map_range: "map_range f a b xs = Some ys \<Longrightarrow> b \<le> m \<Longrightarrow> drop m ys = drop m xs"
  by (auto simp: map_range_def min_def drop_append split: if_splits)

lemma map_range_bound: "map_range f a b xs = Some ys \<Longrightarrow> b \<le> length xs"
  by (simp add: map_range_def split: if_splits)

lemma map_range_wf:
  assumes "row_wf r" and "map_range f a b (row_inner r) = Some cs"
  shows "row_wf \<lparr>row_inner = cs, row_occ = max (row_occ r) b\<rparr>"
proof (rule row_wf_suffix [OF assms(1)])
  show "row_occ \<lparr>row_inner = cs, row_occ = max (row_occ r) b\<rparr> \<le>
      length (row_inner \<lparr>row_inner = cs, row_occ = max (row_occ r) b\<rparr>)"
    using assms map_range_bound [OF assms(2)] by (simp add: length_map_range row_wf_def)
  show "set (drop (row_occ \<lparr>row_inner = cs, row_occ = max (row_occ r) b\<rparr>)
        (row_inner \<lparr>row_inner = cs, row_occ = max (row_occ r) b\<rparr>))
      \<subseteq> set (drop (row_occ r) (row_inner r))"
    using drop_map_range [OF assms(2)] by (simp add: set_drop_subset_set_drop)
qed

lemma row_index_mut_wf: "row_wf r \<Longrightarrow> row_index_mut i f r = Some r' \<Longrightarrow> row_wf r'"
  by (auto simp: row_index_mut_def split: bind_splits dest: map_range_wf)

lemma row_range_mut_wf: "row_wf r \<Longrightarrow> row_range_mut a b f r = Some r' \<Longrightarrow> row_wf r'"
  by (auto simp: row_range_mut_def split: bind_splits dest: map_range_wf)

lemma row_range_to_mut_wf: "row_wf r \<Longrightarrow> row_range_to_mut b f r = Some r' \<Longrightarrow> row_wf r'"
  by (auto simp: row_range_to_mut_def split: bind_splits dest: map_range_wf)

lemma row_range_from_mut_wf: "row_range_from_mut a f r = Some r' \<Longrightarrow> row_wf r'"
  by (auto simp: row_range_from_mut_def length_map_range intro!: row_wf_full split: bind_splits)

lemma row_full_mut_wf:
  "row_full_mut f r = Some r' \<Longrightarrow> (\<And>cs. f (row_inner r) = Some cs \<Longrightarrow> length cs = row_len r) \<Longrightarrow>
     row_wf r'"
  by (auto simp: row_full_mut_def row_len_def intro!: row_wf_full split: bind_splits)

lemma row_last_mut_wf: "row_wf (row_last_mut f r)"
  by (rule row_wf_full) (simp add: row_last_mut_def)

lemma row_append_front_wf: "row_wf r \<Longrightarrow> row_wf (row_append_front cs r)"
  by (rule row_wf_suffix, assumption) (auto simp: row_append_front_def row_wf_def)

lemma row_front_split_off_wf:
  assumes "row_wf r" and "row_front_split_off at r = Some (cs, r')"
  shows "row_wf r'"
proof -
  have r': "r' = r\<lparr>row_occ := row_occ r - at, row_inner := drop at (row_inner r)\<rparr>"
    using assms(2) by (auto simp: row_front_split_off_def split: bind_splits)
  have "row_occ r \<le> length (row_inner r)"
    using assms(1) by (simp add: row_wf_def)
  then show ?thesis
    by (intro row_wf_suffix [OF assms(1)]) (auto simp: r' set_drop_subset_set_drop)
qed

lemma row_shrink_wf:
  assumes "row_wf r"
  shows "row_wf (snd (row_shrink cols r))"
proof -
  have occ: "row_occ r \<le> length (row_inner r)"
    using assms by (simp add: row_wf_def)
  have "set (drop (row_occ r) (take cols (row_inner r))) \<subseteq> set (drop (row_occ r) (row_inner r))"
    by (simp add: drop_take set_take_subset)
  with occ assms show ?thesis
    by (auto simp: row_shrink_def Let_def min_def intro!: row_wf_suffix [OF assms])
qed

subsection \<open>Lengths\<close>

lemma row_len_index_mut: "row_index_mut i f r = Some r' \<Longrightarrow> row_len r' = row_len r"
  by (auto simp: row_index_mut_def row_len_def length_map_range split: bind_splits)

lemma row_len_range_mut: "row_range_mut a b f r = Some r' \<Longrightarrow> row_len r' = row_len r"
  by (auto simp: row_range_mut_def row_len_def length_map_range split: bind_splits)

lemma row_len_reset: "row_reset t r = Some r' \<Longrightarrow> row_len r' = row_len r"
  by (auto simp: row_reset_def row_len_def Let_def length_map_range split: bind_splits)

lemma row_len_grow: "row_len (row_grow cols r) = max cols (row_len r)"
  by (simp add: row_grow_def row_len_def)

lemma row_index_mut_Some:
  "i < row_len r \<Longrightarrow>
     row_index_mut i f r =
       Some \<lparr>row_inner = (row_inner r)[i := f (row_inner r ! i)],
             row_occ = max (row_occ r) (i + 1)\<rparr>"
  by (simp add: row_index_mut_def map_range_def row_len_def upd_conv_take_nth_drop take_Suc_conv_app_nth
      Cons_nth_drop_Suc [symmetric] drop_take)

subsection \<open>Cells: bounded graphemes, markers\<close>

lemma len_utf8_bounds: "1 \<le> len_utf8 c \<and> len_utf8 c \<le> 4"
  by (simp add: len_utf8_def)

definition grapheme_bytes :: "cell \<Rightarrow> nat" where
  "grapheme_bytes c = (case content_with_zerowidth c of None \<Rightarrow> 0 | Some s \<Rightarrow> str_len s)"

lemma push_zerowidth_bound:
  "grapheme_bytes c \<le> MAX_GRAPHEME_BYTES \<Longrightarrow> grapheme_bytes (push_zerowidth z c) \<le> MAX_GRAPHEME_BYTES"
  using len_utf8_bounds [of z] len_utf8_bounds [of "cell_c c"] len_utf8_bounds [of "ch CHR '' ''"]
  by (auto simp: grapheme_bytes_def push_zerowidth_def content_with_zerowidth_def str_len_def
      MAX_GRAPHEME_BYTES_def default_extra_def Let_def split: option.splits)

lemma end_of_prompt_drop_extra: "end_of_prompt_of (drop_extra c) = end_of_prompt_of c"
  by (auto simp: drop_extra_def end_of_prompt_of_def mark_end_of_prompt_def split: option.splits)

lemma push_zerowidth_content:
  assumes "content_with_zerowidth c = None"
  shows "raw_content (push_zerowidth z c) =
           Str [if cell_c c = DEFAULT_CHAR then ch CHR '' '' else cell_c c, z]"
  using assms
  by (auto simp: push_zerowidth_def raw_content_def content_with_zerowidth_def default_extra_def
      Let_def split: option.splits)

section \<open>Properties\<close>

text \<open>
  A grapheme never outgrows its cap: however many zero-width characters are pushed on a cell,
  its content stays within \<open>MAX_GRAPHEME_BYTES\<close> bytes.
\<close>

theorem grapheme_capped:
  assumes "grapheme_bytes c \<le> MAX_GRAPHEME_BYTES"
  shows "grapheme_bytes (fold push_zerowidth zs c) \<le> MAX_GRAPHEME_BYTES"
  using assms by (induction zs arbitrary: c) (auto intro: push_zerowidth_bound)

theorem grapheme_capped_witness:
  "grapheme_bytes (fold push_zerowidth (replicate 3 0x300) default_cell) \<le> MAX_GRAPHEME_BYTES"
  by (rule grapheme_capped)
    (simp add: grapheme_bytes_def content_with_zerowidth_def default_cell_def)

text \<open>
  The fast reset is complete: on a row that keeps the promise of \<open>occ\<close>, it leaves nothing but
  blank cells in the background color of the template, although it only visits the cells below
  \<open>occ\<close> when the color has not changed.
\<close>

theorem row_reset_blanks:
  assumes "row_wf r" and "row_inner r \<noteq> []"
  shows "row_reset template r =
           Some \<lparr>row_inner = replicate (row_len r) (cell_from_color (cell_bg template)), row_occ = 0\<rparr>"
  using row_reset_correct [OF assms] by (simp add: blank_row_def)

theorem row_reset_blanks_witness:
  "row_reset default_cell \<lparr>row_inner = [cell_from_color (Indexed 3), default_cell], row_occ = 1\<rparr> =
     Some \<lparr>row_inner = [default_cell, default_cell], row_occ = 0\<rparr>"
proof -
  let ?r = "\<lparr>row_inner = [cell_from_color (Indexed 3), default_cell], row_occ = 1\<rparr>"
  have "row_wf ?r"
    by (auto simp: row_wf_iff default_cell_eq)
  with row_reset_blanks [of ?r default_cell] show ?thesis
    by (simp add: row_len_def numeral_2_eq_2 default_cell_eq)
qed

text \<open>
  The inclusive slice \<open>row[..=b]\<close> breaks the promise: \<open>occ\<close> is raised to \<open>b\<close> and not to
  \<open>b + 1\<close>. Erasing a fresh row up to and including column \<open>b\<close> in another background color
  leaves a row that the next reset to the default color does not clean: the cell at column
  \<open>b\<close> keeps the old color.
\<close>

theorem inclusive_slice_survives_reset:
  assumes "b + 1 < cols" and "bg \<noteq> Named NC_Background"
  shows "\<exists>r r'. row_range_to_inclusive_mut b (\<lambda>_. cell_from_color bg)
                   \<lparr>row_inner = replicate cols default_cell, row_occ = 0\<rparr> = Some r \<and>
                row_reset default_cell r = Some r' \<and>
                row_inner r' ! b = cell_from_color bg"
proof -
  let ?cells = "replicate (b + 1) (cell_from_color bg) @ replicate (cols - (b + 1)) default_cell"
  have slice: "row_range_to_inclusive_mut b (\<lambda>_. cell_from_color bg)
      \<lparr>row_inner = replicate cols default_cell, row_occ = 0\<rparr> = Some \<lparr>row_inner = ?cells, row_occ = b\<rparr>"
    using assms(1)
    by (simp add: row_range_to_inclusive_mut_def map_range_def map_replicate_const min_def)
  have last: "?cells ! (length ?cells - 1) = default_cell"
    using assms(1) by (simp add: nth_append)
  have "row_reset default_cell \<lparr>row_inner = ?cells, row_occ = b\<rparr> =
      Some \<lparr>row_inner = map (cell_reset default_cell) (take b ?cells) @ drop b ?cells, row_occ = 0\<rparr>"
    using assms(1) last by (simp add: row_reset_def map_range_def Let_def)
  moreover have "(map (cell_reset default_cell) (take b ?cells) @ drop b ?cells) ! b = cell_from_color bg"
    using assms(1) by (simp add: nth_append min_def flip: replicate_append_same)
  ultimately show ?thesis
    using slice by (intro exI [of _ "\<lparr>row_inner = ?cells, row_occ = b\<rparr>"] exI conjI) auto
qed

theorem inclusive_slice_survives_reset_witness:
  "\<exists>r r'. row_range_to_inclusive_mut 0 (\<lambda>_. cell_from_color (Named NC_Red))
            \<lparr>row_inner = replicate 2 default_cell, row_occ = 0\<rparr> = Some r \<and>
          row_reset default_cell r = Some r' \<and> row_inner r' ! 0 = cell_from_color (Named NC_Red)"
  by (rule inclusive_slice_survives_reset) simp_all

end
