(* ===== verification/Ring_Storage.thy ===== *)
theory Ring_Storage
  imports Grid_Row
begin

text \<open>
  The circular row buffer under every grid: \<^verbatim>\<open>app/src/terminal/model/grid/storage.rs\<close>.
  \<open>inner\<close> is the allocated vector, \<open>bottom_row\<close> the offset of the logical origin and
  \<open>len\<close> the number of rows in use; \<open>is_sequential\<close> says whether grid index 0 is the first or
  the last row of the used part. The abstraction \<open>rows_of\<close> is the list of rows by grid index.
\<close>

record 'r storage =
  st_inner :: "'r list"
  st_bottom_row :: nat
  st_visible_lines :: nat
  st_len :: nat
  st_is_sequential :: bool
  st_max_cache_size :: nat

section \<open>Operations\<close>

definition storage_with_rows :: "'r list \<Rightarrow> bool \<Rightarrow> nat \<Rightarrow> 'r storage panics" where
  "storage_with_rows rows is_sequential visible_lines =
    do { assert_that (visible_lines \<le> length rows);
         Some \<lparr>st_inner = rows, st_bottom_row = 0, st_visible_lines = visible_lines,
               st_len = length rows, st_is_sequential = is_sequential, st_max_cache_size = 1\<rparr> }"

text \<open>\<open>Vec::resize_with\<close> with fresh rows.\<close>

definition resize_rows :: "nat \<Rightarrow> nat \<Rightarrow> row list \<Rightarrow> row list panics" where
  "resize_rows n cols rows =
    (if n \<le> length rows then Some (take n rows)
     else do { r \<leftarrow> row_new cols; Some (rows @ replicate (n - length rows) r) })"

definition storage_with_capacity :: "nat \<Rightarrow> nat \<Rightarrow> bool \<Rightarrow> row storage panics" where
  "storage_with_capacity visible_lines cols is_sequential =
    do { inner \<leftarrow> resize_rows visible_lines cols [];
         storage_with_rows inner is_sequential visible_lines }"

definition from_grid_index :: "'r storage \<Rightarrow> nat \<Rightarrow> nat panics" where
  "from_grid_index s requested =
    do { assert_that (requested < st_len s);
         let requested = (if st_is_sequential s then requested else st_len s - requested - 1);
         let zeroed = st_bottom_row s + requested;
         Some (if zeroed \<ge> length (st_inner s) then zeroed - length (st_inner s) else zeroed) }"

definition to_grid_index :: "'r storage \<Rightarrow> nat \<Rightarrow> nat panics" where
  "to_grid_index s row =
    do { history \<leftarrow> usub (st_len s) (st_visible_lines s); Some (history + row) }"

definition storage_index :: "'r storage \<Rightarrow> nat \<Rightarrow> 'r panics" where
  "storage_index s i = do { j \<leftarrow> from_grid_index s i; nth_checked (st_inner s) j }"

definition storage_index_mut :: "nat \<Rightarrow> ('r \<Rightarrow> 'r panics) \<Rightarrow> 'r storage \<Rightarrow> 'r storage panics" where
  "storage_index_mut i f s =
    do { j \<leftarrow> from_grid_index s i;
         r \<leftarrow> nth_checked (st_inner s) j;
         r' \<leftarrow> f r;
         Some (s\<lparr>st_inner := (st_inner s)[j := r']\<rparr>) }"

definition storage_index_visible :: "'r storage \<Rightarrow> nat \<Rightarrow> 'r panics" where
  "storage_index_visible s row = do { i \<leftarrow> to_grid_index s row; storage_index s i }"

definition storage_index_visible_mut ::
  "nat \<Rightarrow> ('r \<Rightarrow> 'r panics) \<Rightarrow> 'r storage \<Rightarrow> 'r storage panics" where
  "storage_index_visible_mut row f s = do { i \<leftarrow> to_grid_index s row; storage_index_mut i f s }"

text \<open>\<open>slice::rotate_left\<close> panics if it is asked to rotate by more than the length.\<close>

definition storage_rezero :: "'r storage \<Rightarrow> 'r storage panics" where
  "storage_rezero s =
    (if st_bottom_row s = 0 then Some s
     else do { assert_that (st_bottom_row s \<le> length (st_inner s));
               Some (s\<lparr>st_inner := rotate (st_bottom_row s) (st_inner s), st_bottom_row := 0\<rparr>) })"

definition truncate_unused_rows :: "'r storage \<Rightarrow> 'r storage panics" where
  "truncate_unused_rows s =
    do { s \<leftarrow> storage_rezero s; Some (s\<lparr>st_inner := take (st_len s) (st_inner s)\<rparr>) }"

definition shrink_lines :: "nat \<Rightarrow> 'r storage \<Rightarrow> 'r storage panics" where
  "shrink_lines shrinkage s =
    do { len \<leftarrow> usub (st_len s) shrinkage;
         let s = s\<lparr>st_len := len\<rparr>;
         if length (st_inner s) > st_len s + st_max_cache_size s then truncate_unused_rows s
         else Some s }"

definition shrink_visible_lines :: "nat \<Rightarrow> 'r storage \<Rightarrow> 'r storage panics" where
  "shrink_visible_lines n s =
    do { shrinkage \<leftarrow> usub (st_visible_lines s) n;
         s \<leftarrow> shrink_lines shrinkage s;
         Some (s\<lparr>st_visible_lines := n\<rparr>) }"

definition initialize :: "nat \<Rightarrow> nat \<Rightarrow> row storage \<Rightarrow> row storage panics" where
  "initialize additional_rows cols s =
    do { s \<leftarrow>
           (if st_len s + additional_rows > length (st_inner s) then
              do { s \<leftarrow> storage_rezero s;
                   let realloc_size =
                     length (st_inner s) + max additional_rows (st_max_cache_size s);
                   inner \<leftarrow> resize_rows realloc_size cols (st_inner s);
                   Some (s\<lparr>st_inner := inner\<rparr>) }
            else Some s);
         Some (s\<lparr>st_len := st_len s + additional_rows\<rparr>) }"

definition grow_visible_lines :: "nat \<Rightarrow> row storage \<Rightarrow> row storage panics" where
  "grow_visible_lines n s =
    do { growage \<leftarrow> usub n (st_visible_lines s);
         r \<leftarrow> storage_index s 0;
         s \<leftarrow> initialize growage (row_len r) s;
         Some (s\<lparr>st_visible_lines := n\<rparr>) }"

definition storage_truncate_columns :: "nat \<Rightarrow> row storage \<Rightarrow> row storage" where
  "storage_truncate_columns cols s = s\<lparr>st_inner := map (row_truncate cols) (st_inner s)\<rparr>"

definition truncate_to :: "nat \<Rightarrow> 'r storage \<Rightarrow> 'r storage panics" where
  "truncate_to target_len s =
    do { s \<leftarrow>
           (if target_len < st_len s then
              do { s \<leftarrow> storage_rezero s;
                   assert_that (st_len s - target_len \<le> length (st_inner s));
                   Some (s\<lparr>st_inner := drop (st_len s - target_len) (st_inner s),
                           st_len := target_len,
                           st_visible_lines := min (st_visible_lines s) target_len\<rparr>) }
            else Some s);
         truncate_unused_rows s }"

text \<open>\<open>Vec::splice\<close> over the unused tail.\<close>

definition push_from_scrollback :: "'r list \<Rightarrow> 'r storage \<Rightarrow> 'r storage panics" where
  "push_from_scrollback rows s =
    do { let num_rows = length rows;
         let rows = (if st_is_sequential s then rows else rev rows);
         s \<leftarrow> storage_rezero s;
         assert_that (st_len s \<le> length (st_inner s));
         Some (s\<lparr>st_inner := take (st_len s) (st_inner s) @ rows,
                 st_len := st_len s + num_rows\<rparr>) }"

text \<open>
  \<open>swap\<close> copies the two rows through raw pointers; out of bounds it would be undefined, here it
  is a panic. \<open>swap_lines\<close> is the same on visible rows.
\<close>

definition storage_swap :: "nat \<Rightarrow> nat \<Rightarrow> 'r storage \<Rightarrow> 'r storage panics" where
  "storage_swap a b s =
    do { a \<leftarrow> from_grid_index s a;
         b \<leftarrow> from_grid_index s b;
         inner \<leftarrow> swap_checked (st_inner s) a b;
         Some (s\<lparr>st_inner := inner\<rparr>) }"

definition swap_lines :: "nat \<Rightarrow> nat \<Rightarrow> 'r storage \<Rightarrow> 'r storage panics" where
  "swap_lines a b s =
    do { a \<leftarrow> to_grid_index s a;
         b \<leftarrow> to_grid_index s b;
         storage_swap a b s }"

definition storage_rotate :: "int \<Rightarrow> 'r storage \<Rightarrow> 'r storage panics" where
  "storage_rotate count s =
    (let len = length (st_inner s)
     in do { assert_that (nat \<bar>count\<bar> \<le> len);
             assert_that (len \<noteq> 0);
             Some (s\<lparr>st_bottom_row := nat (int (st_bottom_row s) + count + int len) mod len\<rparr>) })"

definition storage_retract :: "int \<Rightarrow> 'r storage \<Rightarrow> 'r storage panics" where
  "storage_retract count s =
    (let len = length (st_inner s)
     in do { assert_that (nat \<bar>count\<bar> \<le> len);
             let count = (if st_is_sequential s then - count else count);
             assert_that (len \<noteq> 0);
             Some (s\<lparr>st_bottom_row := nat (int (st_bottom_row s) + count + int len) mod len\<rparr>) })"

definition storage_extend :: "int \<Rightarrow> 'r storage \<Rightarrow> 'r storage panics" where
  "storage_extend count s =
    (let len = length (st_inner s)
     in do { assert_that (nat \<bar>count\<bar> \<le> len);
             let count = (if st_is_sequential s then count else - count);
             assert_that (len \<noteq> 0);
             Some (s\<lparr>st_bottom_row := nat (int (st_bottom_row s) + count + int len) mod len\<rparr>) })"

definition replace_inner :: "'r list \<Rightarrow> 'r storage \<Rightarrow> 'r storage" where
  "replace_inner vec s = s\<lparr>st_len := length vec, st_inner := vec, st_bottom_row := 0\<rparr>"

definition take_all :: "'r storage \<Rightarrow> ('r list \<times> 'r storage) panics" where
  "take_all s =
    do { s \<leftarrow> truncate_unused_rows s; Some (st_inner s, s\<lparr>st_inner := [], st_len := 0\<rparr>) }"

section \<open>Well-formed buffers and their rows\<close>

definition storage_wf :: "'r storage \<Rightarrow> bool" where
  "storage_wf s \<longleftrightarrow>
     st_len s \<le> length (st_inner s) \<and> st_visible_lines s \<le> st_len s \<and>
     (st_bottom_row s < length (st_inner s) \<or> st_bottom_row s = 0)"

text \<open>The position in \<open>inner\<close> of a grid index, without the run-time checks.\<close>

definition phys :: "'r storage \<Rightarrow> nat \<Rightarrow> nat" where
  "phys s i =
    (st_bottom_row s + (if st_is_sequential s then i else st_len s - i - 1)) mod length (st_inner s)"

definition rows_of :: "'r storage \<Rightarrow> 'r list" where
  "rows_of s = map (\<lambda>i. st_inner s ! phys s i) [0..<st_len s]"

lemma length_rows_of [simp]: "length (rows_of s) = st_len s"
  by (simp add: rows_of_def)

lemma nth_rows_of [simp]: "i < st_len s \<Longrightarrow> rows_of s ! i = st_inner s ! phys s i"
  by (simp add: rows_of_def)

lemma phys_less: "storage_wf s \<Longrightarrow> i < st_len s \<Longrightarrow> phys s i < length (st_inner s)"
  unfolding phys_def storage_wf_def by (rule mod_less_divisor) auto

lemma wrap_once: "a < n \<Longrightarrow> b < n \<Longrightarrow> (if a + b \<ge> n then a + b - n else a + b) = (a + b) mod (n::nat)"
  by (auto simp: mod_if)

lemma from_grid_index_eq:
  "storage_wf s \<Longrightarrow> i < st_len s \<Longrightarrow> from_grid_index s i = Some (phys s i)"
proof -
  assume wf: "storage_wf s" and i: "i < st_len s"
  let ?r = "if st_is_sequential s then i else st_len s - i - 1"
  have "?r < length (st_inner s)" "st_bottom_row s < length (st_inner s)"
    using wf i by (auto simp: storage_wf_def)
  then show ?thesis
    using i wrap_once [of "st_bottom_row s" "length (st_inner s)" ?r]
    by (simp add: from_grid_index_def phys_def Let_def)
qed

lemma mod_offset_cancel:
  assumes "(b + x) mod n = (b + y) mod n" and "b < n" and "x < n" and "y < (n::nat)"
  shows "x = y"
  using assms wrap_once [of b n x] wrap_once [of b n y] by (auto split: if_splits)

lemma phys_inject:
  assumes "storage_wf s" and "i < st_len s" and "j < st_len s"
  shows "phys s i = phys s j \<longleftrightarrow> i = j"
proof
  let ?n = "length (st_inner s)" and ?b = "st_bottom_row s"
  define f where "f k = (if st_is_sequential s then k else st_len s - k - 1)" for k
  assume "phys s i = phys s j"
  then have "(?b + f i) mod ?n = (?b + f j) mod ?n"
    by (simp only: phys_def f_def)
  moreover have "?b < ?n" "f i < ?n" "f j < ?n"
    using assms by (auto simp: storage_wf_def f_def)
  ultimately have "f i = f j"
    by (rule mod_offset_cancel)
  with assms show "i = j"
    by (auto simp: f_def split: if_splits)
qed simp

lemma storage_index_eq:
  "storage_wf s \<Longrightarrow> i < st_len s \<Longrightarrow> storage_index s i = Some (rows_of s ! i)"
  by (simp add: storage_index_def from_grid_index_eq nth_checked_def phys_less)

text \<open>Writing a row through its grid index writes that row of the view and no other.\<close>

lemma rows_of_update:
  assumes "storage_wf s" and "i < st_len s"
  shows "rows_of (s\<lparr>st_inner := (st_inner s)[phys s i := r]\<rparr>) = (rows_of s)[i := r]"
proof (rule nth_equalityI)
  fix j
  assume "j < length (rows_of (s\<lparr>st_inner := (st_inner s)[phys s i := r]\<rparr>))"
  then have j: "j < st_len s" by simp
  have "phys (s\<lparr>st_inner := (st_inner s)[phys s i := r]\<rparr>) j = phys s j"
    by (simp add: phys_def)
  then show "rows_of (s\<lparr>st_inner := (st_inner s)[phys s i := r]\<rparr>) ! j = (rows_of s)[i := r] ! j"
    using j assms phys_inject [OF assms(1) assms(2) j] phys_less [OF assms]
    by (simp add: nth_list_update)
qed simp

lemma storage_wf_update: "storage_wf s \<Longrightarrow> storage_wf (s\<lparr>st_inner := (st_inner s)[j := r]\<rparr>)"
  by (simp add: storage_wf_def)

lemma storage_index_mut_eq:
  assumes "storage_wf s" and "i < st_len s" and "f (rows_of s ! i) = Some r"
  shows "storage_index_mut i f s = Some (s\<lparr>st_inner := (st_inner s)[phys s i := r]\<rparr>)"
  using assms by (simp add: storage_index_mut_def from_grid_index_eq nth_checked_def phys_less)

lemma storage_swap_eq:
  assumes "storage_wf s" and "a < st_len s" and "b < st_len s"
  shows "storage_swap a b s =
      Some (s\<lparr>st_inner := (st_inner s)[phys s a := rows_of s ! b, phys s b := rows_of s ! a]\<rparr>)"
  using assms by (simp add: storage_swap_def from_grid_index_eq swap_checked_def phys_less)

lemma rows_of_swap:
  assumes "storage_wf s" and "a < st_len s" and "b < st_len s"
  shows "rows_of (s\<lparr>st_inner := (st_inner s)[phys s a := x, phys s b := y]\<rparr>) =
           (rows_of s)[a := x, b := y]"
proof -
  let ?s1 = "s\<lparr>st_inner := (st_inner s)[phys s a := x]\<rparr>"
  have "phys s b = phys ?s1 b" by (simp add: phys_def)
  then have "rows_of (?s1\<lparr>st_inner := (st_inner ?s1)[phys s b := y]\<rparr>) = (rows_of ?s1)[b := y]"
    using rows_of_update [of ?s1 b y] storage_wf_update [OF assms(1)] assms(3) by simp
  with rows_of_update [OF assms(1,2), of x] show ?thesis by simp
qed

text \<open>Rotating the buffer back to offset 0 does not change what it shows.\<close>

lemma storage_rezero_eq:
  assumes "storage_wf s"
  obtains s' where "storage_rezero s = Some s'" "storage_wf s'" "rows_of s' = rows_of s"
    "st_bottom_row s' = 0" "st_len s' = st_len s" "length (st_inner s') = length (st_inner s)"
    "st_visible_lines s' = st_visible_lines s" "st_is_sequential s' = st_is_sequential s"
    "st_max_cache_size s' = st_max_cache_size s"
proof (cases "st_bottom_row s = 0")
  case True
  with assms that [of s] show ?thesis by (simp add: storage_rezero_def)
next
  case False
  define s' where "s' = s\<lparr>st_inner := rotate (st_bottom_row s) (st_inner s), st_bottom_row := 0\<rparr>"
  have b: "st_bottom_row s < length (st_inner s)" "st_len s \<le> length (st_inner s)"
    using assms False by (auto simp: storage_wf_def)
  have "st_inner s' ! phys s' i = st_inner s ! phys s i" if i: "i < st_len s" for i
  proof -
    have "(if st_is_sequential s then i else st_len s - i - 1) < length (st_inner s)"
      using i b by auto
    then show ?thesis
      by (auto simp: s'_def phys_def nth_rotate)
  qed
  then have "rows_of s' = rows_of s"
    by (intro nth_equalityI) (simp_all add: s'_def)
  then show ?thesis
    using assms b False by (intro that [of s']) (simp_all add: storage_rezero_def s'_def storage_wf_def)
qed

section \<open>The interface of a ring of rows\<close>

text \<open>
  What the grid relies on: rows can be exchanged and rewritten in place, and the whole list of
  rows can be rotated either way. The scrolling loops of the grid are proved once against these
  laws.
\<close>

locale row_ring =
  fixes view :: "'s \<Rightarrow> 'r list"
    and invar :: "'s \<Rightarrow> bool"
    and swap :: "nat \<Rightarrow> nat \<Rightarrow> 's \<Rightarrow> 's panics"
    and extend :: "int \<Rightarrow> 's \<Rightarrow> 's panics"
    and retract :: "int \<Rightarrow> 's \<Rightarrow> 's panics"
    and modify :: "nat \<Rightarrow> ('r \<Rightarrow> 'r panics) \<Rightarrow> 's \<Rightarrow> 's panics"
  assumes swap_law: "invar s \<Longrightarrow> a < length (view s) \<Longrightarrow> b < length (view s) \<Longrightarrow>
      \<exists>s'. swap a b s = Some s' \<and> invar s' \<and> view s' = swap_list a b (view s)"
    and extend_law: "invar s \<Longrightarrow> k \<le> length (view s) \<Longrightarrow>
      \<exists>s'. extend (int k) s = Some s' \<and> invar s' \<and> view s' = rotate k (view s)"
    and retract_law: "invar s \<Longrightarrow> k \<le> length (view s) \<Longrightarrow>
      \<exists>s'. retract (int k) s = Some s' \<and> invar s' \<and> view s' = rotate (length (view s) - k) (view s)"
    and modify_law: "invar s \<Longrightarrow> i < length (view s) \<Longrightarrow> f (view s ! i) = Some r \<Longrightarrow>
      \<exists>s'. modify i f s = Some s' \<and> invar s' \<and> view s' = (view s)[i := r]"
begin

lemma swap_loop:
  assumes "invar s" and "\<And>i. i \<in> set is \<Longrightarrow> p i < length (view s) \<and> q i < length (view s)"
  shows "\<exists>s'. fold_panics (\<lambda>i. swap (p i) (q i)) is s = Some s' \<and> invar s' \<and>
           view s' = fold (\<lambda>i. swap_list (p i) (q i)) is (view s)"
  using assms
proof (induction "is" arbitrary: s)
  case (Cons i "is")
  obtain s1 where "swap (p i) (q i) s = Some s1" "invar s1" "view s1 = swap_list (p i) (q i) (view s)"
    using swap_law [OF Cons.prems(1), of "p i" "q i"] Cons.prems(2) [of i] by auto
  with Cons.IH [of s1] Cons.prems(2) show ?case by simp
qed simp

lemma blank_loop:
  assumes "invar s" and "j \<le> length (view s)" and "\<And>r. r \<in> set (view s) \<Longrightarrow> f r = Some b"
    and "f b = Some b"
  shows "\<exists>s'. fold_panics (\<lambda>k. modify k f) [i..<j] s = Some s' \<and> invar s' \<and>
           view s' = fill_range i j b (view s)"
proof -
  have "\<exists>s'. fold_panics (\<lambda>k. modify k f) ks s = Some s' \<and> invar s' \<and>
      view s' = fold (\<lambda>k ys. ys[k := b]) ks (view s)"
    if "\<forall>k \<in> set ks. k < length (view s)" for ks
    using that assms(1,3)
  proof (induction ks arbitrary: s)
    case (Cons k ks)
    then obtain s1 where s1: "modify k f s = Some s1" "invar s1" "view s1 = (view s)[k := b]"
      using modify_law [OF Cons.prems(2), of k f b] by auto
    have "f r = Some b" if "r \<in> set (view s1)" for r
      using that s1(3) Cons.prems(3) assms(4) by (auto dest: subsetD [OF set_update_subset_insert])
    with s1 Cons.IH [of s1] Cons.prems(1) show ?case by simp
  qed simp
  with assms(2) show ?thesis
    by (simp add: fill_range_def)
qed

text \<open>Scrolling up: exchange the rows above the region, rotate, blank, exchange those below.\<close>

lemma scroll_up_view:
  assumes "invar s" and "a + d \<le> e" and "e \<le> length (view s)"
    and "\<And>r. r \<in> set (view s) \<Longrightarrow> f r = Some b" and "f b = Some b"
  defines "n \<equiv> length (view s)"
  shows "\<exists>s1 s2 s3 s4.
    fold_panics (\<lambda>i. swap i (i + d)) (rev [0..<a]) s = Some s1 \<and>
    extend (int d) s1 = Some s2 \<and>
    fold_panics (\<lambda>i. modify i f) [n - d..<n] s2 = Some s3 \<and>
    fold_panics (\<lambda>i. swap (n - i - 1) (n - i - 1 - d)) [0..<n - e] s3 = Some s4 \<and>
    invar s4 \<and> view s4 = scroll_up_spec a e d b (view s)"
proof -
  obtain s1 where s1: "fold_panics (\<lambda>i. swap i (i + d)) (rev [0..<a]) s = Some s1" "invar s1"
    "view s1 = bubble_up a d (view s)"
    using swap_loop [OF assms(1), of "rev [0..<a]" "\<lambda>i. i" "\<lambda>i. i + d"] assms(2,3)
    by (auto simp: bubble_up_def)
  obtain s2 where s2: "extend (int d) s1 = Some s2" "invar s2" "view s2 = rotate d (view s1)"
    using extend_law [OF s1(2), of d] s1(3) assms(2,3) by auto
  have rows: "set (view s2) = set (view s)"
    using set_fold_swap [of "rev [0..<a]" "\<lambda>i. i" "view s" "\<lambda>i. i + d"] assms(2,3)
    by (simp add: s2(3) s1(3) bubble_up_def)
  obtain s3 where s3: "fold_panics (\<lambda>i. modify i f) [n - d..<n] s2 = Some s3" "invar s3"
    "view s3 = fill_range (n - d) n b (view s2)"
    using blank_loop [OF s2(2), of n f b "n - d"] assms(4,5) rows s2(3) s1(3) by (auto simp: n_def)
  have len: "length (view s3) = n"
    by (simp add: s3(3) s2(3) s1(3) n_def)
  obtain s4 where s4:
    "fold_panics (\<lambda>i. swap (n - i - 1) (n - i - 1 - d)) [0..<n - e] s3 = Some s4" "invar s4"
    "view s4 = fold (\<lambda>i. swap_list (n - i - 1) (n - i - 1 - d)) [0..<n - e] (view s3)"
    using swap_loop [OF s3(2), of "[0..<n - e]" "\<lambda>i. n - i - 1" "\<lambda>i. n - i - 1 - d"] len by auto
  have "view s4 = rev (bubble_down (n - e) d (rev (view s3)))"
    unfolding s4(3) bubble_down_def
    using fold_swap_mirror [of "[0..<n - e]" d "view s3"] assms(2,3) by (auto simp: len n_def)
  also have "\<dots> = scroll_up_spec a e d b (view s)"
    using scroll_up_by_rotation [OF assms(2,3), of b] by (simp add: s3(3) s2(3) s1(3) n_def)
  finally show ?thesis
    using s1 s2 s3 s4 by blast
qed

text \<open>Scrolling down mirrors it.\<close>

lemma scroll_down_view:
  assumes "invar s" and "a + d \<le> e" and "e \<le> length (view s)"
    and "\<And>r. r \<in> set (view s) \<Longrightarrow> f r = Some b" and "f b = Some b"
  defines "n \<equiv> length (view s)"
  shows "\<exists>s1 s2 s3 s4.
    fold_panics (\<lambda>i. swap (n - i - 1) (n - i - 1 - d)) (rev [0..<n - e]) s = Some s1 \<and>
    retract (int d) s1 = Some s2 \<and>
    fold_panics (\<lambda>i. modify i f) [0..<d] s2 = Some s3 \<and>
    fold_panics (\<lambda>i. swap i (i + d)) [0..<a] s3 = Some s4 \<and>
    invar s4 \<and> view s4 = scroll_down_spec a e d b (view s)"
proof -
  have range: "n - i - 1 < length (view s) \<and> n - i - 1 - d < length (view s)"
    if "i \<in> set (rev [0..<n - e])" for i
    using that by (auto simp: n_def)
  obtain s1 where s1:
    "fold_panics (\<lambda>i. swap (n - i - 1) (n - i - 1 - d)) (rev [0..<n - e]) s = Some s1" "invar s1"
    "view s1 = fold (\<lambda>i. swap_list (n - i - 1) (n - i - 1 - d)) (rev [0..<n - e]) (view s)"
    using swap_loop [OF assms(1), of "rev [0..<n - e]" "\<lambda>i. n - i - 1" "\<lambda>i. n - i - 1 - d"] range
    by blast
  have v1: "view s1 = rev (bubble_up (n - e) d (rev (view s)))"
    unfolding s1(3) bubble_up_def
    using fold_swap_mirror [of "rev [0..<n - e]" d "view s"] assms(2,3) by (auto simp: n_def)
  then have len: "length (view s1) = n" by (simp add: n_def)
  obtain s2 where s2: "retract (int d) s1 = Some s2" "invar s2" "view s2 = rotate (n - d) (view s1)"
    using retract_law [OF s1(2), of d] len assms(2,3) by (auto simp: n_def)
  have rows: "set (view s2) = set (view s)"
    unfolding s2(3) s1(3)
    using set_fold_swap [of "rev [0..<n - e]" "\<lambda>i. n - i - 1" "view s" "\<lambda>i. n - i - 1 - d"] range
    by simp
  obtain s3 where s3: "fold_panics (\<lambda>i. modify i f) [0..<d] s2 = Some s3" "invar s3"
    "view s3 = fill_range 0 d b (view s2)"
    using blank_loop [OF s2(2), of d f b 0] assms(2-5) rows s2(3) len by (auto simp: n_def)
  obtain s4 where s4: "fold_panics (\<lambda>i. swap i (i + d)) [0..<a] s3 = Some s4" "invar s4"
    "view s4 = bubble_down a d (view s3)"
    using swap_loop [OF s3(2), of "[0..<a]" "\<lambda>i. i" "\<lambda>i. i + d"] s3(3) s2(3) len assms(2,3)
    by (auto simp: bubble_down_def n_def)
  have "view s4 = scroll_down_spec a e d b (view s)"
    using scroll_down_by_rotation [OF assms(2,3), of b] by (simp add: s4(3) s3(3) s2(3) v1 n_def)
  with s1 s2 s3 s4 show ?thesis by blast
qed

end

section \<open>The storage is such a ring while all its rows are in use\<close>

definition ring_full :: "'r storage \<Rightarrow> bool" where
  "ring_full s \<longleftrightarrow>
     storage_wf s \<and> st_len s = length (st_inner s) \<and> st_visible_lines s = st_len s \<and>
     st_inner s \<noteq> []"

definition rotated :: "nat \<Rightarrow> 'r storage \<Rightarrow> 'r storage" where
  "rotated k s = s\<lparr>st_bottom_row := (st_bottom_row s + k) mod length (st_inner s)\<rparr>"

lemma ring_full_rotated: "ring_full s \<Longrightarrow> ring_full (rotated k s)"
  by (auto simp: ring_full_def rotated_def storage_wf_def)

lemma rows_of_rotated_sequential:
  assumes "ring_full s" and "st_is_sequential s"
  shows "rows_of (rotated k s) = rotate k (rows_of s)"
  using assms
  by (intro nth_equalityI)
    (auto simp: ring_full_def rotated_def phys_def nth_rotate ac_simps mod_simps)

lemma rows_of_rotated_reversed:
  assumes "ring_full s" and "\<not> st_is_sequential s" and "k \<le> st_len s"
  shows "rows_of (rotated (st_len s - k) s) = rotate k (rows_of s)"
proof (rule nth_equalityI)
  let ?n = "st_len s" and ?b = "st_bottom_row s"
  have n: "length (st_inner s) = ?n" "0 < ?n"
    using assms(1) by (auto simp: ring_full_def)
  fix i
  assume "i < length (rows_of (rotated (?n - k) s))"
  then have i: "i < ?n" by (simp add: rotated_def)
  define q where "q = (k + i) mod ?n"
  have q: "q < ?n" using n by (simp add: q_def)
  have "(?b + (?n - k) + (?n - i - 1)) mod ?n = (?b + (?n - q - 1)) mod ?n"
  proof (cases "k + i < ?n")
    case True
    then have eq: "?b + (?n - k) + (?n - i - 1) = ?b + (?n - q - 1) + ?n"
      by (simp add: q_def)
    show ?thesis by (simp only: eq mod_add_self2)
  next
    case False
    then have "q = k + i - ?n"
      using assms(3) i by (simp add: q_def mod_if)
    then have eq: "?b + (?n - k) + (?n - i - 1) = ?b + (?n - q - 1)"
      using False assms(3) i by simp
    show ?thesis by (simp only: eq)
  qed
  then have "phys (rotated (?n - k) s) i = phys s q"
    using assms(2) n by (simp add: phys_def rotated_def mod_simps)
  then show "rows_of (rotated (?n - k) s) ! i = rotate k (rows_of s) ! i"
    using i q by (simp add: nth_rotate rotated_def q_def [symmetric])
qed (simp add: rotated_def)

lemma rotate_full: "k = length xs \<Longrightarrow> rotate k xs = xs"
  by simp

text \<open>Both directions of rotation, written as the code computes the new offset.\<close>

lemma offset_plus:
  "k \<le> n \<Longrightarrow> 0 < n \<Longrightarrow> nat (int b + int k + int n) mod n = (b + k) mod n"
  by (simp add: nat_add_distrib)

lemma offset_minus:
  "k \<le> n \<Longrightarrow> 0 < n \<Longrightarrow> nat (int b + - int k + int n) mod n = (b + (n - k)) mod n"
proof -
  assume "k \<le> n"
  then have "int b + - int k + int n = int (b + (n - k))" by simp
  then show ?thesis by (simp only: nat_int)
qed

lemma storage_extend_eq:
  assumes "ring_full s" and "k \<le> st_len s"
  shows "storage_extend (int k) s =
           Some (rotated (if st_is_sequential s then k else st_len s - k) s)"
  using assms offset_plus [of k "st_len s" "st_bottom_row s"]
    offset_minus [of k "st_len s" "st_bottom_row s"]
  by (auto simp: storage_extend_def ring_full_def rotated_def Let_def)

lemma storage_retract_eq:
  assumes "ring_full s" and "k \<le> st_len s"
  shows "storage_retract (int k) s =
           Some (rotated (if st_is_sequential s then st_len s - k else k) s)"
  using assms offset_plus [of k "st_len s" "st_bottom_row s"]
    offset_minus [of k "st_len s" "st_bottom_row s"]
  by (auto simp: storage_retract_def ring_full_def rotated_def Let_def)

interpretation ring: row_ring rows_of ring_full storage_swap storage_extend storage_retract
  storage_index_mut
proof
  fix s :: "'r storage" and a b
  assume s: "ring_full s" "a < length (rows_of s)" "b < length (rows_of s)"
  let ?s' = "s\<lparr>st_inner := (st_inner s)[phys s a := rows_of s ! b, phys s b := rows_of s ! a]\<rparr>"
  have "storage_swap a b s = Some ?s'"
    using s by (intro storage_swap_eq) (auto simp: ring_full_def)
  moreover have "ring_full ?s'"
    using s by (auto simp: ring_full_def storage_wf_def)
  moreover have "rows_of ?s' = swap_list a b (rows_of s)"
    unfolding swap_list_def using s by (intro rows_of_swap) (auto simp: ring_full_def)
  ultimately show "\<exists>s'. storage_swap a b s = Some s' \<and> ring_full s' \<and>
      rows_of s' = swap_list a b (rows_of s)"
    by blast
next
  fix s :: "'r storage" and k
  assume s: "ring_full s" "k \<le> length (rows_of s)"
  then show "\<exists>s'. storage_extend (int k) s = Some s' \<and> ring_full s' \<and>
      rows_of s' = rotate k (rows_of s)"
    using rows_of_rotated_sequential [OF s(1)] rows_of_rotated_reversed [OF s(1), of k]
    by (auto simp: storage_extend_eq ring_full_rotated)
next
  fix s :: "'r storage" and k
  assume s: "ring_full s" "k \<le> length (rows_of s)"
  then show "\<exists>s'. storage_retract (int k) s = Some s' \<and> ring_full s' \<and>
      rows_of s' = rotate (length (rows_of s) - k) (rows_of s)"
    using rows_of_rotated_sequential [OF s(1)] rows_of_rotated_reversed [OF s(1), of "st_len s - k"]
    by (auto simp: storage_retract_eq ring_full_rotated)
next
  fix s :: "'r storage" and i and f :: "'r \<Rightarrow> 'r panics" and r
  assume s: "ring_full s" "i < length (rows_of s)" "f (rows_of s ! i) = Some r"
  let ?s' = "s\<lparr>st_inner := (st_inner s)[phys s i := r]\<rparr>"
  have "storage_index_mut i f s = Some ?s'"
    using s by (intro storage_index_mut_eq) (auto simp: ring_full_def)
  moreover have "ring_full ?s'" "rows_of ?s' = (rows_of s)[i := r]"
    using s rows_of_update [of s i r] by (auto simp: ring_full_def storage_wf_def)
  ultimately show "\<exists>s'. storage_index_mut i f s = Some s' \<and> ring_full s' \<and>
      rows_of s' = (rows_of s)[i := r]"
    by blast
qed

text \<open>
  Without scrollback the visible rows are all the rows, so the accessors by visible row satisfy the
  same laws.
\<close>

lemma ring_full_to_grid_index: "ring_full s \<Longrightarrow> to_grid_index s i = Some i"
  by (simp add: ring_full_def to_grid_index_def usub_def)

lemma ring_full_visible_eq:
  assumes "ring_full s"
  shows "swap_lines a b s = storage_swap a b s"
    and "storage_index_visible_mut i f s = storage_index_mut i f s"
    and "storage_index_visible s i = storage_index s i"
  using ring_full_to_grid_index [OF assms]
  by (simp_all add: swap_lines_def storage_index_visible_mut_def storage_index_visible_def)

interpretation visible_ring: row_ring rows_of ring_full swap_lines storage_extend storage_retract
  storage_index_visible_mut
  by standard
    (simp_all only: ring_full_visible_eq ring.swap_law ring.extend_law ring.retract_law ring.modify_law)

section \<open>Growing and shrinking\<close>

text \<open>
  Rows enter and leave at the end of a sequential buffer and at the front of a reversed one.
\<close>

lemma rows_of_len_change:
  assumes "storage_wf s" and "n \<le> st_len s"
  shows "rows_of (s\<lparr>st_len := n\<rparr>) =
           (if st_is_sequential s then take n (rows_of s) else drop (st_len s - n) (rows_of s))"
proof (rule nth_equalityI)
  fix i
  assume i: "i < length (rows_of (s\<lparr>st_len := n\<rparr>))"
  have "st_bottom_row s + (n - i - 1) =
      st_bottom_row s + (st_len s - (st_len s - n + i) - 1)"
    using assms(2) by simp
  then have "phys (s\<lparr>st_len := n\<rparr>) i =
      phys s (if st_is_sequential s then i else st_len s - n + i)"
    by (simp only: phys_def storage.simps split: if_splits) simp
  with i assms(2) show "rows_of (s\<lparr>st_len := n\<rparr>) ! i =
      (if st_is_sequential s then take n (rows_of s) else drop (st_len s - n) (rows_of s)) ! i"
    by simp
qed (use assms in simp)

lemma truncate_unused_rows_eq:
  assumes "storage_wf s"
  obtains s' where "truncate_unused_rows s = Some s'" "rows_of s' = rows_of s"
    "length (st_inner s') = st_len s" "storage_wf s'" "st_len s' = st_len s"
    "st_visible_lines s' = st_visible_lines s" "st_is_sequential s' = st_is_sequential s"
proof -
  obtain s1 where s1: "storage_rezero s = Some s1" "storage_wf s1" "rows_of s1 = rows_of s"
    "st_bottom_row s1 = 0" "st_len s1 = st_len s" "length (st_inner s1) = length (st_inner s)"
    "st_visible_lines s1 = st_visible_lines s" "st_is_sequential s1 = st_is_sequential s"
    by (rule storage_rezero_eq [OF assms])
  let ?s' = "s1\<lparr>st_inner := take (st_len s1) (st_inner s1)\<rparr>"
  have le: "st_len s1 \<le> length (st_inner s1)"
    using s1(2) by (simp add: storage_wf_def)
  have "rows_of ?s' = rows_of s1"
    using le s1(4) by (intro nth_equalityI) (auto simp: phys_def)
  moreover have "storage_wf ?s'"
    using s1 le by (auto simp: storage_wf_def)
  ultimately show ?thesis
    using s1 le by (intro that [of ?s']) (auto simp: truncate_unused_rows_def)
qed

lemma shrink_lines_eq:
  assumes "storage_wf s" and "k \<le> st_len s" and "st_visible_lines s \<le> st_len s - k"
  shows "\<exists>s'. shrink_lines k s = Some s' \<and> storage_wf s' \<and> st_len s' = st_len s - k \<and>
           st_visible_lines s' = st_visible_lines s \<and> st_is_sequential s' = st_is_sequential s \<and>
           rows_of s' = (if st_is_sequential s then take (st_len s - k) (rows_of s)
                         else drop k (rows_of s))"
proof -
  let ?s1 = "s\<lparr>st_len := st_len s - k\<rparr>"
  have wf: "storage_wf ?s1"
    using assms by (auto simp: storage_wf_def)
  have rows: "rows_of ?s1 = (if st_is_sequential s then take (st_len s - k) (rows_of s)
      else drop k (rows_of s))"
    using rows_of_len_change [OF assms(1), of "st_len s - k"] assms(2) by simp
  obtain s2 where "truncate_unused_rows ?s1 = Some s2" "rows_of s2 = rows_of ?s1"
    "storage_wf s2" "st_len s2 = st_len ?s1" "st_visible_lines s2 = st_visible_lines ?s1"
    "st_is_sequential s2 = st_is_sequential ?s1"
    by (rule truncate_unused_rows_eq [OF wf])
  with wf rows assms(2) show ?thesis
    by (cases "st_len s - k + st_max_cache_size s < length (st_inner s)")
      (simp_all add: shrink_lines_def usub_def Let_def)
qed

lemma resize_rows_Some:
  assumes "1 \<le> cols" and "length rows \<le> n"
  shows "\<exists>extra. resize_rows n cols rows = Some (rows @ extra) \<and> length extra = n - length rows"
  using assms by (cases "n = length rows") (auto simp: resize_rows_def row_new_Some)

lemma rows_of_append_unused:
  assumes "st_bottom_row s = 0" and "st_len s \<le> length (st_inner s)"
  shows "rows_of (s\<lparr>st_inner := st_inner s @ extra\<rparr>) = rows_of s"
  using assms by (intro nth_equalityI) (auto simp: phys_def nth_append)

lemma initialize_eq:
  assumes "storage_wf s" and "1 \<le> cols"
  shows "\<exists>s' extra. initialize k cols s = Some s' \<and> storage_wf s' \<and> st_len s' = st_len s + k \<and>
           length extra = k \<and> st_visible_lines s' = st_visible_lines s \<and>
           st_is_sequential s' = st_is_sequential s \<and>
           rows_of s' = (if st_is_sequential s then rows_of s @ extra else extra @ rows_of s)"
proof -
  have view: "\<exists>extra. length extra = k \<and> rows_of (t\<lparr>st_len := st_len t + k\<rparr>) =
        (if st_is_sequential t then rows_of t @ extra else extra @ rows_of t)"
    if "storage_wf (t\<lparr>st_len := st_len t + k\<rparr>)" for t :: "row storage"
  proof -
    let ?t = "t\<lparr>st_len := st_len t + k\<rparr>"
    have "?t\<lparr>st_len := st_len t\<rparr> = t" by simp
    then have "rows_of t = (if st_is_sequential t then take (st_len t) (rows_of ?t)
        else drop k (rows_of ?t))"
      using rows_of_len_change [OF that, of "st_len t"] by simp
    then have "\<not> st_is_sequential t \<Longrightarrow> rows_of ?t = take k (rows_of ?t) @ rows_of t"
      and "st_is_sequential t \<Longrightarrow> rows_of ?t = rows_of t @ drop (st_len t) (rows_of ?t)"
      by simp_all
    moreover have "length (take k (rows_of ?t)) = k" "length (drop (st_len t) (rows_of ?t)) = k"
      by simp_all
    ultimately show ?thesis
      by (cases "st_is_sequential t") (simp only: if_True if_False, blast)+
  qed
  show ?thesis
  proof (cases "st_len s + k > length (st_inner s)")
    case False
    then have "storage_wf (s\<lparr>st_len := st_len s + k\<rparr>)"
      using assms(1) by (auto simp: storage_wf_def)
    with view [OF this] False show ?thesis by (auto simp: initialize_def)
  next
    case True
    obtain s1 where s1: "storage_rezero s = Some s1" "storage_wf s1" "rows_of s1 = rows_of s"
      "st_bottom_row s1 = 0" "st_len s1 = st_len s" "length (st_inner s1) = length (st_inner s)"
      "st_visible_lines s1 = st_visible_lines s" "st_is_sequential s1 = st_is_sequential s"
      "st_max_cache_size s1 = st_max_cache_size s"
      by (rule storage_rezero_eq [OF assms(1)])
    let ?size = "length (st_inner s1) + max k (st_max_cache_size s1)"
    obtain more where more: "resize_rows ?size cols (st_inner s1) = Some (st_inner s1 @ more)"
      "length more = max k (st_max_cache_size s1)"
      using resize_rows_Some [OF assms(2), of "st_inner s1" ?size] by auto
    let ?s2 = "s1\<lparr>st_inner := st_inner s1 @ more\<rparr>"
    have le: "st_len s1 \<le> length (st_inner s1)"
      using s1(2) by (simp add: storage_wf_def)
    have "rows_of ?s2 = rows_of s"
      using rows_of_append_unused [OF s1(4) le] s1(3) by simp
    moreover have "storage_wf (?s2\<lparr>st_len := st_len ?s2 + k\<rparr>)"
      using s1 le more(2) assms(1) by (auto simp: storage_wf_def)
    ultimately show ?thesis
      using view [of ?s2] True s1 more by (auto simp: initialize_def Let_def)
  qed
qed

lemma rows_of_zero_seq:
  "st_bottom_row s = 0 \<Longrightarrow> st_len s \<le> length (st_inner s) \<Longrightarrow>
     rows_of s = (if st_is_sequential s then take (st_len s) (st_inner s)
                  else rev (take (st_len s) (st_inner s)))"
  by (intro nth_equalityI) (auto simp: phys_def rev_nth)

section \<open>Properties of growing, shrinking and truncating\<close>

text \<open>
  Growing the buffer and shrinking it again by the same number of rows never panics and leaves
  every row where it was, in both storage orders, whatever offset the ring had.
\<close>

theorem grow_then_shrink:
  assumes "storage_wf s" and "1 \<le> cols"
  shows "\<exists>s1 s2. initialize k cols s = Some s1 \<and> shrink_lines k s1 = Some s2 \<and> storage_wf s2 \<and>
           st_len s2 = st_len s \<and> rows_of s2 = rows_of s"
proof -
  obtain s1 extra where s1: "initialize k cols s = Some s1" "storage_wf s1" "st_len s1 = st_len s + k"
    "length extra = k" "st_visible_lines s1 = st_visible_lines s"
    "st_is_sequential s1 = st_is_sequential s"
    "rows_of s1 = (if st_is_sequential s then rows_of s @ extra else extra @ rows_of s)"
    using initialize_eq [OF assms, of k] by blast
  have "st_visible_lines s1 \<le> st_len s1 - k"
    using assms(1) s1(3,5) by (simp add: storage_wf_def)
  with shrink_lines_eq [OF s1(2), of k] s1 show ?thesis
    by (cases "st_is_sequential s") fastforce+
qed

theorem grow_then_shrink_witness:
  "\<exists>s1 s2. initialize 2 1 \<lparr>st_inner = [], st_bottom_row = 0, st_visible_lines = 0, st_len = 0,
       st_is_sequential = False, st_max_cache_size = 1\<rparr> = Some s1 \<and> shrink_lines 2 s1 = Some s2"
proof -
  let ?s = "\<lparr>st_inner = [] :: row list, st_bottom_row = 0, st_visible_lines = 0, st_len = 0,
       st_is_sequential = False, st_max_cache_size = 1\<rparr>"
  have "storage_wf ?s" by (simp add: storage_wf_def)
  from grow_then_shrink [OF this, of 1 2] show ?thesis by auto
qed

lemma truncate_to_rows:
  assumes "storage_wf s"
  shows "\<exists>s'. truncate_to n s = Some s' \<and> storage_wf s' \<and> st_len s' = min n (st_len s) \<and>
           rows_of s' = (if st_is_sequential s then drop (st_len s - n) (rows_of s)
                         else take n (rows_of s))"
proof (cases "n < st_len s")
  case False
  obtain s' where "truncate_unused_rows s = Some s'" "rows_of s' = rows_of s" "storage_wf s'"
    "st_len s' = st_len s"
    by (rule truncate_unused_rows_eq [OF assms])
  with False show ?thesis by (simp add: truncate_to_def)
next
  case True
  obtain s1 where s1: "storage_rezero s = Some s1" "storage_wf s1" "rows_of s1 = rows_of s"
    "st_bottom_row s1 = 0" "st_len s1 = st_len s" "length (st_inner s1) = length (st_inner s)"
    "st_visible_lines s1 = st_visible_lines s" "st_is_sequential s1 = st_is_sequential s"
    by (rule storage_rezero_eq [OF assms])
  have le: "st_len s1 \<le> length (st_inner s1)"
    using s1(2) by (simp add: storage_wf_def)
  define s2 where "s2 = s1\<lparr>st_inner := drop (st_len s - n) (st_inner s1), st_len := n,
      st_visible_lines := min (st_visible_lines s1) n\<rparr>"
  have s2: "storage_wf s2" "st_len s2 = n" "st_is_sequential s2 = st_is_sequential s"
    using s1 le True by (auto simp: s2_def storage_wf_def)
  have "rows_of s2 = (if st_is_sequential s then drop (st_len s - n) (rows_of s1)
                         else take n (rows_of s1))"
    using rows_of_zero_seq [of s1] rows_of_zero_seq [of s2] s1 s2 le True
    by (auto simp: s2_def take_drop take_rev)
  moreover obtain s' where "truncate_unused_rows s2 = Some s'" "rows_of s' = rows_of s2"
    "storage_wf s'" "st_len s' = st_len s2"
    by (rule truncate_unused_rows_eq [OF s2(1)])
  moreover have "truncate_to n s = truncate_unused_rows s2"
    using True s1(1,5,7) le_trans [OF diff_le_self le, of n]
    by (simp add: truncate_to_def s2_def assert_that_def)
  ultimately show ?thesis
    using True s1(3) s2(2) by simp
qed

text \<open>
  Truncating to \<open>n\<close> rows never panics; the reversed order keeps the first \<open>n\<close> rows of the
  grid, but the sequential order keeps the last \<open>n\<close>, since both drop the start of \<open>inner\<close>.
\<close>

theorem truncate_to_view:
  assumes "storage_wf s"
  shows "\<exists>s'. truncate_to n s = Some s' \<and> storage_wf s' \<and> st_len s' = min n (st_len s) \<and>
           rows_of s' = (if st_is_sequential s then drop (st_len s - n) (rows_of s)
                         else take n (rows_of s))"
  using assms by (rule truncate_to_rows)

theorem truncate_to_view_witness:
  "\<exists>s'. truncate_to 1 \<lparr>st_inner = [10, 11, 12 :: nat], st_bottom_row = 1, st_visible_lines = 1,
       st_len = 2, st_is_sequential = True, st_max_cache_size = 1\<rparr> = Some s' \<and> rows_of s' = [12]"
proof -
  let ?s = "\<lparr>st_inner = [10, 11, 12 :: nat], st_bottom_row = 1, st_visible_lines = 1,
       st_len = 2, st_is_sequential = True, st_max_cache_size = 1\<rparr>"
  have wf: "storage_wf ?s" by (simp add: storage_wf_def)
  have "rows_of ?s = [11, 12]" by (simp add: rows_of_def phys_def upt_rec)
  with truncate_to_view [OF wf, of 1] show ?thesis
    by auto
qed

text \<open>
  Rows pulled back from the scrollback enter above the rows in use in a reversed buffer and
  below them in a sequential one; nothing else moves.
\<close>

theorem push_from_scrollback_view:
  assumes "storage_wf s"
  shows "\<exists>s'. push_from_scrollback rows s = Some s' \<and> storage_wf s' \<and>
           rows_of s' = (if st_is_sequential s then rows_of s @ rows else rows @ rows_of s)"
proof -
  obtain s1 where s1: "storage_rezero s = Some s1" "storage_wf s1" "rows_of s1 = rows_of s"
    "st_bottom_row s1 = 0" "st_len s1 = st_len s" "length (st_inner s1) = length (st_inner s)"
    "st_visible_lines s1 = st_visible_lines s" "st_is_sequential s1 = st_is_sequential s"
    by (rule storage_rezero_eq [OF assms])
  have le: "st_len s1 \<le> length (st_inner s1)"
    using s1(2) by (simp add: storage_wf_def)
  let ?rows = "if st_is_sequential s then rows else rev rows"
  define s' where "s' = s1\<lparr>st_inner := take (st_len s1) (st_inner s1) @ ?rows,
      st_len := st_len s1 + length rows\<rparr>"
  have wf: "storage_wf s'"
    using s1 le by (auto simp: s'_def storage_wf_def)
  have "rows_of s' = (if st_is_sequential s then rows_of s1 @ rows else rows @ rows_of s1)"
    using rows_of_zero_seq [of s1] rows_of_zero_seq [of s'] s1 le by (auto simp: s'_def)
  moreover have "push_from_scrollback rows s = Some s'"
    using s1 le by (simp add: push_from_scrollback_def s'_def assert_that_def)
  ultimately show ?thesis
    using wf s1(3) by simp
qed

theorem push_from_scrollback_view_witness:
  "\<exists>s'. push_from_scrollback [7, 8] \<lparr>st_inner = [10, 11, 12 :: nat], st_bottom_row = 1,
       st_visible_lines = 1, st_len = 2, st_is_sequential = False, st_max_cache_size = 1\<rparr> = Some s' \<and>
     rows_of s' = [7, 8, 12, 11]"
proof -
  let ?s = "\<lparr>st_inner = [10, 11, 12 :: nat], st_bottom_row = 1, st_visible_lines = 1,
       st_len = 2, st_is_sequential = False, st_max_cache_size = 1\<rparr>"
  have wf: "storage_wf ?s" by (simp add: storage_wf_def)
  have "rows_of ?s = [12, 11]" by (simp add: rows_of_def phys_def upt_rec)
  with push_from_scrollback_view [OF wf, of "[7, 8]"] show ?thesis
    by auto
qed

end
