(* ===== verification/Grid_Point.thy ===== *)
theory Grid_Point
  imports Warp_Prelude
begin

text \<open>
  Positions in a grid: \<^verbatim>\<open>crates/warp_terminal/src/model/indexing.rs\<close>. A \<open>Point\<close> is
  an absolute position (scrollback included), a \<open>VisiblePoint\<close> one in the viewport; both are
  ordered by row, then column. \<open>VisibleRow\<close>, a wrapper around a \<open>usize\<close>, is the \<open>nat\<close> in it.
  Dividing by a width of zero panics.
\<close>

datatype point = Point (p_row: nat) (p_col: nat)

datatype visible_point = VisiblePoint (vp_row: nat) (vp_col: nat)

datatype boundary = Clamp | Wrap

section \<open>The orders\<close>

definition cmp_points :: "nat \<Rightarrow> nat \<Rightarrow> nat \<Rightarrow> nat \<Rightarrow> bool" where
  "cmp_points r c r' c' = (if r = r' then c < c' else r < r')"

instantiation point :: linorder
begin

definition less_point :: "point \<Rightarrow> point \<Rightarrow> bool" where
  "less_point p q = cmp_points (p_row p) (p_col p) (p_row q) (p_col q)"

definition less_eq_point :: "point \<Rightarrow> point \<Rightarrow> bool" where
  "less_eq_point p q = (p = q \<or> cmp_points (p_row p) (p_col p) (p_row q) (p_col q))"

instance
  by standard
    (auto simp: less_point_def less_eq_point_def cmp_points_def point.expand split: if_splits)

end

instantiation visible_point :: linorder
begin

definition less_visible_point :: "visible_point \<Rightarrow> visible_point \<Rightarrow> bool" where
  "less_visible_point p q = cmp_points (vp_row p) (vp_col p) (vp_row q) (vp_col q)"

definition less_eq_visible_point :: "visible_point \<Rightarrow> visible_point \<Rightarrow> bool" where
  "less_eq_visible_point p q = (p = q \<or> cmp_points (vp_row p) (vp_col p) (vp_row q) (vp_col q))"

instance
  by standard
    (auto simp: less_visible_point_def less_eq_visible_point_def cmp_points_def
      visible_point.expand split: if_splits)

end

section \<open>Operations\<close>

definition udiv :: "nat \<Rightarrow> nat \<Rightarrow> nat panics" where
  "udiv a b = (if b = 0 then None else Some (a div b))"

definition umod :: "nat \<Rightarrow> nat \<Rightarrow> nat panics" where
  "umod a b = (if b = 0 then None else Some (a mod b))"

text \<open>The arithmetic both kinds of point share: the new row (if there is one) and column.\<close>

definition wrapping_add_coords :: "nat \<Rightarrow> nat \<Rightarrow> nat \<Rightarrow> nat \<Rightarrow> (nat \<times> nat) panics" where
  "wrapping_add_coords row col num_cols distance =
    do { lines \<leftarrow> udiv (distance + col) num_cols;
         c \<leftarrow> umod (col + distance) num_cols;
         Some (row + lines, c) }"

definition wrapping_sub_coords :: "nat \<Rightarrow> nat \<Rightarrow> nat \<Rightarrow> nat \<Rightarrow> (nat \<times> nat) panics" where
  "wrapping_sub_coords row col num_cols distance =
    do { reach \<leftarrow> usub (distance + num_cols) 1;
         line_changes \<leftarrow> udiv (reach - col) num_cols;
         if row \<ge> line_changes then
           do { back \<leftarrow> umod distance num_cols;
                c \<leftarrow> usub (num_cols + col) back;
                c \<leftarrow> umod c num_cols;
                Some (row - line_changes, c) }
         else Some (0, 0) }"

definition point_wrapping_add :: "point \<Rightarrow> nat \<Rightarrow> nat \<Rightarrow> point panics" where
  "point_wrapping_add p num_cols distance =
     map_option (case_prod Point) (wrapping_add_coords (p_row p) (p_col p) num_cols distance)"

definition point_wrapping_sub :: "point \<Rightarrow> nat \<Rightarrow> nat \<Rightarrow> point panics" where
  "point_wrapping_sub p num_cols distance =
     map_option (case_prod Point) (wrapping_sub_coords (p_row p) (p_col p) num_cols distance)"

definition visible_wrapping_add :: "visible_point \<Rightarrow> nat \<Rightarrow> nat \<Rightarrow> visible_point panics" where
  "visible_wrapping_add p num_cols distance =
     map_option (case_prod VisiblePoint) (wrapping_add_coords (vp_row p) (vp_col p) num_cols distance)"

definition visible_wrapping_sub :: "visible_point \<Rightarrow> nat \<Rightarrow> nat \<Rightarrow> visible_point panics" where
  "visible_wrapping_sub p num_cols distance =
     map_option (case_prod VisiblePoint) (wrapping_sub_coords (vp_row p) (vp_col p) num_cols distance)"

definition visible_wrap :: "visible_point \<Rightarrow> nat \<Rightarrow> visible_point panics" where
  "visible_wrap p num_cols = visible_wrapping_add p num_cols 0"

definition as_one_dimensional_index :: "point \<Rightarrow> nat \<Rightarrow> nat" where
  "as_one_dimensional_index p num_cols = p_row p * num_cols + p_col p"

definition max_point :: "point \<Rightarrow> point \<Rightarrow> nat \<Rightarrow> point" where
  "max_point p q num_cols =
    (if as_one_dimensional_index p num_cols \<ge> as_one_dimensional_index q num_cols then p else q)"

definition point_distance :: "point \<Rightarrow> nat \<Rightarrow> point \<Rightarrow> nat" where
  "point_distance p num_cols q =
    (let i = as_one_dimensional_index p num_cols; j = as_one_dimensional_index q num_cols
     in if i \<le> j then j - i else i - j)"

definition to_visible_point :: "point \<Rightarrow> nat \<Rightarrow> visible_point" where
  "to_visible_point p history_size = VisiblePoint (p_row p - history_size) (p_col p)"

text \<open>
  \<open>sub_absolute\<close> and \<open>add_absolute\<close> count rows from the bottom: moving back goes to a larger row.
\<close>

definition sub_absolute :: "point \<Rightarrow> nat \<Rightarrow> nat \<Rightarrow> boundary \<Rightarrow> nat \<Rightarrow> point panics" where
  "sub_absolute p total_lines num_cols bound rhs =
    do { reach \<leftarrow> usub (rhs + num_cols) 1;
         lines \<leftarrow> udiv (reach - p_col p) num_cols;
         back \<leftarrow> umod rhs num_cols;
         c \<leftarrow> usub (num_cols + p_col p) back;
         c \<leftarrow> umod c num_cols;
         let row = p_row p + lines;
         if row \<ge> total_lines then
           (case bound of
              Clamp \<Rightarrow> do { last \<leftarrow> usub total_lines 1; Some (Point last 0) }
            | Wrap \<Rightarrow> Some (Point (row - total_lines) c))
         else Some (Point row c) }"

definition add_absolute :: "point \<Rightarrow> nat \<Rightarrow> nat \<Rightarrow> boundary \<Rightarrow> nat \<Rightarrow> point panics" where
  "add_absolute p total_lines num_cols bound rhs =
    do { line_delta \<leftarrow> udiv (rhs + p_col p) num_cols;
         c \<leftarrow> umod (p_col p + rhs) num_cols;
         if p_row p \<ge> line_delta then Some (Point (p_row p - line_delta) c)
         else
           (case bound of
              Clamp \<Rightarrow> do { last \<leftarrow> usub num_cols 1; Some (Point 0 last) }
            | Wrap \<Rightarrow> do { line \<leftarrow> usub (total_lines + p_row p) line_delta; Some (Point line c) }) }"

definition steps_between :: "nat \<Rightarrow> nat \<Rightarrow> nat \<Rightarrow> nat option" where
  "steps_between start end by =
    (if by = 0 then None
     else if start < end then
       (let diff = end - start
        in Some (if diff mod by \<noteq> 0 then diff div by + 1 else diff div by))
     else Some 0)"

definition steps_between_by_one :: "nat \<Rightarrow> nat \<Rightarrow> nat option" where
  "steps_between_by_one start end = steps_between start end 1"

text \<open>The iterators over a range of rows, from either end.\<close>

definition range_next :: "nat \<times> nat \<Rightarrow> (nat \<times> (nat \<times> nat)) option" where
  "range_next r = (if fst r < snd r then Some (fst r, (fst r + 1, snd r)) else None)"

definition range_next_back :: "nat \<times> nat \<Rightarrow> (nat \<times> (nat \<times> nat)) option" where
  "range_next_back r = (if fst r < snd r then Some (snd r - 1, (fst r, snd r - 1)) else None)"

section \<open>Positions as numbers\<close>

lemmas point_arith_defs = wrapping_add_coords_def wrapping_sub_coords_def udiv_def umod_def usub_def

lemma number_coords: "c < n \<Longrightarrow> (r * n + c) div n = (r::nat) \<and> (r * n + c) mod n = c"
  by simp

lemma mod_le_add: "c < n \<Longrightarrow> d mod n \<le> n + (c::nat)"
  by (rule le_trans [OF less_imp_le [OF mod_less_divisor]]) auto

lemma lines_back:
  assumes "c < n" and "m < n"
  shows "(q * n + m + n - Suc c) div n = (if m \<le> c then q else q + (1::nat))"
proof (cases "m \<le> c")
  case True
  then have "q * n + m + n - Suc c = q * n + (m + n - Suc c)" "m + n - Suc c < n"
    using assms by linarith+
  with True number_coords [of "m + n - Suc c" n q] show ?thesis by simp
next
  case False
  then have "q * n + m + n - Suc c = (q + 1) * n + (m - Suc c)" "m - Suc c < n"
    using assms by simp_all
  with False number_coords [of "m - Suc c" n "q + 1"] show ?thesis by simp
qed

lemma back_reaches:
  assumes c: "c < n" and reach: "(d + n - Suc c) div n \<le> r"
  shows "d \<le> r * n + c \<and>
         (r * n + c - d) div n = r - (d + n - Suc c) div n \<and>
         (r * n + c - d) mod n = (n + c - d mod n) mod n"
proof -
  define q m where "q = d div n" and "m = d mod n"
  have d: "d = q * n + m" "m < n"
    using c by (simp_all add: q_def m_def)
  define k where "k = (d + n - Suc c) div n"
  have k: "k = (if m \<le> c then q else q + 1)"
    using lines_back [OF c d(2), of q] by (simp add: k_def d(1))
  define c' where "c' = (if m \<le> c then c - m else n + c - m)"
  have c': "c' < n" "(n + c - m) mod n = c'"
    using c d(2) by (auto simp: c'_def mod_if)
  obtain r' where r': "r = r' + k"
    using reach le_Suc_ex [of k r] by (auto simp: k_def add.commute)
  have "r * n + c = d + (r' * n + c')"
    using d(2) by (simp add: r' k d(1) c'_def algebra_simps)
  then have "r * n + c - d = r' * n + c'" "d \<le> r * n + c"
    by simp_all
  with number_coords [OF c'(1), of r'] c'(2) r' show ?thesis
    by (simp add: k_def m_def)
qed

lemma back_overruns:
  assumes c: "c < n" and over: "\<not> (d + n - Suc c) div n \<le> r"
  shows "r * n + c < d"
proof (rule ccontr)
  assume "\<not> r * n + c < d"
  then have "d + n - Suc c < (r + 1) * n" using c by simp
  then have "(d + n - Suc c) div n < r + 1" by (metis less_mult_imp_div_less)
  with over show False by simp
qed

lemma one_dimensional_coords:
  "p_col p < n \<Longrightarrow> as_one_dimensional_index p n div n = p_row p \<and>
     as_one_dimensional_index p n mod n = p_col p"
  unfolding as_one_dimensional_index_def by (rule number_coords)

lemma one_dimensional_inject:
  "p_col p < n \<Longrightarrow> p_col q < n \<Longrightarrow>
     as_one_dimensional_index p n = as_one_dimensional_index q n \<longleftrightarrow> p = q"
  using one_dimensional_coords [of p n] one_dimensional_coords [of q n]
  by (metis point.expand)

lemma number_of_sum:
  "(0::nat) < n \<Longrightarrow> (r + (d + c) div n) * n + (c + d) mod n = r * n + c + d"
  using div_mult_mod_eq [of "c + d" n] by (simp add: algebra_simps)

section \<open>Properties\<close>

lemma point_add_position:
  assumes "0 < n"
  shows "\<exists>q. point_wrapping_add p n d = Some q \<and> p_col q < n \<and>
           as_one_dimensional_index q n = as_one_dimensional_index p n + d"
  using assms number_of_sum [OF assms, of "p_row p" d "p_col p"]
  by (simp add: point_wrapping_add_def point_arith_defs as_one_dimensional_index_def)

lemma point_sub_position:
  assumes "p_col p < n"
  shows "\<exists>q. point_wrapping_sub p n d = Some q \<and> p_col q < n \<and>
           as_one_dimensional_index q n = as_one_dimensional_index p n - d"
proof (cases "(d + n - Suc (p_col p)) div n \<le> p_row p")
  case True
  from back_reaches [OF assms True] show ?thesis
    using assms True mod_le_add [OF assms, of d] div_mult_mod_eq [of "p_row p * n + p_col p - d" n]
    by (simp add: point_wrapping_sub_def point_arith_defs as_one_dimensional_index_def Let_def)
next
  case False
  from back_overruns [OF assms False] show ?thesis
    using assms False
    by (simp add: point_wrapping_sub_def point_arith_defs as_one_dimensional_index_def Let_def)
qed

text \<open>
  In a grid of positive width, moving a point forward adds the distance to its position in
  reading order, and the new column is inside the grid.
\<close>

theorem wrapping_add_advances:
  assumes "0 < n"
  shows "\<exists>q. point_wrapping_add p n d = Some q \<and> p_col q < n \<and>
           as_one_dimensional_index q n = as_one_dimensional_index p n + d"
  by (rule point_add_position [OF assms])

theorem wrapping_add_advances_witness:
  "\<exists>q. point_wrapping_add (Point 1 3) 5 4 = Some q \<and> as_one_dimensional_index q 5 = 12"
  using wrapping_add_advances [of 5 "Point 1 3" 4]
  by (auto simp: as_one_dimensional_index_def)

text \<open>
  Moving a point of the grid back subtracts the distance from its position in reading order,
  stopping at the origin; it never panics in a grid of positive width.
\<close>

theorem wrapping_sub_retreats:
  assumes "p_col p < n"
  shows "\<exists>q. point_wrapping_sub p n d = Some q \<and> p_col q < n \<and>
           as_one_dimensional_index q n = as_one_dimensional_index p n - d"
  by (rule point_sub_position [OF assms])

theorem wrapping_sub_retreats_witness:
  "\<exists>q. point_wrapping_sub (Point 2 1) 5 3 = Some q \<and> as_one_dimensional_index q 5 = 8"
  using wrapping_sub_retreats [of "Point 2 1" 5 3]
  by (auto simp: as_one_dimensional_index_def)

text \<open>Moving forward and then back by the same distance returns to the point.\<close>

theorem wrapping_add_sub_roundtrip:
  assumes "p_col p < n" and "point_wrapping_add p n d = Some q"
  shows "point_wrapping_sub q n d = Some p"
proof -
  have q: "p_col q < n" "as_one_dimensional_index q n = as_one_dimensional_index p n + d"
  proof -
    have "0 < n" using assms(1) by simp
    then show "p_col q < n" "as_one_dimensional_index q n = as_one_dimensional_index p n + d"
      using assms(2) number_of_sum [of n "p_row p" d "p_col p"]
      by (auto simp: point_wrapping_add_def point_arith_defs as_one_dimensional_index_def)
  qed
  have le: "(d + n - Suc (p_col q)) div n \<le> p_row q"
    using back_overruns [OF q(1), of d "p_row q"] q(2) by (fastforce simp: as_one_dimensional_index_def)
  have "point_wrapping_sub q n d =
      Some (Point ((p_row q * n + p_col q - d) div n) ((p_row q * n + p_col q - d) mod n))"
    using back_reaches [OF q(1) le] q(1) le mod_le_add [OF q(1), of d]
    by (simp add: point_wrapping_sub_def point_arith_defs)
  moreover have "p_row q * n + p_col q - d = p_row p * n + p_col p"
    using q(2) by (simp add: as_one_dimensional_index_def)
  ultimately show ?thesis
    using number_coords [OF assms(1), of "p_row p"] by simp
qed

theorem wrapping_add_sub_roundtrip_witness:
  "point_wrapping_sub (Point 2 2) 5 4 = Some (Point 1 3)"
  by (rule wrapping_add_sub_roundtrip)
    (simp_all add: point_wrapping_add_def point_arith_defs)

text \<open>
  The derived order on points inside a grid is the order of their positions, so \<open>max_point\<close>
  is the maximum of that order.
\<close>

theorem point_order_is_reading_order:
  assumes "p_col p < n" and "p_col q < n"
  shows "(p \<le> q \<longleftrightarrow> as_one_dimensional_index p n \<le> as_one_dimensional_index q n) \<and>
         max_point p q n = max p q"
proof -
  have less: "as_one_dimensional_index p' n < as_one_dimensional_index q' n"
    if "p' < q'" "p_col p' < n" for p' q'
  proof (cases "p_row p' = p_row q'")
    case False
    then have "p_row p' + 1 \<le> p_row q'"
      using that(1) by (simp add: less_point_def cmp_points_def split: if_splits)
    then have "(p_row p' + 1) * n \<le> p_row q' * n" by (rule mult_le_mono1)
    then show ?thesis using that(2) by (simp add: as_one_dimensional_index_def)
  qed (use that in \<open>simp add: less_point_def cmp_points_def as_one_dimensional_index_def\<close>)
  show ?thesis
    using less [of p q] less [of q p] assms one_dimensional_inject [OF assms]
    by (cases p q rule: linorder_cases) (auto simp: max_point_def max_def)
qed

theorem point_order_is_reading_order_witness:
  "Point 0 4 \<le> Point 1 0 \<and> max_point (Point 0 4) (Point 1 0) 5 = Point 1 0"
  using point_order_is_reading_order [of "Point 0 4" 5 "Point 1 0"]
  by (simp add: as_one_dimensional_index_def max_def)

end
