(* ===== verification/Grid_Storage.thy ===== *)
theory Grid_Storage
  imports Ring_Storage Grid_Point
begin

text \<open>
  The grid of the terminal: \<^verbatim>\<open>app/src/terminal/model/grid/grid_storage.rs\<close>, its cursors and
  the scrolling of a region of rows. Its feature flags are arguments: \<open>sequential\<close> is
  \<open>SequentialStorage\<close>, \<open>resize_fix\<close> is \<open>ResizeFix\<close>.
\<close>

section \<open>State\<close>

record cursor =
  cur_point :: visible_point
  cur_template :: cell
  cur_charsets :: "standard_charset list"
  cur_input_needs_wrap :: bool

record grid_storage =
  gs_cursor :: cursor
  gs_max_cursor_point :: visible_point
  gs_saved_cursor :: cursor
  gs_raw :: "row storage"
  gs_columns :: nat
  gs_rows :: nat
  gs_max_scroll_limit :: nat
  gs_num_lines_truncated :: nat
  gs_resize_fix_ff_enabled :: bool

definition default_cursor :: cursor where
  "default_cursor =
    \<lparr>cur_point = VisiblePoint 0 0, cur_template = default_cell,
     cur_charsets = replicate 4 SC_Ascii, cur_input_needs_wrap = False\<rparr>"

fun charset_slot :: "charset_index \<Rightarrow> nat" where
  "charset_slot G0 = 0"
| "charset_slot G1 = 1"
| "charset_slot G2 = 2"
| "charset_slot G3 = 3"

definition charsets_index :: "standard_charset list \<Rightarrow> charset_index \<Rightarrow> standard_charset panics" where
  "charsets_index cs i = nth_checked cs (charset_slot i)"

definition charsets_index_mut ::
  "charset_index \<Rightarrow> standard_charset \<Rightarrow> standard_charset list \<Rightarrow> standard_charset list panics" where
  "charsets_index_mut i c cs = update_checked cs (charset_slot i) c"

section \<open>Construction\<close>

definition grid_new :: "bool \<Rightarrow> bool \<Rightarrow> nat \<Rightarrow> nat \<Rightarrow> nat \<Rightarrow> grid_storage panics" where
  "grid_new sequential resize_fix rows columns max_scroll_limit =
    do { raw \<leftarrow> storage_with_capacity rows columns sequential;
         Some \<lparr>gs_cursor = default_cursor, gs_max_cursor_point = VisiblePoint 0 0,
               gs_saved_cursor = default_cursor, gs_raw = raw, gs_columns = columns,
               gs_rows = rows, gs_max_scroll_limit = max_scroll_limit,
               gs_num_lines_truncated = 0, gs_resize_fix_ff_enabled = resize_fix\<rparr> }"

definition total_rows :: "grid_storage \<Rightarrow> nat" where
  "total_rows g = st_len (gs_raw g)"

definition history_size :: "grid_storage \<Rightarrow> nat panics" where
  "history_size g = usub (total_rows g) (gs_rows g)"

text \<open>
  \<open>new_for_split\<close>: a cursor is moved into the new grid's coordinates, or clamped to its first or
  last cell.
\<close>

definition adjust_cursor_point ::
  "nat \<Rightarrow> nat \<Rightarrow> nat \<Rightarrow> nat \<Rightarrow> nat \<Rightarrow> visible_point \<Rightarrow> visible_point panics" where
  "adjust_cursor_point initial_history_size num_preceding_rows new_history_size
       new_visible_rows columns p =
    (let row = vp_row p + initial_history_size
     in if row \<ge> num_preceding_rows then
          (let visible_row = row - num_preceding_rows - new_history_size
           in if visible_row < new_visible_rows then Some (VisiblePoint visible_row (vp_col p))
              else do { r \<leftarrow> usub new_visible_rows 1;
                        c \<leftarrow> usub columns 1;
                        Some (VisiblePoint r c) })
        else Some (VisiblePoint 0 0))"

definition new_for_split ::
  "row list \<Rightarrow> nat \<Rightarrow> nat \<Rightarrow> grid_storage \<Rightarrow> grid_storage panics" where
  "new_for_split rows num_preceding_rows initial_history_size g =
    do { let visible_lines = length rows;
         let rows = (if st_is_sequential (gs_raw g) then rows else rev rows);
         raw \<leftarrow> storage_with_rows rows (st_is_sequential (gs_raw g)) visible_lines;
         let grid = g\<lparr>gs_raw := raw, gs_rows := visible_lines, gs_num_lines_truncated := 0\<rparr>;
         new_history_size \<leftarrow> history_size grid;
         let adjust = adjust_cursor_point initial_history_size num_preceding_rows
                        new_history_size (gs_rows grid) (gs_columns grid);
         p \<leftarrow> adjust (cur_point (gs_cursor grid));
         q \<leftarrow> adjust (cur_point (gs_saved_cursor grid));
         m \<leftarrow> adjust (gs_max_cursor_point grid);
         Some (grid\<lparr>gs_cursor := (gs_cursor grid)\<lparr>cur_point := p\<rparr>,
                    gs_saved_cursor := (gs_saved_cursor grid)\<lparr>cur_point := q\<rparr>,
                    gs_max_cursor_point := m\<rparr>) }"

definition set_stored_rows ::
  "row list \<Rightarrow> nat \<Rightarrow> nat \<Rightarrow> grid_storage \<Rightarrow> grid_storage panics" where
  "set_stored_rows rows visible_rows columns g =
    do { rows \<leftarrow> resize_rows visible_rows columns rows;
         let is_sequential = st_is_sequential (gs_raw g);
         let rows = (if is_sequential then rows else rev rows);
         raw \<leftarrow> storage_with_rows rows is_sequential visible_rows;
         Some (g\<lparr>gs_rows := visible_rows, gs_columns := columns, gs_raw := raw\<rparr>) }"

section \<open>Scrollback\<close>

definition grid_shrink_lines :: "nat \<Rightarrow> grid_storage \<Rightarrow> grid_storage panics" where
  "grid_shrink_lines n g =
    do { raw \<leftarrow> shrink_lines n (gs_raw g); Some (g\<lparr>gs_raw := raw\<rparr>) }"

definition update_history :: "nat \<Rightarrow> grid_storage \<Rightarrow> grid_storage panics" where
  "update_history limit g =
    do { current \<leftarrow> history_size g;
         g \<leftarrow> (if current > limit then grid_shrink_lines (current - limit) g else Some g);
         Some (g\<lparr>gs_max_scroll_limit := limit\<rparr>) }"

definition increase_scroll_limit :: "nat \<Rightarrow> grid_storage \<Rightarrow> grid_storage panics" where
  "increase_scroll_limit count g =
    do { h \<leftarrow> history_size g;
         room \<leftarrow> usub (gs_max_scroll_limit g) h;
         let count = min count room;
         if count \<noteq> 0 then
           do { raw \<leftarrow> initialize count (gs_columns g) (gs_raw g); Some (g\<lparr>gs_raw := raw\<rparr>) }
         else Some g }"

definition decrease_scroll_limit :: "nat \<Rightarrow> grid_storage \<Rightarrow> grid_storage panics" where
  "decrease_scroll_limit count g =
    do { h \<leftarrow> history_size g;
         let count = min count h;
         if count \<noteq> 0 then grid_shrink_lines (min count h) g else Some g }"

definition clear_history :: "grid_storage \<Rightarrow> grid_storage panics" where
  "clear_history g = do { h \<leftarrow> history_size g; grid_shrink_lines h g }"

section \<open>Cursors and cells\<close>

definition update_max_cursor :: "grid_storage \<Rightarrow> grid_storage" where
  "update_max_cursor g =
    (let point = cur_point (gs_cursor g)
     in if vp_row point \<ge> gs_rows g then g
        else if vp_row point > vp_row (gs_max_cursor_point g) \<or>
                vp_row point = vp_row (gs_max_cursor_point g) \<and>
                vp_col point > vp_col (gs_max_cursor_point g)
             then g\<lparr>gs_max_cursor_point := point\<rparr> else g)"

definition grid_get :: "nat \<Rightarrow> grid_storage \<Rightarrow> row option panics" where
  "grid_get i g =
    (if i < total_rows g then map_option Some (storage_index (gs_raw g) i) else Some None)"

definition row_wraps :: "nat \<Rightarrow> grid_storage \<Rightarrow> bool panics" where
  "row_wraps i g =
    do { r \<leftarrow> grid_get i g;
         Some (case Option.bind r row_last of
                 None \<Rightarrow> False
               | Some cell \<Rightarrow> flags_contains (cell_flags cell) F_WRAPLINE) }"

definition visible_rows_to_cursor :: "grid_storage \<Rightarrow> nat" where
  "visible_rows_to_cursor g = vp_row (cur_point (gs_cursor g))"

definition cols_to_cursor :: "grid_storage \<Rightarrow> nat" where
  "cols_to_cursor g = vp_col (cur_point (gs_cursor g))"

definition rows_to_cursor :: "grid_storage \<Rightarrow> nat panics" where
  "rows_to_cursor g =
    do { h \<leftarrow> history_size g; Some (vp_row (cur_point (gs_cursor g)) + h) }"

definition cursor_point :: "grid_storage \<Rightarrow> point panics" where
  "cursor_point g =
    do { h \<leftarrow> history_size g;
         Some (Point (h + vp_row (cur_point (gs_cursor g))) (vp_col (cur_point (gs_cursor g)))) }"

text \<open>\<open>grid[row]\<close> and \<open>grid[visible_row]\<close>, for reading and writing.\<close>

definition grid_index_mut :: "nat \<Rightarrow> (row \<Rightarrow> row panics) \<Rightarrow> grid_storage \<Rightarrow> grid_storage panics" where
  "grid_index_mut i f g =
    do { raw \<leftarrow> storage_index_mut i f (gs_raw g); Some (g\<lparr>gs_raw := raw\<rparr>) }"

definition grid_visible :: "grid_storage \<Rightarrow> nat \<Rightarrow> row panics" where
  "grid_visible g i = storage_index_visible (gs_raw g) i"

definition grid_visible_mut ::
  "nat \<Rightarrow> (row \<Rightarrow> row panics) \<Rightarrow> grid_storage \<Rightarrow> grid_storage panics" where
  "grid_visible_mut i f g =
    do { raw \<leftarrow> storage_index_visible_mut i f (gs_raw g); Some (g\<lparr>gs_raw := raw\<rparr>) }"

text \<open>\<open>cursor_cell\<close>, with what the caller does to the cell; out of range it is the last cell.\<close>

definition cursor_cell :: "(cell \<Rightarrow> cell) \<Rightarrow> grid_storage \<Rightarrow> grid_storage panics" where
  "cursor_cell f g =
    do { p \<leftarrow> cursor_point g;
         let p = (if p_row p \<ge> total_rows g \<or> p_col p \<ge> gs_columns g
                  then Point (total_rows g - 1) (gs_columns g - 1) else p);
         grid_index_mut (p_row p) (row_index_mut (p_col p) f) g }"

section \<open>Scrolling\<close>

definition template_reset :: "grid_storage \<Rightarrow> row \<Rightarrow> row panics" where
  "template_reset g r = row_reset (cur_template (gs_cursor g)) r"

definition on_raw :: "(row storage \<Rightarrow> row storage panics) \<Rightarrow> grid_storage \<Rightarrow> grid_storage panics" where
  "on_raw f g = do { raw \<leftarrow> f (gs_raw g); Some (g\<lparr>gs_raw := raw\<rparr>) }"

text \<open>The region is \<open>[start, stop)\<close> in visible rows.\<close>

definition scroll_down :: "nat \<Rightarrow> nat \<Rightarrow> nat \<Rightarrow> grid_storage \<Rightarrow> grid_storage panics" where
  "scroll_down start stop distance g =
    do { let visible_rows = gs_rows g;
         region_size \<leftarrow> usub stop start;
         if distance \<ge> region_size then
           on_raw (fold_panics (\<lambda>line. storage_index_visible_mut line (template_reset g))
             [start..<stop]) g
         else if gs_max_scroll_limit g = 0 then
           do { fixed_lines \<leftarrow> usub visible_rows stop;
                g \<leftarrow> on_raw (fold_panics (\<lambda>i s.
                       do { k \<leftarrow> usub visible_rows i;
                            index \<leftarrow> usub k 1;
                            j \<leftarrow> usub index distance;
                            storage_swap index j s }) (rev [0..<fixed_lines])) g;
                g \<leftarrow> on_raw (storage_retract (int distance)) g;
                g \<leftarrow> on_raw (fold_panics (\<lambda>i. storage_index_mut i (template_reset g)) [0..<distance]) g;
                on_raw (fold_panics (\<lambda>i. storage_swap i (i + distance)) [0..<start]) g }
         else
           do { g \<leftarrow> on_raw (fold_panics (\<lambda>line s.
                       do { j \<leftarrow> usub line distance; swap_lines line j s })
                       (rev [start + distance..<stop])) g;
                on_raw (fold_panics (\<lambda>line. storage_index_visible_mut line (template_reset g))
                  [start..<start + distance]) g } }"

definition scroll_up :: "nat \<Rightarrow> nat \<Rightarrow> nat \<Rightarrow> grid_storage \<Rightarrow> grid_storage panics" where
  "scroll_up start stop distance g =
    do { let visible_rows = gs_rows g;
         region_size \<leftarrow> usub stop start;
         if distance \<ge> region_size \<and> start \<noteq> 0 then
           on_raw (fold_panics (\<lambda>line. storage_index_visible_mut line (template_reset g))
             [start..<stop]) g
         else
           do { h \<leftarrow> history_size g;
                let num_lines_to_truncate = (h + distance) - gs_max_scroll_limit g;
                g \<leftarrow> increase_scroll_limit distance g;
                g \<leftarrow> on_raw (fold_panics (\<lambda>i. storage_swap i (i + distance)) (rev [0..<start])) g;
                g \<leftarrow> on_raw (storage_extend (int distance)) g;
                let len = st_len (gs_raw g);
                first \<leftarrow> usub len distance;
                g \<leftarrow> on_raw (fold_panics (\<lambda>i. storage_index_mut i (template_reset g)) [first..<len]) g;
                fixed_lines \<leftarrow> usub visible_rows stop;
                g \<leftarrow> on_raw (fold_panics (\<lambda>i s.
                       do { k \<leftarrow> usub visible_rows i;
                            index \<leftarrow> usub k 1;
                            j \<leftarrow> usub index distance;
                            storage_swap index j s }) [0..<fixed_lines]) g;
                h \<leftarrow> history_size g;
                Some (if gs_max_scroll_limit g = h
                      then g\<lparr>gs_num_lines_truncated := gs_num_lines_truncated g + num_lines_to_truncate\<rparr>
                      else g) } }"

definition clear_and_reset_saving_cursor_line :: "grid_storage \<Rightarrow> grid_storage panics" where
  "clear_and_reset_saving_cursor_line g =
    do { g \<leftarrow> clear_history g;
         g \<leftarrow> on_raw (swap_lines (vp_row (cur_point (gs_cursor g))) 0) g;
         let g = g\<lparr>gs_cursor := (gs_cursor g)\<lparr>cur_point :=
                     VisiblePoint 0 (vp_col (cur_point (gs_cursor g)))\<rparr>\<rparr>;
         on_raw (fold_panics (\<lambda>row. storage_index_mut row (row_reset default_cell))
           [1..<st_len (gs_raw g)]) g }"

definition grid_reset :: "grid_storage \<Rightarrow> grid_storage panics" where
  "grid_reset g =
    do { g \<leftarrow> clear_history g;
         let g = g\<lparr>gs_saved_cursor := default_cursor, gs_cursor := default_cursor,
                   gs_max_cursor_point := VisiblePoint 0 0\<rparr>;
         on_raw (fold_panics (\<lambda>row. storage_index_mut row (template_reset g))
           [0..<st_len (gs_raw g)]) g }"

definition truncate_to_cursor_rows :: "grid_storage \<Rightarrow> grid_storage panics" where
  "truncate_to_cursor_rows g =
    do { cursor_absolute_row \<leftarrow> rows_to_cursor g;
         let rows_to_include = cursor_absolute_row + 1;
         g \<leftarrow> on_raw (truncate_to rows_to_include) g;
         let g = g\<lparr>gs_rows := min (gs_rows g) rows_to_include\<rparr>;
         now \<leftarrow> rows_to_cursor g;
         let shift = cursor_absolute_row - now;
         let p = cur_point (gs_cursor g);
         let g = g\<lparr>gs_cursor := (gs_cursor g)\<lparr>cur_point := VisiblePoint (vp_row p + shift) (vp_col p)\<rparr>\<rparr>;
         Some (g\<lparr>gs_max_cursor_point := cur_point (gs_cursor g)\<rparr>) }"

definition grid_truncate_columns :: "nat \<Rightarrow> grid_storage \<Rightarrow> grid_storage" where
  "grid_truncate_columns col g =
    g\<lparr>gs_raw := storage_truncate_columns col (gs_raw g), gs_columns := col\<rparr>"

definition truncate_to_cursor_cols :: "grid_storage \<Rightarrow> grid_storage" where
  "truncate_to_cursor_cols g =
    (if \<not> (cols_to_cursor g + 1 = gs_columns g \<and> cur_input_needs_wrap (gs_cursor g))
     then grid_truncate_columns (cols_to_cursor g) g else g)"

section \<open>The grid in use: no scrollback of its own, every row full width\<close>

text \<open>
  The grid handler keeps the scrollback elsewhere and creates every grid with a scroll limit of 0;
  \<open>live_grid\<close> is the state of such a grid.
\<close>

definition live_grid :: "grid_storage \<Rightarrow> bool" where
  "live_grid g \<longleftrightarrow>
     ring_full (gs_raw g) \<and> st_len (gs_raw g) = gs_rows g \<and> gs_max_scroll_limit g = 0 \<and>
     1 \<le> gs_columns g \<and>
     list_all (\<lambda>r. row_wf r \<and> row_len r = gs_columns g) (rows_of (gs_raw g))"

definition grid_blank :: "grid_storage \<Rightarrow> row" where
  "grid_blank g = blank_row (gs_columns g) (cell_bg (cur_template (gs_cursor g)))"

lemma live_grid_rows:
  "live_grid g \<Longrightarrow> r \<in> set (rows_of (gs_raw g)) \<Longrightarrow> row_wf r \<and> row_len r = gs_columns g"
  by (auto simp: live_grid_def list_all_iff)

lemma live_grid_history: "live_grid g \<Longrightarrow> history_size g = Some 0"
  by (simp add: live_grid_def history_size_def total_rows_def usub_def)

lemma row_reset_sized:
  "row_wf r \<Longrightarrow> row_len r = n \<Longrightarrow> 1 \<le> n \<Longrightarrow> row_reset t r = Some (blank_row n (cell_bg t))"
  by (subst row_reset_correct) (auto simp: row_len_def)

lemma template_reset_blank:
  assumes "live_grid g" and "r \<in> set (rows_of (gs_raw g)) \<or> r = grid_blank g"
  shows "template_reset g r = Some (grid_blank g)"
  unfolding template_reset_def grid_blank_def
  using assms live_grid_rows [OF assms(1)] by (intro row_reset_sized) (auto simp: live_grid_def grid_blank_def)

lemma on_raw_Some: "f (gs_raw g) = Some raw \<Longrightarrow> on_raw f g = Some (g\<lparr>gs_raw := raw\<rparr>)"
  by (simp add: on_raw_def)

lemma on_raw_again:
  "f r = Some raw \<Longrightarrow> on_raw f (g\<lparr>gs_raw := r\<rparr>) = Some (g\<lparr>gs_raw := raw\<rparr>)"
  by (simp add: on_raw_def)

lemma template_reset_raw [simp]: "template_reset (g\<lparr>gs_raw := raw\<rparr>) = template_reset g"
  by (simp add: template_reset_def fun_eq_iff)

lemma live_grid_update:
  assumes "live_grid g" and "ring_full raw" and "length (rows_of raw) = gs_rows g"
    and "set (rows_of raw) \<subseteq> insert (grid_blank g) (set (rows_of (gs_raw g)))"
  shows "live_grid (g\<lparr>gs_raw := raw\<rparr>)"
  using assms by (auto simp: live_grid_def list_all_iff grid_blank_def)

lemma set_scroll_spec:
  "set (scroll_up_spec a e d b xs) \<subseteq> insert b (set xs)"
  "set (scroll_down_spec a e d b xs) \<subseteq> insert b (set xs)"
  by (auto simp: scroll_up_spec_def scroll_down_spec_def dest: in_set_takeD in_set_dropD)

lemma fill_range_scroll:
  assumes "a \<le> e" and "e \<le> length xs"
  shows "fill_range a e b xs = scroll_up_spec a e (e - a) b xs"
    and "fill_range a e b xs = scroll_down_spec a e (e - a) b xs"
  using assms by (auto intro!: nth_equalityI simp: nth_fill_range scroll_up_spec_nth scroll_down_spec_nth)

text \<open>Resetting the whole region, the branch taken when everything in it scrolls out.\<close>

lemma reset_region:
  assumes "live_grid g" and "e \<le> gs_rows g"
  shows "\<exists>raw. fold_panics (\<lambda>line. storage_index_visible_mut line (template_reset g)) [a..<e] (gs_raw g)
           = Some raw \<and> ring_full raw \<and> rows_of raw = fill_range a e (grid_blank g) (rows_of (gs_raw g))"
  using assms template_reset_blank [OF assms(1)]
  by (intro visible_ring.blank_loop) (auto simp: live_grid_def)

lemma fixed_swap_eq:
  assumes "e \<le> n" and "d \<le> e"
  shows "fold_panics (\<lambda>i s. do { k \<leftarrow> usub n i; index \<leftarrow> usub k 1; j \<leftarrow> usub index d;
             storage_swap index j s }) [0..<n - e] s =
         fold_panics (\<lambda>i. storage_swap (n - i - 1) (n - i - 1 - d)) [0..<n - e] s"
    and "fold_panics (\<lambda>i s. do { k \<leftarrow> usub n i; index \<leftarrow> usub k 1; j \<leftarrow> usub index d;
             storage_swap index j s }) (rev [0..<n - e]) s =
         fold_panics (\<lambda>i. storage_swap (n - i - 1) (n - i - 1 - d)) (rev [0..<n - e]) s"
  using assms by (auto intro!: fold_panics_cong simp: usub_def)

text \<open>What scrolling may change of the grid, beside its rows.\<close>

definition same_frame :: "grid_storage \<Rightarrow> grid_storage \<Rightarrow> bool" where
  "same_frame g g' \<longleftrightarrow>
     g' = g\<lparr>gs_raw := gs_raw g', gs_num_lines_truncated := gs_num_lines_truncated g'\<rparr>"

definition rows_now :: "grid_storage \<Rightarrow> row list" where
  "rows_now g = rows_of (gs_raw g)"

lemma live_grid_truncated [simp]:
  "live_grid (g\<lparr>gs_num_lines_truncated := k\<rparr>) = live_grid g"
  by (simp add: live_grid_def)

lemma length_rows_now [simp]: "live_grid g \<Longrightarrow> length (rows_now g) = gs_rows g"
  by (simp add: rows_now_def live_grid_def)

lemma scroll_up_raw:
  assumes "live_grid g" and "a + d \<le> e" and "e \<le> gs_rows g"
  shows "\<exists>s1 s2 s3 s4.
    fold_panics (\<lambda>i. storage_swap i (i + d)) (rev [0..<a]) (gs_raw g) = Some s1 \<and>
    storage_extend (int d) s1 = Some s2 \<and> st_len s2 = gs_rows g \<and>
    fold_panics (\<lambda>i. storage_index_mut i (template_reset g)) [gs_rows g - d..<gs_rows g] s2 = Some s3 \<and>
    fold_panics (\<lambda>i s. do { k \<leftarrow> usub (gs_rows g) i; index \<leftarrow> usub k 1; j \<leftarrow> usub index d;
       storage_swap index j s }) [0..<gs_rows g - e] s3 = Some s4 \<and>
    ring_full s4 \<and> rows_of s4 = scroll_up_spec a e d (grid_blank g) (rows_now g)"
proof -
  have g: "ring_full (gs_raw g)" "length (rows_of (gs_raw g)) = gs_rows g"
    using assms(1) by (auto simp: live_grid_def)
  have e: "e \<le> length (rows_of (gs_raw g))" using assms(3) g(2) by simp
  have b: "template_reset g r = Some (grid_blank g)"
    if "r \<in> set (rows_of (gs_raw g)) \<or> r = grid_blank g" for r
    using template_reset_blank [OF assms(1) that] .
  obtain s1 s2 s3 s4 where s:
    "fold_panics (\<lambda>i. storage_swap i (i + d)) (rev [0..<a]) (gs_raw g) = Some s1"
    "storage_extend (int d) s1 = Some s2"
    "fold_panics (\<lambda>i. storage_index_mut i (template_reset g)) [gs_rows g - d..<gs_rows g] s2 = Some s3"
    "fold_panics (\<lambda>i. storage_swap (gs_rows g - i - 1) (gs_rows g - i - 1 - d)) [0..<gs_rows g - e] s3
      = Some s4"
    "ring_full s4" "rows_of s4 = scroll_up_spec a e d (grid_blank g) (rows_now g)"
    using ring.scroll_up_view [OF g(1) assms(2) e, where f = "template_reset g" and b = "grid_blank g"]
      b g(2) unfolding rows_now_def by auto
  have "length (rows_of s1) = gs_rows g \<and> ring_full s1"
    using ring.swap_loop [OF g(1), of "rev [0..<a]" "\<lambda>i. i" "\<lambda>i. i + d"] s(1) g(2) assms(2,3)
    by auto
  then have "st_len s2 = gs_rows g"
    using ring.extend_law [of s1 d] s(2) assms(2,3) by (metis le_add2 length_rotate length_rows_of le_trans option.inject)
  with s show ?thesis
    using fixed_swap_eq(1) [of e "gs_rows g" d s3] assms(2,3) by auto
qed

lemma scroll_down_raw:
  assumes "live_grid g" and "a + d \<le> e" and "e \<le> gs_rows g"
  shows "\<exists>s1 s2 s3 s4.
    fold_panics (\<lambda>i s. do { k \<leftarrow> usub (gs_rows g) i; index \<leftarrow> usub k 1; j \<leftarrow> usub index d;
       storage_swap index j s }) (rev [0..<gs_rows g - e]) (gs_raw g) = Some s1 \<and>
    storage_retract (int d) s1 = Some s2 \<and>
    fold_panics (\<lambda>i. storage_index_mut i (template_reset g)) [0..<d] s2 = Some s3 \<and>
    fold_panics (\<lambda>i. storage_swap i (i + d)) [0..<a] s3 = Some s4 \<and>
    ring_full s4 \<and> rows_of s4 = scroll_down_spec a e d (grid_blank g) (rows_now g)"
proof -
  have g: "ring_full (gs_raw g)" "length (rows_of (gs_raw g)) = gs_rows g"
    using assms(1) by (auto simp: live_grid_def)
  have e: "e \<le> length (rows_of (gs_raw g))" using assms(3) g(2) by simp
  have b: "template_reset g r = Some (grid_blank g)"
    if "r \<in> set (rows_of (gs_raw g)) \<or> r = grid_blank g" for r
    using template_reset_blank [OF assms(1) that] .
  show ?thesis
    using ring.scroll_down_view [OF g(1) assms(2) e, where f = "template_reset g" and b = "grid_blank g"]
      b g(2) fixed_swap_eq(2) [of e "gs_rows g" d "gs_raw g"] assms(2,3)
    unfolding rows_now_def by auto
qed

definition sample_row :: "uchar \<Rightarrow> row" where
  "sample_row c = \<lparr>row_inner = [default_cell\<lparr>cell_c := c\<rparr>, default_cell], row_occ = 1\<rparr>"

definition sample_grid :: "bool \<Rightarrow> grid_storage" where
  "sample_grid sequential =
    \<lparr>gs_cursor = default_cursor, gs_max_cursor_point = VisiblePoint 0 0,
     gs_saved_cursor = default_cursor,
     gs_raw = \<lparr>st_inner = map sample_row [97, 98, 99, 100], st_bottom_row = 1, st_visible_lines = 4,
       st_len = 4, st_is_sequential = sequential, st_max_cache_size = 1\<rparr>,
     gs_columns = 2, gs_rows = 4, gs_max_scroll_limit = 0, gs_num_lines_truncated = 0,
     gs_resize_fix_ff_enabled = True\<rparr>"

lemma sample_row_wf: "row_wf (sample_row c) \<and> row_len (sample_row c) = 2"
  by (simp add: sample_row_def row_wf_def row_len_def default_cell_eq)

lemma sample_grid_rows:
  "rows_now (sample_grid True) = map sample_row [98, 99, 100, 97]"
  "rows_now (sample_grid False) = map sample_row [97, 100, 99, 98]"
  by (simp_all add: rows_now_def sample_grid_def rows_of_def phys_def upt_rec)

lemma sample_grid_simps:
  "gs_rows (sample_grid sequential) = 4" "gs_columns (sample_grid sequential) = 2"
  "grid_blank (sample_grid sequential) = blank_row 2 (Named NC_Background)"
  "gs_cursor (sample_grid sequential) = default_cursor" "cur_point default_cursor = VisiblePoint 0 0"
  "st_is_sequential (gs_raw (sample_grid sequential)) = sequential"
  by (simp_all add: sample_grid_def grid_blank_def default_cursor_def default_cell_def)

lemma sample_grid_live: "live_grid (sample_grid sequential)"
  using sample_grid_rows
  by (cases sequential)
    (simp_all add: rows_now_def live_grid_def sample_row_wf,
      simp_all add: sample_grid_def ring_full_def storage_wf_def)

section \<open>Properties\<close>

text \<open>The count of lines cut off grows by what is scrolled, unless all of a lower region is only reset.\<close>

definition truncated_by :: "nat \<Rightarrow> nat \<Rightarrow> nat \<Rightarrow> nat" where
  "truncated_by a e d = (if e - a \<le> d \<and> a \<noteq> 0 then 0 else d)"

lemma scroll_up_frame:
  assumes "live_grid g" and "a + d \<le> e" and "e \<le> gs_rows g"
  shows "\<exists>g'. scroll_up a e d g = Some g' \<and> live_grid g' \<and>
           g' = g\<lparr>gs_raw := gs_raw g', gs_num_lines_truncated := gs_num_lines_truncated g + truncated_by a e d\<rparr> \<and>
           rows_now g' = scroll_up_spec a e d (grid_blank g) (rows_now g)"
proof (cases "d \<ge> e - a \<and> a \<noteq> 0")
  case True
  then have d: "d = e - a" using assms(2) by linarith
  obtain raw where raw:
    "fold_panics (\<lambda>line. storage_index_visible_mut line (template_reset g)) [a..<e] (gs_raw g) = Some raw"
    "ring_full raw" "rows_of raw = fill_range a e (grid_blank g) (rows_of (gs_raw g))"
    using reset_region [OF assms(1,3)] by blast
  have rows: "rows_of raw = scroll_up_spec a e d (grid_blank g) (rows_of (gs_raw g))"
    using fill_range_scroll(1) [of a e "rows_of (gs_raw g)"] add_leD1 [OF assms(2)] assms(1,3) raw(3) d
    by (simp add: live_grid_def)
  then have "live_grid (g\<lparr>gs_raw := raw\<rparr>)"
    using assms set_scroll_spec(1) raw(3) by (intro live_grid_update [OF assms(1) raw(2)]) (simp_all add: live_grid_def)
  moreover have "scroll_up a e d g = Some (g\<lparr>gs_raw := raw\<rparr>)"
    unfolding scroll_up_def Let_def usub_le [OF add_leD1 [OF assms(2)]] bind.bind_lunit if_P [OF True]
    by (rule on_raw_Some) (rule raw(1))
  ultimately show ?thesis
    using rows True by (simp add: truncated_by_def rows_now_def)
next
  case False
  obtain s1 s2 s3 s4 where s:
    "fold_panics (\<lambda>i. storage_swap i (i + d)) (rev [0..<a]) (gs_raw g) = Some s1"
    "storage_extend (int d) s1 = Some s2" "st_len s2 = gs_rows g"
    "fold_panics (\<lambda>i. storage_index_mut i (template_reset g)) [gs_rows g - d..<gs_rows g] s2 = Some s3"
    "fold_panics (\<lambda>i s. do { k \<leftarrow> usub (gs_rows g) i; index \<leftarrow> usub k 1; j \<leftarrow> usub index d;
       storage_swap index j s }) [0..<gs_rows g - e] s3 = Some s4"
    "ring_full s4" "rows_of s4 = scroll_up_spec a e d (grid_blank g) (rows_now g)"
    using scroll_up_raw [OF assms] by (elim exE conjE) (rule that; assumption)
  have live: "live_grid (g\<lparr>gs_raw := s4\<rparr>)"
    using assms s(7) set_scroll_spec(1)
    by (intro live_grid_update [OF assms(1) s(6)]) (simp_all add: rows_now_def live_grid_def)
  have limit: "gs_max_scroll_limit g = 0" and le: "a \<le> e" "d \<le> gs_rows g"
    using assms by (auto simp: live_grid_def)
  have inc: "increase_scroll_limit d g = Some g"
    using assms(1) live_grid_history [OF assms(1)]
    by (simp add: increase_scroll_limit_def usub_def live_grid_def)
  have "scroll_up a e d g =
      Some (g\<lparr>gs_raw := s4, gs_num_lines_truncated := gs_num_lines_truncated g + d\<rparr>)"
  proof -
    have not_all: "(e - a \<le> d \<and> a \<noteq> 0) = False" using False by blast
    show ?thesis
      unfolding scroll_up_def Let_def usub_le [OF le(1)] live_grid_history [OF assms(1)] inc
        bind.bind_lunit not_all if_False on_raw_Some [where f = "fold_panics _ _", OF s(1)]
        on_raw_again [where f = "storage_extend _", OF s(2)]
      by (simp add: s(3) usub_le [OF le(2)] usub_le [OF assms(3)] limit live_grid_history [OF live]
          on_raw_again [where f = "fold_panics _ _", OF s(4)]
          on_raw_again [where f = "fold_panics _ _", OF s(5)] del: One_nat_def)
  qed
  moreover have "live_grid (g\<lparr>gs_raw := s4, gs_num_lines_truncated := gs_num_lines_truncated g + d\<rparr>)"
    using live live_grid_truncated [of _ "g\<lparr>gs_raw := s4\<rparr>"] by simp
  ultimately show ?thesis
    using s(7) False by (auto simp: truncated_by_def rows_now_def)
qed

lemma scroll_up_exact:
  assumes "live_grid g" and "a + d \<le> e" and "e \<le> gs_rows g"
  shows "\<exists>g'. scroll_up a e d g = Some g' \<and> live_grid g' \<and> same_frame g g' \<and>
          rows_now g' = scroll_up_spec a e d (grid_blank g) (rows_now g)"
proof -
  obtain g' where g': "scroll_up a e d g = Some g'" "live_grid g'"
      "g' = g\<lparr>gs_raw := gs_raw g', gs_num_lines_truncated := gs_num_lines_truncated g + truncated_by a e d\<rparr>"
      "rows_now g' = scroll_up_spec a e d (grid_blank g) (rows_now g)"
    using scroll_up_frame [OF assms] by blast
  have "gs_num_lines_truncated g' = gs_num_lines_truncated g + truncated_by a e d"
    using arg_cong [OF g'(3), of gs_num_lines_truncated] by simp
  then have "same_frame g g'" unfolding same_frame_def by (simp only: g'(3) [symmetric])
  with g'(1,2,4) show ?thesis by blast
qed

text \<open>
  C30. Scrolling a region up by at most its height never panics, drops the first rows of the
  region, blanks the last ones with the background of the cursor's template, and leaves every row
  outside the region alone. Of the other fields of the grid only the count of lines cut off changes: it grows by the
  number of lines scrolled, or stays where a region that does not start at the top is scrolled by its whole
  height. It holds in both storage orders.
\<close>

theorem scroll_up_correct:
  assumes "live_grid g" and "a + d \<le> e" and "e \<le> gs_rows g"
  shows "\<exists>g'. scroll_up a e d g = Some g' \<and> live_grid g' \<and>
           g' = g\<lparr>gs_raw := gs_raw g', gs_num_lines_truncated :=
             gs_num_lines_truncated g + (if e - a \<le> d \<and> a \<noteq> 0 then 0 else d)\<rparr> \<and>
           rows_now g' = scroll_up_spec a e d (grid_blank g) (rows_now g)"
  using scroll_up_frame [OF assms] by (simp only: truncated_by_def)

theorem scroll_up_correct_witness:
  "\<exists>g'. scroll_up 1 3 1 (sample_grid True) = Some g' \<and>
     rows_now g' = [sample_row 98, sample_row 100, blank_row 2 (Named NC_Background), sample_row 97]"
  using scroll_up_correct [OF sample_grid_live, of 1 1 3 True]
  by (auto simp: sample_grid_rows sample_grid_simps scroll_up_spec_def)

text \<open>
  C31. Scrolling a region down by at most its height never panics, blanks its first rows, drops its
  last ones, and leaves every row outside the region and every other field of the grid alone.
\<close>

theorem scroll_down_correct:
  assumes "live_grid g" and "a + d \<le> e" and "e \<le> gs_rows g"
  shows "\<exists>g'. scroll_down a e d g = Some g' \<and> live_grid g' \<and> g' = g\<lparr>gs_raw := gs_raw g'\<rparr> \<and>
           rows_now g' = scroll_down_spec a e d (grid_blank g) (rows_now g)"
proof (cases "d \<ge> e - a")
  case True
  then have d: "d = e - a" using assms(2) by linarith
  obtain raw where raw:
    "fold_panics (\<lambda>line. storage_index_visible_mut line (template_reset g)) [a..<e] (gs_raw g) = Some raw"
    "ring_full raw" "rows_of raw = fill_range a e (grid_blank g) (rows_of (gs_raw g))"
    using reset_region [OF assms(1,3)] by blast
  have rows: "rows_of raw = scroll_down_spec a e d (grid_blank g) (rows_of (gs_raw g))"
    using fill_range_scroll(2) [of a e "rows_of (gs_raw g)"] add_leD1 [OF assms(2)] assms(1,3) raw(3) d
    by (simp add: live_grid_def)
  then have "live_grid (g\<lparr>gs_raw := raw\<rparr>)"
    using assms set_scroll_spec(2) raw(3)
    by (intro live_grid_update [OF assms(1) raw(2)]) (simp_all add: live_grid_def)
  moreover have "scroll_down a e d g = Some (g\<lparr>gs_raw := raw\<rparr>)"
    unfolding scroll_down_def Let_def usub_le [OF add_leD1 [OF assms(2)]] bind.bind_lunit if_P [OF True]
    by (rule on_raw_Some) (rule raw(1))
  ultimately show ?thesis
    using rows by (simp add: rows_now_def)
next
  case False
  obtain s1 s2 s3 s4 where s:
    "fold_panics (\<lambda>i s. do { k \<leftarrow> usub (gs_rows g) i; index \<leftarrow> usub k 1; j \<leftarrow> usub index d;
       storage_swap index j s }) (rev [0..<gs_rows g - e]) (gs_raw g) = Some s1"
    "storage_retract (int d) s1 = Some s2"
    "fold_panics (\<lambda>i. storage_index_mut i (template_reset g)) [0..<d] s2 = Some s3"
    "fold_panics (\<lambda>i. storage_swap i (i + d)) [0..<a] s3 = Some s4"
    "ring_full s4" "rows_of s4 = scroll_down_spec a e d (grid_blank g) (rows_now g)"
    using scroll_down_raw [OF assms] by (elim exE conjE) (rule that; assumption)
  have live: "live_grid (g\<lparr>gs_raw := s4\<rparr>)"
    using assms s(6) set_scroll_spec(2)
    by (intro live_grid_update [OF assms(1) s(5)]) (simp_all add: rows_now_def live_grid_def)
  have "scroll_down a e d g = Some (g\<lparr>gs_raw := s4\<rparr>)"
    using False assms s add_leD1 [OF assms(2)]
    by (simp add: scroll_down_def usub_le on_raw_def live_grid_def Let_def)
  with live s(6) show ?thesis
    by (auto simp: rows_now_def)
qed

theorem scroll_down_correct_witness:
  "\<exists>g'. scroll_down 1 4 2 (sample_grid False) = Some g' \<and>
     rows_now g' = [sample_row 97, blank_row 2 (Named NC_Background),
                    blank_row 2 (Named NC_Background), sample_row 100]"
  using scroll_down_correct [OF sample_grid_live, of 1 2 4 False]
  by (auto simp: sample_grid_rows sample_grid_simps scroll_down_spec_def numeral_2_eq_2)

lemma new_storage:
  assumes "1 \<le> rows" and "1 \<le> cols"
  shows "\<exists>raw. storage_with_capacity rows cols sequential = Some raw \<and> ring_full raw \<and>
           st_len raw = rows \<and>
           rows_of raw = replicate rows (blank_row cols (Named NC_Background))"
proof -
  let ?b = "blank_row cols (Named NC_Background)"
  let ?raw = "\<lparr>st_inner = replicate rows ?b, st_bottom_row = 0, st_visible_lines = rows,
      st_len = rows, st_is_sequential = sequential, st_max_cache_size = 1\<rparr>"
  have "storage_with_capacity rows cols sequential = Some ?raw"
    using assms by (simp add: storage_with_capacity_def resize_rows_def row_new_def storage_with_rows_def
        blank_row_def default_cell_eq)
  moreover have "ring_full ?raw"
    using assms by (simp add: ring_full_def storage_wf_def)
  moreover have "rows_of ?raw = replicate rows ?b"
    by (intro nth_equalityI) (simp_all add: phys_def)
  ultimately show ?thesis by (intro exI [of _ ?raw]) simp
qed

lemma new_grid:
  assumes "1 \<le> rows" and "1 \<le> cols"
  shows "\<exists>g. grid_new sequential resize_fix rows cols 0 = Some g \<and> live_grid g \<and>
           gs_rows g = rows \<and> gs_columns g = cols \<and> gs_cursor g = default_cursor \<and>
           gs_saved_cursor g = default_cursor \<and>
           rows_now g = replicate rows (blank_row cols (Named NC_Background))"
proof -
  obtain raw where "storage_with_capacity rows cols sequential = Some raw" "ring_full raw"
    "st_len raw = rows" "rows_of raw = replicate rows (blank_row cols (Named NC_Background))"
    using new_storage [OF assms] by blast
  with assms show ?thesis
    by (simp add: grid_new_def live_grid_def rows_now_def list_all_iff)
qed

text \<open>
  A new grid of at least one row and one column can always be created, is live in either
  storage order, and shows only default cells.
\<close>

theorem grid_new_live:
  assumes "1 \<le> rows" and "1 \<le> cols"
  shows "\<exists>g. grid_new sequential resize_fix rows cols 0 = Some g \<and> live_grid g \<and>
           gs_rows g = rows \<and> gs_columns g = cols \<and>
           rows_now g = replicate rows (blank_row cols (Named NC_Background))"
  using new_grid [OF assms, of sequential resize_fix] by blast

theorem grid_new_live_witness:
  "\<exists>g. grid_new True False 3 2 0 = Some g \<and> rows_now g = replicate 3 (blank_row 2 (Named NC_Background))"
  using grid_new_live [of 3 2 True False] by auto

lemma clear_history_live:
  assumes "live_grid g"
  shows "clear_history g = Some g"
  using assms live_grid_history [OF assms]
  by (simp add: clear_history_def grid_shrink_lines_def shrink_lines_def usub_def live_grid_def
      ring_full_def)

text \<open>
  Resetting a live grid never panics, blanks every row with the default background, and puts
  both cursors and the furthest cursor position back to the origin.
\<close>

theorem grid_reset_correct:
  assumes "live_grid g"
  shows "\<exists>g'. grid_reset g = Some g' \<and> live_grid g' \<and>
           rows_now g' = replicate (gs_rows g) (blank_row (gs_columns g) (Named NC_Background)) \<and>
           gs_cursor g' = default_cursor \<and> gs_saved_cursor g' = default_cursor \<and>
           gs_max_cursor_point g' = VisiblePoint 0 0"
proof -
  let ?b = "blank_row (gs_columns g) (Named NC_Background)"
  define g1 where "g1 = g\<lparr>gs_saved_cursor := default_cursor, gs_cursor := default_cursor,
      gs_max_cursor_point := VisiblePoint 0 0\<rparr>"
  have g1: "live_grid g1" "grid_blank g1 = ?b" "gs_raw g1 = gs_raw g" "gs_rows g1 = gs_rows g"
    using assms by (simp_all add: g1_def live_grid_def grid_blank_def default_cursor_def default_cell_eq)
  have full: "ring_full (gs_raw g1)" "length (rows_of (gs_raw g1)) = gs_rows g"
    using g1 by (auto simp: live_grid_def)
  have b: "template_reset g1 r = Some ?b" if "r \<in> set (rows_of (gs_raw g1)) \<or> r = ?b" for r
    using template_reset_blank [OF g1(1)] that g1(2) by simp
  have "\<exists>raw. fold_panics (\<lambda>k. storage_index_mut k (template_reset g1)) [0..<gs_rows g] (gs_raw g1) = Some raw \<and>
      ring_full raw \<and> rows_of raw = fill_range 0 (gs_rows g) ?b (rows_of (gs_raw g1))"
    using full b by (intro ring.blank_loop) simp_all
  then obtain raw where raw:
    "fold_panics (\<lambda>k. storage_index_mut k (template_reset g1)) [0..<gs_rows g] (gs_raw g1) = Some raw"
    "ring_full raw" "rows_of raw = fill_range 0 (gs_rows g) ?b (rows_of (gs_raw g1))"
    by (elim exE conjE)
  have rows: "rows_of raw = replicate (gs_rows g) ?b"
    unfolding raw(3) using full(2) by (intro nth_equalityI) (simp_all add: nth_fill_range)
  have "live_grid (g1\<lparr>gs_raw := raw\<rparr>)"
    using rows g1 by (intro live_grid_update [OF g1(1) raw(2)]) auto
  moreover have "grid_reset g = Some (g1\<lparr>gs_raw := raw\<rparr>)"
    unfolding grid_reset_def clear_history_live [OF assms] bind.bind_lunit Let_def
      g1_def [symmetric]
    using on_raw_Some [of "fold_panics (\<lambda>k. storage_index_mut k (template_reset g1)) [0..<gs_rows g]",
        OF raw(1)] full(2)
    by simp
  ultimately show ?thesis
    using rows by (simp add: rows_now_def g1_def)
qed

theorem grid_reset_correct_witness:
  "\<exists>g'. grid_reset (sample_grid False) = Some g' \<and>
     rows_now g' = replicate 4 (blank_row 2 (Named NC_Background))"
  using grid_reset_correct [OF sample_grid_live, of False] by (auto simp: sample_grid_simps)

text \<open>
  Dropping the rows after the cursor keeps, in a reversed buffer, exactly the rows up to the
  cursor, with the cursor on the last one; a sequential buffer keeps as many rows but the last
  ones, so the rows before the cursor are lost instead.
\<close>

theorem truncate_to_cursor_rows_view:
  assumes "live_grid g" and "vp_row (cur_point (gs_cursor g)) < gs_rows g"
  defines "n \<equiv> vp_row (cur_point (gs_cursor g)) + 1"
  shows "\<exists>g'. truncate_to_cursor_rows g = Some g' \<and> gs_rows g' = n \<and>
           gs_cursor g' = gs_cursor g \<and> gs_max_cursor_point g' = cur_point (gs_cursor g) \<and>
           rows_now g' = (if st_is_sequential (gs_raw g) then drop (gs_rows g - n) (rows_now g)
                          else take n (rows_now g))"
proof -
  have wf: "storage_wf (gs_raw g)" and len: "st_len (gs_raw g) = gs_rows g"
    using assms(1) by (auto simp: live_grid_def ring_full_def)
  obtain raw where raw: "truncate_to n (gs_raw g) = Some raw" "st_len raw = n"
    "rows_of raw = (if st_is_sequential (gs_raw g) then drop (gs_rows g - n) (rows_now g)
                    else take n (rows_now g))"
    using truncate_to_rows [OF wf, of n] assms(2) len by (auto simp: n_def rows_now_def)
  have "rows_to_cursor g = Some (n - 1)"
    using live_grid_history [OF assms(1)] by (simp add: rows_to_cursor_def n_def)
  moreover define g2 where "g2 = g\<lparr>gs_raw := raw, gs_rows := n\<rparr>"
  have g2: "rows_to_cursor g2 = Some (n - 1)" "gs_cursor g2 = gs_cursor g" "gs_rows g2 = n"
    "rows_now g2 = rows_of raw"
    using raw(2) by (simp_all add: g2_def rows_to_cursor_def history_size_def total_rows_def usub_def
        n_def rows_now_def)
  moreover have "g\<lparr>gs_raw := raw, gs_rows := min (gs_rows (g\<lparr>gs_raw := raw\<rparr>)) (n - 1 + 1)\<rparr> = g2"
    using assms(2) by (simp add: g2_def n_def)
  ultimately have "truncate_to_cursor_rows g = Some (g2\<lparr>gs_max_cursor_point := cur_point (gs_cursor g)\<rparr>)"
    using raw(1) on_raw_Some [of "truncate_to n" g raw]
    unfolding truncate_to_cursor_rows_def Let_def by (simp add: n_def)
  with g2 raw(3) show ?thesis
    by (simp add: rows_now_def)
qed

theorem truncate_to_cursor_rows_view_witness:
  "\<exists>g'. truncate_to_cursor_rows (sample_grid True) = Some g' \<and> rows_now g' = [sample_row 97]"
  using truncate_to_cursor_rows_view [OF sample_grid_live, of True]
  by (auto simp: sample_grid_rows sample_grid_simps)

end
