(* ===== verification/Flat_Content.thy ===== *)
theory Flat_Content
  imports Grid_Row
begin

text \<open>
  The bytes of the scrollback: \<^verbatim>\<open>crates/warp_terminal/src/model/grid/flat_storage/content.rs\<close>
  and \<^verbatim>\<open>grapheme.rs\<close> beside it. Text is kept as UTF-8 in chunks of fixed size, and no grapheme
  is split between two chunks. A \<open>BTreeMap\<close> is its list of entries in ascending order of keys; a
  \<open>ByteOffset\<close> is a \<open>nat\<close> whose subtraction is checked. \<open>holds\<close> is the abstraction: which
  bytes can be read at which offset.
\<close>

section \<open>Ordered maps of the standard library\<close>

fun bt_insert :: "nat \<Rightarrow> 'v \<Rightarrow> (nat \<times> 'v) list \<Rightarrow> (nat \<times> 'v) list" where
  "bt_insert k v [] = [(k, v)]"
| "bt_insert k v ((j, w) # m) =
    (if k < j then (k, v) # (j, w) # m
     else if k = j then (k, v) # m
     else (j, w) # bt_insert k v m)"

text \<open>\<open>split_off\<close> leaves the keys below and returns the others; \<open>range(k..)\<close> visits the latter.\<close>

definition bt_below :: "nat \<Rightarrow> (nat \<times> 'v) list \<Rightarrow> (nat \<times> 'v) list" where
  "bt_below k m = filter (\<lambda>e. fst e < k) m"

definition bt_from :: "nat \<Rightarrow> (nat \<times> 'v) list \<Rightarrow> (nat \<times> 'v) list" where
  "bt_from k m = filter (\<lambda>e. k \<le> fst e) m"

section \<open>UTF-8\<close>

type_synonym byte = nat

definition encode_utf8 :: "uchar \<Rightarrow> byte list" where
  "encode_utf8 c =
    (if c < 0x80 then [c]
     else if c < 0x800 then [0xC0 + c div 0x40, 0x80 + c mod 0x40]
     else if c < 0x10000 then
       [0xE0 + c div 0x1000, 0x80 + c div 0x40 mod 0x40, 0x80 + c mod 0x40]
     else
       [0xF0 + c div 0x40000, 0x80 + c div 0x1000 mod 0x40, 0x80 + c div 0x40 mod 0x40,
        0x80 + c mod 0x40])"

definition str_bytes :: "uchar list \<Rightarrow> byte list" where
  "str_bytes s = concat (map encode_utf8 s)"

text \<open>\<open>str::chars\<close> on the bytes of a string.\<close>

fun decode_utf8 :: "byte list \<Rightarrow> uchar list" where
  "decode_utf8 [] = []"
| "decode_utf8 (a # bs) =
    (if a < 0x80 then a # decode_utf8 bs
     else if a < 0xE0 then
       (case bs of
          b # bs \<Rightarrow> ((a - 0xC0) * 0x40 + (b - 0x80)) # decode_utf8 bs
        | _ \<Rightarrow> [])
     else if a < 0xF0 then
       (case bs of
          b # c # bs \<Rightarrow> ((a - 0xE0) * 0x1000 + (b - 0x80) * 0x40 + (c - 0x80)) # decode_utf8 bs
        | _ \<Rightarrow> [])
     else
       (case bs of
          b # c # d # bs \<Rightarrow>
            ((a - 0xF0) * 0x40000 + (b - 0x80) * 0x1000 + (c - 0x80) * 0x40 + (d - 0x80)) #
            decode_utf8 bs
        | _ \<Rightarrow> []))"

section \<open>Graphemes\<close>

record grapheme_info =
  cell_width :: nat
  utf8_bytes :: nat

record grapheme =
  g_info :: grapheme_info
  g_content :: char_or_str

definition EMPTY_CELL :: grapheme where
  "EMPTY_CELL = \<lparr>g_info = \<lparr>cell_width = 1, utf8_bytes = 1\<rparr>, g_content = Char DEFAULT_CHAR\<rparr>"

definition NEWLINE :: grapheme where
  "NEWLINE = \<lparr>g_info = \<lparr>cell_width = 0, utf8_bytes = 1\<rparr>, g_content = Char 0xA\<rparr>"

definition content_len_utf8 :: "char_or_str \<Rightarrow> nat" where
  "content_len_utf8 content = (case content of Char c \<Rightarrow> len_utf8 c | Str s \<Rightarrow> str_len s)"

text \<open>The length has to fit in 16 bits and to be positive.\<close>

definition new_from_cell :: "cell \<Rightarrow> grapheme panics" where
  "new_from_cell c =
    do { let width = 1 + (if flags_contains (cell_flags c) F_WIDE_CHAR then 1 else 0);
         let n = content_len_utf8 (raw_content c);
         assert_that (n < 2 ^ 16);
         assert_that (n \<noteq> 0);
         Some \<lparr>g_info = \<lparr>cell_width = width, utf8_bytes = n\<rparr>, g_content = raw_content c\<rparr> }"

definition new_from_str_and_info :: "uchar list \<Rightarrow> grapheme_info \<Rightarrow> grapheme" where
  "new_from_str_and_info s info = \<lparr>g_info = info, g_content = Str s\<rparr>"

definition grapheme_len :: "grapheme \<Rightarrow> nat" where
  "grapheme_len g = utf8_bytes (g_info g)"

definition grapheme_chars :: "grapheme \<Rightarrow> uchar list" where
  "grapheme_chars g = (case g_content g of Char c \<Rightarrow> [c] | Str s \<Rightarrow> s)"

definition starts_new_row :: "grapheme \<Rightarrow> bool" where
  "starts_new_row g = (case g_content g of Char c \<Rightarrow> c = 0xA | Str s \<Rightarrow> s = [0xA])"

section \<open>Chunks\<close>

definition CHUNK_SIZE :: nat where "CHUNK_SIZE = 1024"

record chunk =
  ch_len :: nat
  ch_content :: "byte list"
  ch_start :: nat

definition chunk_new :: "nat \<Rightarrow> chunk" where
  "chunk_new start = \<lparr>ch_len = 0, ch_content = replicate CHUNK_SIZE 0, ch_start = start\<rparr>"

text \<open>\<open>xs[at..at + n].copy_from_slice(bs)\<close>.\<close>

definition write_slice :: "nat \<Rightarrow> 'b list \<Rightarrow> 'b list \<Rightarrow> 'b list panics" where
  "write_slice at bs xs =
    (if at + length bs \<le> length xs
     then Some (take at xs @ bs @ drop (at + length bs) xs) else None)"

definition slice :: "nat \<Rightarrow> nat \<Rightarrow> 'b list \<Rightarrow> 'b list panics" where
  "slice a b xs = (if a \<le> b \<and> b \<le> length xs then Some (drop a (take b xs)) else None)"

definition push_char_or_str :: "char_or_str \<Rightarrow> chunk \<Rightarrow> chunk panics" where
  "push_char_or_str content chunk =
    (case content of
       Char c \<Rightarrow>
         do { let len = len_utf8 c;
              bs \<leftarrow> (if len = 1 then update_checked (ch_content chunk) (ch_len chunk) c
                    else write_slice (ch_len chunk) (encode_utf8 c) (ch_content chunk));
              Some (chunk\<lparr>ch_content := bs, ch_len := ch_len chunk + len\<rparr>) }
     | Str s \<Rightarrow>
         do { let len = str_len s;
              bs \<leftarrow> write_slice (ch_len chunk) (str_bytes s) (ch_content chunk);
              Some (chunk\<lparr>ch_content := bs, ch_len := ch_len chunk + len\<rparr>) })"

definition chunk_truncate :: "nat \<Rightarrow> chunk \<Rightarrow> chunk panics" where
  "chunk_truncate offset chunk =
    do { assert_that (ch_start chunk \<le> offset);
         Some (chunk\<lparr>ch_len := offset - ch_start chunk\<rparr>) }"

definition chunk_end :: "chunk \<Rightarrow> nat" where
  "chunk_end chunk = ch_start chunk + ch_len chunk"

section \<open>The content\<close>

record content =
  filled_chunks :: "(nat \<times> chunk) list"
  active_chunk :: chunk

definition content_new :: content where
  "content_new = \<lparr>filled_chunks = [], active_chunk = chunk_new 0\<rparr>"

definition end_offset :: "content \<Rightarrow> nat" where
  "end_offset c = chunk_end (active_chunk c)"

definition push_grapheme :: "grapheme \<Rightarrow> content \<Rightarrow> content panics" where
  "push_grapheme g c =
    do { assert_that (grapheme_len g < CHUNK_SIZE);
         c \<leftarrow> (if ch_len (active_chunk c) + grapheme_len g > CHUNK_SIZE then
                 do { let full_chunk = active_chunk c;
                      k \<leftarrow> usub (chunk_end full_chunk) 1;
                      Some \<lparr>filled_chunks = bt_insert k full_chunk (filled_chunks c),
                            active_chunk = chunk_new (chunk_end full_chunk)\<rparr> }
               else Some c);
         chunk \<leftarrow> push_char_or_str (g_content g) (active_chunk c);
         Some (c\<lparr>active_chunk := chunk\<rparr>) }"

definition content_truncate :: "nat \<Rightarrow> content \<Rightarrow> content panics" where
  "content_truncate new_len c =
    do { let active = (case bt_from new_len (filled_chunks c) of
                         (_, chunk) # _ \<Rightarrow> chunk
                       | [] \<Rightarrow> active_chunk c);
         active \<leftarrow> chunk_truncate new_len active;
         let c = \<lparr>filled_chunks = bt_below new_len (filled_chunks c), active_chunk = active\<rparr>;
         assert_that (end_offset c = new_len);
         Some c }"

definition content_truncate_front :: "nat \<Rightarrow> content \<Rightarrow> content" where
  "content_truncate_front new_start c =
    c\<lparr>filled_chunks := dropWhile (\<lambda>e. fst e < new_start) (filled_chunks c)\<rparr>"

definition chunk_at :: "nat \<Rightarrow> content \<Rightarrow> chunk" where
  "chunk_at a c = (case bt_from a (filled_chunks c) of (_, chunk) # _ \<Rightarrow> chunk | [] \<Rightarrow> active_chunk c)"

definition content_index :: "nat \<Rightarrow> nat \<Rightarrow> content \<Rightarrow> byte list panics" where
  "content_index a b c =
    do { let chunk = chunk_at a c;
         assert_that (ch_start chunk \<le> a);
         assert_that (b \<le> chunk_end chunk);
         start \<leftarrow> usub a (ch_start chunk);
         stop \<leftarrow> usub b (ch_start chunk);
         slice start stop (ch_content chunk) }"

section \<open>UTF-8 round trip\<close>

lemma length_encode_utf8: "length (encode_utf8 c) = len_utf8 c"
  by (simp add: encode_utf8_def len_utf8_def)

lemma length_str_bytes: "length (str_bytes s) = str_len s"
  by (induction s) (simp_all add: str_bytes_def str_len_def length_encode_utf8)

lemma recombine: "(c::nat) div (k * m) * (k * m) + c div m mod k * m = c div m * m"
proof -
  have "c div m = c div m div k * k + c div m mod k" by simp
  then have "c div m * m = (c div (m * k) * k + c div m mod k) * m" by (simp add: div_mult2_eq)
  then show ?thesis by (simp add: algebra_simps)
qed

lemma decode_encode_utf8:
  assumes "c < 0x110000"
  shows "decode_utf8 (encode_utf8 c @ bs) = c # decode_utf8 bs"
proof -
  consider "c < 0x80" | "0x80 \<le> c" "c < 0x800" | "0x800 \<le> c" "c < 0x10000" | "0x10000 \<le> c"
    by linarith
  then show ?thesis
  proof cases
    case 2
    then have "c div 0x40 < 0x20" by (intro less_mult_imp_div_less) simp
    with 2 show ?thesis by (simp add: encode_utf8_def)
  next
    case 3
    then have "c div 0x1000 < 0x10" by (intro less_mult_imp_div_less) simp
    moreover have "c div 0x1000 * 0x1000 + c div 0x40 mod 0x40 * 0x40 + c mod 0x40 = c"
      using recombine [of c "0x40" "0x40"] by simp
    ultimately show ?thesis using 3 by (simp add: encode_utf8_def)
  next
    case 4
    have "c div 0x40000 * 0x40000 + c div 0x1000 mod 0x40 * 0x1000 +
        c div 0x40 mod 0x40 * 0x40 + c mod 0x40 = c"
      using recombine [of c "0x40" "0x40"] recombine [of c "0x40" "0x1000"] by simp
    then show ?thesis using 4 by (simp add: encode_utf8_def)
  qed (simp add: encode_utf8_def)
qed

definition scalar_values :: "uchar list \<Rightarrow> bool" where
  "scalar_values s \<longleftrightarrow> list_all (\<lambda>c. c < 0x110000) s"

lemma decode_str_bytes: "scalar_values s \<Longrightarrow> decode_utf8 (str_bytes s) = s"
  by (induction s) (simp_all add: scalar_values_def str_bytes_def decode_encode_utf8)

section \<open>Contiguous chunks\<close>

definition chunk_ok :: "chunk \<Rightarrow> bool" where
  "chunk_ok chunk \<longleftrightarrow> length (ch_content chunk) = CHUNK_SIZE \<and> ch_len chunk \<le> CHUNK_SIZE"

fun chunks_start :: "(nat \<times> chunk) list \<Rightarrow> chunk \<Rightarrow> nat" where
  "chunks_start [] active = ch_start active"
| "chunks_start ((_, chunk) # _) _ = ch_start chunk"

text \<open>Every chunk is keyed by its last byte, is not empty, and starts where the one before ends.\<close>

fun contiguous :: "(nat \<times> chunk) list \<Rightarrow> chunk \<Rightarrow> bool" where
  "contiguous [] active = chunk_ok active"
| "contiguous ((k, chunk) # m) active \<longleftrightarrow>
     chunk_ok chunk \<and> 0 < ch_len chunk \<and> k + 1 = chunk_end chunk \<and>
     chunks_start m active = chunk_end chunk \<and> contiguous m active"

definition content_wf :: "content \<Rightarrow> bool" where
  "content_wf c \<longleftrightarrow> contiguous (filled_chunks c) (active_chunk c)"

definition content_start :: "content \<Rightarrow> nat" where
  "content_start c = chunks_start (filled_chunks c) (active_chunk c)"

fun chunk_find :: "nat \<Rightarrow> (nat \<times> chunk) list \<Rightarrow> chunk \<Rightarrow> chunk" where
  "chunk_find a [] active = active"
| "chunk_find a ((k, chunk) # m) active = (if a \<le> k then chunk else chunk_find a m active)"

lemma chunk_at_find: "chunk_at a c = chunk_find a (filled_chunks c) (active_chunk c)"
proof -
  have "(case bt_from a m of (_, chunk) # _ \<Rightarrow> chunk | [] \<Rightarrow> x) = chunk_find a m x" for m x
    by (induction m) (auto simp: bt_from_def)
  then show ?thesis by (simp add: chunk_at_def)
qed

lemma contiguous_start: "contiguous m active \<Longrightarrow> chunks_start m active \<le> ch_start active"
proof (induction m)
  case (Cons e m)
  then show ?case by (cases e) (auto simp: chunk_end_def)
qed simp

lemma contiguous_keys:
  "contiguous m active \<Longrightarrow> e \<in> set m \<Longrightarrow> chunks_start m active \<le> fst e \<and> fst e < ch_start active"
proof (induction m)
  case (Cons e' m)
  obtain k chunk where "e' = (k, chunk)" by fastforce
  with Cons contiguous_start [of m active] show ?case
    by (auto simp: chunk_end_def)
qed simp

lemma contiguous_active:
  "contiguous m active \<Longrightarrow> chunk_ok active' \<Longrightarrow> ch_start active' = ch_start active \<Longrightarrow>
     contiguous m active'"
proof (induction m)
  case (Cons e m)
  then show ?case by (cases e; cases m) auto
qed simp

lemma contiguous_snoc:
  "contiguous m full \<Longrightarrow> 0 < ch_len full \<Longrightarrow> chunk_ok active \<Longrightarrow> ch_start active = chunk_end full \<Longrightarrow>
     contiguous (m @ [(chunk_end full - 1, full)]) active"
proof (induction m)
  case (Cons e m)
  then show ?case by (cases e; cases m) auto
qed (simp add: chunk_end_def)

lemma bt_insert_last: "\<forall>e \<in> set m. fst e < k \<Longrightarrow> bt_insert k v m = m @ [(k, v)]"
  by (induction k v m rule: bt_insert.induct) auto

lemma chunk_find_snoc:
  "chunk_find a (m @ [(k, chunk)]) active = chunk_find a m (if a \<le> k then chunk else active)"
  by (induction m) auto

lemma chunk_find_start:
  "contiguous m active \<Longrightarrow> chunks_start m active \<le> a \<Longrightarrow> ch_start (chunk_find a m active) \<le> a"
proof (induction m)
  case (Cons e m)
  then show ?case by (cases e; cases m) (auto simp: chunk_end_def)
qed simp

section \<open>What can be read\<close>

definition holds :: "content \<Rightarrow> nat \<Rightarrow> byte list \<Rightarrow> bool" where
  "holds c a bs \<longleftrightarrow> bs \<noteq> [] \<and> content_index a (a + length bs) c = Some bs"

definition chunk_holds :: "chunk \<Rightarrow> nat \<Rightarrow> byte list \<Rightarrow> bool" where
  "chunk_holds chunk a bs \<longleftrightarrow>
     bs \<noteq> [] \<and> ch_start chunk \<le> a \<and> a + length bs \<le> chunk_end chunk \<and>
     slice (a - ch_start chunk) (a + length bs - ch_start chunk) (ch_content chunk) = Some bs"

lemma holds_chunk: "holds c a bs \<longleftrightarrow> chunk_holds (chunk_at a c) a bs"
  by (auto simp: holds_def chunk_holds_def content_index_def Let_def assert_that_def usub_def)

lemma slice_write_before:
  "write_slice at bs xs = Some ys \<Longrightarrow> b \<le> at \<Longrightarrow> slice a b ys = slice a b xs"
  by (auto simp: write_slice_def slice_def split: if_splits)

lemma slice_write_same:
  "write_slice at bs xs = Some ys \<Longrightarrow> slice at (at + length bs) ys = Some bs"
  by (auto simp: write_slice_def slice_def split: if_splits)

lemma length_write_slice: "write_slice at bs xs = Some ys \<Longrightarrow> length ys = length xs"
  by (auto simp: write_slice_def split: if_splits)

definition content_bytes :: "char_or_str \<Rightarrow> byte list" where
  "content_bytes content = (case content of Char c \<Rightarrow> encode_utf8 c | Str s \<Rightarrow> str_bytes s)"

lemma length_content_bytes: "length (content_bytes content) = content_len_utf8 content"
  by (simp add: content_bytes_def content_len_utf8_def length_encode_utf8 length_str_bytes
      split: char_or_str.splits)

lemma push_char_or_str_eq:
  "push_char_or_str content chunk =
     do { bs \<leftarrow> write_slice (ch_len chunk) (content_bytes content) (ch_content chunk);
          Some (chunk\<lparr>ch_content := bs, ch_len := ch_len chunk + length (content_bytes content)\<rparr>) }"
proof -
  have one: "update_checked xs i c = write_slice i (encode_utf8 c) xs" if "len_utf8 c = 1" for c xs i
  proof -
    from that have "encode_utf8 c = [c]" by (auto simp: len_utf8_def encode_utf8_def split: if_splits)
    then show ?thesis
      by (auto simp: update_checked_def write_slice_def upd_conv_take_nth_drop)
  qed
  show ?thesis
    by (cases content)
      (simp_all add: push_char_or_str_def content_bytes_def Let_def one length_encode_utf8 length_str_bytes)
qed

text \<open>A grapheme whose recorded length is the length of its text.\<close>

definition sized :: "grapheme \<Rightarrow> bool" where
  "sized g \<longleftrightarrow> grapheme_len g = content_len_utf8 (g_content g) \<and> 0 < grapheme_len g \<and>
     grapheme_len g < CHUNK_SIZE"

lemma push_chunk_ok:
  assumes "chunk_ok chunk" and "ch_len chunk + length (content_bytes content) \<le> CHUNK_SIZE"
    and "content_bytes content \<noteq> []"
  shows "\<exists>chunk'. push_char_or_str content chunk = Some chunk' \<and> chunk_ok chunk' \<and>
           ch_start chunk' = ch_start chunk \<and>
           ch_len chunk' = ch_len chunk + length (content_bytes content) \<and>
           chunk_holds chunk' (chunk_end chunk) (content_bytes content) \<and>
           (\<forall>a bs. chunk_holds chunk a bs \<longrightarrow> chunk_holds chunk' a bs)"
proof -
  let ?bs = "content_bytes content"
  obtain ys where ys: "write_slice (ch_len chunk) ?bs (ch_content chunk) = Some ys"
    using assms by (simp add: write_slice_def chunk_ok_def)
  let ?chunk = "chunk\<lparr>ch_content := ys, ch_len := ch_len chunk + length ?bs\<rparr>"
  have "chunk_holds ?chunk a bs" if "chunk_holds chunk a bs" for a bs
    using that slice_write_before [OF ys, of "a + length bs - ch_start chunk" "a - ch_start chunk"]
    by (auto simp: chunk_holds_def chunk_end_def)
  moreover have "chunk_holds ?chunk (chunk_end chunk) ?bs"
    using slice_write_same [OF ys] assms(3) by (simp add: chunk_holds_def chunk_end_def)
  ultimately show ?thesis
    using assms length_write_slice [OF ys] by (simp add: push_char_or_str_eq ys chunk_ok_def)
qed

lemma content_new_wf: "content_wf content_new" "end_offset content_new = 0" "content_start content_new = 0"
  by (simp_all add: content_wf_def content_new_def end_offset_def content_start_def chunk_new_def
      chunk_ok_def chunk_end_def CHUNK_SIZE_def)

lemma chunk_find_ok: "contiguous m active \<Longrightarrow> chunk_ok (chunk_find a m active)"
  by (induction m) (auto split: if_splits)

lemma chunk_find_last:
  "contiguous m active \<Longrightarrow> ch_start active \<le> a \<Longrightarrow> chunk_find a m active' = active'"
proof (induction m)
  case (Cons e m)
  obtain k chunk where e: "e = (k, chunk)" by fastforce
  have "k < ch_start active" using contiguous_keys [OF Cons.prems(1), of e] e by simp
  with Cons e show ?case by simp
qed simp

lemma chunk_find_filled:
  "contiguous m active \<Longrightarrow> chunk_holds (chunk_find a m active) a bs \<Longrightarrow> a < ch_start active \<Longrightarrow>
     chunk_find a m active' = chunk_find a m active"
proof (induction m)
  case (Cons e m)
  then show ?case by (cases e) (auto split: if_splits)
qed (simp add: chunk_holds_def)

text \<open>Pushing a grapheme makes it readable at the old end and keeps everything else readable.\<close>

lemma push_active:
  assumes "content_wf c" and "sized g" and "ch_len (active_chunk c) + grapheme_len g \<le> CHUNK_SIZE"
    and "push_char_or_str (g_content g) (active_chunk c) = Some active"
  shows "content_wf (c\<lparr>active_chunk := active\<rparr>) \<and>
         end_offset (c\<lparr>active_chunk := active\<rparr>) = end_offset c + grapheme_len g \<and>
         holds (c\<lparr>active_chunk := active\<rparr>) (end_offset c) (content_bytes (g_content g)) \<and>
         (\<forall>a bs. holds c a bs \<longrightarrow> holds (c\<lparr>active_chunk := active\<rparr>) a bs) \<and>
         content_start (c\<lparr>active_chunk := active\<rparr>) = content_start c"
proof -
  let ?c = "c\<lparr>active_chunk := active\<rparr>"
  have wf: "contiguous (filled_chunks c) (active_chunk c)" and ok: "chunk_ok (active_chunk c)"
    using assms(1) chunk_find_ok [of "filled_chunks c" "active_chunk c" "ch_start (active_chunk c)"]
      chunk_find_last [of "filled_chunks c" "active_chunk c" "ch_start (active_chunk c)"]
    by (auto simp: content_wf_def)
  have g: "length (content_bytes (g_content g)) = grapheme_len g" "content_bytes (g_content g) \<noteq> []"
    using assms(2) length_content_bytes [of "g_content g"] by (auto simp: sized_def)
  obtain active' where "push_char_or_str (g_content g) (active_chunk c) = Some active'" "chunk_ok active'"
      "ch_start active' = ch_start (active_chunk c)"
      "ch_len active' = ch_len (active_chunk c) + grapheme_len g"
      "chunk_holds active' (chunk_end (active_chunk c)) (content_bytes (g_content g))"
      "\<forall>a bs. chunk_holds (active_chunk c) a bs \<longrightarrow> chunk_holds active' a bs"
    using push_chunk_ok [OF ok, of "g_content g"] assms(3) g by auto
  with assms(4) have a: "chunk_ok active" "ch_start active = ch_start (active_chunk c)"
      "ch_len active = ch_len (active_chunk c) + grapheme_len g"
      "chunk_holds active (chunk_end (active_chunk c)) (content_bytes (g_content g))"
      "\<And>a bs. chunk_holds (active_chunk c) a bs \<Longrightarrow> chunk_holds active a bs"
    by simp_all
  have "holds ?c a bs" if "holds c a bs" for a bs
  proof (cases "a < ch_start (active_chunk c)")
    case True
    with that show ?thesis
      using chunk_find_filled [OF wf _ True, of bs active] by (simp add: holds_chunk chunk_at_find)
  next
    case False
    with that a(5) show ?thesis
      using chunk_find_last [OF wf, of a] by (simp add: holds_chunk chunk_at_find)
  qed
  moreover have "content_start ?c = content_start c"
    using a(2) by (cases "filled_chunks c") (auto simp: content_start_def)
  moreover have "holds ?c (end_offset c) (content_bytes (g_content g))"
    using a(4) chunk_find_last [OF wf, of "end_offset c"]
    by (simp add: holds_chunk chunk_at_find end_offset_def chunk_end_def)
  ultimately show ?thesis
    using contiguous_active [OF wf a(1,2)] a(2,3)
    by (simp add: content_wf_def end_offset_def chunk_end_def)
qed

lemma new_chunk_ok:
  assumes "content_wf c" and "0 < ch_len (active_chunk c)"
  defines "k \<equiv> chunk_end (active_chunk c) - 1"
  defines "c' \<equiv> \<lparr>filled_chunks = bt_insert k (active_chunk c) (filled_chunks c),
                 active_chunk = chunk_new (chunk_end (active_chunk c))\<rparr>"
  shows "content_wf c' \<and> end_offset c' = end_offset c \<and> ch_len (active_chunk c') = 0 \<and>
         (\<forall>a bs. holds c a bs \<longrightarrow> holds c' a bs) \<and> content_start c' = content_start c"
proof -
  have wf: "contiguous (filled_chunks c) (active_chunk c)"
    using assms(1) by (simp add: content_wf_def)
  have "\<forall>e \<in> set (filled_chunks c). fst e < k"
    using contiguous_keys [OF wf] assms(2) by (fastforce simp: k_def chunk_end_def)
  then have c': "c' = \<lparr>filled_chunks = filled_chunks c @ [(k, active_chunk c)],
                 active_chunk = chunk_new (chunk_end (active_chunk c))\<rparr>"
    by (simp add: c'_def bt_insert_last)
  have "holds c' a bs" if "holds c a bs" for a bs
  proof -
    from that have "chunk_holds (chunk_find a (filled_chunks c) (active_chunk c)) a bs"
      by (simp add: holds_chunk chunk_at_find)
    moreover have "chunk_find a (filled_chunks c) (if a \<le> k then active_chunk c else x) =
        chunk_find a (filled_chunks c) (active_chunk c)" for x
    proof (cases "a \<le> k")
      case False
      then have "ch_start (active_chunk c) \<le> a" using assms(2) by (simp add: k_def chunk_end_def)
      with calculation chunk_find_last [OF wf this] have "a + length bs \<le> chunk_end (active_chunk c)" "bs \<noteq> []"
        by (auto simp: chunk_holds_def)
      with False show ?thesis by (cases bs) (auto simp: k_def)
    qed simp
    ultimately show ?thesis
      by (simp add: c' holds_chunk chunk_at_find chunk_find_snoc)
  qed
  moreover have "content_start c' = content_start c"
    by (cases "filled_chunks c") (auto simp: c' content_start_def)
  moreover have "content_wf c'"
    using contiguous_snoc [OF wf assms(2), of "chunk_new (chunk_end (active_chunk c))"]
    by (simp add: c' content_wf_def k_def chunk_new_def chunk_ok_def)
  ultimately show ?thesis
    by (simp add: c' end_offset_def chunk_new_def chunk_end_def)
qed

lemma push_grapheme_ok:
  assumes "content_wf c" and "sized g"
  shows "\<exists>c'. push_grapheme g c = Some c' \<and> content_wf c' \<and>
           end_offset c' = end_offset c + grapheme_len g \<and>
           holds c' (end_offset c) (content_bytes (g_content g)) \<and>
           (\<forall>a bs. holds c a bs \<longrightarrow> holds c' a bs) \<and> content_start c' = content_start c"
proof -
  have g: "length (content_bytes (g_content g)) = grapheme_len g" "content_bytes (g_content g) \<noteq> []"
    "grapheme_len g < CHUNK_SIZE"
    using assms(2) length_content_bytes [of "g_content g"] by (auto simp: sized_def)
  have active: "\<exists>active. push_char_or_str (g_content g) (active_chunk d) = Some active"
    if "content_wf d" "ch_len (active_chunk d) + grapheme_len g \<le> CHUNK_SIZE" for d
  proof -
    have "chunk_ok (active_chunk d)"
      using that(1) chunk_find_ok chunk_find_last
      unfolding content_wf_def by (metis order_refl)
    then show ?thesis using push_chunk_ok [of "active_chunk d" "g_content g"] that(2) g by auto
  qed
  show ?thesis
  proof (cases "ch_len (active_chunk c) + grapheme_len g > CHUNK_SIZE")
    case False
    then obtain active where "push_char_or_str (g_content g) (active_chunk c) = Some active"
      using active assms(1) by fastforce
    with False g push_active [OF assms(1,2) _ this] show ?thesis
      by (simp add: push_grapheme_def assert_that_def Let_def)
  next
    case True
    let ?k = "chunk_end (active_chunk c) - 1"
    define d where "d = \<lparr>filled_chunks = bt_insert ?k (active_chunk c) (filled_chunks c),
        active_chunk = chunk_new (chunk_end (active_chunk c))\<rparr>"
    have pos: "0 < ch_len (active_chunk c)" using True g(3) by simp
    note d = new_chunk_ok [OF assms(1) pos, folded d_def]
    then obtain active where a: "push_char_or_str (g_content g) (active_chunk d) = Some active"
      using active [of d] g(3) by auto
    have u: "usub (chunk_end (active_chunk c)) 1 = Some ?k"
      using pos by (simp add: usub_def chunk_end_def)
    have "push_grapheme g c = Some (d\<lparr>active_chunk := active\<rparr>)"
      using True g(3) a u
      by (simp add: push_grapheme_def assert_that_def Let_def d_def [symmetric]) (simp add: d_def)
    moreover have "ch_len (active_chunk d) + grapheme_len g \<le> CHUNK_SIZE" using d g(3) by simp
    note push_active [OF _ assms(2) this a]
    ultimately show ?thesis using d by auto
  qed
qed

lemma chunk_holds_truncate:
  "chunk_holds chunk a bs \<Longrightarrow> a + length bs \<le> n \<Longrightarrow>
     chunk_holds (chunk\<lparr>ch_len := n - ch_start chunk\<rparr>) a bs"
  by (auto simp: chunk_holds_def chunk_end_def)

lemma chunks_start_below:
  "contiguous m active \<Longrightarrow> chunk = chunk_find n m active \<Longrightarrow>
     chunks_start (filter (\<lambda>e. fst e < n) m) (chunk\<lparr>ch_len := k\<rparr>) = chunks_start m active"
proof (induction m)
  case (Cons e m)
  obtain j c where e: "e = (j, c)" by fastforce
  show ?case
  proof (cases "n \<le> j")
    case True
    have "chunks_start m active = j + 1" using Cons.prems(1) e by simp
    then have "\<forall>x \<in> set m. j < fst x"
      using contiguous_keys [of m active] Cons.prems(1) e by fastforce
    then have "filter (\<lambda>e. fst e < n) m = []"
      using True by (auto simp: filter_empty_conv)
    with True Cons.prems(2) e show ?thesis by simp
  qed (use e in simp)
qed simp

lemma below_find:
  "contiguous m active \<Longrightarrow> chunk_holds (chunk_find a m active) a bs \<Longrightarrow> a + length bs \<le> n \<Longrightarrow>
     chunk_holds (chunk_find a (filter (\<lambda>e. fst e < n) m)
       ((chunk_find n m active)\<lparr>ch_len := n - ch_start (chunk_find n m active)\<rparr>)) a bs"
proof (induction m)
  case (Cons e m)
  obtain j c where e: "e = (j, c)" by fastforce
  have bs: "0 < length bs" using Cons.prems(2) by (simp add: chunk_holds_def)
  show ?case
  proof (cases "n \<le> j")
    case True
    have "chunks_start m active = j + 1" using Cons.prems(1) e by simp
    then have "\<forall>x \<in> set m. j < fst x"
      using contiguous_keys [of m active] Cons.prems(1) e by fastforce
    then have "filter (\<lambda>e. fst e < n) m = []"
      using True by (auto simp: filter_empty_conv)
    with True Cons.prems e bs show ?thesis by (simp add: chunk_holds_truncate)
  next
    case False
    with Cons e show ?thesis by (cases "a \<le> j") auto
  qed
qed (simp add: chunk_holds_truncate)

lemma contiguous_below:
  "contiguous m active \<Longrightarrow> chunks_start m active \<le> n \<Longrightarrow> n \<le> chunk_end active \<Longrightarrow>
     contiguous (filter (\<lambda>e. fst e < n) m)
       ((chunk_find n m active)\<lparr>ch_len := n - ch_start (chunk_find n m active)\<rparr>)"
proof (induction m)
  case (Cons e m)
  obtain j c where e: "e = (j, c)" by fastforce
  have next_start: "chunks_start m active = j + 1" using Cons.prems(1) e by simp
  show ?case
  proof (cases "n \<le> j")
    case True
    have "\<forall>x \<in> set m. j < fst x"
      using contiguous_keys [of m active] Cons.prems(1) e next_start by fastforce
    then have "filter (\<lambda>e. fst e < n) m = []"
      using True by (auto simp: filter_empty_conv)
    with True Cons.prems e show ?thesis by (auto simp: chunk_ok_def chunk_end_def)
  next
    case False
    with Cons e next_start show ?thesis
      using chunks_start_below [of m active "chunk_find n m active" n "n - ch_start (chunk_find n m active)"]
      by auto
  qed
qed (auto simp: chunk_ok_def chunk_end_def)

text \<open>Truncating at an offset keeps what is below it.\<close>

lemma content_truncate_ok:
  assumes "content_wf c" and "content_start c \<le> n" and "n \<le> end_offset c"
  shows "\<exists>c'. content_truncate n c = Some c' \<and> content_wf c' \<and> end_offset c' = n \<and>
           content_start c' = content_start c \<and>
           (\<forall>a bs. holds c a bs \<longrightarrow> a + length bs \<le> n \<longrightarrow> holds c' a bs)"
proof -
  have wf: "contiguous (filled_chunks c) (active_chunk c)"
    using assms(1) by (simp add: content_wf_def)
  let ?active = "chunk_find n (filled_chunks c) (active_chunk c)"
  let ?c = "\<lparr>filled_chunks = bt_below n (filled_chunks c),
             active_chunk = ?active\<lparr>ch_len := n - ch_start ?active\<rparr>\<rparr>"
  have start: "ch_start ?active \<le> n"
    using chunk_find_start [OF wf] assms(2) by (simp add: content_start_def)
  have "content_truncate n c = Some ?c"
    using start
    by (simp add: content_truncate_def chunk_truncate_def end_offset_def chunk_end_def
        chunk_at_find [symmetric] chunk_at_def [symmetric] Let_def assert_that_def)
  moreover have "content_wf ?c"
    using contiguous_below [OF wf] assms(2,3)
    by (simp add: content_wf_def content_start_def end_offset_def bt_below_def)
  moreover have "content_start ?c = content_start c"
    using chunks_start_below [OF wf refl] by (simp add: content_start_def bt_below_def)
  moreover have "holds ?c a bs" if "holds c a bs" "a + length bs \<le> n" for a bs
    using that below_find [OF wf, of a bs n] by (simp add: holds_chunk chunk_at_find bt_below_def)
  ultimately show ?thesis
    using start by (simp add: end_offset_def chunk_end_def)
qed

lemma contiguous_dropWhile:
  "contiguous m active \<Longrightarrow>
     contiguous (dropWhile (\<lambda>e. fst e < n) m) active \<and>
     (chunks_start m active \<le> n \<and> n \<le> chunk_end active \<longrightarrow>
        chunks_start (dropWhile (\<lambda>e. fst e < n) m) active \<le> n) \<and>
     (n \<le> a \<longrightarrow> chunk_find a (dropWhile (\<lambda>e. fst e < n) m) active = chunk_find a m active)"
proof (induction m)
  case (Cons e m)
  obtain j c where e: "e = (j, c)" by fastforce
  with Cons show ?case by auto
qed simp

text \<open>Dropping chunks at the front keeps what starts at or after the new start.\<close>

lemma content_truncate_front_ok:
  assumes "content_wf c" and "content_start c \<le> n" and "n \<le> end_offset c"
  shows "content_wf (content_truncate_front n c) \<and>
         end_offset (content_truncate_front n c) = end_offset c \<and>
         content_start (content_truncate_front n c) \<le> n \<and>
         (\<forall>a bs. holds c a bs \<longrightarrow> n \<le> a \<longrightarrow> holds (content_truncate_front n c) a bs)"
proof -
  have wf: "contiguous (filled_chunks c) (active_chunk c)"
    using assms(1) by (simp add: content_wf_def)
  note front = contiguous_dropWhile [OF wf, of n]
  have "holds (content_truncate_front n c) a bs" if "holds c a bs" "n \<le> a" for a bs
    using that front [of a] by (simp add: holds_chunk chunk_at_find content_truncate_front_def)
  with front [of n] assms(2,3) show ?thesis
    by (auto simp: content_truncate_front_def content_wf_def end_offset_def content_start_def)
qed

end
