(* ===== verification/Flat_Attributes.thy ===== *)
theory Flat_Attributes
  imports Flat_Content
begin

text \<open>
  The attributes of the scrollback's bytes, run-length encoded:
  \<^verbatim>\<open>crates/warp_terminal/src/model/grid/flat_storage/attribute_map.rs\<close> and \<^verbatim>\<open>style.rs\<close>. An
  entry is keyed by the last byte that has its value; the tail value holds beyond the last entry.
  \<open>attr_at\<close> is the function from offsets to values that the map stands for.
\<close>

section \<open>The map\<close>

record 'a attribute_map =
  am_map :: "(nat \<times> 'a) list"
  am_tail :: 'a

definition am_new :: "'a \<Rightarrow> 'a attribute_map" where
  "am_new v = \<lparr>am_map = [], am_tail = v\<rparr>"

definition am_truncate :: "nat \<Rightarrow> 'a attribute_map \<Rightarrow> 'a attribute_map" where
  "am_truncate new_len m =
    \<lparr>am_map = bt_below new_len (am_map m),
     am_tail = (case bt_from new_len (am_map m) of (_, v) # _ \<Rightarrow> v | [] \<Rightarrow> am_tail m)\<rparr>"

definition am_truncate_front :: "nat \<Rightarrow> 'a attribute_map \<Rightarrow> 'a attribute_map" where
  "am_truncate_front new_start m = m\<lparr>am_map := bt_from new_start (am_map m)\<rparr>"

definition last_end_offset :: "'a attribute_map \<Rightarrow> nat" where
  "last_end_offset m = (if am_map m = [] then 0 else fst (last (am_map m)))"

definition push_attribute_change :: "nat \<Rightarrow> 'a \<Rightarrow> 'a attribute_map \<Rightarrow> 'a attribute_map panics" where
  "push_attribute_change start v m =
    (if v = am_tail m then Some m
     else
       let prev_tail_value = am_tail m; m = m\<lparr>am_tail := v\<rparr>
       in if start = 0 then do { assert_that (am_map m = []); Some m }
          else do { assert_that (start > last_end_offset m);
                    Some (m\<lparr>am_map := bt_insert (start - 1) prev_tail_value (am_map m)\<rparr>) })"

section \<open>Reading it in order\<close>

definition USIZE_MAX :: nat where "USIZE_MAX = 2 ^ 64 - 1"

record 'a attribute_iter =
  it_offset :: nat
  it_range :: "nat \<times> 'a"
  it_inner :: "(nat \<times> 'a) list"
  it_tail :: 'a

definition next_range :: "(nat \<times> 'a) list \<Rightarrow> 'a \<Rightarrow> (nat \<times> 'a) \<times> (nat \<times> 'a) list" where
  "next_range inner t = (case inner of [] \<Rightarrow> ((USIZE_MAX, t), []) | e # inner \<Rightarrow> (e, inner))"

definition iter_from :: "'a attribute_map \<Rightarrow> nat \<Rightarrow> 'a attribute_iter" where
  "iter_from m start =
    (let r = next_range (bt_from start (am_map m)) (am_tail m)
     in \<lparr>it_offset = start, it_range = fst r, it_inner = snd r, it_tail = am_tail m\<rparr>)"

text \<open>The loop of \<open>nth\<close>: no offset is beyond the last range, which ends at the largest \<open>usize\<close>.\<close>

fun advance :: "nat \<Rightarrow> nat \<times> 'a \<Rightarrow> (nat \<times> 'a) list \<Rightarrow> 'a \<Rightarrow> (nat \<times> 'a) \<times> (nat \<times> 'a) list" where
  "advance offset r [] t = (if offset > fst r then ((USIZE_MAX, t), []) else (r, []))"
| "advance offset r (e # inner) t =
    (if offset > fst r then advance offset e inner t else (r, e # inner))"

definition iter_nth :: "nat \<Rightarrow> 'a attribute_iter \<Rightarrow> 'a \<times> 'a attribute_iter" where
  "iter_nth n it =
    (let offset = it_offset it + n;
         r = advance offset (it_range it) (it_inner it) (it_tail it)
     in (snd (fst r),
         it\<lparr>it_offset := offset + 1, it_range := fst r, it_inner := snd r\<rparr>))"

section \<open>Styles\<close>

definition STYLE_MASK :: flags where
  "STYLE_MASK = F_INVERSE OR F_BOLD OR F_ITALIC OR F_UNDERLINE OR F_DOUBLE_UNDERLINE OR F_DIM OR
     F_HIDDEN OR F_STRIKEOUT"

record bg_and_style =
  bs_bg :: color
  bs_flags :: flags

definition default_bg_and_style :: bg_and_style where
  "default_bg_and_style = \<lparr>bs_bg = Named NC_Background, bs_flags = 0\<rparr>"

definition bg_and_style_from :: "cell \<Rightarrow> bg_and_style" where
  "bg_and_style_from c = \<lparr>bs_bg = cell_bg c, bs_flags = cell_flags c AND STYLE_MASK\<rparr>"

definition bg_and_style_eq :: "bg_and_style \<Rightarrow> cell \<Rightarrow> bool" where
  "bg_and_style_eq s c \<longleftrightarrow> bs_bg s = cell_bg c \<and> bs_flags s = cell_flags c AND STYLE_MASK"

lemma bg_and_style_eq_iff: "bg_and_style_eq s c \<longleftrightarrow> s = bg_and_style_from c"
  by (cases s) (simp add: bg_and_style_eq_def bg_and_style_from_def)

section \<open>The value at an offset\<close>

fun find_attr :: "(nat \<times> 'a) list \<Rightarrow> 'a \<Rightarrow> nat \<Rightarrow> 'a" where
  "find_attr [] t a = t"
| "find_attr ((k, v) # m) t a = (if a \<le> k then v else find_attr m t a)"

definition attr_at :: "'a attribute_map \<Rightarrow> nat \<Rightarrow> 'a" where
  "attr_at m a = find_attr (am_map m) (am_tail m) a"

text \<open>
  The keys ascend, and those that matter from offset \<open>b\<close> on stay below the byte before \<open>n\<close>, where the
  next change may be. Below \<open>b\<close> nothing is stored any more.
\<close>

definition am_ok :: "'a attribute_map \<Rightarrow> nat \<Rightarrow> nat \<Rightarrow> bool" where
  "am_ok m b n \<longleftrightarrow>
     sorted_wrt (<) (map fst (am_map m)) \<and> (\<forall>e \<in> set (am_map m). fst e + 1 < n \<or> fst e < b)"

lemma am_ok_mono: "am_ok m b n \<Longrightarrow> b \<le> b' \<Longrightarrow> n \<le> n' \<Longrightarrow> am_ok m b' n'"
  by (fastforce simp: am_ok_def)

lemma am_new_ok [simp]: "am_ok (am_new v) b n" "attr_at (am_new v) a = v" "am_tail (am_new v) = v"
  by (simp_all add: am_ok_def am_new_def attr_at_def)

lemma find_attr_beyond: "\<forall>e \<in> set m. fst e < a \<Longrightarrow> find_attr m t a = t"
  by (induction m) auto

lemma attr_at_tail: "am_ok m b n \<Longrightarrow> n \<le> a + 1 \<Longrightarrow> b \<le> a \<Longrightarrow> attr_at m a = am_tail m"
  unfolding attr_at_def am_ok_def by (rule find_attr_beyond) fastforce

lemma bt_insert_end:
  "sorted_wrt (<) (map fst m) \<Longrightarrow> \<forall>e \<in> set m. fst e \<le> k \<Longrightarrow>
     bt_insert k v m = filter (\<lambda>e. fst e < k) m @ [(k, v)]"
proof (induction k v m rule: bt_insert.induct)
  case (2 k v j w m)
  show ?case
  proof (cases "k = j")
    case True
    with "2.prems" have "m = []" by (cases m) fastforce+
    with True show ?thesis by simp
  next
    case False
    with 2 show ?thesis by auto
  qed
qed simp

lemma find_attr_end:
  "find_attr (filter (\<lambda>e. fst e < k) m @ [(k, t)]) v a =
     (if a \<le> k then find_attr (filter (\<lambda>e. fst e < k) m) t a else v)"
  by (induction m) auto

lemma push_attribute_change_ok:
  assumes "am_ok m b s" and "b \<le> s"
  shows "\<exists>m'. push_attribute_change s v m = Some m' \<and> am_tail m' = v \<and> am_ok m' b (s + 1) \<and>
           (\<forall>a \<ge> b. attr_at m' a = (if a < s then attr_at m a else v))"
proof (cases "v = am_tail m")
  case True
  then show ?thesis
    using am_ok_mono [OF assms(1), of b "s + 1"] attr_at_tail [OF assms(1)]
    by (auto simp: push_attribute_change_def)
next
  case False
  show ?thesis
  proof (cases "s = 0")
    case True
    with assms have "am_map m = []" by (cases "am_map m") (auto simp: am_ok_def)
    with False True show ?thesis
      by (simp add: push_attribute_change_def am_ok_def attr_at_def)
  next
    case s: False
    have keys: "\<forall>e \<in> set (am_map m). fst e \<le> s - 1" and sorted: "sorted_wrt (<) (map fst (am_map m))"
      using assms by (fastforce simp: am_ok_def)+
    let ?low = "filter (\<lambda>e. fst e < s - 1) (am_map m)"
    let ?m = "\<lparr>am_map = ?low @ [(s - 1, am_tail m)], am_tail = v\<rparr>"
    have "last_end_offset m < s"
      using keys s by (fastforce simp: last_end_offset_def dest: bspec [OF _ last_in_set])
    with False s have "push_attribute_change s v m = Some ?m"
      using bt_insert_end [OF sorted keys]
      by (cases m) (auto simp: push_attribute_change_def last_end_offset_def Let_def)
    moreover have "am_ok ?m b (s + 1)"
      using sorted s by (auto simp: am_ok_def sorted_wrt_append sorted_wrt_map intro: sorted_wrt_filter)
    moreover have "attr_at ?m a = (if a < s then attr_at m a else v)" if "b \<le> a" for a
    proof (cases "a < s")
      case True
      with assms(1) that have "\<forall>e \<in> set (am_map m). fst e < s - 1"
        by (fastforce simp: am_ok_def)
      then have "?low = am_map m" by (simp add: filter_id_conv)
      moreover have "a \<le> s - 1" using True s by linarith
      ultimately show ?thesis
        using True find_attr_end [of "s - 1" "am_map m" "am_tail m" v a] by (simp add: attr_at_def)
    next
      case False
      then have "\<not> a \<le> s - 1" using s by linarith
      with False find_attr_end [of "s - 1" "am_map m" "am_tail m" v a] show ?thesis
        by (simp add: attr_at_def)
    qed
    ultimately show ?thesis by auto
  qed
qed

section \<open>Truncation\<close>

lemma am_truncate_front_ok:
  assumes "am_ok m b n"
  shows "am_ok (am_truncate_front k m) b n" "am_tail (am_truncate_front k m) = am_tail m"
    "k \<le> a \<Longrightarrow> attr_at (am_truncate_front k m) a = attr_at m a"
proof -
  show "am_ok (am_truncate_front k m) b n"
    using assms by (auto simp: am_ok_def am_truncate_front_def bt_from_def sorted_wrt_map intro: sorted_wrt_filter)
  show "am_tail (am_truncate_front k m) = am_tail m" by (simp add: am_truncate_front_def)
  have "k \<le> a \<Longrightarrow> find_attr (filter (\<lambda>e. k \<le> fst e) es) t a = find_attr es t a" for es :: "(nat \<times> 'a) list" and t
    by (induction es) auto
  then show "k \<le> a \<Longrightarrow> attr_at (am_truncate_front k m) a = attr_at m a"
    by (simp add: attr_at_def am_truncate_front_def bt_from_def)
qed

lemma am_truncate_at:
  assumes "am_ok m b n" and "a < k"
  shows "attr_at (am_truncate k m) a = attr_at m a"
proof -
  have "find_attr (filter (\<lambda>e. fst e < k) es)
          (case filter (\<lambda>e. k \<le> fst e) es of (_, v) # _ \<Rightarrow> v | [] \<Rightarrow> t) a = find_attr es t a"
    if "sorted_wrt (<) (map fst es)" for es and t :: 'a
    using that
  proof (induction es)
    case (Cons e es)
    obtain j v where e: "e = (j, v)" by fastforce
    show ?case
    proof (cases "j < k")
      case True
      with Cons e assms show ?thesis by auto
    next
      case False
      with Cons.prems e have "filter (\<lambda>e. fst e < k) es = []" by (fastforce simp: filter_empty_conv)
      with False e assms show ?thesis by simp
    qed
  qed simp
  from this [of "am_map m" "am_tail m"] show ?thesis
    using assms(1) by (simp add: am_ok_def attr_at_def am_truncate_def bt_below_def bt_from_def)
qed

text \<open>Cutting back to the very start leaves only keys that do not matter.\<close>

lemma am_clear_ok: "am_ok m b n \<Longrightarrow> am_ok (am_truncate b m) b b"
  by (auto simp: am_ok_def am_truncate_def bt_below_def sorted_wrt_map intro: sorted_wrt_filter)

section \<open>The iterator\<close>

definition iter_ok :: "'a attribute_map \<Rightarrow> 'a attribute_iter \<Rightarrow> bool" where
  "iter_ok m it \<longleftrightarrow>
     it_tail it = am_tail m \<and>
     (\<forall>a \<ge> it_offset it. find_attr (it_range it # it_inner it) (am_tail m) a = attr_at m a)"

lemma find_attr_from:
  "k \<le> a \<Longrightarrow> find_attr (filter (\<lambda>e. k \<le> fst e) es) t a = find_attr es t a"
  by (induction es) auto

lemma iter_from_ok: "iter_ok m (iter_from m start)"
proof -
  have "find_attr (fst (next_range es t) # snd (next_range es t)) t a = find_attr es t a" for es and t :: 'a and a
    by (cases es) (auto simp: next_range_def)
  then show ?thesis
    by (simp add: iter_ok_def iter_from_def Let_def attr_at_def bt_from_def find_attr_from)
qed

lemma advance_ok:
  "b \<le> a \<Longrightarrow> find_attr (fst (advance b r es t) # snd (advance b r es t)) t a = find_attr (r # es) t a"
  by (induction b r es t rule: advance.induct) (auto split: if_splits)

lemma advance_value: "snd (fst (advance b r es t)) = find_attr (r # es) t b"
  by (induction b r es t rule: advance.induct) auto

lemma iter_nth_ok:
  assumes "iter_ok m it"
  shows "fst (iter_nth n it) = attr_at m (it_offset it + n)"
    and "iter_ok m (snd (iter_nth n it))"
    and "it_offset (snd (iter_nth n it)) = it_offset it + n + 1"
  using assms advance_ok [of "it_offset it + n" _ "it_range it" "it_inner it" "am_tail m"]
    advance_value [of "it_offset it + n" "it_range it" "it_inner it" "am_tail m"]
  by (simp_all add: iter_ok_def iter_nth_def Let_def del: find_attr.simps)

section \<open>Properties\<close>

text \<open>
  C29. The run-length encoding is exact while the map only grows: recording a change at an offset
  beyond all earlier changes never panics and changes the value from that offset on and nowhere
  else in the stored range, and reading on from any offset with the iterator yields the value in
  force at each offset.
\<close>

theorem attribute_map_exact:
  assumes "am_ok m b s" and "b \<le> s"
  shows "\<exists>m'. push_attribute_change s v m = Some m' \<and> am_tail m' = v \<and>
           (\<forall>a \<ge> b. attr_at m' a = (if a < s then attr_at m a else v)) \<and>
           (\<forall>start n. fst (iter_nth n (iter_from m' start)) = attr_at m' (start + n))"
proof -
  obtain m' where "push_attribute_change s v m = Some m'" "am_tail m' = v"
      "\<forall>a \<ge> b. attr_at m' a = (if a < s then attr_at m a else v)"
    using push_attribute_change_ok [OF assms] by blast
  moreover have "fst (iter_nth n (iter_from m' start)) = attr_at m' (start + n)" for start n
    using iter_nth_ok(1) [OF iter_from_ok, of n m' start] by (simp add: iter_from_def Let_def)
  ultimately show ?thesis by blast
qed

theorem attribute_map_exact_witness:
  "\<exists>m. push_attribute_change 3 (1::nat) (am_new 0) = Some m \<and> attr_at m 2 = 0 \<and> attr_at m 3 = 1"
  using attribute_map_exact [of "am_new (0::nat)" 0 3 1] by auto

text \<open>
  Truncation forgets to take back the change at the place where it cuts: whatever the values
  \<open>a\<close>, \<open>b\<close> and \<open>c\<close>, after a run of \<open>a\<close> followed by a run of \<open>b\<close> is cut back to the run of \<open>a\<close>, and a
  run of \<open>c\<close> different from \<open>b\<close> is appended, the last byte of the first run reads as \<open>b\<close>, although
  no byte left in the storage has that value.
\<close>

definition cut_and_append :: "nat \<Rightarrow> 'a \<Rightarrow> 'a \<Rightarrow> 'a \<Rightarrow> 'a attribute_map panics" where
  "cut_and_append n a b c =
    do { m \<leftarrow> push_attribute_change n b (am_new a);
         push_attribute_change n c (am_truncate n m) }"

theorem truncated_change_resurfaces:
  assumes "0 < n" and "a \<noteq> b" and "c \<noteq> b"
  shows "\<exists>m. cut_and_append n a b c = Some m \<and> attr_at m (n - 1) = b \<and> attr_at m n = c"
  using assms
  by (auto simp: cut_and_append_def push_attribute_change_def am_new_def am_truncate_def bt_below_def
      bt_from_def last_end_offset_def attr_at_def)

theorem truncated_change_resurfaces_witness:
  "\<exists>m. cut_and_append 4 ''red'' ''blue'' ''red'' = Some m \<and> attr_at m 3 = ''blue''"
  using truncated_change_resurfaces [of 4 "''red''" "''blue''" "''red''"] by auto

end
