(* ===== verification/Flat_Index.thy ===== *)
theory Flat_Index
  imports Flat_Content Grid_Point
begin

text \<open>
  The row index of the scrollback:
  \<^verbatim>\<open>crates/warp_terminal/src/model/grid/flat_storage/index.rs\<close>. A row is an entry with the
  offset of its content and the sizes of its graphemes, run-length encoded; rows are rebuilt from
  those sizes alone when the number of columns changes. \<open>tokens\<close> is what an index stands for,
  independently of its width: the sizes of its graphemes and the line breaks between them.
\<close>

datatype cell_type = RegularChar | WideChar | WideCharSpacer | LeadingWideCharSpacer

record grapheme_run =
  run_count :: nat
  run_info :: grapheme_info

datatype grapheme_sizing = Uniform grapheme_run | NonUniform | EmptyRow

record entry =
  e_offset :: nat
  e_sizing :: grapheme_sizing
  e_newline :: bool
  e_leading :: bool

record index =
  ix_rows :: "entry list"
  ix_columns :: nat
  ix_content_len :: nat
  ix_sizing :: "(nat \<times> grapheme_run list) list"

record entry_builder =
  b_cells :: nat
  b_incr :: nat
  b_newline :: bool
  b_leading :: bool
  b_runs :: "grapheme_run list"

section \<open>Runs\<close>

definition run_cols :: "grapheme_run \<Rightarrow> nat" where
  "run_cols run = run_count run * cell_width (run_info run)"

definition cell_type_at_offset :: "nat \<Rightarrow> grapheme_run \<Rightarrow> cell_type option panics" where
  "cell_type_at_offset offset run =
    (if cell_width (run_info run) = 1 then Some (Some RegularChar)
     else do { assert_that (offset < run_cols run);
               Some (Some (if offset mod 2 = 0 then WideChar else WideCharSpacer)) })"

section \<open>Building entries\<close>

definition builder_new :: entry_builder where
  "builder_new = \<lparr>b_cells = 0, b_incr = 0, b_newline = False, b_leading = False, b_runs = []\<rparr>"

text \<open>The count of a run is a non-zero 16-bit number.\<close>

definition process_grapheme_info_unchecked ::
  "grapheme_info \<Rightarrow> entry_builder \<Rightarrow> entry_builder panics" where
  "process_grapheme_info_unchecked info b =
    do { let b = b\<lparr>b_incr := b_incr b + utf8_bytes info\<rparr>;
         if b_runs b \<noteq> [] \<and> run_info (last (b_runs b)) = info then
           do { let count = run_count (last (b_runs b)) + 1;
                assert_that (count < 2 ^ 16);
                Some (b\<lparr>b_runs := butlast (b_runs b) @ [(last (b_runs b))\<lparr>run_count := count\<rparr>]\<rparr>) }
         else Some (b\<lparr>b_runs := b_runs b @ [\<lparr>run_count = 1, run_info = info\<rparr>]\<rparr>) }"

definition add_trailing_newline :: "entry_builder \<Rightarrow> entry_builder" where
  "add_trailing_newline b = b\<lparr>b_incr := b_incr b + len_utf8 0xA, b_newline := True\<rparr>"

definition add_leading_wide_char_spacer :: "entry_builder \<Rightarrow> entry_builder" where
  "add_leading_wide_char_spacer b = b\<lparr>b_leading := True\<rparr>"

definition append_to_index :: "entry_builder \<Rightarrow> index \<Rightarrow> index" where
  "append_to_index b ix =
    (let content_offset = ix_content_len ix;
         sizing = (case b_runs b of [] \<Rightarrow> EmptyRow | [run] \<Rightarrow> Uniform run | _ \<Rightarrow> NonUniform)
     in ix\<lparr>ix_sizing := (if sizing = NonUniform then bt_insert content_offset (b_runs b) (ix_sizing ix)
                          else ix_sizing ix),
           ix_content_len := ix_content_len ix + b_incr b,
           ix_rows := ix_rows ix @
             [\<lparr>e_offset = content_offset, e_sizing = sizing, e_newline = b_newline b,
               e_leading = b_leading b\<rparr>]\<rparr>)"

definition builder_is_empty :: "entry_builder \<Rightarrow> bool" where
  "builder_is_empty b \<longleftrightarrow> b_incr b = 0 \<and> \<not> b_newline b \<and> \<not> b_leading b \<and> b_runs b = []"

definition append_to_index_if_nonempty :: "entry_builder \<Rightarrow> index \<Rightarrow> index" where
  "append_to_index_if_nonempty b ix = (if builder_is_empty b then ix else append_to_index b ix)"

text \<open>Adding a grapheme to a row under construction, which is finished first if it is full.\<close>

definition process_grapheme_info ::
  "grapheme_info \<Rightarrow> entry_builder \<times> index \<Rightarrow> (entry_builder \<times> index) panics" where
  "process_grapheme_info info st =
    do { assert_that (utf8_bytes info > 0);
         if cell_width info = 0 then Some st
         else
           do { assert_that (cell_width info \<le> 2);
                let st = (if b_cells (fst st) + cell_width info > ix_columns (snd st) then
                            let b = (if cell_width info > 1 \<and> b_cells (fst st) \<noteq> ix_columns (snd st)
                                     then add_leading_wide_char_spacer (fst st) else fst st)
                            in (builder_new, append_to_index b (snd st))
                          else st);
                b \<leftarrow> process_grapheme_info_unchecked info
                      ((fst st)\<lparr>b_cells := b_cells (fst st) + cell_width info\<rparr>);
                Some (b, snd st) } }"

definition process_grapheme ::
  "grapheme \<Rightarrow> entry_builder \<times> index \<Rightarrow> (entry_builder \<times> index) panics" where
  "process_grapheme g st =
    (if starts_new_row g
     then Some (builder_new, append_to_index (add_trailing_newline (fst st)) (snd st))
     else process_grapheme_info (g_info g) st)"

section \<open>The index\<close>

definition index_new :: "nat \<Rightarrow> index" where
  "index_new columns = \<lparr>ix_rows = [], ix_columns = columns, ix_content_len = 0, ix_sizing = []\<rparr>"

definition get_entry :: "nat \<Rightarrow> index \<Rightarrow> entry option" where
  "get_entry row ix = (if row < length (ix_rows ix) then Some (ix_rows ix ! row) else None)"

definition content_offset_for_row :: "nat \<Rightarrow> index \<Rightarrow> nat option" where
  "content_offset_for_row row ix = map_option e_offset (get_entry row ix)"

definition content_range_for_row :: "nat \<Rightarrow> index \<Rightarrow> (nat \<times> nat) option" where
  "content_range_for_row row ix =
    do { start \<leftarrow> content_offset_for_row row ix;
         let stop = (case content_offset_for_row (row + 1) ix of
                       Some n \<Rightarrow> n | None \<Rightarrow> ix_content_len ix);
         Some (start, stop) }"

text \<open>The runs of an entry; \<open>None\<close> if they are missing from the index.\<close>

definition entry_runs :: "entry \<Rightarrow> index \<Rightarrow> grapheme_run list option" where
  "entry_runs e ix =
    (case e_sizing e of
       Uniform run \<Rightarrow> Some [run]
     | NonUniform \<Rightarrow> map_of (ix_sizing ix) (e_offset e)
     | EmptyRow \<Rightarrow> Some [])"

definition grapheme_runs_for_row :: "nat \<Rightarrow> index \<Rightarrow> grapheme_run list option" where
  "grapheme_runs_for_row row ix = do { e \<leftarrow> get_entry row ix; entry_runs e ix }"

definition expand_runs :: "grapheme_run list \<Rightarrow> grapheme_info list" where
  "expand_runs runs = concat (map (\<lambda>run. replicate (run_count run) (run_info run)) runs)"

definition grapheme_infos_for_row :: "nat \<Rightarrow> index \<Rightarrow> grapheme_info list option" where
  "grapheme_infos_for_row row ix = map_option expand_runs (grapheme_runs_for_row row ix)"

text \<open>One row of the old index in \<open>rebuild\<close>.\<close>

definition rebuild_row ::
  "index \<Rightarrow> nat \<Rightarrow> entry_builder \<times> index \<Rightarrow> (entry_builder \<times> index) panics" where
  "rebuild_row old_index row st =
    do { st \<leftarrow> (case grapheme_infos_for_row row old_index of
                  Some infos \<Rightarrow> fold_panics process_grapheme_info infos st
                | None \<Rightarrow> Some st);
         e \<leftarrow> get_entry row old_index;
         if e_newline e then process_grapheme NEWLINE st else Some st }"

definition rebuild :: "index \<Rightarrow> nat \<Rightarrow> index panics" where
  "rebuild old_index columns =
    do { let start = (case ix_rows old_index of [] \<Rightarrow> 0 | e # _ \<Rightarrow> e_offset e);
         let ix = (index_new columns)\<lparr>ix_content_len := start\<rparr>;
         st \<leftarrow> fold_panics (rebuild_row old_index) [0..<length (ix_rows old_index)] (builder_new, ix);
         Some (append_to_index_if_nonempty (fst st) (snd st)) }"

definition index_truncate :: "nat \<Rightarrow> index \<Rightarrow> nat \<times> index" where
  "index_truncate new_len ix =
    (case content_offset_for_row new_len ix of
       None \<Rightarrow> (ix_content_len ix, ix)
     | Some new_content_len \<Rightarrow>
         (new_content_len,
          ix\<lparr>ix_rows := take new_len (ix_rows ix),
             ix_sizing := bt_below new_content_len (ix_sizing ix),
             ix_content_len := new_content_len\<rparr>))"

definition index_truncate_front :: "nat \<Rightarrow> index \<Rightarrow> nat \<times> index" where
  "index_truncate_front count ix =
    (let new_start = (case content_offset_for_row count ix of
                        Some n \<Rightarrow> n | None \<Rightarrow> ix_content_len ix)
     in (new_start,
         ix\<lparr>ix_rows := drop count (ix_rows ix), ix_sizing := bt_from new_start (ix_sizing ix)\<rparr>))"

section \<open>Offsets and points\<close>

datatype offset_error =
    RowOutOfBounds nat nat
  | MissingGraphemeSizing nat
  | NonZeroColumnInEmptyRow nat nat
  | ColumnExceedsContent nat nat

datatype point_error =
    OffsetBeforeFirstRow nat nat
  | PointRowOutOfBounds nat
  | PointMissingGraphemeSizing nat
  | OffsetDoesNotMapToCellInRow nat nat

text \<open>The loop over the runs: the offset so far and the columns that remain.\<close>

fun walk_columns :: "grapheme_run list \<Rightarrow> nat \<Rightarrow> nat \<Rightarrow> nat \<times> nat" where
  "walk_columns [] offset cols_remaining = (offset, cols_remaining)"
| "walk_columns (run # runs) offset cols_remaining =
    (if cols_remaining = 0 then (offset, cols_remaining)
     else
       let cols_from_run = min (run_cols run) cols_remaining;
           graphemes_from_run = cols_from_run div cell_width (run_info run)
       in walk_columns runs (offset + graphemes_from_run * utf8_bytes (run_info run))
            (cols_remaining - cols_from_run))"

definition content_offset_at_point :: "point \<Rightarrow> index \<Rightarrow> offset_error + nat" where
  "content_offset_at_point p ix =
    (case get_entry (p_row p) ix of
       None \<Rightarrow> Inl (RowOutOfBounds (p_row p) (length (ix_rows ix) - 1))
     | Some e \<Rightarrow>
         if e_sizing e = EmptyRow then
           (if p_col p = 0 then Inr (e_offset e)
            else Inl (NonZeroColumnInEmptyRow (p_row p) (p_col p)))
         else
           (case entry_runs e ix of
              None \<Rightarrow> Inl (MissingGraphemeSizing (e_offset e))
            | Some runs \<Rightarrow>
                let r = walk_columns runs (e_offset e) (p_col p)
                in if snd r = 0 then Inr (fst r)
                   else Inl (ColumnExceedsContent (p_row p) (p_col p))))"

text \<open>The loop over the runs: the column reached, or \<open>None\<close> when the runs are used up.\<close>

fun walk_offset :: "grapheme_run list \<Rightarrow> nat \<Rightarrow> nat \<Rightarrow> nat option" where
  "walk_offset [] column remaining = None"
| "walk_offset (run # runs) column remaining =
    (let graphemes_in_run = run_cols run div cell_width (run_info run);
         content_in_run = graphemes_in_run * utf8_bytes (run_info run);
         in_run = min remaining content_in_run;
         column = column + in_run div utf8_bytes (run_info run) * cell_width (run_info run)
     in if remaining - in_run = 0 then Some column
        else walk_offset runs column (remaining - in_run))"

text \<open>\<open>partition_point\<close> on the ascending offsets of the rows.\<close>

definition partition_point :: "('a \<Rightarrow> bool) \<Rightarrow> 'a list \<Rightarrow> nat" where
  "partition_point P xs = length (takeWhile P xs)"

definition content_offset_to_point :: "nat \<Rightarrow> index \<Rightarrow> (point_error + point) panics" where
  "content_offset_to_point offset ix =
    (let partition = partition_point (\<lambda>e. e_offset e \<le> offset) (ix_rows ix)
     in if partition = 0 then
          Some (Inl (OffsetBeforeFirstRow offset
            (case ix_rows ix of [] \<Rightarrow> 0 | e # _ \<Rightarrow> e_offset e)))
        else
          let row = partition - 1
          in (case get_entry row ix of
                None \<Rightarrow> Some (Inl (PointRowOutOfBounds row))
              | Some e \<Rightarrow>
                  if e_sizing e = EmptyRow then
                    do { assert_that (offset = e_offset e); Some (Inr (Point row 0)) }
                  else
                    (case entry_runs e ix of
                       None \<Rightarrow> Some (Inl (PointMissingGraphemeSizing (e_offset e)))
                     | Some runs \<Rightarrow>
                         do { remaining \<leftarrow> usub offset (e_offset e);
                              Some (case walk_offset runs 0 remaining of
                                      Some column \<Rightarrow> Inr (Point row column)
                                    | None \<Rightarrow> Inl (OffsetDoesNotMapToCellInRow row offset)) })))"

fun cell_type_in_runs :: "grapheme_run list \<Rightarrow> nat \<Rightarrow> nat \<Rightarrow> cell_type option panics" where
  "cell_type_in_runs [] start_col col = Some (Some RegularChar)"
| "cell_type_in_runs (run # runs) start_col col =
    (let run_end_col = start_col + run_cols run
     in if run_end_col > col
        then do { offset \<leftarrow> usub col start_col; cell_type_at_offset offset run }
        else cell_type_in_runs runs run_end_col col)"

definition cell_type :: "nat \<Rightarrow> nat \<Rightarrow> index \<Rightarrow> cell_type option panics" where
  "cell_type row col ix =
    (case get_entry row ix of
       None \<Rightarrow> Some None
     | Some e \<Rightarrow>
         do { last_col \<leftarrow> (if e_leading e then map_option Some (usub (ix_columns ix) 1) else Some None);
              if last_col = Some col then Some (Some LeadingWideCharSpacer)
              else
                (case e_sizing e of
                   Uniform run \<Rightarrow>
                     if col \<ge> run_cols run then Some (Some RegularChar)
                     else cell_type_at_offset col run
                 | EmptyRow \<Rightarrow> Some (Some RegularChar)
                 | NonUniform \<Rightarrow>
                     (case map_of (ix_sizing ix) (e_offset e) of
                        None \<Rightarrow> Some None
                      | Some runs \<Rightarrow> cell_type_in_runs runs 0 col)) })"

section \<open>What an index stands for\<close>

text \<open>A line: the sizes of its graphemes, whether it ends in a line break, and in a spacer.\<close>

type_synonym line = "grapheme_info list \<times> bool \<times> bool"

definition info_ok :: "grapheme_info \<Rightarrow> bool" where
  "info_ok info \<longleftrightarrow> (cell_width info = 1 \<or> cell_width info = 2) \<and> 0 < utf8_bytes info"

definition infos_bytes :: "grapheme_info list \<Rightarrow> nat" where
  "infos_bytes infos = sum_list (map utf8_bytes infos)"

definition infos_cols :: "grapheme_info list \<Rightarrow> nat" where
  "infos_cols infos = sum_list (map cell_width infos)"

definition line_bytes :: "line \<Rightarrow> nat" where
  "line_bytes l = infos_bytes (fst l) + (if fst (snd l) then 1 else 0)"

definition lines_bytes :: "line list \<Rightarrow> nat" where
  "lines_bytes ls = sum_list (map line_bytes ls)"

definition runs_ok :: "grapheme_run list \<Rightarrow> bool" where
  "runs_ok runs \<longleftrightarrow> list_all (\<lambda>run. 0 < run_count run \<and> info_ok (run_info run)) runs"

text \<open>The entry of a line at an offset.\<close>

definition entry_is :: "(nat \<times> grapheme_run list) list \<Rightarrow> nat \<Rightarrow> line \<Rightarrow> entry \<Rightarrow> bool" where
  "entry_is sizing offset l e \<longleftrightarrow>
     e_offset e = offset \<and> e_newline e = fst (snd l) \<and> e_leading e = snd (snd l) \<and>
     (case e_sizing e of
        EmptyRow \<Rightarrow> fst l = []
      | Uniform run \<Rightarrow> runs_ok [run] \<and> fst l = expand_runs [run]
      | NonUniform \<Rightarrow>
          (\<exists>runs. map_of sizing offset = Some runs \<and> runs_ok runs \<and> 2 \<le> length runs \<and>
                  fst l = expand_runs runs))"

fun rows_are :: "(nat \<times> grapheme_run list) list \<Rightarrow> nat \<Rightarrow> line list \<Rightarrow> entry list \<Rightarrow> bool" where
  "rows_are sizing offset [] [] = True"
| "rows_are sizing offset (l # ls) (e # es) \<longleftrightarrow>
     entry_is sizing offset l e \<and> rows_are sizing (offset + line_bytes l) ls es"
| "rows_are sizing offset _ _ = False"

definition index_is :: "nat \<Rightarrow> line list \<Rightarrow> index \<Rightarrow> bool" where
  "index_is base ls ix \<longleftrightarrow>
     rows_are (ix_sizing ix) base ls (ix_rows ix) \<and>
     ix_content_len ix = base + lines_bytes ls \<and>
     (\<forall>e \<in> set (ix_sizing ix). fst e < ix_content_len ix)"

lemma lines_bytes_simps [simp]:
  "lines_bytes [] = 0" "lines_bytes (l # ls) = line_bytes l + lines_bytes ls"
  "lines_bytes (ls @ ls') = lines_bytes ls + lines_bytes ls'"
  by (simp_all add: lines_bytes_def)

lemma infos_simps [simp]:
  "infos_bytes [] = 0" "infos_bytes (i # is) = utf8_bytes i + infos_bytes is"
  "infos_bytes (is @ js) = infos_bytes is + infos_bytes js"
  "infos_cols [] = 0" "infos_cols (i # is) = cell_width i + infos_cols is"
  "infos_cols (is @ js) = infos_cols is + infos_cols js"
  by (simp_all add: infos_bytes_def infos_cols_def)

lemma expand_runs_simps [simp]:
  "expand_runs [] = []"
  "expand_runs (r # rs) = replicate (run_count r) (run_info r) @ expand_runs rs"
  "expand_runs (rs @ rs') = expand_runs rs @ expand_runs rs'"
  by (simp_all add: expand_runs_def)

lemma rows_are_length: "rows_are sz n ls es \<Longrightarrow> length ls = length es"
  by (induction sz n ls es rule: rows_are.induct) auto

lemma rows_are_append:
  "rows_are sz n (ls @ ls') (es @ es') \<longleftrightarrow>
     rows_are sz n ls es \<and> rows_are sz (n + lines_bytes ls) ls' es'"
  if "length ls = length es"
  using that by (induction sz n ls es rule: rows_are.induct) (auto simp: add.assoc)

lemma rows_are_take_drop:
  assumes "rows_are sz n ls es"
  shows "rows_are sz n (take k ls) (take k es)"
    and "rows_are sz (n + lines_bytes (take k ls)) (drop k ls) (drop k es)"
  using assms rows_are_append [of "take k ls" "take k es" sz n "drop k ls" "drop k es"]
    rows_are_length [OF assms] by auto

lemma expand_ok: "runs_ok runs \<Longrightarrow> list_all info_ok (expand_runs runs)"
  by (induction runs) (auto simp: runs_ok_def list_all_iff)

lemma entry_infos_ok: "entry_is sz n l e \<Longrightarrow> list_all info_ok (fst l)"
  using expand_ok [of "[_]"] expand_ok
  by (auto simp: entry_is_def simp del: expand_runs_simps split: grapheme_sizing.splits)

lemma infos_bytes_pos: "list_all info_ok is \<Longrightarrow> is \<noteq> [] \<Longrightarrow> 0 < infos_bytes is"
  by (cases "is") (auto simp: info_ok_def)

text \<open>Only the runs at offsets that are not empty lines matter.\<close>

lemma entry_is_cong:
  "entry_is sz n l e \<Longrightarrow> (fst l \<noteq> [] \<Longrightarrow> map_of sz' n = map_of sz n) \<Longrightarrow> entry_is sz' n l e"
  unfolding entry_is_def
proof (elim conjE, intro conjI, assumption+, goal_cases)
  case 1
  then show ?case
  proof (cases "e_sizing e")
    case NonUniform
    with 1 obtain runs where r: "map_of sz n = Some runs" "runs_ok runs" "2 \<le> length runs"
      "fst l = expand_runs runs" by auto
    then have "fst l \<noteq> []" by (cases runs) (auto simp: runs_ok_def)
    with 1(1) r NonUniform show ?thesis by auto
  qed auto
qed

lemma rows_are_cong:
  "rows_are sz n ls es \<Longrightarrow> (\<And>k. n \<le> k \<Longrightarrow> k < n + lines_bytes ls \<Longrightarrow> map_of sz' k = map_of sz k) \<Longrightarrow>
     rows_are sz' n ls es"
proof (induction sz n ls es rule: rows_are.induct)
  case (2 sz n l ls e es)
  have "map_of sz' n = map_of sz n" if "fst l \<noteq> []"
  proof (rule "2.prems"(2))
    from that "2.prems"(1) have "0 < infos_bytes (fst l)"
      using entry_infos_ok [of sz n l e] infos_bytes_pos by simp
    then show "n < n + lines_bytes (l # ls)" by (simp add: line_bytes_def)
  qed simp
  with 2 show ?case by (auto intro: entry_is_cong)
qed auto

lemma map_of_bt_from: "n \<le> k \<Longrightarrow> map_of (bt_from n m) k = map_of m k"
  by (induction m) (auto simp: bt_from_def)

lemma map_of_bt_below: "k < n \<Longrightarrow> map_of (bt_below n m) k = map_of m k"
  by (induction m) (auto simp: bt_below_def)

section \<open>Appending and dropping rows\<close>

definition builder_line :: "entry_builder \<Rightarrow> line" where
  "builder_line b = (expand_runs (b_runs b), b_newline b, b_leading b)"

definition builder_ok :: "entry_builder \<Rightarrow> bool" where
  "builder_ok b \<longleftrightarrow> runs_ok (b_runs b) \<and> b_incr b = line_bytes (builder_line b)"

lemma builder_new_ok [simp]: "builder_ok builder_new" "builder_line builder_new = ([], False, False)"
  by (simp_all add: builder_ok_def builder_new_def builder_line_def runs_ok_def line_bytes_def)

lemma builder_new_simps [simp]:
  "b_runs builder_new = []" "b_cells builder_new = 0" "\<not> b_newline builder_new" "\<not> b_leading builder_new"
  by (simp_all add: builder_new_def)

lemma index_new_is: "index_is n [] ((index_new columns)\<lparr>ix_content_len := n\<rparr>)"
  by (simp add: index_is_def index_new_def)

lemma map_of_bt_insert: "map_of (bt_insert k v m) j = (if j = k then Some v else map_of m j)"
  by (induction k v m rule: bt_insert.induct) auto

lemma keys_bt_insert: "e \<in> set (bt_insert k v m) \<Longrightarrow> e = (k, v) \<or> e \<in> set m"
  by (induction k v m rule: bt_insert.induct) (auto split: if_splits)

lemma append_to_index_is:
  assumes "index_is base ls ix" and "builder_ok b"
  shows "index_is base (ls @ [builder_line b]) (append_to_index b ix)"
    and "ix_columns (append_to_index b ix) = ix_columns ix"
    and "ix_content_len (append_to_index b ix) = ix_content_len ix + line_bytes (builder_line b)"
proof -
  let ?n = "ix_content_len ix" and ?ix = "append_to_index b ix"
  obtain e where rows: "ix_rows ?ix = ix_rows ix @ [e]" and e: "e_offset e = ?n" "e_newline e = b_newline b"
      "e_leading e = b_leading b"
      "e_sizing e = (case b_runs b of [] \<Rightarrow> EmptyRow | [run] \<Rightarrow> Uniform run | _ \<Rightarrow> NonUniform)"
    by (rule that [of "\<lparr>e_offset = ?n, e_sizing =
          (case b_runs b of [] \<Rightarrow> EmptyRow | [run] \<Rightarrow> Uniform run | _ \<Rightarrow> NonUniform),
          e_newline = b_newline b, e_leading = b_leading b\<rparr>"])
      (simp_all add: append_to_index_def Let_def)
  have sizing: "map_of (ix_sizing ?ix) k = map_of (ix_sizing ix) k" if "k < ?n" for k
    using that by (simp add: append_to_index_def Let_def map_of_bt_insert)
  have n: "?n = base + lines_bytes ls" using assms(1) by (simp add: index_is_def)
  have "rows_are (ix_sizing ix) base ls (ix_rows ix)" using assms(1) by (simp add: index_is_def)
  then have old: "rows_are (ix_sizing ?ix) base ls (ix_rows ix)"
    by (rule rows_are_cong) (rule sizing, simp add: n)
  have new: "entry_is (ix_sizing ?ix) ?n (builder_line b) e"
  proof (cases "b_runs b")
    case (Cons r rs)
    then show ?thesis
      using e assms(2)
      by (cases rs) (auto simp: entry_is_def builder_line_def builder_ok_def append_to_index_def Let_def
          map_of_bt_insert)
  qed (use e in \<open>simp add: entry_is_def builder_line_def\<close>)
  have "rows_are (ix_sizing ?ix) base (ls @ [builder_line b]) (ix_rows ix @ [e])"
    using old new n rows_are_append [of ls "ix_rows ix"] rows_are_length [OF old] by simp
  moreover have len: "ix_content_len ?ix = ?n + line_bytes (builder_line b)"
    using assms(2) by (simp add: append_to_index_def Let_def builder_ok_def)
  moreover have "fst k < ix_content_len ?ix" if k: "k \<in> set (ix_sizing ?ix)" for k
  proof -
    consider "k \<in> set (ix_sizing ix)" | "fst k = ?n" "2 \<le> length (b_runs b)"
      using k keys_bt_insert [of k] by (cases "b_runs b"; cases "tl (b_runs b)")
        (fastforce simp: append_to_index_def Let_def split: if_splits)+
    then show ?thesis
    proof cases
      case 1
      then show ?thesis using assms(1) len by (auto simp: index_is_def intro: trans_less_add1)
    next
      case 2
      then have "expand_runs (b_runs b) \<noteq> []"
        using assms(2) by (cases "b_runs b") (auto simp: builder_ok_def runs_ok_def)
      then have "0 < line_bytes (builder_line b)"
        using infos_bytes_pos [OF expand_ok] assms(2)
        by (auto simp: line_bytes_def builder_line_def builder_ok_def)
      with 2 len show ?thesis by simp
    qed
  qed
  ultimately show "index_is base (ls @ [builder_line b]) ?ix"
    using rows n by (auto simp: index_is_def)
  show "ix_columns ?ix = ix_columns ix" by (simp add: append_to_index_def Let_def)
  show "ix_content_len ?ix = ?n + line_bytes (builder_line b)" by (rule len)
qed

lemma rows_are_offset:
  "rows_are sz n ls es \<Longrightarrow> k < length ls \<Longrightarrow>
     e_offset (es ! k) = n + lines_bytes (take k ls) \<and> e_newline (es ! k) = fst (snd (ls ! k)) \<and>
     e_leading (es ! k) = snd (snd (ls ! k)) \<and>
     entry_is sz (n + lines_bytes (take k ls)) (ls ! k) (es ! k)"
proof (induction sz n ls es arbitrary: k rule: rows_are.induct)
  case (2 sz n l ls e es)
  then show ?case
    by (cases k) (auto simp: entry_is_def add.assoc)
qed auto

lemma content_offset_for_row_is:
  assumes "index_is base ls ix"
  shows "content_offset_for_row k ix =
           (if k < length ls then Some (base + lines_bytes (take k ls)) else None)"
  using assms rows_are_offset [of "ix_sizing ix" base ls "ix_rows ix" k]
    rows_are_length [of "ix_sizing ix" base ls "ix_rows ix"]
  by (simp add: content_offset_for_row_def get_entry_def index_is_def)

lemma content_range_for_row_is:
  assumes "index_is base ls ix" and "k < length ls"
  shows "content_range_for_row k ix =
           Some (base + lines_bytes (take k ls), base + lines_bytes (take (Suc k) ls))"
  using assms content_offset_for_row_is [OF assms(1)]
  by (auto simp: content_range_for_row_def index_is_def)

lemma grapheme_infos_for_row_is:
  assumes "index_is base ls ix" and "k < length ls"
  shows "grapheme_infos_for_row k ix = Some (fst (ls ! k))"
  using assms rows_are_offset [of "ix_sizing ix" base ls "ix_rows ix" k]
    rows_are_length [of "ix_sizing ix" base ls "ix_rows ix"]
  by (auto simp: grapheme_infos_for_row_def grapheme_runs_for_row_def get_entry_def index_is_def
      entry_is_def entry_runs_def split: grapheme_sizing.splits)

lemma lines_bytes_split: "lines_bytes ls = lines_bytes (take k ls) + lines_bytes (drop k ls)"
  using lines_bytes_simps(3) [of "take k ls" "drop k ls"] by simp

lemma index_truncate_front_is:
  assumes "index_is base ls ix"
  shows "index_is (fst (index_truncate_front k ix)) (drop k ls) (snd (index_truncate_front k ix))"
    and "fst (index_truncate_front k ix) = base + lines_bytes (take k ls)"
    and "ix_columns (snd (index_truncate_front k ix)) = ix_columns ix"
proof -
  let ?start = "fst (index_truncate_front k ix)" and ?ix = "snd (index_truncate_front k ix)"
  show start: "?start = base + lines_bytes (take k ls)"
    using content_offset_for_row_is [OF assms, of k] assms
    by (auto simp: index_truncate_front_def Let_def index_is_def)
  have rows: "rows_are (ix_sizing ix) ?start (drop k ls) (drop k (ix_rows ix))"
    using rows_are_take_drop(2) assms start by (simp add: index_is_def)
  have ix: "?ix = ix\<lparr>ix_rows := drop k (ix_rows ix), ix_sizing := bt_from ?start (ix_sizing ix)\<rparr>"
    by (simp add: index_truncate_front_def Let_def)
  have "rows_are (ix_sizing ?ix) ?start (drop k ls) (ix_rows ?ix)"
    unfolding ix by (simp, rule rows_are_cong [OF rows]) (rule map_of_bt_from)
  then show "index_is ?start (drop k ls) ?ix"
    using assms start lines_bytes_split [of ls k] by (auto simp: index_is_def ix bt_from_def)
  show "ix_columns ?ix = ix_columns ix" by (simp add: ix)
qed

lemma index_truncate_is:
  assumes "index_is base ls ix"
  shows "index_is base (take k ls) (snd (index_truncate k ix))"
    and "fst (index_truncate k ix) = base + lines_bytes (take k ls)"
    and "ix_content_len (snd (index_truncate k ix)) = fst (index_truncate k ix)"
proof -
  let ?n = "base + lines_bytes (take k ls)"
  have len: "ix_content_len ix = base + lines_bytes ls" using assms by (simp add: index_is_def)
  have "index_is base (take k ls) (snd (index_truncate k ix)) \<and> fst (index_truncate k ix) = ?n \<and>
      ix_content_len (snd (index_truncate k ix)) = fst (index_truncate k ix)"
  proof (cases "k < length ls")
    case True
    let ?ix = "ix\<lparr>ix_rows := take k (ix_rows ix), ix_sizing := bt_below ?n (ix_sizing ix),
        ix_content_len := ?n\<rparr>"
    have t: "index_truncate k ix = (?n, ?ix)"
      using True content_offset_for_row_is [OF assms, of k] by (simp add: index_truncate_def)
    have "rows_are (ix_sizing ix) base (take k ls) (take k (ix_rows ix))"
      using rows_are_take_drop(1) assms by (simp add: index_is_def)
    then have "rows_are (ix_sizing ?ix) base (take k ls) (ix_rows ?ix)"
      by (simp, elim rows_are_cong) (rule map_of_bt_below)
    then show ?thesis by (simp add: t index_is_def bt_below_def)
  next
    case False
    with assms len content_offset_for_row_is [OF assms, of k] show ?thesis
      by (simp add: index_truncate_def)
  qed
  then show "index_is base (take k ls) (snd (index_truncate k ix))"
    "fst (index_truncate k ix) = ?n" "ix_content_len (snd (index_truncate k ix)) = fst (index_truncate k ix)"
    by simp_all
qed

section \<open>Rebuilding for another width\<close>

text \<open>The text of an index without its layout: graphemes, and \<open>None\<close> for a line break.\<close>

definition line_tokens :: "line \<Rightarrow> grapheme_info option list" where
  "line_tokens l = map Some (fst l) @ (if fst (snd l) then [None] else [])"

definition tokens :: "line list \<Rightarrow> grapheme_info option list" where
  "tokens ls = concat (map line_tokens ls)"

definition process_token ::
  "grapheme_info option \<Rightarrow> entry_builder \<times> index \<Rightarrow> (entry_builder \<times> index) panics" where
  "process_token t st =
    (case t of Some info \<Rightarrow> process_grapheme_info info st | None \<Rightarrow> process_grapheme NEWLINE st)"

lemma tokens_simps [simp]:
  "tokens [] = []" "tokens (ls @ ls') = tokens ls @ tokens ls'" "tokens (l # ls) = line_tokens l @ tokens ls"
  by (simp_all add: tokens_def)

lemma fold_panics_map: "fold_panics f (map g xs) s = fold_panics (\<lambda>x. f (g x)) xs s"
  by (induction xs arbitrary: s) (auto split: option.splits)

lemma process_token_simps [simp]:
  "process_token (Some info) = process_grapheme_info info"
  "process_token None = process_grapheme NEWLINE"
  by (simp_all add: process_token_def fun_eq_iff)

lemma rebuild_row_tokens:
  assumes "index_is base ls ix" and "k < length ls"
  shows "rebuild_row ix k st = fold_panics process_token (line_tokens (ls ! k)) st"
proof -
  have e: "get_entry k ix = Some (ix_rows ix ! k)" "e_newline (ix_rows ix ! k) = fst (snd (ls ! k))"
    using assms rows_are_offset [of "ix_sizing ix" base ls "ix_rows ix" k]
      rows_are_length [of "ix_sizing ix" base ls "ix_rows ix"]
    by (simp_all add: get_entry_def index_is_def)
  show ?thesis
    by (simp add: rebuild_row_def grapheme_infos_for_row_is [OF assms] e line_tokens_def
        fold_panics_append fold_panics_map split: option.splits)
      (auto split: bind_splits option.splits)
qed

lemma rebuild_rows_tokens:
  assumes "index_is base ls ix" and "n \<le> length ls"
  shows "fold_panics (rebuild_row ix) [0..<n] st = fold_panics process_token (tokens (take n ls)) st"
  using assms(2)
proof (induction n)
  case (Suc n)
  then show ?case
    using rebuild_row_tokens [OF assms(1), of n]
    by (simp add: take_Suc_conv_app_nth fold_panics_append del: upt_Suc add: upt_Suc_append)
      (auto split: option.splits bind_splits)
qed simp

text \<open>Rebuilding is wrapping the tokens.\<close>

definition wrap_tokens :: "nat \<Rightarrow> nat \<Rightarrow> grapheme_info option list \<Rightarrow> index panics" where
  "wrap_tokens start columns ts =
    do { st \<leftarrow> fold_panics process_token ts (builder_new, (index_new columns)\<lparr>ix_content_len := start\<rparr>);
         Some (append_to_index_if_nonempty (fst st) (snd st)) }"

lemma rebuild_wraps:
  assumes "index_is base ls ix"
  shows "rebuild ix columns = wrap_tokens (if ls = [] then 0 else base) columns (tokens ls)"
proof -
  have len: "length (ix_rows ix) = length ls"
    using assms rows_are_length by (auto simp: index_is_def)
  have "(case ix_rows ix of [] \<Rightarrow> 0 | e # _ \<Rightarrow> e_offset e) = (if ls = [] then 0 else base)"
    using assms by (cases "ix_rows ix"; cases ls) (auto simp: index_is_def entry_is_def)
  then show ?thesis
    using rebuild_rows_tokens [OF assms order_refl] len
    by (simp add: rebuild_def wrap_tokens_def Let_def)
qed

text \<open>While wrapping: the rows so far, and the row under construction, within the width.\<close>

definition wrapping ::
  "nat \<Rightarrow> nat \<Rightarrow> grapheme_info option list \<Rightarrow> line list \<Rightarrow> entry_builder \<times> index \<Rightarrow> bool" where
  "wrapping start columns ts ls st \<longleftrightarrow>
     index_is start ls (snd st) \<and> ix_columns (snd st) = columns \<and>
     builder_ok (fst st) \<and> b_cells (fst st) = infos_cols (expand_runs (b_runs (fst st))) \<and>
     \<not> b_newline (fst st) \<and> \<not> b_leading (fst st) \<and>
     b_cells (fst st) \<le> max columns 2 \<and>
     list_all (\<lambda>l. infos_cols (fst l) \<le> max columns 2) ls \<and>
     ts = tokens ls @ map Some (expand_runs (b_runs (fst st)))"

lemma length_infos_cols: "list_all info_ok is \<Longrightarrow> length is \<le> infos_cols is"
  by (induction "is") (auto simp: info_ok_def)

lemma runs_ok_snoc: "runs_ok (rs @ [r]) \<longleftrightarrow> runs_ok rs \<and> 0 < run_count r \<and> info_ok (run_info r)"
  by (simp add: runs_ok_def)

lemma process_unchecked_ok:
  assumes "builder_ok b" and "info_ok info" and "length (expand_runs (b_runs b)) + 1 < 2 ^ 16"
  shows "\<exists>b'. process_grapheme_info_unchecked info b = Some b' \<and> builder_ok b' \<and>
           builder_line b' = (expand_runs (b_runs b) @ [info], b_newline b, b_leading b) \<and>
           b_cells b' = b_cells b"
proof (cases "b_runs b \<noteq> [] \<and> run_info (last (b_runs b)) = info")
  case True
  then obtain rs r where r: "b_runs b = rs @ [r]" "run_info r = info" by (cases "b_runs b" rule: rev_cases) auto
  with assms show ?thesis
    by (auto simp: process_grapheme_info_unchecked_def Let_def builder_ok_def builder_line_def
        runs_ok_snoc line_bytes_def replicate_append_same)
next
  case False
  with assms show ?thesis
    by (auto simp: process_grapheme_info_unchecked_def Let_def builder_ok_def builder_line_def
        runs_ok_snoc line_bytes_def)
qed

lemma process_info_wrapping:
  assumes "wrapping start columns ts ls st" and "info_ok info" and "1 \<le> columns" and "columns < 2 ^ 16"
  shows "\<exists>ls' st'. process_grapheme_info info st = Some st' \<and>
           wrapping start columns (ts @ [Some info]) ls' st'"
proof -
  obtain b ix where st: "st = (b, ix)" by fastforce
  note w = assms(1) [unfolded wrapping_def st fst_conv snd_conv]
  have step: "\<exists>st'. (do { b \<leftarrow> process_grapheme_info_unchecked info
                      (b'\<lparr>b_cells := b_cells b' + cell_width info\<rparr>); Some (b, ix') }) = Some st' \<and>
              wrapping start columns (ts @ [Some info]) ls' st'"
    if "wrapping start columns ts ls' (b', ix')" "b_cells b' + cell_width info \<le> max columns 2"
    for ls' b' ix'
  proof -
    note w' = that(1) [unfolded wrapping_def fst_conv snd_conv]
    let ?b = "b'\<lparr>b_cells := b_cells b' + cell_width info\<rparr>"
    have "length (expand_runs (b_runs b')) \<le> b_cells b'"
      using w' length_infos_cols expand_ok by (auto simp: builder_ok_def)
    moreover have "cell_width info \<ge> 1" using assms(2) by (auto simp: info_ok_def)
    ultimately have "length (expand_runs (b_runs ?b)) + 1 < 2 ^ 16"
      using that(2) assms(4) by simp
    moreover have "builder_ok ?b"
      using w' by (simp add: builder_ok_def builder_line_def)
    ultimately obtain b2 where b2: "process_grapheme_info_unchecked info ?b = Some b2" "builder_ok b2"
        "builder_line b2 = (expand_runs (b_runs ?b) @ [info], b_newline ?b, b_leading ?b)"
        "b_cells b2 = b_cells ?b"
      using process_unchecked_ok [OF _ assms(2)] by blast
    with w' that(2) show ?thesis
      by (auto simp: wrapping_def builder_line_def)
  qed
  have ok: "cell_width info \<noteq> 0" "cell_width info \<le> 2" "0 < utf8_bytes info"
    using assms(2) by (auto simp: info_ok_def)
  show ?thesis
  proof (cases "b_cells b + cell_width info > columns")
    case False
    then have "b_cells b + cell_width info \<le> max columns 2" by simp
    from step [OF assms(1) [unfolded st] this] False ok w show ?thesis
      by (auto simp: process_grapheme_info_def st Let_def)
  next
    case True
    define b1 where "b1 = (if cell_width info > 1 \<and> b_cells b \<noteq> columns
                           then add_leading_wide_char_spacer b else b)"
    have b1: "builder_ok b1" "fst (builder_line b1) = expand_runs (b_runs b)" "\<not> fst (snd (builder_line b1))"
      using w by (auto simp: b1_def add_leading_wide_char_spacer_def builder_ok_def builder_line_def
          line_bytes_def)
    have "wrapping start columns ts (ls @ [builder_line b1]) (builder_new, append_to_index b1 ix)"
      using w b1 append_to_index_is [OF _ b1(1), of start ls ix]
      by (auto simp: wrapping_def line_tokens_def)
    moreover have "b_cells builder_new + cell_width info \<le> max columns 2" using ok by simp
    ultimately obtain ls' st' where s: "wrapping start columns (ts @ [Some info]) ls' st'"
        "(do { b \<leftarrow> process_grapheme_info_unchecked info
              (builder_new\<lparr>b_cells := b_cells builder_new + cell_width info\<rparr>);
              Some (b, append_to_index b1 ix) }) = Some st'"
      using step by blast
    have "ix_columns ix = columns" using w by simp
    then have "process_grapheme_info info st = Some st'"
      using s(2) True ok unfolding process_grapheme_info_def st b1_def
      by (simp only: fst_conv snd_conv Let_def if_True if_False assert_that_simps bind.bind_lunit simp_thms)
    with s(1) show ?thesis by blast
  qed
qed

lemma process_newline_wrapping:
  assumes "wrapping start columns ts ls st"
  shows "\<exists>ls' st'. process_grapheme NEWLINE st = Some st' \<and>
           wrapping start columns (ts @ [None]) ls' st'"
proof -
  let ?b = "add_trailing_newline (fst st)"
  note w = assms [unfolded wrapping_def]
  have b: "builder_ok ?b" "builder_line ?b = (expand_runs (b_runs (fst st)), True, False)"
    using w by (auto simp: add_trailing_newline_def builder_ok_def builder_line_def line_bytes_def
        len_utf8_def)
  then have "wrapping start columns (ts @ [None]) (ls @ [builder_line ?b])
      (builder_new, append_to_index ?b (snd st))"
    using w append_to_index_is [OF _ b(1), of start ls "snd st"]
    by (auto simp: wrapping_def line_tokens_def)
  then show ?thesis
    by (auto simp: process_grapheme_def starts_new_row_def NEWLINE_def)
qed

definition token_ok :: "grapheme_info option \<Rightarrow> bool" where
  "token_ok t \<longleftrightarrow> (case t of Some info \<Rightarrow> info_ok info | None \<Rightarrow> True)"

lemma process_tokens_wrapping:
  assumes "wrapping start columns ts ls st" and "list_all token_ok us"
    and "1 \<le> columns" and "columns < 2 ^ 16"
  shows "\<exists>ls' st'. fold_panics process_token us st = Some st' \<and> wrapping start columns (ts @ us) ls' st'"
  using assms
proof (induction us arbitrary: ts ls st)
  case (Cons u us)
  obtain ls' st' where "process_token u st = Some st'" "wrapping start columns (ts @ [u]) ls' st'"
    using process_info_wrapping [OF Cons.prems(1)] process_newline_wrapping [OF Cons.prems(1)] Cons.prems(2-4)
    by (cases u) (fastforce simp: token_ok_def)+
  with Cons.IH [of "ts @ [u]" ls' st'] Cons.prems show ?case by simp
qed auto

lemma tokens_bytes: "lines_bytes ls = sum_list (map (\<lambda>t. case t of Some i \<Rightarrow> utf8_bytes i | None \<Rightarrow> 1) (tokens ls))"
  by (induction ls) (auto simp: line_tokens_def line_bytes_def infos_bytes_def comp_def)

lemma wrap_tokens_ok:
  assumes "list_all token_ok ts" and "1 \<le> columns" and "columns < 2 ^ 16"
  shows "\<exists>ix ls. wrap_tokens start columns ts = Some ix \<and> index_is start ls ix \<and> tokens ls = ts \<and>
           ix_columns ix = columns \<and> list_all (\<lambda>l. infos_cols (fst l) \<le> max columns 2) ls"
proof -
  have "wrapping start columns [] [] (builder_new, (index_new columns)\<lparr>ix_content_len := start\<rparr>)"
    by (simp add: wrapping_def index_new_is) (simp add: index_new_def)
  from process_tokens_wrapping [OF this assms] obtain ls st where
    st: "fold_panics process_token ts (builder_new, (index_new columns)\<lparr>ix_content_len := start\<rparr>) = Some st"
    "wrapping start columns ts ls st" by auto
  note w = st(2) [unfolded wrapping_def]
  have wrap: "wrap_tokens start columns ts = Some (append_to_index_if_nonempty (fst st) (snd st))"
    using st(1) by (simp add: wrap_tokens_def)
  show ?thesis
  proof (cases "builder_is_empty (fst st)")
    case True
    then have "b_runs (fst st) = []" by (simp add: builder_is_empty_def)
    with True w wrap show ?thesis by (auto simp: append_to_index_if_nonempty_def)
  next
    case False
    let ?ls = "ls @ [builder_line (fst st)]"
    have "index_is start ?ls (append_to_index (fst st) (snd st))"
      "ix_columns (append_to_index (fst st) (snd st)) = columns"
      using w append_to_index_is(1,2) by auto
    moreover have "tokens ?ls = ts"
      using w by (simp add: line_tokens_def builder_line_def)
    moreover have "list_all (\<lambda>l. infos_cols (fst l) \<le> max columns 2) ?ls"
      using w by (simp add: builder_line_def)
    ultimately show ?thesis
      using wrap False by (auto simp: append_to_index_if_nonempty_def)
  qed
qed

lemma rows_are_infos_ok: "rows_are sz n ls es \<Longrightarrow> list_all (\<lambda>l. list_all info_ok (fst l)) ls"
  by (induction sz n ls es rule: rows_are.induct) (auto dest: entry_infos_ok)

lemma index_tokens_ok:
  assumes "index_is base ls ix"
  shows "list_all token_ok (tokens ls)"
proof -
  have "list_all (\<lambda>l. list_all info_ok (fst l)) ls"
    using assms rows_are_infos_ok by (auto simp: index_is_def)
  then show ?thesis
    by (induction ls) (auto simp: line_tokens_def token_ok_def list_all_iff)
qed

section \<open>Walking along a row\<close>

lemma infos_replicate [simp]:
  "infos_cols (replicate n i) = n * cell_width i" "infos_bytes (replicate n i) = n * utf8_bytes i"
  by (simp_all add: infos_cols_def infos_bytes_def sum_list_replicate)

lemma walk_columns_ok:
  "runs_ok runs \<Longrightarrow>
     walk_columns runs offset (infos_cols (take j (expand_runs runs))) =
       (offset + infos_bytes (take j (expand_runs runs)), 0)"
proof (induction runs arbitrary: offset j)
  case (Cons run runs)
  have w: "0 < cell_width (run_info run)" "0 < run_count run"
    using Cons.prems by (auto simp: runs_ok_def info_ok_def)
  have runs: "runs_ok runs" using Cons.prems by (simp add: runs_ok_def)
  show ?case
  proof (cases "j \<le> run_count run")
    case True
    have zero: "walk_columns runs k 0 = (k, 0)" for k by (cases runs) simp_all
    have "min (run_count run * cell_width (run_info run)) (j * cell_width (run_info run)) =
        j * cell_width (run_info run)"
      using True by (intro min_absorb2 mult_le_mono1)
    with True w zero show ?thesis by (simp add: run_cols_def)
  next
    case False
    then have "take j (expand_runs (run # runs)) =
        replicate (run_count run) (run_info run) @ take (j - run_count run) (expand_runs runs)"
      by simp
    with w Cons.IH [OF runs] show ?thesis by (simp add: run_cols_def add.assoc)
  qed
qed simp

lemma walk_offset_ok:
  "runs_ok runs \<Longrightarrow> j < length (expand_runs runs) \<Longrightarrow>
     walk_offset runs column (infos_bytes (take j (expand_runs runs))) =
       Some (column + infos_cols (take j (expand_runs runs)))"
proof (induction runs arbitrary: column j)
  case (Cons run runs)
  have w: "0 < cell_width (run_info run)" "0 < run_count run" "0 < utf8_bytes (run_info run)"
    using Cons.prems by (auto simp: runs_ok_def info_ok_def)
  have runs: "runs_ok runs" using Cons.prems by (simp add: runs_ok_def)
  show ?case
  proof (cases "j \<le> run_count run")
    case True
    then have "min (j * utf8_bytes (run_info run)) (run_count run * utf8_bytes (run_info run)) =
        j * utf8_bytes (run_info run)"
      by (intro min_absorb1 mult_le_mono1)
    with True w show ?thesis by (simp add: run_cols_def Let_def)
  next
    case False
    then have t: "take j (expand_runs (run # runs)) =
        replicate (run_count run) (run_info run) @ take (j - run_count run) (expand_runs runs)"
      by simp
    have rest: "j - run_count run < length (expand_runs runs)"
      using False Cons.prems(2) by simp
    have "0 < infos_bytes (take (j - run_count run) (expand_runs runs))"
    proof (rule infos_bytes_pos)
      show "list_all info_ok (take (j - run_count run) (expand_runs runs))"
        using expand_ok [OF runs] by (auto simp: list_all_iff dest: in_set_takeD)
      show "take (j - run_count run) (expand_runs runs) \<noteq> []" using False rest by auto
    qed
    with t w Cons.IH [OF runs rest] show ?thesis by (simp add: run_cols_def Let_def add.assoc)
  qed
qed simp

lemma partition_point_eq:
  assumes "\<forall>i \<le> r. P (xs ! i)" and "r < length xs" and "Suc r < length xs \<Longrightarrow> \<not> P (xs ! Suc r)"
  shows "partition_point P xs = Suc r"
proof -
  have "takeWhile P xs = take (Suc r) xs"
    using assms by (intro takeWhile_eq_take_P_nth) auto
  with assms(2) show ?thesis by (simp add: partition_point_def)
qed

lemma lines_bytes_take_mono: "i \<le> j \<Longrightarrow> lines_bytes (take i ls) \<le> lines_bytes (take j ls)"
  using lines_bytes_simps(3) [of "take i ls" "take (j - i) (drop i ls)"]
  by (simp add: take_add [symmetric])

lemma lines_bytes_take_Suc:
  "r < length ls \<Longrightarrow> lines_bytes (take (Suc r) ls) = lines_bytes (take r ls) + line_bytes (ls ! r)"
  by (simp add: take_Suc_conv_app_nth)

text \<open>The runs of a row that is not empty.\<close>

lemma entry_runs_is:
  assumes "index_is base ls ix" and "r < length ls" and "fst (ls ! r) \<noteq> []"
  obtains e runs where "get_entry r ix = Some e" "e_sizing e \<noteq> EmptyRow" "entry_runs e ix = Some runs"
    "runs_ok runs" "expand_runs runs = fst (ls ! r)" "e_offset e = base + lines_bytes (take r ls)"
    "e = ix_rows ix ! r"
proof -
  have "entry_is (ix_sizing ix) (base + lines_bytes (take r ls)) (ls ! r) (ix_rows ix ! r)"
    "r < length (ix_rows ix)"
    using assms rows_are_offset [of "ix_sizing ix" base ls "ix_rows ix" r]
      rows_are_length [of "ix_sizing ix" base ls "ix_rows ix"] by (auto simp: index_is_def)
  with assms(3) that [of "ix_rows ix ! r"] show thesis
    by (auto simp: entry_is_def get_entry_def entry_runs_def simp del: expand_runs_simps
        split: grapheme_sizing.splits)
qed

lemma rebuild_reflows_ok:
  assumes "index_is base ls ix" and "tokens ls \<noteq> []" and "1 \<le> columns" and "columns < 2 ^ 16"
  shows "\<exists>ix' ls'. rebuild ix columns = Some ix' \<and> index_is base ls' ix' \<and> tokens ls' = tokens ls \<and>
           ix_columns ix' = columns \<and> ix_content_len ix' = ix_content_len ix \<and>
           list_all (\<lambda>l. infos_cols (fst l) \<le> max columns 2) ls' \<and>
           (\<forall>columns'. rebuild ix' columns' = rebuild ix columns')"
proof -
  have ne: "ls \<noteq> []" using assms(2) by auto
  obtain ix' ls' where ix': "wrap_tokens base columns (tokens ls) = Some ix'" "index_is base ls' ix'"
      "tokens ls' = tokens ls" "ix_columns ix' = columns"
      "list_all (\<lambda>l. infos_cols (fst l) \<le> max columns 2) ls'"
    using wrap_tokens_ok [OF index_tokens_ok [OF assms(1)] assms(3,4), of base] by blast
  have ne': "ls' \<noteq> []" using ix'(3) assms(2) by auto
  have "rebuild ix columns = Some ix'"
    using rebuild_wraps [OF assms(1)] ne ix'(1) by simp
  moreover have "rebuild ix' columns' = rebuild ix columns'" for columns'
    using rebuild_wraps [OF assms(1)] rebuild_wraps [OF ix'(2)] ne ne' ix'(3) by simp
  moreover have "ix_content_len ix' = ix_content_len ix"
    using assms(1) ix'(2,3) by (simp add: index_is_def tokens_bytes)
  ultimately show ?thesis using ix' by blast
qed

section \<open>Properties\<close>

text \<open>
  Reflowing the scrollback to another width keeps its text: rebuilding a non-empty index for any
  width below \<open>2 ^ 16\<close> never panics, keeps the sequence of graphemes and line breaks and the length
  of the content, makes every row fit the width (a wide character alone in a one-column row apart),
  and the intermediate widths leave no trace: rebuilding again gives what rebuilding the original
  gives.
\<close>

theorem rebuild_reflows:
  assumes "index_is base ls ix" and "tokens ls \<noteq> []" and "1 \<le> columns" and "columns < 2 ^ 16"
  shows "\<exists>ix' ls'. rebuild ix columns = Some ix' \<and> index_is base ls' ix' \<and> tokens ls' = tokens ls \<and>
           ix_columns ix' = columns \<and> ix_content_len ix' = ix_content_len ix \<and>
           list_all (\<lambda>l. infos_cols (fst l) \<le> max columns 2) ls' \<and>
           (\<forall>columns'. rebuild ix' columns' = rebuild ix columns')"
  by (rule rebuild_reflows_ok [OF assms])

text \<open>Two rows of four columns: \<open>ab\<close> and a wide character, then a soft-wrapped \<open>c\<close>.\<close>

definition sample_index :: index where
  "sample_index =
    \<lparr>ix_rows = [\<lparr>e_offset = 0, e_sizing = NonUniform, e_newline = False, e_leading = False\<rparr>,
                \<lparr>e_offset = 5, e_sizing = Uniform \<lparr>run_count = 1, run_info = \<lparr>cell_width = 1, utf8_bytes = 1\<rparr>\<rparr>,
                  e_newline = True, e_leading = False\<rparr>],
     ix_columns = 4, ix_content_len = 7,
     ix_sizing = [(0, [\<lparr>run_count = 2, run_info = \<lparr>cell_width = 1, utf8_bytes = 1\<rparr>\<rparr>,
                       \<lparr>run_count = 1, run_info = \<lparr>cell_width = 2, utf8_bytes = 3\<rparr>\<rparr>])]\<rparr>"

definition sample_lines :: "line list" where
  "sample_lines =
    [([\<lparr>cell_width = 1, utf8_bytes = 1\<rparr>, \<lparr>cell_width = 1, utf8_bytes = 1\<rparr>,
       \<lparr>cell_width = 2, utf8_bytes = 3\<rparr>], False, False),
     ([\<lparr>cell_width = 1, utf8_bytes = 1\<rparr>], True, False)]"

lemma sample_index_is: "index_is 0 sample_lines sample_index"
  by (simp add: index_is_def sample_index_def sample_lines_def entry_is_def runs_ok_def info_ok_def
      line_bytes_def lines_bytes_def numeral_2_eq_2)

theorem rebuild_reflows_witness:
  "\<exists>ix. rebuild sample_index 3 = Some ix \<and> ix_content_len ix = 7 \<and> rebuild ix 4 = rebuild sample_index 4"
proof -
  have "tokens sample_lines \<noteq> []" by (simp add: sample_lines_def line_tokens_def)
  from rebuild_reflows [OF sample_index_is this, of 3] show ?thesis
    by (auto simp: sample_index_def)
qed

text \<open>
  Points and content offsets are inverse: the cell at which a grapheme of a row starts maps to
  the offset of the grapheme's bytes, and that offset maps back to the cell.
\<close>

theorem offset_point_roundtrip:
  assumes "index_is base ls ix" and "r < length ls" and "j < length (fst (ls ! r))"
  defines "column \<equiv> infos_cols (take j (fst (ls ! r)))"
    and "offset \<equiv> base + lines_bytes (take r ls) + infos_bytes (take j (fst (ls ! r)))"
  shows "content_offset_at_point (Point r column) ix = Inr offset \<and>
         content_offset_to_point offset ix = Some (Inr (Point r column))"
proof -
  have ne: "fst (ls ! r) \<noteq> []" using assms(3) by auto
  obtain e runs where e: "get_entry r ix = Some e" "e_sizing e \<noteq> EmptyRow" "entry_runs e ix = Some runs"
      "runs_ok runs" "expand_runs runs = fst (ls ! r)" "e_offset e = base + lines_bytes (take r ls)"
    by (rule entry_runs_is [OF assms(1,2) ne]) blast
  have rows: "e_offset (ix_rows ix ! i) = base + lines_bytes (take i ls)" if "i < length ls" for i
    using that assms(1) rows_are_offset [of "ix_sizing ix" base ls "ix_rows ix" i] by (simp add: index_is_def)
  have len: "length (ix_rows ix) = length ls"
    using assms(1) rows_are_length [of "ix_sizing ix" base ls "ix_rows ix"] by (simp add: index_is_def)
  have "infos_bytes (fst (ls ! r)) =
      infos_bytes (take j (fst (ls ! r))) + infos_bytes (drop j (fst (ls ! r)))"
    by (metis append_take_drop_id infos_simps(3))
  moreover have "0 < infos_bytes (drop j (fst (ls ! r)))"
  proof (rule infos_bytes_pos)
    show "list_all info_ok (drop j (fst (ls ! r)))"
      using expand_ok [OF e(4)] e(5) by (auto simp: list_all_iff dest: in_set_dropD)
    show "drop j (fst (ls ! r)) \<noteq> []" using assms(3) by simp
  qed
  ultimately have "offset < base + lines_bytes (take (Suc r) ls)"
    using lines_bytes_take_Suc [OF assms(2)] by (simp add: offset_def line_bytes_def)
  then have "partition_point (\<lambda>e. e_offset e \<le> offset) (ix_rows ix) = Suc r"
    using rows len assms(2) lines_bytes_take_mono [of _ r ls]
    by (intro partition_point_eq) (auto simp: offset_def intro: trans_le_add1)
  moreover have "walk_offset runs 0 (infos_bytes (take j (fst (ls ! r)))) = Some column"
    using walk_offset_ok [OF e(4), of j 0] assms(3) e(5) by (simp add: column_def)
  moreover have "walk_columns runs (e_offset e) column = (offset, 0)"
    using walk_columns_ok [OF e(4), of "e_offset e" j] e(5,6) by (simp add: column_def offset_def)
  ultimately show ?thesis
    using e by (simp add: content_offset_at_point_def content_offset_to_point_def usub_def offset_def)
qed

theorem offset_point_roundtrip_witness:
  "content_offset_at_point (Point 0 2) sample_index = Inr 2 \<and>
   content_offset_to_point 2 sample_index = Some (Inr (Point 0 2))"
  using offset_point_roundtrip [OF sample_index_is, of 0 2]
  by (simp add: sample_lines_def numeral_2_eq_2)

end
