(* ===== verification/Flat_Storage.thy ===== *)
theory Flat_Storage
  imports Flat_Attributes Flat_Index
begin

text \<open>
  The scrollback: \<^verbatim>\<open>crates/warp_terminal/src/model/grid/flat_storage/mod.rs\<close> and
  \<^verbatim>\<open>row_iterator.rs\<close>. Rows are taken apart into text, sizes, colors and styles when they
  leave the screen, and put together again when they are read. \<open>flat_is\<close> relates a storage to the
  rows it holds; the main result is that what is read is what was stored.
\<close>

section \<open>The storage\<close>

record flat_storage =
  fs_content :: content
  fs_index :: index
  fs_columns :: nat
  fs_fg :: "color attribute_map"
  fs_bg :: "bg_and_style attribute_map"
  fs_marker :: "(nat \<times> bool) option"
  fs_max_rows :: "nat option"
  fs_truncated :: nat

definition flat_new :: "nat \<Rightarrow> nat option \<Rightarrow> flat_storage" where
  "flat_new columns max_rows =
    \<lparr>fs_content = content_new, fs_index = index_new columns, fs_columns = columns,
     fs_fg = am_new (Named NC_Foreground), fs_bg = am_new default_bg_and_style,
     fs_marker = None, fs_max_rows = max_rows, fs_truncated = 0\<rparr>"

definition flat_total_rows :: "flat_storage \<Rightarrow> nat" where
  "flat_total_rows fs = length (ix_rows (fs_index fs))"

section \<open>Storing rows\<close>

text \<open>The local variables of \<open>push_rows_internal\<close>; \<open>last_cell\<close> and \<open>idx\<close> start at -1.\<close>

record push_state =
  ps_storage :: flat_storage
  ps_builder :: entry_builder
  ps_offset :: nat
  ps_last :: int
  ps_idx :: int
  ps_fg :: color
  ps_bg :: bg_and_style

definition push_one :: "grapheme \<Rightarrow> push_state \<Rightarrow> push_state panics" where
  "push_one g st =
    do { b \<leftarrow> process_grapheme_info_unchecked (g_info g) (ps_builder st);
         content \<leftarrow> push_grapheme g (fs_content (ps_storage st));
         Some (st\<lparr>ps_builder := b, ps_storage := (ps_storage st)\<lparr>fs_content := content\<rparr>\<rparr>) }"

definition push_cell :: "cell \<Rightarrow> push_state \<Rightarrow> push_state panics" where
  "push_cell c st =
    do { let idx = ps_idx st + 1;
         let st = st\<lparr>ps_idx := idx\<rparr>;
         if flags_intersects (cell_flags c) (F_WIDE_CHAR_SPACER OR F_LEADING_WIDE_CHAR_SPACER) then
           Some (st\<lparr>ps_builder := (if flags_intersects (cell_flags c) F_LEADING_WIDE_CHAR_SPACER
                                   then add_leading_wide_char_spacer (ps_builder st)
                                   else ps_builder st),
                    ps_last := idx\<rparr>)
         else
           do { let fs = ps_storage st; let offset = ps_offset st;
                let new_fg = cell_fg c \<noteq> ps_fg st;
                fg \<leftarrow> (if new_fg then push_attribute_change offset (cell_fg c) (fs_fg fs)
                      else Some (fs_fg fs));
                let new_bg = (\<not> bg_and_style_eq (ps_bg st) c);
                bg \<leftarrow> (if new_bg then push_attribute_change offset (bg_and_style_from c) (fs_bg fs)
                      else Some (fs_bg fs));
                let marker = (case end_of_prompt_of c of
                                Some m \<Rightarrow> Some (offset, has_extra_trailing_newline m)
                              | None \<Rightarrow> fs_marker fs);
                let needs_processing =
                  (\<not> cell_is_empty c \<or> new_fg \<or> new_bg \<or> is_end_of_prompt c);
                g \<leftarrow> new_from_cell c;
                let st = st\<lparr>ps_storage := fs\<lparr>fs_fg := fg, fs_bg := bg, fs_marker := marker\<rparr>,
                            ps_fg := (if new_fg then cell_fg c else ps_fg st),
                            ps_bg := (if new_bg then bg_and_style_from c else ps_bg st),
                            ps_offset := offset + grapheme_len g\<rparr>;
                if needs_processing then
                  do { st \<leftarrow> fold_panics (\<lambda>_. push_one EMPTY_CELL) [0..<nat (idx - 1 - ps_last st)] st;
                       push_one g (st\<lparr>ps_last := idx\<rparr>) }
                else Some st } }"

definition row_soft_wraps :: "nat \<Rightarrow> row \<Rightarrow> bool panics" where
  "row_soft_wraps columns r =
    (if row_occ r = columns then
       do { last_col \<leftarrow> usub columns 1;
            c \<leftarrow> nth_checked (row_inner r) last_col;
            Some (flags_intersects (cell_flags c) F_WRAPLINE) }
     else Some False)"

text \<open>One row; the colors are carried over from the row before.\<close>

definition push_row ::
  "row \<Rightarrow> flat_storage \<times> color \<times> bg_and_style \<Rightarrow> (flat_storage \<times> color \<times> bg_and_style) panics" where
  "push_row r acc =
    (case acc of (fs, fg, bg) \<Rightarrow>
       do { cells \<leftarrow> dirty_cells r;
            st \<leftarrow> fold_panics push_cell cells
                   \<lparr>ps_storage = fs, ps_builder = builder_new, ps_offset = end_offset (fs_content fs),
                    ps_last = -1, ps_idx = -1, ps_fg = fg, ps_bg = bg\<rparr>;
            soft \<leftarrow> row_soft_wraps (fs_columns fs) r;
            st \<leftarrow> (if soft then Some st
                   else
                     do { content \<leftarrow> push_grapheme NEWLINE (fs_content (ps_storage st));
                          Some (st\<lparr>ps_builder := add_trailing_newline (ps_builder st),
                                   ps_storage := (ps_storage st)\<lparr>fs_content := content\<rparr>\<rparr>) });
            let fs = ps_storage st;
            Some (fs\<lparr>fs_index := append_to_index (ps_builder st) (fs_index fs)\<rparr>, ps_fg st, ps_bg st) })"

definition push_rows_without_truncation :: "row list \<Rightarrow> flat_storage \<Rightarrow> flat_storage panics" where
  "push_rows_without_truncation rows fs =
    map_option fst (fold_panics push_row rows (fs, am_tail (fs_fg fs), am_tail (fs_bg fs)))"

section \<open>Dropping rows\<close>

definition flat_truncate :: "nat \<Rightarrow> flat_storage \<Rightarrow> flat_storage panics" where
  "flat_truncate new_len fs =
    do { let r = index_truncate new_len (fs_index fs);
         let n = fst r;
         content \<leftarrow> content_truncate n (fs_content fs);
         Some (fs\<lparr>fs_index := snd r, fs_content := content,
                  fs_fg := am_truncate n (fs_fg fs), fs_bg := am_truncate n (fs_bg fs),
                  fs_marker := (case fs_marker fs of
                                  Some (offset, b) \<Rightarrow> if offset \<ge> n then None else Some (offset, b)
                                | None \<Rightarrow> None)\<rparr>) }"

definition truncate_rows_front :: "nat \<Rightarrow> flat_storage \<Rightarrow> flat_storage" where
  "truncate_rows_front count fs =
    (if count = 0 then fs
     else
       let count = min count (flat_total_rows fs);
           r = index_truncate_front count (fs_index fs)
       in fs\<lparr>fs_index := snd r,
             fs_content := content_truncate_front (fst r) (fs_content fs),
             fs_fg := am_truncate_front (fst r) (fs_fg fs),
             fs_bg := am_truncate_front (fst r) (fs_bg fs),
             fs_truncated := fs_truncated fs + count\<rparr>)"

definition apply_max_rows :: "flat_storage \<Rightarrow> flat_storage" where
  "apply_max_rows fs =
    (let max_rows = (case fs_max_rows fs of Some n \<Rightarrow> n | None \<Rightarrow> USIZE_MAX)
     in if max_rows \<le> flat_total_rows fs
        then truncate_rows_front (flat_total_rows fs - max_rows) fs else fs)"

definition push_rows :: "row list \<Rightarrow> flat_storage \<Rightarrow> flat_storage panics" where
  "push_rows rows fs =
    do { fs \<leftarrow> push_rows_without_truncation rows fs; Some (apply_max_rows fs) }"

definition flat_clear :: "flat_storage \<Rightarrow> flat_storage panics" where
  "flat_clear fs = flat_truncate 0 fs"

definition set_columns :: "nat \<Rightarrow> flat_storage \<Rightarrow> flat_storage panics" where
  "set_columns new_columns fs =
    (if fs_columns fs = new_columns then Some fs
     else
       do { ix \<leftarrow> rebuild (fs_index fs) new_columns;
            Some (fs\<lparr>fs_columns := new_columns, fs_index := ix\<rparr>) })"

section \<open>Reading rows\<close>

definition stored_cell ::
  "uchar list \<Rightarrow> color \<Rightarrow> bg_and_style \<Rightarrow> bool option \<Rightarrow> cell \<Rightarrow> cell" where
  "stored_cell cs fg style marker c =
    (let c = fold push_zerowidth (tl cs) (c\<lparr>cell_c := hd cs\<rparr>);
         c = c\<lparr>cell_fg := fg, cell_bg := bs_bg style, cell_flags := bs_flags style\<rparr>
     in case marker of Some b \<Rightarrow> mark_end_of_prompt b c | None \<Rightarrow> c)"

definition insert_flag :: "flags \<Rightarrow> cell \<Rightarrow> cell" where
  "insert_flag f c = c\<lparr>cell_flags := flags_insert f (cell_flags c)\<rparr>"

text \<open>The loop over the graphemes of a row. The next cell to fill is the dirty counter of the row.\<close>

fun read_graphemes ::
  "flat_storage \<Rightarrow> grapheme_info list \<Rightarrow> nat \<Rightarrow> color attribute_iter \<Rightarrow> bg_and_style attribute_iter \<Rightarrow>
     row \<Rightarrow> row panics" where
  "read_graphemes fs [] offset fg_iter bg_iter r = Some r"
| "read_graphemes fs (info # infos) offset fg_iter bg_iter r =
    do { bs \<leftarrow> content_index offset (offset + utf8_bytes info) (fs_content fs);
         let g = new_from_str_and_info (decode_utf8 bs) info;
         if starts_new_row g then Some r
         else
           do { n \<leftarrow> usub (grapheme_len g) 1;
                let fg = iter_nth n fg_iter;
                let style = iter_nth n bg_iter;
                if cell_width info = 0 then
                  read_graphemes fs infos (offset + grapheme_len g) (snd fg) (snd style) r
                else
                  do { let idx = row_occ r;
                       assert_that (idx < row_len r);
                       assert_that (grapheme_chars g \<noteq> []);
                       let marker = (case fs_marker fs of
                                       Some (k, b) \<Rightarrow> if k = offset then Some b else None
                                     | None \<Rightarrow> None);
                       r \<leftarrow> row_index_mut idx
                             (stored_cell (grapheme_chars g) (fst fg) (fst style) marker) r;
                       r \<leftarrow> (if cell_width info = 2 then
                               do { r \<leftarrow> row_index_mut idx (insert_flag F_WIDE_CHAR) r;
                                    row_index_mut (idx + 1) (insert_flag F_WIDE_CHAR_SPACER) r }
                             else Some r);
                       read_graphemes fs infos (offset + grapheme_len g) (snd fg) (snd style) r } } }"

text \<open>\<open>RowIterator::next\<close>: \<open>None\<close> below the panic layer is the end of the rows.\<close>

definition read_row :: "flat_storage \<Rightarrow> nat \<Rightarrow> row \<Rightarrow> row option panics" where
  "read_row fs k r =
    (case content_range_for_row k (fs_index fs) of
       None \<Rightarrow> Some None
     | Some (start, _) \<Rightarrow>
         do { r \<leftarrow> row_reset default_cell r;
              case grapheme_infos_for_row k (fs_index fs) of
                None \<Rightarrow> Some None
              | Some infos \<Rightarrow>
                  do { r \<leftarrow> read_graphemes fs infos start (iter_from (fs_fg fs) start)
                             (iter_from (fs_bg fs) start) r;
                       e \<leftarrow> get_entry k (fs_index fs);
                       assert_that (row_inner r \<noteq> []);
                       let r = (if e_newline e then r else row_last_mut (insert_flag F_WRAPLINE) r);
                       let r = (if e_leading e
                                then row_last_mut (insert_flag F_LEADING_WIDE_CHAR_SPACER) r else r);
                       Some (Some r) } })"

text \<open>All rows from \<open>k\<close> on; the iterator stops at the end of the index, and reuses its row.\<close>

fun read_rows :: "flat_storage \<Rightarrow> nat list \<Rightarrow> row \<Rightarrow> row list panics" where
  "read_rows fs [] r = Some []"
| "read_rows fs (k # ks) r =
    do { next_row \<leftarrow> read_row fs k r;
         case next_row of
           None \<Rightarrow> Some []
         | Some r \<Rightarrow> do { rs \<leftarrow> read_rows fs ks r; Some (r # rs) } }"

definition rows_from :: "nat \<Rightarrow> flat_storage \<Rightarrow> row list panics" where
  "rows_from start fs =
    do { r \<leftarrow> row_new (fs_columns fs); read_rows fs [start..<flat_total_rows fs] r }"

definition pop_rows :: "nat \<Rightarrow> flat_storage \<Rightarrow> (row list \<times> flat_storage) panics" where
  "pop_rows count fs =
    do { let start_row = flat_total_rows fs - count;
         rows \<leftarrow> rows_from start_row fs;
         fs \<leftarrow> flat_truncate start_row fs;
         Some (rows, fs) }"

section \<open>Queries\<close>

definition flat_content_offset_at_point :: "point \<Rightarrow> flat_storage \<Rightarrow> offset_error + nat" where
  "flat_content_offset_at_point p fs = content_offset_at_point p (fs_index fs)"

definition flat_content_offset_to_point :: "nat \<Rightarrow> flat_storage \<Rightarrow> (point_error + point) panics" where
  "flat_content_offset_to_point offset fs = content_offset_to_point offset (fs_index fs)"

definition flat_cell_type :: "nat \<Rightarrow> nat \<Rightarrow> flat_storage \<Rightarrow> cell_type option panics" where
  "flat_cell_type row col fs = cell_type row col (fs_index fs)"

definition flat_row_wraps :: "nat \<Rightarrow> flat_storage \<Rightarrow> bool" where
  "flat_row_wraps row fs = (case get_entry row (fs_index fs) of Some e \<Rightarrow> \<not> e_newline e | None \<Rightarrow> False)"

section \<open>What a storage holds\<close>

text \<open>A stored grapheme: its characters, its width, its color and its style; a stored row.\<close>

type_synonym stored = "uchar list \<times> nat \<times> color \<times> bg_and_style"
type_synonym stored_row = "stored list \<times> bool \<times> bool"

fun stored_info :: "stored \<Rightarrow> grapheme_info" where
  "stored_info (cs, w, fg, style) = \<lparr>cell_width = w, utf8_bytes = str_len cs\<rparr>"

definition stored_len :: "stored \<Rightarrow> nat" where
  "stored_len g = str_len (fst g)"

definition stored_bytes :: "stored list \<Rightarrow> nat" where
  "stored_bytes gs = sum_list (map stored_len gs)"

definition stored_ok :: "stored \<Rightarrow> bool" where
  "stored_ok g \<longleftrightarrow>
     fst g \<noteq> [] \<and> scalar_values (fst g) \<and> str_len (fst g) < CHUNK_SIZE \<and>
     (fst (snd g) = 1 \<or> fst (snd g) = 2)"

definition row_line :: "stored_row \<Rightarrow> line" where
  "row_line r = (map stored_info (fst r), snd r)"

fun stored_at :: "flat_storage \<Rightarrow> nat \<Rightarrow> stored \<Rightarrow> bool" where
  "stored_at fs offset (cs, w, fg, style) \<longleftrightarrow>
     holds (fs_content fs) offset (str_bytes cs) \<and>
     (\<forall>a. offset \<le> a \<longrightarrow> a < offset + str_len cs \<longrightarrow>
        attr_at (fs_fg fs) a = fg \<and> attr_at (fs_bg fs) a = style)"

fun all_stored_at :: "flat_storage \<Rightarrow> nat \<Rightarrow> stored list \<Rightarrow> bool" where
  "all_stored_at fs offset [] = True"
| "all_stored_at fs offset (g # gs) \<longleftrightarrow>
     stored_at fs offset g \<and> all_stored_at fs (offset + stored_len g) gs"

fun rows_stored_at :: "flat_storage \<Rightarrow> nat \<Rightarrow> stored_row list \<Rightarrow> bool" where
  "rows_stored_at fs offset [] = True"
| "rows_stored_at fs offset (r # rs) \<longleftrightarrow>
     all_stored_at fs offset (fst r) \<and> rows_stored_at fs (offset + line_bytes (row_line r)) rs"

text \<open>
  A storage that can be read, and one that can also be extended: no recorded change of color or
  style is beyond the byte before its end.
\<close>

definition flat_reads :: "nat \<Rightarrow> nat \<Rightarrow> stored_row list \<Rightarrow> flat_storage \<Rightarrow> bool" where
  "flat_reads columns base rs fs \<longleftrightarrow>
     content_wf (fs_content fs) \<and> content_start (fs_content fs) \<le> base \<and>
     index_is base (map row_line rs) (fs_index fs) \<and>
     ix_content_len (fs_index fs) = end_offset (fs_content fs) \<and>
     fs_columns fs = columns \<and>
     rows_stored_at fs base rs \<and> list_all (\<lambda>r. list_all stored_ok (fst r)) rs \<and>
     fs_marker fs = None"

definition closed_attributes :: "nat \<Rightarrow> flat_storage \<Rightarrow> bool" where
  "closed_attributes base fs \<longleftrightarrow>
     am_ok (fs_fg fs) base (end_offset (fs_content fs)) \<and>
     am_ok (fs_bg fs) base (end_offset (fs_content fs))"

definition flat_is :: "nat \<Rightarrow> nat \<Rightarrow> stored_row list \<Rightarrow> flat_storage \<Rightarrow> bool" where
  "flat_is columns base rs fs \<longleftrightarrow> flat_reads columns base rs fs \<and> closed_attributes base fs"

lemma rows_stored_at_append:
  "rows_stored_at fs n (rs @ rs') \<longleftrightarrow>
     rows_stored_at fs n rs \<and> rows_stored_at fs (n + lines_bytes (map row_line rs)) rs'"
  by (induction rs arbitrary: n) (auto simp: add.assoc)

lemma stored_bytes_simps [simp]:
  "stored_bytes [] = 0" "stored_bytes (g # gs) = stored_len g + stored_bytes gs"
  "stored_bytes (gs @ gs') = stored_bytes gs + stored_bytes gs'"
  by (simp_all add: stored_bytes_def)

lemma stored_info_bytes [simp]: "infos_bytes (map stored_info gs) = stored_bytes gs"
  by (induction gs) (auto simp: stored_len_def)

lemma utf8_stored_info [simp]: "utf8_bytes (stored_info g) = stored_len g"
  by (cases g) (simp add: stored_len_def)

lemma all_stored_at_append:
  "all_stored_at fs n (gs @ gs') \<longleftrightarrow> all_stored_at fs n gs \<and> all_stored_at fs (n + stored_bytes gs) gs'"
  by (induction gs arbitrary: n) (auto simp: add.assoc)

text \<open>Everything below \<open>n\<close> that can be read in \<open>fs\<close> can be read in \<open>fs'\<close>.\<close>

definition keeps_below :: "nat \<Rightarrow> nat \<Rightarrow> flat_storage \<Rightarrow> flat_storage \<Rightarrow> bool" where
  "keeps_below base n fs fs' \<longleftrightarrow>
     (\<forall>a bs. base \<le> a \<longrightarrow> a + length bs \<le> n \<longrightarrow> holds (fs_content fs) a bs \<longrightarrow> holds (fs_content fs') a bs) \<and>
     (\<forall>a. base \<le> a \<longrightarrow> a < n \<longrightarrow>
        attr_at (fs_fg fs') a = attr_at (fs_fg fs) a \<and> attr_at (fs_bg fs') a = attr_at (fs_bg fs) a)"

lemma keeps_below_refl: "keeps_below base n fs fs"
  by (simp add: keeps_below_def)

lemma keeps_below_trans:
  "keeps_below base n fs fs' \<Longrightarrow> keeps_below base m fs' fs'' \<Longrightarrow> n \<le> m \<Longrightarrow> keeps_below base n fs fs''"
  by (fastforce simp: keeps_below_def)

lemma stored_at_keeps:
  "stored_at fs a g \<Longrightarrow> keeps_below base n fs fs' \<Longrightarrow> base \<le> a \<Longrightarrow> a + stored_len g \<le> n \<Longrightarrow> stored_at fs' a g"
  by (cases g) (auto simp: keeps_below_def stored_len_def length_str_bytes)

lemma all_stored_at_keeps:
  "all_stored_at fs a gs \<Longrightarrow> keeps_below base n fs fs' \<Longrightarrow> base \<le> a \<Longrightarrow> a + stored_bytes gs \<le> n \<Longrightarrow>
     all_stored_at fs' a gs"
  by (induction gs arbitrary: a) (auto intro: stored_at_keeps)

lemma rows_stored_at_keeps:
  "rows_stored_at fs a rs \<Longrightarrow> keeps_below base n fs fs' \<Longrightarrow> base \<le> a \<Longrightarrow>
     a + lines_bytes (map row_line rs) \<le> n \<Longrightarrow> rows_stored_at fs' a rs"
proof (induction rs arbitrary: a)
  case (Cons r rs)
  then have "a + stored_bytes (fst r) \<le> n" by (simp add: line_bytes_def row_line_def)
  with Cons show ?case by (auto intro: all_stored_at_keeps)
qed simp

section \<open>Storing a row\<close>

definition is_spacer :: "cell \<Rightarrow> bool" where
  "is_spacer c \<longleftrightarrow> flags_intersects (cell_flags c) (F_WIDE_CHAR_SPACER OR F_LEADING_WIDE_CHAR_SPACER)"

definition is_wide :: "cell \<Rightarrow> bool" where
  "is_wide c \<longleftrightarrow> flags_contains (cell_flags c) F_WIDE_CHAR"

definition content_chars :: "char_or_str \<Rightarrow> uchar list" where
  "content_chars content = (case content of Char c \<Rightarrow> [c] | Str s \<Rightarrow> s)"

definition stored_of :: "cell \<Rightarrow> stored" where
  "stored_of c =
    (content_chars (raw_content c), if is_wide c then 2 else 1, cell_fg c, bg_and_style_from c)"

text \<open>
  A cell the terminal can produce: characters that are scalar values, zero-width characters only
  after a character of its own and within the cap, no style on an empty cell, and no marker. To be
  read back it must not be a line break, which the reader takes for the end of the row.
\<close>

definition cell_pushable :: "cell \<Rightarrow> bool" where
  "cell_pushable c \<longleftrightarrow>
     cell_c c < 0x110000 \<and> end_of_prompt_of c = None \<and>
     (case content_with_zerowidth c of
        None \<Rightarrow> True
      | Some s \<Rightarrow> (\<exists>z zs. s = cell_c c # z # zs) \<and> cell_c c \<noteq> DEFAULT_CHAR \<and> scalar_values s \<and>
                   str_len s \<le> MAX_GRAPHEME_BYTES) \<and>
     (cell_is_empty c \<longrightarrow> cell_flags c AND STYLE_MASK = 0 \<and> \<not> is_wide c)"

definition cell_storable :: "cell \<Rightarrow> bool" where
  "cell_storable c \<longleftrightarrow> cell_pushable c \<and> cell_c c \<noteq> 0xA"

text \<open>
  Wide characters are followed by their spacer, and spacers follow wide characters or end the row.
\<close>

fun cells_storable :: "cell list \<Rightarrow> bool" where
  "cells_storable [] = True"
| "cells_storable (c # cs) \<longleftrightarrow>
     (if is_spacer c then cs = [] \<and> \<not> flags_intersects (cell_flags c) F_WIDE_CHAR_SPACER
      else cell_storable c \<and>
        (if is_wide c then
           (case cs of
              [] \<Rightarrow> False
            | d # ds \<Rightarrow> is_spacer d \<and> \<not> flags_intersects (cell_flags d) F_LEADING_WIDE_CHAR_SPACER \<and>
                        cells_storable ds)
         else cells_storable cs))"

lemma cell_pushable_stored_ok:
  assumes "cell_pushable c"
  shows "stored_ok (stored_of c)"
proof (cases "content_with_zerowidth c")
  case None
  with assms show ?thesis
    using len_utf8_bounds [of "cell_c c"]
    by (auto simp: stored_ok_def stored_of_def raw_content_def content_chars_def cell_pushable_def
        scalar_values_def str_len_def CHUNK_SIZE_def)
next
  case (Some s)
  with assms show ?thesis
    by (auto simp: stored_ok_def stored_of_def raw_content_def content_chars_def cell_pushable_def
        CHUNK_SIZE_def MAX_GRAPHEME_BYTES_def)
qed

lemma str_len_pos: "cs \<noteq> [] \<Longrightarrow> 0 < str_len cs"
  using len_utf8_bounds [of "hd cs"] by (cases cs) (auto simp: str_len_def)

lemma new_from_cell_ok:
  assumes "cell_pushable c"
  shows "\<exists>g. new_from_cell c = Some g \<and> g_info g = stored_info (stored_of c) \<and> sized g \<and>
           content_bytes (g_content g) = str_bytes (fst (stored_of c)) \<and>
           grapheme_len g = stored_len (stored_of c)"
proof -
  have ok: "stored_ok (stored_of c)" by (rule cell_pushable_stored_ok [OF assms])
  have len: "content_len_utf8 (raw_content c) = str_len (fst (stored_of c))"
    and bytes: "content_bytes (raw_content c) = str_bytes (fst (stored_of c))"
    by (auto simp: content_len_utf8_def stored_of_def content_chars_def str_len_def content_bytes_def
        str_bytes_def split: char_or_str.splits)
  have pos: "0 < str_len (fst (stored_of c))"
    using ok by (simp add: stored_ok_def str_len_pos)
  then show ?thesis
    using ok len bytes
    by (auto simp: new_from_cell_def stored_ok_def CHUNK_SIZE_def sized_def grapheme_len_def Let_def
        stored_of_def is_wide_def stored_len_def)
qed

text \<open>Which cells have to be stored, given the color and style in force, and what is stored for a row.\<close>

definition needs_storing :: "color \<Rightarrow> bg_and_style \<Rightarrow> cell \<Rightarrow> bool" where
  "needs_storing fg bg c \<longleftrightarrow> \<not> cell_is_empty c \<or> cell_fg c \<noteq> fg \<or> bg_and_style_from c \<noteq> bg"

definition blank_stored :: "color \<Rightarrow> bg_and_style \<Rightarrow> stored" where
  "blank_stored fg bg = ([DEFAULT_CHAR], 1, fg, bg)"

fun store_cells :: "color \<Rightarrow> bg_and_style \<Rightarrow> nat \<Rightarrow> cell list \<Rightarrow> stored list" where
  "store_cells fg bg pending [] = []"
| "store_cells fg bg pending (c # cs) =
    (if is_spacer c then store_cells fg bg 0 cs
     else if needs_storing fg bg c then
       replicate pending (blank_stored fg bg) @ stored_of c #
       store_cells (cell_fg c) (bg_and_style_from c) 0 cs
     else store_cells fg bg (pending + 1) cs)"

text \<open>The state of the loop over the cells of a row that starts at an offset.\<close>

definition pushing ::
  "nat \<Rightarrow> nat \<Rightarrow> flat_storage \<Rightarrow> stored list \<Rightarrow> bool \<Rightarrow> push_state \<Rightarrow> bool" where
  "pushing base start fs0 gs leading st \<longleftrightarrow>
     (let fs = ps_storage st; b = ps_builder st; n = start + stored_bytes gs
      in content_wf (fs_content fs) \<and> content_start (fs_content fs) = content_start (fs_content fs0) \<and>
         end_offset (fs_content fs) = n \<and> base \<le> start \<and> n \<le> ps_offset st \<and>
         am_ok (fs_fg fs) base (ps_offset st) \<and> am_ok (fs_bg fs) base (ps_offset st) \<and>
         am_tail (fs_fg fs) = ps_fg st \<and> am_tail (fs_bg fs) = ps_bg st \<and>
         builder_ok b \<and> builder_line b = (map stored_info gs, False, leading) \<and>
         all_stored_at fs start gs \<and> list_all stored_ok gs \<and> keeps_below base start fs0 fs \<and>
         fs_index fs = fs_index fs0 \<and> fs_columns fs = fs_columns fs0 \<and> fs_marker fs = None \<and>
         fs_max_rows fs = fs_max_rows fs0 \<and> fs_truncated fs = fs_truncated fs0)"

text \<open>
  Cells passed over since the last one stored are still due, and no color or style changes among
  them.
\<close>

definition aligned :: "nat \<Rightarrow> nat \<Rightarrow> push_state \<Rightarrow> bool" where
  "aligned base pending st \<longleftrightarrow>
     ps_offset st = end_offset (fs_content (ps_storage st)) + pending \<and>
     ps_idx st = ps_last st + int pending \<and> closed_attributes base (ps_storage st)"

lemma push_one_ok:
  assumes "pushing base start fs0 gs leading st" and "sized g" and "stored_ok s"
    and g: "g_info g = stored_info s" "content_bytes (g_content g) = str_bytes (fst s)"
    and room: "length gs + 1 < 2 ^ 16"
    and n: "n = start + stored_bytes gs" "n + stored_len s \<le> ps_offset st"
    and attrs: "\<forall>a. n \<le> a \<longrightarrow> a < n + stored_len s \<longrightarrow>
        attr_at (fs_fg (ps_storage st)) a = fst (snd (snd s)) \<and>
        attr_at (fs_bg (ps_storage st)) a = snd (snd (snd s))"
  shows "\<exists>st'. push_one g st = Some st' \<and> pushing base start fs0 (gs @ [s]) leading st' \<and>
           ps_offset st' = ps_offset st \<and> ps_idx st' = ps_idx st \<and> ps_last st' = ps_last st \<and>
           ps_fg st' = ps_fg st \<and> ps_bg st' = ps_bg st \<and>
           fs_fg (ps_storage st') = fs_fg (ps_storage st) \<and> fs_bg (ps_storage st') = fs_bg (ps_storage st)"
proof -
  let ?fs = "ps_storage st"
  note p = assms(1) [unfolded pushing_def Let_def]
  have len: "grapheme_len g = stored_len s" using g(1) by (simp add: grapheme_len_def)
  obtain c where c: "push_grapheme g (fs_content ?fs) = Some c" "content_wf c"
      "end_offset c = n + stored_len s" "holds c n (str_bytes (fst s))"
      "\<forall>a bs. holds (fs_content ?fs) a bs \<longrightarrow> holds c a bs"
      "content_start c = content_start (fs_content ?fs)"
    using push_grapheme_ok [of "fs_content ?fs" g] p assms(2) g(2) len n(1) by auto
  have runs: "expand_runs (b_runs (ps_builder st)) = map stored_info gs" "\<not> b_newline (ps_builder st)"
      "b_leading (ps_builder st) = leading"
    using p by (auto simp: builder_line_def)
  have "info_ok (stored_info s)"
    using assms(3) by (cases s) (auto simp: stored_ok_def info_ok_def str_len_pos)
  then obtain b where b: "process_grapheme_info_unchecked (g_info g) (ps_builder st) = Some b" "builder_ok b"
      "builder_line b = (map stored_info (gs @ [s]), False, leading)"
    using process_unchecked_ok [of "ps_builder st" "stored_info s"] p runs room g(1) by auto
  let ?fs' = "?fs\<lparr>fs_content := c\<rparr>"
  have keeps: "keeps_below base k ?fs ?fs'" for k
    using c(5) by (simp add: keeps_below_def)
  have "all_stored_at ?fs' start (gs @ [s])"
  proof -
    have "all_stored_at ?fs' start gs"
      using all_stored_at_keeps [OF _ keeps [of "start + stored_bytes gs"]] p by auto
    moreover have "stored_at ?fs' n s"
      using c(4) attrs by (cases s) (auto simp: stored_len_def)
    ultimately show ?thesis using n(1) by (simp add: all_stored_at_append)
  qed
  moreover have "keeps_below base start fs0 ?fs'"
    using keeps_below_trans [OF _ keeps [of start]] p by auto
  ultimately show ?thesis
    using p c(1-3,6) b n assms(3)
    by (simp add: push_one_def pushing_def Let_def add.assoc)
qed

lemma push_blanks_ok:
  assumes "pushing base start fs0 gs leading st" and "length gs + k < 2 ^ 16"
    and "start + stored_bytes gs + k \<le> ps_offset st"
    and "\<forall>a. start + stored_bytes gs \<le> a \<longrightarrow> a < start + stored_bytes gs + k \<longrightarrow>
        attr_at (fs_fg (ps_storage st)) a = fg \<and> attr_at (fs_bg (ps_storage st)) a = bg"
  shows "\<exists>st'. fold_panics (\<lambda>_. push_one EMPTY_CELL) [0..<k] st = Some st' \<and>
           pushing base start fs0 (gs @ replicate k (blank_stored fg bg)) leading st' \<and>
           ps_offset st' = ps_offset st \<and> ps_idx st' = ps_idx st \<and> ps_last st' = ps_last st \<and>
           ps_fg st' = ps_fg st \<and> ps_bg st' = ps_bg st \<and>
           fs_fg (ps_storage st') = fs_fg (ps_storage st) \<and> fs_bg (ps_storage st') = fs_bg (ps_storage st)"
  using assms
proof (induction k)
  case (Suc k)
  let ?s = "blank_stored fg bg"
  have s: "stored_len ?s = 1" "stored_ok ?s" "g_info EMPTY_CELL = stored_info ?s"
      "content_bytes (g_content EMPTY_CELL) = str_bytes (fst ?s)" "sized EMPTY_CELL"
    by (simp_all add: blank_stored_def stored_len_def stored_ok_def EMPTY_CELL_def str_len_def
        scalar_values_def len_utf8_def DEFAULT_CHAR_def CHUNK_SIZE_def content_bytes_def str_bytes_def
        sized_def grapheme_len_def content_len_utf8_def)
  have bytes: "stored_bytes (replicate k ?s) = k"
    using s(1) by (simp add: stored_bytes_def sum_list_replicate)
  from Suc obtain st' where st': "fold_panics (\<lambda>_. push_one EMPTY_CELL) [0..<k] st = Some st'"
      "pushing base start fs0 (gs @ replicate k ?s) leading st'"
      "ps_offset st' = ps_offset st" "ps_idx st' = ps_idx st" "ps_last st' = ps_last st"
      "ps_fg st' = ps_fg st" "ps_bg st' = ps_bg st"
      "fs_fg (ps_storage st') = fs_fg (ps_storage st)" "fs_bg (ps_storage st') = fs_bg (ps_storage st)"
    by auto
  have "\<exists>st''. push_one EMPTY_CELL st' = Some st'' \<and>
      pushing base start fs0 ((gs @ replicate k ?s) @ [?s]) leading st'' \<and>
      ps_offset st'' = ps_offset st' \<and> ps_idx st'' = ps_idx st' \<and> ps_last st'' = ps_last st' \<and>
      ps_fg st'' = ps_fg st' \<and> ps_bg st'' = ps_bg st' \<and>
      fs_fg (ps_storage st'') = fs_fg (ps_storage st') \<and> fs_bg (ps_storage st'') = fs_bg (ps_storage st')"
  proof (rule push_one_ok [OF st'(2) s(5,2,3,4)])
    show "length (gs @ replicate k ?s) + 1 < 2 ^ 16" using Suc.prems(2) by simp
    show "start + stored_bytes gs + k = start + stored_bytes (gs @ replicate k ?s)"
      using bytes by simp
    show "start + stored_bytes gs + k + stored_len ?s \<le> ps_offset st'"
      using Suc.prems(3) st'(3) s(1) by simp
    show "\<forall>a. start + stored_bytes gs + k \<le> a \<longrightarrow> a < start + stored_bytes gs + k + stored_len ?s \<longrightarrow>
        attr_at (fs_fg (ps_storage st')) a = fst (snd (snd ?s)) \<and>
        attr_at (fs_bg (ps_storage st')) a = snd (snd (snd ?s))"
      using Suc.prems(4) st'(8,9) s(1) by (auto simp: blank_stored_def)
  qed
  then show ?case
    using st' by (auto simp: fold_panics_append replicate_append_same)
qed simp

lemma push_cell_stored:
  assumes push: "pushing base start fs0 gs leading st" and al: "aligned base pending st"
    and c: "\<not> is_spacer c" "cell_pushable c" "needs_storing (ps_fg st) (ps_bg st) c"
    and room: "length gs + pending + 1 < 2 ^ 16"
  shows "\<exists>st'. push_cell c st = Some st' \<and>
           pushing base start fs0
             (gs @ replicate pending (blank_stored (ps_fg st) (ps_bg st)) @ [stored_of c]) leading st' \<and>
           aligned base 0 st' \<and> ps_fg st' = cell_fg c \<and> ps_bg st' = bg_and_style_from c"
proof -
  let ?fs = "ps_storage st" and ?n = "start + stored_bytes gs" and ?s = "stored_of c"
  let ?bs = "bg_and_style_from c"
  note p = push [unfolded pushing_def Let_def] and a = al [unfolded aligned_def closed_attributes_def]
  have off: "ps_offset st = ?n + pending" "base \<le> ps_offset st" "base \<le> ?n"
    using p a by auto
  obtain g where g: "new_from_cell c = Some g" "g_info g = stored_info ?s" "sized g"
      "content_bytes (g_content g) = str_bytes (fst ?s)" "grapheme_len g = stored_len ?s"
    using new_from_cell_ok [OF c(2)] by blast
  have pos: "0 < stored_len ?s"
    using cell_pushable_stored_ok [OF c(2)] by (simp add: stored_ok_def stored_len_def str_len_pos)
  obtain F where F: "push_attribute_change (ps_offset st) (cell_fg c) (fs_fg ?fs) = Some F"
      "am_tail F = cell_fg c" "am_ok F base (ps_offset st + 1)"
      "\<forall>k \<ge> base. attr_at F k = (if k < ps_offset st then attr_at (fs_fg ?fs) k else cell_fg c)"
    using push_attribute_change_ok [of "fs_fg ?fs" base "ps_offset st" "cell_fg c"] p off(2) by blast
  obtain B where B: "push_attribute_change (ps_offset st) ?bs (fs_bg ?fs) = Some B"
      "am_tail B = ?bs" "am_ok B base (ps_offset st + 1)"
      "\<forall>k \<ge> base. attr_at B k = (if k < ps_offset st then attr_at (fs_bg ?fs) k else ?bs)"
    using push_attribute_change_ok [of "fs_bg ?fs" base "ps_offset st" ?bs] p off(2) by blast
  have F': "(if cell_fg c \<noteq> ps_fg st then push_attribute_change (ps_offset st) (cell_fg c) (fs_fg ?fs)
      else Some (fs_fg ?fs)) = Some F"
    using F(1) p by (auto simp: push_attribute_change_def)
  have B': "(if \<not> bg_and_style_eq (ps_bg st) c then push_attribute_change (ps_offset st) ?bs (fs_bg ?fs)
      else Some (fs_bg ?fs)) = Some B"
    using B(1) p by (auto simp: push_attribute_change_def bg_and_style_eq_iff)
  have colors: "(if cell_fg c \<noteq> ps_fg st then cell_fg c else ps_fg st) = cell_fg c"
    "(if \<not> bg_and_style_eq (ps_bg st) c then ?bs else ps_bg st) = ?bs"
    by (auto simp: bg_and_style_eq_iff)
  have prompt: "end_of_prompt_of c = None" "\<not> is_end_of_prompt c"
    using c(2) by (auto simp: cell_pushable_def is_end_of_prompt_def)
  have processing: "\<not> cell_is_empty c \<or> cell_fg c \<noteq> ps_fg st \<or> \<not> bg_and_style_eq (ps_bg st) c \<or> is_end_of_prompt c"
    using c(3) by (auto simp: needs_storing_def bg_and_style_eq_iff)
  define st1 where "st1 = st\<lparr>ps_idx := ps_idx st + 1, ps_storage := ?fs\<lparr>fs_fg := F, fs_bg := B\<rparr>,
      ps_fg := cell_fg c, ps_bg := ?bs, ps_offset := ps_offset st + stored_len ?s\<rparr>"
  have step: "push_cell c st =
      do { st' \<leftarrow> fold_panics (\<lambda>_. push_one EMPTY_CELL) [0..<pending] st1;
           push_one g (st'\<lparr>ps_last := ps_idx st + 1\<rparr>) }"
  proof -
    have "nat (ps_idx st + 1 - 1 - ps_last st) = pending" using a by simp
    then show ?thesis
      using c(1) processing
      unfolding push_cell_def is_spacer_def Let_def
      by (simp add: F' B' colors prompt g(1,5) st1_def cong: if_cong)
  qed
  have keeps: "keeps_below base ?n ?fs (ps_storage st1)"
    using F(4) B(4) off(1) by (simp add: keeps_below_def st1_def)
  have push1: "pushing base start fs0 gs leading st1"
  proof -
    have "keeps_below base start fs0 (ps_storage st1)"
      using keeps_below_trans [of base start fs0 ?fs ?n "ps_storage st1"] keeps p by simp
    moreover have "all_stored_at (ps_storage st1) start gs"
      using all_stored_at_keeps [OF _ keeps, of start gs] p by simp
    moreover have "am_ok F base (ps_offset st + stored_len ?s)" "am_ok B base (ps_offset st + stored_len ?s)"
      using am_ok_mono [OF F(3), of base] am_ok_mono [OF B(3), of base] pos by simp_all
    ultimately show ?thesis
      using p F(2) B(2) by (simp add: pushing_def Let_def st1_def)
  qed
  have pend: "attr_at (fs_fg (ps_storage st1)) k = ps_fg st \<and> attr_at (fs_bg (ps_storage st1)) k = ps_bg st"
    if "?n \<le> k" "k < ?n + pending" for k
    using that F(4) B(4) off attr_at_tail [of "fs_fg ?fs" base ?n k] attr_at_tail [of "fs_bg ?fs" base ?n k]
      p a by (simp add: st1_def)
  let ?gs = "gs @ replicate pending (blank_stored (ps_fg st) (ps_bg st))"
  have "length gs + pending < 2 ^ 16" "?n + pending \<le> ps_offset st1"
    using room off by (simp_all add: st1_def)
  from push_blanks_ok [OF push1 this, of "ps_fg st" "ps_bg st"] pend
  obtain st2 where st2: "fold_panics (\<lambda>_. push_one EMPTY_CELL) [0..<pending] st1 = Some st2"
      "pushing base start fs0 ?gs leading st2" "ps_offset st2 = ps_offset st1" "ps_idx st2 = ps_idx st1"
      "ps_fg st2 = ps_fg st1" "ps_bg st2 = ps_bg st1"
      "fs_fg (ps_storage st2) = F" "fs_bg (ps_storage st2) = B"
    unfolding st1_def by auto
  let ?st2 = "st2\<lparr>ps_last := ps_idx st + 1\<rparr>"
  have bytes: "stored_bytes ?gs = stored_bytes gs + pending"
    by (simp add: stored_bytes_def sum_list_replicate stored_len_def blank_stored_def str_len_def
        len_utf8_def DEFAULT_CHAR_def)
  have p2: "pushing base start fs0 ?gs leading ?st2"
    using st2(2) by (simp add: pushing_def Let_def)
  have "\<exists>st'. push_one g ?st2 = Some st' \<and> pushing base start fs0 (?gs @ [?s]) leading st' \<and>
      ps_offset st' = ps_offset ?st2 \<and> ps_idx st' = ps_idx ?st2 \<and> ps_last st' = ps_last ?st2 \<and>
      ps_fg st' = ps_fg ?st2 \<and> ps_bg st' = ps_bg ?st2 \<and>
      fs_fg (ps_storage st') = fs_fg (ps_storage ?st2) \<and> fs_bg (ps_storage st') = fs_bg (ps_storage ?st2)"
  proof (rule push_one_ok [OF p2 g(3) cell_pushable_stored_ok [OF c(2)] g(2,4)])
    show "length ?gs + 1 < 2 ^ 16" using room by simp
    show "ps_offset st = start + stored_bytes ?gs" using off(1) bytes by simp
    show "ps_offset st + stored_len ?s \<le> ps_offset ?st2" using st2(3) by (simp add: st1_def)
    show "\<forall>k. ps_offset st \<le> k \<longrightarrow> k < ps_offset st + stored_len ?s \<longrightarrow>
        attr_at (fs_fg (ps_storage ?st2)) k = fst (snd (snd ?s)) \<and>
        attr_at (fs_bg (ps_storage ?st2)) k = snd (snd (snd ?s))"
      using F(4) B(4) st2(7,8) off(2) by (simp add: stored_of_def)
  qed
  then obtain st3 where st3: "push_one g ?st2 = Some st3" "pushing base start fs0 (?gs @ [?s]) leading st3"
      "ps_offset st3 = ps_offset st1" "ps_idx st3 = ps_idx st + 1" "ps_last st3 = ps_idx st + 1"
      "ps_fg st3 = cell_fg c" "ps_bg st3 = ?bs" "fs_fg (ps_storage st3) = F" "fs_bg (ps_storage st3) = B"
    using st2(3-8) by (auto simp: st1_def)
  have end3: "end_offset (fs_content (ps_storage st3)) = ps_offset st + stored_len ?s"
    using st3(2) off(1) bytes by (simp add: pushing_def Let_def)
  have "aligned base 0 st3"
    using end3 st3(3,4,5,8,9) am_ok_mono [OF F(3), of base] am_ok_mono [OF B(3), of base] pos
    by (simp add: aligned_def closed_attributes_def st1_def)
  then show ?thesis
    using st3 st2(1) by (simp add: step)
qed

lemma push_cell_skipped:
  assumes push: "pushing base start fs0 gs leading st" and al: "aligned base pending st"
    and c: "\<not> is_spacer c" "cell_pushable c" "\<not> needs_storing (ps_fg st) (ps_bg st) c"
  shows "\<exists>st'. push_cell c st = Some st' \<and> pushing base start fs0 gs leading st' \<and>
           aligned base (pending + 1) st' \<and> ps_fg st' = ps_fg st \<and> ps_bg st' = ps_bg st"
proof -
  obtain g where g: "new_from_cell c = Some g" "grapheme_len g = stored_len (stored_of c)"
    using new_from_cell_ok [OF c(2)] by blast
  have empty: "cell_is_empty c" and same: "cell_fg c = ps_fg st" "bg_and_style_eq (ps_bg st) c"
    using c(3) by (auto simp: needs_storing_def bg_and_style_eq_iff)
  have "content_with_zerowidth c = None"
    using c(2) empty by (auto simp: cell_pushable_def cell_is_empty_def split: option.splits)
  then have len: "stored_len (stored_of c) = 1"
    using empty by (simp add: stored_len_def stored_of_def raw_content_def content_chars_def str_len_def
        cell_is_empty_def len_utf8_def DEFAULT_CHAR_def)
  have prompt: "end_of_prompt_of c = None" "\<not> is_end_of_prompt c"
    using c(2) by (auto simp: cell_pushable_def is_end_of_prompt_def)
  let ?st = "st\<lparr>ps_idx := ps_idx st + 1, ps_offset := ps_offset st + 1\<rparr>"
  have "push_cell c st = Some ?st"
    using c(1) empty same prompt g len
    by (simp add: push_cell_def is_spacer_def Let_def)
  moreover have "pushing base start fs0 gs leading ?st"
    using push
      am_ok_mono [of "fs_fg (ps_storage st)" base "ps_offset st" base "ps_offset st + 1"]
      am_ok_mono [of "fs_bg (ps_storage st)" base "ps_offset st" base "ps_offset st + 1"]
    by (auto simp: pushing_def Let_def)
  ultimately show ?thesis using al by (auto simp: aligned_def)
qed

definition leading_of :: "cell list \<Rightarrow> bool" where
  "leading_of cs \<longleftrightarrow> list_ex (\<lambda>c. flags_intersects (cell_flags c) F_LEADING_WIDE_CHAR_SPACER) cs"

lemma is_spacer_iff:
  "is_spacer c \<longleftrightarrow> flags_intersects (cell_flags c) F_WIDE_CHAR_SPACER \<or>
     flags_intersects (cell_flags c) F_LEADING_WIDE_CHAR_SPACER"
  by (simp add: is_spacer_def flags_intersects_def bit.conj_disj_distrib or_eq_0_iff)

lemma wide_needs_storing: "cell_pushable c \<Longrightarrow> is_wide c \<Longrightarrow> needs_storing fg bg c"
  by (auto simp: cell_pushable_def needs_storing_def)

lemma push_spacer:
  assumes "pushing base start fs0 gs leading st" and "is_spacer c"
  shows "\<exists>st'. push_cell c st = Some st' \<and>
           pushing base start fs0 gs
             (leading \<or> flags_intersects (cell_flags c) F_LEADING_WIDE_CHAR_SPACER) st' \<and>
           (aligned base 0 st \<longrightarrow> aligned base 0 st') \<and> ps_storage st' = ps_storage st \<and>
           ps_fg st' = ps_fg st \<and> ps_bg st' = ps_bg st"
proof -
  have "builder_ok (add_leading_wide_char_spacer b) \<longleftrightarrow> builder_ok b"
    "builder_line (add_leading_wide_char_spacer b) = (fst (builder_line b), fst (snd (builder_line b)), True)" for b
    by (simp_all add: add_leading_wide_char_spacer_def builder_ok_def builder_line_def line_bytes_def)
  then show ?thesis
    using assms by (auto simp: push_cell_def is_spacer_def Let_def pushing_def aligned_def)
qed

text \<open>
  Cells that can be pushed: a spacer comes after a cell that was stored, or last. Wide characters
  followed by their spacers are of this form.
\<close>

fun cells_flow :: "color \<Rightarrow> bg_and_style \<Rightarrow> nat \<Rightarrow> cell list \<Rightarrow> bool" where
  "cells_flow fg bg pending [] = True"
| "cells_flow fg bg pending (c # cs) \<longleftrightarrow>
     (if is_spacer c then cs = [] \<or> pending = 0 \<and> cells_flow fg bg 0 cs
      else cell_pushable c \<and>
        (if needs_storing fg bg c then cells_flow (cell_fg c) (bg_and_style_from c) 0 cs
         else cells_flow fg bg (pending + 1) cs))"

lemma cells_storable_flow: "cells_storable cs \<Longrightarrow> cells_flow fg bg pending cs"
proof (induction cs arbitrary: fg bg pending rule: cells_storable.induct)
  case (2 c cs)
  show ?case
  proof (cases "is_spacer c")
    case False
    then have ok: "cell_pushable c" using "2.prems" by (simp add: cell_storable_def)
    show ?thesis
    proof (cases "is_wide c")
      case wide: True
      then obtain d ds where "cs = d # ds" "is_spacer d" "cells_storable ds"
        using "2.prems" False by (auto split: list.splits)
      with "2.IH"(1) [OF False wide] wide_needs_storing [OF ok wide] show ?thesis
        using False ok by simp
    next
      case wide: False
      with "2.prems" "2.IH"(2) [OF False wide] show ?thesis using False ok by simp
    qed
  qed (use "2.prems" in simp)
qed simp

lemma push_cells_ok:
  assumes "pushing base start fs0 gs leading st" and "aligned base pending st"
    and "cells_flow (ps_fg st) (ps_bg st) pending cs" and "length gs + pending + length cs < 2 ^ 16"
  shows "\<exists>st'. fold_panics push_cell cs st = Some st' \<and>
           pushing base start fs0 (gs @ store_cells (ps_fg st) (ps_bg st) pending cs)
             (leading \<or> leading_of cs) st' \<and>
           closed_attributes base (ps_storage st')"
  using assms
proof (induction cs arbitrary: gs leading pending st)
  case Nil
  then show ?case by (simp add: leading_of_def aligned_def)
next
  case (Cons c cs)
  show ?case
  proof (cases "is_spacer c")
    case True
    let ?lead = "leading \<or> flags_intersects (cell_flags c) F_LEADING_WIDE_CHAR_SPACER"
    obtain st' where st': "push_cell c st = Some st'" "pushing base start fs0 gs ?lead st'"
        "aligned base 0 st \<longrightarrow> aligned base 0 st'" "ps_storage st' = ps_storage st"
        "ps_fg st' = ps_fg st" "ps_bg st' = ps_bg st"
      using push_spacer [OF Cons.prems(1) True] by blast
    show ?thesis
    proof (cases "cs = []")
      case True
      with \<open>is_spacer c\<close> st' Cons.prems(2) show ?thesis by (auto simp: aligned_def leading_of_def)
    next
      case False
      then have "pending = 0" "cells_flow (ps_fg st') (ps_bg st') 0 cs"
        using Cons.prems(3) \<open>is_spacer c\<close> st'(5,6) by auto
      with Cons.IH [OF st'(2), of 0] st' Cons.prems(2,4) \<open>is_spacer c\<close> show ?thesis
        by (auto simp: leading_of_def)
    qed
  next
    case False
    then have ok: "cell_pushable c" and lead: "\<not> flags_intersects (cell_flags c) F_LEADING_WIDE_CHAR_SPACER"
      using Cons.prems(3) by (auto simp: is_spacer_iff)
    show ?thesis
    proof (cases "needs_storing (ps_fg st) (ps_bg st) c")
      case store: True
      let ?gs = "gs @ replicate pending (blank_stored (ps_fg st) (ps_bg st)) @ [stored_of c]"
      have "length gs + pending + 1 < 2 ^ 16" using Cons.prems(4) by simp
      then obtain st' where st': "push_cell c st = Some st'" "pushing base start fs0 ?gs leading st'"
          "aligned base 0 st'" "ps_fg st' = cell_fg c" "ps_bg st' = bg_and_style_from c"
        using push_cell_stored [OF Cons.prems(1,2) False ok store] by blast
      have "length ?gs + 0 + length cs < 2 ^ 16" using Cons.prems(4) by simp
      moreover have "cells_flow (ps_fg st') (ps_bg st') 0 cs"
        using Cons.prems(3) False store st'(4,5) by simp
      ultimately show ?thesis
        using Cons.IH [OF st'(2,3)] st' False store lead by (auto simp: leading_of_def)
    next
      case skip: False
      obtain st' where st': "push_cell c st = Some st'" "pushing base start fs0 gs leading st'"
          "aligned base (pending + 1) st'" "ps_fg st' = ps_fg st" "ps_bg st' = ps_bg st"
        using push_cell_skipped [OF Cons.prems(1,2) False ok skip] by blast
      have "length gs + (pending + 1) + length cs < 2 ^ 16" using Cons.prems(4) by simp
      moreover have "cells_flow (ps_fg st') (ps_bg st') (pending + 1) cs"
        using Cons.prems(3) False skip st'(4,5) by simp
      ultimately show ?thesis
        using Cons.IH [OF st'(2,3)] st' False skip lead by (auto simp: leading_of_def)
    qed
  qed
qed

text \<open>Rows as wide as the storage; a leading spacer is the last cell of its row.\<close>

definition row_soft :: "nat \<Rightarrow> row \<Rightarrow> bool" where
  "row_soft columns r \<longleftrightarrow>
     row_occ r = columns \<and> flags_intersects (cell_flags (row_inner r ! (columns - 1))) F_WRAPLINE"

definition row_storable :: "nat \<Rightarrow> row \<Rightarrow> bool" where
  "row_storable columns r \<longleftrightarrow>
     row_len r = columns \<and> row_occ r \<le> columns \<and> cells_storable (take (row_occ r) (row_inner r)) \<and>
     (leading_of (take (row_occ r) (row_inner r)) \<longrightarrow> row_occ r = columns)"

definition row_stored :: "nat \<Rightarrow> color \<Rightarrow> bg_and_style \<Rightarrow> row \<Rightarrow> stored_row" where
  "row_stored columns fg bg r =
    (let cells = take (row_occ r) (row_inner r)
     in (store_cells fg bg 0 cells, \<not> row_soft columns r, leading_of cells))"

lemma newline_bytes: "sized NEWLINE" "grapheme_len NEWLINE = 1"
  by (simp_all add: sized_def NEWLINE_def grapheme_len_def content_len_utf8_def len_utf8_def CHUNK_SIZE_def)

lemma add_trailing_newline_ok:
  assumes "builder_ok b" and "builder_line b = (infos, False, l)"
  shows "builder_ok (add_trailing_newline b)" "builder_line (add_trailing_newline b) = (infos, True, l)"
  using assms
  by (auto simp: add_trailing_newline_def builder_ok_def builder_line_def line_bytes_def len_utf8_def)

lemma push_row_flow:
  assumes flat: "flat_is columns base rs fs" and r: "row_len r = columns" "row_occ r \<le> columns"
    and flow: "cells_flow (am_tail (fs_fg fs)) (am_tail (fs_bg fs)) 0 (take (row_occ r) (row_inner r))"
    and cols: "1 \<le> columns" "columns < 2 ^ 16"
  shows "\<exists>fs'. push_row r (fs, am_tail (fs_fg fs), am_tail (fs_bg fs)) =
                 Some (fs', am_tail (fs_fg fs'), am_tail (fs_bg fs')) \<and>
               flat_is columns base (rs @ [row_stored columns (am_tail (fs_fg fs)) (am_tail (fs_bg fs)) r]) fs' \<and>
               fs_max_rows fs' = fs_max_rows fs \<and> fs_truncated fs' = fs_truncated fs"
proof -
  let ?cells = "take (row_occ r) (row_inner r)" and ?start = "end_offset (fs_content fs)"
  let ?fg = "am_tail (fs_fg fs)" and ?bg = "am_tail (fs_bg fs)"
  let ?gs = "store_cells ?fg ?bg 0 ?cells" and ?lead = "leading_of ?cells" and ?soft = "row_soft columns r"
  note f = flat [unfolded flat_is_def flat_reads_def closed_attributes_def]
  note rr = r [unfolded row_len_def]
  have start: "?start = base + lines_bytes (map row_line rs)"
    using f by (auto simp: index_is_def)
  let ?st = "\<lparr>ps_storage = fs, ps_builder = builder_new, ps_offset = ?start,
      ps_last = -1, ps_idx = -1, ps_fg = ?fg, ps_bg = ?bg\<rparr>"
  have st: "pushing base ?start fs [] False ?st" "aligned base 0 ?st"
    using f start by (simp_all add: pushing_def aligned_def Let_def keeps_below_refl closed_attributes_def)
  have "length ([] :: stored list) + 0 + length ?cells < 2 ^ 16" using rr cols by simp
  from push_cells_ok [OF st _ this] flow
  obtain st' where st': "fold_panics push_cell ?cells ?st = Some st'"
      "pushing base ?start fs ?gs ?lead st'" "closed_attributes base (ps_storage st')"
    by auto
  let ?fs = "ps_storage st'" and ?n = "?start + stored_bytes ?gs"
  note p = st'(2) [unfolded pushing_def Let_def]
  have soft: "row_soft_wraps (fs_columns fs) r = Some ?soft"
  proof -
    have "fs_columns fs = columns" "length (row_inner r) = columns" using f rr by simp_all
    then show ?thesis
      using cols(1) by (simp add: row_soft_wraps_def row_soft_def usub_def nth_checked_def)
  qed
  define b where "b = (if ?soft then ps_builder st' else add_trailing_newline (ps_builder st'))"
  obtain c where c: "(if ?soft then c = fs_content ?fs else push_grapheme NEWLINE (fs_content ?fs) = Some c)"
      "content_wf c" "end_offset c = ?n + (if ?soft then 0 else 1)"
      "content_start c = content_start (fs_content ?fs)"
      "\<forall>a bs. holds (fs_content ?fs) a bs \<longrightarrow> holds c a bs"
  proof (cases ?soft)
    case False
    have "content_wf (fs_content ?fs)" "end_offset (fs_content ?fs) = ?n" using p by simp_all
    then obtain c where "push_grapheme NEWLINE (fs_content ?fs) = Some c" "content_wf c"
        "end_offset c = ?n + 1" "content_start c = content_start (fs_content ?fs)"
        "\<forall>a bs. holds (fs_content ?fs) a bs \<longrightarrow> holds c a bs"
      using push_grapheme_ok [of "fs_content ?fs" NEWLINE] newline_bytes by metis
    with False show ?thesis by (intro that [of c]) simp_all
  next
    case True
    with p show ?thesis by (intro that [of "fs_content ?fs"]) simp_all
  qed
  define fs' where "fs' = ?fs\<lparr>fs_content := c, fs_index := append_to_index b (fs_index ?fs)\<rparr>"
  have push: "push_row r (fs, ?fg, ?bg) = Some (fs', ps_fg st', ps_bg st')"
    using st'(1) soft rr c(1)
    by (cases ?soft) (simp_all add: push_row_def dirty_cells_def assert_that_def fs'_def b_def Let_def)
  have pb: "builder_ok (ps_builder st')" "builder_line (ps_builder st') = (map stored_info ?gs, False, ?lead)"
    using p by simp_all
  have b: "builder_ok b" "builder_line b = row_line (row_stored columns ?fg ?bg r)"
    using pb add_trailing_newline_ok [OF pb]
    by (cases ?soft; simp add: b_def row_stored_def row_line_def Let_def)+
  have index: "index_is base (map row_line (rs @ [row_stored columns ?fg ?bg r])) (fs_index fs')"
    "ix_content_len (fs_index fs') = end_offset c"
    using append_to_index_is [of base "map row_line rs" "fs_index fs" b] f p b c(3)
    by (simp_all add: fs'_def row_stored_def row_line_def line_bytes_def Let_def)
  have keeps: "keeps_below base k ?fs fs'" for k
    using c(5) by (simp add: keeps_below_def fs'_def)
  have "keeps_below base ?start fs fs'"
    using keeps_below_trans [of base ?start fs ?fs ?start fs'] keeps p by simp
  then have "rows_stored_at fs' base rs"
    using rows_stored_at_keeps [of fs base rs base ?start fs'] f start by simp
  moreover have "all_stored_at fs' ?start ?gs"
    using all_stored_at_keeps [OF _ keeps [of ?n]] p by simp
  ultimately have rows: "rows_stored_at fs' base (rs @ [row_stored columns ?fg ?bg r])"
    using start by (simp add: rows_stored_at_append row_stored_def Let_def)
  have "closed_attributes base fs'"
    using st'(3) c(3) p am_ok_mono [of "fs_fg ?fs" base ?n base "end_offset c"]
      am_ok_mono [of "fs_bg ?fs" base ?n base "end_offset c"]
    by (simp add: closed_attributes_def fs'_def)
  moreover have "flat_reads columns base (rs @ [row_stored columns ?fg ?bg r]) fs'"
    using f p c(2,4) index rows by (simp add: flat_reads_def fs'_def row_stored_def Let_def)
  moreover have "ps_fg st' = am_tail (fs_fg fs')" "ps_bg st' = am_tail (fs_bg fs')"
      "fs_max_rows fs' = fs_max_rows fs" "fs_truncated fs' = fs_truncated fs"
    using p by (simp_all add: fs'_def)
  ultimately show ?thesis using push by (simp add: flat_is_def)
qed

lemma push_row_ok:
  assumes flat: "flat_is columns base rs fs" and r: "row_storable columns r"
    and cols: "1 \<le> columns" "columns < 2 ^ 16"
  shows "\<exists>fs'. push_row r (fs, am_tail (fs_fg fs), am_tail (fs_bg fs)) =
                 Some (fs', am_tail (fs_fg fs'), am_tail (fs_bg fs')) \<and>
               flat_is columns base (rs @ [row_stored columns (am_tail (fs_fg fs)) (am_tail (fs_bg fs)) r]) fs' \<and>
               fs_max_rows fs' = fs_max_rows fs \<and> fs_truncated fs' = fs_truncated fs"
  using push_row_flow [OF flat _ _ cells_storable_flow cols] r by (simp add: row_storable_def)

section \<open>Reading a row back\<close>

definition spacer_cell :: cell where
  "spacer_cell = insert_flag F_WIDE_CHAR_SPACER default_cell"

fun render_cells :: "stored \<Rightarrow> cell list" where
  "render_cells (cs, w, fg, style) =
    (let c = stored_cell cs fg style None default_cell
     in if w = 2 then [insert_flag F_WIDE_CHAR c, spacer_cell] else [c])"

definition rendered :: "stored list \<Rightarrow> cell list" where
  "rendered gs = concat (map render_cells gs)"

lemma rendered_simps [simp]:
  "rendered [] = []" "rendered (g # gs) = render_cells g @ rendered gs"
  "rendered (gs @ gs') = rendered gs @ rendered gs'"
  by (simp_all add: rendered_def)

definition on_last :: "('a \<Rightarrow> 'a) \<Rightarrow> 'a list \<Rightarrow> 'a list" where
  "on_last f xs = butlast xs @ [f (last xs)]"

text \<open>A row made of the given cells, the rest of it untouched.\<close>

definition filled_row :: "nat \<Rightarrow> cell list \<Rightarrow> row" where
  "filled_row columns cs =
    \<lparr>row_inner = cs @ replicate (columns - length cs) default_cell, row_occ = length cs\<rparr>"

lemma filled_row_snoc:
  assumes "length cs < columns"
  shows "row_index_mut (length cs) f (filled_row columns cs) = Some (filled_row columns (cs @ [f default_cell]))"
proof -
  obtain n where n: "columns - length cs = Suc n" "columns - Suc (length cs) = n"
    using assms by (cases "columns - length cs") auto
  have "length cs < row_len (filled_row columns cs)"
    using assms by (simp add: filled_row_def row_len_def)
  from row_index_mut_Some [OF this, of f] show ?thesis
    by (simp add: filled_row_def n nth_append list_update_append)
qed

lemma filled_row_last:
  assumes "length cs < columns"
  shows "row_index_mut (length cs) f (filled_row columns (cs @ [c])) =
           Some (filled_row columns (cs @ [f c]))"
proof -
  have "length cs < row_len (filled_row columns (cs @ [c]))"
    using assms by (simp add: filled_row_def row_len_def)
  from row_index_mut_Some [OF this, of f] show ?thesis
    by (simp add: filled_row_def nth_append list_update_append)
qed

text \<open>One grapheme that fits, and one that does not.\<close>

lemma read_graphemes_step:
  assumes "stored_at fs offset g" and "stored_ok g" and "fst g \<noteq> [0xA]" and "fs_marker fs = None"
    and fi: "iter_ok (fs_fg fs) fi" "it_offset fi = offset" and bi: "iter_ok (fs_bg fs) bi" "it_offset bi = offset"
    and "length xs \<le> columns"
  shows "\<exists>fi' bi'. iter_ok (fs_fg fs) fi' \<and> it_offset fi' = offset + stored_len g \<and>
           iter_ok (fs_bg fs) bi' \<and> it_offset bi' = offset + stored_len g \<and>
           read_graphemes fs (map stored_info (g # gs)) offset fi bi (filled_row columns xs) =
             (if length (xs @ render_cells g) \<le> columns then
                read_graphemes fs (map stored_info gs) (offset + stored_len g) fi' bi'
                  (filled_row columns (xs @ render_cells g))
              else None)"
proof -
  obtain cs w fg style where g: "g = (cs, w, fg, style)" by (cases g)
  have ok: "cs \<noteq> []" "scalar_values cs" "cs \<noteq> [0xA]" "w = 1 \<or> w = 2"
    using assms(2,3) g by (auto simp: stored_ok_def)
  have len: "0 < str_len cs" by (rule str_len_pos [OF ok(1)])
  let ?n = "str_len cs - 1"
  have bytes: "content_index offset (offset + str_len cs) (fs_content fs) = Some (str_bytes cs)"
    using assms(1) g by (simp add: holds_def length_str_bytes)
  have fg: "fst (iter_nth ?n fi) = fg" "fst (iter_nth ?n bi) = style"
    using assms(1) g len iter_nth_ok(1) [OF fi(1), of ?n] iter_nth_ok(1) [OF bi(1), of ?n] fi(2) bi(2)
    by simp_all
  have its: "iter_ok (fs_fg fs) (snd (iter_nth ?n fi))" "iter_ok (fs_bg fs) (snd (iter_nth ?n bi))"
      "it_offset (snd (iter_nth ?n fi)) = offset + str_len cs" "it_offset (snd (iter_nth ?n bi)) = offset + str_len cs"
    using iter_nth_ok [OF fi(1), of ?n] iter_nth_ok [OF bi(1), of ?n] fi(2) bi(2) len by simp_all
  let ?c = "stored_cell cs fg style None default_cell"
  have cells: "length (render_cells g) = w" using ok(4) g by (auto simp: Let_def)
  have occ: "row_occ (filled_row columns xs) = length xs" "row_len (filled_row columns xs) = columns"
    using assms(9) by (simp_all add: filled_row_def row_len_def)
  define step_result where "step_result =
    do { assert_that (length xs < columns);
         r \<leftarrow> row_index_mut (length xs) (stored_cell cs fg style None) (filled_row columns xs);
         (if w = 2 then
            do { r \<leftarrow> row_index_mut (length xs) (insert_flag F_WIDE_CHAR) r;
                 row_index_mut (length xs + 1) (insert_flag F_WIDE_CHAR_SPACER) r }
          else Some r) }"
  have step_result: "step_result = (if length xs + w \<le> columns then Some (filled_row columns (xs @ render_cells g)) else None)"
  proof (cases "length xs < columns")
    case room: True
    have r1: "row_index_mut (length xs) (stored_cell cs fg style None) (filled_row columns xs) =
        Some (filled_row columns (xs @ [?c]))"
      by (rule filled_row_snoc [OF room])
    have r2: "row_index_mut (length xs) (insert_flag F_WIDE_CHAR) (filled_row columns (xs @ [?c])) =
        Some (filled_row columns (xs @ [insert_flag F_WIDE_CHAR ?c]))"
      by (rule filled_row_last [OF room])
    have r3: "row_index_mut (length xs + 1) (insert_flag F_WIDE_CHAR_SPACER)
        (filled_row columns (xs @ [insert_flag F_WIDE_CHAR ?c])) =
        (if length xs + 2 \<le> columns
         then Some (filled_row columns (xs @ [insert_flag F_WIDE_CHAR ?c, spacer_cell])) else None)"
    proof (cases "length xs + 2 \<le> columns")
      case True
      then show ?thesis
        using filled_row_snoc [of "xs @ [insert_flag F_WIDE_CHAR ?c]" columns "insert_flag F_WIDE_CHAR_SPACER"]
        by (simp add: spacer_cell_def)
    next
      case False
      then show ?thesis using room by (simp add: row_index_mut_def map_range_def filled_row_def)
    qed
    show ?thesis
      using ok(4) room g by (auto simp: step_result_def r1 r2 r3 [simplified] Let_def)
  next
    case False
    then show ?thesis using ok(4) by (auto simp: step_result_def)
  qed
  have run: "read_graphemes fs (map stored_info (g # gs)) offset fi bi (filled_row columns xs) =
      Option.bind step_result (read_graphemes fs (map stored_info gs) (offset + str_len cs)
        (snd (iter_nth ?n fi)) (snd (iter_nth ?n bi)))"
    using bytes ok len assms(4)
    by (auto simp: g step_result_def occ fg [unfolded One_nat_def] decode_str_bytes starts_new_row_def
        new_from_str_and_info_def grapheme_len_def grapheme_chars_def usub_def assert_that_def Let_def)
  have "length (xs @ render_cells g) = length xs + w" "stored_len g = str_len cs"
    using cells g by (simp_all add: stored_len_def)
  then show ?thesis
    using its unfolding run
    by (intro exI [of _ "snd (iter_nth ?n fi)"] exI [of _ "snd (iter_nth ?n bi)"] conjI)
      (simp_all add: step_result)
qed

text \<open>What the reader sees of a row: it stops at a line break.\<close>

definition visible_part :: "stored list \<Rightarrow> stored list" where
  "visible_part gs = takeWhile (\<lambda>g. fst g \<noteq> [0xA]) gs"

lemma read_graphemes_run:
  assumes "all_stored_at fs offset gs" and "list_all stored_ok gs" and "fs_marker fs = None"
    and "iter_ok (fs_fg fs) fi" "it_offset fi = offset" and "iter_ok (fs_bg fs) bi" "it_offset bi = offset"
    and "length xs \<le> columns"
  shows "read_graphemes fs (map stored_info gs) offset fi bi (filled_row columns xs) =
           (if length (xs @ rendered (visible_part gs)) \<le> columns
            then Some (filled_row columns (xs @ rendered (visible_part gs))) else None)"
  using assms
proof (induction gs arbitrary: offset fi bi xs)
  case Nil
  then show ?case by (simp add: visible_part_def)
next
  case (Cons g gs)
  have g: "stored_at fs offset g" "stored_ok g" using Cons.prems(1,2) by simp_all
  show ?case
  proof (cases "fst g = [0xA]")
    case True
    then have bytes: "content_index offset (offset + utf8_bytes (stored_info g)) (fs_content fs) = Some (str_bytes [0xA])"
      using g by (cases g) (simp add: holds_def length_str_bytes)
    have "decode_utf8 (str_bytes [0xA]) = [0xA]"
      by (rule decode_str_bytes) (simp add: scalar_values_def)
    with bytes True Cons.prems(8) show ?thesis
      by (simp add: visible_part_def starts_new_row_def new_from_str_and_info_def Let_def)
  next
    case False
    obtain fi' bi' where its: "iter_ok (fs_fg fs) fi'" "it_offset fi' = offset + stored_len g"
        "iter_ok (fs_bg fs) bi'" "it_offset bi' = offset + stored_len g" and
      step: "read_graphemes fs (map stored_info (g # gs)) offset fi bi (filled_row columns xs) =
               (if length (xs @ render_cells g) \<le> columns then
                  read_graphemes fs (map stored_info gs) (offset + stored_len g) fi' bi'
                    (filled_row columns (xs @ render_cells g))
                else None)"
      using read_graphemes_step [OF g False Cons.prems(3-8)] by blast
    have part: "visible_part (g # gs) = g # visible_part gs" using False by (simp add: visible_part_def)
    show ?thesis
    proof (cases "length (xs @ render_cells g) \<le> columns")
      case True
      have "all_stored_at fs (offset + stored_len g) gs" "list_all stored_ok gs" using Cons.prems(1,2) by simp_all
      from Cons.IH [OF this Cons.prems(3) its True] True step part show ?thesis by simp
    next
      case False
      with step part show ?thesis by (simp del: read_graphemes.simps)
    qed
  qed
qed

end
