(* ===== verification/Flat_Correct.thy ===== *)
theory Flat_Correct
  imports Flat_Storage
begin

text \<open>
  What the scrollback promises: rows that are stored are read back as they were, up to what the
  format does not keep (\<open>norm_row\<close>), the oldest rows beyond the limit are dropped and counted, and
  popping takes the newest rows off again. The theorems are over whole histories of the operations of
  \<^verbatim>\<open>crates/warp_terminal/src/model/grid/flat_storage/mod.rs\<close>.
\<close>

section \<open>What is kept of a row\<close>

text \<open>
  Of a cell: its characters, colors, styles and width; a spacer keeps its role only. The cells at
  and after the dirty counter are not looked at; a wrapped row is marked on its last cell.
\<close>

definition norm_cell :: "cell \<Rightarrow> cell" where
  "norm_cell c =
    (if is_spacer c then
       (if flags_intersects (cell_flags c) F_LEADING_WIDE_CHAR_SPACER then default_cell else spacer_cell)
     else
       \<lparr>cell_c = cell_c c, cell_fg = cell_fg c, cell_bg = cell_bg c,
        cell_flags = (cell_flags c AND STYLE_MASK) OR (if is_wide c then F_WIDE_CHAR else 0),
        cell_extra = (case content_with_zerowidth c of
                        None \<Rightarrow> None
                      | Some s \<Rightarrow> Some \<lparr>cell_with_zero_width = Some s, end_of_prompt = None\<rparr>)\<rparr>)"

definition finish_row :: "bool \<Rightarrow> bool \<Rightarrow> cell list \<Rightarrow> cell list" where
  "finish_row soft leading cs =
    (let cs = (if soft then on_last (insert_flag F_WRAPLINE) cs else cs)
     in if leading then on_last (insert_flag F_LEADING_WIDE_CHAR_SPACER) cs else cs)"

definition norm_row :: "nat \<Rightarrow> row \<Rightarrow> cell list" where
  "norm_row columns r =
    (let cells = take (row_occ r) (row_inner r)
     in finish_row (row_soft columns r) (leading_of cells)
          (map norm_cell cells @ replicate (columns - length cells) default_cell))"

definition shown :: "stored list \<Rightarrow> cell list" where
  "shown gs = rendered (visible_part gs)"

definition render_row :: "nat \<Rightarrow> stored_row \<Rightarrow> cell list" where
  "render_row columns r =
    finish_row (\<not> fst (snd r)) (snd (snd r))
      (let cs = shown (fst r) in cs @ replicate (columns - length cs) default_cell)"

lemma push_zerowidth_fold:
  assumes "cell_extra c = Some \<lparr>cell_with_zero_width = Some s, end_of_prompt = None\<rparr>"
    and "cell_c c \<noteq> DEFAULT_CHAR" and "str_len (s @ zs) \<le> MAX_GRAPHEME_BYTES"
  shows "fold push_zerowidth zs c =
           c\<lparr>cell_extra := Some \<lparr>cell_with_zero_width = Some (s @ zs), end_of_prompt = None\<rparr>\<rparr>"
  using assms
proof (induction zs arbitrary: c s)
  case (Cons z zs)
  let ?c = "c\<lparr>cell_extra := Some \<lparr>cell_with_zero_width = Some (s @ [z]), end_of_prompt = None\<rparr>\<rparr>"
  have "push_zerowidth z c = ?c"
    using Cons.prems by (simp add: push_zerowidth_def Let_def str_len_def)
  then show ?case
    using Cons.IH [of ?c "s @ [z]"] Cons.prems by simp
qed simp

lemma stored_cell_of:
  assumes "cell_pushable c" and "\<not> is_spacer c"
  shows "render_cells (stored_of c) = norm_cell c # (if is_wide c then [spacer_cell] else [])"
proof (cases "content_with_zerowidth c")
  case None
  then show ?thesis
    using assms(2) by (auto simp: stored_of_def raw_content_def content_chars_def stored_cell_def norm_cell_def
        default_cell_def bg_and_style_from_def insert_flag_def flags_insert_def)
next
  case (Some s)
  then obtain z zs where s: "s = cell_c c # z # zs" "cell_c c \<noteq> DEFAULT_CHAR" "str_len s \<le> MAX_GRAPHEME_BYTES"
    using assms(1) by (auto simp: cell_pushable_def)
  let ?c = "default_cell\<lparr>cell_c := cell_c c\<rparr>"
  have "push_zerowidth z ?c =
      ?c\<lparr>cell_extra := Some \<lparr>cell_with_zero_width = Some [cell_c c, z], end_of_prompt = None\<rparr>\<rparr>"
    using s(2) by (simp add: push_zerowidth_def default_cell_def default_extra_def)
  then have "fold push_zerowidth (z # zs) ?c =
      ?c\<lparr>cell_extra := Some \<lparr>cell_with_zero_width = Some s, end_of_prompt = None\<rparr>\<rparr>"
    using push_zerowidth_fold [of "push_zerowidth z ?c" "[cell_c c, z]" zs] s by simp
  then show ?thesis
    using assms(2) Some s(1)
    by (auto simp: stored_of_def raw_content_def content_chars_def stored_cell_def norm_cell_def
        default_cell_def bg_and_style_from_def insert_flag_def flags_insert_def)
qed

lemma norm_skipped:
  assumes "cell_pushable c" "\<not> is_spacer c" "\<not> needs_storing fg bg c"
  shows "norm_cell c = default_cell" "fg = Named NC_Foreground" "bg = default_bg_and_style"
proof -
  have c: "cell_is_empty c" "cell_fg c = fg" "bg_and_style_from c = bg"
    using assms(3) by (auto simp: needs_storing_def)
  then have s: "cell_flags c AND STYLE_MASK = 0" "\<not> is_wide c" "content_with_zerowidth c = None"
    using assms(1) by (auto simp: cell_pushable_def cell_is_empty_def split: option.splits)
  with c show "norm_cell c = default_cell" "fg = Named NC_Foreground" "bg = default_bg_and_style"
    using assms(2) by (auto simp: norm_cell_def cell_is_empty_def default_cell_def bg_and_style_from_def
        default_bg_and_style_def)
qed

lemma render_blank:
  "render_cells (blank_stored (Named NC_Foreground) default_bg_and_style) = [default_cell]"
  by (simp add: blank_stored_def stored_cell_def default_cell_def default_bg_and_style_def)

text \<open>Reading what is stored for a row gives the normalised row; what is not stored is blank.\<close>

definition pad :: "nat \<Rightarrow> cell list \<Rightarrow> cell list" where
  "pad n cs = cs @ replicate (n - length cs) default_cell"

lemma pad_append: "pad (length xs + n) (xs @ cs) = xs @ pad n cs"
  by (simp add: pad_def)

lemma store_cells_rendered:
  assumes "cells_storable cs"
    and "0 < pending \<Longrightarrow> fg = Named NC_Foreground \<and> bg = default_bg_and_style"
  shows "length (rendered (store_cells fg bg pending cs)) \<le> pending + length cs \<and>
         pad (pending + length cs) (rendered (store_cells fg bg pending cs)) =
           replicate pending default_cell @ map norm_cell cs"
  using assms
proof (induction cs arbitrary: fg bg pending rule: cells_storable.induct)
  case 1
  then show ?case by (simp add: pad_def)
next
  case (2 c cs)
  have blanks: "rendered (replicate pending (blank_stored fg bg)) = replicate pending default_cell"
    using "2.prems"(2) by (cases "pending = 0") (simp_all add: rendered_def render_blank concat_replicate_single)
  show ?case
  proof (cases "is_spacer c")
    case True
    with "2.prems" show ?thesis
      by (auto simp: pad_def norm_cell_def is_spacer_iff replicate_append_same)
  next
    case False
    then have ok: "cell_pushable c" using "2.prems"(1) by (simp add: cell_storable_def)
    show ?thesis
    proof (cases "needs_storing fg bg c")
      case store: True
      show ?thesis
      proof (cases "is_wide c")
        case wide: True
        then obtain d ds where cs: "cs = d # ds" "is_spacer d" "cells_storable ds"
            "\<not> flags_intersects (cell_flags d) F_LEADING_WIDE_CHAR_SPACER"
          using "2.prems"(1) False by (auto split: list.splits)
        have d: "norm_cell d = spacer_cell" using cs by (simp add: norm_cell_def)
        have IH: "length (rendered (store_cells (cell_fg c) (bg_and_style_from c) 0 ds)) \<le> length ds"
          "pad (length ds) (rendered (store_cells (cell_fg c) (bg_and_style_from c) 0 ds)) = map norm_cell ds"
          using "2.IH"(1) [OF False wide cs(1,3), of 0] by auto
        let ?xs = "replicate pending default_cell @ [norm_cell c, spacer_cell]"
        have "rendered (store_cells fg bg pending (c # cs)) =
            ?xs @ rendered (store_cells (cell_fg c) (bg_and_style_from c) 0 ds)"
          using False store cs(1,2) stored_cell_of [OF ok False] wide blanks by simp
        moreover have "pending + length (c # cs) = length ?xs + length ds" using cs(1) by simp
        ultimately show ?thesis
          using IH pad_append [of ?xs "length ds"] d cs(1) by simp
      next
        case wide: False
        then have cs: "cells_storable cs" using "2.prems"(1) False by simp
        have IH: "length (rendered (store_cells (cell_fg c) (bg_and_style_from c) 0 cs)) \<le> length cs"
          "pad (length cs) (rendered (store_cells (cell_fg c) (bg_and_style_from c) 0 cs)) = map norm_cell cs"
          using "2.IH"(2) [OF False wide cs, of 0] by auto
        let ?xs = "replicate pending default_cell @ [norm_cell c]"
        have "rendered (store_cells fg bg pending (c # cs)) =
            ?xs @ rendered (store_cells (cell_fg c) (bg_and_style_from c) 0 cs)"
          using False store stored_cell_of [OF ok False] wide blanks by simp
        moreover have "pending + length (c # cs) = length ?xs + length cs" by simp
        ultimately show ?thesis
          using IH pad_append [of ?xs "length cs"] by simp
      qed
    next
      case skip: False
      then have wide: "\<not> is_wide c" using wide_needs_storing [OF ok] by blast
      then have cs: "cells_storable cs" using "2.prems"(1) False by simp
      note n = norm_skipped [OF ok False skip]
      from "2.IH"(2) [OF False wide cs, of "pending + 1" fg bg] n show ?thesis
        using False skip by (simp add: replicate_append_same [symmetric])
    qed
  qed
qed

lemma store_cells_visible:
  assumes "\<forall>c \<in> set cs. is_spacer c \<or> fst (stored_of c) \<noteq> [0xA]"
  shows "visible_part (store_cells fg bg pending cs) = store_cells fg bg pending cs"
proof -
  have "list_all (\<lambda>g. fst g \<noteq> [0xA]) (store_cells fg bg pending cs)"
    using assms
    by (induction fg bg pending cs rule: store_cells.induct)
      (auto simp: list_all_iff blank_stored_def DEFAULT_CHAR_def)
  then show ?thesis by (simp add: visible_part_def list_all_iff)
qed

lemma storable_no_break: "cells_storable cs \<Longrightarrow> c \<in> set cs \<Longrightarrow> is_spacer c \<or> fst (stored_of c) \<noteq> [0xA]"
proof (induction cs rule: cells_storable.induct)
  case (2 d cs)
  have "fst (stored_of d) \<noteq> [0xA]" if "cell_storable d"
    using that by (auto simp: cell_storable_def cell_pushable_def stored_of_def raw_content_def content_chars_def
        split: option.splits)
  with 2 show ?case by (auto split: if_splits list.splits)
qed simp

lemma render_row_stored:
  assumes "row_storable columns r"
    and "cells_storable (take (row_occ r) (row_inner r))"
  shows "length (shown (fst (row_stored columns fg bg r))) \<le> columns"
    and "render_row columns (row_stored columns fg bg r) = norm_row columns r"
proof -
  let ?cells = "take (row_occ r) (row_inner r)"
  let ?out = "rendered (store_cells fg bg 0 ?cells)"
  note r = assms(1) [unfolded row_storable_def row_len_def]
  have s: "length ?out \<le> length ?cells" "pad (length ?cells) ?out = map norm_cell ?cells"
    using store_cells_rendered [OF assms(2), of 0 fg bg] by auto
  have shown: "shown (fst (row_stored columns fg bg r)) = ?out"
    using store_cells_visible [of ?cells fg bg 0] storable_no_break [OF assms(2)]
    by (simp add: shown_def row_stored_def Let_def)
  have len: "length ?cells \<le> columns" using r by simp
  from le_trans [OF s(1) this] show "length (shown (fst (row_stored columns fg bg r))) \<le> columns"
    unfolding shown .
  have "?out @ replicate (columns - length ?out) default_cell =
      pad (length ?cells) ?out @ replicate (columns - length ?cells) default_cell"
    using s(1) len by (simp add: pad_def replicate_add [symmetric])
  then show "render_row columns (row_stored columns fg bg r) = norm_row columns r"
    unfolding render_row_def shown Let_def
    by (simp add: row_stored_def norm_row_def Let_def s(2) del: length_take)
qed

section \<open>Reading rows\<close>

definition rows_fit :: "nat \<Rightarrow> stored_row list \<Rightarrow> bool" where
  "rows_fit columns rs \<longleftrightarrow> list_all (\<lambda>r. length (shown (fst r)) \<le> columns) rs"

lemma rows_stored_at_nth:
  "rows_stored_at fs base rs \<Longrightarrow> k < length rs \<Longrightarrow>
     all_stored_at fs (base + lines_bytes (map row_line (take k rs))) (fst (rs ! k))"
proof (induction rs arbitrary: base k)
  case (Cons r rs)
  show ?case
  proof (cases k)
    case (Suc j)
    with Cons.prems Cons.IH [of "base + line_bytes (row_line r)" j] show ?thesis by (simp add: add.assoc)
  qed (use Cons.prems in simp)
qed simp

lemma last_mut_on_last: "row_inner r \<noteq> [] \<Longrightarrow> row_inner (row_last_mut f r) = on_last f (row_inner r)"
  by (simp add: row_last_mut_def on_last_def)

lemma filled_row_wf: "length cs \<le> columns \<Longrightarrow> row_wf (filled_row columns cs)"
  by (auto simp: row_wf_iff filled_row_def default_cell_eq)

lemma read_row_run:
  assumes flat: "flat_reads columns base rs fs" and k: "k < length rs"
    and r: "row_wf r" "row_len r = columns" "1 \<le> columns"
  shows "read_row fs k r =
           (if length (shown (fst (rs ! k))) \<le> columns then
              (let r1 = filled_row columns (shown (fst (rs ! k)));
                   r2 = (if fst (snd (rs ! k)) then r1 else row_last_mut (insert_flag F_WRAPLINE) r1)
               in Some (Some (if snd (snd (rs ! k))
                              then row_last_mut (insert_flag F_LEADING_WIDE_CHAR_SPACER) r2 else r2)))
            else None)"
proof -
  let ?gs = "fst (rs ! k)" and ?start = "base + lines_bytes (map row_line (take k rs))"
  note f = flat [unfolded flat_reads_def]
  have index: "index_is base (map row_line rs) (fs_index fs)" and k': "k < length (map row_line rs)"
    using f k by simp_all
  have range: "content_range_for_row k (fs_index fs) =
      Some (?start, base + lines_bytes (map row_line (take (Suc k) rs)))"
    using content_range_for_row_is [OF index k'] by (simp add: take_map)
  have infos: "grapheme_infos_for_row k (fs_index fs) = Some (map stored_info ?gs)"
    using grapheme_infos_for_row_is [OF index k'] k by (simp add: row_line_def)
  obtain e where e: "get_entry k (fs_index fs) = Some e" "e_newline e = fst (snd (rs ! k))"
      "e_leading e = snd (snd (rs ! k))"
    using rows_are_offset [of "ix_sizing (fs_index fs)" base "map row_line rs" "ix_rows (fs_index fs)" k]
      rows_are_length [of "ix_sizing (fs_index fs)" base "map row_line rs" "ix_rows (fs_index fs)"] index k
    by (auto simp: get_entry_def index_is_def row_line_def)
  have reset: "row_reset default_cell r = Some (filled_row columns [])"
  proof -
    have "row_inner r \<noteq> []" using r(2,3) by (auto simp: row_len_def)
    from row_reset_correct [OF r(1) this, of default_cell] r(2) show ?thesis
      by (simp add: blank_row_def filled_row_def default_cell_def cell_from_color_def)
  qed
  have read: "read_graphemes fs (map stored_info ?gs) ?start (iter_from (fs_fg fs) ?start)
      (iter_from (fs_bg fs) ?start) (filled_row columns []) =
        (if length (shown ?gs) \<le> columns then Some (filled_row columns (shown ?gs)) else None)"
  proof -
    have *: "all_stored_at fs ?start ?gs" "list_all stored_ok ?gs" "fs_marker fs = None"
      using rows_stored_at_nth [of fs base rs k] f k by (simp_all add: list_all_length)
    have off: "it_offset (iter_from m ?start) = ?start" for m :: "'b attribute_map"
      by (simp add: iter_from_def Let_def)
    show ?thesis
      using read_graphemes_run [OF * iter_from_ok off iter_from_ok off, of "[]" columns] by (simp add: shown_def)
  qed
  have "row_inner (filled_row columns (shown ?gs)) \<noteq> []"
    using r(3) by (simp add: filled_row_def)
  then show ?thesis
    using range reset infos read e by (simp add: read_row_def Let_def)
qed

lemma read_row_ok:
  assumes flat: "flat_reads columns base rs fs" and k: "k < length rs" and "rows_fit columns rs"
    and r: "row_wf r" "row_len r = columns" "1 \<le> columns"
  shows "\<exists>r'. read_row fs k r = Some (Some r') \<and> row_inner r' = render_row columns (rs ! k) \<and>
           row_wf r' \<and> row_len r' = columns"
proof -
  let ?gs = "fst (rs ! k)"
  have fit: "length (shown ?gs) \<le> columns"
    using assms(3) k by (simp add: rows_fit_def list_all_length)
  let ?newline = "fst (snd (rs ! k))" and ?leading = "snd (snd (rs ! k))"
  define r1 where "r1 = filled_row columns (shown ?gs)"
  define r2 where "r2 = (if ?newline then r1 else row_last_mut (insert_flag F_WRAPLINE) r1)"
  define r3 where "r3 = (if ?leading then row_last_mut (insert_flag F_LEADING_WIDE_CHAR_SPACER) r2 else r2)"
  have r1: "row_inner r1 = shown ?gs @ replicate (columns - length (shown ?gs)) default_cell"
      "row_inner r1 \<noteq> []" "row_wf r1"
    using fit r(3) filled_row_wf by (auto simp: r1_def filled_row_def)
  have r2: "row_inner r2 = (if ?newline then row_inner r1 else on_last (insert_flag F_WRAPLINE) (row_inner r1))"
      "row_inner r2 \<noteq> []" "row_wf r2"
    using r1(2,3) by (simp_all add: r2_def last_mut_on_last row_last_mut_wf on_last_def)
  have r3: "row_inner r3 = render_row columns (rs ! k)" "row_wf r3"
    using r1(1) r2
    by (simp_all add: r3_def last_mut_on_last row_last_mut_wf render_row_def finish_row_def Let_def)
  have len: "length (row_inner r3) = length (row_inner r1)"
    using r1(2) r2(2) by (auto simp: r3_def r2_def row_last_mut_def)
  have "read_row fs k r = Some (Some r3)"
    using read_row_run [OF flat k r] fit by (simp add: r1_def r2_def r3_def Let_def)
  moreover have "row_len r3 = columns" using len r1(1) fit by (simp add: row_len_def)
  ultimately show ?thesis using r3 by blast
qed

lemma read_rows_ok:
  assumes flat: "flat_reads columns base rs fs" and fit: "rows_fit columns rs"
    and "list_all (\<lambda>k. k < length rs) ks" and "row_wf r" "row_len r = columns" "1 \<le> columns"
  shows "\<exists>out. read_rows fs ks r = Some out \<and> map row_inner out = map (\<lambda>k. render_row columns (rs ! k)) ks"
  using assms(3-)
proof (induction ks arbitrary: r)
  case (Cons k ks)
  then obtain r' where r': "read_row fs k r = Some (Some r')" "row_inner r' = render_row columns (rs ! k)"
      "row_wf r'" "row_len r' = columns"
    using read_row_ok [OF flat _ fit, of k r] by auto
  then obtain out where "read_rows fs ks r' = Some out"
      "map row_inner out = map (\<lambda>k. render_row columns (rs ! k)) ks"
    using Cons.IH [of r'] Cons.prems by auto
  with r' show ?case by simp
qed simp

lemma flat_total_rows_is: "flat_reads columns base rs fs \<Longrightarrow> flat_total_rows fs = length rs"
  using rows_are_length [of "ix_sizing (fs_index fs)" base "map row_line rs" "ix_rows (fs_index fs)"]
  by (simp add: flat_reads_def index_is_def flat_total_rows_def)

lemma rows_from_ok:
  assumes flat: "flat_reads columns base rs fs" and "rows_fit columns rs" and "1 \<le> columns"
  shows "\<exists>out. rows_from start fs = Some out \<and> map row_inner out = map (render_row columns) (drop start rs)"
proof -
  let ?r = "\<lparr>row_inner = replicate columns default_cell, row_occ = 0\<rparr>"
  have n: "flat_total_rows fs = length rs" and cols: "fs_columns fs = columns"
    using flat flat_total_rows_is by (auto simp: flat_reads_def)
  have "row_wf ?r" "row_len ?r = columns"
    using filled_row_wf [of "[]" columns] by (simp_all add: filled_row_def row_len_def)
  then obtain out where out: "read_rows fs [start..<length rs] ?r = Some out"
      "map row_inner out = map (\<lambda>k. render_row columns (rs ! k)) [start..<length rs]"
    using read_rows_ok [OF assms(1,2), of "[start..<length rs]" ?r] assms(3) by (auto simp: list_all_iff)
  moreover have "map (\<lambda>k. render_row columns (rs ! k)) [start..<length rs] =
      map (render_row columns) (drop start rs)"
    by (rule nth_equalityI) simp_all
  ultimately show ?thesis
    using row_new_Some [OF assms(3)] by (simp add: rows_from_def n cols)
qed

section \<open>Dropping rows\<close>

lemma rows_stored_at_cong:
  assumes "rows_stored_at fs a rs" and "base \<le> a"
    and "\<And>a bs. base \<le> a \<Longrightarrow> holds (fs_content fs) a bs \<Longrightarrow> holds (fs_content fs') a bs"
    and "\<And>a. base \<le> a \<Longrightarrow> attr_at (fs_fg fs') a = attr_at (fs_fg fs) a \<and> attr_at (fs_bg fs') a = attr_at (fs_bg fs) a"
  shows "rows_stored_at fs' a rs"
proof -
  have "keeps_below base (a + lines_bytes (map row_line rs)) fs fs'"
    using assms(3,4) by (simp add: keeps_below_def)
  from rows_stored_at_keeps [OF assms(1) this assms(2)] show ?thesis by simp
qed

lemma truncate_rows_front_ok:
  assumes "flat_is columns base rs fs"
  shows "\<exists>base'. flat_is columns base' (drop k rs) (truncate_rows_front k fs) \<and>
           base' = base + lines_bytes (map row_line (take k rs)) \<and>
           fs_truncated (truncate_rows_front k fs) = fs_truncated fs + min k (length rs) \<and>
           fs_max_rows (truncate_rows_front k fs) = fs_max_rows fs"
proof (cases "k = 0")
  case True
  with assms show ?thesis by (auto simp: truncate_rows_front_def)
next
  case False
  note f = assms [unfolded flat_is_def flat_reads_def closed_attributes_def]
  have total: "flat_total_rows fs = length rs"
    using assms flat_total_rows_is by (auto simp: flat_is_def)
  define j where "j = min k (length rs)"
  have drop: "drop j rs = drop k rs" "take j rs = take k rs" by (auto simp: j_def min_def)
  let ?r = "index_truncate_front j (fs_index fs)"
  let ?n = "base + lines_bytes (map row_line (take j rs))"
  have index: "index_is base (map row_line rs) (fs_index fs)" using f by simp
  have n: "fst ?r = ?n" and ix: "index_is ?n (map row_line (drop j rs)) (snd ?r)"
    using index_truncate_front_is [OF index, of j] by (simp_all add: take_map drop_map)
  have len: "ix_content_len (snd ?r) = end_offset (fs_content fs)"
    using f by (simp add: index_truncate_front_def Let_def)
  have le: "?n \<le> end_offset (fs_content fs)"
    using ix len by (simp add: index_is_def)
  define fs' where "fs' = truncate_rows_front k fs"
  have fs': "fs' = fs\<lparr>fs_index := snd ?r, fs_content := content_truncate_front ?n (fs_content fs),
      fs_fg := am_truncate_front ?n (fs_fg fs), fs_bg := am_truncate_front ?n (fs_bg fs),
      fs_truncated := fs_truncated fs + j\<rparr>"
    using False by (simp add: fs'_def truncate_rows_front_def total j_def [symmetric] n Let_def)
  have c: "content_wf (fs_content fs')" "end_offset (fs_content fs') = end_offset (fs_content fs)"
      "content_start (fs_content fs') \<le> ?n"
      "\<And>a bs. ?n \<le> a \<Longrightarrow> holds (fs_content fs) a bs \<Longrightarrow> holds (fs_content fs') a bs"
    using content_truncate_front_ok [of "fs_content fs" ?n] f le by (auto simp: fs')
  have attrs: "attr_at (fs_fg fs') a = attr_at (fs_fg fs) a \<and> attr_at (fs_bg fs') a = attr_at (fs_bg fs) a"
    if "?n \<le> a" for a
    using am_truncate_front_ok(3) [of "fs_fg fs" base "end_offset (fs_content fs)" ?n a]
      am_truncate_front_ok(3) [of "fs_bg fs" base "end_offset (fs_content fs)" ?n a] that f
    by (simp add: fs')
  have "rows_stored_at fs ?n (drop j rs)"
  proof -
    have "rows_stored_at fs base (take j rs @ drop j rs)" using f by simp
    then show ?thesis unfolding rows_stored_at_append by simp
  qed
  then have rows: "rows_stored_at fs' ?n (drop j rs)"
    by (rule rows_stored_at_cong [OF _ order_refl c(4) attrs])
  have "list_all (\<lambda>r. list_all stored_ok (fst r)) (drop j rs)"
    using f by (meson in_set_dropD list_all_iff)
  then have "flat_reads columns ?n (drop j rs) fs'"
    using c(1-3) f rows ix len by (simp add: flat_reads_def fs')
  moreover have "closed_attributes ?n fs'"
    using c(2) f
      am_ok_mono [OF am_truncate_front_ok(1) [of "fs_fg fs" base "end_offset (fs_content fs)" ?n], of ?n]
      am_ok_mono [OF am_truncate_front_ok(1) [of "fs_bg fs" base "end_offset (fs_content fs)" ?n], of ?n]
    by (simp add: closed_attributes_def fs')
  ultimately show ?thesis
    unfolding fs'_def [symmetric] drop [symmetric] by (auto simp: flat_is_def fs' j_def)
qed

text \<open>Cutting off the newest rows leaves a storage that reads as before.\<close>

lemma flat_truncate_ok:
  assumes "flat_is columns base rs fs"
  shows "\<exists>fs'. flat_truncate k fs = Some fs' \<and> flat_reads columns base (take k rs) fs' \<and>
           (k = 0 \<longrightarrow> flat_is columns base [] fs') \<and>
           fs_max_rows fs' = fs_max_rows fs \<and> fs_truncated fs' = fs_truncated fs"
proof -
  note f = assms [unfolded flat_is_def flat_reads_def closed_attributes_def]
  let ?n = "base + lines_bytes (map row_line (take k rs))"
  let ?r = "index_truncate k (fs_index fs)"
  have index: "index_is base (map row_line rs) (fs_index fs)" using f by simp
  have r: "index_is base (map row_line (take k rs)) (snd ?r)" "fst ?r = ?n" "ix_content_len (snd ?r) = ?n"
    using index_truncate_is [OF index, of k] by (simp_all add: take_map)
  have le: "?n \<le> end_offset (fs_content fs)"
  proof -
    have "rs = take k rs @ drop k rs" by simp
    then have "lines_bytes (map row_line rs) =
        lines_bytes (map row_line (take k rs)) + lines_bytes (map row_line (drop k rs))"
      by (metis lines_bytes_simps(3) map_append)
    then show ?thesis using f by (simp add: index_is_def)
  qed
  have "content_start (fs_content fs) \<le> ?n" using f by simp
  then obtain c where c: "content_truncate ?n (fs_content fs) = Some c" "content_wf c" "end_offset c = ?n"
      "content_start c = content_start (fs_content fs)"
      "\<forall>a bs. holds (fs_content fs) a bs \<longrightarrow> a + length bs \<le> ?n \<longrightarrow> holds c a bs"
    using content_truncate_ok [of "fs_content fs" ?n] f le by blast
  define fs' where "fs' = fs\<lparr>fs_index := snd ?r, fs_content := c,
      fs_fg := am_truncate ?n (fs_fg fs), fs_bg := am_truncate ?n (fs_bg fs), fs_marker := None\<rparr>"
  have run: "flat_truncate k fs = Some fs'"
    using f c(1) r(2) by (simp add: flat_truncate_def fs'_def Let_def)
  have "keeps_below base ?n fs fs'"
    using c(5) f am_truncate_at [of "fs_fg fs" base "end_offset (fs_content fs)" _ ?n]
      am_truncate_at [of "fs_bg fs" base "end_offset (fs_content fs)" _ ?n]
    by (simp add: keeps_below_def fs'_def)
  moreover have "rows_stored_at fs base (take k rs)"
  proof -
    have "rows_stored_at fs base (take k rs @ drop k rs)" using f by simp
    then show ?thesis unfolding rows_stored_at_append by simp
  qed
  ultimately have rows: "rows_stored_at fs' base (take k rs)"
    using rows_stored_at_keeps by blast
  have "list_all (\<lambda>r. list_all stored_ok (fst r)) (take k rs)"
    using f by (meson in_set_takeD list_all_iff)
  then have reads: "flat_reads columns base (take k rs) fs'"
    using c f rows r by (simp add: flat_reads_def fs'_def)
  moreover have "closed_attributes base fs'" if "k = 0"
    using f c(3) that am_clear_ok [of "fs_fg fs" base "end_offset (fs_content fs)"]
      am_clear_ok [of "fs_bg fs" base "end_offset (fs_content fs)"]
    by (simp add: closed_attributes_def fs'_def)
  ultimately show ?thesis
    using run f by (auto simp: flat_is_def fs'_def)
qed

section \<open>Histories\<close>

text \<open>The storage holds rows of cells: reading it yields them, and it can be extended.\<close>

definition flat_holds :: "nat \<Rightarrow> cell list list \<Rightarrow> flat_storage \<Rightarrow> bool" where
  "flat_holds columns rows fs \<longleftrightarrow>
     (\<exists>base rs. flat_is columns base rs fs \<and> rows_fit columns rs \<and> map (render_row columns) rs = rows)"

definition keep_last :: "nat \<Rightarrow> 'a list \<Rightarrow> 'a list" where
  "keep_last n xs = drop (length xs - n) xs"

lemma keep_last_append: "keep_last n (keep_last n xs @ ys) = keep_last n (xs @ ys)"
  by (cases "n \<le> length xs") (simp_all add: keep_last_def add.commute)

lemma length_keep_last: "length (keep_last n xs) = min n (length xs)"
  by (simp add: keep_last_def)

lemma flat_new_is: "flat_is columns 0 [] (flat_new columns m)"
  using content_new_wf
  by (simp add: flat_is_def flat_reads_def closed_attributes_def flat_new_def index_is_def index_new_def)

lemma flat_new_holds: "flat_holds columns [] (flat_new columns m)"
  using flat_new_is [of columns m] by (auto simp: flat_holds_def rows_fit_def)

lemma holds_read:
  assumes "flat_holds columns rows fs" and "1 \<le> columns"
  shows "\<exists>out. rows_from start fs = Some out \<and> map row_inner out = drop start rows"
  using assms rows_from_ok by (fastforce simp: flat_holds_def flat_is_def drop_map)

lemma push_rows_holds:
  assumes "flat_holds columns old fs" and "list_all (row_storable columns) rows"
    and cols: "1 \<le> columns" "columns < 2 ^ 16"
  shows "\<exists>fs'. push_rows_without_truncation rows fs = Some fs' \<and>
           flat_holds columns (old @ map (norm_row columns) rows) fs' \<and>
           fs_max_rows fs' = fs_max_rows fs \<and> fs_truncated fs' = fs_truncated fs"
proof -
  have "\<exists>fs' fg bg. fold_panics push_row rows (fs, am_tail (fs_fg fs), am_tail (fs_bg fs)) = Some (fs', fg, bg) \<and>
      flat_holds columns (old @ map (norm_row columns) rows) fs' \<and>
      fs_max_rows fs' = fs_max_rows fs \<and> fs_truncated fs' = fs_truncated fs"
    using assms(1,2)
  proof (induction rows arbitrary: old fs)
    case (Cons r rows)
    obtain base rs where fs: "flat_is columns base rs fs" "rows_fit columns rs"
        "map (render_row columns) rs = old"
      using Cons.prems(1) by (auto simp: flat_holds_def)
    have r: "row_storable columns r" using Cons.prems(2) by simp
    let ?r = "row_stored columns (am_tail (fs_fg fs)) (am_tail (fs_bg fs)) r"
    obtain fs1 where fs1: "push_row r (fs, am_tail (fs_fg fs), am_tail (fs_bg fs)) =
          Some (fs1, am_tail (fs_fg fs1), am_tail (fs_bg fs1))" "flat_is columns base (rs @ [?r]) fs1"
        "fs_max_rows fs1 = fs_max_rows fs" "fs_truncated fs1 = fs_truncated fs"
      using push_row_ok [OF fs(1) r cols] by blast
    have "cells_storable (take (row_occ r) (row_inner r))" using r by (simp add: row_storable_def)
    note render = render_row_stored [OF r this]
    have "flat_holds columns (old @ [norm_row columns r]) fs1"
      using fs fs1(2) render unfolding flat_holds_def
      by (intro exI [of _ base] exI [of _ "rs @ [?r]"]) (simp add: rows_fit_def)
    from Cons.IH [OF this] Cons.prems(2) fs1 show ?case by auto
  qed simp
  then show ?thesis by (auto simp: push_rows_without_truncation_def)
qed

lemma apply_max_rows_holds:
  assumes "flat_holds columns rows fs" and "fs_max_rows fs = Some m"
  shows "flat_holds columns (keep_last m rows) (apply_max_rows fs) \<and>
         fs_max_rows (apply_max_rows fs) = Some m \<and>
         fs_truncated (apply_max_rows fs) = fs_truncated fs + (length rows - m)"
proof -
  obtain base rs where fs: "flat_is columns base rs fs" "rows_fit columns rs"
      "map (render_row columns) rs = rows"
    using assms(1) by (auto simp: flat_holds_def)
  have n: "flat_total_rows fs = length rows"
    using flat_total_rows_is [of columns base rs fs] fs by (auto simp: flat_is_def)
  have len: "length rs = length rows" using fs(3) by auto
  have "apply_max_rows fs = truncate_rows_front (length rows - m) fs"
    by (simp add: apply_max_rows_def assms(2) n truncate_rows_front_def)
  moreover obtain base' where "flat_is columns base' (drop (length rows - m) rs)
        (truncate_rows_front (length rows - m) fs)"
      "fs_truncated (truncate_rows_front (length rows - m) fs) = fs_truncated fs + (length rows - m)"
      "fs_max_rows (truncate_rows_front (length rows - m) fs) = Some m"
    using truncate_rows_front_ok [OF fs(1), of "length rows - m"] assms(2) len by auto
  moreover have "rows_fit columns (drop (length rows - m) rs)"
    using fs(2) unfolding rows_fit_def by (meson in_set_dropD list_all_iff)
  moreover have "map (render_row columns) (drop (length rows - m) rs) = keep_last m rows"
    using fs(3) len by (simp add: keep_last_def flip: drop_map)
  ultimately show ?thesis unfolding flat_holds_def by auto
qed

lemma push_rows_step:
  assumes "flat_holds columns old fs" and "list_all (row_storable columns) rows"
    and "1 \<le> columns" "columns < 2 ^ 16" and "fs_max_rows fs = Some m"
  shows "\<exists>fs'. push_rows rows fs = Some fs' \<and>
           flat_holds columns (keep_last m (old @ map (norm_row columns) rows)) fs' \<and>
           fs_max_rows fs' = Some m \<and>
           fs_truncated fs' = fs_truncated fs + (length old + length rows - m)"
  using push_rows_holds [OF assms(1-4)] apply_max_rows_holds assms(5) by (fastforce simp: push_rows_def)

lemma push_batches:
  assumes "flat_holds columns old fs" and "list_all (list_all (row_storable columns)) batches"
    and cols: "1 \<le> columns" "columns < 2 ^ 16" and "fs_max_rows fs = Some m"
    and "length old \<le> m"
  shows "\<exists>fs'. fold_panics push_rows batches fs = Some fs' \<and>
           flat_holds columns (keep_last m (old @ map (norm_row columns) (concat batches))) fs' \<and>
           fs_truncated fs' = fs_truncated fs + (length old + length (concat batches) - m)"
  using assms(1,2,5,6)
proof (induction batches arbitrary: old fs)
  case Nil
  then show ?case by (simp add: keep_last_def)
next
  case (Cons rows batches)
  let ?old = "keep_last m (old @ map (norm_row columns) rows)"
  have "list_all (row_storable columns) rows" using Cons.prems(2) by simp
  from push_rows_step [OF Cons.prems(1) this cols Cons.prems(3)] obtain fs1 where
    fs1: "push_rows rows fs = Some fs1" "flat_holds columns ?old fs1" "fs_max_rows fs1 = Some m"
      "fs_truncated fs1 = fs_truncated fs + (length old + length rows - m)"
    by blast
  have len: "length ?old = min m (length old + length rows)" by (simp add: length_keep_last)
  from Cons.IH [OF fs1(2) _ fs1(3)] Cons.prems(2) len obtain fs' where
    fs': "fold_panics push_rows batches fs1 = Some fs'"
      "flat_holds columns (keep_last m (?old @ map (norm_row columns) (concat batches))) fs'"
      "fs_truncated fs' = fs_truncated fs1 + (length ?old + length (concat batches) - m)"
    by auto
  then show ?case
    using fs1(1,4) len by (auto simp: keep_last_append min_def)
qed

section \<open>Other widths\<close>

text \<open>The graphemes of a list of rows and its line breaks, without the layout.\<close>

definition row_text :: "stored_row \<Rightarrow> stored option list" where
  "row_text r = map Some (fst r) @ (if fst (snd r) then [None] else [])"

definition rows_text :: "stored_row list \<Rightarrow> stored option list" where
  "rows_text rs = concat (map row_text rs)"

fun text_at :: "flat_storage \<Rightarrow> nat \<Rightarrow> stored option list \<Rightarrow> bool" where
  "text_at fs a [] = True"
| "text_at fs a (Some g # ts) \<longleftrightarrow> stored_at fs a g \<and> text_at fs (a + stored_len g) ts"
| "text_at fs a (None # ts) \<longleftrightarrow> text_at fs (a + 1) ts"

lemma rows_text_simps [simp]: "rows_text [] = []" "rows_text (r # rs) = row_text r @ rows_text rs"
  by (simp_all add: rows_text_def)

lemma tokens_rows_text: "tokens (map row_line rs) = map (map_option stored_info) (rows_text rs)"
  by (induction rs) (auto simp: row_text_def row_line_def line_tokens_def)

lemma text_at_graphemes:
  "text_at fs a (map Some gs @ ts) \<longleftrightarrow> all_stored_at fs a gs \<and> text_at fs (a + stored_bytes gs) ts"
  by (induction gs arbitrary: a) (auto simp: add.assoc)

lemma rows_stored_at_text: "rows_stored_at fs a rs \<longleftrightarrow> text_at fs a (rows_text rs)"
proof (induction rs arbitrary: a)
  case (Cons r rs)
  then show ?case
    by (simp add: row_text_def text_at_graphemes row_line_def line_bytes_def add.assoc)
qed simp

text \<open>Lines with the sizes of a text are a layout of that text.\<close>

lemma split_text:
  "map (map_option stored_info) ts = map Some infos @ us \<Longrightarrow>
     \<exists>gs ts'. ts = map Some gs @ ts' \<and> map stored_info gs = infos \<and> map (map_option stored_info) ts' = us"
proof (induction infos arbitrary: ts)
  case (Cons i infos)
  then obtain g ts1 where ts: "ts = Some g # ts1" "stored_info g = i"
      "map (map_option stored_info) ts1 = map Some infos @ us"
    by (auto simp: map_eq_Cons_conv)
  then obtain gs ts' where "ts1 = map Some gs @ ts'" "map stored_info gs = infos"
      "map (map_option stored_info) ts' = us"
    using Cons.IH by blast
  with ts show ?case by (intro exI [of _ "g # gs"] exI [of _ ts']) simp
qed auto

lemma layout_text:
  "tokens ls = map (map_option stored_info) ts \<Longrightarrow> \<exists>rs. map row_line rs = ls \<and> rows_text rs = ts"
proof (induction ls arbitrary: ts)
  case (Cons l ls)
  obtain infos nl lead where l: "l = (infos, nl, lead)" by (cases l)
  have "map (map_option stored_info) ts = map Some infos @ ((if nl then [None] else []) @ tokens ls)"
    using Cons.prems l by (simp add: line_tokens_def)
  from split_text [OF this] obtain gs ts1 where ts1: "ts = map Some gs @ ts1" "map stored_info gs = infos"
      "map (map_option stored_info) ts1 = (if nl then [None] else []) @ tokens ls"
    by blast
  then obtain ts2 where ts2: "ts1 = (if nl then [None] else []) @ ts2"
      "map (map_option stored_info) ts2 = tokens ls"
    by (cases nl) (auto simp: map_eq_Cons_conv)
  then obtain rs where "map row_line rs = ls" "rows_text rs = ts2"
    using Cons.IH [of ts2] by auto
  moreover have "row_line (gs, nl, lead) = l" using l ts1(2) by (simp add: row_line_def)
  ultimately show ?case
    using ts1(1) ts2(1) by (intro exI [of _ "(gs, nl, lead) # rs"]) (simp add: row_text_def)
qed simp

lemma list_all_rows_text:
  "list_all (\<lambda>r. list_all P (fst r)) rs \<longleftrightarrow> list_all (\<lambda>t. case t of Some g \<Rightarrow> P g | None \<Rightarrow> True) (rows_text rs)"
proof (induction rs)
  case (Cons r rs)
  have "list_all (\<lambda>t. case t of Some g \<Rightarrow> P g | None \<Rightarrow> True) (map Some gs) \<longleftrightarrow> list_all P gs" for gs
    by (induction gs) simp_all
  then have "list_all (\<lambda>t. case t of Some g \<Rightarrow> P g | None \<Rightarrow> True) (row_text r) \<longleftrightarrow> list_all P (fst r)"
    by (simp add: row_text_def)
  with Cons show ?case by simp
qed simp

lemma length_shown: "list_all stored_ok gs \<Longrightarrow> length (shown gs) \<le> infos_cols (map stored_info gs)"
  by (induction gs) (auto simp: shown_def visible_part_def stored_ok_def Let_def)

lemma set_columns_ok:
  assumes flat: "flat_is columns base rs fs" and "rows_text rs \<noteq> []"
    and new: "2 \<le> new_columns" "new_columns < 2 ^ 16" "new_columns \<noteq> columns"
  shows "\<exists>fs' rs'. set_columns new_columns fs = Some fs' \<and> flat_is new_columns base rs' fs' \<and>
           rows_text rs' = rows_text rs \<and> rows_fit new_columns rs'"
proof -
  note f = flat [unfolded flat_is_def flat_reads_def]
  have index: "index_is base (map row_line rs) (fs_index fs)" using f by simp
  have "tokens (map row_line rs) \<noteq> []" using assms(2) by (simp add: tokens_rows_text)
  from rebuild_reflows_ok [OF index this _ new(2)] new(1) obtain ix' ls' where
    ix': "rebuild (fs_index fs) new_columns = Some ix'" "index_is base ls' ix'"
      "tokens ls' = tokens (map row_line rs)" "ix_content_len ix' = ix_content_len (fs_index fs)"
      "list_all (\<lambda>l. infos_cols (fst l) \<le> max new_columns 2) ls'"
    by auto
  obtain rs' where rs': "map row_line rs' = ls'" "rows_text rs' = rows_text rs"
    using layout_text [of ls' "rows_text rs"] ix'(3) by (auto simp: tokens_rows_text)
  let ?fs = "fs\<lparr>fs_columns := new_columns, fs_index := ix'\<rparr>"
  have same: "text_at ?fs a ts \<longleftrightarrow> text_at fs a ts" for a ts
  proof -
    have "stored_at ?fs a g \<longleftrightarrow> stored_at fs a g" for a g by (cases g) simp
    then show ?thesis by (induction fs a ts rule: text_at.induct) simp_all
  qed
  have ok: "list_all (\<lambda>r. list_all stored_ok (fst r)) rs'"
    using f rs'(2) by (simp add: list_all_rows_text)
  have "rows_stored_at ?fs base rs'"
    using f rs'(2) same by (simp add: rows_stored_at_text)
  then have "flat_is new_columns base rs' ?fs"
    using f ix'(2,4) rs'(1) ok by (simp add: flat_is_def flat_reads_def closed_attributes_def)
  moreover have "length (shown (fst r)) \<le> new_columns" if "r \<in> set rs'" for r
  proof -
    have "infos_cols (map stored_info (fst r)) \<le> new_columns"
      using ix'(5) new(1) that by (auto simp: list_all_iff row_line_def max_absorb1 simp flip: rs'(1))
    moreover have "list_all stored_ok (fst r)" using ok that by (simp add: list_all_iff)
    ultimately show ?thesis using length_shown le_trans by blast
  qed
  then have "rows_fit new_columns rs'" unfolding rows_fit_def list_all_iff by blast
  moreover have "set_columns new_columns fs = Some ?fs"
    using new(3) f ix'(1) by (simp add: set_columns_def)
  ultimately show ?thesis using rs'(2) by blast
qed

section \<open>Properties\<close>

text \<open>
  C26. The scrollback keeps exactly what it promises: whatever storable rows are pushed in whatever
  batches, no operation panics, reading the storage yields the last \<open>m\<close> rows pushed, each with its
  characters, zero-width characters, colors, styles, wide cells and line wrap as they were, and the
  number of rows dropped at the front is counted exactly.
\<close>

theorem scrollback_keeps_last_rows:
  assumes "list_all (list_all (row_storable columns)) batches"
    and "1 \<le> columns" and "columns < 2 ^ 16"
  shows "\<exists>fs out. fold_panics push_rows batches (flat_new columns (Some m)) = Some fs \<and>
           rows_from 0 fs = Some out \<and>
           map row_inner out = keep_last m (map (norm_row columns) (concat batches)) \<and>
           fs_truncated fs = length (concat batches) - m"
proof -
  obtain fs where fs: "fold_panics push_rows batches (flat_new columns (Some m)) = Some fs"
      "flat_holds columns (keep_last m (map (norm_row columns) (concat batches))) fs"
      "fs_truncated fs = length (concat batches) - m"
    using push_batches [OF flat_new_holds assms, of "Some m" m] by (auto simp: flat_new_def)
  with holds_read [OF fs(2) assms(2), of 0] show ?thesis by auto
qed

text \<open>
  C27. Popping returns the newest rows as they were stored, never panics, and leaves a storage that
  reads as the rows below them.
\<close>

theorem pop_rows_exact:
  assumes "flat_holds columns rows fs" and "1 \<le> columns"
  shows "\<exists>popped fs' rest. pop_rows count fs = Some (popped, fs') \<and>
           map row_inner popped = drop (length rows - count) rows \<and>
           rows_from 0 fs' = Some rest \<and> map row_inner rest = take (length rows - count) rows"
proof -
  obtain base rs where fs: "flat_is columns base rs fs" "rows_fit columns rs"
      "map (render_row columns) rs = rows"
    using assms(1) by (auto simp: flat_holds_def)
  have n: "flat_total_rows fs = length rows"
    using flat_total_rows_is [of columns base rs fs] fs by (auto simp: flat_is_def)
  let ?k = "length rows - count"
  obtain popped where popped: "rows_from ?k fs = Some popped" "map row_inner popped = drop ?k rows"
    using holds_read [OF assms, of ?k] by blast
  obtain fs' where fs': "flat_truncate ?k fs = Some fs'" "flat_reads columns base (take ?k rs) fs'"
    using flat_truncate_ok [OF fs(1), of ?k] by blast
  have "rows_fit columns (take ?k rs)"
    using fs(2) unfolding rows_fit_def by (meson in_set_takeD list_all_iff)
  then obtain rest where "rows_from 0 fs' = Some rest" "map row_inner rest = take ?k rows"
    using rows_from_ok [OF fs'(2) _ assms(2), of 0] fs(3) by (auto simp: take_map)
  with popped fs' show ?thesis by (simp add: pop_rows_def n)
qed

text \<open>
  C28. Changing the width of a non-empty scrollback never panics and rearranges the stored graphemes
  and line breaks into rows that fit the new width, each grapheme with its color and style, none
  lost, added or reordered; the result can be read and extended.
\<close>

theorem set_columns_reflows:
  assumes "flat_is columns base rs fs" and "rows_text rs \<noteq> []"
    and "2 \<le> new_columns" and "new_columns < 2 ^ 16" and "new_columns \<noteq> columns"
  shows "\<exists>fs' rs'. set_columns new_columns fs = Some fs' \<and> flat_is new_columns base rs' fs' \<and>
           rows_text rs' = rows_text rs \<and>
           flat_holds new_columns (map (render_row new_columns) rs') fs'"
  using set_columns_ok [OF assms] unfolding flat_holds_def by blast

text \<open>Some rows to apply them to: a line of text, and blank rows.\<close>

definition text_row :: "nat \<Rightarrow> uchar list \<Rightarrow> row" where
  "text_row columns cs =
    \<lparr>row_inner = map (\<lambda>c. default_cell\<lparr>cell_c := c\<rparr>) cs @ replicate (columns - length cs) default_cell,
     row_occ = length cs\<rparr>"

lemma text_row_storable:
  assumes "length cs \<le> columns" and "list_all (\<lambda>c. c < 0x110000 \<and> c \<noteq> 0xA) cs"
  shows "row_storable columns (text_row columns cs)" "\<not> row_soft columns (text_row columns cs) \<or> columns = 0"
proof -
  have cell: "\<not> is_spacer (default_cell\<lparr>cell_c := c\<rparr>)" "\<not> is_wide (default_cell\<lparr>cell_c := c\<rparr>)"
    "\<not> flags_intersects (cell_flags (default_cell\<lparr>cell_c := c\<rparr>)) f"
    "c < 0x110000 \<and> c \<noteq> 0xA \<Longrightarrow> cell_storable (default_cell\<lparr>cell_c := c\<rparr>)" for c f
    by (simp_all add: is_spacer_def is_wide_def default_cell_def flags_intersects_def flags_contains_def
        F_WIDE_CHAR_def cell_storable_def cell_pushable_def content_with_zerowidth_def end_of_prompt_of_def)
  have cells: "take (row_occ (text_row columns cs)) (row_inner (text_row columns cs)) =
      map (\<lambda>c. default_cell\<lparr>cell_c := c\<rparr>) cs"
    by (simp add: text_row_def)
  have "cells_storable (map (\<lambda>c. default_cell\<lparr>cell_c := c\<rparr>) cs)"
    using assms(2) cell by (induction cs) simp_all
  moreover have "\<not> leading_of (map (\<lambda>c. default_cell\<lparr>cell_c := c\<rparr>) cs)"
    using cell(3) by (auto simp: leading_of_def list_ex_iff)
  moreover have "row_len (text_row columns cs) = columns" "row_occ (text_row columns cs) \<le> columns"
    using assms(1) by (simp_all add: row_len_def text_row_def)
  ultimately show "row_storable columns (text_row columns cs)"
    unfolding row_storable_def cells by simp
  have "row_soft columns (text_row columns cs) \<Longrightarrow> columns = 0"
  proof -
    assume soft: "row_soft columns (text_row columns cs)"
    then have len: "length cs = columns" by (simp add: row_soft_def text_row_def)
    show "columns = 0"
    proof (rule ccontr)
      assume "columns \<noteq> 0"
      then have "row_inner (text_row columns cs) ! (columns - 1) = default_cell\<lparr>cell_c := cs ! (columns - 1)\<rparr>"
        using len by (simp add: text_row_def)
      then show False using soft cell(3) by (simp add: row_soft_def)
    qed
  qed
  then show "\<not> row_soft columns (text_row columns cs) \<or> columns = 0" by blast
qed

theorem scrollback_keeps_last_rows_witness:
  "\<exists>fs out. fold_panics push_rows [[text_row 4 [0x61], text_row 4 [0x4E16, 0x62]], [text_row 4 []]]
       (flat_new 4 (Some 2)) = Some fs \<and> rows_from 0 fs = Some out \<and>
     map row_inner out = [norm_row 4 (text_row 4 [0x4E16, 0x62]), norm_row 4 (text_row 4 [])] \<and>
     fs_truncated fs = 1"
  using scrollback_keeps_last_rows
    [of 4 "[[text_row 4 [0x61], text_row 4 [0x4E16, 0x62]], [text_row 4 []]]" 2]
    text_row_storable(1) [of _ 4]
  by (simp add: keep_last_def)

lemma sample_holds:
  "\<exists>fs. push_rows [text_row 4 [0x61], text_row 4 [0x62]] (flat_new 4 (Some 2)) = Some fs \<and>
     flat_holds 4 [norm_row 4 (text_row 4 [0x61]), norm_row 4 (text_row 4 [0x62])] fs"
  using push_rows_step [OF flat_new_holds, of 4 "[text_row 4 [0x61], text_row 4 [0x62]]" "Some 2" 2]
    text_row_storable(1) [of _ 4]
  by (auto simp: keep_last_def flat_new_def)

theorem pop_rows_exact_witness:
  "\<exists>fs popped fs' rest. push_rows [text_row 4 [0x61], text_row 4 [0x62]] (flat_new 4 (Some 2)) = Some fs \<and>
     pop_rows 1 fs = Some (popped, fs') \<and> map row_inner popped = [norm_row 4 (text_row 4 [0x62])] \<and>
     rows_from 0 fs' = Some rest \<and> map row_inner rest = [norm_row 4 (text_row 4 [0x61])]"
proof -
  obtain fs where fs: "push_rows [text_row 4 [0x61], text_row 4 [0x62]] (flat_new 4 (Some 2)) = Some fs"
      "flat_holds 4 [norm_row 4 (text_row 4 [0x61]), norm_row 4 (text_row 4 [0x62])] fs"
    using sample_holds by blast
  from pop_rows_exact [OF fs(2), of 1] fs(1) show ?thesis by auto
qed

theorem set_columns_reflows_witness:
  "\<exists>fs fs' rows. push_rows_without_truncation [text_row 4 [0x61, 0x62, 0x63]] (flat_new 4 None) = Some fs \<and>
     set_columns 2 fs = Some fs' \<and> flat_holds 2 rows fs'"
proof -
  let ?r = "text_row 4 [0x61, 0x62, 0x63]"
  obtain fs0 where fs0: "fs0 = flat_new 4 None" "flat_is 4 0 [] fs0"
    using flat_new_is by blast
  have r: "row_storable 4 ?r" "\<not> row_soft 4 ?r"
    using text_row_storable [of "[0x61, 0x62, 0x63]" 4] by simp_all
  obtain fs where fs: "push_rows_without_truncation [?r] fs0 = Some fs" and
      flat: "flat_is 4 0 [row_stored 4 (am_tail (fs_fg fs0)) (am_tail (fs_bg fs0)) ?r] fs"
    using push_row_ok [OF fs0(2) r(1)] by (auto simp: push_rows_without_truncation_def)
  have "rows_text [row_stored 4 (am_tail (fs_fg fs0)) (am_tail (fs_bg fs0)) ?r] \<noteq> []"
    using r(2) by (simp add: row_stored_def row_text_def Let_def)
  from set_columns_reflows [OF flat this, of 2] show ?thesis
    using fs fs0(1) by auto
qed

definition clear_and_resize :: "nat \<Rightarrow> row list \<Rightarrow> nat \<Rightarrow> nat \<Rightarrow> flat_storage panics" where
  "clear_and_resize max_rows rows columns new_columns =
    do { fs \<leftarrow> push_rows rows (flat_new columns (Some max_rows));
         fs \<leftarrow> flat_clear fs;
         set_columns new_columns fs }"

lemma rebuild_empty: "ix_rows ix = [] \<Longrightarrow> rebuild ix columns = Some (index_new columns)"
  by (simp add: rebuild_def Let_def builder_is_empty_def builder_new_def append_to_index_if_nonempty_def
      index_new_def)

text \<open>
  A cleared scrollback that is resized goes out of step: when rows had been dropped at the front
  before it was cleared, the rebuilt index restarts its offsets at zero while the content goes on at
  its old end, so the rows pushed next are looked up among the wrong bytes.
\<close>

theorem cleared_then_resized_out_of_step:
  assumes "row_storable columns r" and "\<not> row_soft columns r" and "row_storable columns r'"
    and "1 \<le> columns" and "columns < 2 ^ 16" and "new_columns \<noteq> columns"
  shows "\<exists>fs. clear_and_resize 1 [r, r'] columns new_columns = Some fs \<and>
           ix_content_len (fs_index fs) = 0 \<and> 0 < end_offset (fs_content fs)"
proof -
  let ?fs = "flat_new columns (Some 1)"
  obtain s s' fs1 where fs1: "push_rows_without_truncation [r, r'] ?fs = Some fs1"
      "flat_is columns 0 [s, s'] fs1" "fst (snd s)" "fs_max_rows fs1 = Some 1"
  proof -
    let ?s = "row_stored columns (am_tail (fs_fg ?fs)) (am_tail (fs_bg ?fs)) r"
    obtain fs1 where fs1: "push_row r (?fs, am_tail (fs_fg ?fs), am_tail (fs_bg ?fs)) =
          Some (fs1, am_tail (fs_fg fs1), am_tail (fs_bg fs1))" "flat_is columns 0 [?s] fs1"
        "fs_max_rows fs1 = Some 1"
      using push_row_ok [OF flat_new_is assms(1,4,5)] by (auto simp: flat_new_def)
    let ?s' = "row_stored columns (am_tail (fs_fg fs1)) (am_tail (fs_bg fs1)) r'"
    obtain fs2 where fs2: "push_row r' (fs1, am_tail (fs_fg fs1), am_tail (fs_bg fs1)) =
          Some (fs2, am_tail (fs_fg fs2), am_tail (fs_bg fs2))" "flat_is columns 0 [?s, ?s'] fs2"
        "fs_max_rows fs2 = Some 1"
      using push_row_ok [OF fs1(2) assms(3-5)] fs1(3) by auto
    have "fst (snd ?s)" using assms(2) by (simp add: row_stored_def Let_def)
    with fs1 fs2 show ?thesis
      by (intro that [of fs2 ?s ?s']) (simp_all add: push_rows_without_truncation_def)
  qed
  have total: "flat_total_rows fs1 = 2"
    using flat_total_rows_is [of columns 0 "[s, s']" fs1] fs1(2) by (simp add: flat_is_def)
  let ?fs2 = "truncate_rows_front 1 fs1"
  have fs2: "apply_max_rows fs1 = ?fs2"
    by (simp add: apply_max_rows_def fs1(4) total)
  have base: "0 < line_bytes (row_line s)" using fs1(3) by (simp add: line_bytes_def row_line_def)
  have flat2: "flat_is columns (line_bytes (row_line s)) [s'] ?fs2"
    using truncate_rows_front_ok [OF fs1(2), of 1] by simp
  obtain fs3 where fs3: "flat_clear ?fs2 = Some fs3" "flat_is columns (line_bytes (row_line s)) [] fs3"
    using flat_truncate_ok [OF flat2, of 0] by (auto simp: flat_clear_def)
  have rows3: "ix_rows (fs_index fs3) = []" and end3: "end_offset (fs_content fs3) = line_bytes (row_line s)"
      and cols3: "fs_columns fs3 = columns"
    using fs3(2) flat_total_rows_is [of columns "line_bytes (row_line s)" "[]" fs3]
    by (auto simp: flat_is_def flat_reads_def index_is_def flat_total_rows_def)
  have "set_columns new_columns fs3 = Some (fs3\<lparr>fs_columns := new_columns, fs_index := index_new new_columns\<rparr>)"
    using assms(6) cols3 rebuild_empty [OF rows3] by (simp add: set_columns_def)
  then show ?thesis
    using fs1(1) fs2 fs3(1) end3 base
    by (simp add: clear_and_resize_def push_rows_def index_new_def)
qed

theorem cleared_then_resized_out_of_step_witness:
  "\<exists>fs. clear_and_resize 1 [text_row 4 [0x61], text_row 4 [0x62]] 4 5 = Some fs \<and>
     ix_content_len (fs_index fs) = 0 \<and> 0 < end_offset (fs_content fs)"
  using text_row_storable [of _ 4] by (intro cleared_then_resized_out_of_step) simp_all

text \<open>
  The background color of the cells behind the dirty counter is lost: a row that was reset in a
  colored template, as scrolling does, comes back from the scrollback in the default background.
\<close>

theorem erased_background_lost:
  assumes "1 \<le> columns" and "columns < 2 ^ 16"
  shows "\<exists>fs out. push_rows [blank_row columns bg] (flat_new columns (Some 1)) = Some fs \<and>
           rows_from 0 fs = Some out \<and> map row_inner out = [replicate columns default_cell]"
proof -
  have r: "row_storable columns (blank_row columns bg)"
    by (simp add: row_storable_def blank_row_def row_len_def leading_of_def)
  have "norm_row columns (blank_row columns bg) = replicate columns default_cell"
    using assms(1) by (simp add: norm_row_def finish_row_def blank_row_def row_soft_def leading_of_def Let_def)
  moreover obtain fs where "push_rows [blank_row columns bg] (flat_new columns (Some 1)) = Some fs"
      "flat_holds columns [norm_row columns (blank_row columns bg)] fs"
    using push_rows_step [OF flat_new_holds, of columns "[blank_row columns bg]" "Some 1" 1] r assms
    by (auto simp: keep_last_def flat_new_def)
  ultimately show ?thesis using holds_read [of columns _ fs 0] assms(1) by fastforce
qed

theorem erased_background_lost_witness:
  "\<exists>fs out. push_rows [blank_row 3 (Named NC_Red)] (flat_new 3 (Some 1)) = Some fs \<and>
     rows_from 0 fs = Some out \<and> map row_inner out = [replicate 3 default_cell]"
  by (rule erased_background_lost) simp_all

definition torn_row :: "nat \<Rightarrow> uchar \<Rightarrow> color \<Rightarrow> row" where
  "torn_row columns c bg =
    \<lparr>row_inner = default_cell\<lparr>cell_c := c, cell_flags := F_WIDE_CHAR\<rparr> #
       replicate (columns - 1) (cell_from_color bg), row_occ = columns\<rparr>"

lemma colored_cells:
  assumes "bg \<noteq> Named NC_Background"
  shows "cell_pushable (cell_from_color bg)" "\<not> is_spacer (cell_from_color bg)"
    "\<not> is_wide (cell_from_color bg)" "needs_storing f b (cell_from_color bg)"
    "\<not> flags_intersects (cell_flags (cell_from_color bg)) flag"
  using assms
  by (auto simp: cell_pushable_def is_spacer_def is_wide_def needs_storing_def cell_is_empty_def
      cell_from_color_def default_cell_def content_with_zerowidth_def end_of_prompt_of_def
      flags_intersects_def flags_contains_def F_WIDE_CHAR_def DEFAULT_CHAR_def)

lemma colored_cells_flow:
  assumes "bg \<noteq> Named NC_Background"
  shows "cells_flow f b 0 (replicate n (cell_from_color bg))"
    "length (rendered (store_cells f b 0 (replicate n (cell_from_color bg)))) = n"
proof -
  note c = colored_cells [OF assms]
  show "cells_flow f b 0 (replicate n (cell_from_color bg))"
    using c by (induction n arbitrary: f b) simp_all
  show "length (rendered (store_cells f b 0 (replicate n (cell_from_color bg)))) = n"
    using c stored_cell_of [OF c(1,2)] by (induction n arbitrary: f b) simp_all
qed

lemma torn_row_reads:
  assumes "2 \<le> columns" and "columns < 2 ^ 16" and "bg \<noteq> Named NC_Background"
    and "c < 0x110000" and "c \<noteq> 0" and "c \<noteq> 0xA" and "1 \<le> m"
  shows "\<exists>fs. push_rows [torn_row columns c bg] (flat_new columns (Some m)) = Some fs \<and>
           flat_total_rows fs = 1 \<and> fs_columns fs = columns \<and>
           Option.bind (row_new columns) (read_row fs 0) = None \<and> rows_from 0 fs = None"
proof -
  let ?r = "torn_row columns c bg" and ?fs = "flat_new columns (Some m)"
  let ?w = "default_cell\<lparr>cell_c := c, cell_flags := F_WIDE_CHAR\<rparr>"
  let ?rest = "replicate (columns - 1) (cell_from_color bg)"
  have cells: "take (row_occ ?r) (row_inner ?r) = ?w # ?rest"
    using assms(1) by (simp add: torn_row_def)
  have w: "\<not> is_spacer ?w" "cell_pushable ?w" "is_wide ?w"
    using assms(4-6)
    by (simp_all add: is_spacer_def is_wide_def cell_pushable_def cell_is_empty_def default_cell_def
        content_with_zerowidth_def end_of_prompt_of_def flags_intersects_def flags_contains_def
        F_WIDE_CHAR_def F_WIDE_CHAR_SPACER_def F_LEADING_WIDE_CHAR_SPACER_def DEFAULT_CHAR_def)
  have len: "row_len ?r = columns" "row_occ ?r \<le> columns"
    using assms(1) by (simp_all add: torn_row_def row_len_def)
  have store: "needs_storing f b ?w" for f b by (rule wide_needs_storing [OF w(2,3)])
  let ?fg = "am_tail (fs_fg ?fs)" and ?bg = "am_tail (fs_bg ?fs)"
  have flow: "cells_flow ?fg ?bg 0 (take (row_occ ?r) (row_inner ?r))"
    unfolding cells using w store colored_cells_flow(1) [OF assms(3)] by simp
  have cols: "1 \<le> columns" using assms(1) by simp
  obtain fs where fs: "push_row ?r (?fs, ?fg, ?bg) = Some (fs, am_tail (fs_fg fs), am_tail (fs_bg fs))"
      "flat_is columns 0 [row_stored columns ?fg ?bg ?r] fs" "fs_max_rows fs = Some m"
    using push_row_flow [OF flat_new_is len flow cols assms(2)] by (auto simp: flat_new_def)
  have total: "flat_total_rows fs = 1"
    using flat_total_rows_is [of columns 0 "[row_stored columns ?fg ?bg ?r]" fs] fs(2) by (simp add: flat_is_def)
  have push: "push_rows [?r] ?fs = Some fs"
    using fs(1,3) total assms(7)
    by (cases "m = 1")
      (simp_all add: push_rows_def push_rows_without_truncation_def apply_max_rows_def truncate_rows_front_def)
  have long: "length (shown (fst (row_stored columns ?fg ?bg ?r))) = columns + 1"
  proof -
    have "fst (stored_of ?w) \<noteq> [0xA]" "fst (stored_of (cell_from_color bg)) \<noteq> [0xA]"
      using assms(6) by (simp_all add: stored_of_def raw_content_def content_chars_def default_cell_def
          cell_from_color_def content_with_zerowidth_def DEFAULT_CHAR_def)
    then have "shown (fst (row_stored columns ?fg ?bg ?r)) = rendered (store_cells ?fg ?bg 0 (?w # ?rest))"
      using store_cells_visible [of "?w # ?rest" ?fg ?bg 0]
      unfolding shown_def row_stored_def cells Let_def by simp
    moreover
    have "rendered (store_cells ?fg ?bg 0 (?w # ?rest)) = render_cells (stored_of ?w) @
        rendered (store_cells (cell_fg ?w) (bg_and_style_from ?w) 0 ?rest)"
      using w(1) store by simp
    ultimately show ?thesis
      using stored_cell_of [OF w(2,1)] w(3) colored_cells_flow(2) [OF assms(3)] assms(1) by simp
  qed
  let ?row = "\<lparr>row_inner = replicate columns default_cell, row_occ = 0\<rparr>"
  have "row_wf ?row" "row_len ?row = columns"
    using filled_row_wf [of "[]" columns] by (simp_all add: filled_row_def row_len_def)
  then have "read_row fs 0 ?row = None"
    using read_row_run [of columns 0 "[row_stored columns ?fg ?bg ?r]" fs 0 ?row] fs(2) long cols
    by (auto simp: flat_is_def)
  then have "Option.bind (row_new columns) (read_row fs 0) = None"
    using row_new_Some [OF cols] by simp
  moreover have columns: "fs_columns fs = columns" using fs(2) by (simp add: flat_is_def flat_reads_def)
  ultimately show ?thesis
    using push total row_new_Some [OF cols] by (auto simp: rows_from_def)
qed

text \<open>
  A row that holds half of a wide character cannot be read back: a wide character at its start
  whose spacer has been overwritten, followed by cells in a background color, is accepted by the
  scrollback, but every attempt to read it panics.
\<close>

theorem torn_row_unreadable:
  assumes "2 \<le> columns" and "columns < 2 ^ 16" and "bg \<noteq> Named NC_Background"
    and "c < 0x110000" and "c \<noteq> 0" and "c \<noteq> 0xA"
  shows "\<exists>fs. push_rows [torn_row columns c bg] (flat_new columns (Some 1)) = Some fs \<and> rows_from 0 fs = None"
  using torn_row_reads [OF assms, of 1] by auto

theorem torn_row_unreadable_witness:
  "\<exists>fs. push_rows [torn_row 4 0x4E16 (Named NC_Red)] (flat_new 4 (Some 1)) = Some fs \<and> rows_from 0 fs = None"
  by (rule torn_row_unreadable) simp_all

lemma charset_line_feed: "charset_map SC_SpecialCharacterAndusizeDrawing (ch CHR ''e'') = 0xA"
  by (simp add: line_drawing_table_def)

lemma text_cell:
  "\<not> is_spacer (default_cell\<lparr>cell_c := c\<rparr>)" "\<not> is_wide (default_cell\<lparr>cell_c := c\<rparr>)"
  "\<not> flags_intersects (cell_flags (default_cell\<lparr>cell_c := c\<rparr>)) f"
  "c < 0x110000 \<Longrightarrow> cell_pushable (default_cell\<lparr>cell_c := c\<rparr>)"
  "c \<noteq> 0 \<Longrightarrow> needs_storing fg bg (default_cell\<lparr>cell_c := c\<rparr>)"
  "fst (stored_of (default_cell\<lparr>cell_c := c\<rparr>)) = [c]"
  "norm_cell (default_cell\<lparr>cell_c := c\<rparr>) = default_cell\<lparr>cell_c := c\<rparr>"
  by (simp_all add: is_spacer_def is_wide_def default_cell_def flags_intersects_def flags_contains_def
      F_WIDE_CHAR_def cell_pushable_def content_with_zerowidth_def end_of_prompt_of_def needs_storing_def
      cell_is_empty_def DEFAULT_CHAR_def stored_of_def raw_content_def content_chars_def norm_cell_def)

lemma text_cells_stored:
  assumes "list_all (\<lambda>c. c < 0x110000 \<and> c \<noteq> 0) cs"
  shows "cells_flow fg bg 0 (map (\<lambda>c. default_cell\<lparr>cell_c := c\<rparr>) cs)"
    and "store_cells fg bg 0 (map (\<lambda>c. default_cell\<lparr>cell_c := c\<rparr>) cs) =
           map (\<lambda>c. stored_of (default_cell\<lparr>cell_c := c\<rparr>)) cs"
  using assms text_cell by (induction cs arbitrary: fg bg) simp_all

text \<open>
  A cell that holds a line break cuts its row: the special graphics character set maps the letter
  e to a line feed, which is stored like any other character, but the reader takes it for the end of
  the row. Whatever follows it is lost from the scrollback.
\<close>

theorem line_break_cell_cuts_row:
  assumes "length cs + 1 + length ds \<le> columns" and "columns < 2 ^ 16"
    and "list_all (\<lambda>c. c < 0x110000 \<and> c \<noteq> 0 \<and> c \<noteq> 0xA) cs"
    and "list_all (\<lambda>c. c < 0x110000 \<and> c \<noteq> 0) ds"
  shows "\<exists>fs out. push_rows [text_row columns (cs @ 0xA # ds)] (flat_new columns (Some 1)) = Some fs \<and>
           rows_from 0 fs = Some out \<and> map row_inner out = [row_inner (text_row columns cs)]"
proof -
  let ?text = "\<lambda>c. default_cell\<lparr>cell_c := c\<rparr>" and ?r = "text_row columns (cs @ 0xA # ds)"
  let ?fs = "flat_new columns (Some 1)"
  let ?fg = "am_tail (fs_fg ?fs)" and ?bg = "am_tail (fs_bg ?fs)"
  have chars: "list_all (\<lambda>c. c < 0x110000 \<and> c \<noteq> 0) (cs @ 0xA # ds)"
    using assms(3,4) by (auto simp: list_all_iff)
  have cells: "take (row_occ ?r) (row_inner ?r) = map ?text (cs @ 0xA # ds)"
    by (simp add: text_row_def)
  have len: "row_len ?r = columns" "row_occ ?r \<le> columns"
    using assms(1) by (simp_all add: text_row_def row_len_def)
  have cols: "1 \<le> columns" using assms(1) by simp
  have flow: "cells_flow ?fg ?bg 0 (take (row_occ ?r) (row_inner ?r))"
    unfolding cells by (rule text_cells_stored(1) [OF chars])
  obtain fs where fs: "push_row ?r (?fs, ?fg, ?bg) = Some (fs, am_tail (fs_fg fs), am_tail (fs_bg fs))"
      "flat_is columns 0 [row_stored columns ?fg ?bg ?r] fs" "fs_max_rows fs = Some 1"
    using push_row_flow [OF flat_new_is len flow cols assms(2)] by (auto simp: flat_new_def)
  have total: "flat_total_rows fs = 1"
    using flat_total_rows_is [of columns 0 "[row_stored columns ?fg ?bg ?r]" fs] fs(2) by (simp add: flat_is_def)
  have push: "push_rows [?r] ?fs = Some fs"
    using fs(1,3) total
    by (simp add: push_rows_def push_rows_without_truncation_def apply_max_rows_def truncate_rows_front_def)
  have hard: "\<not> row_soft columns ?r"
  proof
    assume soft: "row_soft columns ?r"
    then have n: "length (cs @ 0xA # ds) = columns" by (simp add: row_soft_def text_row_def)
    have "row_inner ?r = map ?text (cs @ 0xA # ds)"
      unfolding text_row_def row.select_convs n by simp
    then have "row_inner ?r ! (columns - 1) = ?text ((cs @ 0xA # ds) ! (columns - 1))"
      using nth_map [of "columns - 1" "cs @ 0xA # ds" ?text] n cols by (metis diff_less less_le_trans less_one)
    with soft text_cell(3) show False unfolding row_soft_def by metis
  qed
  have stored: "row_stored columns ?fg ?bg ?r = (map (\<lambda>c. stored_of (?text c)) (cs @ 0xA # ds), True, False)"
    unfolding row_stored_def cells Let_def text_cells_stored(2) [OF chars]
    using hard text_cell(3) by (auto simp: leading_of_def list_ex_iff)
  have "visible_part (map (\<lambda>c. stored_of (?text c)) (cs @ 0xA # ds)) = map (\<lambda>c. stored_of (?text c)) cs"
    using assms(3) text_cell(6) unfolding visible_part_def
    by (induction cs) (simp_all add: visible_part_def)
  moreover have "rendered (map (\<lambda>c. stored_of (?text c)) cs) = map ?text cs"
    using assms(3) stored_cell_of [OF text_cell(4,1)] text_cell(2,7) by (induction cs) simp_all
  ultimately have shown: "shown (map (\<lambda>c. stored_of (?text c)) (cs @ 0xA # ds)) = map ?text cs"
    by (simp add: shown_def)
  have "rows_fit columns [row_stored columns ?fg ?bg ?r]"
    using assms(1) unfolding stored rows_fit_def by (simp add: shown [simplified])
  then obtain out where out: "rows_from 0 fs = Some out"
      "map row_inner out = [render_row columns (row_stored columns ?fg ?bg ?r)]"
    using rows_from_ok [of columns 0 "[row_stored columns ?fg ?bg ?r]" fs 0] fs(2) cols
    by (auto simp: flat_is_def)
  have "render_row columns (row_stored columns ?fg ?bg ?r) = row_inner (text_row columns cs)"
    unfolding stored render_row_def by (simp add: shown [simplified] finish_row_def text_row_def Let_def)
  with push out show ?thesis by auto
qed

theorem line_break_cell_cuts_row_witness:
  "\<exists>fs out. push_rows [text_row 4 ([0x61] @ 0xA # [0x62])] (flat_new 4 (Some 1)) = Some fs \<and>
     rows_from 0 fs = Some out \<and> map row_inner out = [row_inner (text_row 4 [0x61])]"
  by (rule line_break_cell_cuts_row) simp_all

end
