(* ===== verification/Term_Mode.thy ===== *)
theory Term_Mode
  imports Ansi_Params
begin

unbundle bit_operations_syntax

text \<open>
  The modes of a terminal and its tab stops: \<^verbatim>\<open>crates/warp_terminal/src/model/mode.rs\<close> and
  \<^verbatim>\<open>app/src/terminal/model/grid/ansi_handler/tab_stops.rs\<close>. Both flag types are 32-bit words with
  the operations of the \<open>bitflags\<close> crate.
\<close>

section \<open>Terminal modes\<close>

type_synonym term_mode = "32 word"

definition TM_NONE :: term_mode where "TM_NONE = 0"
definition TM_SHOW_CURSOR :: term_mode where "TM_SHOW_CURSOR = 0x1"
definition TM_APP_CURSOR :: term_mode where "TM_APP_CURSOR = 0x2"
definition TM_APP_KEYPAD :: term_mode where "TM_APP_KEYPAD = 0x4"
definition TM_MOUSE_REPORT_CLICK :: term_mode where "TM_MOUSE_REPORT_CLICK = 0x8"
definition TM_BRACKETED_PASTE :: term_mode where "TM_BRACKETED_PASTE = 0x10"
definition TM_SGR_MOUSE :: term_mode where "TM_SGR_MOUSE = 0x20"
definition TM_MOUSE_MOTION :: term_mode where "TM_MOUSE_MOTION = 0x40"
definition TM_LINE_WRAP :: term_mode where "TM_LINE_WRAP = 0x80"
definition TM_LINE_FEED_NEW_LINE :: term_mode where "TM_LINE_FEED_NEW_LINE = 0x100"
definition TM_ORIGIN :: term_mode where "TM_ORIGIN = 0x200"
definition TM_INSERT :: term_mode where "TM_INSERT = 0x400"
definition TM_FOCUS_IN_OUT :: term_mode where "TM_FOCUS_IN_OUT = 0x800"
definition TM_MOUSE_DRAG :: term_mode where "TM_MOUSE_DRAG = 0x2000"
definition TM_MOUSE_MODE :: term_mode where "TM_MOUSE_MODE = 0x2048"
definition TM_UTF8_MOUSE :: term_mode where "TM_UTF8_MOUSE = 0x4000"
definition TM_ALTERNATE_SCROLL :: term_mode where "TM_ALTERNATE_SCROLL = 0x8000"
definition TM_VI :: term_mode where "TM_VI = 0x10000"
definition TM_URGENCY_HINTS :: term_mode where "TM_URGENCY_HINTS = 0x20000"
definition TM_KEYBOARD_DISAMBIGUATE_ESCAPE :: term_mode where
  "TM_KEYBOARD_DISAMBIGUATE_ESCAPE = 0x40000"
definition TM_KEYBOARD_REPORT_EVENT_TYPES :: term_mode where
  "TM_KEYBOARD_REPORT_EVENT_TYPES = 0x80000"
definition TM_KEYBOARD_REPORT_ALTERNATE_KEYS :: term_mode where
  "TM_KEYBOARD_REPORT_ALTERNATE_KEYS = 0x100000"
definition TM_KEYBOARD_REPORT_ALL_AS_ESCAPE :: term_mode where
  "TM_KEYBOARD_REPORT_ALL_AS_ESCAPE = 0x200000"
definition TM_KEYBOARD_REPORT_ASSOCIATED_TEXT :: term_mode where
  "TM_KEYBOARD_REPORT_ASSOCIATED_TEXT = 0x400000"

definition TM_KEYBOARD_PROTOCOL :: term_mode where
  "TM_KEYBOARD_PROTOCOL =
    TM_KEYBOARD_DISAMBIGUATE_ESCAPE OR TM_KEYBOARD_REPORT_EVENT_TYPES OR
    TM_KEYBOARD_REPORT_ALTERNATE_KEYS OR TM_KEYBOARD_REPORT_ALL_AS_ESCAPE OR
    TM_KEYBOARD_REPORT_ASSOCIATED_TEXT"

definition default_term_mode :: term_mode where
  "default_term_mode = TM_SHOW_CURSOR OR TM_LINE_WRAP OR TM_ALTERNATE_SCROLL OR TM_URGENCY_HINTS"

lemmas term_mode_defs = TM_NONE_def TM_SHOW_CURSOR_def TM_APP_CURSOR_def TM_APP_KEYPAD_def
  TM_MOUSE_REPORT_CLICK_def TM_BRACKETED_PASTE_def TM_SGR_MOUSE_def TM_MOUSE_MOTION_def
  TM_LINE_WRAP_def TM_LINE_FEED_NEW_LINE_def TM_ORIGIN_def TM_INSERT_def TM_FOCUS_IN_OUT_def
  TM_MOUSE_DRAG_def TM_MOUSE_MODE_def TM_UTF8_MOUSE_def TM_ALTERNATE_SCROLL_def TM_VI_def
  TM_URGENCY_HINTS_def TM_KEYBOARD_DISAMBIGUATE_ESCAPE_def TM_KEYBOARD_REPORT_EVENT_TYPES_def
  TM_KEYBOARD_REPORT_ALTERNATE_KEYS_def TM_KEYBOARD_REPORT_ALL_AS_ESCAPE_def
  TM_KEYBOARD_REPORT_ASSOCIATED_TEXT_def TM_KEYBOARD_PROTOCOL_def

definition mode_contains :: "32 word \<Rightarrow> 32 word \<Rightarrow> bool" where
  "mode_contains m f \<longleftrightarrow> m AND f = f"

definition mode_insert :: "32 word \<Rightarrow> 32 word \<Rightarrow> 32 word" where
  "mode_insert f m = m OR f"

definition mode_remove :: "32 word \<Rightarrow> 32 word \<Rightarrow> 32 word" where
  "mode_remove f m = m AND NOT f"

section \<open>Keyboard modes\<close>

type_synonym keyboard_modes = "32 word"

definition KM_NO_MODE :: keyboard_modes where "KM_NO_MODE = 0"
definition KM_DISAMBIGUATE_ESC_CODES :: keyboard_modes where "KM_DISAMBIGUATE_ESC_CODES = 0x1"
definition KM_REPORT_EVENT_TYPES :: keyboard_modes where "KM_REPORT_EVENT_TYPES = 0x2"
definition KM_REPORT_ALTERNATE_KEYS :: keyboard_modes where "KM_REPORT_ALTERNATE_KEYS = 0x4"
definition KM_REPORT_ALL_KEYS_AS_ESC :: keyboard_modes where "KM_REPORT_ALL_KEYS_AS_ESC = 0x8"
definition KM_REPORT_ASSOCIATED_TEXT :: keyboard_modes where "KM_REPORT_ASSOCIATED_TEXT = 0x10"

lemmas keyboard_mode_defs = KM_NO_MODE_def KM_DISAMBIGUATE_ESC_CODES_def KM_REPORT_EVENT_TYPES_def
  KM_REPORT_ALTERNATE_KEYS_def KM_REPORT_ALL_KEYS_AS_ESC_def KM_REPORT_ASSOCIATED_TEXT_def

definition term_mode_from_keyboard :: "keyboard_modes \<Rightarrow> term_mode" where
  "term_mode_from_keyboard modes =
    (let t = TM_NONE;
         t = (if mode_contains modes KM_DISAMBIGUATE_ESC_CODES
              then t OR TM_KEYBOARD_DISAMBIGUATE_ESCAPE else t);
         t = (if mode_contains modes KM_REPORT_EVENT_TYPES
              then t OR TM_KEYBOARD_REPORT_EVENT_TYPES else t);
         t = (if mode_contains modes KM_REPORT_ALTERNATE_KEYS
              then t OR TM_KEYBOARD_REPORT_ALTERNATE_KEYS else t);
         t = (if mode_contains modes KM_REPORT_ALL_KEYS_AS_ESC
              then t OR TM_KEYBOARD_REPORT_ALL_AS_ESCAPE else t);
         t = (if mode_contains modes KM_REPORT_ASSOCIATED_TEXT
              then t OR TM_KEYBOARD_REPORT_ASSOCIATED_TEXT else t)
     in t)"

datatype keyboard_modes_apply_behavior = KA_Replace | KA_Union | KA_Difference

definition from_kitty_apply_mode :: "nat \<Rightarrow> keyboard_modes_apply_behavior option" where
  "from_kitty_apply_mode m =
    (if m = 1 then Some KA_Replace else if m = 2 then Some KA_Union
     else if m = 3 then Some KA_Difference else None)"

text \<open>The five flags keep their order, 18 places higher.\<close>

lemma contains_flag: "n < 32 \<Longrightarrow> mode_contains k (push_bit n 1) \<longleftrightarrow> bit k n"
  by (auto simp: mode_contains_def bit_eq_iff [where 'a = "32 word"] bit_simps)

lemma keyboard_flags:
  "mode_contains k KM_DISAMBIGUATE_ESC_CODES \<longleftrightarrow> bit k 0"
  "mode_contains k KM_REPORT_EVENT_TYPES \<longleftrightarrow> bit k 1"
  "mode_contains k KM_REPORT_ALTERNATE_KEYS \<longleftrightarrow> bit k 2"
  "mode_contains k KM_REPORT_ALL_KEYS_AS_ESC \<longleftrightarrow> bit k 3"
  "mode_contains k KM_REPORT_ASSOCIATED_TEXT \<longleftrightarrow> bit k 4"
  using contains_flag [of 0 k] contains_flag [of 1 k] contains_flag [of 2 k] contains_flag [of 3 k]
    contains_flag [of 4 k]
  by (simp_all add: keyboard_mode_defs)

lemma keyboard_protocol_bits:
  "TM_KEYBOARD_DISAMBIGUATE_ESCAPE = push_bit 18 1"
  "TM_KEYBOARD_REPORT_EVENT_TYPES = push_bit 19 1"
  "TM_KEYBOARD_REPORT_ALTERNATE_KEYS = push_bit 20 1"
  "TM_KEYBOARD_REPORT_ALL_AS_ESCAPE = push_bit 21 1"
  "TM_KEYBOARD_REPORT_ASSOCIATED_TEXT = push_bit 22 1"
  by (simp_all add: term_mode_defs)

lemma flag_added:
  "bit (if P then t OR push_bit m 1 else t) n \<longleftrightarrow> bit t n \<or> P \<and> n = m \<and> m < 32" for t :: "32 word"
  by (auto simp: bit_simps)

lemma term_mode_from_keyboard_shift:
  "term_mode_from_keyboard k = push_bit 18 (take_bit 5 k)"
proof (rule bit_word_eqI)
  fix n :: nat
  have "n = 18 \<or> n = 19 \<or> n = 20 \<or> n = 21 \<or> n = 22 \<or> \<not> (18 \<le> n \<and> n < 23)" by linarith
  then show "bit (term_mode_from_keyboard k) n = bit (push_bit 18 (take_bit 5 k)) n"
    unfolding term_mode_from_keyboard_def Let_def keyboard_protocol_bits flag_added keyboard_flags
    by (auto simp: TM_NONE_def bit_push_bit_iff bit_take_bit_iff)
qed

lemma protocol_mask: "TM_KEYBOARD_PROTOCOL = push_bit 18 (mask 5)"
  by (simp add: term_mode_defs mask_eq_exp_minus_1)

lemma contains_protocol_replace:
  "(m AND NOT TM_KEYBOARD_PROTOCOL OR term_mode_from_keyboard k) AND TM_KEYBOARD_PROTOCOL =
     term_mode_from_keyboard k"
  by (auto simp: term_mode_from_keyboard_shift protocol_mask bit_eq_iff [where 'a = "32 word"] bit_simps)

lemma contains_protocol_keep:
  "f AND TM_KEYBOARD_PROTOCOL = 0 \<Longrightarrow>
     mode_contains (m AND NOT TM_KEYBOARD_PROTOCOL OR term_mode_from_keyboard k) f = mode_contains m f"
proof -
  assume f: "f AND TM_KEYBOARD_PROTOCOL = 0"
  have "term_mode_from_keyboard k = term_mode_from_keyboard k AND TM_KEYBOARD_PROTOCOL"
    by (auto simp: term_mode_from_keyboard_shift protocol_mask bit_eq_iff [where 'a = "32 word"] bit_simps)
  with f have "(m AND NOT TM_KEYBOARD_PROTOCOL OR term_mode_from_keyboard k) AND f = m AND f"
    by (metis (no_types, lifting) and.commute bit.conj_cancel_left bit.conj_disj_distrib2 bit.double_compl
        bit.compl_unique word_bw_assocs(1) and.assoc bit.conj_zero_right bit.disj_zero_right bit.de_Morgan_conj)
  then show ?thesis by (simp add: mode_contains_def)
qed

section \<open>Tab stops\<close>

definition INITIAL_TABSTOPS :: nat where "INITIAL_TABSTOPS = 8"

definition is_initial_tabstop :: "nat \<Rightarrow> bool" where
  "is_initial_tabstop i \<longleftrightarrow> i mod INITIAL_TABSTOPS = 0"

definition tabs_new :: "nat \<Rightarrow> bool list" where
  "tabs_new num_cols = map is_initial_tabstop [0..<num_cols]"

definition tabs_clear_all :: "bool list \<Rightarrow> bool list" where
  "tabs_clear_all tabs = replicate (length tabs) False"

text \<open>\<open>Vec::resize_with\<close> cuts the vector, or extends it with the stops of the new columns.\<close>

definition tabs_resize :: "nat \<Rightarrow> bool list \<Rightarrow> bool list" where
  "tabs_resize num_cols tabs =
    take num_cols tabs @ map is_initial_tabstop [length tabs..<num_cols]"

lemma length_tabs [simp]:
  "length (tabs_new n) = n" "length (tabs_clear_all ts) = length ts" "length (tabs_resize n ts) = n"
  by (auto simp: tabs_new_def tabs_clear_all_def tabs_resize_def)

lemma tabs_resize_new: "tabs_resize n (tabs_new m) = tabs_new n"
  by (intro nth_equalityI) (auto simp: tabs_new_def tabs_resize_def nth_append)

lemma tabs_resize_nth:
  "i < n \<Longrightarrow> tabs_resize n ts ! i = (if i < length ts then ts ! i else is_initial_tabstop i)"
  by (auto simp: tabs_resize_def nth_append)

end
