(* ===== verification/Term_Grid.thy ===== *)
theory Term_Grid
  imports Grid_Storage
begin

text \<open>
  Regions of the grid, \<^verbatim>\<open>app/src/terminal/model/grid/indexing.rs\<close>, and what every operation of
  the terminal keeps of its grid: \<open>sized_grid\<close> asks less than \<open>live_grid\<close>, because the inclusive
  slice used by \<open>clear_line\<close> breaks the promise of the dirty counter, but it is all that the
  absence of panics needs.
\<close>

section \<open>Regions\<close>

text \<open>\<open>RegionMut::each\<close>: every borrowed row counts all its cells as dirty.\<close>

definition region_each :: "nat \<Rightarrow> nat \<Rightarrow> (cell \<Rightarrow> cell) \<Rightarrow> grid_storage \<Rightarrow> grid_storage panics" where
  "region_each start stop f g =
    fold_panics (\<lambda>i. grid_visible_mut i (row_full_mut (\<lambda>cs. Some (map f cs)))) [start..<stop] g"

definition region_range_each ::
  "nat \<Rightarrow> nat \<Rightarrow> (cell \<Rightarrow> cell) \<Rightarrow> grid_storage \<Rightarrow> grid_storage panics" where
  "region_range_each start stop f g =
    do { assert_that (start < gs_rows g); assert_that (stop \<le> gs_rows g); assert_that (start \<le> stop);
         region_each start stop f g }"

definition region_to_each :: "nat \<Rightarrow> (cell \<Rightarrow> cell) \<Rightarrow> grid_storage \<Rightarrow> grid_storage panics" where
  "region_to_each stop f g =
    do { assert_that (stop \<le> gs_rows g); region_each 0 stop f g }"

definition region_from_each :: "nat \<Rightarrow> (cell \<Rightarrow> cell) \<Rightarrow> grid_storage \<Rightarrow> grid_storage panics" where
  "region_from_each start f g =
    do { assert_that (start < gs_rows g); region_each start (gs_rows g) f g }"

definition region_full_each :: "(cell \<Rightarrow> cell) \<Rightarrow> grid_storage \<Rightarrow> grid_storage panics" where
  "region_full_each f g = region_each 0 (gs_rows g) f g"

text \<open>\<open>grid[row][col]\<close>, for reading and for writing.\<close>

definition grid_cell :: "nat \<Rightarrow> nat \<Rightarrow> grid_storage \<Rightarrow> cell panics" where
  "grid_cell row col g =
    do { r \<leftarrow> storage_index (gs_raw g) row; nth_checked (row_inner r) col }"

definition grid_cell_mut ::
  "nat \<Rightarrow> nat \<Rightarrow> (cell \<Rightarrow> cell) \<Rightarrow> grid_storage \<Rightarrow> grid_storage panics" where
  "grid_cell_mut row col f = grid_index_mut row (row_index_mut col f)"

section \<open>Loops over a ring that only keep a property of its rows\<close>

context row_ring
begin

lemma swap_keeps:
  assumes "invar s" and "\<And>i. i \<in> set is \<Longrightarrow> p i < length (view s) \<and> q i < length (view s)"
  shows "ends (\<lambda>s'. invar s' \<and> length (view s') = length (view s) \<and> set (view s') = set (view s))
           (fold_panics (\<lambda>i. swap (p i) (q i)) is s)"
proof -
  have "set (fold (\<lambda>i. swap_list (p i) (q i)) is (view s)) = set (view s)"
    using set_fold_swap [of "is" p "view s" q] assms(2) by simp
  then show ?thesis
    using swap_loop [of s "is" p q, OF assms] by (auto simp: ends_def)
qed

lemma modify_keeps:
  assumes "invar s" and "\<And>k. k \<in> set ks \<Longrightarrow> k < length (view s)" and "\<forall>r \<in> set (view s). Q r"
    and "\<And>r. Q r \<Longrightarrow> ends Q (f r)"
  shows "ends (\<lambda>s'. invar s' \<and> length (view s') = length (view s) \<and> (\<forall>r \<in> set (view s'). Q r))
           (fold_panics (\<lambda>k. modify k f) ks s)"
proof (rule ends_fold)
  fix k s1
  assume k: "k \<in> set ks"
    and s1: "invar s1 \<and> length (view s1) = length (view s) \<and> (\<forall>r \<in> set (view s1). Q r)"
  then have lt: "k < length (view s1)" using assms(2) by auto
  then obtain r where r: "f (view s1 ! k) = Some r" "Q r"
    using assms(4) s1 by (meson endsE nth_mem)
  obtain s2 where "modify k f s1 = Some s2" "invar s2" "view s2 = (view s1)[k := r]"
    using modify_law [of s1 k f r, OF _ lt r(1)] s1 by blast
  with s1 r show "ends (\<lambda>s'. invar s' \<and> length (view s') = length (view s) \<and> (\<forall>r \<in> set (view s'). Q r))
      (modify k f s1)"
    by (auto dest: subsetD [OF set_update_subset_insert])
qed (use assms in simp)

lemma rotate_keeps:
  assumes "invar s" and "k \<le> length (view s)"
  shows "ends (\<lambda>s'. invar s' \<and> length (view s') = length (view s) \<and> set (view s') = set (view s))
           (extend (int k) s)"
    and "ends (\<lambda>s'. invar s' \<and> length (view s') = length (view s) \<and> set (view s') = set (view s))
           (retract (int k) s)"
  using extend_law [OF assms] retract_law [OF assms] by (auto simp: ends_def)

end

section \<open>Grids whose rows have the right size\<close>

definition row_sized :: "nat \<Rightarrow> row \<Rightarrow> bool" where
  "row_sized cols r \<longleftrightarrow> row_len r = cols \<and> row_occ r \<le> cols"

definition sized_grid :: "nat \<Rightarrow> nat \<Rightarrow> grid_storage \<Rightarrow> bool" where
  "sized_grid rows cols g \<longleftrightarrow>
     ring_full (gs_raw g) \<and> st_len (gs_raw g) = rows \<and> gs_rows g = rows \<and> gs_columns g = cols \<and>
     gs_max_scroll_limit g = 0 \<and> 1 \<le> cols \<and> (\<forall>r \<in> set (rows_now g). row_sized cols r)"

lemma sized_grid_live: "live_grid g \<Longrightarrow> sized_grid (gs_rows g) (gs_columns g) g"
  by (auto simp: live_grid_def sized_grid_def rows_now_def list_all_iff row_sized_def row_wf_def row_len_def)

lemma sized_grid_simps:
  assumes "sized_grid rows cols g"
  shows "gs_rows g = rows" "gs_columns g = cols" "total_rows g = rows" "history_size g = Some 0"
    "length (rows_now g) = rows" "1 \<le> cols" "1 \<le> rows"
    "cursor_point g = Some (Point (vp_row (cur_point (gs_cursor g))) (vp_col (cur_point (gs_cursor g))))"
  using assms
  by (auto simp: sized_grid_def total_rows_def history_size_def usub_def rows_now_def cursor_point_def
      ring_full_def Suc_le_eq)

lemma sized_grid_frame [simp]:
  "sized_grid rows cols (g\<lparr>gs_cursor := c\<rparr>) = sized_grid rows cols g"
  "sized_grid rows cols (g\<lparr>gs_saved_cursor := c\<rparr>) = sized_grid rows cols g"
  "sized_grid rows cols (g\<lparr>gs_max_cursor_point := p\<rparr>) = sized_grid rows cols g"
  "sized_grid rows cols (g\<lparr>gs_num_lines_truncated := k\<rparr>) = sized_grid rows cols g"
  by (simp_all add: sized_grid_def rows_now_def)

lemma rows_now_frame [simp]:
  "rows_now (g\<lparr>gs_cursor := c\<rparr>) = rows_now g"
  "rows_now (g\<lparr>gs_saved_cursor := c\<rparr>) = rows_now g"
  "rows_now (g\<lparr>gs_max_cursor_point := p\<rparr>) = rows_now g"
  "rows_now (g\<lparr>gs_num_lines_truncated := k\<rparr>) = rows_now g"
  "rows_now (g\<lparr>gs_raw := raw\<rparr>) = rows_of raw"
  by (simp_all add: rows_now_def)

lemma sized_grid_row: "sized_grid rows cols g \<Longrightarrow> i < rows \<Longrightarrow> row_sized cols (rows_now g ! i)"
  using sized_grid_simps(5) [of rows cols g] by (simp add: sized_grid_def)

text \<open>Only the rows have changed, and perhaps the count of truncated lines.\<close>

lemma same_frame_refl: "same_frame g g"
  by (simp add: same_frame_def)

lemma same_frame_trans: "same_frame g g' \<Longrightarrow> same_frame g' g'' \<Longrightarrow> same_frame g g''"
  unfolding same_frame_def by (cases g; cases g'; cases g'') simp

lemma same_frame_simps:
  assumes "same_frame g g'"
  shows "gs_cursor g' = gs_cursor g" "gs_saved_cursor g' = gs_saved_cursor g"
    "gs_max_cursor_point g' = gs_max_cursor_point g" "gs_rows g' = gs_rows g"
    "gs_columns g' = gs_columns g" "gs_max_scroll_limit g' = gs_max_scroll_limit g"
  using assms unfolding same_frame_def by (metis grid_storage.select_convs grid_storage.update_convs grid_storage.surjective)+

lemma same_frame_raw: "same_frame g (g\<lparr>gs_raw := raw\<rparr>)"
  by (simp add: same_frame_def)

lemma sized_grid_raw:
  assumes "sized_grid rows cols g" and "ring_full raw" and "length (rows_of raw) = rows"
    and "\<forall>r \<in> set (rows_of raw). row_sized cols r"
  shows "sized_grid rows cols (g\<lparr>gs_raw := raw\<rparr>)"
  using assms by (simp add: sized_grid_def)

section \<open>Every operation on rows keeps their size\<close>

named_theorems row_sized_intros

lemma row_sized_map_range:
  assumes "row_sized cols r" and "a \<le> b" and "b \<le> cols" and "n \<le> cols"
  shows "ends (\<lambda>cs. row_sized cols \<lparr>row_inner = cs, row_occ = n\<rparr>) (map_range f a b (row_inner r))"
  using assms by (simp add: map_range_def row_sized_def row_len_def)

lemma row_index_mut_sized [row_sized_intros]:
  assumes "row_sized cols r" and "i < cols"
  shows "ends (row_sized cols) (row_index_mut i f r)"
proof -
  have "max (row_occ r) (i + 1) \<le> cols" using assms by (simp add: row_sized_def)
  then show ?thesis
    unfolding row_index_mut_def using assms
    by (intro ends_bind [OF row_sized_map_range [OF assms(1), where n = "max (row_occ r) (i + 1)"]]) simp_all
qed

lemma row_range_mut_sized [row_sized_intros]:
  assumes "row_sized cols r" and "a \<le> b" and "b \<le> cols"
  shows "ends (row_sized cols) (row_range_mut a b f r)"
proof -
  have "max (row_occ r) b \<le> cols" using assms by (simp add: row_sized_def)
  then show ?thesis
    unfolding row_range_mut_def using assms
    by (intro ends_bind [OF row_sized_map_range [OF assms(1), where n = "max (row_occ r) b"]]) simp_all
qed

lemma row_range_to_mut_sized [row_sized_intros]:
  "row_sized cols r \<Longrightarrow> b \<le> cols \<Longrightarrow> ends (row_sized cols) (row_range_to_mut b f r)"
  using row_range_mut_sized [of cols r 0 b f] by (simp add: row_range_mut_def row_range_to_mut_def)

lemma row_range_from_mut_sized [row_sized_intros]:
  assumes "row_sized cols r" and "a \<le> cols"
  shows "ends (row_sized cols) (row_range_from_mut a f r)"
proof -
  have n: "length (row_inner r) = cols" using assms by (simp add: row_sized_def row_len_def)
  show ?thesis
    unfolding row_range_from_mut_def n using assms
    by (intro ends_bind [OF row_sized_map_range [OF assms(1), where n = cols]]) simp_all
qed

lemma row_range_to_inclusive_mut_sized [row_sized_intros]:
  assumes "row_sized cols r" and "b < cols"
  shows "ends (row_sized cols) (row_range_to_inclusive_mut b f r)"
proof -
  have "max (row_occ r) b \<le> cols" using assms by (simp add: row_sized_def)
  then show ?thesis
    unfolding row_range_to_inclusive_mut_def using assms
    by (intro ends_bind [OF row_sized_map_range [OF assms(1), where n = "max (row_occ r) b"]]) simp_all
qed

lemma row_full_mut_sized [row_sized_intros]:
  assumes "row_sized cols r"
    and "\<And>cs. length cs = cols \<Longrightarrow> ends (\<lambda>cs'. length cs' = cols) (f cs)"
  shows "ends (row_sized cols) (row_full_mut f r)"
proof -
  have "length (row_inner r) = cols" using assms(1) by (simp add: row_sized_def row_len_def)
  then show ?thesis
    unfolding row_full_mut_def
    by (intro ends_bind [OF assms(2)]) (simp_all add: row_sized_def row_len_def)
qed

lemma row_reset_kept:
  assumes "row_sized cols r" and "1 \<le> cols"
  shows "ends (row_sized cols) (row_reset t r)"
proof -
  have "row_inner r \<noteq> []" "length (row_inner r) = cols" "row_occ r \<le> cols"
    using assms by (auto simp: row_sized_def row_len_def)
  then show ?thesis
    by (simp add: row_reset_def Let_def map_range_def row_sized_def row_len_def)
qed

section \<open>Every operation on the grid keeps the size of its rows\<close>

text \<open>The grid after an operation that only changes rows.\<close>

definition resized_from :: "nat \<Rightarrow> nat \<Rightarrow> grid_storage \<Rightarrow> grid_storage \<Rightarrow> bool" where
  "resized_from rows cols g g' \<longleftrightarrow> sized_grid rows cols g' \<and> same_frame g g'"

lemma resized_from_refl: "sized_grid rows cols g \<Longrightarrow> resized_from rows cols g g"
  by (simp add: resized_from_def same_frame_refl)

lemma resized_from_trans:
  "resized_from rows cols g g' \<Longrightarrow> resized_from rows cols g' g'' \<Longrightarrow> resized_from rows cols g g''"
  unfolding resized_from_def by (blast intro: same_frame_trans)

lemma on_raw_kept:
  assumes "sized_grid rows cols g"
    and "ends (\<lambda>raw. ring_full raw \<and> length (rows_of raw) = rows \<and> (\<forall>r \<in> set (rows_of raw). row_sized cols r))
           (f (gs_raw g))"
  shows "ends (resized_from rows cols g) (on_raw f g)"
  unfolding on_raw_def
  by (rule ends_bind [OF assms(2)])
    (use sized_grid_raw [OF assms(1)] in \<open>simp add: resized_from_def same_frame_raw\<close>)

lemma sized_grid_raw_facts:
  assumes "sized_grid rows cols g"
  shows "ring_full (gs_raw g)" "length (rows_of (gs_raw g)) = rows"
    "\<forall>r \<in> set (rows_of (gs_raw g)). row_sized cols r"
  using assms by (simp_all add: sized_grid_def rows_now_def)

lemma grid_index_mut_at:
  assumes "sized_grid rows cols g" and "i < rows" and "f (rows_now g ! i) = Some r" and "row_sized cols r"
  shows "ends (\<lambda>g'. resized_from rows cols g g' \<and> rows_now g' = (rows_now g)[i := r]) (grid_index_mut i f g)"
    and "grid_visible_mut i f g = grid_index_mut i f g"
proof -
  note raw = sized_grid_raw_facts [OF assms(1)]
  have lt: "i < length (rows_of (gs_raw g))" and f: "f (rows_of (gs_raw g) ! i) = Some r"
    using assms(2,3) raw(2) by (simp_all add: rows_now_def)
  obtain s where s: "storage_index_mut i f (gs_raw g) = Some s" "ring_full s"
      "rows_of s = (rows_of (gs_raw g))[i := r]"
    using ring.modify_law [of "gs_raw g" i f r, OF raw(1) lt f] by blast
  have "length (rows_of s) = rows"
    unfolding s(3) length_list_update by (rule raw(2))
  moreover have "\<forall>r \<in> set (rows_of s). row_sized cols r"
    unfolding s(3) using raw(3) assms(4) set_update_subset_insert by fastforce
  ultimately show "ends (\<lambda>g'. resized_from rows cols g g' \<and> rows_now g' = (rows_now g)[i := r])
      (grid_index_mut i f g)"
    using s sized_grid_raw [OF assms(1) s(2)]
    by (simp add: grid_index_mut_def resized_from_def same_frame_raw) (simp add: rows_now_def)
  show "grid_visible_mut i f g = grid_index_mut i f g"
    by (simp add: grid_index_mut_def grid_visible_mut_def ring_full_visible_eq [OF raw(1)])
qed

lemma grid_index_mut_kept:
  assumes "sized_grid rows cols g" and "i < rows" and "ends (row_sized cols) (f (rows_now g ! i))"
  shows "ends (resized_from rows cols g) (grid_index_mut i f g)"
    and "ends (resized_from rows cols g) (grid_visible_mut i f g)"
proof -
  obtain r where r: "f (rows_now g ! i) = Some r" "row_sized cols r"
    using assms(3) by (rule endsE)
  note at = grid_index_mut_at [of rows cols g i f r, OF assms(1,2) r]
  show "ends (resized_from rows cols g) (grid_index_mut i f g)"
    using at(1) by (rule ends_mono) simp
  then show "ends (resized_from rows cols g) (grid_visible_mut i f g)"
    unfolding at(2) .
qed

lemma grid_cell_read:
  assumes "sized_grid rows cols g" and "i < rows" and "j < cols"
  shows "grid_cell i j g = Some (row_inner (rows_now g ! i) ! j)"
proof -
  note raw = sized_grid_raw_facts [OF assms(1)]
  have "storage_index (gs_raw g) i = Some (rows_now g ! i)"
    using storage_index_eq [of "gs_raw g" i] raw assms(2) by (simp add: ring_full_def rows_now_def)
  moreover have "length (row_inner (rows_now g ! i)) = cols"
    using sized_grid_row [OF assms(1,2)] by (simp add: row_sized_def row_len_def)
  ultimately show ?thesis using assms(3) by (simp add: grid_cell_def nth_checked_lt)
qed

lemma grid_cell_mut_kept:
  assumes "sized_grid rows cols g" and "i < rows" and "j < cols"
  shows "ends (resized_from rows cols g) (grid_cell_mut i j f g)"
  unfolding grid_cell_mut_def
  by (rule grid_index_mut_kept(1) [OF assms(1,2)])
    (rule row_index_mut_sized [OF sized_grid_row [OF assms(1,2)] assms(3)])

lemma region_each_kept:
  assumes "sized_grid rows cols g" and "stop \<le> rows"
  shows "ends (resized_from rows cols g) (region_each start stop f g)"
  unfolding region_each_def
proof (rule ends_fold)
  fix i g'
  assume i: "i \<in> set [start..<stop]" and g': "resized_from rows cols g g'"
  then have s: "sized_grid rows cols g'" "i < rows"
    using assms(2) by (auto simp: resized_from_def)
  have "ends (row_sized cols) (row_full_mut (\<lambda>cs. Some (map f cs)) (rows_now g' ! i))"
    by (rule row_full_mut_sized [OF sized_grid_row [OF s]]) simp
  from grid_index_mut_kept(2) [of rows cols g' i "row_full_mut (\<lambda>cs. Some (map f cs))", OF s this]
  show "ends (resized_from rows cols g) (grid_visible_mut i (row_full_mut (\<lambda>cs. Some (map f cs))) g')"
    by (rule ends_mono) (rule resized_from_trans [OF g'])
qed (rule resized_from_refl [OF assms(1)])

lemma region_full_each_kept:
  "sized_grid rows cols g \<Longrightarrow> ends (resized_from rows cols g) (region_full_each f g)"
  by (simp add: region_full_each_def region_each_kept sized_grid_simps(1))

lemma region_to_each_kept:
  "sized_grid rows cols g \<Longrightarrow> stop \<le> rows \<Longrightarrow> ends (resized_from rows cols g) (region_to_each stop f g)"
  by (simp add: region_to_each_def region_each_kept sized_grid_simps(1))

lemma region_from_each_kept:
  "sized_grid rows cols g \<Longrightarrow> start < rows \<Longrightarrow> ends (resized_from rows cols g) (region_from_each start f g)"
  by (simp add: region_from_each_def region_each_kept sized_grid_simps(1))

lemma cursor_cell_kept:
  assumes "sized_grid rows cols g"
    and "vp_row (cur_point (gs_cursor g)) < rows" and "vp_col (cur_point (gs_cursor g)) < cols"
  shows "ends (resized_from rows cols g) (cursor_cell f g)"
    and "cursor_cell f g =
      grid_cell_mut (vp_row (cur_point (gs_cursor g))) (vp_col (cur_point (gs_cursor g))) f g"
  using grid_cell_mut_kept [OF assms] sized_grid_simps [OF assms(1)] assms
  by (simp_all add: cursor_cell_def grid_cell_mut_def)

section \<open>Scrolling and resetting\<close>

abbreviation raw_sized :: "nat \<Rightarrow> nat \<Rightarrow> row storage \<Rightarrow> bool" where
  "raw_sized rows cols raw \<equiv>
     ring_full raw \<and> length (rows_of raw) = rows \<and> (\<forall>r \<in> set (rows_of raw). row_sized cols r)"

lemma on_raw_step:
  assumes "resized_from rows cols g g'"
    and "raw_sized rows cols (gs_raw g') \<Longrightarrow> ends (raw_sized rows cols) (f (gs_raw g'))"
  shows "ends (resized_from rows cols g) (on_raw f g')"
proof -
  have sized: "sized_grid rows cols g'" using assms(1) by (simp add: resized_from_def)
  have "ends (raw_sized rows cols) (f (gs_raw g'))"
    using assms(2) sized_grid_raw_facts [OF sized] by blast
  from on_raw_kept [of rows cols g' f, OF sized this] show ?thesis
    by (rule ends_mono) (rule resized_from_trans [OF assms(1)])
qed

lemma template_reset_kept:
  "row_sized cols r \<Longrightarrow> 1 \<le> cols \<Longrightarrow> ends (row_sized cols) (template_reset g r)"
  unfolding template_reset_def by (rule row_reset_kept)

lemma raw_swap_loop:
  assumes "raw_sized rows cols s" and "\<And>i. i \<in> set is \<Longrightarrow> p i < rows \<and> q i < rows"
    and "\<And>i s. i \<in> set is \<Longrightarrow> f i s = storage_swap (p i) (q i) s"
  shows "ends (raw_sized rows cols) (fold_panics f is s)"
proof -
  have "fold_panics f is s = fold_panics (\<lambda>i. storage_swap (p i) (q i)) is s"
    by (rule fold_panics_cong) (rule assms(3))
  moreover have "ends (\<lambda>s'. ring_full s' \<and> length (rows_of s') = length (rows_of s) \<and>
      set (rows_of s') = set (rows_of s)) (fold_panics (\<lambda>i. storage_swap (p i) (q i)) is s)"
    using assms(1,2) by (intro ring.swap_keeps) auto
  ultimately show ?thesis
    using assms(1) by (auto elim!: ends_mono)
qed

lemma raw_modify_loop:
  assumes "raw_sized rows cols s" and "\<And>k. k \<in> set ks \<Longrightarrow> k < rows"
    and "\<And>r. row_sized cols r \<Longrightarrow> ends (row_sized cols) (f r)"
  shows "ends (raw_sized rows cols) (fold_panics (\<lambda>k. storage_index_mut k f) ks s)"
    and "ends (raw_sized rows cols) (fold_panics (\<lambda>k. storage_index_visible_mut k f) ks s)"
proof -
  have "ends (\<lambda>s'. ring_full s' \<and> length (rows_of s') = length (rows_of s) \<and>
      (\<forall>r \<in> set (rows_of s'). row_sized cols r)) (fold_panics (\<lambda>k. storage_index_mut k f) ks s)"
    using assms by (intro ring.modify_keeps) auto
  then show "ends (raw_sized rows cols) (fold_panics (\<lambda>k. storage_index_mut k f) ks s)"
    using assms(1) by (auto elim!: ends_mono)
  have "ends (\<lambda>s'. ring_full s' \<and> length (rows_of s') = length (rows_of s) \<and>
      (\<forall>r \<in> set (rows_of s'). row_sized cols r)) (fold_panics (\<lambda>k. storage_index_visible_mut k f) ks s)"
    using assms by (intro visible_ring.modify_keeps) auto
  then show "ends (raw_sized rows cols) (fold_panics (\<lambda>k. storage_index_visible_mut k f) ks s)"
    using assms(1) by (auto elim!: ends_mono)
qed

lemma raw_rotate:
  assumes "raw_sized rows cols s" and "k \<le> rows"
  shows "ends (raw_sized rows cols) (storage_extend (int k) s)"
    and "ends (raw_sized rows cols) (storage_retract (int k) s)"
  using ring.rotate_keeps [of s k] assms by (auto elim!: ends_mono)

lemma fixed_swap_step:
  assumes "i \<in> set [0..<n - e]" and "d \<le> e" and "e \<le> n"
  shows "(do { k \<leftarrow> usub n i; index \<leftarrow> usub k 1; j \<leftarrow> usub index d; storage_swap index j s }) =
           storage_swap (n - i - 1) (n - i - 1 - d) s"
  using assms by (auto simp: usub_def)

lemma resized_from_simps:
  assumes "resized_from rows cols g g'"
  shows "st_len (gs_raw g') = rows" "history_size g' = Some 0" "gs_max_scroll_limit g' = 0"
    "1 \<le> cols" "gs_rows g' = rows" "gs_columns g' = cols"
  using assms by (simp_all add: resized_from_def sized_grid_def history_size_def total_rows_def usub_def)

lemma resized_from_truncated:
  "resized_from rows cols g g' \<Longrightarrow> resized_from rows cols g (g'\<lparr>gs_num_lines_truncated := k\<rparr>)"
  by (cases g; cases g') (simp add: resized_from_def same_frame_def sized_grid_def rows_now_def)

lemma resized_from_cursors:
  assumes "resized_from rows cols g g'"
  shows "gs_cursor g' = gs_cursor g" "gs_saved_cursor g' = gs_saved_cursor g"
    "gs_max_cursor_point g' = gs_max_cursor_point g" "sized_grid rows cols g'"
  using assms same_frame_simps [of g g'] by (simp_all add: resized_from_def)

lemma scroll_up_kept:
  assumes "sized_grid rows cols g" and "a \<le> e" and "e \<le> rows" and "a + d \<le> e \<or> e - a \<le> d \<and> a \<noteq> 0"
  shows "ends (resized_from rows cols g) (scroll_up a e d g)"
proof -
  note simps = sized_grid_simps [OF assms(1)]
  note refl = resized_from_refl [OF assms(1)]
  let ?R = "resized_from rows cols g"
  have reset: "ends ?R (on_raw (fold_panics
      (\<lambda>line. storage_index_visible_mut line (template_reset g)) [a..<e]) g)"
    using assms(3) simps(6) by (intro on_raw_step [OF refl] raw_modify_loop(2) template_reset_kept) auto
  have limit: "gs_max_scroll_limit g = 0" using assms(1) by (simp add: sized_grid_def)
  have inc: "increase_scroll_limit d g = Some g"
    by (simp add: increase_scroll_limit_def simps limit usub_def)
  show ?thesis
  proof (cases "e - a \<le> d \<and> a \<noteq> 0")
    case True
    show ?thesis
      using reset unfolding scroll_up_def Let_def usub_le [OF assms(2)] bind.bind_lunit if_P [OF True] .
  next
    case False
    then have d: "a + d \<le> e" "d \<le> e" "d \<le> rows" using assms(3,4) by auto
    have s1: "ends ?R (on_raw (fold_panics (\<lambda>i. storage_swap i (i + d)) (rev [0..<a])) g)"
      using d assms(3)
      by (intro on_raw_step [OF refl] raw_swap_loop [where p = "\<lambda>i. i" and q = "\<lambda>i. i + d"]) auto
    have s2: "ends ?R (on_raw (storage_extend (int d)) g')" if "?R g'" for g'
      using that d(3) by (intro on_raw_step [OF that] raw_rotate(1))
    have s3: "ends ?R (on_raw (fold_panics (\<lambda>i. storage_index_mut i (template_reset g'))
        [rows - d..<rows]) g')" if "?R g'" for g'
      using simps(6) by (intro on_raw_step [OF that] raw_modify_loop(1) template_reset_kept) auto
    have s4: "ends ?R (on_raw (fold_panics (\<lambda>i s. do { k \<leftarrow> usub rows i; index \<leftarrow> usub k 1;
        j \<leftarrow> usub index d; storage_swap index j s }) [0..<rows - e]) g')" if "?R g'" for g'
      using fixed_swap_step [OF _ d(2) assms(3)] assms(3)
      by (intro on_raw_step [OF that]
          raw_swap_loop [where p = "\<lambda>i. rows - i - 1" and q = "\<lambda>i. rows - i - 1 - d"]) auto
    have s5: "ends ?R (do { h \<leftarrow> history_size g'; Some (if gs_max_scroll_limit g' = h
        then g'\<lparr>gs_num_lines_truncated := gs_num_lines_truncated g' + k\<rparr> else g') })" if "?R g'" for g' k
      using resized_from_simps(2,3) [OF that] resized_from_truncated [OF that] by simp
    show ?thesis
      unfolding scroll_up_def Let_def usub_le [OF assms(2)] bind.bind_lunit if_not_P [OF False] simps inc
      by (rule ends_bind [OF s1], rule ends_bind [OF s2], assumption,
          simp only: resized_from_simps(1) [of rows cols g] usub_le [OF d(3)] usub_le [OF assms(3)] bind.bind_lunit,
          rule ends_bind [OF s3], assumption, rule ends_bind [OF s4], assumption, rule s5)
  qed
qed

lemma swap_step:
  assumes "d \<le> line"
  shows "(do { j \<leftarrow> usub line d; storage_swap line j s }) = storage_swap line (line - d) s"
  using assms by (simp add: usub_def)

lemma scroll_down_kept:
  assumes "sized_grid rows cols g" and "a \<le> e" and "e \<le> rows" and "a + d \<le> e"
  shows "ends (resized_from rows cols g) (scroll_down a e d g)"
proof -
  note simps = sized_grid_simps [OF assms(1)]
  note refl = resized_from_refl [OF assms(1)]
  let ?R = "resized_from rows cols g"
  have reset: "ends ?R (on_raw (fold_panics
      (\<lambda>line. storage_index_visible_mut line (template_reset g)) [a..<e]) g)"
    using assms(3) simps(6) by (intro on_raw_step [OF refl] raw_modify_loop(2) template_reset_kept) auto
  have limit: "gs_max_scroll_limit g = 0" using assms(1) by (simp add: sized_grid_def)
  show ?thesis
  proof (cases "e - a \<le> d")
    case True
    show ?thesis
      using reset unfolding scroll_down_def Let_def usub_le [OF assms(2)] bind.bind_lunit if_P [OF True] .
  next
    case False
    have d: "d \<le> e" "d \<le> rows" using assms(3,4) by auto
    have s1: "ends ?R (on_raw (fold_panics (\<lambda>i s. do { k \<leftarrow> usub rows i; index \<leftarrow> usub k 1;
        j \<leftarrow> usub index d; storage_swap index j s }) (rev [0..<rows - e])) g)"
      using fixed_swap_step [OF _ d(1) assms(3)] assms(3)
      by (intro on_raw_step [OF refl]
          raw_swap_loop [where p = "\<lambda>i. rows - i - 1" and q = "\<lambda>i. rows - i - 1 - d"]) auto
    have s2: "ends ?R (on_raw (storage_retract (int d)) g')" if "?R g'" for g'
      using that d(2) by (intro on_raw_step [OF that] raw_rotate(2))
    have s3: "ends ?R (on_raw (fold_panics (\<lambda>i. storage_index_mut i (template_reset g'))
        [0..<d]) g')" if "?R g'" for g'
      using simps(6) d(2) by (intro on_raw_step [OF that] raw_modify_loop(1) template_reset_kept) auto
    have s4: "ends ?R (on_raw (fold_panics (\<lambda>i. storage_swap i (i + d)) [0..<a]) g')" if "?R g'" for g'
      using assms(3,4)
      by (intro on_raw_step [OF that] raw_swap_loop [where p = "\<lambda>i. i" and q = "\<lambda>i. i + d"]) auto
    show ?thesis
      unfolding scroll_down_def Let_def usub_le [OF assms(2)] bind.bind_lunit if_not_P [OF False] simps
        if_P [OF limit] usub_le [OF assms(3)]
      by (rule ends_bind [OF s1], rule ends_bind [OF s2], assumption,
          rule ends_bind [OF s3], assumption, rule s4)
  qed
qed

lemma clear_history_kept:
  assumes "sized_grid rows cols g"
  shows "clear_history g = Some g"
  using sized_grid_simps(4) [OF assms] assms
  by (simp add: clear_history_def grid_shrink_lines_def shrink_lines_def usub_def sized_grid_def ring_full_def)

lemma grid_reset_kept:
  assumes "sized_grid rows cols g"
  shows "ends (\<lambda>g'. sized_grid rows cols g' \<and> gs_cursor g' = default_cursor \<and>
           gs_saved_cursor g' = default_cursor) (grid_reset g)"
proof -
  let ?g = "g\<lparr>gs_saved_cursor := default_cursor, gs_cursor := default_cursor,
      gs_max_cursor_point := VisiblePoint 0 0\<rparr>"
  have g: "sized_grid rows cols ?g" using assms by simp
  have "st_len (gs_raw ?g) = rows" using resized_from_simps(1) [OF resized_from_refl [OF g]] .
  then have "ends (resized_from rows cols ?g) (on_raw (fold_panics
      (\<lambda>row. storage_index_mut row (template_reset ?g)) [0..<st_len (gs_raw ?g)]) ?g)"
    using sized_grid_simps(6) [OF assms]
    by (intro on_raw_step [OF resized_from_refl [OF g]] raw_modify_loop(1) template_reset_kept) auto
  then show ?thesis
    unfolding grid_reset_def clear_history_kept [OF assms] bind.bind_lunit Let_def
    by (rule ends_mono) (auto dest: resized_from_cursors)
qed

lemma clear_and_reset_kept:
  assumes "sized_grid rows cols g" and "vp_row (cur_point (gs_cursor g)) < rows"
  shows "ends (\<lambda>g'. sized_grid rows cols g' \<and> gs_saved_cursor g' = gs_saved_cursor g \<and>
           gs_cursor g' = (gs_cursor g)\<lparr>cur_point := VisiblePoint 0 (vp_col (cur_point (gs_cursor g)))\<rparr>)
           (clear_and_reset_saving_cursor_line g)"
proof -
  note simps = sized_grid_simps [OF assms(1)]
  note refl = resized_from_refl [OF assms(1)]
  note raw = sized_grid_raw_facts [OF assms(1)]
  have swap: "ends (resized_from rows cols g) (on_raw (swap_lines (vp_row (cur_point (gs_cursor g))) 0) g)"
  proof (rule on_raw_step [OF refl])
    have "fold_panics (\<lambda>i. storage_swap i 0) [vp_row (cur_point (gs_cursor g))] (gs_raw g) =
        swap_lines (vp_row (cur_point (gs_cursor g))) 0 (gs_raw g)"
      by (simp add: ring_full_visible_eq [OF raw(1)] split: option.splits)
    moreover have "ends (raw_sized rows cols)
        (fold_panics (\<lambda>i. storage_swap i 0) [vp_row (cur_point (gs_cursor g))] (gs_raw g))"
      using raw assms(2)
      by (intro raw_swap_loop [where p = "\<lambda>i. i" and q = "\<lambda>i. 0"]) auto
    ultimately show "ends (raw_sized rows cols) (swap_lines (vp_row (cur_point (gs_cursor g))) 0 (gs_raw g))"
      by simp
  qed
  have reset: "ends (\<lambda>g''. sized_grid rows cols g'' \<and> gs_saved_cursor g'' = gs_saved_cursor g \<and>
      gs_cursor g'' = (gs_cursor g)\<lparr>cur_point := VisiblePoint 0 (vp_col (cur_point (gs_cursor g)))\<rparr>)
      (let g' = g'\<lparr>gs_cursor := (gs_cursor g')\<lparr>cur_point := VisiblePoint 0 (vp_col (cur_point (gs_cursor g')))\<rparr>\<rparr>
       in on_raw (fold_panics (\<lambda>row. storage_index_mut row (row_reset default_cell))
            [1..<st_len (gs_raw g')]) g')" if g': "resized_from rows cols g g'" for g'
  proof -
    define h where "h = g'\<lparr>gs_cursor := (gs_cursor g')\<lparr>cur_point := VisiblePoint 0 (vp_col (cur_point (gs_cursor g')))\<rparr>\<rparr>"
    have h: "sized_grid rows cols h" using g' by (simp add: h_def resized_from_def)
    have "ends (resized_from rows cols h) (on_raw (fold_panics (\<lambda>row. storage_index_mut row (row_reset default_cell))
            [1..<st_len (gs_raw h)]) h)"
      using simps(6) resized_from_simps(1) [OF resized_from_refl [OF h]]
      by (intro on_raw_step [OF resized_from_refl [OF h]] raw_modify_loop(1) row_reset_kept) auto
    moreover have "gs_cursor h = (gs_cursor g)\<lparr>cur_point := VisiblePoint 0 (vp_col (cur_point (gs_cursor g)))\<rparr>"
        "gs_saved_cursor h = gs_saved_cursor g"
      using resized_from_cursors [OF g'] by (simp_all add: h_def)
    ultimately show ?thesis
      unfolding Let_def h_def [symmetric] by (auto dest: resized_from_cursors elim!: ends_mono)
  qed
  show ?thesis
    unfolding clear_and_reset_saving_cursor_line_def clear_history_kept [OF assms(1)] bind.bind_lunit
    by (rule ends_bind [OF swap]) (rule reset)
qed

end
