(* ===== verification/Term_State.thy ===== *)
theory Term_State
  imports Term_Mode Term_Grid Flat_Correct
begin

unbundle bit_operations_syntax

text \<open>
  The state of the grid handler: \<^verbatim>\<open>app/src/terminal/model/grid/grid_handler.rs\<close> and the
  \<open>State\<close> of \<^verbatim>\<open>ansi_handler.rs\<close> beside it. The handler owns the visible grid and the
  scrollback and keeps the cursor, the dirty ranges and the modes in step. Images, secrets and the
  filter of the view are collaborators that only listen: what the handler tells them, and the events
  it sends, is the list of effects of the state.
\<close>

section \<open>State\<close>

datatype clipboard_type = CT_Clipboard | CT_Selection

datatype terminal_event =
  CursorBlinkingChange bool
| Bell
| MouseCursorDirty
| ClipboardStore clipboard_type "uchar list"
| ClipboardLoad clipboard_type nat string
| ImageReceived nat

datatype effect =
  Sent terminal_event
| EvictImagesAt point
| EvictImagesBetween point point
| EvictAllImagesBetween point point
| EvictAllImages
| EvictImage nat
| EvictPlacement nat nat
| AddImagePlacementData nat nat int nat
| PlaceImage nat nat point
| ClearSecrets
| ClearSecretsInRange point point
| ScanDirtyCells
| RefilterLines
| FilterDirtyLines
| ClearDisplayedRows
| TruncateDisplayedTo nat

datatype reset_grid_checks = RC_Enabled (received_osc: bool) | RC_Disabled

datatype full_grid_clear_behavior = FG_Clear | FG_Scroll

datatype scroll_delta = SD_Up nat | SD_Down nat

definition scroll_zero :: scroll_delta where
  "scroll_zero = SD_Down 0"

record handler =
  h_grid :: grid_storage
  h_flat :: flat_storage
  h_finished :: bool
  h_cell_width :: nat
  h_cell_height :: nat
  h_mode :: term_mode
  h_tabs :: "bool list"
  h_cursor_style :: cursor_style
  h_active_charset :: charset_index
  h_scroll_region :: "nat \<times> nat"
  h_is_alt_screen :: bool
  h_emoji_selector :: bool
  h_reset_grid_checks :: reset_grid_checks
  h_dirty_cells_range :: "point \<times> point"
  h_keyboard_mode :: keyboard_modes
  h_keyboard_mode_stack :: "keyboard_modes list"
  h_bottommost_visible_content_row :: "nat option"
  h_track_content_length :: bool
  h_full_grid_clear_behavior :: full_grid_clear_behavior
  h_find_dirty_rows_range :: "(nat \<times> nat) option"
  h_effects :: "effect list"

text \<open>
  What the code calls outside this repository: the widths of the \<open>unicode_width\<close> crate, the
  bounded deque that holds the keyboard modes, the base64 and UTF-8 decoders; and the one question
  the handler asks the image map, whether a row shows an image, which is answered from what the
  map was told; and the feature flag of the keyboard protocol.
\<close>

record libraries =
  char_width :: "uchar \<Rightarrow> nat option"
  str_width :: "uchar list \<Rightarrow> nat"
  bounded_push_back :: "nat \<Rightarrow> keyboard_modes list \<Rightarrow> keyboard_modes \<Rightarrow> keyboard_modes list"
  decode_text :: "nat list \<Rightarrow> uchar list option"
  image_in_row :: "effect list \<Rightarrow> nat \<Rightarrow> bool"
  kitty_keyboard :: bool

definition KEYBOARD_MODE_STACK_MAX_DEPTH :: nat where
  "KEYBOARD_MODE_STACK_MAX_DEPTH = 4096"

definition handler_new ::
  "bool \<Rightarrow> bool \<Rightarrow> nat \<Rightarrow> nat \<Rightarrow> nat \<Rightarrow> nat \<Rightarrow> nat \<Rightarrow> bool \<Rightarrow> bool \<Rightarrow> handler panics" where
  "handler_new sequential resize_fix rows columns width_px height_px max_scroll_limit
      is_alt_screen perform_reset_grid_checks =
    do { let grid_max_scroll_limit = 0;
         grid \<leftarrow> grid_new sequential resize_fix rows columns grid_max_scroll_limit;
         Some
          \<lparr>h_grid = grid, h_flat = flat_new columns (Some max_scroll_limit), h_finished = False,
           h_cell_width = width_px, h_cell_height = height_px, h_mode = default_term_mode,
           h_tabs = tabs_new columns, h_cursor_style = default_cursor_style,
           h_active_charset = G0, h_scroll_region = (0, rows), h_is_alt_screen = is_alt_screen,
           h_emoji_selector = True,
           h_reset_grid_checks = (if perform_reset_grid_checks then RC_Enabled False else RC_Disabled),
           h_dirty_cells_range = (Point 0 0, Point 0 0), h_keyboard_mode = KM_NO_MODE,
           h_keyboard_mode_stack = [], h_bottommost_visible_content_row = None,
           h_track_content_length = False, h_full_grid_clear_behavior = FG_Scroll,
           h_find_dirty_rows_range = None, h_effects = []\<rparr> }"

section \<open>Access to the parts\<close>

definition told :: "effect \<Rightarrow> handler \<Rightarrow> handler" where
  "told e h = h\<lparr>h_effects := h_effects h @ [e]\<rparr>"

definition send_terminal_event :: "terminal_event \<Rightarrow> handler \<Rightarrow> handler" where
  "send_terminal_event e = told (Sent e)"

definition on_grid :: "(grid_storage \<Rightarrow> grid_storage panics) \<Rightarrow> handler \<Rightarrow> handler panics" where
  "on_grid f h = do { g \<leftarrow> f (h_grid h); Some (h\<lparr>h_grid := g\<rparr>) }"

definition on_flat :: "(flat_storage \<Rightarrow> flat_storage panics) \<Rightarrow> handler \<Rightarrow> handler panics" where
  "on_flat f h = do { fs \<leftarrow> f (h_flat h); Some (h\<lparr>h_flat := fs\<rparr>) }"

definition the_cursor :: "handler \<Rightarrow> cursor" where
  "the_cursor h = gs_cursor (h_grid h)"

definition cursor_row :: "handler \<Rightarrow> nat" where
  "cursor_row h = vp_row (cur_point (the_cursor h))"

definition cursor_col :: "handler \<Rightarrow> nat" where
  "cursor_col h = vp_col (cur_point (the_cursor h))"

definition template_bg :: "handler \<Rightarrow> color" where
  "template_bg h = cell_bg (cur_template (the_cursor h))"

definition with_cursor :: "(cursor \<Rightarrow> cursor) \<Rightarrow> handler \<Rightarrow> handler" where
  "with_cursor f h = h\<lparr>h_grid := (h_grid h)\<lparr>gs_cursor := f (gs_cursor (h_grid h))\<rparr>\<rparr>"

definition set_col :: "(nat \<Rightarrow> nat) \<Rightarrow> cursor \<Rightarrow> cursor" where
  "set_col f c = c\<lparr>cur_point := VisiblePoint (vp_row (cur_point c)) (f (vp_col (cur_point c)))\<rparr>"

definition set_row :: "(nat \<Rightarrow> nat) \<Rightarrow> cursor \<Rightarrow> cursor" where
  "set_row f c = c\<lparr>cur_point := VisiblePoint (f (vp_row (cur_point c))) (vp_col (cur_point c))\<rparr>"

definition set_needs_wrap :: "bool \<Rightarrow> cursor \<Rightarrow> cursor" where
  "set_needs_wrap b c = c\<lparr>cur_input_needs_wrap := b\<rparr>"

definition needs_wrap :: "handler \<Rightarrow> bool" where
  "needs_wrap h = cur_input_needs_wrap (the_cursor h)"

subsection \<open>Dimensions\<close>

definition visible_rows :: "handler \<Rightarrow> nat" where
  "visible_rows h = gs_rows (h_grid h)"

definition handler_history_size :: "handler \<Rightarrow> nat" where
  "handler_history_size h = flat_total_rows (h_flat h)"

definition handler_total_rows :: "handler \<Rightarrow> nat" where
  "handler_total_rows h = visible_rows h + handler_history_size h"

definition handler_columns :: "handler \<Rightarrow> nat" where
  "handler_columns h = gs_columns (h_grid h)"

definition handler_num_lines_truncated :: "handler \<Rightarrow> nat" where
  "handler_num_lines_truncated h = fs_truncated (h_flat h)"

definition handler_cursor_point :: "handler \<Rightarrow> point" where
  "handler_cursor_point h = Point (handler_history_size h + cursor_row h) (cursor_col h)"

definition handler_rows_to_cursor :: "handler \<Rightarrow> nat" where
  "handler_rows_to_cursor h = cursor_row h + handler_history_size h"

definition max_content_row :: "handler \<Rightarrow> nat" where
  "max_content_row h =
    (let max_cursor_point = gs_max_cursor_point (h_grid h);
         is_last_row_empty = (vp_col max_cursor_point = 0)
     in handler_history_size h + vp_row max_cursor_point - (if is_last_row_empty then 1 else 0))"

definition is_mode_set :: "term_mode \<Rightarrow> handler \<Rightarrow> bool" where
  "is_mode_set m h \<longleftrightarrow> h_mode h AND m \<noteq> 0"

definition has_mode :: "term_mode \<Rightarrow> handler \<Rightarrow> bool" where
  "has_mode m h = mode_contains (h_mode h) m"

definition insert_mode :: "term_mode \<Rightarrow> handler \<Rightarrow> handler" where
  "insert_mode m h = h\<lparr>h_mode := mode_insert m (h_mode h)\<rparr>"

definition remove_mode :: "term_mode \<Rightarrow> handler \<Rightarrow> handler" where
  "remove_mode m h = h\<lparr>h_mode := mode_remove m (h_mode h)\<rparr>"

section \<open>The dirty ranges\<close>

definition dirty_cells_range :: "handler \<Rightarrow> (point \<times> point) option panics" where
  "dirty_cells_range h =
    (let r = h_dirty_cells_range h
     in if \<not> fst r < snd r then Some None
        else do { last \<leftarrow> point_wrapping_sub (snd r) (handler_columns h) 1; Some (Some (fst r, last)) })"

definition update_find_dirty_rows_range :: "nat \<Rightarrow> handler \<Rightarrow> handler" where
  "update_find_dirty_rows_range row h =
    h\<lparr>h_find_dirty_rows_range := Some
       (case h_find_dirty_rows_range h of
          Some (start, stop) \<Rightarrow> (min start row, max stop row)
        | None \<Rightarrow> (row, row))\<rparr>"

definition take_find_dirty_rows_range :: "handler \<Rightarrow> (nat \<times> nat) option \<times> handler" where
  "take_find_dirty_rows_range h = (h_find_dirty_rows_range h, h\<lparr>h_find_dirty_rows_range := None\<rparr>)"

definition update_dirty_cells_range :: "handler \<Rightarrow> handler panics" where
  "update_dirty_cells_range h =
    do { let cursor_point = handler_cursor_point h;
         cursor_point \<leftarrow> (if needs_wrap h then point_wrapping_add cursor_point (handler_columns h) 1
                         else Some cursor_point);
         let r = h_dirty_cells_range h;
         let h = h\<lparr>h_dirty_cells_range := (min (fst r) cursor_point, max (snd r) cursor_point)\<rparr>;
         Some (update_find_dirty_rows_range (p_row cursor_point) h) }"

definition reset_dirty_cells_range_to_cursor_point :: "handler \<Rightarrow> handler" where
  "reset_dirty_cells_range_to_cursor_point h =
    h\<lparr>h_dirty_cells_range := (handler_cursor_point h, handler_cursor_point h)\<rparr>"

section \<open>Moving the cursor\<close>

definition update_cursor :: "(cursor \<Rightarrow> cursor) \<Rightarrow> handler \<Rightarrow> handler panics" where
  "update_cursor f h =
    do { let h = h\<lparr>h_grid := update_max_cursor (h_grid h)\<rparr>;
         h \<leftarrow> update_dirty_cells_range h;
         update_dirty_cells_range (with_cursor f h) }"

text \<open>The assertion is checked in debug builds only.\<close>

definition move_cursor_forward :: "(cursor \<Rightarrow> cursor) \<Rightarrow> handler \<Rightarrow> handler panics" where
  "move_cursor_forward f h =
    do { let old_cursor_point = handler_cursor_point h;
         let h = with_cursor f h;
         assert_that (old_cursor_point \<le> handler_cursor_point h);
         Some h }"

section \<open>Rows of the grid and of the scrollback\<close>

datatype storage_row = SR_GridStorage nat | SR_FlatStorage nat

definition storage_row_of :: "nat \<Rightarrow> handler \<Rightarrow> storage_row option" where
  "storage_row_of row_idx h =
    (if row_idx \<ge> handler_total_rows h then None
     else Some (if flat_total_rows (h_flat h) \<le> row_idx
                then SR_GridStorage (row_idx - flat_total_rows (h_flat h))
                else SR_FlatStorage row_idx))"

definition handler_row :: "nat \<Rightarrow> handler \<Rightarrow> row option panics" where
  "handler_row i h =
    (case storage_row_of i h of
       None \<Rightarrow> Some None
     | Some (SR_GridStorage k) \<Rightarrow> grid_get k (h_grid h)
     | Some (SR_FlatStorage k) \<Rightarrow>
         do { r \<leftarrow> row_new (fs_columns (h_flat h)); read_row (h_flat h) k r })"

definition handler_row_wraps :: "nat \<Rightarrow> handler \<Rightarrow> bool panics" where
  "handler_row_wraps i h =
    (case storage_row_of i h of
       Some (SR_GridStorage k) \<Rightarrow> row_wraps k (h_grid h)
     | Some (SR_FlatStorage k) \<Rightarrow> Some (flat_row_wraps k (h_flat h))
     | None \<Rightarrow> Some False)"

definition cell_type_from :: "cell \<Rightarrow> cell_type" where
  "cell_type_from c =
    (if \<not> flags_intersects (cell_flags c)
           (F_WIDE_CHAR OR F_WIDE_CHAR_SPACER OR F_LEADING_WIDE_CHAR_SPACER) then RegularChar
     else if flags_intersects (cell_flags c) F_WIDE_CHAR then WideChar
     else if flags_intersects (cell_flags c) F_WIDE_CHAR_SPACER then WideCharSpacer
     else LeadingWideCharSpacer)"

definition handler_cell_type :: "point \<Rightarrow> handler \<Rightarrow> cell_type option panics" where
  "handler_cell_type p h =
    (case storage_row_of (p_row p) h of
       None \<Rightarrow> Some None
     | Some (SR_GridStorage k) \<Rightarrow>
         do { r \<leftarrow> grid_get k (h_grid h);
              Some (map_option cell_type_from (Option.bind r (row_get (p_col p)))) }
     | Some (SR_FlatStorage k) \<Rightarrow> flat_cell_type k (p_col p) (h_flat h))"

section \<open>Content tracking\<close>

definition has_visible_content :: "cell \<Rightarrow> bool" where
  "has_visible_content c =
    (case raw_content c of
       Char d \<Rightarrow> d \<noteq> DEFAULT_CHAR \<and> \<not> is_ascii_whitespace d
     | Str s \<Rightarrow> list_ex (\<lambda>d. d \<noteq> DEFAULT_CHAR \<and> \<not> is_ascii_whitespace d) s)"

definition row_has_visible_content :: "libraries \<Rightarrow> nat \<Rightarrow> handler \<Rightarrow> bool panics" where
  "row_has_visible_content L i h =
    do { r \<leftarrow> handler_row i h;
         Some (case r of
                 None \<Rightarrow> False
               | Some r \<Rightarrow> list_ex has_visible_content (row_inner r) \<or> image_in_row L (h_effects h) i) }"

text \<open>\<open>find\<close> over the rows in descending order.\<close>

fun find_row_down :: "(nat \<Rightarrow> bool panics) \<Rightarrow> nat \<Rightarrow> nat option panics" where
  "find_row_down p 0 = do { b \<leftarrow> p 0; Some (if b then Some 0 else None) }"
| "find_row_down p (Suc i) = do { b \<leftarrow> p (Suc i); if b then Some (Some (Suc i)) else find_row_down p i }"

definition bottommost_visible_content_row_backward :: "libraries \<Rightarrow> handler \<Rightarrow> nat option panics" where
  "bottommost_visible_content_row_backward L h =
    find_row_down (\<lambda>i. row_has_visible_content L i h)
      (vp_row (gs_max_cursor_point (h_grid h)) + handler_history_size h)"

definition track_content :: "libraries \<Rightarrow> handler \<Rightarrow> handler panics" where
  "track_content L h =
    (if h_track_content_length h then
       do { b \<leftarrow> bottommost_visible_content_row_backward L h;
            Some (h\<lparr>h_bottommost_visible_content_row := b\<rparr>) }
     else Some h)"

definition set_track_content_length :: "libraries \<Rightarrow> bool \<Rightarrow> handler \<Rightarrow> handler panics" where
  "set_track_content_length L track h = track_content L (h\<lparr>h_track_content_length := track\<rparr>)"

definition content_len :: "handler \<Rightarrow> nat" where
  "content_len h =
    (case h_bottommost_visible_content_row h of
       Some row \<Rightarrow> row + 1
     | None \<Rightarrow> vp_row (gs_max_cursor_point (h_grid h)) + handler_history_size h + 1)"

section \<open>Keyboard modes\<close>

text \<open>The complement of a \<open>bitflags\<close> value stays within the declared flags.\<close>

definition KM_ALL :: keyboard_modes where
  "KM_ALL = KM_DISAMBIGUATE_ESC_CODES OR KM_REPORT_EVENT_TYPES OR KM_REPORT_ALTERNATE_KEYS OR
     KM_REPORT_ALL_KEYS_AS_ESC OR KM_REPORT_ASSOCIATED_TEXT"

definition set_keyboard_mode ::
  "keyboard_modes \<Rightarrow> keyboard_modes_apply_behavior \<Rightarrow> handler \<Rightarrow> handler" where
  "set_keyboard_mode mode apply_mode h =
    (let current = h_keyboard_mode h;
         new_mode = (case apply_mode of
                       KA_Replace \<Rightarrow> mode
                     | KA_Union \<Rightarrow> current OR mode
                     | KA_Difference \<Rightarrow> current AND (NOT mode AND KM_ALL));
         h = h\<lparr>h_keyboard_mode := new_mode\<rparr>;
         h = h\<lparr>h_mode := h_mode h AND NOT TM_KEYBOARD_PROTOCOL\<rparr>
     in h\<lparr>h_mode := h_mode h OR term_mode_from_keyboard new_mode\<rparr>)"

definition push_keyboard_mode :: "libraries \<Rightarrow> keyboard_modes \<Rightarrow> handler \<Rightarrow> handler" where
  "push_keyboard_mode L mode h =
    (let h = h\<lparr>h_keyboard_mode_stack :=
               bounded_push_back L KEYBOARD_MODE_STACK_MAX_DEPTH (h_keyboard_mode_stack h) mode\<rparr>
     in set_keyboard_mode mode KA_Replace h)"

definition pop_keyboard_modes :: "nat \<Rightarrow> handler \<Rightarrow> handler" where
  "pop_keyboard_modes count h =
    (let removals = min count (length (h_keyboard_mode_stack h));
         h = h\<lparr>h_keyboard_mode_stack := (butlast ^^ removals) (h_keyboard_mode_stack h)\<rparr>;
         stack = h_keyboard_mode_stack h;
         mode = (if stack = [] then KM_NO_MODE else last stack)
     in set_keyboard_mode mode KA_Replace h)"

definition reset_keyboard_mode_state :: "handler \<Rightarrow> handler" where
  "reset_keyboard_mode_state h =
    set_keyboard_mode KM_NO_MODE KA_Replace (h\<lparr>h_keyboard_mode_stack := []\<rparr>)"

section \<open>The end of a chunk of input\<close>

definition on_finish_byte_processing :: "libraries \<Rightarrow> handler \<Rightarrow> handler panics" where
  "on_finish_byte_processing L h =
    do { let h = h\<lparr>h_grid := update_max_cursor (h_grid h)\<rparr>;
         h \<leftarrow> update_dirty_cells_range h;
         let h = told ScanDirtyCells h;
         let h = (if h_finished h \<and> handler_num_lines_truncated h > 0
                  then told RefilterLines h else told FilterDirtyLines h);
         let h = reset_dirty_cells_range_to_cursor_point h;
         h \<leftarrow> track_content L h;
         if h_is_alt_screen h then
           do { assert_that (flat_total_rows (h_flat h) = 0); Some h }
         else Some h }"

definition on_reset_grid :: "handler \<Rightarrow> handler panics" where
  "on_reset_grid h =
    (case h_reset_grid_checks h of
       RC_Enabled received \<Rightarrow>
         do { assert_that (\<not> received); Some (h\<lparr>h_reset_grid_checks := RC_Enabled True\<rparr>) }
     | RC_Disabled \<Rightarrow> Some h)"

definition disable_reset_grid_checks :: "handler \<Rightarrow> handler" where
  "disable_reset_grid_checks h = h\<lparr>h_reset_grid_checks := RC_Disabled\<rparr>"

definition reset_received_osc :: "handler \<Rightarrow> handler" where
  "reset_received_osc h =
    (case h_reset_grid_checks h of
       RC_Enabled _ \<Rightarrow> h\<lparr>h_reset_grid_checks := RC_Enabled False\<rparr>
     | RC_Disabled \<Rightarrow> h)"

section \<open>Finishing a grid\<close>

definition handler_truncate_to_cursor_rows :: "handler \<Rightarrow> handler panics" where
  "handler_truncate_to_cursor_rows h =
    do { k \<leftarrow> history_size (h_grid h);
         assert_that (k = 0);
         let num_visible_rows_after_cursor = visible_rows h - (cursor_row h + 1);
         r \<leftarrow> pop_rows num_visible_rows_after_cursor (h_flat h);
         let rows_to_push = fst r;
         let h = h\<lparr>h_flat := snd r\<rparr>;
         h \<leftarrow> (if rows_to_push \<noteq> [] then
                do { assert_that (total_rows (h_grid h) = gs_rows (h_grid h));
                     on_grid (on_raw (push_from_scrollback rows_to_push)) h }
              else Some h);
         k \<leftarrow> history_size (h_grid h);
         assert_that (k = length rows_to_push);
         h \<leftarrow> on_grid truncate_to_cursor_rows h;
         k \<leftarrow> history_size (h_grid h);
         assert_that (k = 0);
         Some (told (TruncateDisplayedTo (handler_rows_to_cursor h)) h) }"

definition handler_truncate_to_cursor_cols :: "handler \<Rightarrow> handler" where
  "handler_truncate_to_cursor_cols h = h\<lparr>h_grid := truncate_to_cursor_cols (h_grid h)\<rparr>"

text \<open>
  \<open>row[col]\<close> on a mutable row raises the dirty counter, which is then set to the cursor's column.
\<close>

definition reset_trailing_cells :: "nat \<Rightarrow> row \<Rightarrow> row panics" where
  "reset_trailing_cells col r =
    do { r \<leftarrow> fold_panics (\<lambda>c. row_index_mut c (\<lambda>_. default_cell)) [col + 1..<row_occ r] r;
         Some (r\<lparr>row_occ := col\<rparr>) }"

definition reset_trailing_cells_in_cursor_row :: "handler \<Rightarrow> handler panics" where
  "reset_trailing_cells_in_cursor_row h =
    on_grid (grid_visible_mut (cursor_row h) (reset_trailing_cells (cursor_col h))) h"

text \<open>
  \<open>finish\<close> up to its last step: with the flag \<open>MaximizeFlatStorage\<close> it then resizes the storage to
  one visible row.
\<close>

definition finish_grid :: "libraries \<Rightarrow> handler \<Rightarrow> handler panics" where
  "finish_grid L h =
    do { let h = h\<lparr>h_finished := True\<rparr>;
         h \<leftarrow> handler_truncate_to_cursor_rows h;
         h \<leftarrow> reset_trailing_cells_in_cursor_row h;
         let h = h\<lparr>h_grid := (h_grid h)\<lparr>gs_max_cursor_point := cur_point (gs_cursor (h_grid h))\<rparr>\<rparr>;
         on_finish_byte_processing L h }"

end
