(* ===== verification/Grapheme_Cursor.thy ===== *)
theory Grapheme_Cursor
  imports Term_State
begin

text \<open>
  The cursor that walks over the characters of a grid and its scrollback:
  \<^verbatim>\<open>app/src/terminal/model/grid/grapheme_cursor.rs\<close>. It steps over the spacers of wide characters,
  keeps the row it stands on, and becomes exhausted at the end of the text it may walk over. The
  grid it borrows is an argument of its operations.
\<close>

section \<open>State\<close>

datatype cursor_direction = CD_Up | CD_Down | CD_Left | CD_Right

datatype cursor_state = GC_Valid | GC_Exhausted cursor_direction | GC_Invalid

datatype wrap_at = Wrap_None | Wrap_Soft | Wrap_All

record grapheme_cursor =
  gc_cur :: point
  gc_state :: cursor_state
  gc_wrap :: wrap_at
  gc_cached_row_idx :: nat
  gc_cached_row :: "row option"

section \<open>Operations\<close>

definition current_point_valid :: "handler \<Rightarrow> grapheme_cursor \<Rightarrow> bool" where
  "current_point_valid h c \<longleftrightarrow>
     p_row (gc_cur c) < handler_total_rows h \<and> p_col (gc_cur c) < handler_columns h"

definition is_at_start_of_row :: "grapheme_cursor \<Rightarrow> bool" where
  "is_at_start_of_row c \<longleftrightarrow> p_col (gc_cur c) = 0"

definition is_at_end_of_row :: "handler \<Rightarrow> grapheme_cursor \<Rightarrow> bool panics" where
  "is_at_end_of_row h c = do { last \<leftarrow> usub (handler_columns h) 1; Some (p_col (gc_cur c) = last) }"

definition is_at_start_of_line :: "handler \<Rightarrow> grapheme_cursor \<Rightarrow> bool panics" where
  "is_at_start_of_line h c =
    (if \<not> is_at_start_of_row c then Some False
     else if p_row (gc_cur c) = 0 then Some True
     else do { w \<leftarrow> handler_row_wraps (p_row (gc_cur c) - 1) h; Some (\<not> w) })"

definition is_at_end_of_line :: "handler \<Rightarrow> grapheme_cursor \<Rightarrow> bool panics" where
  "is_at_end_of_line h c =
    do { e \<leftarrow> is_at_end_of_row h c;
         if \<not> e then Some False
         else do { last_row \<leftarrow> usub (handler_total_rows h) 1;
                   if p_row (gc_cur c) = last_row then Some True
                   else do { w \<leftarrow> handler_row_wraps (p_row (gc_cur c)) h; Some (\<not> w) } } }"

definition has_next :: "handler \<Rightarrow> grapheme_cursor \<Rightarrow> bool panics" where
  "has_next h c =
    (if \<not> current_point_valid h c then Some False
     else do { at_end_of_row \<leftarrow> is_at_end_of_row h c;
               stop \<leftarrow> (if gc_wrap c = Wrap_None \<and> at_end_of_row then Some True
                       else if gc_wrap c = Wrap_Soft then is_at_end_of_line h c else Some False);
               if stop then Some False
               else if \<not> at_end_of_row then Some True
               else do { last_row \<leftarrow> usub (handler_total_rows h) 1; Some (p_row (gc_cur c) < last_row) } })"

definition has_prev :: "handler \<Rightarrow> grapheme_cursor \<Rightarrow> bool panics" where
  "has_prev h c =
    (if \<not> current_point_valid h c then Some False
     else do { let at_start_of_row = is_at_start_of_row c;
               stop \<leftarrow> (if gc_wrap c = Wrap_None \<and> at_start_of_row then Some True
                       else if gc_wrap c = Wrap_Soft then is_at_start_of_line h c else Some False);
               if stop then Some False
               else Some (\<not> at_start_of_row \<or> p_row (gc_cur c) > 0) })"

definition update_cached_row :: "handler \<Rightarrow> grapheme_cursor \<Rightarrow> grapheme_cursor panics" where
  "update_cached_row h c =
    do { let c = c\<lparr>gc_cached_row_idx := p_row (gc_cur c)\<rparr>;
         r \<leftarrow> handler_row (gc_cached_row_idx c) h;
         Some (c\<lparr>gc_cached_row := r\<rparr>) }"

definition is_spacer_type :: "cell_type option \<Rightarrow> bool" where
  "is_spacer_type t \<longleftrightarrow> t = Some WideCharSpacer \<or> t = Some LeadingWideCharSpacer"

definition cursor_index :: "handler \<Rightarrow> grapheme_cursor \<Rightarrow> nat" where
  "cursor_index h c = as_one_dimensional_index (gc_cur c) (handler_columns h)"

text \<open>A step changes the position in reading order by one, which is why walking over spacers ends.\<close>

lemma has_next_valid: "has_next h c = Some True \<Longrightarrow> current_point_valid h c"
  by (simp add: has_next_def split: if_splits)

lemma index_bound: "c < n \<Longrightarrow> r < m \<Longrightarrow> r * n + c < m * (n :: nat)"
proof -
  assume "c < n" "r < m"
  then have "r * n + c < Suc r * n" by simp
  also have "\<dots> \<le> m * n" using \<open>r < m\<close> by (intro mult_le_mono1) simp
  finally show ?thesis .
qed

lemma cursor_index_bound: "current_point_valid h c \<Longrightarrow> cursor_index h c < handler_total_rows h * handler_columns h"
  by (simp add: current_point_valid_def cursor_index_def as_one_dimensional_index_def index_bound)

lemma cursor_index_forward:
  assumes "current_point_valid h c" and "point_wrapping_add (gc_cur c) (handler_columns h) 1 = Some p"
  shows "cursor_index h (c\<lparr>gc_cur := p\<rparr>) = Suc (cursor_index h c)" "p_col p < handler_columns h"
proof -
  have "0 < handler_columns h" using assms(1) by (auto simp: current_point_valid_def)
  from point_add_position [OF this, of "gc_cur c" 1] assms(2)
  show "cursor_index h (c\<lparr>gc_cur := p\<rparr>) = Suc (cursor_index h c)" "p_col p < handler_columns h"
    by (auto simp: cursor_index_def)
qed

lemma has_prev_valid:
  assumes "has_prev h c = Some True"
  shows "current_point_valid h c" and "0 < cursor_index h c"
proof -
  show v: "current_point_valid h c" using assms by (simp add: has_prev_def split: if_splits)
  have "\<not> is_at_start_of_row c \<or> 0 < p_row (gc_cur c)"
    using assms by (auto simp: has_prev_def split: if_splits bind_splits)
  then show "0 < cursor_index h c"
    using v by (auto simp: cursor_index_def as_one_dimensional_index_def is_at_start_of_row_def
        current_point_valid_def)
qed

lemma cursor_index_backward:
  assumes "current_point_valid h c" and "point_wrapping_sub (gc_cur c) (handler_columns h) 1 = Some p"
  shows "cursor_index h (c\<lparr>gc_cur := p\<rparr>) = cursor_index h c - 1" "p_col p < handler_columns h"
proof -
  have "p_col (gc_cur c) < handler_columns h" using assms(1) by (simp add: current_point_valid_def)
  from point_sub_position [OF this, of 1] assms(2)
  show "cursor_index h (c\<lparr>gc_cur := p\<rparr>) = cursor_index h c - 1" "p_col p < handler_columns h"
    by (auto simp: cursor_index_def)
qed

lemma has_prev_retreats:
  assumes "has_prev h c = Some True" and "point_wrapping_sub (gc_cur c) (handler_columns h) (Suc 0) = Some p"
  shows "cursor_index h (c\<lparr>gc_cur := p\<rparr>) < cursor_index h c"
  using cursor_index_backward(1) [of h c p] has_prev_valid [OF assms(1)] assms(2) by simp

function move_forward :: "handler \<Rightarrow> grapheme_cursor \<Rightarrow> grapheme_cursor panics" where
  "move_forward h c =
    (case gc_state c of
       GC_Valid \<Rightarrow>
         do { more \<leftarrow> has_next h c;
              if more then
                do { let start_row = p_row (gc_cur c);
                     p \<leftarrow> point_wrapping_add (gc_cur c) (handler_columns h) 1;
                     let c = c\<lparr>gc_cur := p\<rparr>;
                     t \<leftarrow> handler_cell_type p h;
                     c \<leftarrow> (if is_spacer_type t then move_forward h c else Some c);
                     if p_row (gc_cur c) \<noteq> start_row then update_cached_row h c else Some c }
              else Some (c\<lparr>gc_state := GC_Exhausted CD_Right\<rparr>) }
     | GC_Exhausted CD_Left \<Rightarrow> Some (c\<lparr>gc_state := GC_Valid\<rparr>)
     | _ \<Rightarrow> Some c)"
  by pat_completeness auto

termination
  by (relation "measure (\<lambda>(h, c). handler_total_rows h * handler_columns h - cursor_index h c)")
    (auto dest!: has_next_valid simp: cursor_index_forward(1) cursor_index_bound diff_less_mono2)

function move_backward :: "handler \<Rightarrow> grapheme_cursor \<Rightarrow> grapheme_cursor panics" where
  "move_backward h c =
    (case gc_state c of
       GC_Valid \<Rightarrow>
         do { more \<leftarrow> has_prev h c;
              if more then
                do { let start_row = p_row (gc_cur c);
                     p \<leftarrow> point_wrapping_sub (gc_cur c) (handler_columns h) 1;
                     let c = c\<lparr>gc_cur := p\<rparr>;
                     t \<leftarrow> handler_cell_type p h;
                     c \<leftarrow> (if is_spacer_type t then move_backward h c else Some c);
                     if p_row (gc_cur c) \<noteq> start_row then update_cached_row h c else Some c }
              else Some (c\<lparr>gc_state := GC_Exhausted CD_Left\<rparr>) }
     | GC_Exhausted CD_Right \<Rightarrow> Some (c\<lparr>gc_state := GC_Valid\<rparr>)
     | _ \<Rightarrow> Some c)"
  by pat_completeness auto

termination
  by (relation "measure (\<lambda>(h, c). cursor_index h c)") (auto simp: has_prev_retreats)

declare move_forward.simps [simp del] move_backward.simps [simp del]

definition cursor_new :: "handler \<Rightarrow> point \<Rightarrow> wrap_at \<Rightarrow> grapheme_cursor panics" where
  "cursor_new h p wrap =
    do { r \<leftarrow> handler_row (p_row p) h;
         case Option.bind r (row_get (p_col p)) of
           Some cell \<Rightarrow>
             (let cursor = \<lparr>gc_cur = p, gc_state = GC_Valid, gc_wrap = wrap,
                            gc_cached_row_idx = p_row p, gc_cached_row = r\<rparr>
              in if flags_intersects (cell_flags cell) F_WIDE_CHAR_SPACER then move_backward h cursor
                 else if flags_intersects (cell_flags cell) F_LEADING_WIDE_CHAR_SPACER
                 then move_forward h cursor else Some cursor)
         | None \<Rightarrow>
             Some \<lparr>gc_cur = p, gc_state = GC_Invalid, gc_wrap = wrap,
                   gc_cached_row_idx = p_row p, gc_cached_row = None\<rparr> }"

text \<open>The item is the cell under the cursor and its position.\<close>

definition current_item :: "grapheme_cursor \<Rightarrow> (cell \<times> point) option panics" where
  "current_item c =
    (case gc_state c of
       GC_Valid \<Rightarrow>
         (case gc_cached_row c of
            None \<Rightarrow> None
          | Some r \<Rightarrow> map_option (\<lambda>cell. Some (cell, gc_cur c)) (row_get (p_col (gc_cur c)) r))
     | _ \<Rightarrow> Some None)"

definition last_valid_position :: "grapheme_cursor \<Rightarrow> point" where
  "last_valid_position c = gc_cur c"

definition content_char :: "cell \<Rightarrow> uchar" where
  "content_char c = (if cell_c c = DEFAULT_CHAR then ch CHR '' '' else cell_c c)"

section \<open>Walking ends\<close>

text \<open>
  A valid cursor that moves either changes its position in the direction of the move or stops being
  valid, and it never leaves the grid.
\<close>

lemma update_cached_row_frame:
  "update_cached_row h c = Some c' \<Longrightarrow> gc_cur c' = gc_cur c \<and> gc_state c' = gc_state c \<and> gc_wrap c' = gc_wrap c"
  by (auto simp: update_cached_row_def Let_def split: bind_splits)

lemma move_backward_retreats:
  assumes "move_backward h c = Some c'" and "gc_state c = GC_Valid"
  shows "(gc_state c' = GC_Valid \<and> cursor_index h c' < cursor_index h c \<or> gc_state c' = GC_Exhausted CD_Left) \<and>
           cursor_index h c' \<le> cursor_index h c"
  using assms
proof (induction h c arbitrary: c' rule: move_backward.induct)
  case (1 h c)
  obtain more where more: "has_prev h c = Some more"
    using "1.prems" by (auto simp: move_backward.simps [of h c] split: bind_splits)
  show ?case
  proof (cases more)
    case False
    with "1.prems" more show ?thesis by (auto simp: move_backward.simps [of h c] cursor_index_def)
  next
    case True
    then have prev: "has_prev h c = Some True" using more by simp
    note valid = has_prev_valid [OF prev]
    obtain p t c1 where step: "point_wrapping_sub (gc_cur c) (handler_columns h) 1 = Some p"
        "handler_cell_type p h = Some t"
        "(if is_spacer_type t then move_backward h (c\<lparr>gc_cur := p\<rparr>) else Some (c\<lparr>gc_cur := p\<rparr>)) = Some c1"
        "(if p_row (gc_cur c1) \<noteq> p_row (gc_cur c) then update_cached_row h c1 else Some c1) = Some c'"
      using "1.prems" prev by (auto simp: move_backward.simps [of h c] Let_def split: bind_splits)
    have idx: "cursor_index h (c\<lparr>gc_cur := p\<rparr>) < cursor_index h c"
      using cursor_index_backward(1) [OF valid(1) step(1)] valid(2) by simp
    have same: "cursor_index h c' = cursor_index h c1" "gc_state c' = gc_state c1"
      using step(4) update_cached_row_frame [of h c1 c'] by (auto simp: cursor_index_def split: if_splits)
    show ?thesis
    proof (cases "is_spacer_type t")
      case False
      with step(3) idx same "1.prems"(2) show ?thesis by auto
    next
      case spacer: True
      have "(gc_state c1 = GC_Valid \<and> cursor_index h c1 < cursor_index h (c\<lparr>gc_cur := p\<rparr>) \<or>
          gc_state c1 = GC_Exhausted CD_Left) \<and> cursor_index h c1 \<le> cursor_index h (c\<lparr>gc_cur := p\<rparr>)"
        using "1.IH" [OF "1.prems"(2) more True refl step(1) refl step(2) spacer] step(3) spacer "1.prems"(2)
        by simp
      with idx same show ?thesis by auto
    qed
  qed
qed

end
