(* ===== verification/Term_Handler.thy ===== *)
theory Term_Handler
  imports Grapheme_Cursor
begin

unbundle bit_operations_syntax

text \<open>
  The operations of the terminal on its grid: the implementation of the escape-sequence handler in
  \<^verbatim>\<open>app/src/terminal/model/grid/ansi_handler.rs\<close>. Each returns the new state, or None where the
  code panics; operations that scroll also return by how much. Replies are the characters written.
  Actions on images are not modelled; \<open>Spec2Isabelle\<close> says what else is left out.
\<close>

section \<open>Helpers\<close>

definition advance_cursor_by_one_cell :: "handler \<Rightarrow> handler panics" where
  "advance_cursor_by_one_cell h =
    (let num_cols = handler_columns h
     in move_cursor_forward (\<lambda>c. if vp_col (cur_point c) + 1 < num_cols then set_col Suc c
                                  else set_needs_wrap True c) h)"

text \<open>
  A wide character is two cells; overwriting one of them blanks both. The two boundaries are the
  start of a run of cells that is going to change, and the first cell after it.
\<close>

definition blank_start_boundary :: "nat \<Rightarrow> nat \<Rightarrow> color \<Rightarrow> cell list \<Rightarrow> cell list panics" where
  "blank_start_boundary num_cols col bg cs =
    do { c \<leftarrow> nth_checked cs col;
         cs \<leftarrow> (if flags_contains (cell_flags c) F_WIDE_CHAR_SPACER \<and> col > 0 then
                 do { cs \<leftarrow> update_checked cs col (cell_from_color bg);
                      update_checked cs (col - 1) (cell_from_color bg) }
               else Some cs);
         c \<leftarrow> nth_checked cs col;
         if flags_contains (cell_flags c) F_WIDE_CHAR \<and> col + 1 < num_cols then
           do { cs \<leftarrow> update_checked cs col (cell_from_color bg);
                update_checked cs (col + 1) (cell_from_color bg) }
         else Some cs }"

definition blank_end_boundary :: "nat \<Rightarrow> color \<Rightarrow> cell list \<Rightarrow> cell list panics" where
  "blank_end_boundary col bg cs =
    do { c \<leftarrow> nth_checked cs col;
         if flags_contains (cell_flags c) F_WIDE_CHAR_SPACER \<and> col > 0 then
           do { cs \<leftarrow> update_checked cs col (cell_from_color bg);
                update_checked cs (col - 1) (cell_from_color bg) }
         else Some cs }"

definition reset_wide_char_at_start_boundary ::
  "nat \<Rightarrow> nat \<Rightarrow> color \<Rightarrow> handler \<Rightarrow> handler panics" where
  "reset_wide_char_at_start_boundary row col bg h =
    on_grid (grid_index_mut row (row_full_mut (blank_start_boundary (handler_columns h) col bg))) h"

definition reset_wide_char_at_end_boundary ::
  "nat \<Rightarrow> nat \<Rightarrow> color \<Rightarrow> handler \<Rightarrow> handler panics" where
  "reset_wide_char_at_end_boundary row col bg h =
    on_grid (grid_index_mut row (row_full_mut (blank_end_boundary col bg))) h"

text \<open>
  \<open>write_at_cursor\<close> returns the written cell to its caller; \<open>f\<close> is what the caller does to it.
\<close>

definition overwrite_wide_char :: "point \<Rightarrow> handler \<Rightarrow> handler panics" where
  "overwrite_wide_char p h =
    do { let row = p_row p; let col = p_col p;
         c \<leftarrow> grid_cell row col (h_grid h);
         let cf = cell_flags c;
         if flags_intersects cf (F_WIDE_CHAR OR F_WIDE_CHAR_SPACER) then
           do { let bg = template_bg h;
                let num_cols = handler_columns h;
                h \<leftarrow> (if col \<le> 1 \<and> row > 0 \<and>
                         (col = 0 \<and> flags_contains cf F_WIDE_CHAR \<or>
                          col = 1 \<and> flags_contains cf F_WIDE_CHAR_SPACER) then
                       do { last \<leftarrow> usub num_cols 1;
                            on_grid (grid_cell_mut (row - 1) last
                              (\<lambda>c. c\<lparr>cell_flags := flags_remove F_LEADING_WIDE_CHAR_SPACER (cell_flags c)\<rparr>)) h }
                     else Some h);
                if flags_contains cf F_WIDE_CHAR_SPACER \<and> col > 0 then
                  do { h \<leftarrow> on_grid (grid_cell_mut row col (\<lambda>_. cell_from_color bg)) h;
                       on_grid (grid_cell_mut row (col - 1) (\<lambda>_. cell_from_color bg)) h }
                else if flags_contains cf F_WIDE_CHAR \<and> col + 1 < num_cols then
                  do { h \<leftarrow> on_grid (grid_cell_mut row col (\<lambda>_. cell_from_color bg)) h;
                       on_grid (grid_cell_mut row (col + 1) (\<lambda>_. cell_from_color bg)) h }
                else Some h }
         else Some h }"

definition write_cell :: "uchar \<Rightarrow> cell \<Rightarrow> cell \<Rightarrow> cell" where
  "write_cell c template cl =
    (drop_extra cl)\<lparr>cell_c := c, cell_fg := cell_fg template, cell_bg := cell_bg template,
                    cell_flags := cell_flags template\<rparr>"

definition write_at_cursor :: "uchar \<Rightarrow> (cell \<Rightarrow> cell) \<Rightarrow> handler \<Rightarrow> handler panics" where
  "write_at_cursor c f h =
    do { let h = told (EvictImagesAt (handler_cursor_point h)) h;
         p \<leftarrow> cursor_point (h_grid h);
         h \<leftarrow> overwrite_wide_char p h;
         charset \<leftarrow> charsets_index (cur_charsets (the_cursor h)) (h_active_charset h);
         on_grid (cursor_cell (\<lambda>cl. f (write_cell (charset_map charset c) (cur_template (the_cursor h)) cl))) h }"

definition insert_flags :: "flags \<Rightarrow> cell \<Rightarrow> cell" where
  "insert_flags f c = c\<lparr>cell_flags := flags_insert f (cell_flags c)\<rparr>"

section \<open>Scrolling\<close>

text \<open>The rows that scroll out of the region are kept, unless the screen is the alternate one.\<close>

definition scroll_region_up :: "nat \<times> nat \<Rightarrow> nat \<Rightarrow> handler \<Rightarrow> handler panics" where
  "scroll_region_up region lines h =
    do { h \<leftarrow> (if \<not> h_is_alt_screen h then
                fold_panics (\<lambda>row_idx h.
                    do { r \<leftarrow> grid_visible (h_grid h) row_idx; on_flat (push_rows [r]) h })
                  [fst region..<min (snd region) (fst region + lines)] h
              else Some h);
         h \<leftarrow> on_grid (scroll_up (fst region) (snd region) lines) h;
         update_dirty_cells_range h }"

definition scroll_down_relative :: "nat \<Rightarrow> nat \<Rightarrow> handler \<Rightarrow> (scroll_delta \<times> handler) panics" where
  "scroll_down_relative origin_row lines h =
    do { n \<leftarrow> usub (snd (h_scroll_region h)) (fst (h_scroll_region h));
         let lines = min lines n;
         n \<leftarrow> usub (snd (h_scroll_region h)) origin_row;
         let lines = min lines n;
         h \<leftarrow> on_grid (scroll_down origin_row (snd (h_scroll_region h)) lines) h;
         Some (SD_Down lines, h) }"

definition scroll_up_relative :: "nat \<Rightarrow> nat \<Rightarrow> handler \<Rightarrow> (scroll_delta \<times> handler) panics" where
  "scroll_up_relative origin_row lines h =
    do { n \<leftarrow> usub (snd (h_scroll_region h)) (fst (h_scroll_region h));
         let lines = min lines n;
         h \<leftarrow> scroll_region_up (origin_row, snd (h_scroll_region h)) lines h;
         Some (SD_Up lines, h) }"

definition handler_scroll_up :: "nat \<Rightarrow> handler \<Rightarrow> (scroll_delta \<times> handler) panics" where
  "handler_scroll_up lines h = scroll_up_relative (fst (h_scroll_region h)) lines h"

definition handler_scroll_down :: "nat \<Rightarrow> handler \<Rightarrow> (scroll_delta \<times> handler) panics" where
  "handler_scroll_down lines h = scroll_down_relative (fst (h_scroll_region h)) lines h"

definition in_region :: "nat \<Rightarrow> handler \<Rightarrow> bool" where
  "in_region row h \<longleftrightarrow> fst (h_scroll_region h) \<le> row \<and> row < snd (h_scroll_region h)"

definition insert_blank_lines :: "nat \<Rightarrow> handler \<Rightarrow> (scroll_delta \<times> handler) panics" where
  "insert_blank_lines lines h =
    (let origin = cursor_row h
     in if in_region origin h then scroll_down_relative origin lines h else Some (scroll_zero, h))"

definition delete_lines :: "nat \<Rightarrow> handler \<Rightarrow> (scroll_delta \<times> handler) panics" where
  "delete_lines lines h =
    do { let origin = cursor_row h;
         n \<leftarrow> usub (visible_rows h) origin;
         let lines = min n lines;
         if lines > 0 \<and> in_region origin h then scroll_up_relative origin lines h
         else Some (scroll_zero, h) }"

section \<open>Lines\<close>

definition carriage_return :: "handler \<Rightarrow> handler panics" where
  "carriage_return h = update_cursor (\<lambda>c. set_needs_wrap False (set_col (\<lambda>_. 0) c)) h"

definition linefeed :: "handler \<Rightarrow> (scroll_delta \<times> handler) panics" where
  "linefeed h =
    (let next = cursor_row h + 1
     in if next = snd (h_scroll_region h) then handler_scroll_up 1 h
        else do { h \<leftarrow> (if next < visible_rows h then move_cursor_forward (set_row Suc) h else Some h);
                  Some (scroll_zero, h) })"

definition newline :: "handler \<Rightarrow> handler panics" where
  "newline h =
    do { r \<leftarrow> linefeed h;
         if has_mode TM_LINE_FEED_NEW_LINE (snd r) then carriage_return (snd r) else Some (snd r) }"

definition reverse_index :: "handler \<Rightarrow> (scroll_delta \<times> handler) panics" where
  "reverse_index h =
    (if cursor_row h = fst (h_scroll_region h) then handler_scroll_down 1 h
     else do { h \<leftarrow> update_cursor (set_row (\<lambda>r. r - 1)) h; Some (scroll_zero, h) })"

text \<open>The cursor goes to the start of the next line, which is not behind it after a scroll.\<close>

definition wrapline :: "handler \<Rightarrow> handler panics" where
  "wrapline h =
    (if \<not> has_mode TM_LINE_WRAP h then Some h
     else
       do { h \<leftarrow> on_grid (cursor_cell (insert_flags F_WRAPLINE)) h;
            h \<leftarrow> (if cursor_row h + 1 \<ge> snd (h_scroll_region h) then map_option snd (linefeed h)
                 else move_cursor_forward (set_row Suc) h);
            Some (with_cursor (\<lambda>c. set_needs_wrap False (set_col (\<lambda>_. 0) c)) h) })"

section \<open>Input\<close>

text \<open>A character of no width joins the content of the cell before the cursor.\<close>

definition input_zero_width :: "libraries \<Rightarrow> uchar \<Rightarrow> handler \<Rightarrow> handler panics" where
  "input_zero_width L c h =
    do { let col = (if needs_wrap h then cursor_col h else cursor_col h - 1);
         p \<leftarrow> cursor_point (h_grid h);
         let row = p_row p;
         cl \<leftarrow> grid_cell row col (h_grid h);
         let col = (if flags_contains (cell_flags cl) F_WIDE_CHAR_SPACER then col - 1 else col);
         h \<leftarrow> on_grid (grid_cell_mut row col (push_zerowidth c)) h;
         cl \<leftarrow> grid_cell row col (h_grid h);
         case (case raw_content cl of
                 Str s \<Rightarrow> Some (str_width L s)
               | Char d \<Rightarrow> char_width L d) of
           None \<Rightarrow> Some h
         | Some w \<Rightarrow>
             if w = 2 \<and> h_emoji_selector h then
               do { h \<leftarrow> on_grid (grid_cell_mut row col (insert_flags F_WIDE_CHAR)) h;
                    h \<leftarrow> write_at_cursor DEFAULT_CHAR (insert_flags F_WIDE_CHAR_SPACER) h;
                    advance_cursor_by_one_cell h }
             else Some h }"

text \<open>In insert mode the cells from the cursor on move right to make room.\<close>

definition insert_room :: "nat \<Rightarrow> handler \<Rightarrow> handler panics" where
  "insert_room width h =
    do { let num_cols = handler_columns h;
         p \<leftarrow> cursor_point (h_grid h);
         let col = cursor_col h;
         let bg = template_bg h;
         h \<leftarrow> reset_wide_char_at_start_boundary (p_row p) col bg h;
         push_off \<leftarrow> usub num_cols width;
         h \<leftarrow> reset_wide_char_at_end_boundary (p_row p) push_off bg h;
         on_grid (grid_index_mut (p_row p) (row_full_mut
           (fold_panics (\<lambda>i cs. swap_checked cs (i + width) i) (rev [col..<push_off])))) h }"

definition write_wide_char :: "uchar \<Rightarrow> handler \<Rightarrow> handler panics" where
  "write_wide_char c h =
    do { h \<leftarrow> write_at_cursor c (insert_flags F_WIDE_CHAR) h;
         h \<leftarrow> move_cursor_forward (set_col Suc) h;
         h \<leftarrow> write_at_cursor DEFAULT_CHAR (insert_flags F_WIDE_CHAR_SPACER) h;
         advance_cursor_by_one_cell h }"

definition input :: "libraries \<Rightarrow> uchar \<Rightarrow> handler \<Rightarrow> handler panics" where
  "input L c h =
    (case char_width L c of
       None \<Rightarrow> Some h
     | Some width \<Rightarrow>
         if width = 0 then input_zero_width L c h
         else
           do { let num_cols = handler_columns h;
                h \<leftarrow> (if needs_wrap h then wrapline h else Some h);
                h \<leftarrow> (if has_mode TM_INSERT h \<and> cursor_col h + width < num_cols
                     then insert_room width h else Some h);
                if width = 1 then
                  do { h \<leftarrow> write_at_cursor c id h; advance_cursor_by_one_cell h }
                else if cursor_col h + 1 \<ge> num_cols then
                  (if has_mode TM_LINE_WRAP h then
                     do { h \<leftarrow> write_at_cursor DEFAULT_CHAR (insert_flags F_LEADING_WIDE_CHAR_SPACER) h;
                          h \<leftarrow> wrapline h;
                          write_wide_char c h }
                   else move_cursor_forward (set_needs_wrap True) h)
                else write_wide_char c h })"

section \<open>Moving the cursor\<close>

definition goto :: "nat \<Rightarrow> nat \<Rightarrow> handler \<Rightarrow> handler panics" where
  "goto row column h =
    do { b \<leftarrow> (if has_mode TM_ORIGIN h then
                do { max_y \<leftarrow> usub (snd (h_scroll_region h)) 1; Some (fst (h_scroll_region h), max_y) }
              else do { max_y \<leftarrow> usub (visible_rows h) 1; Some (0, max_y) });
         let columns = handler_columns h;
         update_cursor (\<lambda>c. set_needs_wrap False
           (c\<lparr>cur_point := VisiblePoint (min (row + fst b) (snd b)) (min column (columns - 1))\<rparr>)) h }"

definition goto_line :: "nat \<Rightarrow> handler \<Rightarrow> handler panics" where
  "goto_line row h = goto row (cursor_col h) h"

definition goto_col :: "nat \<Rightarrow> handler \<Rightarrow> handler panics" where
  "goto_col column h = goto (cursor_row h) column h"

definition move_up :: "nat \<Rightarrow> handler \<Rightarrow> handler panics" where
  "move_up lines h = goto (cursor_row h - lines) (cursor_col h) h"

definition move_down :: "nat \<Rightarrow> handler \<Rightarrow> handler panics" where
  "move_down lines h = goto (cursor_row h + lines) (cursor_col h) h"

definition move_down_and_cr :: "nat \<Rightarrow> handler \<Rightarrow> handler panics" where
  "move_down_and_cr lines h = goto (cursor_row h + lines) 0 h"

definition move_up_and_cr :: "nat \<Rightarrow> handler \<Rightarrow> handler panics" where
  "move_up_and_cr lines h = goto (cursor_row h - lines) 0 h"

definition handler_move_forward :: "nat \<Rightarrow> handler \<Rightarrow> handler panics" where
  "handler_move_forward columns h =
    (let num_cols = handler_columns h
     in move_cursor_forward
          (\<lambda>c. set_needs_wrap False (set_col (\<lambda>col. min (col + columns) (num_cols - 1)) c)) h)"

definition handler_move_backward :: "nat \<Rightarrow> handler \<Rightarrow> handler panics" where
  "handler_move_backward columns h =
    update_cursor (\<lambda>c. set_needs_wrap False (set_col (\<lambda>col. col - columns) c)) h"

definition backspace :: "handler \<Rightarrow> handler panics" where
  "backspace h =
    (if cursor_col h > 0
     then update_cursor (\<lambda>c. set_needs_wrap False (set_col (\<lambda>col. col - 1) c)) h else Some h)"

definition save_cursor_position :: "handler \<Rightarrow> handler" where
  "save_cursor_position h = h\<lparr>h_grid := (h_grid h)\<lparr>gs_saved_cursor := gs_cursor (h_grid h)\<rparr>\<rparr>"

definition restore_cursor_position :: "handler \<Rightarrow> handler panics" where
  "restore_cursor_position h =
    (let saved_cursor = gs_saved_cursor (h_grid h) in update_cursor (\<lambda>_. saved_cursor) h)"

section \<open>Tabs\<close>

text \<open>The inner loop of \<open>put_tab\<close>: forward to the next stop, or to the last column.\<close>

lemma move_cursor_forward_tabs:
  "move_cursor_forward f h = Some h' \<Longrightarrow> h_tabs h' = h_tabs h"
  by (auto simp: move_cursor_forward_def Let_def with_cursor_def split: bind_splits)

lemma move_cursor_forward_col:
  "move_cursor_forward (set_col f) h = Some h' \<Longrightarrow> cursor_col h' = f (cursor_col h)"
  by (auto simp: move_cursor_forward_def Let_def with_cursor_def cursor_col_def the_cursor_def set_col_def
      split: bind_splits)

function to_next_tab :: "handler \<Rightarrow> handler panics" where
  "to_next_tab h =
    (if cursor_col h + 1 = handler_columns h then Some h
     else do { h \<leftarrow> move_cursor_forward (set_col Suc) h;
               stop \<leftarrow> nth_checked (h_tabs h) (cursor_col h);
               if stop then Some h else to_next_tab h })"
  by pat_completeness auto

termination
  by (relation "measure (\<lambda>h. length (h_tabs h) - cursor_col h)")
    (auto simp: nth_checked_def move_cursor_forward_tabs move_cursor_forward_col
      intro!: diff_less_mono2 split: if_splits)

declare to_next_tab.simps [simp del]

fun put_tabs :: "nat \<Rightarrow> handler \<Rightarrow> handler panics" where
  "put_tabs 0 h = Some h"
| "put_tabs (Suc count) h =
    (if cursor_col h < handler_columns h then
       do { charset \<leftarrow> charsets_index (cur_charsets (the_cursor h)) (h_active_charset h);
            let c = charset_map charset 9;
            h \<leftarrow> on_grid (cursor_cell (\<lambda>cl.
                   if cell_c cl = DEFAULT_CHAR \<or> cell_c cl = ch CHR '' '' then cl\<lparr>cell_c := c\<rparr> else cl)) h;
            h \<leftarrow> to_next_tab h;
            put_tabs count h }
     else Some h)"

definition put_tab :: "nat \<Rightarrow> handler \<Rightarrow> handler panics" where
  "put_tab count h = (if needs_wrap h then wrapline h else put_tabs count h)"

definition set_horizontal_tabstop :: "handler \<Rightarrow> handler panics" where
  "set_horizontal_tabstop h =
    do { tabs \<leftarrow> update_checked (h_tabs h) (cursor_col h) True; Some (h\<lparr>h_tabs := tabs\<rparr>) }"

text \<open>The stop before the column, if there is one.\<close>

fun previous_tab :: "bool list \<Rightarrow> nat \<Rightarrow> nat option panics" where
  "previous_tab tabs 0 = Some None"
| "previous_tab tabs (Suc i) =
    do { stop \<leftarrow> nth_checked tabs i; if stop then Some (Some i) else previous_tab tabs i }"

definition move_backward_tab :: "handler \<Rightarrow> handler panics" where
  "move_backward_tab h =
    do { t \<leftarrow> previous_tab (h_tabs h) (cursor_col h);
         let col = (case t of Some i \<Rightarrow> i | None \<Rightarrow> cursor_col h);
         update_cursor (set_col (\<lambda>_. col)) h }"

definition move_backward_tabs :: "nat \<Rightarrow> handler \<Rightarrow> handler panics" where
  "move_backward_tabs count h = fold_panics (\<lambda>_. move_backward_tab) [0..<count] h"

definition clear_tabs :: "tabulation_clear_mode \<Rightarrow> handler \<Rightarrow> handler panics" where
  "clear_tabs mode h =
    (case mode of
       TCM_Current \<Rightarrow>
         do { tabs \<leftarrow> update_checked (h_tabs h) (cursor_col h) False; Some (h\<lparr>h_tabs := tabs\<rparr>) }
     | TCM_All \<Rightarrow> Some (h\<lparr>h_tabs := tabs_clear_all (h_tabs h)\<rparr>))"

end
