(* ===== verification/Term_Screen.thy ===== *)
theory Term_Screen
  imports Term_Handler
begin

unbundle bit_operations_syntax

text \<open>
  The rest of the handler in \<^verbatim>\<open>app/src/terminal/model/grid/ansi_handler.rs\<close>: erasing, clearing,
  attributes, modes, reports and the placing of images; and the datatype of all its calls, with the
  function that runs them.
\<close>

section \<open>Inserting and erasing cells\<close>

abbreviation blank :: "color \<Rightarrow> cell \<Rightarrow> cell" where
  "blank bg \<equiv> (\<lambda>_. cell_from_color bg)"

definition insert_blank :: "nat \<Rightarrow> handler \<Rightarrow> handler panics" where
  "insert_blank count h =
    do { let bg = template_bg h;
         room \<leftarrow> usub (handler_columns h) (cursor_col h);
         let count = min count room;
         let source = cursor_col h;
         let destination = cursor_col h + count;
         num_cells \<leftarrow> usub (handler_columns h) destination;
         p \<leftarrow> cursor_point (h_grid h);
         h \<leftarrow> reset_wide_char_at_start_boundary (p_row p) source bg h;
         let cols = handler_columns h;
         push_off \<leftarrow> usub cols count;
         h \<leftarrow> (if push_off < cols then reset_wide_char_at_end_boundary (p_row p) push_off bg h else Some h);
         on_grid (grid_index_mut (p_row p) (row_full_mut (\<lambda>cs.
           do { cs \<leftarrow> fold_panics (\<lambda>offset cs. swap_checked cs (destination + offset) (source + offset))
                       (rev [0..<num_cells]) cs;
                map_range (blank bg) source destination cs }))) h }"

definition erase_chars :: "nat \<Rightarrow> handler \<Rightarrow> handler panics" where
  "erase_chars count h =
    (if count = 0 then Some h
     else
       do { let start = cursor_col h;
            let stop = min (start + count) (handler_columns h);
            let bg = template_bg h;
            p \<leftarrow> cursor_point (h_grid h);
            h \<leftarrow> reset_wide_char_at_start_boundary (p_row p) start bg h;
            h \<leftarrow> (if stop < handler_columns h
                 then reset_wide_char_at_end_boundary (p_row p) stop bg h else Some h);
            on_grid (grid_index_mut (p_row p) (row_range_mut start stop (blank bg))) h })"

definition delete_chars :: "nat \<Rightarrow> handler \<Rightarrow> handler panics" where
  "delete_chars count h =
    (if count = 0 then Some h
     else
       do { let cols = handler_columns h;
            let bg = template_bg h;
            let count = min count cols;
            let start = cursor_col h;
            last \<leftarrow> usub cols 1;
            let stop = min (start + count) last;
            num_cells \<leftarrow> usub cols stop;
            p \<leftarrow> cursor_point (h_grid h);
            h \<leftarrow> reset_wide_char_at_start_boundary (p_row p) start bg h;
            h \<leftarrow> (if stop < cols then reset_wide_char_at_end_boundary (p_row p) stop bg h else Some h);
            on_grid (grid_index_mut (p_row p) (row_full_mut (\<lambda>cs.
              do { cs \<leftarrow> fold_panics (\<lambda>offset cs. swap_checked cs (start + offset) (stop + offset))
                          [0..<num_cells] cs;
                   stop \<leftarrow> usub cols count;
                   map_range (blank bg) stop (length cs) cs }))) h })"

section \<open>Clearing\<close>

definition clear_line :: "line_clear_mode \<Rightarrow> handler \<Rightarrow> handler panics" where
  "clear_line mode h =
    do { let bg = template_bg h;
         p \<leftarrow> cursor_point (h_grid h);
         h \<leftarrow> (case mode of
                LCM_Right \<Rightarrow> reset_wide_char_at_start_boundary (p_row p) (p_col p) bg h
              | LCM_Left \<Rightarrow>
                  if p_col p + 1 < handler_columns h
                  then reset_wide_char_at_end_boundary (p_row p) (p_col p + 1) bg h else Some h
              | LCM_All \<Rightarrow> Some h);
         h \<leftarrow> on_grid (grid_index_mut (p_row p) (case mode of
                LCM_Right \<Rightarrow> row_range_from_mut (p_col p) (blank bg)
              | LCM_Left \<Rightarrow> row_range_to_inclusive_mut (p_col p) (blank bg)
              | LCM_All \<Rightarrow> row_full_mut (\<lambda>cs. Some (map (blank bg) cs)))) h;
         let start_point = (case mode of LCM_Left \<Rightarrow> Point (p_row p) 0 | _ \<Rightarrow> p);
         let end_point = (case mode of LCM_Left \<Rightarrow> p | _ \<Rightarrow> Point (p_row p) USIZE_MAX);
         Some (told (EvictImagesBetween start_point end_point) h) }"

definition clear_visible_rows_in_place :: "libraries \<Rightarrow> color \<Rightarrow> handler \<Rightarrow> handler panics" where
  "clear_visible_rows_in_place L bg h =
    do { h \<leftarrow> on_grid (region_full_each (blank bg)) h;
         let visible_start_row = handler_history_size h;
         let visible_end_row = visible_start_row + visible_rows h;
         h \<leftarrow> (if visible_start_row < visible_end_row then
                do { last \<leftarrow> usub visible_end_row 1;
                     let h = told (EvictAllImagesBetween (Point visible_start_row 0) (Point last USIZE_MAX)) h;
                     Some (if handler_columns h > 0
                           then told (ClearSecretsInRange (Point visible_start_row 0)
                                  (Point last (handler_columns h - 1))) h else h) }
              else Some h);
         let h = told ClearDisplayedRows h;
         h \<leftarrow> track_content L h;
         Some (h\<lparr>h_dirty_cells_range := (Point visible_start_row 0, Point visible_end_row 0)\<rparr>) }"

text \<open>
  \<open>clear_viewport\<close>: walk back over the empty cells at the end, then scroll everything before into
  the scrollback. The walk ends because each step goes back or exhausts the cursor.
\<close>

lemma current_item_valid: "current_item c = Some (Some i) \<Longrightarrow> gc_state c = GC_Valid"
  by (auto simp: current_item_def split: cursor_state.splits)

function skip_empty_back :: "handler \<Rightarrow> grapheme_cursor \<Rightarrow> grapheme_cursor panics" where
  "skip_empty_back h c =
    do { item \<leftarrow> current_item c;
         case item of
           None \<Rightarrow> Some c
         | Some (cell, p) \<Rightarrow>
             if \<not> cell_is_empty cell \<or> p_row p \<ge> visible_rows h then Some c
             else do { c \<leftarrow> move_backward h c; skip_empty_back h c } }"
  by pat_completeness auto

termination
proof (relation "measure (\<lambda>(h, c). if gc_state c = GC_Valid then Suc (cursor_index h c) else 0)")
  fix h c item ip cell p c'
  assume item: "current_item c = Some item" "item = Some ip" "(cell, p) = ip"
    and step: "move_backward h c = Some c'"
  have "gc_state c = GC_Valid" using item current_item_valid by simp
  from move_backward_retreats [OF step this] this
  show "((h, c'), h, c) \<in> measure (\<lambda>(h, c). if gc_state c = GC_Valid then Suc (cursor_index h c) else 0)"
    by auto
qed simp

declare skip_empty_back.simps [simp del]

definition clear_viewport :: "handler \<Rightarrow> handler panics" where
  "clear_viewport h =
    do { let stop = Point 0 (handler_columns h);
         cursor \<leftarrow> cursor_new h stop Wrap_All;
         cursor \<leftarrow> move_backward h cursor;
         cursor \<leftarrow> skip_empty_back h cursor;
         let row = p_row (last_valid_position cursor);
         assert_that (row \<le> visible_rows h);
         positions \<leftarrow> usub (visible_rows h) row;
         h \<leftarrow> scroll_region_up (0, visible_rows h) positions h;
         let template = cur_template (the_cursor h);
         fold_panics (\<lambda>i. on_grid (grid_index_mut i (row_reset template))) [positions..<visible_rows h] h }"

definition clear_screen :: "libraries \<Rightarrow> clear_mode \<Rightarrow> handler \<Rightarrow> handler panics" where
  "clear_screen L mode h =
    do { let bg = template_bg h;
         let num_lines = visible_rows h;
         case mode of
           CM_Above \<Rightarrow>
             do { h \<leftarrow> on_flat flat_clear h;
                  let row = cursor_row h; let col = cursor_col h;
                  h \<leftarrow> (if row > 1 then on_grid (region_to_each row (blank bg)) h else Some h);
                  let stop = min (col + 1) (handler_columns h);
                  p \<leftarrow> cursor_point (h_grid h);
                  h \<leftarrow> (if stop < handler_columns h
                       then reset_wide_char_at_end_boundary (p_row p) stop bg h else Some h);
                  on_grid (grid_index_mut (p_row p) (row_range_to_mut stop (blank bg))) h }
         | CM_Below \<Rightarrow>
             do { let row = cursor_row h; let col = cursor_col h;
                  p \<leftarrow> cursor_point (h_grid h);
                  h \<leftarrow> reset_wide_char_at_start_boundary (p_row p) col bg h;
                  h \<leftarrow> on_grid (grid_index_mut (p_row p) (row_range_from_mut col (blank bg))) h;
                  last \<leftarrow> usub num_lines 1;
                  if row < last then on_grid (region_from_each (row + 1) (blank bg)) h else Some h }
         | CM_All \<Rightarrow>
             if h_is_alt_screen h then on_grid (region_full_each (blank bg)) h
             else if h_full_grid_clear_behavior h = FG_Clear then clear_visible_rows_in_place L bg h
             else clear_viewport h
         | CM_Saved \<Rightarrow>
             if handler_history_size h > 0 then do { h \<leftarrow> on_flat flat_clear h; on_grid clear_history h }
             else Some h
         | _ \<Rightarrow>
             do { h \<leftarrow> on_flat flat_clear h;
                  h \<leftarrow> on_grid clear_and_reset_saving_cursor_line h;
                  let h = told ClearDisplayedRows (told ClearSecrets h);
                  let cursor_row = p_row (handler_cursor_point h);
                  let h = h\<lparr>h_dirty_cells_range := (Point cursor_row 0, Point (cursor_row + 1) 0)\<rparr>;
                  on_finish_byte_processing L h } }"

section \<open>Attributes\<close>

definition with_template :: "(cell \<Rightarrow> cell) \<Rightarrow> handler \<Rightarrow> handler" where
  "with_template f = with_cursor (\<lambda>c. c\<lparr>cur_template := f (cur_template c)\<rparr>)"

definition clear_flags :: "flags \<Rightarrow> cell \<Rightarrow> cell" where
  "clear_flags f c = c\<lparr>cell_flags := flags_remove f (cell_flags c)\<rparr>"

fun template_attribute :: "attr \<Rightarrow> cell \<Rightarrow> cell" where
  "template_attribute (A_Foreground color) t = t\<lparr>cell_fg := color\<rparr>"
| "template_attribute (A_Background color) t = t\<lparr>cell_bg := color\<rparr>"
| "template_attribute A_Reset t =
     t\<lparr>cell_fg := Named NC_Foreground, cell_bg := Named NC_Background, cell_flags := 0\<rparr>"
| "template_attribute A_Reverse t = insert_flags F_INVERSE t"
| "template_attribute A_CancelReverse t = clear_flags F_INVERSE t"
| "template_attribute A_Bold t = insert_flags F_BOLD t"
| "template_attribute A_CancelBold t = clear_flags F_BOLD t"
| "template_attribute A_Dim t = insert_flags F_DIM t"
| "template_attribute A_CancelBoldDim t = clear_flags (F_BOLD OR F_DIM) t"
| "template_attribute A_Italic t = insert_flags F_ITALIC t"
| "template_attribute A_CancelItalic t = clear_flags F_ITALIC t"
| "template_attribute A_Underline t = insert_flags F_UNDERLINE (clear_flags F_DOUBLE_UNDERLINE t)"
| "template_attribute A_DoubleUnderline t = insert_flags F_DOUBLE_UNDERLINE (clear_flags F_UNDERLINE t)"
| "template_attribute A_CancelUnderline t = clear_flags (F_UNDERLINE OR F_DOUBLE_UNDERLINE) t"
| "template_attribute A_Hidden t = insert_flags F_HIDDEN t"
| "template_attribute A_CancelHidden t = clear_flags F_HIDDEN t"
| "template_attribute A_Strike t = insert_flags F_STRIKEOUT t"
| "template_attribute A_CancelStrike t = clear_flags F_STRIKEOUT t"
| "template_attribute _ t = t"

definition terminal_attribute :: "attr \<Rightarrow> handler \<Rightarrow> handler" where
  "terminal_attribute a = with_template (template_attribute a)"

section \<open>Modes\<close>

definition handler_set_scrolling_region :: "nat \<Rightarrow> nat option \<Rightarrow> handler \<Rightarrow> handler panics" where
  "handler_set_scrolling_region top_row bottom_row h =
    do { let last_row = (case bottom_row of Some b \<Rightarrow> b | None \<Rightarrow> visible_rows h);
         if top_row \<ge> last_row then Some h
         else do { start \<leftarrow> usub top_row 1;
                   let h = h\<lparr>h_scroll_region := (min start (visible_rows h), min last_row (visible_rows h))\<rparr>;
                   goto 0 0 h } }"

definition deccolm :: "handler \<Rightarrow> handler panics" where
  "deccolm h =
    do { h \<leftarrow> handler_set_scrolling_region 1 None h;
         on_grid (region_full_each (blank (template_bg h))) h }"

definition set_blinking :: "bool \<Rightarrow> handler \<Rightarrow> handler" where
  "set_blinking b h =
    send_terminal_event (CursorBlinkingChange b)
      (h\<lparr>h_cursor_style := (h_cursor_style h)\<lparr>cstyle_blinking := b\<rparr>\<rparr>)"

text \<open>Swapping the screens is the model layer's job: here it is unreachable.\<close>

fun set_mode :: "mode \<Rightarrow> handler \<Rightarrow> handler panics" where
  "set_mode M_UrgencyHints h = Some (insert_mode TM_URGENCY_HINTS h)"
| "set_mode (M_SwapScreen _) h = None"
| "set_mode M_ShowCursor h = Some (insert_mode TM_SHOW_CURSOR h)"
| "set_mode M_CursorKeys h = Some (insert_mode TM_APP_CURSOR h)"
| "set_mode M_ReportMouseClicks h =
     Some (send_terminal_event MouseCursorDirty
       (insert_mode TM_MOUSE_REPORT_CLICK (remove_mode TM_MOUSE_MODE h)))"
| "set_mode M_ReportCellMouseMotion h =
     Some (send_terminal_event MouseCursorDirty
       (insert_mode TM_MOUSE_DRAG (remove_mode TM_MOUSE_MODE h)))"
| "set_mode M_ReportAllMouseMotion h =
     Some (send_terminal_event MouseCursorDirty
       (insert_mode TM_MOUSE_MOTION (remove_mode TM_MOUSE_MODE h)))"
| "set_mode M_ReportFocusInOut h = Some (insert_mode TM_FOCUS_IN_OUT h)"
| "set_mode M_BracketedPaste h = Some (insert_mode TM_BRACKETED_PASTE h)"
| "set_mode M_SgrMouse h = Some (insert_mode TM_SGR_MOUSE (remove_mode TM_UTF8_MOUSE h))"
| "set_mode M_Utf8Mouse h = Some (insert_mode TM_UTF8_MOUSE (remove_mode TM_SGR_MOUSE h))"
| "set_mode M_AlternateScroll h = Some (insert_mode TM_ALTERNATE_SCROLL h)"
| "set_mode M_LineWrap h = Some (insert_mode TM_LINE_WRAP h)"
| "set_mode M_LineFeedNewLine h = Some (insert_mode TM_LINE_FEED_NEW_LINE h)"
| "set_mode M_Origin h = Some (insert_mode TM_ORIGIN h)"
| "set_mode M_DECCOLM h = deccolm h"
| "set_mode M_Insert h = Some (insert_mode TM_INSERT h)"
| "set_mode M_BlinkingCursor h = Some (set_blinking True h)"
| "set_mode M_SyncOutput h = Some h"

fun unset_mode :: "mode \<Rightarrow> handler \<Rightarrow> handler panics" where
  "unset_mode M_UrgencyHints h = Some (remove_mode TM_URGENCY_HINTS h)"
| "unset_mode (M_SwapScreen _) h = None"
| "unset_mode M_ShowCursor h = Some (remove_mode TM_SHOW_CURSOR h)"
| "unset_mode M_CursorKeys h = Some (remove_mode TM_APP_CURSOR h)"
| "unset_mode M_ReportMouseClicks h =
     Some (send_terminal_event MouseCursorDirty (remove_mode TM_MOUSE_REPORT_CLICK h))"
| "unset_mode M_ReportCellMouseMotion h =
     Some (send_terminal_event MouseCursorDirty (remove_mode TM_MOUSE_DRAG h))"
| "unset_mode M_ReportAllMouseMotion h =
     Some (send_terminal_event MouseCursorDirty (remove_mode TM_MOUSE_MOTION h))"
| "unset_mode M_ReportFocusInOut h = Some (remove_mode TM_FOCUS_IN_OUT h)"
| "unset_mode M_BracketedPaste h = Some (remove_mode TM_BRACKETED_PASTE h)"
| "unset_mode M_SgrMouse h = Some (remove_mode TM_SGR_MOUSE h)"
| "unset_mode M_Utf8Mouse h = Some (remove_mode TM_UTF8_MOUSE h)"
| "unset_mode M_AlternateScroll h = Some (remove_mode TM_ALTERNATE_SCROLL h)"
| "unset_mode M_LineWrap h = Some (remove_mode TM_LINE_WRAP h)"
| "unset_mode M_LineFeedNewLine h = Some (remove_mode TM_LINE_FEED_NEW_LINE h)"
| "unset_mode M_Origin h = Some (remove_mode TM_ORIGIN h)"
| "unset_mode M_DECCOLM h = deccolm h"
| "unset_mode M_Insert h = Some (remove_mode TM_INSERT h)"
| "unset_mode M_BlinkingCursor h = Some (set_blinking False h)"
| "unset_mode M_SyncOutput h = Some h"

definition set_keypad_application_mode :: "handler \<Rightarrow> handler" where
  "set_keypad_application_mode = insert_mode TM_APP_KEYPAD"

definition unset_keypad_application_mode :: "handler \<Rightarrow> handler" where
  "unset_keypad_application_mode = remove_mode TM_APP_KEYPAD"

definition set_active_charset :: "charset_index \<Rightarrow> handler \<Rightarrow> handler" where
  "set_active_charset i h = h\<lparr>h_active_charset := i\<rparr>"

definition configure_charset :: "charset_index \<Rightarrow> standard_charset \<Rightarrow> handler \<Rightarrow> handler panics" where
  "configure_charset i charset h =
    do { cs \<leftarrow> charsets_index_mut i charset (cur_charsets (the_cursor h));
         Some (with_cursor (\<lambda>c. c\<lparr>cur_charsets := cs\<rparr>) h) }"

definition set_handler_cursor_style :: "cursor_style option \<Rightarrow> handler \<Rightarrow> handler" where
  "set_handler_cursor_style style h =
    (let h = h\<lparr>h_cursor_style := (case style of Some s \<Rightarrow> s | None \<Rightarrow> default_cursor_style)\<rparr>
     in send_terminal_event (CursorBlinkingChange (cstyle_blinking (h_cursor_style h))) h)"

definition set_cursor_shape :: "cursor_shape \<Rightarrow> handler \<Rightarrow> handler" where
  "set_cursor_shape shape h = h\<lparr>h_cursor_style := (h_cursor_style h)\<lparr>cstyle_shape := shape\<rparr>\<rparr>"

definition bell :: "handler \<Rightarrow> handler" where
  "bell = send_terminal_event Bell"

definition set_keyboard_enhancement_flags ::
  "libraries \<Rightarrow> keyboard_modes \<Rightarrow> keyboard_modes_apply_behavior \<Rightarrow> handler \<Rightarrow> handler" where
  "set_keyboard_enhancement_flags L mode apply_mode h =
    (if \<not> kitty_keyboard L then h else set_keyboard_mode mode apply_mode h)"

definition push_keyboard_enhancement_flags :: "libraries \<Rightarrow> keyboard_modes \<Rightarrow> handler \<Rightarrow> handler" where
  "push_keyboard_enhancement_flags L mode h =
    (if \<not> kitty_keyboard L then h else push_keyboard_mode L mode h)"

definition pop_keyboard_enhancement_flags :: "libraries \<Rightarrow> nat \<Rightarrow> handler \<Rightarrow> handler" where
  "pop_keyboard_enhancement_flags L count h =
    (if \<not> kitty_keyboard L then h else pop_keyboard_modes count h)"

section \<open>Resetting\<close>

definition decaln :: "handler \<Rightarrow> handler panics" where
  "decaln = on_grid (region_full_each (\<lambda>_. default_cell\<lparr>cell_c := ch CHR ''E''\<rparr>))"

definition reset_state :: "handler \<Rightarrow> handler panics" where
  "reset_state h =
    do { h \<leftarrow> on_grid grid_reset h;
         h \<leftarrow> on_flat flat_clear h;
         let h = told ClearSecrets h;
         let h = h\<lparr>h_active_charset := G0, h_cursor_style := default_cursor_style,
                   h_scroll_region := (0, visible_rows h), h_tabs := tabs_new (handler_columns h)\<rparr>;
         Some (send_terminal_event (CursorBlinkingChange (cstyle_blinking (h_cursor_style h))) h) }"

section \<open>Reports and the clipboard\<close>

fun decimal :: "nat \<Rightarrow> string" where
  "decimal n =
    (if n < 10 then [char_of (48 + n)] else decimal (n div 10) @ [char_of (48 + n mod 10)])"

declare decimal.simps [simp del]

definition csi :: string where
  "csi = [CHR 0x1B, CHR ''['']"

definition identify_terminal :: "uchar option \<Rightarrow> string" where
  "identify_terminal intermediate =
    (case intermediate of
       None \<Rightarrow> csi @ ''?62c''
     | Some c \<Rightarrow> if c = ch CHR ''>'' then csi @ ''>0;95;0c'' else [])"

definition report_xtversion :: "string option \<Rightarrow> string" where
  "report_xtversion app_version =
    (let version = (case app_version of Some v \<Rightarrow> v | None \<Rightarrow> [])
     in [CHR 0x1B] @ ''P>|Warp('' @ version @ '')'' @ [CHR 0x1B, CHR 0x5C])"

definition device_status :: "nat \<Rightarrow> handler \<Rightarrow> string" where
  "device_status arg h =
    (if arg = 5 then csi @ ''0n''
     else if arg = 6 then csi @ decimal (cursor_row h + 1) @ '';'' @ decimal (cursor_col h + 1) @ ''R''
     else [])"

definition text_area_size_pixels :: "handler \<Rightarrow> string" where
  "text_area_size_pixels h =
    (let width = h_cell_width h * handler_columns h; height = h_cell_height h * visible_rows h
     in csi @ ''4;'' @ decimal height @ '';'' @ decimal width @ ''t'')"

definition text_area_size_chars :: "handler \<Rightarrow> string" where
  "text_area_size_chars h = csi @ ''8;'' @ decimal (visible_rows h) @ '';'' @ decimal (handler_columns h) @ ''t''"

definition query_keyboard_enhancement_flags :: "libraries \<Rightarrow> handler \<Rightarrow> string" where
  "query_keyboard_enhancement_flags L h =
    (if \<not> kitty_keyboard L then [] else csi @ ''?'' @ decimal (unat (h_keyboard_mode h)) @ ''u'')"

definition clipboard_type_of :: "uchar \<Rightarrow> clipboard_type option" where
  "clipboard_type_of c =
    (if c = ch CHR ''c'' then Some CT_Clipboard
     else if c = ch CHR ''p'' \<or> c = ch CHR ''s'' then Some CT_Selection else None)"

text \<open>\<open>decode_text\<close> is the base64 decoder followed by the check for UTF-8.\<close>

definition clipboard_store :: "libraries \<Rightarrow> uchar \<Rightarrow> nat list \<Rightarrow> handler \<Rightarrow> handler" where
  "clipboard_store L clipboard base64 h =
    (case clipboard_type_of clipboard of
       None \<Rightarrow> h
     | Some t \<Rightarrow>
         (case decode_text L base64 of
            None \<Rightarrow> h
          | Some s \<Rightarrow> send_terminal_event (ClipboardStore t s) h))"

definition clipboard_load :: "uchar \<Rightarrow> string \<Rightarrow> handler \<Rightarrow> handler" where
  "clipboard_load clipboard terminator h =
    (case clipboard_type_of clipboard of
       None \<Rightarrow> h
     | Some t \<Rightarrow> send_terminal_event (ClipboardLoad t clipboard terminator) h)"

section \<open>The calls of the text\<close>

text \<open>
  The calls of the handler that change its state, as the decoder of escape sequences makes them. The
  scroll deltas are for the views.
\<close>

datatype cursor_call =
  Input uchar | Goto nat nat | GotoLine nat | GotoCol nat | MoveUp nat | MoveDown nat
| MoveForward nat | MoveBackward nat | MoveDownAndCr nat | MoveUpAndCr nat | PutTab nat
| Backspace | CarriageReturn | Linefeed | Newline | ReverseIndex | MoveBackwardTabs nat
| SaveCursorPosition | RestoreCursorPosition

fun handle_cursor :: "libraries \<Rightarrow> cursor_call \<Rightarrow> handler \<Rightarrow> handler panics" where
  "handle_cursor L (Input c) h = input L c h"
| "handle_cursor L (Goto row col) h = goto row col h"
| "handle_cursor L (GotoLine row) h = goto_line row h"
| "handle_cursor L (GotoCol col) h = goto_col col h"
| "handle_cursor L (MoveUp n) h = move_up n h"
| "handle_cursor L (MoveDown n) h = move_down n h"
| "handle_cursor L (MoveForward n) h = handler_move_forward n h"
| "handle_cursor L (MoveBackward n) h = handler_move_backward n h"
| "handle_cursor L (MoveDownAndCr n) h = move_down_and_cr n h"
| "handle_cursor L (MoveUpAndCr n) h = move_up_and_cr n h"
| "handle_cursor L (PutTab n) h = put_tab n h"
| "handle_cursor L Backspace h = backspace h"
| "handle_cursor L CarriageReturn h = carriage_return h"
| "handle_cursor L Linefeed h = map_option snd (linefeed h)"
| "handle_cursor L Newline h = newline h"
| "handle_cursor L ReverseIndex h = map_option snd (reverse_index h)"
| "handle_cursor L (MoveBackwardTabs n) h = move_backward_tabs n h"
| "handle_cursor L SaveCursorPosition h = Some (save_cursor_position h)"
| "handle_cursor L RestoreCursorPosition h = restore_cursor_position h"

datatype edit_call =
  InsertBlank nat | EraseChars nat | DeleteChars nat | InsertBlankLines nat | DeleteLines nat
| ScrollUp nat | ScrollDown nat | ClearLine line_clear_mode | ClearScreen clear_mode | Decaln
| ResetState | SetHorizontalTabstop | ClearTabs tabulation_clear_mode

fun handle_edit :: "libraries \<Rightarrow> edit_call \<Rightarrow> handler \<Rightarrow> handler panics" where
  "handle_edit L (InsertBlank n) h = insert_blank n h"
| "handle_edit L (EraseChars n) h = erase_chars n h"
| "handle_edit L (DeleteChars n) h = delete_chars n h"
| "handle_edit L (InsertBlankLines n) h = map_option snd (insert_blank_lines n h)"
| "handle_edit L (DeleteLines n) h = map_option snd (delete_lines n h)"
| "handle_edit L (ScrollUp n) h = map_option snd (handler_scroll_up n h)"
| "handle_edit L (ScrollDown n) h = map_option snd (handler_scroll_down n h)"
| "handle_edit L (ClearLine m) h = clear_line m h"
| "handle_edit L (ClearScreen m) h = clear_screen L m h"
| "handle_edit L Decaln h = decaln h"
| "handle_edit L ResetState h = reset_state h"
| "handle_edit L SetHorizontalTabstop h = set_horizontal_tabstop h"
| "handle_edit L (ClearTabs m) h = clear_tabs m h"

datatype control_call =
  TerminalAttribute attr | SetMode mode | UnsetMode mode | SetScrollingRegion nat "nat option"
| SetKeypadApplicationMode | UnsetKeypadApplicationMode | SetActiveCharset charset_index
| ConfigureCharset charset_index standard_charset | SetCursorStyle "cursor_style option"
| SetCursorShape cursor_shape | RingBell | StoreClipboard uchar "nat list"
| LoadClipboard uchar string | SetKeyboardFlags keyboard_modes keyboard_modes_apply_behavior
| PushKeyboardFlags keyboard_modes
| PopKeyboardFlags nat | OnFinishByteProcessing | OnResetGrid

fun handle_control :: "libraries \<Rightarrow> control_call \<Rightarrow> handler \<Rightarrow> handler panics" where
  "handle_control L (TerminalAttribute a) h = Some (terminal_attribute a h)"
| "handle_control L (SetMode m) h = set_mode m h"
| "handle_control L (UnsetMode m) h = unset_mode m h"
| "handle_control L (SetScrollingRegion t b) h = handler_set_scrolling_region t b h"
| "handle_control L SetKeypadApplicationMode h = Some (set_keypad_application_mode h)"
| "handle_control L UnsetKeypadApplicationMode h = Some (unset_keypad_application_mode h)"
| "handle_control L (SetActiveCharset i) h = Some (set_active_charset i h)"
| "handle_control L (ConfigureCharset i c) h = configure_charset i c h"
| "handle_control L (SetCursorStyle s) h = Some (set_handler_cursor_style s h)"
| "handle_control L (SetCursorShape s) h = Some (set_cursor_shape s h)"
| "handle_control L RingBell h = Some (bell h)"
| "handle_control L (StoreClipboard c t) h = Some (clipboard_store L c t h)"
| "handle_control L (LoadClipboard c t) h = Some (clipboard_load c t h)"
| "handle_control L (SetKeyboardFlags m a) h = Some (set_keyboard_enhancement_flags L m a h)"
| "handle_control L (PushKeyboardFlags m) h = Some (push_keyboard_enhancement_flags L m h)"
| "handle_control L (PopKeyboardFlags n) h = Some (pop_keyboard_enhancement_flags L n h)"
| "handle_control L OnFinishByteProcessing h = on_finish_byte_processing L h"
| "handle_control L OnResetGrid h = on_reset_grid h"

section \<open>Images\<close>

text \<open>
  An image is placed at the cursor, and the cursor moves past it. How many cells it takes comes out of
  floating-point arithmetic on the sizes of the image, of a cell and of the pane, which is not
  modelled: those numbers are arguments of the calls. The products of 32-bit numbers that this
  arithmetic starts with are here, since they can overflow.
\<close>

datatype cursor_movement_policy = CMP_MoveCursor | CMP_DoNotMoveCursor

datatype iterm_dimension_unit = IDU_Cell | IDU_Pixel | IDU_Percent

record kitty_placement_data =
  kp_z_index :: int
  kp_cols :: "nat option"
  kp_rows :: "nat option"
  kp_cursor_movement_policy :: cursor_movement_policy

definition MAX_IMAGE_CELL_HEIGHT :: nat where
  "MAX_IMAGE_CELL_HEIGHT = 255"

definition umul_u32 :: "nat \<Rightarrow> nat \<Rightarrow> nat panics" where
  "umul_u32 a b = (if a * b < 2 ^ 32 then Some (a * b) else None)"

definition cells_in_pixels :: "nat \<Rightarrow> nat option \<Rightarrow> nat option panics" where
  "cells_in_pixels cell n = (case n of Some n \<Rightarrow> map_option Some (umul_u32 cell n) | None \<Rightarrow> Some None)"

definition in_cells :: "(nat \<times> iterm_dimension_unit) option \<Rightarrow> nat option" where
  "in_cells d = (case d of Some (n, IDU_Cell) \<Rightarrow> Some n | _ \<Rightarrow> None)"

definition absolute_cursor_point :: "handler \<Rightarrow> point" where
  "absolute_cursor_point h =
    Point (p_row (handler_cursor_point h) + handler_num_lines_truncated h) (p_col (handler_cursor_point h))"

text \<open>The whitespace the image lies on, and the cursor after it on its last row.\<close>

definition move_past_image :: "nat \<Rightarrow> nat \<Rightarrow> handler \<Rightarrow> handler panics" where
  "move_past_image up_cells right_cells h =
    do { lines \<leftarrow> usub up_cells 1;
         h \<leftarrow> fold_panics (\<lambda>_. newline) [0..<lines] h;
         move_cursor_forward
           (\<lambda>c. if vp_col (cur_point c) + right_cells < handler_columns h
                then set_col (\<lambda>col. col + right_cells) c else set_needs_wrap True c) h }"

definition handle_completed_iterm_image ::
  "nat \<Rightarrow> nat \<Rightarrow> (nat \<times> iterm_dimension_unit) option \<Rightarrow> (nat \<times> iterm_dimension_unit) option \<Rightarrow>
   nat \<Rightarrow> nat \<Rightarrow> nat \<Rightarrow> handler \<Rightarrow> handler panics" where
  "handle_completed_iterm_image image_id placement_id width height height_cells up_cells right_cells h =
    (if map_option fst width = Some 0 \<or> map_option fst height = Some 0 then Some h
     else
       do { cells_in_pixels (h_cell_width h) (in_cells width);
            cells_in_pixels (h_cell_height h) (in_cells height);
            room \<leftarrow> usub (handler_columns h) (p_col (handler_cursor_point h));
            umul_u32 room (h_cell_width h);
            umul_u32 MAX_IMAGE_CELL_HEIGHT (h_cell_height h);
            let h = send_terminal_event (ImageReceived image_id) h;
            let h = told (AddImagePlacementData image_id placement_id 0 height_cells) h;
            let h = told (PlaceImage image_id placement_id (absolute_cursor_point h)) h;
            move_past_image up_cells right_cells h })"

definition display_kitty_image ::
  "bool \<Rightarrow> nat \<Rightarrow> nat \<Rightarrow> kitty_placement_data \<Rightarrow> nat \<Rightarrow> nat \<Rightarrow> handler \<Rightarrow> handler panics" where
  "display_kitty_image with_data image_id placement_id d height_cells width_cells h =
    (if kp_cols d = Some 0 \<or> kp_rows d = Some 0 then Some h
     else
       do { usub (handler_columns h) (p_col (handler_cursor_point h));
            cells_in_pixels (h_cell_width h) (kp_cols d);
            cells_in_pixels (h_cell_height h) (kp_rows d);
            let h = (if with_data then send_terminal_event (ImageReceived image_id) h else h);
            let h = told (AddImagePlacementData image_id placement_id (kp_z_index d) height_cells) h;
            let h = told (PlaceImage image_id placement_id (absolute_cursor_point h)) h;
            if kp_cursor_movement_policy d = CMP_MoveCursor then move_past_image height_cells width_cells h
            else Some h })"

text \<open>
  The calls that reach the grid when an image is complete: the images the terminal could decode, of a
  size that is not zero.
\<close>

datatype image_call =
  ShowItermImage nat nat "(nat \<times> iterm_dimension_unit) option" "(nat \<times> iterm_dimension_unit) option" nat nat nat
| StoreKittyImage nat
| ShowKittyImage bool nat nat kitty_placement_data nat nat
| DeleteAllImages | DeleteImage nat | DeletePlacement nat nat

fun handle_image :: "image_call \<Rightarrow> handler \<Rightarrow> handler panics" where
  "handle_image (ShowItermImage i p width height height_cells up_cells right_cells) h =
     handle_completed_iterm_image i p width height height_cells up_cells right_cells h"
| "handle_image (StoreKittyImage i) h = Some (send_terminal_event (ImageReceived i) h)"
| "handle_image (ShowKittyImage with_data i p d height_cells width_cells) h =
     display_kitty_image with_data i p d height_cells width_cells h"
| "handle_image DeleteAllImages h = Some (told EvictAllImages h)"
| "handle_image (DeleteImage i) h = Some (told (EvictImage i) h)"
| "handle_image (DeletePlacement i p) h = Some (told (EvictPlacement i p) h)"

section \<open>All calls\<close>

datatype handler_call = Cursor cursor_call | Edit edit_call | Control control_call | Image image_call

fun handle :: "libraries \<Rightarrow> handler_call \<Rightarrow> handler \<Rightarrow> handler panics" where
  "handle L (Cursor c) h = handle_cursor L c h"
| "handle L (Edit c) h = handle_edit L c h"
| "handle L (Control c) h = handle_control L c h"
| "handle L (Image c) h = handle_image c h"

definition handle_all :: "libraries \<Rightarrow> handler_call list \<Rightarrow> handler \<Rightarrow> handler panics" where
  "handle_all L calls h = fold_panics (handle L) calls h"

end
