(* ===== verification/Term_Safe.thy ===== *)
theory Term_Safe
  imports Term_Screen
begin

text \<open>
  The state invariant of the terminal on the alternate screen, and that every call of the handler
  keeps it and does not panic.
\<close>

section \<open>The invariant\<close>

definition cursor_inside :: "nat \<Rightarrow> nat \<Rightarrow> cursor \<Rightarrow> bool" where
  "cursor_inside rows cols c \<longleftrightarrow>
     vp_row (cur_point c) < rows \<and> vp_col (cur_point c) < cols \<and> length (cur_charsets c) = 4"

definition region_inside :: "nat \<Rightarrow> nat \<times> nat \<Rightarrow> bool" where
  "region_inside rows r \<longleftrightarrow> fst r \<le> snd r \<and> 1 \<le> snd r \<and> snd r \<le> rows"

definition flat_empty :: "nat \<Rightarrow> flat_storage \<Rightarrow> bool" where
  "flat_empty cols fs \<longleftrightarrow> (\<exists>base. flat_is cols base [] fs)"

definition safe :: "nat \<Rightarrow> nat \<Rightarrow> handler \<Rightarrow> bool" where
  "safe rows cols h \<longleftrightarrow>
     sized_grid rows cols (h_grid h) \<and> 2 \<le> cols \<and>
     cursor_inside rows cols (gs_cursor (h_grid h)) \<and>
     cursor_inside rows cols (gs_saved_cursor (h_grid h)) \<and>
     region_inside rows (h_scroll_region h) \<and> length (h_tabs h) = cols \<and>
     h_is_alt_screen h \<and> flat_empty cols (h_flat h) \<and> h_reset_grid_checks h = RC_Disabled"

lemma flat_empty_facts:
  assumes "flat_empty cols fs"
  shows "flat_total_rows fs = 0" and "ends (flat_empty cols) (flat_clear fs)"
proof -
  obtain base where base: "flat_is cols base [] fs" using assms by (auto simp: flat_empty_def)
  then show "flat_total_rows fs = 0" using flat_total_rows_is by (fastforce simp: flat_is_def)
  obtain fs' where "flat_truncate 0 fs = Some fs'" "flat_is cols base [] fs'"
    using flat_truncate_ok [OF base, of 0] by auto
  then show "ends (flat_empty cols) (flat_clear fs)" by (auto simp: flat_empty_def flat_clear_def)
qed

lemma safe_facts:
  assumes "safe rows cols h"
  shows "sized_grid rows cols (h_grid h)" "2 \<le> cols" "1 \<le> rows" "cursor_row h < rows" "cursor_col h < cols"
    "length (cur_charsets (the_cursor h)) = 4" "fst (h_scroll_region h) \<le> snd (h_scroll_region h)"
    "1 \<le> snd (h_scroll_region h)" "snd (h_scroll_region h) \<le> rows" "length (h_tabs h) = cols"
    "h_is_alt_screen h" "handler_history_size h = 0" "visible_rows h = rows" "handler_columns h = cols"
    "handler_total_rows h = rows" "cursor_point (h_grid h) = Some (Point (cursor_row h) (cursor_col h))"
    "handler_cursor_point h = Point (cursor_row h) (cursor_col h)"
proof -
  note s = assms [unfolded safe_def cursor_inside_def region_inside_def]
  have g: "sized_grid rows cols (h_grid h)" using s by simp
  note grid = sized_grid_simps [OF g]
  have flat: "flat_total_rows (h_flat h) = 0" using s flat_empty_facts(1) by blast
  show "sized_grid rows cols (h_grid h)" "2 \<le> cols" "1 \<le> rows" "cursor_row h < rows" "cursor_col h < cols"
    "length (cur_charsets (the_cursor h)) = 4" "fst (h_scroll_region h) \<le> snd (h_scroll_region h)"
    "1 \<le> snd (h_scroll_region h)" "snd (h_scroll_region h) \<le> rows" "length (h_tabs h) = cols"
    "h_is_alt_screen h" "handler_history_size h = 0" "visible_rows h = rows" "handler_columns h = cols"
    "handler_total_rows h = rows" "cursor_point (h_grid h) = Some (Point (cursor_row h) (cursor_col h))"
    "handler_cursor_point h = Point (cursor_row h) (cursor_col h)"
    using s grid flat
    by (simp_all add: cursor_row_def cursor_col_def the_cursor_def handler_history_size_def
        visible_rows_def handler_columns_def handler_total_rows_def handler_cursor_point_def)
qed

text \<open>The invariant does not look at most fields.\<close>

lemma safe_frame [simp]:
  "safe rows cols (h\<lparr>h_mode := m\<rparr>) = safe rows cols h"
  "safe rows cols (h\<lparr>h_cursor_style := st\<rparr>) = safe rows cols h"
  "safe rows cols (h\<lparr>h_active_charset := i\<rparr>) = safe rows cols h"
  "safe rows cols (h\<lparr>h_dirty_cells_range := r\<rparr>) = safe rows cols h"
  "safe rows cols (h\<lparr>h_find_dirty_rows_range := fr\<rparr>) = safe rows cols h"
  "safe rows cols (h\<lparr>h_keyboard_mode := k\<rparr>) = safe rows cols h"
  "safe rows cols (h\<lparr>h_keyboard_mode_stack := ks\<rparr>) = safe rows cols h"
  "safe rows cols (h\<lparr>h_bottommost_visible_content_row := b\<rparr>) = safe rows cols h"
  "safe rows cols (h\<lparr>h_effects := es\<rparr>) = safe rows cols h"
  "safe rows cols (told e h) = safe rows cols h"
  "safe rows cols (send_terminal_event ev h) = safe rows cols h"
  "safe rows cols (insert_mode m h) = safe rows cols h"
  "safe rows cols (remove_mode m h) = safe rows cols h"
  "safe rows cols (update_find_dirty_rows_range row h) = safe rows cols h"
  "safe rows cols (reset_dirty_cells_range_to_cursor_point h) = safe rows cols h"
  by (simp_all add: safe_def told_def send_terminal_event_def insert_mode_def remove_mode_def
      update_find_dirty_rows_range_def reset_dirty_cells_range_to_cursor_point_def)

lemma update_max_cursor_frame:
  "sized_grid rows cols (update_max_cursor g) = sized_grid rows cols g"
  "gs_cursor (update_max_cursor g) = gs_cursor g" "gs_saved_cursor (update_max_cursor g) = gs_saved_cursor g"
  "rows_now (update_max_cursor g) = rows_now g"
  by (simp_all add: update_max_cursor_def Let_def)

lemma safe_max_cursor [simp]:
  "safe rows cols (h\<lparr>h_grid := update_max_cursor (h_grid h)\<rparr>) = safe rows cols h"
  by (simp add: safe_def update_max_cursor_frame)

text \<open>An operation that ends in a safe state with the same cursor.\<close>

definition kept :: "nat \<Rightarrow> nat \<Rightarrow> handler \<Rightarrow> handler \<Rightarrow> bool" where
  "kept rows cols h h' \<longleftrightarrow> safe rows cols h' \<and> the_cursor h' = the_cursor h \<and> h_mode h' = h_mode h"

lemma keptD: "kept rows cols h h' \<Longrightarrow> safe rows cols h'"
  by (simp add: kept_def)

lemma kept_refl: "safe rows cols h \<Longrightarrow> kept rows cols h h"
  by (simp add: kept_def)

lemma kept_cursor:
  "kept rows cols h h' \<Longrightarrow> cursor_row h' = cursor_row h" "kept rows cols h h' \<Longrightarrow> cursor_col h' = cursor_col h"
  by (simp_all add: kept_def cursor_row_def cursor_col_def)

lemma kept_trans: "kept rows cols h h' \<Longrightarrow> kept rows cols h' h'' \<Longrightarrow> kept rows cols h h''"
  by (simp add: kept_def)

lemma ends_kept: "ends (kept rows cols h) m \<Longrightarrow> ends (safe rows cols) m"
  by (auto elim: ends_mono dest: keptD)

lemma ends_kept_trans: "kept rows cols h h' \<Longrightarrow> ends (kept rows cols h') m \<Longrightarrow> ends (kept rows cols h) m"
  by (auto elim: ends_mono dest: kept_trans)

text \<open>Operations on the rows of the grid.\<close>

lemma on_grid_kept:
  assumes "safe rows cols h" and "ends (resized_from rows cols (h_grid h)) (f (h_grid h))"
  shows "ends (kept rows cols h) (on_grid f h)"
proof -
  have "kept rows cols h (h\<lparr>h_grid := g\<rparr>)" if "resized_from rows cols (h_grid h) g" for g
    using assms(1) resized_from_cursors [OF that] by (simp add: kept_def safe_def the_cursor_def)
  then show ?thesis
    unfolding on_grid_def by (intro ends_bind [OF assms(2)]) simp
qed

lemma row_op_kept:
  assumes "safe rows cols h" and "i < rows" and "\<And>r. row_sized cols r \<Longrightarrow> ends (row_sized cols) (f r)"
  shows "ends (kept rows cols h) (on_grid (grid_index_mut i f) h)"
  using safe_facts(1) [OF assms(1)]
  by (intro on_grid_kept assms(1) grid_index_mut_kept(1) assms(2,3)) (auto intro: sized_grid_row assms(2))

lemma cell_op_kept:
  assumes "safe rows cols h" and "i < rows" and "j < cols"
  shows "ends (kept rows cols h) (on_grid (grid_cell_mut i j f) h)"
  by (intro on_grid_kept assms grid_cell_mut_kept safe_facts(1) [OF assms(1)])

lemma cursor_cell_op_kept:
  assumes "safe rows cols h"
  shows "ends (kept rows cols h) (on_grid (cursor_cell f) h)"
  using safe_facts(1,4,5) [OF assms]
  by (intro on_grid_kept assms cursor_cell_kept(1)) (simp_all add: cursor_row_def cursor_col_def the_cursor_def)

text \<open>Moving the cursor inside the grid.\<close>

definition moves_inside :: "nat \<Rightarrow> nat \<Rightarrow> handler \<Rightarrow> (cursor \<Rightarrow> cursor) \<Rightarrow> bool" where
  "moves_inside rows cols h f \<longleftrightarrow> cursor_inside rows cols (f (the_cursor h))"

lemma safe_with_cursor:
  "safe rows cols h \<Longrightarrow> moves_inside rows cols h f \<Longrightarrow> safe rows cols (with_cursor f h)"
  by (simp add: safe_def with_cursor_def moves_inside_def the_cursor_def)

lemma the_cursor_with [simp]: "the_cursor (with_cursor f h) = f (the_cursor h)"
  by (simp add: with_cursor_def the_cursor_def)

lemma update_dirty_kept:
  assumes "safe rows cols h"
  shows "ends (kept rows cols h) (update_dirty_cells_range h)"
proof -
  have "0 < handler_columns h" using safe_facts(2,14) [OF assms] by simp
  then obtain p where "point_wrapping_add (handler_cursor_point h) (handler_columns h) 1 = Some p"
    using point_add_position by blast
  then show ?thesis
    using assms
    by (simp add: update_dirty_cells_range_def Let_def kept_def the_cursor_def update_find_dirty_rows_range_def)
qed

lemma the_cursor_max [simp]: "the_cursor (h\<lparr>h_grid := update_max_cursor (h_grid h)\<rparr>) = the_cursor h"
  by (simp add: the_cursor_def update_max_cursor_frame)

lemma update_cursor_safe:
  assumes "safe rows cols h" and "moves_inside rows cols h f"
  shows "ends (\<lambda>h'. safe rows cols h' \<and> the_cursor h' = f (the_cursor h)) (update_cursor f h)"
proof -
  let ?h = "h\<lparr>h_grid := update_max_cursor (h_grid h)\<rparr>"
  have s: "safe rows cols ?h" using assms(1) by simp
  have "ends (\<lambda>h'. safe rows cols h' \<and> the_cursor h' = f (the_cursor h))
      (update_dirty_cells_range (with_cursor f h'))" if h': "kept rows cols ?h h'" for h'
  proof -
    have "the_cursor h' = the_cursor h" using h' by (simp add: kept_def)
    then have "safe rows cols (with_cursor f h')"
      using keptD [OF h'] assms(2) by (simp add: safe_with_cursor moves_inside_def)
    from update_dirty_kept [OF this] show ?thesis
      by (rule ends_mono) (simp add: kept_def \<open>the_cursor h' = the_cursor h\<close>)
  qed
  then show ?thesis
    unfolding update_cursor_def Let_def by (rule ends_bind [OF update_dirty_kept [OF s]])
qed

lemma move_cursor_forward_safe:
  assumes "safe rows cols h" and "moves_inside rows cols h f"
    and "cur_point (the_cursor h) \<le> cur_point (f (the_cursor h))"
  shows "ends (\<lambda>h'. safe rows cols h' \<and> the_cursor h' = f (the_cursor h)) (move_cursor_forward f h)"
proof -
  have "handler_history_size (with_cursor f h) = handler_history_size h"
    by (simp add: handler_history_size_def with_cursor_def)
  then have "handler_cursor_point h \<le> handler_cursor_point (with_cursor f h)"
    using assms(3)
    by (auto simp: handler_cursor_point_def cursor_row_def cursor_col_def less_eq_point_def
        less_eq_visible_point_def cmp_points_def)
  then show ?thesis
    using safe_with_cursor [OF assms(1,2)]
    by (simp add: move_cursor_forward_def Let_def)
qed

section \<open>Helpers of the handler\<close>

lemma moves_col: "safe rows cols h \<Longrightarrow> f (cursor_col h) < cols \<Longrightarrow> moves_inside rows cols h (set_col f)"
  by (simp add: safe_def moves_inside_def cursor_inside_def set_col_def cursor_col_def the_cursor_def)

lemma moves_row: "safe rows cols h \<Longrightarrow> f (cursor_row h) < rows \<Longrightarrow> moves_inside rows cols h (set_row f)"
  by (simp add: safe_def moves_inside_def cursor_inside_def set_row_def cursor_row_def the_cursor_def)

lemma moves_wrap: "moves_inside rows cols h f \<Longrightarrow> moves_inside rows cols h (\<lambda>c. set_needs_wrap b (f c))"
  by (simp add: moves_inside_def cursor_inside_def set_needs_wrap_def)

lemma moves_id: "safe rows cols h \<Longrightarrow> moves_inside rows cols h (\<lambda>c. c)"
  by (simp add: moves_inside_def safe_def the_cursor_def)

lemma set_fields [simp]:
  "vp_row (cur_point (set_col f c)) = vp_row (cur_point c)" "vp_col (cur_point (set_col f c)) = f (vp_col (cur_point c))"
  "vp_row (cur_point (set_row f c)) = f (vp_row (cur_point c))" "vp_col (cur_point (set_row f c)) = vp_col (cur_point c)"
  "cur_point (set_needs_wrap b c) = cur_point c" "cur_input_needs_wrap (set_needs_wrap b c) = b"
  "cur_input_needs_wrap (set_col f c) = cur_input_needs_wrap c" "cur_input_needs_wrap (set_row f c) = cur_input_needs_wrap c"
  by (simp_all add: set_col_def set_row_def set_needs_wrap_def)

lemma forward_col: "c \<le> f c \<Longrightarrow> VisiblePoint r c \<le> VisiblePoint r (f c)"
  by (auto simp: less_eq_visible_point_def cmp_points_def)

lemma advance_safe:
  assumes "safe rows cols h"
  shows "ends (safe rows cols) (advance_cursor_by_one_cell h)"
proof -
  let ?f = "\<lambda>c. if vp_col (cur_point c) + 1 < handler_columns h then set_col Suc c else set_needs_wrap True c"
  have "moves_inside rows cols h ?f"
    using safe_facts(14) [OF assms] moves_col [OF assms, of Suc] moves_wrap [OF moves_id [OF assms], of True]
    by (auto simp: moves_inside_def cursor_col_def)
  moreover have "cur_point (the_cursor h) \<le> cur_point (?f (the_cursor h))"
    by (cases "cur_point (the_cursor h)") (simp add: set_col_def less_eq_visible_point_def cmp_points_def)
  ultimately show ?thesis
    unfolding advance_cursor_by_one_cell_def Let_def
    by (intro ends_mono [OF move_cursor_forward_safe [OF assms]]) auto
qed

lemma nth_checked_ends: "i < length xs \<Longrightarrow> P (xs ! i) \<Longrightarrow> ends P (nth_checked xs i)"
  by (simp add: nth_checked_lt)

lemma update_checked_length: "i < length xs \<Longrightarrow> ends (\<lambda>ys. length ys = length xs) (update_checked xs i x)"
  by (simp add: update_checked_lt)

lemma blank_start_length:
  assumes "length cs = cols" and "col < cols"
  shows "ends (\<lambda>cs'. length cs' = cols) (blank_start_boundary cols col bg cs)"
proof -
  have "col - Suc 0 < length cs" using assms by simp
  then show ?thesis using assms by (simp add: blank_start_boundary_def nth_checked_def update_checked_def)
qed

lemma blank_end_length:
  assumes "length cs = cols" and "col < cols"
  shows "ends (\<lambda>cs'. length cs' = cols) (blank_end_boundary col bg cs)"
proof -
  have "col - Suc 0 < length cs" using assms by simp
  then show ?thesis using assms by (simp add: blank_end_boundary_def nth_checked_def update_checked_def)
qed

lemma reset_start_kept:
  assumes "safe rows cols h" and "row < rows" and "col < cols"
  shows "ends (kept rows cols h) (reset_wide_char_at_start_boundary row col bg h)"
  unfolding reset_wide_char_at_start_boundary_def safe_facts(14) [OF assms(1)]
  by (intro row_op_kept row_full_mut_sized blank_start_length assms)

lemma reset_end_kept:
  assumes "safe rows cols h" and "row < rows" and "col < cols"
  shows "ends (kept rows cols h) (reset_wide_char_at_end_boundary row col bg h)"
  unfolding reset_wide_char_at_end_boundary_def
  by (intro row_op_kept row_full_mut_sized blank_end_length assms)

lemma kept_bind:
  assumes "ends (kept rows cols h) m" and "\<And>h'. kept rows cols h h' \<Longrightarrow> ends (kept rows cols h') (f h')"
  shows "ends (kept rows cols h) (Option.bind m f)"
  using assms by (intro ends_bind [OF assms(1)]) (blast intro: ends_kept_trans)

lemma kept_if:
  "safe rows cols h \<Longrightarrow> (b \<Longrightarrow> ends (kept rows cols h) m) \<Longrightarrow> ends (kept rows cols h) (if b then m else Some h)"
  by (simp add: kept_refl)

lemma overwrite_kept:
  assumes "safe rows cols h" and "p_row p < rows" and "p_col p < cols"
  shows "ends (kept rows cols h) (overwrite_wide_char p h)"
proof -
  note s = safe_facts [OF assms(1)]
  have two: "ends (kept rows cols h') (do { h \<leftarrow> on_grid (grid_cell_mut i j f) h'; on_grid (grid_cell_mut i j' f) h })"
    if "safe rows cols h'" "i < rows" "j < cols" "j' < cols" for h' i j j' f
    using that by (intro kept_bind cell_op_kept) (auto dest: keptD)
  have last: "usub cols 1 = Some (cols - 1)" using s(2) by (simp add: usub_def)
  have cell: "grid_cell (p_row p) (p_col p) (h_grid h) = Some (row_inner (rows_now (h_grid h) ! p_row p) ! p_col p)"
    by (rule grid_cell_read [OF s(1) assms(2,3)])
  show ?thesis
    unfolding overwrite_wide_char_def Let_def cell bind.bind_lunit s(14) last
    using assms s(2) two
    by (intro kept_if kept_bind kept_refl cell_op_kept) (auto dest: keptD intro!: kept_refl cell_op_kept)
qed

lemma charset_known:
  "safe rows cols h \<Longrightarrow> \<exists>cs. charsets_index (cur_charsets (the_cursor h)) i = Some cs"
  using safe_facts(6) [of rows cols h] by (cases i) (simp_all add: charsets_index_def nth_checked_def)

lemma write_kept:
  assumes "safe rows cols h"
  shows "ends (kept rows cols h) (write_at_cursor c f h)"
proof -
  define h0 where "h0 = told (EvictImagesAt (handler_cursor_point h)) h"
  have h0: "safe rows cols h0" "the_cursor h0 = the_cursor h" "h_grid h0 = h_grid h" "h_mode h0 = h_mode h"
    using assms by (simp_all add: h0_def told_def the_cursor_def)
  note s = safe_facts [OF assms]
  have "ends (kept rows cols h0) (overwrite_wide_char (Point (cursor_row h) (cursor_col h)) h0)"
    using s(4,5) by (intro overwrite_kept h0) simp_all
  moreover have "ends (kept rows cols h1) (do { charset \<leftarrow> charsets_index (cur_charsets (the_cursor h1)) (h_active_charset h1);
         on_grid (cursor_cell (\<lambda>cl. f (write_cell (charset_map charset c) (cur_template (the_cursor h1)) cl))) h1 })"
    if "kept rows cols h0 h1" for h1
    using charset_known [OF keptD [OF that], of "h_active_charset h1"] cursor_cell_op_kept [OF keptD [OF that]] by auto
  ultimately have "ends (kept rows cols h0) (overwrite_wide_char (Point (cursor_row h) (cursor_col h)) h0 \<bind>
      (\<lambda>h1. charsets_index (cur_charsets (the_cursor h1)) (h_active_charset h1) \<bind> (\<lambda>charset.
         on_grid (cursor_cell (\<lambda>cl. f (write_cell (charset_map charset c) (cur_template (the_cursor h1)) cl))) h1)))"
    by (rule kept_bind)
  moreover have "kept rows cols h0 = kept rows cols h"
    by (simp add: kept_def h0(2,4) fun_eq_iff)
  ultimately show ?thesis
    unfolding write_at_cursor_def Let_def h0_def [symmetric] h0(3) s(16) bind.bind_lunit by simp
qed

text \<open>Operations that also return by how much they scroll.\<close>

lemma ends_snd: "ends P (map_option snd m) \<longleftrightarrow> ends (\<lambda>r. P (snd r)) m"
  by (cases m) simp_all

lemma scroll_region_up_kept:
  assumes "safe rows cols h" and "a \<le> e" and "e \<le> rows" and "a + d \<le> e \<or> e - a \<le> d \<and> a \<noteq> 0"
  shows "ends (kept rows cols h) (scroll_region_up (a, e) d h)"
  using safe_facts(1,11) [OF assms(1)] assms
  by (simp add: scroll_region_up_def)
    (intro kept_bind on_grid_kept scroll_up_kept update_dirty_kept; auto dest: keptD)

lemma scroll_down_relative_kept:
  assumes "safe rows cols h" and "origin \<le> snd (h_scroll_region h)"
  shows "ends (\<lambda>r. kept rows cols h (snd r)) (scroll_down_relative origin lines h)"
proof -
  note s = safe_facts [OF assms(1)]
  let ?n = "min (min lines (snd (h_scroll_region h) - fst (h_scroll_region h))) (snd (h_scroll_region h) - origin)"
  have "ends (kept rows cols h) (on_grid (scroll_down origin (snd (h_scroll_region h)) ?n) h)"
    using assms s(9) by (intro on_grid_kept scroll_down_kept s(1)) auto
  then show ?thesis
    unfolding scroll_down_relative_def Let_def usub_le [OF s(7)] usub_le [OF assms(2)] bind.bind_lunit
    by (rule ends_bind) simp
qed

lemma scroll_up_relative_kept:
  assumes "safe rows cols h" and "origin \<le> snd (h_scroll_region h)" and "fst (h_scroll_region h) \<le> origin"
  shows "ends (\<lambda>r. kept rows cols h (snd r)) (scroll_up_relative origin lines h)"
proof -
  note s = safe_facts [OF assms(1)]
  let ?n = "min lines (snd (h_scroll_region h) - fst (h_scroll_region h))"
  have "ends (kept rows cols h) (scroll_region_up (origin, snd (h_scroll_region h)) ?n h)"
    using assms s(7,9) by (intro scroll_region_up_kept) auto
  then show ?thesis
    unfolding scroll_up_relative_def Let_def usub_le [OF s(7)] bind.bind_lunit
    by (rule ends_bind) simp
qed

lemma handler_scroll_kept:
  assumes "safe rows cols h"
  shows "ends (\<lambda>r. kept rows cols h (snd r)) (handler_scroll_up lines h)"
    and "ends (\<lambda>r. kept rows cols h (snd r)) (handler_scroll_down lines h)"
  using safe_facts(7) [OF assms]
  by (simp_all add: handler_scroll_up_def handler_scroll_down_def scroll_up_relative_kept
      scroll_down_relative_kept assms)

lemma insert_blank_lines_kept:
  "safe rows cols h \<Longrightarrow> ends (\<lambda>r. kept rows cols h (snd r)) (insert_blank_lines lines h)"
  by (simp add: insert_blank_lines_def Let_def in_region_def scroll_down_relative_kept kept_refl)

lemma delete_lines_kept:
  assumes "safe rows cols h"
  shows "ends (\<lambda>r. kept rows cols h (snd r)) (delete_lines lines h)"
proof -
  have "cursor_row h \<le> visible_rows h" using safe_facts(4,13) [OF assms] by simp
  then show ?thesis
    using assms by (simp add: delete_lines_def Let_def usub_le in_region_def scroll_up_relative_kept kept_refl)
qed

section \<open>Lines and input\<close>

lemma update_col_safe:
  assumes "safe rows cols h" and "f (cursor_col h) < cols"
  shows "ends (safe rows cols) (update_cursor (\<lambda>c. set_needs_wrap b (set_col f c)) h)"
    and "ends (safe rows cols) (update_cursor (set_col f) h)"
  using ends_mono [OF update_cursor_safe [OF assms(1) moves_wrap [OF moves_col [of rows cols h f, OF assms]]]]
    ends_mono [OF update_cursor_safe [OF assms(1) moves_col [of rows cols h f, OF assms]]]
  by auto

lemma update_row_safe:
  assumes "safe rows cols h" and "f (cursor_row h) < rows"
  shows "ends (safe rows cols) (update_cursor (set_row f) h)"
  using ends_mono [OF update_cursor_safe [OF assms(1) moves_row [of rows cols h f, OF assms]]] by auto

lemma forward_row_safe:
  assumes "safe rows cols h" and "cursor_row h + 1 < rows"
  shows "ends (\<lambda>h'. safe rows cols h' \<and> the_cursor h' = set_row Suc (the_cursor h))
           (move_cursor_forward (set_row Suc) h)"
  using assms
  by (intro move_cursor_forward_safe moves_row)
    (auto simp: set_row_def less_eq_visible_point_def cmp_points_def)

lemma forward_col_safe:
  assumes "safe rows cols h" and "cursor_col h + 1 < cols"
  shows "ends (\<lambda>h'. safe rows cols h' \<and> the_cursor h' = set_col Suc (the_cursor h))
           (move_cursor_forward (set_col Suc) h)"
  using assms
  by (intro move_cursor_forward_safe moves_col)
    (auto simp: set_col_def less_eq_visible_point_def cmp_points_def)

lemma carriage_return_safe: "safe rows cols h \<Longrightarrow> ends (safe rows cols) (carriage_return h)"
  using safe_facts(2) [of rows cols h] by (simp add: carriage_return_def update_col_safe)

lemma linefeed_safe:
  assumes "safe rows cols h"
  shows "ends (\<lambda>r. safe rows cols (snd r)) (linefeed h)"
proof -
  note s = safe_facts [OF assms]
  have scroll: "ends (\<lambda>r. safe rows cols (snd r)) (handler_scroll_up 1 h)"
    by (rule ends_mono [OF handler_scroll_kept(1) [OF assms]]) (rule keptD)
  have "ends (safe rows cols) (if cursor_row h + 1 < rows then move_cursor_forward (set_row Suc) h else Some h)"
    using ends_mono [OF forward_row_safe [OF assms]] assms by auto
  then have "ends (\<lambda>r. safe rows cols (snd r)) (do { h \<leftarrow> (if cursor_row h + 1 < rows
      then move_cursor_forward (set_row Suc) h else Some h); Some (scroll_zero, h) })"
    by (rule ends_bind) simp
  with scroll show ?thesis
    unfolding linefeed_def Let_def s(13) by (intro ends_if)
qed

lemma newline_safe: "safe rows cols h \<Longrightarrow> ends (safe rows cols) (newline h)"
  unfolding newline_def
  by (rule ends_bind [OF linefeed_safe]) (auto intro: carriage_return_safe)

lemma reverse_index_safe:
  assumes "safe rows cols h"
  shows "ends (\<lambda>r. safe rows cols (snd r)) (reverse_index h)"
proof -
  have "cursor_row h - 1 < rows" using safe_facts(4) [OF assms] by simp
  then show ?thesis
    unfolding reverse_index_def
    by (intro ends_if ends_mono [OF handler_scroll_kept(2) [OF assms]] keptD
        ends_bind [OF update_row_safe [OF assms]]) auto
qed

lemma wrapline_safe:
  assumes "safe rows cols h"
  shows "ends (\<lambda>h'. safe rows cols h' \<and> (has_mode TM_LINE_WRAP h \<longrightarrow> cursor_col h' = 0)) (wrapline h)"
proof (cases "has_mode TM_LINE_WRAP h")
  case True
  have step: "ends (safe rows cols) (if cursor_row h' + 1 \<ge> snd (h_scroll_region h')
      then map_option snd (linefeed h') else move_cursor_forward (set_row Suc) h')"
    if "kept rows cols h h'" for h'
  proof -
    have s: "safe rows cols h'" by (rule keptD [OF that])
    show ?thesis
      using safe_facts(9) [OF s] linefeed_safe [OF s] ends_mono [OF forward_row_safe [OF s]]
      by (auto simp: ends_snd)
  qed
  have "ends (\<lambda>h'. safe rows cols h' \<and> (has_mode TM_LINE_WRAP h \<longrightarrow> cursor_col h' = 0))
      (Some (with_cursor (\<lambda>c. set_needs_wrap False (set_col (\<lambda>_. 0) c)) h'))" if "safe rows cols h'" for h'
    using safe_facts(2) [OF that] safe_with_cursor [OF that moves_wrap [OF moves_col [OF that, of "\<lambda>_. 0"]]]
    by (simp add: cursor_col_def)
  with True show ?thesis
    unfolding wrapline_def if_not_P [of "\<not> has_mode TM_LINE_WRAP h", unfolded not_not, OF True]
    by (intro ends_bind [OF cursor_cell_op_kept [OF assms]] ends_bind [OF step])
next
  case False
  with assms show ?thesis by (simp add: wrapline_def)
qed

lemma input_zero_width_safe:
  assumes "safe rows cols h"
  shows "ends (safe rows cols) (input_zero_width L c h)"
proof -
  note s = safe_facts [OF assms]
  define col where "col = (if needs_wrap h then cursor_col h else cursor_col h - 1)"
  define col' where "col' = (if flags_contains (cell_flags (row_inner (rows_now (h_grid h) ! cursor_row h) ! col))
      F_WIDE_CHAR_SPACER then col - 1 else col)"
  have col: "col < cols" "col' < cols" using s(5) by (auto simp: col_def col'_def)
  note cell = grid_cell_read [OF s(1,4) col(1)]
  have wide: "ends (safe rows cols) (do { h \<leftarrow> on_grid (grid_cell_mut (cursor_row h) col' (insert_flags F_WIDE_CHAR)) h';
                    h \<leftarrow> write_at_cursor DEFAULT_CHAR (insert_flags F_WIDE_CHAR_SPACER) h;
                    advance_cursor_by_one_cell h })" if "safe rows cols h'" for h'
    by (rule ends_bind [OF cell_op_kept [OF that s(4) col(2)]], drule keptD,
        erule ends_bind [OF write_kept], drule keptD, erule advance_safe)
  have rest: "ends (safe rows cols) (do { cl \<leftarrow> grid_cell (cursor_row h) col' (h_grid h');
         case (case raw_content cl of Str s \<Rightarrow> Some (str_width L s) | Char d \<Rightarrow> char_width L d) of
           None \<Rightarrow> Some h'
         | Some w \<Rightarrow> if w = 2 \<and> h_emoji_selector h' then
               do { h \<leftarrow> on_grid (grid_cell_mut (cursor_row h) col' (insert_flags F_WIDE_CHAR)) h';
                    h \<leftarrow> write_at_cursor DEFAULT_CHAR (insert_flags F_WIDE_CHAR_SPACER) h;
                    advance_cursor_by_one_cell h }
             else Some h' })" if "kept rows cols h h'" for h'
    unfolding grid_cell_read [OF safe_facts(1) [OF keptD [OF that]] s(4) col(2)] bind.bind_lunit
    using keptD [OF that] wide [OF keptD [OF that]] by (auto split: option.split char_or_str.split)
  show ?thesis
    unfolding input_zero_width_def Let_def s(16) bind.bind_lunit point.sel col_def [symmetric] cell
      col'_def [symmetric]
    by (rule ends_bind [OF cell_op_kept [OF assms s(4) col(2)]]) (rule rest)
qed

lemma swap_loop_length:
  assumes "length cs = n" and "\<And>i. i \<in> set is \<Longrightarrow> p i < n \<and> q i < n"
  shows "ends (\<lambda>cs'. length cs' = n) (fold_panics (\<lambda>i cs. swap_checked cs (p i) (q i)) is cs)"
  using assms by (intro ends_fold) (auto simp: swap_checked_def)

lemma insert_room_kept:
  assumes "safe rows cols h" and "0 < width" and "cursor_col h + width < cols"
  shows "ends (kept rows cols h) (insert_room width h)"
proof -
  note s = safe_facts [OF assms(1)]
  have width: "usub cols width = Some (cols - width)" using assms by (simp add: usub_def)
  have "ends (kept rows cols h') (do { h'' \<leftarrow> reset_wide_char_at_end_boundary (cursor_row h) (cols - width) bg h';
      on_grid (grid_index_mut (cursor_row h) (row_full_mut (fold_panics
        (\<lambda>i cs. swap_checked cs (i + width) i) (rev [cursor_col h..<cols - width])))) h'' })"
    if "kept rows cols h h'" for h' bg
    using keptD [OF that] s(4) assms
    by (intro kept_bind reset_end_kept row_op_kept row_full_mut_sized swap_loop_length) (auto dest: keptD)
  then show ?thesis
    unfolding insert_room_def Let_def s(14,16) bind.bind_lunit point.sel width
    by (intro kept_bind [OF reset_start_kept [OF assms(1) s(4,5)]])
qed

lemma has_mode_kept: "kept rows cols h h' \<Longrightarrow> has_mode m h' = has_mode m h"
  by (simp add: kept_def has_mode_def)

lemma write_wide_char_safe:
  assumes "safe rows cols h" and "cursor_col h + 1 < cols"
  shows "ends (safe rows cols) (write_wide_char c h)"
proof -
  have "ends (safe rows cols) (move_cursor_forward (set_col Suc) h')" if "kept rows cols h h'" for h'
    using forward_col_safe [OF keptD [OF that]] kept_cursor [OF that] assms(2) by (auto elim: ends_mono)
  then show ?thesis
    unfolding write_wide_char_def
    by (intro ends_bind [OF write_kept [OF assms(1)]] ends_bind [of "safe rows cols"] ends_kept [OF write_kept]
        advance_safe)
qed

lemma input_safe:
  assumes "safe rows cols h"
  shows "ends (safe rows cols) (input L c h)"
proof -
  have put: "ends (safe rows cols) (if width = 1 then do { h \<leftarrow> write_at_cursor c id h; advance_cursor_by_one_cell h }
      else if cursor_col h + 1 \<ge> cols then
        (if has_mode TM_LINE_WRAP h then
           do { h \<leftarrow> write_at_cursor DEFAULT_CHAR (insert_flags F_LEADING_WIDE_CHAR_SPACER) h;
                h \<leftarrow> wrapline h; write_wide_char c h }
         else move_cursor_forward (set_needs_wrap True) h)
      else write_wide_char c h)" if h: "safe rows cols h" for h and width :: nat
  proof (intro ends_if)
    show "ends (safe rows cols) (do { h \<leftarrow> write_at_cursor c id h; advance_cursor_by_one_cell h })"
      by (rule ends_bind [OF write_kept [OF h]]) (blast intro: advance_safe dest: keptD)
    show "ends (safe rows cols) (do { h \<leftarrow> write_at_cursor DEFAULT_CHAR (insert_flags F_LEADING_WIDE_CHAR_SPACER) h;
        h \<leftarrow> wrapline h; write_wide_char c h })" if wrap: "has_mode TM_LINE_WRAP h"
    proof (rule ends_bind [OF write_kept [OF h]])
      fix h' assume k: "kept rows cols h h'"
      show "ends (safe rows cols) (wrapline h' \<bind> write_wide_char c)"
        by (rule ends_bind [OF wrapline_safe [OF keptD [OF k]]])
          (use has_mode_kept [OF k] wrap safe_facts(2) [OF h] in \<open>auto intro!: write_wide_char_safe\<close>)
    qed
    show "ends (safe rows cols) (move_cursor_forward (set_needs_wrap True) h)"
      by (rule ends_mono [OF move_cursor_forward_safe [OF h moves_wrap [OF moves_id [OF h]]]]) simp_all
  qed (use h in \<open>auto intro: write_wide_char_safe\<close>)
  have wrapped: "ends (safe rows cols) (if needs_wrap h then wrapline h else Some h)"
    using assms ends_mono [OF wrapline_safe [OF assms]] by auto
  have room: "ends (safe rows cols) (if has_mode TM_INSERT h \<and> cursor_col h + width < cols then insert_room width h
      else Some h)" if "safe rows cols h" and "width \<noteq> 0" for h width
    using that by (auto intro: ends_kept insert_room_kept)
  show ?thesis
  proof (cases "char_width L c")
    case (Some width)
    show ?thesis
    proof (cases "width = 0")
      case False
      show ?thesis
        unfolding input_def Some option.case if_not_P [OF False] Let_def safe_facts(14) [OF assms]
        by (rule ends_bind [OF wrapped], rule ends_bind [OF room [OF _ False]], assumption, rule put)
    qed (use Some assms in \<open>simp add: input_def input_zero_width_safe\<close>)
  qed (use assms in \<open>simp add: input_def\<close>)
qed

section \<open>Moving the cursor\<close>

lemma goto_safe:
  assumes "safe rows cols h"
  shows "ends (safe rows cols) (goto row column h)"
proof -
  note s = safe_facts [OF assms]
  obtain a b where ab: "(if has_mode TM_ORIGIN h then
                do { max_y \<leftarrow> usub (snd (h_scroll_region h)) 1; Some (fst (h_scroll_region h), max_y) }
              else do { max_y \<leftarrow> usub (visible_rows h) 1; Some (0, max_y) }) = Some (a, b)" "b < rows"
    using s(3,8,9,13) by (cases "has_mode TM_ORIGIN h") (auto simp: usub_def)
  have "moves_inside rows cols h (\<lambda>c. set_needs_wrap False
      (c\<lparr>cur_point := VisiblePoint (min (row + a) b) (min column (cols - 1))\<rparr>))"
    using ab(2) s(2,6) by (intro moves_wrap) (simp add: moves_inside_def cursor_inside_def min_less_iff_disj)
  then show ?thesis
    unfolding goto_def ab(1) Let_def s(14) bind.bind_lunit fst_conv snd_conv
    by (rule ends_mono [OF update_cursor_safe [OF assms]]) simp
qed

lemma goto_variants_safe:
  assumes "safe rows cols h"
  shows "ends (safe rows cols) (goto_line n h)" "ends (safe rows cols) (goto_col n h)"
    "ends (safe rows cols) (move_up n h)" "ends (safe rows cols) (move_down n h)"
    "ends (safe rows cols) (move_down_and_cr n h)" "ends (safe rows cols) (move_up_and_cr n h)"
  by (simp_all add: goto_line_def goto_col_def move_up_def move_down_def move_down_and_cr_def
      move_up_and_cr_def goto_safe assms)

lemma move_forward_safe:
  assumes "safe rows cols h"
  shows "ends (safe rows cols) (handler_move_forward n h)"
proof -
  have lt: "min (cursor_col h + n) (cols - 1) < cols" using safe_facts(2) [OF assms] by auto
  have "cur_point (the_cursor h) \<le> cur_point (set_needs_wrap False (set_col (\<lambda>col. min (col + n) (cols - 1)) (the_cursor h)))"
    using safe_facts(5) [OF assms]
    by (cases "cur_point (the_cursor h)")
      (auto simp: set_needs_wrap_def set_col_def less_eq_visible_point_def cmp_points_def cursor_col_def min_def)
  from move_cursor_forward_safe [OF assms moves_wrap [OF moves_col
      [of rows cols h "\<lambda>col. min (col + n) (cols - 1)", OF assms lt]] this]
  show ?thesis
    unfolding handler_move_forward_def Let_def safe_facts(14) [OF assms] by (rule ends_mono) simp
qed

lemma move_backward_safe:
  assumes "safe rows cols h"
  shows "ends (safe rows cols) (handler_move_backward n h)" and "ends (safe rows cols) (backspace h)"
  using safe_facts(5) [OF assms] assms
  by (auto simp: handler_move_backward_def backspace_def intro: update_col_safe less_imp_diff_less)

lemma saved_cursor_safe:
  assumes "safe rows cols h"
  shows "safe rows cols (save_cursor_position h)" and "ends (safe rows cols) (restore_cursor_position h)"
proof -
  show "safe rows cols (save_cursor_position h)"
    using assms by (simp add: safe_def save_cursor_position_def)
  have "moves_inside rows cols h (\<lambda>_. gs_saved_cursor (h_grid h))"
    using assms by (simp add: moves_inside_def safe_def)
  from update_cursor_safe [OF assms this] show "ends (safe rows cols) (restore_cursor_position h)"
    unfolding restore_cursor_position_def Let_def by (rule ends_mono) simp
qed

section \<open>Tabs\<close>

lemma to_next_tab_safe:
  assumes "safe rows cols h"
  shows "ends (safe rows cols) (to_next_tab h)"
  using assms
proof (induction h rule: to_next_tab.induct)
  case (1 h)
  note s = safe_facts [OF "1.prems"]
  show ?case
  proof (cases "cursor_col h + 1 = handler_columns h")
    case False
    then have "cursor_col h + 1 < cols" using s(5,14) by simp
    from forward_col_safe [OF "1.prems" this] obtain h' where h': "move_cursor_forward (set_col Suc) h = Some h'"
        "safe rows cols h'"
      by (auto elim: endsE)
    have stop: "nth_checked (h_tabs h') (cursor_col h') = Some (h_tabs h' ! cursor_col h')"
      using safe_facts(5,10) [OF h'(2)] by (simp add: nth_checked_def)
    show ?thesis
      using "1.IH" [OF False h'(1) stop _ h'(2)] h' stop
      using False by (simp add: to_next_tab.simps [of h])
  qed (use "1.prems" in \<open>simp add: to_next_tab.simps [of h]\<close>)
qed

lemma put_tabs_safe: "safe rows cols h \<Longrightarrow> ends (safe rows cols) (put_tabs count h)"
proof (induction count arbitrary: h)
  case (Suc count)
  obtain cs where cs: "charsets_index (cur_charsets (the_cursor h)) (h_active_charset h) = Some cs"
    using charset_known [OF Suc.prems] by blast
  have "ends (safe rows cols) (do { h \<leftarrow> on_grid (cursor_cell f) h; h \<leftarrow> to_next_tab h; put_tabs count h })" for f
    by (rule ends_bind [OF cursor_cell_op_kept [OF Suc.prems]], drule keptD,
        erule ends_bind [OF to_next_tab_safe], erule Suc.IH)
  then show ?case using cs Suc.prems by (simp add: Let_def)
qed simp

lemma put_tab_safe: "safe rows cols h \<Longrightarrow> ends (safe rows cols) (put_tab count h)"
  unfolding put_tab_def by (intro ends_if put_tabs_safe ends_mono [OF wrapline_safe]) auto

lemma safe_tabs: "safe rows cols h \<Longrightarrow> length tabs = cols \<Longrightarrow> safe rows cols (h\<lparr>h_tabs := tabs\<rparr>)"
  by (simp add: safe_def)

lemma update_checked_ends: "i < length xs \<Longrightarrow> update_checked xs i x = Some (xs[i := x])"
  by (simp add: update_checked_def)

lemma tab_stops_safe:
  assumes "safe rows cols h"
  shows "ends (safe rows cols) (set_horizontal_tabstop h)" and "ends (safe rows cols) (clear_tabs m h)"
  using safe_facts(5,10) [OF assms] assms
  by (simp_all add: set_horizontal_tabstop_def clear_tabs_def update_checked_ends safe_tabs tabs_clear_all_def
      split: tabulation_clear_mode.split)

lemma previous_tab_ends: "i \<le> length tabs \<Longrightarrow> ends (\<lambda>t. \<forall>j. t = Some j \<longrightarrow> j < i) (previous_tab tabs i)"
proof (induction i)
  case (Suc i)
  then have "nth_checked tabs i = Some (tabs ! i)" by (simp add: nth_checked_def)
  with Suc show ?case by (auto elim!: ends_mono)
qed simp

lemma move_backward_tab_safe:
  assumes "safe rows cols h"
  shows "ends (safe rows cols) (move_backward_tab h)"
proof -
  note s = safe_facts [OF assms]
  have "cursor_col h \<le> length (h_tabs h)" using s(5,10) by simp
  then show ?thesis
    unfolding move_backward_tab_def Let_def
    by (intro ends_bind [OF previous_tab_ends] update_col_safe(2) assms)
      (use s(5) in \<open>auto split: option.split\<close>)
qed

lemma move_backward_tabs_safe: "safe rows cols h \<Longrightarrow> ends (safe rows cols) (move_backward_tabs count h)"
  unfolding move_backward_tabs_def by (rule ends_fold) (auto intro: move_backward_tab_safe)

end
