(* ===== verification/Term_Screen_Safe.thy ===== *)
theory Term_Screen_Safe
  imports Term_Safe
begin

text \<open>
  The invariant of the alternate screen under the rest of the calls of the handler, and the theorem
  for all of them: a sequence of calls panics on the alternate screen exactly when it comes to a call
  that is not accepted.
\<close>

section \<open>Inserting and erasing cells\<close>

lemma map_range_length:
  "a \<le> b \<Longrightarrow> b \<le> length cs \<Longrightarrow> ends (\<lambda>cs'. length cs' = length cs) (map_range f a b cs)"
  by (simp add: map_range_def)

lemma cells_op_kept:
  assumes "safe rows cols h" and "i < rows"
    and "\<And>cs. length cs = cols \<Longrightarrow> ends (\<lambda>cs'. length cs' = cols) (f cs)"
  shows "ends (kept rows cols h) (on_grid (grid_index_mut i (row_full_mut f)) h)"
  by (intro row_op_kept row_full_mut_sized assms)

lemma end_boundary_kept:
  assumes "safe rows cols h" and "row < rows" and "\<And>h'. kept rows cols h h' \<Longrightarrow> ends (kept rows cols h') (f h')"
  shows "ends (kept rows cols h)
           (do { h' \<leftarrow> (if col < cols then reset_wide_char_at_end_boundary row col bg h else Some h); f h' })"
  by (rule kept_bind [OF kept_if [OF assms(1) reset_end_kept [OF assms(1,2)]]], assumption) (rule assms(3))

lemma insert_blank_kept:
  assumes "safe rows cols h"
  shows "ends (kept rows cols h) (insert_blank count h)"
proof -
  note s = safe_facts [OF assms]
  have room: "usub cols (cursor_col h) = Some (cols - cursor_col h)" using s(5) by (simp add: usub_def)
  define n where "n = min count (cols - cursor_col h)"
  have n: "cursor_col h + n \<le> cols" "n \<le> cols" using s(5) by (auto simp: n_def)
  have cells: "ends (kept rows cols h') (on_grid (grid_index_mut (cursor_row h) (row_full_mut (\<lambda>cs.
      do { cs \<leftarrow> fold_panics (\<lambda>offset cs. swap_checked cs (cursor_col h + n + offset) (cursor_col h + offset))
             (rev [0..<cols - (cursor_col h + n)]) cs;
           map_range f (cursor_col h) (cursor_col h + n) cs }))) h')" if "kept rows cols h h'" for h' f
    using n s(5)
    by (intro cells_op_kept keptD [OF that] s(4) ends_bind [OF swap_loop_length])
      (auto intro: ends_mono [OF map_range_length])
  show ?thesis
    unfolding insert_blank_def Let_def s(14,16) bind.bind_lunit room n_def [symmetric] usub_le [OF n(1)]
      usub_le [OF n(2)] point.sel
  proof (rule kept_bind [OF reset_start_kept [OF assms s(4,5)]], goal_cases)
    case (1 h1)
    show ?case
      unfolding safe_facts(14) [OF keptD [OF 1]] usub_le [OF n(2)] bind.bind_lunit
      by (rule end_boundary_kept [OF keptD [OF 1] s(4)]) (rule cells, erule kept_trans [OF 1])
  qed
qed

lemma erase_chars_kept:
  assumes "safe rows cols h"
  shows "ends (kept rows cols h) (erase_chars count h)"
proof (cases "count = 0")
  case False
  note s = safe_facts [OF assms]
  have cells: "ends (kept rows cols h') (on_grid (grid_index_mut (cursor_row h)
      (row_range_mut (cursor_col h) (min (cursor_col h + count) cols) f)) h')" if "kept rows cols h h'" for h' f
    using s(5) by (intro row_op_kept keptD [OF that] s(4) row_range_mut_sized) auto
  show ?thesis
    unfolding erase_chars_def Let_def s(14,16) bind.bind_lunit if_not_P [OF False] point.sel
  proof (rule kept_bind [OF reset_start_kept [OF assms s(4,5)]], goal_cases)
    case (1 h1)
    show ?case
      unfolding safe_facts(14) [OF keptD [OF 1]]
      by (rule end_boundary_kept [OF keptD [OF 1] s(4)]) (rule cells, erule kept_trans [OF 1])
  qed
qed (use assms in \<open>simp add: erase_chars_def kept_refl\<close>)

lemma delete_chars_kept:
  assumes "safe rows cols h"
  shows "ends (kept rows cols h) (delete_chars count h)"
proof (cases "count = 0")
  case False
  note s = safe_facts [OF assms]
  define stop where "stop = min (cursor_col h + min count cols) (cols - 1)"
  have stop: "stop \<le> cols" "cursor_col h \<le> stop" "min count cols \<le> cols" "1 \<le> cols"
    using s(2,5) by (auto simp: stop_def)
  have cells: "ends (kept rows cols h') (on_grid (grid_index_mut (cursor_row h) (row_full_mut (\<lambda>cs.
      do { cs \<leftarrow> fold_panics (\<lambda>offset cs. swap_checked cs (cursor_col h + offset) (stop + offset))
             [0..<cols - stop] cs;
           map_range f (cols - min count cols) (length cs) cs }))) h')" if "kept rows cols h h'" for h' f
    using stop
    by (intro cells_op_kept keptD [OF that] s(4) ends_bind [OF swap_loop_length])
      (auto intro: ends_mono [OF map_range_length])
  show ?thesis
    unfolding delete_chars_def Let_def s(14,16) bind.bind_lunit if_not_P [OF False] point.sel
      usub_le [OF stop(4)] stop_def [symmetric] usub_le [OF stop(1)]
    by (rule kept_bind [OF reset_start_kept [OF assms s(4,5)]],
        unfold usub_le [OF stop(3)] bind.bind_lunit,
        rule end_boundary_kept [OF keptD s(4)], assumption, rule cells, rule kept_trans)
qed (use assms in \<open>simp add: delete_chars_def kept_refl\<close>)

section \<open>Clearing\<close>

lemma kept_told: "kept rows cols h h' \<Longrightarrow> kept rows cols h (told e h')"
  by (simp add: kept_def the_cursor_def told_def)

lemma clear_line_kept:
  assumes "safe rows cols h"
  shows "ends (kept rows cols h) (clear_line mode h)"
proof -
  note s = safe_facts [OF assms]
  have start: "ends (kept rows cols h) (case mode of
                LCM_Right \<Rightarrow> reset_wide_char_at_start_boundary (cursor_row h) (cursor_col h) bg h
              | LCM_Left \<Rightarrow>
                  if cursor_col h + 1 < cols
                  then reset_wide_char_at_end_boundary (cursor_row h) (cursor_col h + 1) bg h else Some h
              | LCM_All \<Rightarrow> Some h)" for bg
    using s(4,5) assms by (auto intro: reset_start_kept reset_end_kept kept_refl split: line_clear_mode.split)
  have row: "ends (row_sized cols) ((case mode of
                LCM_Right \<Rightarrow> row_range_from_mut (cursor_col h) f
              | LCM_Left \<Rightarrow> row_range_to_inclusive_mut (cursor_col h) f
              | LCM_All \<Rightarrow> row_full_mut (\<lambda>cs. Some (map f cs))) r)" if "row_sized cols r" for f r
    using that s(5) by (cases mode) (auto intro!: row_sized_intros)
  show ?thesis
    unfolding clear_line_def Let_def s(14,16) bind.bind_lunit point.sel
    by (rule kept_bind [OF start], rule ends_bind [OF row_op_kept [OF keptD s(4) row]], assumption, assumption)
      (simp add: kept_told)
qed

lemma on_grid_each_kept:
  assumes "safe rows cols h"
  shows "ends (kept rows cols h) (on_grid (region_full_each f) h)"
    and "stop \<le> rows \<Longrightarrow> ends (kept rows cols h) (on_grid (region_to_each stop f) h)"
    and "start < rows \<Longrightarrow> ends (kept rows cols h) (on_grid (region_from_each start f) h)"
  using safe_facts(1) [OF assms]
  by (simp_all add: on_grid_kept assms region_full_each_kept region_to_each_kept region_from_each_kept)

lemma flat_clear_kept:
  assumes "safe rows cols h"
  shows "ends (kept rows cols h) (on_flat flat_clear h)"
proof -
  have empty: "flat_empty cols (h_flat h)" using assms by (simp add: safe_def)
  have "kept rows cols h (h\<lparr>h_flat := fs\<rparr>)" if "flat_empty cols fs" for fs
    using assms that by (simp add: kept_def safe_def the_cursor_def)
  then show ?thesis
    unfolding on_flat_def by (intro ends_bind [OF flat_empty_facts(2) [OF empty]]) simp
qed

lemma find_row_down_ends: "(\<And>i. ends (\<lambda>_. True) (p i)) \<Longrightarrow> ends (\<lambda>_. True) (find_row_down p n)"
proof (induction n)
  case 0
  from 0 [of 0] show ?case by (auto elim!: endsE)
next
  case (Suc n)
  from Suc.prems [of "Suc n"] Suc.IH [OF Suc.prems] show ?case by (auto elim!: endsE)
qed

lemma handler_row_known:
  assumes "safe rows cols h"
  shows "ends (\<lambda>_. True) (handler_row i h)"
proof -
  note s = safe_facts [OF assms]
  note raw = sized_grid_raw_facts [OF s(1)]
  have flat: "flat_total_rows (h_flat h) = 0" using s(12) by (simp add: handler_history_size_def)
  have "storage_index (gs_raw (h_grid h)) i = Some (rows_now (h_grid h) ! i)" if "i < rows"
    using storage_index_eq [of "gs_raw (h_grid h)" i] raw that by (simp add: ring_full_def rows_now_def)
  then show ?thesis
    using s(15) flat sized_grid_simps(3) [OF s(1)]
    by (simp add: handler_row_def storage_row_of_def grid_get_def)
qed

lemma track_content_kept:
  assumes "safe rows cols h"
  shows "ends (kept rows cols h) (track_content L h)"
proof -
  have "ends (\<lambda>_. True) (row_has_visible_content L i h)" for i
    unfolding row_has_visible_content_def by (rule ends_bind [OF handler_row_known [OF assms]]) simp
  then have "ends (\<lambda>_. True) (bottommost_visible_content_row_backward L h)"
    unfolding bottommost_visible_content_row_backward_def by (intro find_row_down_ends)
  then show ?thesis
    unfolding track_content_def
    by (intro ends_if ends_bind) (simp_all add: assms kept_refl kept_def the_cursor_def)
qed

lemma on_finish_kept:
  assumes "safe rows cols h"
  shows "ends (kept rows cols h) (on_finish_byte_processing L h)"
proof -
  let ?h = "h\<lparr>h_grid := update_max_cursor (h_grid h)\<rparr>"
  have k0: "kept rows cols h ?h"
    using assms by (simp add: kept_def the_cursor_def update_max_cursor_frame)
  have tail: "ends (kept rows cols h') (if h_is_alt_screen h' then
           do { assert_that (flat_total_rows (h_flat h') = 0); Some h' } else Some h')"
    if "safe rows cols h'" for h'
    using safe_facts(12) [OF that] that by (simp add: handler_history_size_def kept_refl)
  have k2: "kept rows cols h' (reset_dirty_cells_range_to_cursor_point
      (if h_finished (told ScanDirtyCells h') \<and> handler_num_lines_truncated (told ScanDirtyCells h') > 0
       then told RefilterLines (told ScanDirtyCells h') else told FilterDirtyLines (told ScanDirtyCells h')))"
    if "safe rows cols h'" for h'
    using that by (simp add: kept_def the_cursor_def told_def reset_dirty_cells_range_to_cursor_point_def)
  show ?thesis
    unfolding on_finish_byte_processing_def Let_def
    by (rule ends_kept_trans [OF k0], rule kept_bind [OF update_dirty_kept [OF keptD [OF k0]]], drule keptD,
        rule ends_kept_trans [OF k2], assumption, rule kept_bind [OF track_content_kept], erule keptD [OF k2],
        rule tail, erule keptD)
qed

lemma clear_and_reset_safe:
  assumes "safe rows cols h"
  shows "ends (safe rows cols) (on_grid clear_and_reset_saving_cursor_line h)"
proof -
  note s = safe_facts [OF assms]
  have "safe rows cols (h\<lparr>h_grid := g\<rparr>)"
    if "sized_grid rows cols g" "gs_saved_cursor g = gs_saved_cursor (h_grid h)"
      "gs_cursor g = (the_cursor h)\<lparr>cur_point := VisiblePoint 0 (cursor_col h)\<rparr>" for g
    using assms that s(3,5,6) by (simp add: safe_def cursor_inside_def)
  then show ?thesis
    using s(1,4) unfolding on_grid_def the_cursor_def cursor_col_def cursor_row_def
    by (intro ends_bind [OF clear_and_reset_kept]) auto
qed

lemma kept_bind_safe:
  assumes "ends (kept rows cols h) m" and "\<And>h'. kept rows cols h h' \<Longrightarrow> ends (safe rows cols) (f h')"
  shows "ends (safe rows cols) (Option.bind m f)"
  using assms by (rule ends_bind)

lemma clear_above_kept:
  assumes "safe rows cols h"
  shows "ends (kept rows cols h)
           (do { h \<leftarrow> on_flat flat_clear h;
                 let row = cursor_row h; let col = cursor_col h;
                 h \<leftarrow> (if row > 1 then on_grid (region_to_each row f) h else Some h);
                 let stop = min (col + 1) (handler_columns h);
                 p \<leftarrow> cursor_point (h_grid h);
                 h \<leftarrow> (if stop < handler_columns h
                      then reset_wide_char_at_end_boundary (p_row p) stop bg h else Some h);
                 on_grid (grid_index_mut (p_row p) (row_range_to_mut stop f)) h })"
proof (rule kept_bind [OF flat_clear_kept [OF assms]], goal_cases)
  case (1 h1)
  note s1 = keptD [OF 1]
  have above: "ends (kept rows cols h1) (if cursor_row h1 > 1
      then on_grid (region_to_each (cursor_row h1) f) h1 else Some h1)"
    using safe_facts(4) [OF s1] by (intro kept_if s1 on_grid_each_kept(2)) simp
  show ?case
    unfolding Let_def
  proof (rule kept_bind [OF above], goal_cases)
    case (1 h2)
    note s2 = keptD [OF 1]
    have row: "ends (kept rows cols h3) (on_grid (grid_index_mut (cursor_row h2)
        (row_range_to_mut (min (cursor_col h1 + 1) cols) f)) h3)" if "kept rows cols h2 h3" for h3
      using safe_facts(4) [OF s2] by (intro row_op_kept keptD [OF that] row_range_to_mut_sized) auto
    show ?case
      unfolding safe_facts(14,16) [OF s2] bind.bind_lunit point.sel
      by (rule end_boundary_kept [OF s2 safe_facts(4) [OF s2] row])
  qed
qed

lemma clear_below_kept:
  assumes "safe rows cols h"
  shows "ends (kept rows cols h)
           (do { let row = cursor_row h; let col = cursor_col h;
                 p \<leftarrow> cursor_point (h_grid h);
                 h \<leftarrow> reset_wide_char_at_start_boundary (p_row p) col bg h;
                 h \<leftarrow> on_grid (grid_index_mut (p_row p) (row_range_from_mut col f)) h;
                 last \<leftarrow> usub rows 1;
                 if row < last then on_grid (region_from_each (row + 1) f) h else Some h })"
proof -
  note s = safe_facts [OF assms]
  have row: "ends (kept rows cols h') (on_grid (grid_index_mut (cursor_row h) (row_range_from_mut (cursor_col h) f)) h')"
    if "safe rows cols h'" for h'
    using s(4,5) by (intro row_op_kept that row_range_from_mut_sized) auto
  have below: "ends (kept rows cols h') (do { last \<leftarrow> usub rows 1;
      if cursor_row h < last then on_grid (region_from_each (cursor_row h + 1) f) h' else Some h' })"
    if "safe rows cols h'" for h'
    unfolding usub_le [OF s(3)] bind.bind_lunit by (intro kept_if that on_grid_each_kept(3)) auto
  show ?thesis
    unfolding Let_def s(16) bind.bind_lunit point.sel
    by (rule kept_bind [OF reset_start_kept [OF assms s(4,5)]], drule keptD, erule kept_bind [OF row],
        rule below, erule keptD)
qed

lemma clear_all_safe:
  assumes "safe rows cols h"
  shows "ends (safe rows cols)
           (do { h \<leftarrow> on_flat flat_clear h;
                 h \<leftarrow> on_grid clear_and_reset_saving_cursor_line h;
                 let h = told ClearDisplayedRows (told ClearSecrets h);
                 let cursor_row = p_row (handler_cursor_point h);
                 let h = h\<lparr>h_dirty_cells_range := (Point cursor_row 0, Point (cursor_row + 1) 0)\<rparr>;
                 on_finish_byte_processing L h })"
  unfolding Let_def
  by (rule ends_bind [OF flat_clear_kept [OF assms]], drule keptD, erule ends_bind [OF clear_and_reset_safe])
    (intro ends_kept [OF on_finish_kept], simp)

lemma clear_screen_safe:
  assumes "safe rows cols h"
  shows "ends (safe rows cols) (clear_screen L mode h)"
proof -
  note s = safe_facts [OF assms]
  show ?thesis
  proof (cases mode)
    case CM_Below
    show ?thesis
      unfolding clear_screen_def CM_Below clear_mode.case s(13)
      using ends_kept [OF clear_below_kept [OF assms]] by (simp only: Let_def)
  next
    case CM_Above
    show ?thesis
      unfolding clear_screen_def CM_Above clear_mode.case
      using ends_kept [OF clear_above_kept [OF assms]] by (simp only: Let_def)
  next
    case CM_ResetAndClear
    show ?thesis
      unfolding clear_screen_def CM_ResetAndClear clear_mode.case
      using clear_all_safe [OF assms] by (simp only: Let_def)
  next
    case CM_ActiveBlock
    show ?thesis
      unfolding clear_screen_def CM_ActiveBlock clear_mode.case
      using clear_all_safe [OF assms] by (simp only: Let_def)
  qed (use s(11,12) ends_kept [OF on_grid_each_kept(1) [OF assms]] assms in \<open>simp_all add: clear_screen_def\<close>)
qed

section \<open>Modes and resetting\<close>

lemma with_template_safe: "safe rows cols h \<Longrightarrow> safe rows cols (with_template f h)"
  unfolding with_template_def
  by (rule safe_with_cursor) (simp_all add: moves_inside_def cursor_inside_def safe_def the_cursor_def)

lemma set_scrolling_region_safe:
  assumes "safe rows cols h" and "1 \<le> t"
  shows "ends (safe rows cols) (handler_set_scrolling_region t b h)"
proof -
  note s = safe_facts [OF assms(1)]
  have "safe rows cols (h\<lparr>h_scroll_region := (min (t - 1) rows, min l rows)\<rparr>)" if "t < l" for l
    using assms s(3) that by (simp add: safe_def region_inside_def)
  then show ?thesis
    unfolding handler_set_scrolling_region_def Let_def usub_le [OF assms(2)] bind.bind_lunit s(13)
    using assms(1) by (intro ends_if) (auto intro: goto_safe)
qed

lemma deccolm_safe:
  assumes "safe rows cols h"
  shows "ends (safe rows cols) (deccolm h)"
  unfolding deccolm_def
  by (rule ends_bind [OF set_scrolling_region_safe [OF assms]])
    (auto intro: ends_kept on_grid_each_kept(1))

lemma modes_safe:
  assumes "safe rows cols h" and "\<And>m. mode \<noteq> M_SwapScreen m"
  shows "ends (safe rows cols) (set_mode mode h)" and "ends (safe rows cols) (unset_mode mode h)"
  using assms by (cases mode; simp add: deccolm_safe set_blinking_def)+

lemma configure_charset_safe:
  assumes "safe rows cols h"
  shows "ends (safe rows cols) (configure_charset i c h)"
proof -
  have "charset_slot i < length (cur_charsets (the_cursor h))" using safe_facts(6) [OF assms] by (cases i) simp_all
  then have cs: "charsets_index_mut i c (cur_charsets (the_cursor h)) = Some ((cur_charsets (the_cursor h))[charset_slot i := c])"
    by (simp add: charsets_index_mut_def update_checked_def)
  show ?thesis
    unfolding configure_charset_def cs bind.bind_lunit ends_simps
    using assms by (intro safe_with_cursor) (simp_all add: moves_inside_def cursor_inside_def safe_def the_cursor_def)
qed

lemma reset_state_safe:
  assumes "safe rows cols h"
  shows "ends (safe rows cols) (reset_state h)"
proof -
  note s = safe_facts [OF assms]
  have grid: "ends (safe rows cols) (on_grid grid_reset h)"
  proof -
    have "safe rows cols (h\<lparr>h_grid := g\<rparr>)" if "sized_grid rows cols g" "gs_cursor g = default_cursor"
        "gs_saved_cursor g = default_cursor" for g
      using assms that s(2,3) by (simp add: safe_def cursor_inside_def default_cursor_def)
    then show ?thesis
      unfolding on_grid_def by (intro ends_bind [OF grid_reset_kept [OF s(1)]]) simp
  qed
  have "safe rows cols (h'\<lparr>h_active_charset := G0, h_cursor_style := default_cursor_style,
      h_scroll_region := (0, visible_rows h'), h_tabs := tabs_new (handler_columns h')\<rparr>)"
    if "safe rows cols h'" for h'
    using that safe_facts(3,13,14) [OF that] by (simp add: safe_def region_inside_def)
  then show ?thesis
    unfolding reset_state_def Let_def
    by (intro ends_bind [OF grid] ends_bind [OF flat_clear_kept]) (auto dest: keptD)
qed

section \<open>All calls\<close>

text \<open>
  The calls that a screen in a given state serves without a panic: the model layer above the handler
  swaps the screens itself; a scrolling region starts at row 1 at least, or it is empty; and an
  image that is shown takes a row at least where the cursor has to pass it, and the sizes computed from
  it fit into 32 bits.
\<close>

definition cells_fit :: "nat \<Rightarrow> nat option \<Rightarrow> bool" where
  "cells_fit cell n = (case n of Some n \<Rightarrow> cell * n < 2 ^ 32 | None \<Rightarrow> True)"

fun accepts_image :: "handler \<Rightarrow> image_call \<Rightarrow> bool" where
  "accepts_image h (ShowItermImage _ _ width height _ up_cells _) =
    (map_option fst width = Some 0 \<or> map_option fst height = Some 0 \<or>
     cells_fit (h_cell_width h) (in_cells width) \<and> cells_fit (h_cell_height h) (in_cells height) \<and>
     (handler_columns h - cursor_col h) * h_cell_width h < 2 ^ 32 \<and>
     MAX_IMAGE_CELL_HEIGHT * h_cell_height h < 2 ^ 32 \<and> 1 \<le> up_cells)"
| "accepts_image h (ShowKittyImage _ _ _ d height_cells _) =
    (kp_cols d = Some 0 \<or> kp_rows d = Some 0 \<or>
     cells_fit (h_cell_width h) (kp_cols d) \<and> cells_fit (h_cell_height h) (kp_rows d) \<and>
     (kp_cursor_movement_policy d = CMP_MoveCursor \<longrightarrow> 1 \<le> height_cells))"
| "accepts_image h _ = True"

fun accepts :: "handler \<Rightarrow> handler_call \<Rightarrow> bool" where
  "accepts h (Control (SetMode (M_SwapScreen _))) = False"
| "accepts h (Control (UnsetMode (M_SwapScreen _))) = False"
| "accepts h (Control (SetScrollingRegion t b)) = (1 \<le> t \<or> b = Some 0)"
| "accepts h (Image i) = accepts_image h i"
| "accepts h _ = True"

text \<open>What the decoder passes on itself is served in every state.\<close>

fun legal :: "handler_call \<Rightarrow> bool" where
  "legal (Control (SetMode (M_SwapScreen _))) = False"
| "legal (Control (UnsetMode (M_SwapScreen _))) = False"
| "legal (Control (SetScrollingRegion t _)) = (1 \<le> t)"
| "legal (Image _) = False"
| "legal _ = True"

lemma legal_accepted: "legal c \<Longrightarrow> accepts h c"
  by (cases c rule: legal.cases) auto

lemma handle_cursor_safe:
  assumes "safe rows cols h"
  shows "ends (safe rows cols) (handle_cursor L c h)"
  using assms
  by (cases c)
    (simp_all add: ends_snd input_safe goto_safe goto_variants_safe move_forward_safe move_backward_safe
      put_tab_safe carriage_return_safe linefeed_safe newline_safe reverse_index_safe
      move_backward_tabs_safe saved_cursor_safe)

lemma ends_kept_snd: "ends (\<lambda>r. kept rows cols h (snd r)) m \<Longrightarrow> ends (\<lambda>r. safe rows cols (snd r)) m"
  by (auto elim: ends_mono dest: keptD)

lemma handle_edit_safe:
  assumes "safe rows cols h"
  shows "ends (safe rows cols) (handle_edit L c h)"
  using assms
  by (cases c)
    (simp_all add: ends_snd ends_kept_snd [OF insert_blank_lines_kept] ends_kept_snd [OF delete_lines_kept]
      ends_kept_snd [OF handler_scroll_kept(1)] ends_kept_snd [OF handler_scroll_kept(2)]
      ends_kept [OF insert_blank_kept] ends_kept [OF erase_chars_kept] ends_kept [OF delete_chars_kept]
      ends_kept [OF clear_line_kept] clear_screen_safe decaln_def ends_kept [OF on_grid_each_kept(1)]
      reset_state_safe tab_stops_safe)

lemma keyboard_flags_safe:
  assumes "safe rows cols h"
  shows "safe rows cols (set_keyboard_enhancement_flags L k a h)"
    "safe rows cols (push_keyboard_enhancement_flags L k h)"
    "safe rows cols (pop_keyboard_enhancement_flags L n h)"
  using assms
  by (simp_all add: set_keyboard_enhancement_flags_def push_keyboard_enhancement_flags_def
      pop_keyboard_enhancement_flags_def set_keyboard_mode_def push_keyboard_mode_def
      pop_keyboard_modes_def Let_def)

lemma clipboard_safe:
  "safe rows cols h \<Longrightarrow> safe rows cols (clipboard_store L c t h)"
  "safe rows cols h \<Longrightarrow> safe rows cols (clipboard_load c s h)"
  by (simp_all add: clipboard_store_def clipboard_load_def split: option.split)

lemma handle_control_safe:
  assumes "safe rows cols h" and "accepts h (Control c)"
  shows "ends (safe rows cols) (handle_control L c h)"
proof (cases c)
  case (SetMode m)
  with assms show ?thesis by (cases m) (simp_all add: deccolm_safe set_blinking_def)
next
  case (UnsetMode m)
  with assms show ?thesis by (cases m) (simp_all add: deccolm_safe set_blinking_def)
next
  case (SetScrollingRegion t b)
  show ?thesis
  proof (cases "1 \<le> t")
    case True
    with assms(1) SetScrollingRegion show ?thesis by (simp add: set_scrolling_region_safe)
  next
    case False
    with assms SetScrollingRegion show ?thesis by (simp add: handler_set_scrolling_region_def)
  qed
next
  case OnResetGrid
  with assms show ?thesis by (simp add: on_reset_grid_def safe_def)
qed (use assms in \<open>simp_all add: terminal_attribute_def with_template_safe
    set_keypad_application_mode_def unset_keypad_application_mode_def set_active_charset_def
    configure_charset_safe set_handler_cursor_style_def Let_def set_cursor_shape_def bell_def
    clipboard_safe keyboard_flags_safe ends_kept [OF on_finish_kept]\<close>)

lemma handle_control_panics:
  assumes "safe rows cols h" and "\<not> accepts h (Control c)"
  shows "handle_control L c h = None"
proof (cases c)
  case (SetMode m)
  with assms(2) show ?thesis by (cases m) simp_all
next
  case (UnsetMode m)
  with assms(2) show ?thesis by (cases m) simp_all
next
  case (SetScrollingRegion t b)
  with assms safe_facts(3,13) [OF assms(1)] show ?thesis
    by (auto simp: handler_set_scrolling_region_def usub_def split: option.split)
qed (use assms(2) in simp_all)

subsection \<open>Images\<close>

lemma size_checks:
  "Option.bind (cells_in_pixels cell n) (\<lambda>_. m) = (if cells_fit cell n then m else None)"
  "Option.bind (umul_u32 a b) (\<lambda>_. m) = (if a * b < 2 ^ 32 then m else None)"
  by (simp_all add: cells_in_pixels_def cells_fit_def umul_u32_def split: option.split)

lemma safe_told: "safe rows cols (told e h) = safe rows cols h"
  by (simp add: safe_def told_def)

lemma move_past_image_safe:
  assumes "safe rows cols h" and "1 \<le> up"
  shows "ends (safe rows cols) (move_past_image up right h)"
proof -
  have "ends (safe rows cols) (fold_panics (\<lambda>_. newline) [0..<up - 1] h)"
    by (rule ends_fold [where P = "safe rows cols", OF assms(1)]) (rule newline_safe)
  moreover have "ends (safe rows cols) (move_cursor_forward
      (\<lambda>c. if vp_col (cur_point c) + right < handler_columns h'
           then set_col (\<lambda>col. col + right) c else set_needs_wrap True c) h')"
    (is "ends _ (move_cursor_forward ?f h')") if "safe rows cols h'" for h'
  proof -
    have "moves_inside rows cols h' ?f"
      using that safe_facts(14) [OF that]
      by (auto simp: safe_def moves_inside_def cursor_inside_def the_cursor_def set_needs_wrap_def set_col_def)
    moreover have "cur_point (the_cursor h') \<le> cur_point (?f (the_cursor h'))"
      by (cases "cur_point (the_cursor h')")
        (auto simp: set_needs_wrap_def set_col_def less_eq_visible_point_def cmp_points_def)
    ultimately show ?thesis by (rule ends_mono [OF move_cursor_forward_safe [OF that]]) simp
  qed
  ultimately show ?thesis
    unfolding move_past_image_def usub_le [OF assms(2)] bind.bind_lunit by (rule ends_bind)
qed

lemma move_past_image_outcome:
  assumes "safe rows cols h"
  shows "if 1 \<le> up then ends (safe rows cols) (move_past_image up right h) else move_past_image up right h = None"
  using move_past_image_safe [OF assms] by (simp add: move_past_image_def usub_def)

lemma checks_outcome:
  assumes "if ok then ends P m else m = None" and "P h"
  shows "if e \<or> f \<or> a \<and> b \<and> c \<and> d \<and> ok
    then ends P (if e \<or> f then Some h else if a then if b then if c then if d then m else None else None else None else None)
    else (if e \<or> f then Some h else if a then if b then if c then if d then m else None else None else None else None) = None"
    and "P h' \<Longrightarrow> if e \<or> f \<or> a \<and> b \<and> (move \<longrightarrow> ok)
    then ends P (if e \<or> f then Some h else if a then if b then if move then m else Some h' else None else None)
    else (if e \<or> f then Some h else if a then if b then if move then m else Some h' else None else None) = None"
  using assms by (cases e; cases f; cases a; cases b; cases c; cases d; cases move; cases ok; simp)+

lemma handle_image_outcome:
  assumes "safe rows cols h"
  shows "if accepts_image h i then ends (safe rows cols) (handle_image i h) else handle_image i h = None"
proof -
  note s = safe_facts [OF assms]
  have room: "usub (handler_columns h) (p_col (handler_cursor_point h)) = Some (handler_columns h - cursor_col h)"
    using s(5,14) by (simp add: usub_def handler_cursor_point_def)
  have placed: "safe rows cols (told e (told e' h))" "safe rows cols (told e (told e' (told e'' h)))" for e e' e''
    using assms by (simp_all add: safe_told)
  show ?thesis
  proof (cases i)
    case (ShowItermImage id pid width height height_cells up right)
    show ?thesis
      unfolding ShowItermImage handle_image.simps handle_completed_iterm_image_def accepts_image.simps
        room size_checks bind.bind_lunit Let_def send_terminal_event_def
      by (rule checks_outcome(1) [OF move_past_image_outcome [OF placed(2)] assms])
  next
    case (ShowKittyImage with_data id pid d height_cells width_cells)
    define h' where "h' = told (PlaceImage id pid
      (absolute_cursor_point (told (AddImagePlacementData id pid (kp_z_index d) height_cells)
        (if with_data then told (Sent (ImageReceived id)) h else h))))
      (told (AddImagePlacementData id pid (kp_z_index d) height_cells)
        (if with_data then told (Sent (ImageReceived id)) h else h))"
    have h': "safe rows cols h'" using assms by (simp add: h'_def safe_told)
    show ?thesis
      unfolding ShowKittyImage handle_image.simps display_kitty_image_def accepts_image.simps
        room size_checks bind.bind_lunit Let_def send_terminal_event_def h'_def [symmetric]
      by (rule checks_outcome(2) [OF move_past_image_outcome [OF h'] assms h'])
  qed (use assms in \<open>simp_all add: send_terminal_event_def safe_told\<close>)
qed

lemma handle_outcome:
  assumes "safe rows cols h"
  shows "if accepts h c then ends (safe rows cols) (handle L c h) else handle L c h = None"
proof (cases c)
  case (Control x)
  then show ?thesis using assms handle_control_safe handle_control_panics by simp
next
  case (Image i)
  then show ?thesis using handle_image_outcome [OF assms] by simp
qed (use assms in \<open>simp_all add: handle_cursor_safe handle_edit_safe\<close>)

lemma handle_step:
  assumes "safe rows cols h"
  shows "handle L c h = Some h' \<Longrightarrow> safe rows cols h'" and "handle L c h = None \<Longrightarrow> \<not> accepts h c"
    and "\<not> accepts h c \<Longrightarrow> handle L c h = None"
  using handle_outcome [OF assms, of c L] by (simp_all split: if_splits)

lemma handle_all_cons:
  "handle_all L [] h = Some h" "handle L c h = Some h0 \<Longrightarrow> handle_all L (c # calls) h = handle_all L calls h0"
  "handle L c h = None \<Longrightarrow> handle_all L (c # calls) h = None"
  by (simp_all add: handle_all_def)

lemma handle_all_ends_safe:
  assumes "safe rows cols h" and "handle_all L calls h = Some h'"
  shows "safe rows cols h'"
  using assms(2) unfolding handle_all_def
  by (rule fold_panics_invariant [where P = "safe rows cols"]) (use assms(1) handle_step(1) in blast)+

lemma handle_all_stops:
  assumes "safe rows cols h" and "handle_all L calls h = None"
  shows "\<exists>first c rest h1. calls = first @ c # rest \<and> handle_all L first h = Some h1 \<and> \<not> accepts h1 c"
  using assms
proof (induction calls arbitrary: h)
  case (Cons c calls)
  show ?case
  proof (cases "handle L c h")
    case None
    with handle_step(2) [OF Cons.prems(1)] have "c # calls = [] @ c # calls \<and> handle_all L [] h = Some h \<and> \<not> accepts h c"
      by (simp add: handle_all_cons(1))
    then show ?thesis by blast
  next
    case (Some h0)
    with Cons.prems have "handle_all L calls h0 = None" by (simp add: handle_all_cons(2))
    from Cons.IH [OF handle_step(1) [OF Cons.prems(1) Some] this] obtain first c' rest h1
      where "calls = first @ c' # rest" "handle_all L first h0 = Some h1" "\<not> accepts h1 c'" by blast
    then have "c # calls = (c # first) @ c' # rest \<and> handle_all L (c # first) h = Some h1 \<and> \<not> accepts h1 c'"
      using Some by (simp add: handle_all_cons(2))
    then show ?thesis by blast
  qed
qed (simp add: handle_all_cons(1))

lemma handle_all_safe:
  assumes "safe rows cols h" and "list_all legal calls"
  shows "ends (safe rows cols) (handle_all L calls h)"
proof (cases "handle_all L calls h")
  case None
  with handle_all_stops [OF assms(1)] obtain first c rest h1
    where "calls = first @ c # rest" "\<not> accepts h1 c" by blast
  with assms(2) legal_accepted show ?thesis by auto
next
  case (Some h')
  with handle_all_ends_safe [OF assms(1)] show ?thesis by simp
qed

lemma handle_all_refused:
  assumes "safe rows cols h" and "handle_all L first h = Some h1" and "\<not> accepts h1 c"
  shows "handle_all L (first @ c # rest) h = None"
  using assms(2) handle_step(3) [OF handle_all_ends_safe [OF assms(1,2)] assms(3), of L]
  by (simp add: handle_all_def fold_panics_append)

lemma handler_new_safe:
  assumes "1 \<le> rows" and "2 \<le> cols"
  shows "ends (safe rows cols) (handler_new sequential resize_fix rows cols width height limit True False)"
proof -
  obtain g where g: "grid_new sequential resize_fix rows cols 0 = Some g" "live_grid g" "gs_rows g = rows"
      "gs_columns g = cols" "gs_cursor g = default_cursor" "gs_saved_cursor g = default_cursor"
    using new_grid [of rows cols sequential resize_fix] assms by auto
  then have "sized_grid rows cols g" using sized_grid_live by blast
  moreover have "flat_empty cols (flat_new cols (Some limit))"
    using flat_new_is by (auto simp: flat_empty_def)
  ultimately show ?thesis
    using g assms
    by (simp add: handler_new_def Let_def safe_def cursor_inside_def default_cursor_def region_inside_def)
qed

text \<open>
  C20. What brings the alternate screen down, and that nothing else does. On a new screen of at least one
  row and two columns, a sequence of handler calls panics exactly when it comes to a call that its
  state does not accept: a swap of the screens, which belongs to the layer above; a scrolling region that
  starts above row 1 and is not empty; or an image that is shown at a size of no rows, or of a number of
  pixels that 32 bits do not hold. Every other sequence runs to its end, and then the cursor and the saved cursor
  are inside the screen, every row has the width of the screen, the scrolling region is not inverted,
  there is one tab stop per column, and nothing has reached the scrollback.
\<close>

theorem alt_screen_never_panics:
  assumes "1 \<le> rows" and "2 \<le> cols"
  shows "\<exists>h. handler_new sequential resize_fix rows cols width height limit True False = Some h \<and>
    (handle_all L calls h = None \<longleftrightarrow>
       (\<exists>first c rest h1. calls = first @ c # rest \<and> handle_all L first h = Some h1 \<and> \<not> accepts h1 c)) \<and>
    (\<forall>h'. handle_all L calls h = Some h' \<longrightarrow> safe rows cols h')"
proof -
  obtain h where h: "handler_new sequential resize_fix rows cols width height limit True False = Some h"
      "safe rows cols h"
    using handler_new_safe [OF assms] by (rule endsE)
  let ?refused = "\<exists>first c rest h1. calls = first @ c # rest \<and> handle_all L first h = Some h1 \<and> \<not> accepts h1 c"
  have "handle_all L calls h = None \<longleftrightarrow> ?refused"
    by (rule iffI, erule handle_all_stops [OF h(2)]) (auto intro: handle_all_refused [OF h(2)])
  moreover have "\<forall>h'. handle_all L calls h = Some h' \<longrightarrow> safe rows cols h'"
    using handle_all_ends_safe [OF h(2)] by blast
  ultimately show ?thesis by (intro exI [of _ h] conjI h(1))
qed

text \<open>Widths as the Unicode tables have them for the characters of the examples.\<close>

definition sample_width :: "uchar \<Rightarrow> nat option" where
  "sample_width c =
    (if c < 0x20 then None else if 0x300 \<le> c \<and> c < 0x370 then Some 0
     else if 0x1100 \<le> c then Some 2 else Some 1)"

definition sample_libraries :: libraries where
  "sample_libraries =
    \<lparr>char_width = sample_width, str_width = (\<lambda>s. 1),
     bounded_push_back = (\<lambda>n ks k. if length ks < n then ks @ [k] else tl ks @ [k]),
     decode_text = (\<lambda>_. None), image_in_row = (\<lambda>_ _. False), kitty_keyboard = True\<rparr>"

lemma sample_screen: "\<exists>h. handler_new True False 2 4 8 16 100 True False = Some h \<and> safe 2 4 h"
  using handler_new_safe [of 2 4 True False 8 16 100] by (auto elim: endsE)

definition no_rows :: kitty_placement_data where
  "no_rows = \<lparr>kp_z_index = 0, kp_cols = Some 1, kp_rows = None, kp_cursor_movement_policy = CMP_MoveCursor\<rparr>"

theorem alt_screen_never_panics_witness:
  "\<exists>h. handler_new True False 2 4 8 16 100 True False = Some h \<and>
     handle_all sample_libraries
       [Cursor (Input 0x4E16), Control (SetScrollingRegion 1 (Some 1)), Image (ShowKittyImage True 1 2 no_rows 0 1),
        Edit (DeleteChars 3)] h = None"
proof -
  let ?first = "[Cursor (Input 0x4E16), Control (SetScrollingRegion 1 (Some 1))]"
  let ?image = "Image (ShowKittyImage True 1 2 no_rows 0 1)"
  obtain h where h: "handler_new True False 2 4 8 16 100 True False = Some h" "safe 2 4 h"
    using sample_screen by blast
  have "list_all legal ?first" by simp
  from handle_all_safe [OF h(2) this] obtain h1 where "handle_all sample_libraries ?first h = Some h1" by (rule endsE)
  moreover have "\<not> accepts h1 ?image" by (simp add: no_rows_def)
  ultimately have "\<exists>first c rest h1. ?first @ ?image # [Edit (DeleteChars 3)] = first @ c # rest \<and>
      handle_all sample_libraries first h = Some h1 \<and> \<not> accepts h1 c" by blast
  then show ?thesis
    using alt_screen_never_panics [of 2 4 True False 8 16 100 sample_libraries "?first @ ?image # [Edit (DeleteChars 3)]"] h
    by simp
qed

end
