(* ===== verification/Term_Exact.thy ===== *)
theory Term_Exact
  imports Term_Screen_Safe
begin

unbundle bit_operations_syntax

text \<open>
  What the operations of the terminal do exactly: what a printed text leaves in the grid and where
  the cursor ends, where a tab goes, and how the parts of the terminal work together.
\<close>

section \<open>Rows repainted\<close>

text \<open>The handler after an operation that only changed rows of its grid.\<close>

definition repainted :: "nat \<Rightarrow> nat \<Rightarrow> row list \<Rightarrow> handler \<Rightarrow> handler \<Rightarrow> bool" where
  "repainted rows cols rs h h' \<longleftrightarrow>
     (\<exists>g. h' = h\<lparr>h_grid := g\<rparr> \<and> resized_from rows cols (h_grid h) g \<and> rows_now g = rs)"

definition put_cell :: "nat \<Rightarrow> cell \<Rightarrow> row \<Rightarrow> row" where
  "put_cell j x r = \<lparr>row_inner = (row_inner r)[j := x], row_occ = max (row_occ r) (j + 1)\<rparr>"

abbreviation on_screen :: "nat \<Rightarrow> nat \<Rightarrow> handler \<Rightarrow> bool" where
  "on_screen rows cols h \<equiv>
     sized_grid rows cols (h_grid h) \<and> cursor_row h < rows \<and> cursor_col h < cols"

abbreviation cell_at :: "nat \<Rightarrow> nat \<Rightarrow> handler \<Rightarrow> cell" where
  "cell_at i j h \<equiv> row_inner (rows_now (h_grid h) ! i) ! j"

lemma row_index_mut_put:
  assumes "row_sized cols r" and "j < cols"
  shows "row_index_mut j f r = Some (put_cell j (f (row_inner r ! j)) r)" and "row_sized cols (put_cell j x r)"
proof -
  have len: "j < length (row_inner r)" using assms by (simp add: row_sized_def row_len_def)
  have one: "drop j (take (Suc j) (row_inner r)) = [row_inner r ! j]"
    using len by (simp add: take_Suc_conv_app_nth)
  show "row_index_mut j f r = Some (put_cell j (f (row_inner r ! j)) r)"
    using len by (simp add: row_index_mut_def map_range_def put_cell_def one upd_conv_take_nth_drop)
  show "row_sized cols (put_cell j x r)"
    using assms by (simp add: row_sized_def row_len_def put_cell_def)
qed

lemma grid_cell_mut_at:
  assumes "sized_grid rows cols g" and "i < rows" and "j < cols"
  shows "ends (\<lambda>g'. resized_from rows cols g g' \<and>
           rows_now g' = (rows_now g)[i := put_cell j (f (row_inner (rows_now g ! i) ! j)) (rows_now g ! i)])
           (grid_cell_mut i j f g)"
proof -
  note r = row_index_mut_put [OF sized_grid_row [OF assms(1,2)] assms(3)]
  show ?thesis
    unfolding grid_cell_mut_def
    by (rule grid_index_mut_at(1) [of rows cols g i "row_index_mut j f", OF assms(1,2) r(1) r(2)])
qed

lemma on_grid_repainted:
  assumes "ends (\<lambda>g'. resized_from rows cols (h_grid h) g' \<and> rows_now g' = rs) (f (h_grid h))"
  shows "ends (repainted rows cols rs h) (on_grid f h)"
  unfolding on_grid_def by (rule ends_bind [OF assms]) (auto simp: repainted_def)

lemma repaintedD:
  assumes "repainted rows cols rs h h'"
  shows "h' = h\<lparr>h_grid := h_grid h'\<rparr>" "sized_grid rows cols (h_grid h')" "rows_now (h_grid h') = rs"
    "the_cursor h' = the_cursor h" "gs_saved_cursor (h_grid h') = gs_saved_cursor (h_grid h)"
    "gs_max_cursor_point (h_grid h') = gs_max_cursor_point (h_grid h)"
  using assms by (auto simp: repainted_def the_cursor_def dest: resized_from_cursors)

lemma repainted_fields:
  assumes "repainted rows cols rs h h'"
  shows "cursor_row h' = cursor_row h" "cursor_col h' = cursor_col h" "needs_wrap h' = needs_wrap h"
    "has_mode m h' = has_mode m h" "h_active_charset h' = h_active_charset h" "h_flat h' = h_flat h"
    "h_is_alt_screen h' = h_is_alt_screen h" "h_scroll_region h' = h_scroll_region h"
    "h_mode h' = h_mode h"
  using assms
  by (auto simp: repainted_def cursor_row_def cursor_col_def needs_wrap_def has_mode_def the_cursor_def
      dest: resized_from_cursors)

section \<open>Writing a cell\<close>

definition not_wide :: "cell \<Rightarrow> bool" where
  "not_wide c \<longleftrightarrow> \<not> flags_intersects (cell_flags c) (F_WIDE_CHAR OR F_WIDE_CHAR_SPACER)"

lemma on_screen_point:
  assumes "on_screen rows cols h"
  shows "cursor_point (h_grid h) = Some (Point (cursor_row h) (cursor_col h))"
  using sized_grid_simps(8) [of rows cols "h_grid h"] assms by (simp add: cursor_row_def cursor_col_def the_cursor_def)

lemma cursor_cell_at:
  assumes "on_screen rows cols h"
  shows "ends (repainted rows cols
           ((rows_now (h_grid h))[cursor_row h := put_cell (cursor_col h) (f (cell_at (cursor_row h) (cursor_col h) h))
              (rows_now (h_grid h) ! cursor_row h)]) h) (on_grid (cursor_cell f) h)"
proof (rule on_grid_repainted)
  have c: "vp_row (cur_point (gs_cursor (h_grid h))) < rows" "vp_col (cur_point (gs_cursor (h_grid h))) < cols"
    using assms by (simp_all add: cursor_row_def cursor_col_def the_cursor_def)
  show "ends (\<lambda>g'. resized_from rows cols (h_grid h) g' \<and> rows_now g' = (rows_now (h_grid h))
      [cursor_row h := put_cell (cursor_col h) (f (cell_at (cursor_row h) (cursor_col h) h))
          (rows_now (h_grid h) ! cursor_row h)]) (cursor_cell f (h_grid h))"
    using grid_cell_mut_at [of rows cols "h_grid h" "cursor_row h" "cursor_col h" f] assms
    unfolding cursor_cell_kept(2) [OF conjunct1 [OF assms] c]
    by (simp add: cursor_row_def cursor_col_def the_cursor_def)
qed

text \<open>Writing over a cell that is not half of a wide character changes that cell only.\<close>

lemma write_plain:
  assumes "on_screen rows cols h" and "not_wide (cell_at (cursor_row h) (cursor_col h) h)"
    and "charsets_index (cur_charsets (the_cursor h)) (h_active_charset h) = Some cs"
  shows "ends (repainted rows cols
           ((rows_now (h_grid h))[cursor_row h := put_cell (cursor_col h)
              (f (write_cell (charset_map cs c) (cur_template (the_cursor h)) (cell_at (cursor_row h) (cursor_col h) h)))
              (rows_now (h_grid h) ! cursor_row h)])
           (told (EvictImagesAt (handler_cursor_point h)) h)) (write_at_cursor c f h)"
proof -
  define h0 where "h0 = told (EvictImagesAt (handler_cursor_point h)) h"
  have h0: "h_grid h0 = h_grid h" "the_cursor h0 = the_cursor h" "h_active_charset h0 = h_active_charset h"
    "cursor_row h0 = cursor_row h" "cursor_col h0 = cursor_col h"
    by (simp_all add: h0_def told_def the_cursor_def cursor_row_def cursor_col_def)
  have s: "on_screen rows cols h0" unfolding h0 using assms(1) .
  have cell: "grid_cell (cursor_row h) (cursor_col h) (h_grid h) = Some (cell_at (cursor_row h) (cursor_col h) h)"
    using assms(1) by (intro grid_cell_read) auto
  have "overwrite_wide_char (Point (cursor_row h) (cursor_col h)) h0 = Some h0"
    unfolding overwrite_wide_char_def Let_def point.sel h0(1) cell bind.bind_lunit
    using assms(2) by (simp add: not_wide_def)
  then show ?thesis
    unfolding write_at_cursor_def Let_def h0_def [symmetric] h0(1) on_screen_point [OF assms(1)] bind.bind_lunit
    using cursor_cell_at [OF s] assms(3) by (simp add: h0)
qed

lemma move_cursor_forward_eq:
  "cur_point (the_cursor h) \<le> cur_point (f (the_cursor h)) \<Longrightarrow> move_cursor_forward f h = Some (with_cursor f h)"
  by (auto simp: move_cursor_forward_def Let_def handler_cursor_point_def handler_history_size_def
      with_cursor_def the_cursor_def cursor_row_def cursor_col_def less_eq_visible_point_def
      less_eq_point_def cmp_points_def)

definition step_right :: "nat \<Rightarrow> cursor \<Rightarrow> cursor" where
  "step_right cols c = (if vp_col (cur_point c) + 1 < cols then set_col Suc c else set_needs_wrap True c)"

lemma step_right_forward: "cur_point c \<le> cur_point (step_right cols c)"
  by (cases "cur_point c") (simp add: step_right_def set_col_def set_needs_wrap_def less_eq_visible_point_def cmp_points_def)

lemma advance_eq: "advance_cursor_by_one_cell h = Some (with_cursor (step_right (handler_columns h)) h)"
  unfolding advance_cursor_by_one_cell_def Let_def step_right_def [symmetric]
  by (rule move_cursor_forward_eq) (rule step_right_forward)

section \<open>Printing\<close>

text \<open>Only the grid and what the collaborators were told have changed.\<close>

definition same_setting :: "handler \<Rightarrow> handler \<Rightarrow> bool" where
  "same_setting h h' \<longleftrightarrow>
     h' = h\<lparr>h_grid := h_grid h', h_effects := h_effects h'\<rparr> \<and>
     cur_template (the_cursor h') = cur_template (the_cursor h) \<and>
     cur_charsets (the_cursor h') = cur_charsets (the_cursor h)"

lemma same_setting_refl: "same_setting h h"
  by (simp add: same_setting_def)

lemma same_setting_trans: "same_setting h h' \<Longrightarrow> same_setting h' h'' \<Longrightarrow> same_setting h h''"
  unfolding same_setting_def by (cases h; cases h'; cases h'') simp

lemma same_setting_fields:
  assumes "same_setting h h'"
  shows "h_active_charset h' = h_active_charset h" "has_mode m h' = has_mode m h" "h_flat h' = h_flat h"
    "h_is_alt_screen h' = h_is_alt_screen h" "h_scroll_region h' = h_scroll_region h" "h_tabs h' = h_tabs h"
    "cur_template (the_cursor h') = cur_template (the_cursor h)"
    "cur_charsets (the_cursor h') = cur_charsets (the_cursor h)" "h_mode h' = h_mode h"
  using assms unfolding same_setting_def has_mode_def by (cases h; cases h'; simp)+

lemma repainted_setting:
  assumes "repainted rows cols rs (told e h) h'"
  shows "same_setting h h'"
proof -
  obtain g where h': "h' = (told e h)\<lparr>h_grid := g\<rparr>" and g: "resized_from rows cols (h_grid (told e h)) g"
    using assms unfolding repainted_def by blast
  from resized_from_cursors(1) [OF g] show ?thesis
    unfolding same_setting_def h' by (simp add: told_def the_cursor_def)
qed

lemma with_cursor_setting:
  assumes "cur_template (f (the_cursor h)) = cur_template (the_cursor h)"
    and "cur_charsets (f (the_cursor h)) = cur_charsets (the_cursor h)"
  shows "same_setting h (with_cursor f h)"
  using assms by (simp add: same_setting_def with_cursor_def the_cursor_def)

lemma step_right_fields:
  "cur_template (step_right cols c) = cur_template c" "cur_charsets (step_right cols c) = cur_charsets c"
  "vp_row (cur_point (step_right cols c)) = vp_row (cur_point c)"
  by (simp_all add: step_right_def set_col_def set_needs_wrap_def)

lemma with_cursor_grid:
  "sized_grid rows cols (h_grid (with_cursor f h)) = sized_grid rows cols (h_grid h)"
  "rows_now (h_grid (with_cursor f h)) = rows_now (h_grid h)"
  "handler_columns (with_cursor f h) = handler_columns h"
  by (simp_all add: with_cursor_def handler_columns_def)

lemma step_right_position:
  assumes "sized_grid rows cols (h_grid h)" and "cursor_col h < cols" and "\<not> needs_wrap h"
  defines "h' \<equiv> with_cursor (step_right (handler_columns h)) h"
  shows "cursor_row h' = cursor_row h" "cursor_col h' = min (cursor_col h + 1) (cols - 1)"
    "needs_wrap h' \<longleftrightarrow> cursor_col h + 1 = cols" "same_setting h h'"
    "sized_grid rows cols (h_grid h')" "rows_now (h_grid h') = rows_now (h_grid h)"
proof -
  have cols: "handler_columns h = cols" using sized_grid_simps(2) [OF assms(1)] by (simp add: handler_columns_def)
  show "cursor_row h' = cursor_row h" by (simp add: h'_def cursor_row_def step_right_fields)
  show "same_setting h h'" unfolding h'_def by (rule with_cursor_setting) (simp_all add: step_right_fields)
  show "sized_grid rows cols (h_grid h')" "rows_now (h_grid h') = rows_now (h_grid h)"
    using assms(1) by (simp_all add: h'_def with_cursor_grid)
  show "cursor_col h' = min (cursor_col h + 1) (cols - 1)" "needs_wrap h' \<longleftrightarrow> cursor_col h + 1 = cols"
    using assms(2,3) unfolding h'_def cols
    by (auto simp: cursor_col_def needs_wrap_def step_right_def set_col_def set_needs_wrap_def)
qed

definition ready_to_print :: "nat \<Rightarrow> nat \<Rightarrow> nat \<Rightarrow> nat \<Rightarrow> handler \<Rightarrow> bool" where
  "ready_to_print rows cols i j h \<longleftrightarrow>
     sized_grid rows cols (h_grid h) \<and> i < rows \<and> j < cols \<and> cursor_row h = i \<and> cursor_col h = j \<and>
     \<not> needs_wrap h \<and> \<not> has_mode TM_INSERT h \<and>
     charsets_index (cur_charsets (the_cursor h)) (h_active_charset h) = Some SC_Ascii"

text \<open>The state after printing: the row has changed and the cursor has moved on.\<close>

definition printed :: "nat \<Rightarrow> nat \<Rightarrow> nat \<Rightarrow> nat \<Rightarrow> row \<Rightarrow> handler \<Rightarrow> handler \<Rightarrow> bool" where
  "printed rows cols i j r h h' \<longleftrightarrow>
     same_setting h h' \<and> sized_grid rows cols (h_grid h') \<and> rows_now (h_grid h') = (rows_now (h_grid h))[i := r] \<and>
     cursor_row h' = i \<and> cursor_col h' = min j (cols - 1) \<and> (needs_wrap h' \<longleftrightarrow> j = cols)"

lemma charset_map_ascii: "charset_map SC_Ascii c = c"
  by simp

lemma write_and_step:
  assumes "ready_to_print rows cols i j h" and "not_wide (cell_at i j h)"
  shows "ends (printed rows cols i (j + 1)
           (put_cell j (f (write_cell c (cur_template (the_cursor h)) (cell_at i j h))) (rows_now (h_grid h) ! i)) h)
           (do { h \<leftarrow> write_at_cursor c f h; advance_cursor_by_one_cell h })"
proof -
  note r = assms(1) [unfolded ready_to_print_def]
  have s: "on_screen rows cols h" using r by simp
  let ?rs = "(rows_now (h_grid h))[i := put_cell j (f (write_cell c (cur_template (the_cursor h)) (cell_at i j h)))
      (rows_now (h_grid h) ! i)]"
  have written: "ends (repainted rows cols ?rs (told (EvictImagesAt (handler_cursor_point h)) h)) (write_at_cursor c f h)"
    using write_plain [OF s, of SC_Ascii f c] assms(2) r charset_map_ascii by simp
  have stepped: "ends (printed rows cols i (j + 1) (put_cell j (f (write_cell c (cur_template (the_cursor h)) (cell_at i j h)))
      (rows_now (h_grid h) ! i)) h) (advance_cursor_by_one_cell h1)"
    if h1: "repainted rows cols ?rs (told (EvictImagesAt (handler_cursor_point h)) h) h1" for h1
  proof -
    note d = repaintedD [OF h1] and fl = repainted_fields [OF h1]
    have pos: "cursor_row h1 = i" "cursor_col h1 = j" "\<not> needs_wrap h1"
      using fl r by (simp_all add: told_def cursor_row_def cursor_col_def needs_wrap_def the_cursor_def)
    then have "cursor_col h1 < cols" using r by simp
    note st = step_right_position [OF d(2) this pos(3)]
    show ?thesis
      unfolding advance_eq ends_simps printed_def
      using st pos d(3) same_setting_trans [OF repainted_setting [OF h1] st(4)] by simp
  qed
  show ?thesis by (rule ends_bind [OF written stepped])
qed

lemma input_narrow:
  assumes "ready_to_print rows cols i j h" and "not_wide (cell_at i j h)" and "char_width L c = Some 1"
  shows "ends (printed rows cols i (j + 1)
           (put_cell j (write_cell c (cur_template (the_cursor h)) (cell_at i j h)) (rows_now (h_grid h) ! i)) h)
           (input L c h)"
  using write_and_step [OF assms(1,2), of id c] assms(1,3)
  by (simp add: input_def ready_to_print_def Let_def)

text \<open>What a text leaves in a row, character by character.\<close>

fun print_row :: "cell \<Rightarrow> nat \<Rightarrow> uchar list \<Rightarrow> row \<Rightarrow> row" where
  "print_row t j [] r = r"
| "print_row t j (c # cs) r = print_row t (j + 1) cs (put_cell j (write_cell c t (row_inner r ! j)) r)"

lemma print_row_inner:
  "j + length cs \<le> length (row_inner r) \<Longrightarrow>
     row_inner (print_row t j cs r) =
       take j (row_inner r) @ map2 (\<lambda>c cl. write_cell c t cl) cs (drop j (row_inner r)) @
       drop (j + length cs) (row_inner r)"
proof (induction cs arbitrary: j r)
  case (Cons c cs)
  let ?r = "put_cell j (write_cell c t (row_inner r ! j)) r"
  have lt: "j < length (row_inner r)" using Cons.prems by simp
  have inner: "row_inner ?r = (row_inner r)[j := write_cell c t (row_inner r ! j)]"
    by (simp add: put_cell_def)
  have le: "j + 1 + length cs \<le> length (row_inner ?r)" using Cons.prems by (simp add: inner)
  have "take (j + 1) (row_inner ?r) = take j (row_inner r) @ [write_cell c t (row_inner r ! j)]"
    using lt by (simp add: inner take_Suc_conv_app_nth)
  moreover have "drop (j + 1) (row_inner ?r) = drop (Suc j) (row_inner r)"
    by (simp add: inner)
  moreover have "drop (j + 1 + length cs) (row_inner ?r) = drop (Suc (j + length cs)) (row_inner r)"
    by (simp add: inner)
  ultimately show ?case
    using Cons.IH [OF le] lt by (simp add: Cons_nth_drop_Suc [symmetric])
qed simp

lemma not_wide_written:
  "not_wide t \<Longrightarrow> not_wide (write_cell c t cl)"
  by (simp add: not_wide_def write_cell_def)

lemma text_printed:
  assumes "ready_to_print rows cols i j h" and "list_all (\<lambda>c. char_width L c = Some 1) cs"
    and "j + length cs \<le> cols" and "\<forall>k. j \<le> k \<and> k < j + length cs \<longrightarrow> not_wide (cell_at i k h)"
  shows "ends (printed rows cols i (j + length cs)
           (print_row (cur_template (the_cursor h)) j cs (rows_now (h_grid h) ! i)) h)
           (handle_all L (map (\<lambda>c. Cursor (Input c)) cs) h)"
  using assms
proof (induction cs arbitrary: j h)
  case Nil
  then show ?case
    by (auto simp: handle_all_def printed_def same_setting_refl ready_to_print_def)
next
  case (Cons c cs)
  let ?t = "cur_template (the_cursor h)" and ?r = "rows_now (h_grid h) ! i"
  let ?r1 = "put_cell j (write_cell c ?t (cell_at i j h)) ?r"
  note ready = Cons.prems(1) [unfolded ready_to_print_def]
  have rows: "i < length (rows_now (h_grid h))" using sized_grid_simps(5) [of rows cols "h_grid h"] ready by simp
  have first: "ends (printed rows cols i (j + 1) ?r1 h) (input L c h)"
    using Cons.prems by (intro input_narrow) auto
  have rest: "ends (printed rows cols i (j + length (c # cs)) (print_row ?t j (c # cs) ?r) h)
      (fold_panics (handle L) (map (\<lambda>c. Cursor (Input c)) cs) h1)" if h1: "printed rows cols i (j + 1) ?r1 h h1" for h1
  proof -
    note p = h1 [unfolded printed_def]
    note f = same_setting_fields [OF conjunct1 [OF p]]
    have row: "rows_now (h_grid h1) ! i = ?r1" using p rows by simp
    show ?thesis
    proof (cases "cs = []")
      case True
      with h1 show ?thesis by simp
    next
      case False
      then have "j + 1 < cols" using Cons.prems(3) by (cases cs) auto
      then have ready1: "ready_to_print rows cols i (j + 1) h1"
        using p f ready by (simp add: ready_to_print_def)
      have cells: "\<forall>k. j + 1 \<le> k \<and> k < j + 1 + length cs \<longrightarrow> not_wide (cell_at i k h1)"
        using Cons.prems(4) unfolding row by (simp add: put_cell_def)
      have le: "j + 1 + length cs \<le> cols" using Cons.prems(3) by simp
      have all: "list_all (\<lambda>c. char_width L c = Some 1) cs" using Cons.prems(2) by simp
      from Cons.IH [OF ready1 all le cells]
      show ?thesis
        unfolding handle_all_def row f(7)
        by (rule ends_mono)
          (use p same_setting_trans [of h h1] in \<open>auto simp: printed_def rows\<close>)
    qed
  qed
  have "handle_all L (map (\<lambda>c. Cursor (Input c)) (c # cs)) h =
      input L c h \<bind> fold_panics (handle L) (map (\<lambda>c. Cursor (Input c)) cs)"
    by (simp add: handle_all_def split: option.split)
  then show ?case using ends_bind [OF first rest] by simp
qed

text \<open>
  C21. A text of narrow characters that fits into the row is printed: every cell from the cursor on
  shows its character in the current colors and attributes, no other cell changes, and the cursor
  stands after the text, waiting to wrap exactly when the text ends in the last column.
\<close>

theorem text_is_printed:
  assumes "ready_to_print rows cols i j h" and "list_all (\<lambda>c. char_width L c = Some 1) cs"
    and "j + length cs \<le> cols" and "\<forall>k. j \<le> k \<and> k < j + length cs \<longrightarrow> not_wide (cell_at i k h)"
  shows "\<exists>h'. handle_all L (map (\<lambda>c. Cursor (Input c)) cs) h = Some h' \<and>
           map row_inner (rows_now (h_grid h')) = (map row_inner (rows_now (h_grid h)))
             [i := take j (row_inner (rows_now (h_grid h) ! i)) @
                   map2 (\<lambda>c cl. write_cell c (cur_template (the_cursor h)) cl) cs
                     (drop j (row_inner (rows_now (h_grid h) ! i))) @
                   drop (j + length cs) (row_inner (rows_now (h_grid h) ! i))] \<and>
           cursor_row h' = i \<and> cursor_col h' = min (j + length cs) (cols - 1) \<and>
           (needs_wrap h' \<longleftrightarrow> j + length cs = cols)"
proof -
  have "length (row_inner (rows_now (h_grid h) ! i)) = cols"
    using sized_grid_row [of rows cols "h_grid h" i] assms(1) by (simp add: ready_to_print_def row_sized_def row_len_def)
  then have "j + length cs \<le> length (row_inner (rows_now (h_grid h) ! i))" using assms(3) by simp
  note inner = print_row_inner [OF this, of "cur_template (the_cursor h)"]
  obtain h' where "handle_all L (map (\<lambda>c. Cursor (Input c)) cs) h = Some h'"
      "printed rows cols i (j + length cs) (print_row (cur_template (the_cursor h)) j cs (rows_now (h_grid h) ! i)) h h'"
    using text_printed [OF assms] by (rule endsE)
  then show ?thesis by (auto simp: printed_def map_update inner)
qed

text \<open>A fresh grid is ready.\<close>

lemma new_handler:
  assumes "1 \<le> rows" and "1 \<le> cols"
  shows "ends (\<lambda>h. sized_grid rows cols (h_grid h) \<and> live_grid (h_grid h) \<and>
           rows_now (h_grid h) = replicate rows (blank_row cols (Named NC_Background)) \<and>
           the_cursor h = default_cursor \<and> h_mode h = default_term_mode \<and> h_active_charset h = G0 \<and>
           h_flat h = flat_new cols (Some limit) \<and> h_is_alt_screen h = alt \<and> h_scroll_region h = (0, rows) \<and>
           h_tabs h = tabs_new cols \<and> h_dirty_cells_range h = (Point 0 0, Point 0 0))
           (handler_new sequential resize_fix rows cols width height limit alt False)"
proof -
  obtain g where g: "grid_new sequential resize_fix rows cols 0 = Some g" "live_grid g" "gs_rows g = rows"
      "gs_columns g = cols" "gs_cursor g = default_cursor"
      "rows_now g = replicate rows (blank_row cols (Named NC_Background))"
    using new_grid [of rows cols sequential resize_fix] assms by auto
  then have "sized_grid rows cols g" using sized_grid_live by blast
  with g show ?thesis by (simp add: handler_new_def Let_def the_cursor_def)
qed

lemma new_ready:
  assumes "1 \<le> rows" and "1 \<le> cols"
  shows "ends (\<lambda>h. ready_to_print rows cols 0 0 h \<and> rows_now (h_grid h) = replicate rows (blank_row cols (Named NC_Background)))
           (handler_new sequential resize_fix rows cols width height limit alt False)"
  using assms
  by (intro ends_mono [OF new_handler])
    (auto simp: ready_to_print_def cursor_row_def cursor_col_def needs_wrap_def default_cursor_def
      charsets_index_def nth_checked_def has_mode_def default_term_mode_def mode_contains_def term_mode_defs)

theorem text_is_printed_witness:
  "\<exists>h h'. handler_new True False 2 4 8 16 100 False False = Some h \<and>
     handle_all sample_libraries [Cursor (Input 0x61), Cursor (Input 0x62)] h = Some h' \<and>
     map (map cell_c) (map row_inner (rows_now (h_grid h'))) = [[0x61, 0x62, 0, 0], [0, 0, 0, 0]] \<and>
     cursor_col h' = 2"
proof -
  obtain h where h: "handler_new True False 2 4 8 16 100 False False = Some h" "ready_to_print 2 4 0 0 h"
      "rows_now (h_grid h) = replicate 2 (blank_row 4 (Named NC_Background))"
    using new_ready [of 2 4 True False 8 16 100 False] by (auto elim!: endsE)
  have "map (\<lambda>c. Cursor (Input c)) [0x61, 0x62] = [Cursor (Input 0x61), Cursor (Input 0x62)]" by simp
  moreover have "list_all (\<lambda>c. char_width sample_libraries c = Some 1) [0x61, 0x62]"
    by (simp add: sample_libraries_def sample_width_def)
  moreover have "\<forall>k. 0 \<le> k \<and> k < 0 + length [0x61, 0x62 :: nat] \<longrightarrow> not_wide (cell_at 0 k h)"
    unfolding h(3) by (auto simp: blank_row_def not_wide_def cell_from_color_def default_cell_def flags_intersects_def)
  ultimately obtain h' where "handle_all sample_libraries [Cursor (Input 0x61), Cursor (Input 0x62)] h = Some h'"
      "map row_inner (rows_now (h_grid h')) = (map row_inner (rows_now (h_grid h)))
             [0 := take 0 (row_inner (rows_now (h_grid h) ! 0)) @
                   map2 (\<lambda>c cl. write_cell c (cur_template (the_cursor h)) cl) [0x61, 0x62]
                     (drop 0 (row_inner (rows_now (h_grid h) ! 0))) @
                   drop 2 (row_inner (rows_now (h_grid h) ! 0))]" "cursor_col h' = 2"
    using text_is_printed [of 2 4 0 0 h sample_libraries "[0x61, 0x62]", OF h(2)]
    by (auto simp: numeral_2_eq_2)
  with h(1) show ?thesis
    unfolding h(3) by (auto simp: blank_row_def cell_from_color_def default_cell_def write_cell_def numeral_2_eq_2
        numeral_eq_Suc DEFAULT_CHAR_def)
qed

section \<open>Tabs\<close>

text \<open>The next stop right of the column, or the last column.\<close>

definition next_stop :: "bool list \<Rightarrow> nat \<Rightarrow> nat" where
  "next_stop tabs col = (case find (\<lambda>j. tabs ! j) [Suc col..<length tabs] of Some j \<Rightarrow> j | None \<Rightarrow> length tabs - 1)"

lemma next_stop_bound: "col < length tabs \<Longrightarrow> next_stop tabs col < length tabs"
  by (auto simp: next_stop_def find_Some_iff split: option.split)

lemma next_stop_step:
  "Suc col < length tabs \<Longrightarrow> next_stop tabs col = (if tabs ! Suc col then Suc col else next_stop tabs (Suc col))"
  by (simp add: next_stop_def upt_conv_Cons)

lemma with_cursor_fields:
  "h_tabs (with_cursor f h) = h_tabs h" "handler_columns (with_cursor f h) = handler_columns h"
  "with_cursor g (with_cursor f h) = with_cursor (\<lambda>c. g (f c)) h"
  by (simp_all add: with_cursor_def handler_columns_def)

lemma to_next_tab_eq:
  assumes "length (h_tabs h) = handler_columns h" and "cursor_col h < handler_columns h"
  shows "to_next_tab h = Some (with_cursor (set_col (\<lambda>_. next_stop (h_tabs h) (cursor_col h))) h)"
  using assms
proof (induction h rule: to_next_tab.induct)
  case (1 h)
  show ?case
  proof (cases "cursor_col h + 1 = handler_columns h")
    case True
    then have "next_stop (h_tabs h) (cursor_col h) = cursor_col h"
      using "1.prems" by (simp add: next_stop_def)
    moreover have "with_cursor (set_col (\<lambda>_. cursor_col h)) h = h"
      by (simp add: with_cursor_def set_col_def cursor_col_def the_cursor_def)
    ultimately show ?thesis using True by (simp add: to_next_tab.simps [of h])
  next
    case False
    let ?h = "with_cursor (set_col Suc) h"
    have step: "move_cursor_forward (set_col Suc) h = Some ?h"
      by (rule move_cursor_forward_eq) (auto simp: set_col_def less_eq_visible_point_def cmp_points_def)
    have h: "cursor_col ?h = Suc (cursor_col h)" "h_tabs ?h = h_tabs h" "handler_columns ?h = handler_columns h"
      by (simp_all add: with_cursor_fields cursor_col_def set_col_def)
    have lt: "Suc (cursor_col h) < handler_columns h" using False "1.prems"(2) by simp
    have stop: "nth_checked (h_tabs ?h) (cursor_col ?h) = Some (h_tabs h ! Suc (cursor_col h))"
      using lt "1.prems"(1) by (simp add: h nth_checked_def)
    have set: "with_cursor (set_col (\<lambda>_. n)) ?h = with_cursor (set_col (\<lambda>_. n)) h" for n
      by (simp add: with_cursor_def set_col_def)
    show ?thesis
    proof (cases "h_tabs h ! Suc (cursor_col h)")
      case True
      moreover have "?h = with_cursor (set_col (\<lambda>_. Suc (cursor_col h))) h"
        by (simp add: with_cursor_def set_col_def cursor_col_def the_cursor_def)
      ultimately show ?thesis
        using False step stop next_stop_step [of "cursor_col h" "h_tabs h"] lt "1.prems"(1)
        by (simp add: to_next_tab.simps [of h])
    next
      case no: False
      have "to_next_tab ?h = Some (with_cursor (set_col (\<lambda>_. next_stop (h_tabs ?h) (cursor_col ?h))) ?h)"
        using "1.IH" [OF False step stop no] lt "1.prems"(1) by (simp add: h)
      then show ?thesis
        using False step stop no next_stop_step [of "cursor_col h" "h_tabs h"] lt "1.prems"(1)
        by (simp add: to_next_tab.simps [of h] h set)
    qed
  qed
qed

lemma put_tabs_reach:
  assumes "on_screen rows cols h" and "length (h_tabs h) = cols"
    and "charsets_index (cur_charsets (the_cursor h)) (h_active_charset h) = Some cs"
  shows "ends (\<lambda>h'. on_screen rows cols h' \<and> h_tabs h' = h_tabs h \<and> cursor_row h' = cursor_row h \<and>
           cursor_col h' = (next_stop (h_tabs h) ^^ n) (cursor_col h)) (put_tabs n h)"
  using assms
proof (induction n arbitrary: h)
  case (Suc n)
  define f where "f = (\<lambda>cl. if cell_c cl = DEFAULT_CHAR \<or> cell_c cl = ch CHR '' '' then cl\<lparr>cell_c := charset_map cs 9\<rparr> else cl)"
  have cols: "cursor_col h < handler_columns h"
    using Suc.prems(1) sized_grid_simps(2) [of rows cols "h_grid h"] by (simp add: handler_columns_def)
  have tail: "ends (\<lambda>h'. on_screen rows cols h' \<and> h_tabs h' = h_tabs h \<and> cursor_row h' = cursor_row h \<and>
           cursor_col h' = (next_stop (h_tabs h) ^^ Suc n) (cursor_col h)) (do { h \<leftarrow> to_next_tab h1; put_tabs n h })"
    if h1: "repainted rows cols rs h h1" for h1 rs
  proof -
    note d = repaintedD [OF h1] and fl = repainted_fields [OF h1]
    have tabs: "h_tabs h1 = h_tabs h" by (subst d(1)) simp
    have c1: "handler_columns h1 = cols" using sized_grid_simps(2) [OF d(2)] by (simp add: handler_columns_def)
    let ?h2 = "with_cursor (set_col (\<lambda>_. next_stop (h_tabs h) (cursor_col h))) h1"
    have "to_next_tab h1 = Some ?h2"
      using to_next_tab_eq [of h1] Suc.prems(1,2) c1 fl(2) by (simp add: tabs)
    moreover have h2: "on_screen rows cols ?h2" "h_tabs ?h2 = h_tabs h" "cursor_row ?h2 = cursor_row h"
        "cursor_col ?h2 = next_stop (h_tabs h) (cursor_col h)"
      using Suc.prems d(2) fl(1) tabs next_stop_bound [of "cursor_col h" "h_tabs h"]
      by (simp_all add: with_cursor_grid with_cursor_fields cursor_row_def cursor_col_def set_col_def)
    have cs2: "charsets_index (cur_charsets (the_cursor ?h2)) (h_active_charset ?h2) = Some cs"
      using Suc.prems(3) d(4) fl(5) by (simp add: set_col_def) (simp add: with_cursor_def)
    have "length (h_tabs ?h2) = cols" using h2(2) Suc.prems(2) by simp
    from Suc.IH [OF h2(1) this cs2] have "ends (\<lambda>h'. on_screen rows cols h' \<and> h_tabs h' = h_tabs h \<and>
        cursor_row h' = cursor_row h \<and> cursor_col h' = (next_stop (h_tabs h) ^^ Suc n) (cursor_col h)) (put_tabs n ?h2)"
      unfolding h2(2-4) by (rule ends_mono) (simp add: funpow_swap1)
    ultimately show ?thesis by simp
  qed
  show ?case
    unfolding put_tabs.simps if_P [OF cols] Suc.prems(3) bind.bind_lunit Let_def f_def [symmetric]
    by (rule ends_bind [OF cursor_cell_at [OF Suc.prems(1)] tail])
qed simp


lemma new_on_screen:
  assumes "1 \<le> rows" and "1 \<le> cols"
  shows "ends (\<lambda>h. on_screen rows cols h \<and> length (h_tabs h) = cols \<and> h_tabs h = tabs_new cols \<and> \<not> needs_wrap h \<and>
           charsets_index (cur_charsets (the_cursor h)) (h_active_charset h) = Some SC_Ascii \<and> cursor_col h = 0)
           (handler_new sequential resize_fix rows cols width height limit alt False)"
  using assms
  by (intro ends_mono [OF new_handler])
    (auto simp: cursor_row_def cursor_col_def needs_wrap_def default_cursor_def charsets_index_def nth_checked_def)


section \<open>The wide characters\<close>

lemma write_wide_at:
  assumes "ready_to_print rows cols i j h" and "j + 1 < cols" and "not_wide (cell_at i j h)"
    and "not_wide (cell_at i (j + 1) h)"
  shows "ends (printed rows cols i (j + 2)
           (put_cell (j + 1) (insert_flags F_WIDE_CHAR_SPACER
                (write_cell DEFAULT_CHAR (cur_template (the_cursor h)) (cell_at i (j + 1) h)))
             (put_cell j (insert_flags F_WIDE_CHAR (write_cell c (cur_template (the_cursor h)) (cell_at i j h)))
               (rows_now (h_grid h) ! i))) h)
           (write_wide_char c h)"
proof -
  note r = assms(1) [unfolded ready_to_print_def]
  have s: "on_screen rows cols h" using r by simp
  have len: "i < length (rows_now (h_grid h))" using sized_grid_simps(5) [of rows cols "h_grid h"] r by simp
  let ?r1 = "put_cell j (insert_flags F_WIDE_CHAR (write_cell c (cur_template (the_cursor h)) (cell_at i j h)))
      (rows_now (h_grid h) ! i)"
  let ?rs = "(rows_now (h_grid h))[i := ?r1]"
  have written: "ends (repainted rows cols ?rs (told (EvictImagesAt (handler_cursor_point h)) h))
      (write_at_cursor c (insert_flags F_WIDE_CHAR) h)"
    using write_plain [OF s, of SC_Ascii "insert_flags F_WIDE_CHAR" c] assms(3) r charset_map_ascii by simp
  have rest: "ends (printed rows cols i (j + 2) (put_cell (j + 1) (insert_flags F_WIDE_CHAR_SPACER
        (write_cell DEFAULT_CHAR (cur_template (the_cursor h)) (cell_at i (j + 1) h))) ?r1) h)
      (do { h \<leftarrow> move_cursor_forward (set_col Suc) h1;
            h \<leftarrow> write_at_cursor DEFAULT_CHAR (insert_flags F_WIDE_CHAR_SPACER) h; advance_cursor_by_one_cell h })"
    if h1: "repainted rows cols ?rs (told (EvictImagesAt (handler_cursor_point h)) h) h1" for h1
  proof -
    note d = repaintedD [OF h1] and fl = repainted_fields [OF h1]
    have set1: "same_setting h h1" by (rule repainted_setting [OF h1])
    let ?h2 = "with_cursor (set_col Suc) h1"
    have step: "move_cursor_forward (set_col Suc) h1 = Some ?h2"
      by (rule move_cursor_forward_eq) (auto simp: set_col_def less_eq_visible_point_def cmp_points_def)
    have set2: "same_setting h ?h2"
      by (rule same_setting_trans [OF set1 with_cursor_setting]) (simp_all add: set_col_def)
    have pos: "cursor_row h1 = i" "cursor_col h1 = j" "\<not> needs_wrap h1" "\<not> has_mode TM_INSERT h1"
      using fl r by (simp_all add: told_def cursor_row_def cursor_col_def needs_wrap_def the_cursor_def has_mode_def)
    have rows: "rows_now (h_grid ?h2) = ?rs" using d(3) by (simp add: with_cursor_grid)
    have "has_mode TM_INSERT ?h2 = has_mode TM_INSERT h" by (rule same_setting_fields(2) [OF set2])
    then have ready: "ready_to_print rows cols i (j + 1) ?h2"
      using pos r d(2) assms(2) same_setting_fields(1,8) [OF set2]
      by (simp add: ready_to_print_def with_cursor_grid)
        (simp add: cursor_row_def cursor_col_def needs_wrap_def)
    have inner: "row_inner ?r1 ! (j + 1) = cell_at i (j + 1) h" by (simp add: put_cell_def)
    have cell: "cell_at i (j + 1) ?h2 = cell_at i (j + 1) h" unfolding rows using len inner by simp
    have row: "rows_now (h_grid ?h2) ! i = ?r1" unfolding rows using len by simp
    have nw: "not_wide (cell_at i (j + 1) ?h2)" unfolding cell by (rule assms(4))
    have eq: "j + 1 + 1 = j + 2" by simp
    have "ends (printed rows cols i (j + 2) (put_cell (j + 1) (insert_flags F_WIDE_CHAR_SPACER
        (write_cell DEFAULT_CHAR (cur_template (the_cursor h)) (cell_at i (j + 1) h))) ?r1) ?h2)
        (do { h \<leftarrow> write_at_cursor DEFAULT_CHAR (insert_flags F_WIDE_CHAR_SPACER) ?h2; advance_cursor_by_one_cell h })"
      using write_and_step [OF ready nw, of "insert_flags F_WIDE_CHAR_SPACER" DEFAULT_CHAR]
      unfolding row inner same_setting_fields(7) [OF set2] eq .
    then show ?thesis
      unfolding step bind.bind_lunit
      by (rule ends_mono) (use rows same_setting_trans [OF set2] in \<open>auto simp: printed_def\<close>)
  qed
  show ?thesis
    unfolding write_wide_char_def by (rule ends_bind [OF written rest])
qed

lemma input_wide:
  assumes "ready_to_print rows cols i j h" and "j + 1 < cols" and "not_wide (cell_at i j h)"
    and "not_wide (cell_at i (j + 1) h)" and "char_width L c = Some 2"
  shows "ends (printed rows cols i (j + 2)
           (put_cell (j + 1) (insert_flags F_WIDE_CHAR_SPACER
                (write_cell DEFAULT_CHAR (cur_template (the_cursor h)) (cell_at i (j + 1) h)))
             (put_cell j (insert_flags F_WIDE_CHAR (write_cell c (cur_template (the_cursor h)) (cell_at i j h)))
               (rows_now (h_grid h) ! i))) h)
           (input L c h)"
proof -
  have cols: "handler_columns h = cols"
    using assms(1) sized_grid_simps(2) [of rows cols "h_grid h"] by (simp add: ready_to_print_def handler_columns_def)
  show ?thesis
    using write_wide_at [OF assms(1-4), of c] assms(1,2,5)
    by (simp add: input_def ready_to_print_def Let_def cols)
qed

end
