(* ===== verification/Term_Facts.thy ===== *)
theory Term_Facts
  imports Term_Exact
begin

unbundle bit_operations_syntax

text \<open>
  The keyboard protocol: every call of the handler keeps its flags in step with the modes of the
  terminal.
\<close>

section \<open>What keeps the modes\<close>

text \<open>
  The modes a computation ends with, when it ends: a small logic of partial correctness, with one
  rule for each way to build an operation from others.
\<close>

definition modes :: "handler \<Rightarrow> term_mode \<times> keyboard_modes \<times> keyboard_modes list" where
  "modes h = (h_mode h, h_keyboard_mode h, h_keyboard_mode_stack h)"

definition keeps :: "term_mode \<times> keyboard_modes \<times> keyboard_modes list \<Rightarrow> handler panics \<Rightarrow> bool" where
  "keeps v m \<longleftrightarrow> (\<forall>h. m = Some h \<longrightarrow> modes h = v)"

definition keeps_snd :: "term_mode \<times> keyboard_modes \<times> keyboard_modes list \<Rightarrow> ('a \<times> handler) panics \<Rightarrow> bool" where
  "keeps_snd v m \<longleftrightarrow> (\<forall>r. m = Some r \<longrightarrow> modes (snd r) = v)"

lemma modes_frame [simp]:
  "modes (h\<lparr>h_grid := g\<rparr>) = modes h" "modes (h\<lparr>h_flat := fs\<rparr>) = modes h" "modes (h\<lparr>h_tabs := ts\<rparr>) = modes h"
  "modes (h\<lparr>h_dirty_cells_range := r\<rparr>) = modes h" "modes (h\<lparr>h_find_dirty_rows_range := fr\<rparr>) = modes h"
  "modes (h\<lparr>h_bottommost_visible_content_row := b\<rparr>) = modes h" "modes (h\<lparr>h_scroll_region := sr\<rparr>) = modes h"
  "modes (h\<lparr>h_cursor_style := st\<rparr>) = modes h" "modes (h\<lparr>h_active_charset := i\<rparr>) = modes h"
  "modes (h\<lparr>h_effects := es\<rparr>) = modes h" "modes (h\<lparr>h_reset_grid_checks := rc\<rparr>) = modes h"
  "modes (told e h) = modes h" "modes (send_terminal_event ev h) = modes h" "modes (with_cursor f h) = modes h"
  "modes (update_find_dirty_rows_range k h) = modes h" "modes (reset_dirty_cells_range_to_cursor_point h) = modes h"
  by (simp_all add: modes_def told_def send_terminal_event_def with_cursor_def
      update_find_dirty_rows_range_def reset_dirty_cells_range_to_cursor_point_def)

named_theorems keeps_rules

lemma keeps_Some [keeps_rules]: "modes h = v \<Longrightarrow> keeps v (Some h)"
  by (simp add: keeps_def)

lemma keeps_snd_Some [keeps_rules]: "modes h = v \<Longrightarrow> keeps_snd v (Some (d, h))"
  by (simp add: keeps_snd_def)

lemma keeps_None [keeps_rules]: "keeps v None"
  by (simp add: keeps_def)

lemma keeps_bind:
  "keeps v m \<Longrightarrow> (\<And>h. modes h = v \<Longrightarrow> keeps v (f h)) \<Longrightarrow> keeps v (Option.bind m f)"
  "keeps v m \<Longrightarrow> (\<And>h. modes h = v \<Longrightarrow> keeps_snd v (k h)) \<Longrightarrow> keeps_snd v (Option.bind m k)"
  "keeps_snd v m2 \<Longrightarrow> (\<And>r. modes (snd r) = v \<Longrightarrow> keeps v (f2 r)) \<Longrightarrow> keeps v (Option.bind m2 f2)"
  by (cases m; cases m2; auto simp: keeps_def keeps_snd_def)+

lemma keeps_value:
  "(\<And>x. keeps v (f x)) \<Longrightarrow> keeps v (Option.bind m f)"
  "(\<And>x. keeps_snd v (k x)) \<Longrightarrow> keeps_snd v (Option.bind m k)"
  by (cases m; simp add: keeps_def keeps_snd_def)+

lemma keeps_if [keeps_rules]:
  "(b \<Longrightarrow> keeps v m) \<Longrightarrow> (\<not> b \<Longrightarrow> keeps v n) \<Longrightarrow> keeps v (if b then m else n)"
  "(b \<Longrightarrow> keeps_snd v m') \<Longrightarrow> (\<not> b \<Longrightarrow> keeps_snd v n') \<Longrightarrow> keeps_snd v (if b then m' else n')"
  by simp_all

lemma keeps_option [keeps_rules]:
  "keeps v n \<Longrightarrow> (\<And>x. keeps v (f x)) \<Longrightarrow> keeps v (case m of None \<Rightarrow> n | Some x \<Rightarrow> f x)"
  by (simp split: option.split)

lemma keeps_map_snd [keeps_rules]: "keeps_snd v m \<Longrightarrow> keeps v (map_option snd m)"
  by (auto simp: keeps_def keeps_snd_def)

lemma keeps_fold:
  assumes "\<And>x h. modes h = v \<Longrightarrow> keeps v (f x h)" and "modes h = v"
  shows "keeps v (fold_panics f xs h)"
  using assms(2)
proof (induction xs arbitrary: h)
  case (Cons x xs)
  then show ?case using assms(1) [of h x] by (auto simp: keeps_def split: option.split)
qed (simp add: keeps_def)

lemma keeps_on [keeps_rules]:
  "modes h = v \<Longrightarrow> keeps v (on_grid f h)" "modes h = v \<Longrightarrow> keeps v (on_flat k h)"
  by (auto simp: keeps_def on_grid_def on_flat_def split: bind_splits)

lemma keeps_dirty [keeps_rules]: "modes h = v \<Longrightarrow> keeps v (update_dirty_cells_range h)"
  unfolding update_dirty_cells_range_def Let_def by (intro keeps_value keeps_rules) simp

lemma keeps_update_cursor [keeps_rules]: "modes h = v \<Longrightarrow> keeps v (update_cursor f h)"
  unfolding update_cursor_def Let_def by (intro keeps_bind keeps_dirty) simp_all

lemma keeps_forward [keeps_rules]: "modes h = v \<Longrightarrow> keeps v (move_cursor_forward f h)"
  unfolding move_cursor_forward_def Let_def by (intro keeps_value keeps_rules) simp

text \<open>One step of a proof: the rules for handlers before the rule for other values.\<close>

lemmas keeps_intros = keeps_rules keeps_bind keeps_fold keeps_value

lemma keeps_write [keeps_rules]: "modes h = v \<Longrightarrow> keeps v (write_at_cursor c f h)"
  unfolding write_at_cursor_def overwrite_wide_char_def Let_def
  by (rule keeps_value, rule keeps_bind(1), rule keeps_value, (intro keeps_if keeps_bind keeps_value keeps_on keeps_Some; simp)+)

lemma keeps_advance [keeps_rules]: "modes h = v \<Longrightarrow> keeps v (advance_cursor_by_one_cell h)"
  unfolding advance_cursor_by_one_cell_def Let_def by (intro keeps_rules keeps_bind keeps_value; simp)

lemma keeps_start_boundary [keeps_rules]: "modes h = v \<Longrightarrow> keeps v (reset_wide_char_at_start_boundary row col bg h)"
  unfolding reset_wide_char_at_start_boundary_def by (intro keeps_rules keeps_bind keeps_value; simp)

lemma keeps_end_boundary [keeps_rules]: "modes h = v \<Longrightarrow> keeps v (reset_wide_char_at_end_boundary row col bg h)"
  unfolding reset_wide_char_at_end_boundary_def by (intro keeps_rules keeps_bind keeps_value; simp)

lemma keeps_scroll_region [keeps_rules]: "modes h = v \<Longrightarrow> keeps v (scroll_region_up region lines h)"
  unfolding scroll_region_up_def by (intro keeps_rules keeps_bind keeps_fold keeps_value; simp)

lemma keeps_scroll_down_relative [keeps_rules]: "modes h = v \<Longrightarrow> keeps_snd v (scroll_down_relative row lines h)"
  unfolding scroll_down_relative_def Let_def by (intro keeps_rules keeps_bind keeps_value; simp)

lemma keeps_scroll_up_relative [keeps_rules]: "modes h = v \<Longrightarrow> keeps_snd v (scroll_up_relative row lines h)"
  unfolding scroll_up_relative_def Let_def by (intro keeps_rules keeps_bind keeps_value; simp)

lemma keeps_scroll_up [keeps_rules]: "modes h = v \<Longrightarrow> keeps_snd v (handler_scroll_up lines h)"
  unfolding handler_scroll_up_def by (intro keeps_rules keeps_bind keeps_value; simp)

lemma keeps_scroll_down [keeps_rules]: "modes h = v \<Longrightarrow> keeps_snd v (handler_scroll_down lines h)"
  unfolding handler_scroll_down_def by (intro keeps_rules keeps_bind keeps_value; simp)

lemma keeps_insert_lines [keeps_rules]: "modes h = v \<Longrightarrow> keeps_snd v (insert_blank_lines lines h)"
  unfolding insert_blank_lines_def Let_def by (intro keeps_rules keeps_bind keeps_value; simp)

lemma keeps_delete_lines [keeps_rules]: "modes h = v \<Longrightarrow> keeps_snd v (delete_lines lines h)"
  unfolding delete_lines_def Let_def by (intro keeps_rules keeps_bind keeps_value; simp)

lemma keeps_carriage_return [keeps_rules]: "modes h = v \<Longrightarrow> keeps v (carriage_return h)"
  unfolding carriage_return_def by (intro keeps_rules keeps_bind keeps_value; simp)

lemma keeps_linefeed [keeps_rules]: "modes h = v \<Longrightarrow> keeps_snd v (linefeed h)"
  unfolding linefeed_def Let_def by (intro keeps_rules keeps_bind keeps_value; simp)

lemma keeps_newline [keeps_rules]: "modes h = v \<Longrightarrow> keeps v (newline h)"
  unfolding newline_def by (intro keeps_rules keeps_bind keeps_value; simp)

lemma keeps_reverse_index [keeps_rules]: "modes h = v \<Longrightarrow> keeps_snd v (reverse_index h)"
  unfolding reverse_index_def by (intro keeps_rules keeps_bind keeps_value; simp)

lemma keeps_wrapline [keeps_rules]: "modes h = v \<Longrightarrow> keeps v (wrapline h)"
  unfolding wrapline_def by (intro keeps_rules keeps_bind keeps_value; simp)

lemma keeps_zero_width [keeps_rules]: "modes h = v \<Longrightarrow> keeps v (input_zero_width L c h)"
  unfolding input_zero_width_def Let_def
  by (intro keeps_rules keeps_bind keeps_value; simp)

lemma keeps_insert_room [keeps_rules]: "modes h = v \<Longrightarrow> keeps v (insert_room width h)"
  unfolding insert_room_def Let_def by (intro keeps_rules keeps_bind keeps_value; simp)

lemma keeps_wide [keeps_rules]: "modes h = v \<Longrightarrow> keeps v (write_wide_char c h)"
  unfolding write_wide_char_def by (intro keeps_rules keeps_bind keeps_value; simp)

lemma keeps_input [keeps_rules]: "modes h = v \<Longrightarrow> keeps v (input L c h)"
  unfolding input_def Let_def
  by (cases "char_width L c"; simp only: option.case; intro keeps_rules keeps_bind; simp)

lemma keeps_goto [keeps_rules]: "modes h = v \<Longrightarrow> keeps v (goto row col h)"
  unfolding goto_def Let_def by (intro keeps_rules keeps_bind keeps_value; simp)

lemma keeps_goto_line [keeps_rules]: "modes h = v \<Longrightarrow> keeps v (goto_line k h)"
  unfolding goto_line_def by (intro keeps_rules keeps_bind keeps_value; simp)

lemma keeps_goto_col [keeps_rules]: "modes h = v \<Longrightarrow> keeps v (goto_col k h)"
  unfolding goto_col_def by (intro keeps_rules keeps_bind keeps_value; simp)

lemma keeps_move_up [keeps_rules]: "modes h = v \<Longrightarrow> keeps v (move_up k h)"
  unfolding move_up_def by (intro keeps_rules keeps_bind keeps_value; simp)

lemma keeps_move_down [keeps_rules]: "modes h = v \<Longrightarrow> keeps v (move_down k h)"
  unfolding move_down_def by (intro keeps_rules keeps_bind keeps_value; simp)

lemma keeps_move_down_and_cr [keeps_rules]: "modes h = v \<Longrightarrow> keeps v (move_down_and_cr k h)"
  unfolding move_down_and_cr_def by (intro keeps_rules keeps_bind keeps_value; simp)

lemma keeps_move_up_and_cr [keeps_rules]: "modes h = v \<Longrightarrow> keeps v (move_up_and_cr k h)"
  unfolding move_up_and_cr_def by (intro keeps_rules keeps_bind keeps_value; simp)

lemma keeps_handler_move_forward [keeps_rules]: "modes h = v \<Longrightarrow> keeps v (handler_move_forward k h)"
  unfolding handler_move_forward_def Let_def by (intro keeps_rules keeps_bind keeps_value; simp)

lemma keeps_handler_move_backward [keeps_rules]: "modes h = v \<Longrightarrow> keeps v (handler_move_backward k h)"
  unfolding handler_move_backward_def by (intro keeps_rules keeps_bind keeps_value; simp)

lemma keeps_backspace [keeps_rules]: "modes h = v \<Longrightarrow> keeps v (backspace h)"
  unfolding backspace_def by (intro keeps_rules keeps_bind keeps_value; simp)

lemma keeps_restore [keeps_rules]: "modes h = v \<Longrightarrow> keeps v (restore_cursor_position h)"
  unfolding restore_cursor_position_def Let_def by (intro keeps_rules keeps_bind keeps_value; simp)

lemma keeps_next_tab [keeps_rules]: "modes h = v \<Longrightarrow> keeps v (to_next_tab h)"
proof (induction h rule: to_next_tab.induct)
  case (1 h)
  have step: "keeps v (move_cursor_forward (set_col Suc) h)" by (rule keeps_forward [OF "1.prems"])
  show ?case
    unfolding to_next_tab.simps [of h]
    using "1.prems" "1.IH" step
    by (auto simp: keeps_def split: bind_splits if_splits)
qed

lemma keeps_tabs [keeps_rules]: "modes h = v \<Longrightarrow> keeps v (put_tabs count h)"
proof (induction count arbitrary: h)
  case (Suc count)
  then show ?case
    unfolding put_tabs.simps Let_def by (intro keeps_rules keeps_bind keeps_value; simp)
qed (simp add: keeps_rules)

lemma keeps_put_tab [keeps_rules]: "modes h = v \<Longrightarrow> keeps v (put_tab count h)"
  unfolding put_tab_def by (intro keeps_rules keeps_bind keeps_value; simp)

lemma keeps_set_stop [keeps_rules]: "modes h = v \<Longrightarrow> keeps v (set_horizontal_tabstop h)"
  unfolding set_horizontal_tabstop_def by (intro keeps_rules keeps_bind keeps_value; simp)

lemma keeps_clear_stops [keeps_rules]: "modes h = v \<Longrightarrow> keeps v (clear_tabs m h)"
  unfolding clear_tabs_def by (cases m; simp; intro keeps_rules keeps_value; simp)

lemma keeps_back_tab [keeps_rules]: "modes h = v \<Longrightarrow> keeps v (move_backward_tabs count h)"
  unfolding move_backward_tabs_def move_backward_tab_def Let_def
  by (intro keeps_fold keeps_value keeps_rules; simp)

lemma keeps_insert_blank [keeps_rules]: "modes h = v \<Longrightarrow> keeps v (insert_blank count h)"
  unfolding insert_blank_def Let_def by (intro keeps_rules keeps_bind keeps_value; simp)

lemma keeps_erase_chars [keeps_rules]: "modes h = v \<Longrightarrow> keeps v (erase_chars count h)"
  unfolding erase_chars_def Let_def by (intro keeps_rules keeps_bind keeps_value; simp)

lemma keeps_delete_chars [keeps_rules]: "modes h = v \<Longrightarrow> keeps v (delete_chars count h)"
  unfolding delete_chars_def Let_def by (intro keeps_rules keeps_bind keeps_value; simp)

lemma keeps_track [keeps_rules]: "modes h = v \<Longrightarrow> keeps v (track_content L h)"
  unfolding track_content_def by (intro keeps_rules keeps_value; simp)

lemma keeps_finish [keeps_rules]: "modes h = v \<Longrightarrow> keeps v (on_finish_byte_processing L h)"
  unfolding on_finish_byte_processing_def Let_def by (intro keeps_rules keeps_bind keeps_value; simp)

lemma keeps_clear_line [keeps_rules]: "modes h = v \<Longrightarrow> keeps v (clear_line m h)"
  unfolding clear_line_def Let_def by (cases m; simp; intro keeps_rules keeps_bind keeps_value; simp)

lemma keeps_clear_in_place [keeps_rules]: "modes h = v \<Longrightarrow> keeps v (clear_visible_rows_in_place L bg h)"
  unfolding clear_visible_rows_in_place_def Let_def by (intro keeps_rules keeps_bind keeps_value; simp)

lemma keeps_viewport [keeps_rules]: "modes h = v \<Longrightarrow> keeps v (clear_viewport h)"
  unfolding clear_viewport_def Let_def by (intro keeps_rules keeps_bind keeps_fold keeps_value; simp)

lemma keeps_clear_screen [keeps_rules]: "modes h = v \<Longrightarrow> keeps v (clear_screen L m h)"
  unfolding clear_screen_def Let_def
  by (cases m; simp only: clear_mode.case; intro keeps_rules keeps_bind keeps_value; simp)

lemma keeps_region [keeps_rules]: "modes h = v \<Longrightarrow> keeps v (handler_set_scrolling_region t b h)"
  unfolding handler_set_scrolling_region_def Let_def by (intro keeps_rules keeps_bind keeps_value; simp)

lemma keeps_decaln [keeps_rules]: "modes h = v \<Longrightarrow> keeps v (decaln h)"
  unfolding decaln_def by (rule keeps_on(1))

lemma keeps_reset [keeps_rules]: "modes h = v \<Longrightarrow> keeps v (reset_state h)"
  unfolding reset_state_def Let_def by (intro keeps_rules keeps_bind; simp add: modes_def send_terminal_event_def told_def)

lemma keeps_past_image [keeps_rules]: "modes h = v \<Longrightarrow> keeps v (move_past_image up right h)"
  unfolding move_past_image_def by (intro keeps_value keeps_bind(1) keeps_fold keeps_newline keeps_forward; simp)

lemma keeps_image [keeps_rules]: "modes h = v \<Longrightarrow> keeps v (handle_image i h)"
proof (cases i)
  case (ShowItermImage x1 x2 x3 x4 x5 x6 x7)
  assume "modes h = v"
  then show ?thesis
    unfolding ShowItermImage handle_image.simps handle_completed_iterm_image_def Let_def
    by (intro keeps_if keeps_value keeps_past_image keeps_Some; simp)
next
  case (ShowKittyImage x1 x2 x3 x4 x5 x6)
  assume "modes h = v"
  then show ?thesis
    unfolding ShowKittyImage handle_image.simps display_kitty_image_def Let_def
    by (intro keeps_if keeps_value keeps_past_image keeps_Some; simp)
qed (simp_all add: keeps_Some)

section \<open>The keyboard flags and their copy in the modes\<close>

definition flags_mirrored :: "handler \<Rightarrow> bool" where
  "flags_mirrored h \<longleftrightarrow> h_mode h AND TM_KEYBOARD_PROTOCOL = term_mode_from_keyboard (h_keyboard_mode h)"

lemma mirrored_modes: "modes h' = modes h \<Longrightarrow> flags_mirrored h' = flags_mirrored h"
  by (simp add: flags_mirrored_def modes_def)

lemma keeps_mirrored: "keeps (modes h) m \<Longrightarrow> flags_mirrored h \<Longrightarrow> m = Some h' \<Longrightarrow> flags_mirrored h'"
  unfolding keeps_def using mirrored_modes [of h' h] by blast

lemma mirrored_insert:
  assumes "f AND TM_KEYBOARD_PROTOCOL = 0"
  shows "flags_mirrored (insert_mode f h) = flags_mirrored h" "flags_mirrored (remove_mode f h) = flags_mirrored h"
proof -
  have disjoint: "\<not> (bit f n \<and> bit TM_KEYBOARD_PROTOCOL n)" for n
    using assms by (metis bit_0_eq bit_and_iff bot_apply bot_bool_def)
  have "(m OR f) AND TM_KEYBOARD_PROTOCOL = m AND TM_KEYBOARD_PROTOCOL" for m :: term_mode
    by (rule bit_word_eqI) (use disjoint in \<open>auto simp: bit_or_iff bit_and_iff\<close>)
  then show "flags_mirrored (insert_mode f h) = flags_mirrored h"
    by (simp add: flags_mirrored_def insert_mode_def mode_insert_def)
  have "(m AND NOT f) AND TM_KEYBOARD_PROTOCOL = m AND TM_KEYBOARD_PROTOCOL" for m :: term_mode
    by (rule bit_word_eqI) (use disjoint in \<open>auto simp: bit_not_iff bit_and_iff\<close>)
  then show "flags_mirrored (remove_mode f h) = flags_mirrored h"
    by (simp add: flags_mirrored_def remove_mode_def mode_remove_def)
qed

lemma mirrored_flags:
  "TM_URGENCY_HINTS AND TM_KEYBOARD_PROTOCOL = 0" "TM_SHOW_CURSOR AND TM_KEYBOARD_PROTOCOL = 0"
  "TM_APP_CURSOR AND TM_KEYBOARD_PROTOCOL = 0" "TM_MOUSE_REPORT_CLICK AND TM_KEYBOARD_PROTOCOL = 0"
  "TM_MOUSE_MODE AND TM_KEYBOARD_PROTOCOL = 0" "TM_MOUSE_DRAG AND TM_KEYBOARD_PROTOCOL = 0"
  "TM_MOUSE_MOTION AND TM_KEYBOARD_PROTOCOL = 0" "TM_FOCUS_IN_OUT AND TM_KEYBOARD_PROTOCOL = 0"
  "TM_BRACKETED_PASTE AND TM_KEYBOARD_PROTOCOL = 0" "TM_SGR_MOUSE AND TM_KEYBOARD_PROTOCOL = 0"
  "TM_UTF8_MOUSE AND TM_KEYBOARD_PROTOCOL = 0" "TM_ALTERNATE_SCROLL AND TM_KEYBOARD_PROTOCOL = 0"
  "TM_LINE_WRAP AND TM_KEYBOARD_PROTOCOL = 0" "TM_LINE_FEED_NEW_LINE AND TM_KEYBOARD_PROTOCOL = 0"
  "TM_ORIGIN AND TM_KEYBOARD_PROTOCOL = 0" "TM_INSERT AND TM_KEYBOARD_PROTOCOL = 0"
  "TM_APP_KEYPAD AND TM_KEYBOARD_PROTOCOL = 0"
  by (simp_all add: term_mode_defs)

lemma mirrored_told: "flags_mirrored (send_terminal_event e h) = flags_mirrored h"
  by (rule mirrored_modes) simp

lemma keeps_deccolm: "keeps (modes h) (deccolm h)"
  unfolding deccolm_def by (intro keeps_rules keeps_bind; simp)

lemma mirrored_frame:
  "flags_mirrored (h\<lparr>h_cursor_style := st\<rparr>) = flags_mirrored h"
  "flags_mirrored (h\<lparr>h_active_charset := i\<rparr>) = flags_mirrored h"
  "flags_mirrored (with_cursor f h) = flags_mirrored h"
  "flags_mirrored (h\<lparr>h_reset_grid_checks := rc\<rparr>) = flags_mirrored h"
  "flags_mirrored (send_terminal_event e h) = flags_mirrored h"
  by (rule mirrored_modes, simp)+

lemma set_mode_mirrored:
  assumes "flags_mirrored h" and "set_mode m h = Some h' \<or> unset_mode m h = Some h'"
  shows "flags_mirrored h'"
proof (cases "m = M_DECCOLM")
  case True
  with assms keeps_mirrored [OF keeps_deccolm assms(1)] show ?thesis by auto
next
  case False
  with assms show ?thesis
    by (cases m) (auto simp: mirrored_insert mirrored_flags mirrored_frame set_blinking_def)
qed

lemma set_keyboard_mode_mirrored: "flags_mirrored (set_keyboard_mode k a h)"
  by (simp add: flags_mirrored_def set_keyboard_mode_def Let_def contains_protocol_replace)

lemma control_mirrored:
  assumes "flags_mirrored h" and "handle_control L c h = Some h'"
  shows "flags_mirrored h'"
proof (cases c)
  case (SetScrollingRegion t b)
  with assms keeps_mirrored [OF keeps_region [OF refl]] show ?thesis by (metis handle_control.simps(4))
next
  case OnFinishByteProcessing
  with assms keeps_mirrored [OF keeps_finish [OF refl]] show ?thesis by (metis handle_control.simps(17))
next
  case (ConfigureCharset i cs)
  with assms show ?thesis by (auto simp: configure_charset_def mirrored_frame split: bind_splits)
next
  case OnResetGrid
  with assms show ?thesis
    by (auto simp: on_reset_grid_def mirrored_frame split: bind_splits reset_grid_checks.splits)
qed (use assms set_mode_mirrored in \<open>auto simp: terminal_attribute_def with_template_def mirrored_frame
    set_keypad_application_mode_def unset_keypad_application_mode_def mirrored_insert mirrored_flags
    set_active_charset_def set_handler_cursor_style_def Let_def set_cursor_shape_def bell_def
    clipboard_store_def clipboard_load_def set_keyboard_enhancement_flags_def
    push_keyboard_enhancement_flags_def pop_keyboard_enhancement_flags_def push_keyboard_mode_def
    pop_keyboard_modes_def set_keyboard_mode_mirrored split: option.splits\<close>)

lemma handle_mirrored:
  assumes "flags_mirrored h" and "handle L c h = Some h'"
  shows "flags_mirrored h'"
proof (cases c)
  case (Cursor x)
  have "keeps (modes h) (handle_cursor L x h)"
    by (cases x; simp only: handle_cursor.simps; intro keeps_rules; simp add: modes_def save_cursor_position_def)
  with assms Cursor show ?thesis by (auto intro: keeps_mirrored)
next
  case (Edit x)
  have "keeps (modes h) (handle_edit L x h)"
    by (cases x; simp only: handle_edit.simps; intro keeps_rules; simp)
  with assms Edit show ?thesis by (auto intro: keeps_mirrored)
next
  case (Image x)
  with assms keeps_mirrored [OF keeps_image [OF refl]] show ?thesis by simp
qed (use assms control_mirrored in simp)

lemma handle_all_mirrored:
  "flags_mirrored h \<Longrightarrow> handle_all L calls h = Some h' \<Longrightarrow> flags_mirrored h'"
  unfolding handle_all_def
  by (induction calls arbitrary: h) (auto split: option.splits dest: handle_mirrored)

lemma mirrored_bits:
  assumes "flags_mirrored h" and "k < 5"
  shows "bit (h_mode h) (18 + k) = bit (h_keyboard_mode h) k"
proof -
  have "bit (h_mode h AND TM_KEYBOARD_PROTOCOL) (18 + k) = bit (term_mode_from_keyboard (h_keyboard_mode h)) (18 + k)"
    using assms(1) by (simp add: flags_mirrored_def)
  with assms(2) show ?thesis
    by (simp add: term_mode_from_keyboard_shift protocol_mask bit_simps)
qed

text \<open>
  C24. The keyboard flags and their copy among the modes never drift apart: after any sequence of
  handler calls, on either screen, each of the five keyboard modes is on exactly when its flag is
  set.
\<close>

theorem keyboard_flags_mirrored:
  assumes "handler_new sequential resize_fix rows cols width height limit alt checks = Some h"
    and "handle_all L calls h = Some h'"
  shows "(has_mode TM_KEYBOARD_DISAMBIGUATE_ESCAPE h' \<longleftrightarrow>
            mode_contains (h_keyboard_mode h') KM_DISAMBIGUATE_ESC_CODES) \<and>
         (has_mode TM_KEYBOARD_REPORT_EVENT_TYPES h' \<longleftrightarrow>
            mode_contains (h_keyboard_mode h') KM_REPORT_EVENT_TYPES) \<and>
         (has_mode TM_KEYBOARD_REPORT_ALTERNATE_KEYS h' \<longleftrightarrow>
            mode_contains (h_keyboard_mode h') KM_REPORT_ALTERNATE_KEYS) \<and>
         (has_mode TM_KEYBOARD_REPORT_ALL_AS_ESCAPE h' \<longleftrightarrow>
            mode_contains (h_keyboard_mode h') KM_REPORT_ALL_KEYS_AS_ESC) \<and>
         (has_mode TM_KEYBOARD_REPORT_ASSOCIATED_TEXT h' \<longleftrightarrow>
            mode_contains (h_keyboard_mode h') KM_REPORT_ASSOCIATED_TEXT)"
proof -
  have "flags_mirrored h"
    using assms(1)
    by (auto simp: handler_new_def Let_def flags_mirrored_def default_term_mode_def term_mode_from_keyboard_def
        mode_contains_def term_mode_defs keyboard_mode_defs split: bind_splits)
  from handle_all_mirrored [OF this assms(2)] have "flags_mirrored h'" .
  note bits = mirrored_bits [OF this, of 0] mirrored_bits [OF this, of 1] mirrored_bits [OF this, of 2]
    mirrored_bits [OF this, of 3] mirrored_bits [OF this, of 4]
  show ?thesis
    unfolding has_mode_def keyboard_flags keyboard_protocol_bits
    using bits contains_flag [of 18 "h_mode h'"] contains_flag [of 19 "h_mode h'"] contains_flag [of 20 "h_mode h'"]
      contains_flag [of 21 "h_mode h'"] contains_flag [of 22 "h_mode h'"]
    by simp
qed

theorem keyboard_flags_mirrored_witness:
  "\<exists>h h'. handler_new True False 2 4 8 16 100 True False = Some h \<and>
     handle_all sample_libraries [Control (PushKeyboardFlags 5), Control (SetMode M_Insert),
       Control (SetKeyboardFlags 2 KA_Union), Cursor (Input 0x61), Control (PopKeyboardFlags 1)] h = Some h' \<and>
     (has_mode TM_KEYBOARD_REPORT_EVENT_TYPES h' \<longleftrightarrow>
        mode_contains (h_keyboard_mode h') KM_REPORT_EVENT_TYPES)"
proof -
  obtain h where h: "handler_new True False 2 4 8 16 100 True False = Some h" "safe 2 4 h"
    using handler_new_safe [of 2 4 True False 8 16 100] by (auto elim!: endsE)
  let ?calls = "[Control (PushKeyboardFlags 5), Control (SetMode M_Insert),
       Control (SetKeyboardFlags 2 KA_Union), Cursor (Input 0x61), Control (PopKeyboardFlags 1)]"
  have "list_all legal ?calls" by simp
  from handle_all_safe [OF h(2) this] obtain h' where h': "handle_all sample_libraries ?calls h = Some h'"
    by (auto elim!: endsE)
  from keyboard_flags_mirrored [OF h(1) h'] h(1) h' show ?thesis by blast
qed

section \<open>Pushing and popping keyboard flags\<close>

text \<open>
  Popping the keyboard flags does not undo a push: whatever flags a program had set before, pushing
  others and popping them again leaves those of the last push before, or none. The flags in force
  are not saved, only those that were pushed.
\<close>

theorem pop_forgets_set_flags:
  assumes "bounded_push_back L KEYBOARD_MODE_STACK_MAX_DEPTH (h_keyboard_mode_stack h) k' = h_keyboard_mode_stack h @ [k']"
  shows "h_keyboard_mode (pop_keyboard_modes 1 (push_keyboard_mode L k' (set_keyboard_mode k KA_Replace h))) =
           (if h_keyboard_mode_stack h = [] then KM_NO_MODE else last (h_keyboard_mode_stack h))"
  using assms by (simp add: pop_keyboard_modes_def push_keyboard_mode_def set_keyboard_mode_def Let_def)

theorem pop_forgets_set_flags_witness:
  "\<exists>h. handler_new True False 1 2 8 16 100 True False = Some h \<and>
     h_keyboard_mode (pop_keyboard_modes 1
       (push_keyboard_mode sample_libraries 2 (set_keyboard_mode 1 KA_Replace h))) = KM_NO_MODE"
proof -
  obtain h where h: "handler_new True False 1 2 8 16 100 True False = Some h"
    using handler_new_safe [of 1 2 True False 8 16 100] by (auto elim!: endsE)
  then have "h_keyboard_mode_stack h = []" by (auto simp: handler_new_def Let_def split: bind_splits)
  then show ?thesis
    using h pop_forgets_set_flags [of sample_libraries h 2 1]
    by (auto simp: sample_libraries_def KEYBOARD_MODE_STACK_MAX_DEPTH_def)
qed

end
