(* ===== verification/Term_History.thy ===== *)
theory Term_History
  imports Term_Exact
begin

unbundle bit_operations_syntax

text \<open>
  The grid and its scrollback together: what scrolls off the screen is the end of the history, and
  what the operations of the terminal can leave there.
\<close>

section \<open>Scrolling into the history\<close>

lemma live_grid_row:
  assumes "live_grid g" and "i < gs_rows g"
  shows "grid_visible g i = Some (rows_now g ! i)"
proof -
  have "ring_full (gs_raw g)" "i < length (rows_of (gs_raw g))"
    using assms by (simp_all add: live_grid_def)
  then show ?thesis
    using storage_index_eq [of "gs_raw g" i] ring_full_visible_eq [of "gs_raw g"]
    by (simp add: grid_visible_def rows_now_def ring_full_def)
qed

text \<open>Pushing rows one by one is pushing batches of one row.\<close>

lemma push_visible_rows:
  assumes "live_grid (h_grid h)" and "a + d \<le> gs_rows (h_grid h)"
    and "fold_panics push_rows (map (\<lambda>r. [r]) (take d (drop a (rows_now (h_grid h))))) (h_flat h) = Some fs"
  shows "fold_panics (\<lambda>i h. do { r \<leftarrow> grid_visible (h_grid h) i; on_flat (push_rows [r]) h }) [a..<a + d] h =
           Some (h\<lparr>h_flat := fs\<rparr>)"
  using assms
proof (induction d arbitrary: fs)
  case (Suc d)
  let ?rows = "rows_now (h_grid h)"
  have d: "a + d < gs_rows (h_grid h)" using Suc.prems by simp
  have len: "length ?rows = gs_rows (h_grid h)"
    using Suc.prems(1) by (simp add: live_grid_def rows_now_def)
  have "take (Suc d) (drop a ?rows) = take d (drop a ?rows) @ [?rows ! (a + d)]"
    using d len by (simp add: take_Suc_conv_app_nth)
  then obtain fs1 where fs1: "fold_panics push_rows (map (\<lambda>r. [r]) (take d (drop a ?rows))) (h_flat h) = Some fs1"
      "push_rows [?rows ! (a + d)] fs1 = Some fs"
    using Suc.prems(3) by (auto simp: fold_panics_append split: bind_splits option.splits)
  from Suc.IH [OF Suc.prems(1) _ fs1(1)] d
  have "fold_panics (\<lambda>i h. do { r \<leftarrow> grid_visible (h_grid h) i; on_flat (push_rows [r]) h }) [a..<a + d] h =
      Some (h\<lparr>h_flat := fs1\<rparr>)" by simp
  then show ?case
    using fs1(2) live_grid_row [OF Suc.prems(1) d]
    by (simp add: fold_panics_append on_flat_def)
qed simp

lemma update_dirty_ends:
  assumes "1 \<le> handler_columns h"
  shows "ends (\<lambda>h'. \<exists>r fr. h' = h\<lparr>h_dirty_cells_range := r, h_find_dirty_rows_range := fr\<rparr>) (update_dirty_cells_range h)"
proof -
  have "0 < handler_columns h" using assms by simp
  then obtain p where "point_wrapping_add (handler_cursor_point h) (handler_columns h) 1 = Some p"
    using point_add_position by blast
  then show ?thesis
    by (auto simp: update_dirty_cells_range_def Let_def update_find_dirty_rows_range_def)
qed

text \<open>
  C23. Scrolling up moves the first rows of the scrolling region to the end of the history. On the main screen, with any
  region and any number of lines, of which at most the height of the region count: if the rows that
  scroll out can be stored (as wide as the screen, and their cells in a form the storage keeps), nothing panics,
  the history afterwards reads as the history before followed by these rows in their stored form, cut to the
  limit, and the region loses its first rows and gets blank ones, while the rows outside of it and the
  cursor stay. The stored form of a row keeps its occupied cells, and has default cells behind them, so that
  a background color there is not kept.
\<close>

theorem screen_scrolls_into_history:
  assumes "live_grid (h_grid h)" and "\<not> h_is_alt_screen h"
    and "h_scroll_region h = (a, e)" and "a \<le> e" and "e \<le> gs_rows (h_grid h)"
    and "gs_columns (h_grid h) = cols" and "cols < 2 ^ 16"
    and "flat_holds cols past (h_flat h)" and "fs_max_rows (h_flat h) = Some m" and "length past \<le> m"
    and "list_all (row_storable cols) (take (min n (e - a)) (drop a (rows_now (h_grid h))))"
  shows "\<exists>h'. handler_scroll_up n h = Some (SD_Up (min n (e - a)), h') \<and>
           flat_holds cols (keep_last m (past @ map (norm_row cols)
             (take (min n (e - a)) (drop a (rows_now (h_grid h)))))) (h_flat h') \<and>
           rows_now (h_grid h') = scroll_up_spec a e (min n (e - a)) (grid_blank (h_grid h)) (rows_now (h_grid h)) \<and>
           the_cursor h' = the_cursor h"
proof -
  let ?g = "h_grid h" and ?rows = "rows_now (h_grid h)"
  define d where "d = min n (e - a)"
  have d: "a + d \<le> e" "a + d \<le> gs_rows ?g" using assms(4,5) by (auto simp: d_def)
  have cols: "1 \<le> cols" using assms(1,6) by (simp add: live_grid_def)
  let ?out = "take d (drop a ?rows)"
  have "concat (map (\<lambda>r. [r]) ?out) = ?out" by simp
  moreover have "list_all (list_all (row_storable cols)) (map (\<lambda>r. [r]) ?out)"
    using assms(11) by (simp add: list_all_iff d_def)
  ultimately obtain fs where fs: "fold_panics push_rows (map (\<lambda>r. [r]) ?out) (h_flat h) = Some fs"
      "flat_holds cols (keep_last m (past @ map (norm_row cols) ?out)) fs"
    using push_batches [OF assms(8) _ cols assms(7,9,10), of "map (\<lambda>r. [r]) ?out"] by auto
  obtain g where g: "scroll_up a e d ?g = Some g" "live_grid g" "same_frame ?g g"
      "rows_now g = scroll_up_spec a e d (grid_blank ?g) ?rows"
    using scroll_up_exact [OF assms(1) d(1) assms(5)] by blast
  let ?h = "h\<lparr>h_flat := fs, h_grid := g\<rparr>"
  have "1 \<le> handler_columns ?h" using g(2) by (simp add: handler_columns_def live_grid_def)
  then obtain r fr where dirty: "update_dirty_cells_range ?h = Some (?h\<lparr>h_dirty_cells_range := r, h_find_dirty_rows_range := fr\<rparr>)"
    using update_dirty_ends [of ?h] by (auto elim!: endsE)
  have "min e (a + d) = a + d" using d(1) by simp
  then have "scroll_region_up (a, e) d h = Some (?h\<lparr>h_dirty_cells_range := r, h_find_dirty_rows_range := fr\<rparr>)"
    using assms(2) push_visible_rows [OF assms(1) d(2) fs(1)] g(1) dirty
    by (simp add: scroll_region_up_def on_grid_def)
  then have "handler_scroll_up n h = Some (SD_Up d, ?h\<lparr>h_dirty_cells_range := r, h_find_dirty_rows_range := fr\<rparr>)"
    using assms(3,4) by (simp add: handler_scroll_up_def scroll_up_relative_def usub_def d_def)
  then show ?thesis
    using fs(2) g(4) same_frame_simps(1) [OF g(3)] unfolding d_def [symmetric] by (simp add: the_cursor_def)
qed

theorem screen_scrolls_into_history_witness:
  "\<exists>h h'. handler_new True False 2 4 8 16 100 False False = Some h \<and> handler_scroll_up 1 h = Some (SD_Up 1, h') \<and>
     flat_holds 4 [norm_row 4 (blank_row 4 (Named NC_Background))] (h_flat h')"
proof -
  obtain h where h: "handler_new True False 2 4 8 16 100 False False = Some h" "sized_grid 2 4 (h_grid h)"
      "live_grid (h_grid h)" "rows_now (h_grid h) = replicate 2 (blank_row 4 (Named NC_Background))"
      "h_flat h = flat_new 4 (Some 100)" "\<not> h_is_alt_screen h" "h_scroll_region h = (0, 2)"
    using new_handler [of 2 4 100 False True False 8 16] by (auto elim!: endsE)
  have g: "gs_rows (h_grid h) = 2" "gs_columns (h_grid h) = 4" using sized_grid_simps [OF h(2)] by simp_all
  have "list_all (row_storable 4) (take 1 (rows_now (h_grid h)))"
    unfolding h(4) by (simp add: row_storable_def blank_row_def row_len_def leading_of_def)
  moreover have "flat_holds 4 [] (h_flat h)" "fs_max_rows (h_flat h) = Some 100"
    using h(5) flat_new_holds by (simp_all add: flat_new_def)
  ultimately have "\<exists>h'. handler_scroll_up 1 h = Some (SD_Up 1, h') \<and>
      flat_holds 4 (keep_last 100 ([] @ map (norm_row 4) (take 1 (rows_now (h_grid h))))) (h_flat h')"
    using screen_scrolls_into_history [of h 0 2 4 "[]" 100 1] h(3,6,7) g by auto
  then show ?thesis using h(1) unfolding h(4) by (auto simp: keep_last_def)
qed

section \<open>Half a wide character in the history\<close>

lemma grid_index_mut_row:
  assumes "sized_grid rows cols (h_grid h)" and "i < rows" and "f (rows_now (h_grid h) ! i) = Some r" and "row_sized cols r"
  shows "ends (repainted rows cols ((rows_now (h_grid h))[i := r]) h) (on_grid (grid_index_mut i f) h)"
  by (rule on_grid_repainted, rule grid_index_mut_at(1) [of rows cols "h_grid h" i f r, OF assms])

lemma repainted_trans:
  assumes "repainted rows cols rs h h'" and "repainted rows cols rs' h' h''"
  shows "repainted rows cols rs' h h''"
proof -
  obtain g g' where "h' = h\<lparr>h_grid := g\<rparr>" "resized_from rows cols (h_grid h) g"
      "h'' = h'\<lparr>h_grid := g'\<rparr>" "resized_from rows cols (h_grid h') g'" "rows_now g' = rs'"
    using assms unfolding repainted_def by blast
  then show ?thesis
    unfolding repainted_def by (intro exI [of _ g']) (auto intro: resized_from_trans)
qed

text \<open>Deleting characters from column 2 when the first two columns hold a wide character.\<close>

lemma boundary_plain:
  assumes "col < length cs" and "not_wide (cs ! col)"
  shows "blank_start_boundary cols col bg cs = Some cs" and "blank_end_boundary col bg cs = Some cs"
proof -
  have "cell_flags (cs ! col) AND F_WIDE_CHAR = 0" "cell_flags (cs ! col) AND F_WIDE_CHAR_SPACER = 0"
    using assms(2) by (simp_all add: not_wide_def flags_intersects_def bit.conj_disj_distrib or_eq_0_iff)
  then have "\<not> flags_contains (cell_flags (cs ! col)) F_WIDE_CHAR_SPACER" "\<not> flags_contains (cell_flags (cs ! col)) F_WIDE_CHAR"
    by (simp_all add: flags_contains_def F_WIDE_CHAR_def F_WIDE_CHAR_SPACER_def)
  with assms(1) show "blank_start_boundary cols col bg cs = Some cs" "blank_end_boundary col bg cs = Some cs"
    by (simp_all add: blank_start_boundary_def blank_end_boundary_def nth_checked_def)
qed

lemma full_row:
  assumes "sized_grid rows cols (h_grid h)" and "i < rows" and "f (row_inner (rows_now (h_grid h) ! i)) = Some cs"
    and "length cs = cols"
  shows "ends (repainted rows cols ((rows_now (h_grid h))[i := \<lparr>row_inner = cs, row_occ = cols\<rparr>]) h)
           (on_grid (grid_index_mut i (row_full_mut f)) h)"
proof -
  have "length (row_inner (rows_now (h_grid h) ! i)) = cols"
    using sized_grid_row [OF assms(1,2)] by (simp add: row_sized_def row_len_def)
  then have "row_full_mut f (rows_now (h_grid h) ! i) = Some \<lparr>row_inner = cs, row_occ = cols\<rparr>"
    using assms(3) by (simp add: row_full_mut_def)
  moreover have "row_sized cols \<lparr>row_inner = cs, row_occ = cols\<rparr>"
    using assms(4) by (simp add: row_sized_def row_len_def)
  ultimately show ?thesis by (rule grid_index_mut_row [OF assms(1,2)])
qed

lemma delete_after_wide:
  assumes "on_screen rows cols h" and "3 \<le> cols" and "cursor_col h = 2"
    and "row_inner (rows_now (h_grid h) ! cursor_row h) = w # s # rest" and "list_all not_wide rest"
  shows "ends (repainted rows cols ((rows_now (h_grid h))
           [cursor_row h := \<lparr>row_inner = w # replicate (cols - 1) (cell_from_color (template_bg h)), row_occ = cols\<rparr>]) h)
           (delete_chars (cols - 1) h)"
proof -
  let ?i = "cursor_row h" and ?bg = "template_bg h" and ?rows = "rows_now (h_grid h)"
  let ?cs = "w # s # rest" and ?done = "w # replicate (cols - 1) (cell_from_color ?bg)"
  have sized: "sized_grid rows cols (h_grid h)" and i: "?i < rows" using assms(1) by simp_all
  have len: "length ?cs = cols"
    using sized_grid_row [OF sized i] assms(4) by (simp add: row_sized_def row_len_def)
  then have plain: "not_wide (?cs ! k)" if "2 \<le> k" "k < cols" for k
    using that assms(5) by (auto simp: nth_Cons list_all_length split: nat.split)
  have cols: "handler_columns h = cols" using sized_grid_simps(2) [OF sized] by (simp add: handler_columns_def)
  let ?rs = "?rows[?i := \<lparr>row_inner = ?cs, row_occ = cols\<rparr>]"
  have start_eq: "blank_start_boundary cols 2 ?bg ?cs = Some ?cs"
    using assms(2) len by (intro boundary_plain(1) plain) simp_all
  have stop_eq: "blank_end_boundary (cols - 1) ?bg ?cs = Some ?cs"
    using assms(2) len by (intro boundary_plain(2) plain) simp_all
  have start: "ends (repainted rows cols ?rs h) (reset_wide_char_at_start_boundary ?i 2 ?bg h)"
    unfolding reset_wide_char_at_start_boundary_def
    by (rule full_row [OF sized i]) (simp_all only: assms(4) cols start_eq len)
  have stop: "ends (repainted rows cols ?rs h1) (reset_wide_char_at_end_boundary ?i (cols - 1) ?bg h1)"
    if h1: "repainted rows cols ?rs h h1" for h1
  proof -
    note d = repaintedD [OF h1]
    have row: "row_inner (rows_now (h_grid h1) ! ?i) = ?cs"
      using d(3) sized_grid_simps(5) [OF sized] i by simp
    have "ends (repainted rows cols ((rows_now (h_grid h1))[?i := \<lparr>row_inner = ?cs, row_occ = cols\<rparr>]) h1)
        (on_grid (grid_index_mut ?i (row_full_mut (blank_end_boundary (cols - 1) ?bg))) h1)"
      by (rule full_row [OF d(2) i]) (simp_all only: row stop_eq len)
    then show ?thesis
      unfolding reset_wide_char_at_end_boundary_def by (simp add: d(3))
  qed
  have cells: "ends (repainted rows cols (?rows[?i := \<lparr>row_inner = ?done, row_occ = cols\<rparr>]) h2)
      (on_grid (grid_index_mut ?i (row_full_mut (\<lambda>cs.
         do { cs \<leftarrow> fold_panics (\<lambda>offset cs. swap_checked cs (2 + offset) (cols - 1 + offset)) [0..<1] cs;
              stop \<leftarrow> usub cols (cols - 1); map_range (blank ?bg) stop (length cs) cs }))) h2)"
    if h2: "repainted rows cols ?rs h h2" for h2
  proof -
    note d = repaintedD [OF h2]
    have row: "row_inner (rows_now (h_grid h2) ! ?i) = ?cs"
      using d(3) sized_grid_simps(5) [OF sized] i by simp
    have same: "(rows_now (h_grid h2))[?i := x] = ?rows[?i := x]" for x by (simp add: d(3))
    obtain k where k: "cols = Suc (Suc (Suc k))"
      using le_Suc_ex [OF assms(2)] by (auto simp: numeral_3_eq_3)
    define ys where "ys = (s # rest)[1 := ?cs ! (cols - 1), cols - 2 := ?cs ! 2]"
    have "swap_checked ?cs 2 (cols - 1) = Some (?cs[2 := ?cs ! (cols - 1), cols - 1 := ?cs ! 2])"
      using assms(2) len by (intro swap_checked_lt) auto
    also have "?cs[2 := ?cs ! (cols - 1), cols - 1 := ?cs ! 2] = w # ys"
      by (simp add: ys_def k numeral_2_eq_2)
    finally have swapped: "swap_checked ?cs 2 (cols - 1) = Some (w # ys)" .
    have ys: "length ys = cols - 1" using len unfolding ys_def length_list_update by simp
    have "fold_panics (\<lambda>offset cs. swap_checked cs (2 + offset) (cols - 1 + offset)) [0..<1] ?cs = Some (w # ys)"
      using swapped by (simp add: numeral_2_eq_2)
    moreover have "map_range (blank ?bg) 1 (length (w # ys)) (w # ys) = Some ?done"
      using ys by (simp add: map_range_def map_replicate_const)
    moreover have "usub cols (cols - 1) = Some 1" using assms(2) by (simp add: usub_def)
    ultimately have f: "(do { cs \<leftarrow> fold_panics (\<lambda>offset cs. swap_checked cs (2 + offset) (cols - 1 + offset)) [0..<1] ?cs;
              stop \<leftarrow> usub cols (cols - 1); map_range (blank ?bg) stop (length cs) cs }) = Some ?done"
      by (simp only: bind.bind_lunit)
    show ?thesis
      using full_row [OF d(2) i, of "\<lambda>cs. do { cs \<leftarrow> fold_panics (\<lambda>offset cs. swap_checked cs (2 + offset) (cols - 1 + offset)) [0..<1] cs;
              stop \<leftarrow> usub cols (cols - 1); map_range (blank ?bg) stop (length cs) cs }" ?done] f assms(2)
      unfolding row same by simp
  qed
  have nums: "min (cols - 1) cols = cols - 1" "min (2 + (cols - 1)) (cols - 1) = cols - 1"
    "usub cols 1 = Some (cols - 1)" "usub cols (cols - 1) = Some 1" "cols - 1 < cols" "cols - 1 \<noteq> 0"
    using assms(2) by (simp_all add: usub_def)
  have i_eq: "p_row (Point ?i (cursor_col h)) = ?i" by simp
  show ?thesis
    unfolding delete_chars_def if_not_P [OF nums(6)] Let_def cols assms(3) nums(1-4) bind.bind_lunit
      on_screen_point [OF assms(1)] point.sel if_P [OF nums(5)]
  proof (rule ends_bind [OF start], goal_cases)
    case (1 h1)
    show ?case
    proof (rule ends_bind [OF stop [OF 1]], goal_cases)
      case (1 h2)
      note h2 = repainted_trans [OF \<open>repainted rows cols ?rs h h1\<close> 1]
      show ?case
        using cells [OF h2] unfolding nums(4) bind.bind_lunit by (rule ends_mono) (rule repainted_trans [OF h2])
    qed
  qed
qed

lemma blank_cell: "not_wide (cell_from_color bg)"
  by (simp add: not_wide_def cell_from_color_def default_cell_def flags_intersects_def)

lemma wide_row:
  assumes "3 \<le> cols"
  shows "row_inner (put_cell 1 (insert_flags F_WIDE_CHAR_SPACER (write_cell DEFAULT_CHAR default_cell default_cell))
           (put_cell 0 (insert_flags F_WIDE_CHAR (write_cell c default_cell default_cell)) (blank_row cols (Named NC_Background)))) =
         default_cell\<lparr>cell_c := c, cell_flags := F_WIDE_CHAR\<rparr> # default_cell\<lparr>cell_flags := F_WIDE_CHAR_SPACER\<rparr> #
           replicate (cols - 2) default_cell"
proof -
  obtain k where k: "cols = Suc (Suc (Suc k))"
    using le_Suc_ex [OF assms] by (auto simp: numeral_3_eq_3)
  show ?thesis
    by (simp add: k put_cell_def blank_row_def insert_flags_def flags_insert_def write_cell_def drop_extra_def
        default_cell_def cell_from_color_def)
qed

lemma scrolled_flat:
  assumes "sized_grid rows cols (h_grid h)" and "\<not> h_is_alt_screen h" and "h_scroll_region h = (0, rows)"
    and "push_rows [rows_now (h_grid h) ! 0] (h_flat h) = Some fs"
  shows "ends (\<lambda>r. h_flat (snd r) = fs \<and> gs_rows (h_grid (snd r)) = rows) (handler_scroll_up 1 h)"
proof -
  note g = sized_grid_simps [OF assms(1)]
  have row: "grid_visible (h_grid h) 0 = Some (rows_now (h_grid h) ! 0)"
    using sized_grid_raw_facts [OF assms(1)] g(7) storage_index_eq [of "gs_raw (h_grid h)" 0]
      ring_full_visible_eq [of "gs_raw (h_grid h)"]
    by (simp add: grid_visible_def rows_now_def ring_full_def)
  let ?h = "h\<lparr>h_flat := fs\<rparr>"
  have grid: "ends (\<lambda>h'. h_flat h' = fs \<and> gs_rows (h_grid h') = rows \<and> handler_columns h' = cols) (on_grid (scroll_up 0 rows 1) ?h)"
    unfolding on_grid_def
    by (rule ends_bind [OF scroll_up_kept [of rows cols "h_grid ?h" 0 rows 1]])
      (use assms(1) g(7) in \<open>auto dest: resized_from_simps simp: handler_columns_def\<close>)
  have dirty: "ends (\<lambda>h''. h_flat h'' = fs \<and> gs_rows (h_grid h'') = rows) (update_dirty_cells_range h')"
    if "h_flat h' = fs \<and> gs_rows (h_grid h') = rows \<and> handler_columns h' = cols" for h'
    using that g(6) update_dirty_ends [of h'] by (auto elim!: ends_mono)
  have region: "scroll_region_up (0, rows) 1 h = do { h' \<leftarrow> on_grid (scroll_up 0 rows 1) ?h; update_dirty_cells_range h' }"
    using assms(2,4) g(7) row by (simp add: scroll_region_up_def on_flat_def min_def)
  have n: "min 1 rows = 1" using g(7) by simp
  have "ends (\<lambda>r. h_flat (snd r) = fs \<and> gs_rows (h_grid (snd r)) = rows)
      (do { h \<leftarrow> do { h' \<leftarrow> on_grid (scroll_up 0 rows 1) ?h; update_dirty_cells_range h' }; Some (SD_Up 1, h) })"
    by (rule ends_bind [OF ends_bind [OF grid dirty]]) simp_all
  then show ?thesis
    unfolding handler_scroll_up_def scroll_up_relative_def Let_def assms(3) fst_conv snd_conv
    by (simp add: usub_def n [unfolded One_nat_def] region [unfolded One_nat_def])
qed

text \<open>
  C25. Deleting characters can make the history unreadable: on any main screen of at least three
  columns, a wide character, a background color, a deletion of all columns but one and a scroll
  leave in the scrollback a row that panics whenever it is read. The deletion blanks the cells from
  column one on, left of the cursor too, and leaves half of the wide character.
\<close>

theorem deletion_makes_history_unreadable:
  assumes "1 \<le> rows" and "3 \<le> cols" and "cols < 2 ^ 16" and "1 \<le> limit"
    and "char_width L c = Some 2" and "c < 0x110000" and "c \<noteq> 0" and "c \<noteq> 0xA" and "bg \<noteq> Named NC_Background"
  shows "\<exists>h h'. handler_new sequential resize_fix rows cols width height limit False False = Some h \<and>
           handle_all L [Cursor (Input c), Control (TerminalAttribute (A_Background bg)),
             Edit (DeleteChars (cols - 1)), Edit (ScrollUp 1)] h = Some h' \<and>
           handler_row 0 h' = None"
proof -
  have cols: "1 \<le> cols" "2 \<le> cols" "0 + 1 < cols" using assms(2) by simp_all
  let ?blank = "blank_row cols (Named NC_Background)"
  obtain h where h: "handler_new sequential resize_fix rows cols width height limit False False = Some h"
      "sized_grid rows cols (h_grid h)" "rows_now (h_grid h) = replicate rows ?blank"
      "the_cursor h = default_cursor" "h_flat h = flat_new cols (Some limit)" "\<not> h_is_alt_screen h"
      "h_scroll_region h = (0, rows)" "ready_to_print rows cols 0 0 h"
    using ends_conj [OF new_handler [OF assms(1) cols(1), of limit False sequential resize_fix width height]
        new_ready [OF assms(1) cols(1), of sequential resize_fix width height limit False]]
    by (auto elim!: endsE)
  have row0: "rows_now (h_grid h) ! 0 = ?blank" using assms(1) h(3) by simp
  have cells: "cell_at 0 0 h = default_cell" "cell_at 0 1 h = default_cell"
    using assms(1,2) by (simp_all add: h(3) blank_row_def default_cell_eq)
  let ?w = "default_cell\<lparr>cell_c := c, cell_flags := F_WIDE_CHAR\<rparr>"
  obtain r1 where r1: "row_inner r1 = ?w # default_cell\<lparr>cell_flags := F_WIDE_CHAR_SPACER\<rparr> # replicate (cols - 2) default_cell"
    and printed: "ends (printed rows cols 0 2 r1 h) (input L c h)"
  proof -
    have "not_wide default_cell" using blank_cell [of "Named NC_Background"] by (simp add: default_cell_eq)
    then have "not_wide (cell_at 0 0 h)" "not_wide (cell_at 0 (0 + 1) h)" using cells by simp_all
    note wide = input_wide [OF h(8) cols(3) this assms(5)]
    have eqs: "0 + 1 = (1 :: nat)" "0 + 2 = (2 :: nat)" "cur_template (the_cursor h) = default_cell"
      "row_inner ?blank ! 0 = default_cell" "row_inner ?blank ! 1 = default_cell"
      using cells row0 h(4) by (simp_all add: default_cursor_def)
    show thesis
      by (rule that [OF wide_row [OF assms(2)] wide [unfolded eqs(1,2,3) row0 eqs(4,5)]])
  qed
  from printed obtain h1 where h1: "input L c h = Some h1" "printed rows cols 0 2 r1 h h1" by (rule endsE)
  note p = h1(2) [unfolded printed_def]
  note f1 = same_setting_fields [OF conjunct1 [OF p]]
  define h2 where "h2 = terminal_attribute (A_Background bg) h1"
  have h2: "on_screen rows cols h2" "cursor_col h2 = 2" "cursor_row h2 = 0" "template_bg h2 = bg"
      "rows_now (h_grid h2) = rows_now (h_grid h1)" "h_flat h2 = h_flat h" "\<not> h_is_alt_screen h2" "h_scroll_region h2 = (0, rows)"
    using p f1 h assms(1,2)
    by (simp_all add: h2_def terminal_attribute_def with_template_def with_cursor_grid cursor_row_def cursor_col_def
        template_bg_def) (simp_all add: with_cursor_def)
  have "row_inner (rows_now (h_grid h2) ! cursor_row h2) = ?w # default_cell\<lparr>cell_flags := F_WIDE_CHAR_SPACER\<rparr> # replicate (cols - 2) default_cell"
    using p h(3) assms(1) r1 by (simp add: h2)
  moreover have "list_all not_wide (replicate (cols - 2) default_cell)"
    using blank_cell [of "Named NC_Background"] by (simp add: default_cell_eq list_all_iff)
  ultimately obtain h3 where h3: "delete_chars (cols - 1) h2 = Some h3"
      "repainted rows cols ((rows_now (h_grid h2))[0 := torn_row cols c bg]) h2 h3"
    using delete_after_wide [OF h2(1) assms(2) h2(2)] h2(3,4) by (auto simp: torn_row_def elim!: endsE)
  note d = repaintedD [OF h3(2)] and f3 = repainted_fields [OF h3(2)]
  have torn: "rows_now (h_grid h3) ! 0 = torn_row cols c bg"
    using d(3) p h(3) assms(1) h2(5) by simp
  obtain fs where fs: "push_rows [torn_row cols c bg] (flat_new cols (Some limit)) = Some fs"
      "flat_total_rows fs = 1" "fs_columns fs = cols" "Option.bind (row_new cols) (read_row fs 0) = None"
    using torn_row_reads [OF cols(2) assms(3,9,6,7,8,4)] by blast
  have "push_rows [rows_now (h_grid h3) ! 0] (h_flat h3) = Some fs"
    using fs(1) by (simp add: torn f3(6) h2(6) h(5))
  from scrolled_flat [OF d(2) _ _ this] f3(7,8) h2(7,8)
  obtain delta h4 where h4: "handler_scroll_up 1 h3 = Some (delta, h4)" "h_flat h4 = fs"
    by (auto elim!: endsE)
  have "handle_all L [Cursor (Input c), Control (TerminalAttribute (A_Background bg)),
      Edit (DeleteChars (cols - 1)), Edit (ScrollUp 1)] h = Some h4"
    using h1(1) h3(1) h4(1) by (simp add: handle_all_def h2_def [symmetric] del: One_nat_def)
  moreover have "handler_row 0 h4 = None"
    using fs by (simp add: handler_row_def storage_row_of_def handler_total_rows_def handler_history_size_def h4(2))
  ultimately show ?thesis using h(1) by blast
qed

theorem deletion_makes_history_unreadable_witness:
  "\<exists>h h'. handler_new True False 2 4 8 16 100 False False = Some h \<and>
     handle_all sample_libraries [Cursor (Input 0x4E16), Control (TerminalAttribute (A_Background (Named NC_Red))),
       Edit (DeleteChars (4 - 1)), Edit (ScrollUp 1)] h = Some h' \<and> handler_row 0 h' = None"
  by (rule deletion_makes_history_unreadable) (simp_all add: sample_libraries_def sample_width_def)

end
