(* ===== verification/Term_Findings.thy ===== *)
theory Term_Findings
  imports Term_Exact
begin

unbundle bit_operations_syntax

text \<open>
  Where the terminal does not do what it means to: what modelling its operations showed, each as a
  theorem about the code as it is.
\<close>

section \<open>The cursor in origin mode\<close>

lemma update_cursor_at:
  assumes "1 \<le> handler_columns h"
  shows "ends (\<lambda>h'. the_cursor h' = f (the_cursor h)) (update_cursor f h)"
proof -
  let ?h = "h\<lparr>h_grid := update_max_cursor (h_grid h)\<rparr>"
  have dirty: "ends (\<lambda>h'. h_grid h' = h_grid h0) (update_dirty_cells_range h0)" if "1 \<le> handler_columns h0" for h0
  proof -
    have "0 < handler_columns h0" using that by simp
    then obtain p where "point_wrapping_add (handler_cursor_point h0) (handler_columns h0) 1 = Some p"
      using point_add_position by blast
    then show ?thesis by (simp add: update_dirty_cells_range_def Let_def update_find_dirty_rows_range_def)
  qed
  have cols: "handler_columns ?h = handler_columns h"
    by (simp add: handler_columns_def update_max_cursor_def Let_def)
  have "ends (\<lambda>h''. the_cursor h'' = f (the_cursor h)) (update_dirty_cells_range (with_cursor f h'))"
    if "h_grid h' = h_grid ?h" for h'
  proof -
    have cur: "the_cursor h' = the_cursor h"
      using that by (simp add: the_cursor_def update_max_cursor_frame)
    have "1 \<le> handler_columns (with_cursor f h')"
      using that assms cols unfolding with_cursor_fields by (simp add: handler_columns_def)
    from dirty [OF this] show ?thesis
      by (rule ends_mono) (simp add: the_cursor_def with_cursor_def cur [unfolded the_cursor_def])
  qed
  then show ?thesis
    unfolding update_cursor_def Let_def using assms cols by (intro ends_bind [OF dirty]) auto
qed

lemma goto_at:
  assumes "has_mode TM_ORIGIN h" and "h_scroll_region h = (a, b)" and "1 \<le> b" and "1 \<le> handler_columns h"
  shows "ends (\<lambda>h'. cursor_row h' = min (row + a) (b - 1) \<and> cursor_col h' = min column (handler_columns h - 1))
           (goto row column h)"
  unfolding goto_def Let_def if_P [OF assms(1)] assms(2) fst_conv snd_conv usub_le [OF assms(3)] bind.bind_lunit
  by (rule ends_mono [OF update_cursor_at [OF assms(4)]])
    (simp add: cursor_row_def cursor_col_def set_needs_wrap_def)

text \<open>
  In origin mode, moving the cursor within its row also moves it down: the operations that go to a
  column, or up or down, pass the absolute row of the cursor to an operation that adds the start of
  the scrolling region to it once more. Going to a column moves the cursor down by the start of the
  region, and moving up by one line moves it down as soon as the region starts below row two.
\<close>

theorem origin_mode_moves_down:
  assumes "has_mode TM_ORIGIN h" and "h_scroll_region h = (a, b)" and "1 \<le> handler_columns h"
    and "cursor_row h + 1 + a < b"
  shows "\<exists>h1 h2 h3. goto_col column h = Some h1 \<and> cursor_row h1 = cursor_row h + a \<and>
           move_up 1 h = Some h2 \<and> cursor_row h2 = cursor_row h - 1 + a \<and>
           move_down 1 h = Some h3 \<and> cursor_row h3 = cursor_row h + 1 + a"
proof -
  have b: "1 \<le> b" using assms(4) by simp
  note at = goto_at [OF assms(1,2) b assms(3)]
  have "min (cursor_row h + a) (b - 1) = cursor_row h + a" "min (cursor_row h - 1 + a) (b - 1) = cursor_row h - 1 + a"
    "min (cursor_row h + 1 + a) (b - 1) = cursor_row h + 1 + a"
    using assms(4) by auto
  then show ?thesis
    using at [of "cursor_row h" column] at [of "cursor_row h - 1" "cursor_col h"]
      at [of "cursor_row h + 1" "cursor_col h"]
    unfolding goto_col_def move_up_def move_down_def by (auto elim!: endsE)
qed

theorem origin_mode_moves_down_witness:
  "\<exists>h h1. handler_new True False 4 4 8 16 100 False False = Some h \<and> cursor_row h = 0 \<and>
     goto_col 3 (insert_mode TM_ORIGIN (h\<lparr>h_scroll_region := (1, 4)\<rparr>)) = Some h1 \<and> cursor_row h1 = 1"
proof -
  obtain h where h: "handler_new True False 4 4 8 16 100 False False = Some h" "sized_grid 4 4 (h_grid h)"
      "the_cursor h = default_cursor"
    using new_handler [of 4 4 100 False True False 8 16] by (auto elim!: endsE)
  let ?h = "insert_mode TM_ORIGIN (h\<lparr>h_scroll_region := (1, 4)\<rparr>)"
  have row: "cursor_row h = 0" "cursor_row ?h = 0"
    using h(3) by (simp_all add: cursor_row_def default_cursor_def the_cursor_def insert_mode_def)
  have "has_mode TM_ORIGIN ?h"
    by (simp add: has_mode_def insert_mode_def mode_insert_def mode_contains_def and.commute)
  moreover have "h_scroll_region ?h = (1, 4)" by (simp add: insert_mode_def)
  moreover have "1 \<le> handler_columns ?h"
    using sized_grid_simps(2) [OF h(2)] by (simp add: handler_columns_def insert_mode_def)
  ultimately obtain h1 where "goto_col 3 ?h = Some h1" "cursor_row h1 = 1"
    using origin_mode_moves_down [of ?h 1 4 3] row(2) by auto
  with h(1) row(1) show ?thesis by blast
qed

section \<open>Clearing the viewport\<close>

lemma grid_of_pushes:
  "fold_panics (\<lambda>i h. do { r \<leftarrow> grid_visible (h_grid h) i; on_flat (push_rows [r]) h }) is h = Some h' \<Longrightarrow>
     h_grid h' = h_grid h"
  by (induction "is" arbitrary: h) (auto simp: on_flat_def split: option.splits bind_splits)

lemma grid_of_dirty: "update_dirty_cells_range h = Some h' \<Longrightarrow> h_grid h' = h_grid h"
  by (auto simp: update_dirty_cells_range_def Let_def update_find_dirty_rows_range_def split: bind_splits if_splits)

lemma rows_after_scroll:
  assumes "sized_grid rows cols (h_grid h)" and "scroll_region_up (0, rows) rows h = Some h'"
  shows "visible_rows h' = rows"
proof -
  obtain h1 h2 where h1: "h_grid h1 = h_grid h" and h2: "on_grid (scroll_up 0 rows rows) h1 = Some h2"
      and h': "update_dirty_cells_range h2 = Some h'"
    using assms(2) grid_of_pushes [of "[0..<min rows rows]" h]
    by (auto simp: scroll_region_up_def split: bind_splits if_splits)
  have "ends (resized_from rows cols (h_grid h)) (scroll_up 0 rows rows (h_grid h))"
    by (rule scroll_up_kept [OF assms(1)]) simp_all
  then have "gs_rows (h_grid h2) = rows"
    using h2 resized_from_simps(5) by (auto simp: on_grid_def h1 ends_def split: bind_splits)
  then show ?thesis using grid_of_dirty [OF h'] by (simp add: visible_rows_def)
qed

text \<open>
  Clearing the viewport always scrolls the whole screen away: the search for the blank rows at its
  end starts at a position that never exists, so no blank row is ever skipped, and every row of the
  screen, blank or not, is pushed into the scrollback.
\<close>

theorem clear_viewport_scrolls_everything:
  assumes "sized_grid rows cols (h_grid h)" and "handler_row 0 h = Some (Some r)" and "row_len r \<le> cols"
  shows "clear_viewport h = scroll_region_up (0, rows) rows h"
proof -
  note g = sized_grid_simps [OF assms(1)]
  have n: "handler_columns h = cols" "visible_rows h = rows"
    using g by (simp_all add: handler_columns_def visible_rows_def)
  have "row_get cols r = None" using assms(3) by (simp add: row_get_def row_len_def)
  let ?c = "\<lparr>gc_cur = Point 0 cols, gc_state = GC_Invalid, gc_wrap = Wrap_All, gc_cached_row_idx = 0, gc_cached_row = None\<rparr>"
  have new: "cursor_new h (Point 0 cols) Wrap_All = Some ?c"
    using assms(2) \<open>row_get cols r = None\<close> by (simp add: cursor_new_def)
  have stays: "move_backward h ?c = Some ?c" by (simp add: move_backward.simps [of h ?c])
  have skip: "skip_empty_back h ?c = Some ?c" by (simp add: skip_empty_back.simps [of h ?c] current_item_def)
  have "(do { h' \<leftarrow> scroll_region_up (0, rows) rows h;
      fold_panics (\<lambda>i. on_grid (grid_index_mut i (row_reset (cur_template (the_cursor h'))))) [rows..<visible_rows h'] h' }) =
      scroll_region_up (0, rows) rows h"
    using rows_after_scroll [OF assms(1)] by (cases "scroll_region_up (0, rows) rows h") simp_all
  then show ?thesis
    by (simp add: clear_viewport_def Let_def n new stays skip last_valid_position_def usub_def)
qed

theorem clear_viewport_scrolls_everything_witness:
  "\<exists>h. handler_new True False 3 4 8 16 100 False False = Some h \<and>
     clear_viewport h = scroll_region_up (0, 3) 3 h \<and> rows_now (h_grid h) = replicate 3 (blank_row 4 (Named NC_Background))"
proof -
  obtain h where h: "handler_new True False 3 4 8 16 100 False False = Some h" "sized_grid 3 4 (h_grid h)"
      "live_grid (h_grid h)" "rows_now (h_grid h) = replicate 3 (blank_row 4 (Named NC_Background))"
      "h_flat h = flat_new 4 (Some 100)"
    using new_handler [of 3 4 100 False True False 8 16] by (auto elim!: endsE)
  have "flat_total_rows (h_flat h) = 0"
    using flat_total_rows_is [of 4 0 "[]" "flat_new 4 (Some 100)"] flat_new_is [of 4 "Some 100"] h(5) by (simp add: flat_is_def)
  moreover have "storage_index (gs_raw (h_grid h)) 0 = Some (rows_now (h_grid h) ! 0)"
    using sized_grid_raw_facts [OF h(2)] storage_index_eq [of "gs_raw (h_grid h)" 0]
    by (simp add: rows_now_def ring_full_def)
  ultimately have "handler_row 0 h = Some (Some (blank_row 4 (Named NC_Background)))"
    using sized_grid_simps [OF h(2)] h(4)
    by (simp add: handler_row_def storage_row_of_def handler_total_rows_def handler_history_size_def visible_rows_def
        grid_get_def)
  from clear_viewport_scrolls_everything [OF h(2) this] h(1,4) show ?thesis by (simp add: row_len_def blank_row_def)
qed

section \<open>Combining characters\<close>

text \<open>
  A combining character after a wide character prints a phantom spacer: it joins the wide
  character, whose content is then two cells wide, which the code takes for a narrow character that
  has just become wide. It writes a spacer into the cell at the cursor and moves on, so that the next
  character lands one cell too far to the right.
\<close>

theorem combining_after_wide_prints_spacer:
  assumes "ready_to_print rows cols i (j + 2) h" and "flags_contains (cell_flags (cell_at i (j + 1) h)) F_WIDE_CHAR_SPACER"
    and "content_with_zerowidth (cell_at i j h) = None" and "cell_c (cell_at i j h) = d" and "d \<noteq> DEFAULT_CHAR"
    and "not_wide (cell_at i (j + 2) h)" and "char_width L c = Some 0" and "str_width L [d, c] = 2"
    and "h_emoji_selector h"
  shows "\<exists>h'. input L c h = Some h' \<and> cursor_col h' = min (j + 3) (cols - 1) \<and>
           flags_contains (cell_flags (cell_at i (j + 2) h')) F_WIDE_CHAR_SPACER"
proof -
  note r = assms(1) [unfolded ready_to_print_def]
  have sized: "sized_grid rows cols (h_grid h)" and i: "i < rows" and j: "j < cols" "j + 1 < cols" using r by simp_all
  have s: "on_screen rows cols h" using r by simp
  have len: "i < length (rows_now (h_grid h))" "length (row_inner (rows_now (h_grid h) ! i)) = cols"
    using sized_grid_simps(5) [OF sized] sized_grid_row [OF sized i] i by (simp_all add: row_sized_def row_len_def)
  have spacer: "grid_cell i (j + 1) (h_grid h) = Some (cell_at i (j + 1) h)" by (rule grid_cell_read [OF sized i j(2)])
  let ?r1 = "put_cell j (push_zerowidth c (cell_at i j h)) (rows_now (h_grid h) ! i)"
  let ?rs1 = "(rows_now (h_grid h))[i := ?r1]"
  have joined: "ends (repainted rows cols ?rs1 h) (on_grid (grid_cell_mut i j (push_zerowidth c)) h)"
    by (rule on_grid_repainted, rule grid_cell_mut_at [OF sized i j(1)])
  have content: "raw_content (push_zerowidth c (cell_at i j h)) = Str [d, c]"
    using push_zerowidth_content [OF assms(3), of c] assms(4,5) by simp
  have rest: "ends (\<lambda>h'. cursor_col h' = min (j + 3) (cols - 1) \<and> flags_contains (cell_flags (cell_at i (j + 2) h')) F_WIDE_CHAR_SPACER)
      (do { cl \<leftarrow> grid_cell i j (h_grid h1);
            case (case raw_content cl of Str s \<Rightarrow> Some (str_width L s) | Char d \<Rightarrow> char_width L d) of
              None \<Rightarrow> Some h1
            | Some w \<Rightarrow> if w = 2 \<and> h_emoji_selector h1 then
                 do { h \<leftarrow> on_grid (grid_cell_mut i j (insert_flags F_WIDE_CHAR)) h1;
                      h \<leftarrow> write_at_cursor DEFAULT_CHAR (insert_flags F_WIDE_CHAR_SPACER) h;
                      advance_cursor_by_one_cell h }
               else Some h1 })" if h1: "repainted rows cols ?rs1 h h1" for h1
  proof -
    note d1 = repaintedD [OF h1] and f1 = repainted_fields [OF h1]
    have row1: "rows_now (h_grid h1) ! i = ?r1" using d1(3) len by simp
    have inner1: "row_inner ?r1 ! j = push_zerowidth c (cell_at i j h)" using len(2) j by (simp add: put_cell_def)
    have cell: "grid_cell i j (h_grid h1) = Some (push_zerowidth c (cell_at i j h))"
      using grid_cell_read [OF d1(2) i j(1)] unfolding row1 inner1 .
    have emoji: "h_emoji_selector h1" using assms(9) by (subst d1(1)) simp
    let ?rs2 = "(rows_now (h_grid h1))[i := put_cell j (insert_flags F_WIDE_CHAR (cell_at i j h1)) (rows_now (h_grid h1) ! i)]"
    have flagged: "ends (repainted rows cols ?rs2 h1) (on_grid (grid_cell_mut i j (insert_flags F_WIDE_CHAR)) h1)"
      by (rule on_grid_repainted, rule grid_cell_mut_at [OF d1(2) i j(1)])
    have last: "ends (\<lambda>h'. cursor_col h' = min (j + 3) (cols - 1) \<and> flags_contains (cell_flags (cell_at i (j + 2) h')) F_WIDE_CHAR_SPACER)
        (do { h \<leftarrow> write_at_cursor DEFAULT_CHAR (insert_flags F_WIDE_CHAR_SPACER) h2; advance_cursor_by_one_cell h })"
      if h2: "repainted rows cols ?rs2 h1 h2" for h2
    proof -
      note d2 = repaintedD [OF h2] and f2 = repainted_fields [OF h2]
      have rows2: "i < length (rows_now (h_grid h2))" using d2(3) d1(3) len by simp
      have "the_cursor h2 = the_cursor h" using d1(4) d2(4) by simp
      then have ready: "ready_to_print rows cols i (j + 2) h2"
        using r d2(2) f1 f2 by (simp add: ready_to_print_def)
      have "cell_at i (j + 2) h2 = cell_at i (j + 2) h"
        using d2(3) d1(3) len by (simp add: put_cell_def)
      then have nw: "not_wide (cell_at i (j + 2) h2)" using assms(6) by simp
      have len2: "j + 2 < length (row_inner (rows_now (h_grid h2) ! i))"
        using sized_grid_row [OF d2(2) i] r by (simp add: row_sized_def row_len_def)
      have eq: "j + 2 + 1 = j + 3" by simp
      show ?thesis
        using write_and_step [OF ready nw, of "insert_flags F_WIDE_CHAR_SPACER" DEFAULT_CHAR] unfolding eq
        by (rule ends_mono)
          (use rows2 len2 in \<open>simp add: printed_def put_cell_def insert_flags_def contains_insert\<close>)
    qed
    show ?thesis
      unfolding cell bind.bind_lunit content char_or_str.case option.case assms(8)
      using emoji ends_bind [OF flagged last] by simp
  qed
  have cols: "(if needs_wrap h then cursor_col h else cursor_col h - 1) = j + 1" using r by simp
  have back_one: "(if flags_contains (cell_flags (cell_at i (j + 1) h)) F_WIDE_CHAR_SPACER then j + 1 - 1 else j + 1) = j"
    using assms(2) by simp
  have point: "cursor_point (h_grid h) = Some (Point i (j + 2))" using on_screen_point [OF s] r by simp
  have "ends (\<lambda>h'. cursor_col h' = min (j + 3) (cols - 1) \<and> flags_contains (cell_flags (cell_at i (j + 2) h')) F_WIDE_CHAR_SPACER)
      (input_zero_width L c h)"
    unfolding input_zero_width_def Let_def cols point bind.bind_lunit point.sel spacer back_one
    by (rule ends_bind [OF joined rest])
  then show ?thesis
    using assms(7) by (auto simp: input_def elim: endsE)
qed

lemma printed_ready:
  assumes "ready_to_print rows cols i j h" and "printed rows cols i k r h h'" and "k < cols"
  shows "ready_to_print rows cols i k h'"
  using assms same_setting_fields [of h h'] by (auto simp: printed_def ready_to_print_def)

lemma fresh_cells:
  assumes "rows_now (h_grid h) = replicate rows (blank_row cols (Named NC_Background))" and "i < rows" and "j < cols"
  shows "cell_at i j h = default_cell" and "not_wide (cell_at i j h)"
  using assms by (simp_all add: blank_row_def default_cell_eq)
    (simp add: not_wide_def cell_from_color_def default_cell_def flags_intersects_def)

theorem combining_after_wide_prints_spacer_witness:
  "\<exists>h h1 h2. handler_new True False 2 6 8 16 100 False False = Some h \<and>
     input (sample_libraries\<lparr>str_width := \<lambda>s. 2\<rparr>) 0x4E16 h = Some h1 \<and>
     input (sample_libraries\<lparr>str_width := \<lambda>s. 2\<rparr>) 0x301 h1 = Some h2 \<and> cursor_col h1 = 2 \<and> cursor_col h2 = 3"
proof -
  let ?L = "sample_libraries\<lparr>str_width := \<lambda>s. 2\<rparr>"
  obtain h where h: "handler_new True False 2 6 8 16 100 False False = Some h" "ready_to_print 2 6 0 0 h"
      "rows_now (h_grid h) = replicate 2 (blank_row 6 (Named NC_Background))" "the_cursor h = default_cursor"
    using ends_conj [OF new_handler [of 2 6 100 False True False 8 16] new_ready [of 2 6 True False 8 16 100 False]]
    by (auto elim!: endsE)
  have emoji: "h_emoji_selector h" using h(1) by (auto simp: handler_new_def Let_def split: bind_splits)
  note fresh = fresh_cells [OF h(3)]
  let ?r = "put_cell (0 + 1) (insert_flags F_WIDE_CHAR_SPACER (write_cell DEFAULT_CHAR (cur_template (the_cursor h)) (cell_at 0 (0 + 1) h)))
      (put_cell 0 (insert_flags F_WIDE_CHAR (write_cell 0x4E16 (cur_template (the_cursor h)) (cell_at 0 0 h))) (rows_now (h_grid h) ! 0))"
  obtain h1 where h1: "input ?L 0x4E16 h = Some h1" "printed 2 6 0 (0 + 2) ?r h h1"
    using input_wide [OF h(2), of ?L "0x4E16"] fresh(2) [of 0 0] fresh(2) [of 0 "0 + 1"]
    by (auto simp: sample_libraries_def sample_width_def elim!: endsE)
  have ready: "ready_to_print 2 6 0 (0 + 2) h1" by (rule printed_ready [OF h(2) h1(2)]) simp
  have rows: "rows_now (h_grid h1) ! 0 = ?r" using h1(2) h(3) by (simp add: printed_def)
  have old: "cell_at 0 k h = default_cell" if "k < 6" for k by (rule fresh(1)) (use that in simp_all)
  have tmpl: "cur_template (the_cursor h) = default_cell" by (simp add: h(4) default_cursor_def)
  have inner: "cell_at 0 0 h1 = insert_flags F_WIDE_CHAR (write_cell 0x4E16 default_cell default_cell)"
    "cell_at 0 (0 + 1) h1 = insert_flags F_WIDE_CHAR_SPACER (write_cell DEFAULT_CHAR default_cell default_cell)"
    "cell_at 0 (0 + 2) h1 = default_cell"
    unfolding rows tmpl using old [of 0] old [of 1] old [of 2]
    by (simp_all add: put_cell_def h(3) blank_row_def numeral_2_eq_2)
  have "flags_contains (cell_flags (cell_at 0 (0 + 1) h1)) F_WIDE_CHAR_SPACER"
    unfolding inner by (simp add: insert_flags_def contains_insert)
  moreover have "content_with_zerowidth (cell_at 0 0 h1) = None" "cell_c (cell_at 0 0 h1) = 0x4E16"
    unfolding inner by (simp_all add: insert_flags_def write_cell_def drop_extra_def default_cell_def content_with_zerowidth_def)
  moreover have "not_wide (cell_at 0 (0 + 2) h1)"
    unfolding inner by (simp add: not_wide_def default_cell_def flags_intersects_def)
  moreover have "h_emoji_selector h1"
    using h1(2) emoji unfolding printed_def same_setting_def by (metis (no_types, lifting) handler.select_convs(12)
        handler.surjective handler.update_convs(1) handler.update_convs(21))
  ultimately obtain h2 where "input ?L 0x301 h1 = Some h2" "cursor_col h2 = 3"
    using combining_after_wide_prints_spacer [OF ready, of "0x4E16" ?L "0x301"]
    by (auto simp: sample_libraries_def sample_width_def DEFAULT_CHAR_def)
  with h(1) h1 show ?thesis by (auto simp: printed_def)
qed

section \<open>A screen of one column\<close>

text \<open>
  A wide character does not fit on a screen of one column, and printing one panics: the code wraps
  the line to make room for it, and then writes its spacer beyond the only column of the next.
\<close>

theorem wide_character_panics_on_one_column:
  assumes "ready_to_print rows 1 i 0 h" and "not_wide (cell_at i 0 h)" and "not_wide (cell_at (i + 1) 0 h)"
    and "has_mode TM_LINE_WRAP h" and "i + 1 < rows" and "i + 1 < snd (h_scroll_region h)" and "char_width L c = Some 2"
  shows "input L c h = None"
proof -
  note r = assms(1) [unfolded ready_to_print_def]
  have s: "on_screen rows 1 h" using r by simp
  have cols: "handler_columns h = 1" using sized_grid_simps(2) [of rows 1 "h_grid h"] r by (simp add: handler_columns_def)
  have rows: "length (rows_now (h_grid h)) = rows" using sized_grid_simps(5) [of rows 1 "h_grid h"] r by simp
  obtain rs1 h1 where h1: "write_at_cursor DEFAULT_CHAR (insert_flags F_LEADING_WIDE_CHAR_SPACER) h = Some h1"
      "repainted rows 1 rs1 (told (EvictImagesAt (handler_cursor_point h)) h) h1" "rs1 ! (i + 1) = rows_now (h_grid h) ! (i + 1)"
    using write_plain [OF s, of SC_Ascii "insert_flags F_LEADING_WIDE_CHAR_SPACER" DEFAULT_CHAR] assms(2) r
    by (auto elim!: endsE)
  note d1 = repaintedD [OF h1(2)] and f1 = repainted_fields [OF h1(2)]
  have s1: "on_screen rows 1 h1" and pos1: "cursor_row h1 = i" "cursor_col h1 = 0"
    using d1(2) f1 r by (simp_all add: told_def cursor_row_def cursor_col_def the_cursor_def)
  obtain rs2 h2 where h2: "on_grid (cursor_cell (insert_flags F_WRAPLINE)) h1 = Some h2" "repainted rows 1 rs2 h1 h2"
      "rs2 ! (i + 1) = rows_now (h_grid h) ! (i + 1)"
    using cursor_cell_at [OF s1, of "insert_flags F_WRAPLINE"] d1(3) h1(3) pos1 by (auto elim!: endsE)
  note d2 = repaintedD [OF h2(2)] and f2 = repainted_fields [OF h2(2)]
  define h3 where "h3 = with_cursor (\<lambda>c. set_needs_wrap False (set_col (\<lambda>_. 0) c)) (with_cursor (set_row Suc) h2)"
  have "move_cursor_forward (set_row Suc) h2 = Some (with_cursor (set_row Suc) h2)"
    by (rule move_cursor_forward_eq) (auto simp: set_row_def less_eq_visible_point_def cmp_points_def)
  moreover have "has_mode TM_LINE_WRAP h1" using f1(4) assms(4) by (simp add: told_def has_mode_def)
  moreover have "\<not> cursor_row h2 + 1 \<ge> snd (h_scroll_region h2)"
    using f1(8) f2(1,8) pos1 assms(6) by (simp add: told_def)
  ultimately have wrapped: "wrapline h1 = Some h3" by (simp add: wrapline_def h2(1) h3_def)
  have s3: "sized_grid rows 1 (h_grid h3)" "rows_now (h_grid h3) = rs2" "cursor_row h3 = i + 1" "cursor_col h3 = 0"
    using d2(2,3) f2(1) pos1 by (simp_all add: h3_def with_cursor_grid cursor_row_def cursor_col_def)
  have on3: "on_screen rows 1 h3" using s3 assms(5) by simp
  have charset3: "charsets_index (cur_charsets (the_cursor h3)) (h_active_charset h3) = Some SC_Ascii"
    using r d1(4) d2(4) f1(5) f2(5)
    by (simp add: h3_def told_def the_cursor_def [of "told e h" for e] the_cursor_def [of "h\<lparr>h_effects := es\<rparr>" for es])
      (simp add: set_needs_wrap_def set_col_def set_row_def with_cursor_def the_cursor_def)
  have nw3: "not_wide (cell_at (cursor_row h3) (cursor_col h3) h3)" using assms(3) h2(3) s3 by simp
  obtain rs4 h4 where h4: "write_at_cursor c (insert_flags F_WIDE_CHAR) h3 = Some h4"
      "repainted rows 1 rs4 (told (EvictImagesAt (handler_cursor_point h3)) h3) h4"
    using write_plain [OF on3 nw3 charset3, of "insert_flags F_WIDE_CHAR" c] by (auto elim!: endsE)
  note d4 = repaintedD [OF h4(2)] and f4 = repainted_fields [OF h4(2)]
  define h5 where "h5 = with_cursor (set_col Suc) h4"
  have step: "move_cursor_forward (set_col Suc) h4 = Some h5"
    unfolding h5_def by (rule move_cursor_forward_eq) (auto simp: set_col_def less_eq_visible_point_def cmp_points_def)
  have "cursor_row h4 = i + 1" "cursor_col h4 = 0"
    using f4(1,2) s3 by (simp_all add: cursor_row_def cursor_col_def told_def the_cursor_def)
  then have s5: "sized_grid rows 1 (h_grid h5)" "cursor_row h5 = i + 1" "cursor_col h5 = 1"
    using d4(2) by (simp_all add: h5_def with_cursor_grid cursor_row_def cursor_col_def)
  have beyond: "grid_cell (i + 1) 1 (h_grid h5) = None"
  proof -
    note raw = sized_grid_raw_facts [OF s5(1)]
    have "storage_index (gs_raw (h_grid h5)) (i + 1) = Some (rows_now (h_grid h5) ! (i + 1))"
      using storage_index_eq [of "gs_raw (h_grid h5)" "i + 1"] raw assms(5) by (simp add: ring_full_def rows_now_def)
    moreover have "length (row_inner (rows_now (h_grid h5) ! (i + 1))) = 1"
      using sized_grid_row [OF s5(1) assms(5)] by (simp add: row_sized_def row_len_def)
    ultimately show ?thesis by (simp add: grid_cell_def nth_checked_def)
  qed
  have "cursor_point (h_grid h5) = Some (Point (i + 1) 1)"
    using sized_grid_simps(8) [OF s5(1)] s5(2,3) by (simp add: cursor_row_def cursor_col_def the_cursor_def)
  then have "write_at_cursor DEFAULT_CHAR (insert_flags F_WIDE_CHAR_SPACER) h5 = None"
    using beyond by (simp add: write_at_cursor_def told_def overwrite_wide_char_def)
  then have "write_wide_char c h3 = None" using h4(1) step by (simp add: write_wide_char_def)
  then show ?thesis
    using r assms(4,7) cols h1(1) wrapped by (simp add: input_def)
qed

theorem wide_character_panics_on_one_column_witness:
  "\<exists>h. handler_new True False 2 1 8 16 100 False False = Some h \<and> input sample_libraries 0x4E16 h = None"
proof -
  obtain h where h: "handler_new True False 2 1 8 16 100 False False = Some h" "ready_to_print 2 1 0 0 h"
      "rows_now (h_grid h) = replicate 2 (blank_row 1 (Named NC_Background))" "h_mode h = default_term_mode"
      "h_scroll_region h = (0, 2)"
    using ends_conj [OF new_handler [of 2 1 100 False True False 8 16] new_ready [of 2 1 True False 8 16 100 False]]
    by (auto elim!: endsE)
  have "has_mode TM_LINE_WRAP h"
    by (simp add: has_mode_def h(4) default_term_mode_def mode_contains_def term_mode_defs)
  then have "input sample_libraries 0x4E16 h = None"
    using h(5) fresh_cells(2) [OF h(3)]
    by (intro wide_character_panics_on_one_column [OF h(2)]) (simp_all add: sample_libraries_def sample_width_def)
  with h(1) show ?thesis by blast
qed

section \<open>Finishing a grid\<close>

text \<open>
  Finishing a grid forgets the last character of a full line: when a text ends in the last column,
  the cursor still stands on its last character, waiting to wrap, and the row is cut at the cursor's
  column. The character remains on the screen but is no longer counted, and once the row moves to the
  scrollback it is gone.
\<close>

theorem finish_forgets_last_character:
  assumes "length cs = cols" and "1 \<le> cols" and "cols < 2 ^ 16" and "list_all (\<lambda>c. c < 0x110000 \<and> c \<noteq> 0xA) cs"
  shows "\<exists>r fs. reset_trailing_cells (cols - 1) (text_row cols cs) = Some r \<and>
           row_inner r = row_inner (text_row cols cs) \<and>
           push_rows [r] (flat_new cols (Some 1)) = Some fs \<and>
           flat_holds cols [norm_row cols (text_row cols (butlast cs))] fs"
proof -
  let ?r = "(text_row cols cs)\<lparr>row_occ := cols - 1\<rparr>" and ?b = "text_row cols (butlast cs)"
  have len: "length (butlast cs) = cols - 1" using assms(1) by simp
  have reset: "reset_trailing_cells (cols - 1) (text_row cols cs) = Some ?r"
    using assms(1,2) by (simp add: reset_trailing_cells_def text_row_def)
  have cells: "take (cols - 1) (row_inner (text_row cols cs)) = take (cols - 1) (row_inner ?b)"
    using assms(1) len by (simp add: text_row_def butlast_conv_take take_map)
  have dims: "row_len ?r = cols" "row_len ?b = cols" "row_occ ?b = cols - 1"
    using assms(1,2) len by (simp_all add: row_len_def text_row_def)
  have soft: "\<not> row_soft cols ?r" "\<not> row_soft cols ?b"
    using assms(2) dims(3) by (auto simp: row_soft_def)
  have "list_all (\<lambda>c. c < 0x110000 \<and> c \<noteq> 0xA) (butlast cs)"
    using assms(4) by (auto simp: list_all_iff dest: in_set_butlastD)
  then have "row_storable cols ?b"
    using text_row_storable(1) [of "butlast cs" cols] len by simp
  then have "row_storable cols ?r"
    using cells dims unfolding row_storable_def by simp
  moreover have "norm_row cols ?r = norm_row cols ?b"
    using cells dims soft unfolding norm_row_def by simp
  ultimately obtain fs where "push_rows [?r] (flat_new cols (Some 1)) = Some fs" "flat_holds cols [norm_row cols ?b] fs"
    using push_rows_step [OF flat_new_holds, of cols "[?r]" "Some 1" 1] assms(2,3)
    by (auto simp: flat_new_def keep_last_def)
  with reset show ?thesis by auto
qed

theorem finish_forgets_last_character_witness:
  "\<exists>r fs. reset_trailing_cells (3 - 1) (text_row 3 [0x61, 0x62, 0x63]) = Some r \<and>
     row_inner r = row_inner (text_row 3 [0x61, 0x62, 0x63]) \<and>
     push_rows [r] (flat_new 3 (Some 1)) = Some fs \<and>
     flat_holds 3 [norm_row 3 (text_row 3 (butlast [0x61, 0x62, 0x63]))] fs"
  by (rule finish_forgets_last_character) simp_all

end
