(* ===== verification/Rust_Str.thy ===== *)
theory Rust_Str
  imports Flat_Content
begin

text \<open>
  What the decoders of terminal output use of Rust's strings: numbers in a radix, checking and
  repairing UTF-8, and trimming. A \<open>&str\<close> is the list of its characters and a \<open>&[u8]\<close> the list
  of its bytes; slicing a string by byte positions is \<open>get_bytes\<close>.
\<close>

section \<open>Numbers\<close>

fun to_digit :: "nat \<Rightarrow> uchar \<Rightarrow> nat option" where
  "to_digit radix c =
    (let d = (if ch CHR ''0'' \<le> c \<and> c \<le> ch CHR ''9'' then c - ch CHR ''0''
              else if ch CHR ''a'' \<le> c \<and> c \<le> ch CHR ''z'' then c - ch CHR ''a'' + 10
              else if ch CHR ''A'' \<le> c \<and> c \<le> ch CHR ''Z'' then c - ch CHR ''A'' + 10 else radix)
     in if d < radix then Some d else None)"

declare to_digit.simps [simp del]

text \<open>Digits accumulated with a check that the value stays below \<open>bound\<close>.\<close>

fun parse_digits :: "nat \<Rightarrow> nat \<Rightarrow> nat \<Rightarrow> uchar list \<Rightarrow> nat option" where
  "parse_digits bound radix n [] = Some n"
| "parse_digits bound radix n (c # cs) =
    (case to_digit radix c of
       None \<Rightarrow> None
     | Some d \<Rightarrow> if n * radix + d < bound then parse_digits bound radix (n * radix + d) cs else None)"

text \<open>\<open>from_str_radix\<close> of an unsigned type: one leading plus sign is skipped.\<close>

definition from_str_radix :: "nat \<Rightarrow> nat \<Rightarrow> uchar list \<Rightarrow> nat option" where
  "from_str_radix bound radix s =
    (case s of
       [] \<Rightarrow> None
     | c # cs \<Rightarrow>
        if c = ch CHR ''+'' then (if cs = [] then None else parse_digits bound radix 0 cs)
        else parse_digits bound radix 0 s)"

definition U8_END :: nat where "U8_END = 2 ^ 8"
definition U32_END :: nat where "U32_END = 2 ^ 32"
definition U64_END :: nat where "U64_END = 2 ^ 64"

definition char_from_u32 :: "nat \<Rightarrow> uchar option" where
  "char_from_u32 n = (if n < 0xD800 \<or> (0xE000 \<le> n \<and> n < 0x110000) then Some n else None)"

section \<open>Slices of strings\<close>

text \<open>
  \<open>s.get(i..i + n)\<close> where \<open>s\<close> is the rest of the string from \<open>i\<close> on: it needs \<open>n\<close> bytes that end
  at the end of a character.
\<close>

fun get_bytes :: "nat \<Rightarrow> uchar list \<Rightarrow> uchar list option" where
  "get_bytes n s =
    (if n = 0 then Some []
     else case s of
       [] \<Rightarrow> None
     | c # cs \<Rightarrow> if len_utf8 c \<le> n then map_option ((#) c) (get_bytes (n - len_utf8 c) cs) else None)"

declare get_bytes.simps [simp del]

section \<open>UTF-8\<close>

definition continuation :: "byte \<Rightarrow> bool" where
  "continuation b \<longleftrightarrow> 0x80 \<le> b \<and> b < 0xC0"

definition second_of_three :: "byte \<Rightarrow> byte \<Rightarrow> bool" where
  "second_of_three a b \<longleftrightarrow>
    (if a = 0xE0 then 0xA0 \<le> b \<and> b < 0xC0
     else if a = 0xED then 0x80 \<le> b \<and> b < 0xA0 else continuation b)"

definition second_of_four :: "byte \<Rightarrow> byte \<Rightarrow> bool" where
  "second_of_four a b \<longleftrightarrow>
    (if a = 0xF0 then 0x90 \<le> b \<and> b < 0xC0
     else if a = 0xF4 then 0x80 \<le> b \<and> b < 0x90 else continuation b)"

text \<open>The first character of the bytes, or none, and how many bytes it or the broken start takes.\<close>

definition utf8_next :: "byte \<Rightarrow> byte list \<Rightarrow> uchar option \<times> nat" where
  "utf8_next a bs =
    (if a < 0x80 then (Some a, 1)
     else if 0xC2 \<le> a \<and> a < 0xE0 then
       (case bs of
          b # _ \<Rightarrow> if continuation b then (Some ((a - 0xC0) * 0x40 + (b - 0x80)), 2) else (None, 1)
        | [] \<Rightarrow> (None, 1))
     else if 0xE0 \<le> a \<and> a < 0xF0 then
       (case bs of
          b # bs' \<Rightarrow>
            if second_of_three a b then
              (case bs' of
                 c # _ \<Rightarrow>
                   if continuation c
                   then (Some ((a - 0xE0) * 0x1000 + (b - 0x80) * 0x40 + (c - 0x80)), 3) else (None, 2)
               | [] \<Rightarrow> (None, 2))
            else (None, 1)
        | [] \<Rightarrow> (None, 1))
     else if 0xF0 \<le> a \<and> a < 0xF5 then
       (case bs of
          b # bs' \<Rightarrow>
            if second_of_four a b then
              (case bs' of
                 c # bs'' \<Rightarrow>
                   if continuation c then
                     (case bs'' of
                        d # _ \<Rightarrow>
                          if continuation d
                          then (Some ((a - 0xF0) * 0x40000 + (b - 0x80) * 0x1000 + (c - 0x80) * 0x40 +
                                  (d - 0x80)), 4)
                          else (None, 3)
                      | [] \<Rightarrow> (None, 3))
                   else (None, 2)
               | [] \<Rightarrow> (None, 2))
            else (None, 1)
        | [] \<Rightarrow> (None, 1))
     else (None, 1))"

lemma utf8_next_positive: "utf8_next a bs = (c, n) \<Longrightarrow> 0 < n"
  by (auto simp: utf8_next_def split: if_splits list.splits)

text \<open>\<open>str::from_utf8\<close> and \<open>String::from_utf8_lossy\<close>.\<close>

function from_utf8 :: "byte list \<Rightarrow> uchar list option" where
  "from_utf8 [] = Some []"
| "from_utf8 (a # bs) =
    (case utf8_next a bs of
       (None, _) \<Rightarrow> None
     | (Some c, n) \<Rightarrow> map_option ((#) c) (from_utf8 (drop (n - 1) bs)))"
  by pat_completeness auto
termination
  by (relation "measure length") auto

function from_utf8_lossy :: "byte list \<Rightarrow> uchar list" where
  "from_utf8_lossy [] = []"
| "from_utf8_lossy (a # bs) =
    (case utf8_next a bs of
       (None, n) \<Rightarrow> 0xFFFD # from_utf8_lossy (drop (n - 1) bs)
     | (Some c, n) \<Rightarrow> c # from_utf8_lossy (drop (n - 1) bs))"
  by pat_completeness auto
termination
  by (relation "measure length") auto

section \<open>Trimming\<close>

definition is_whitespace :: "uchar \<Rightarrow> bool" where
  "is_whitespace c \<longleftrightarrow>
    (9 \<le> c \<and> c \<le> 13) \<or> (0x2000 \<le> c \<and> c \<le> 0x200A) \<or>
    c \<in> set [0x20, 0x85, 0xA0, 0x1680, 0x2028, 0x2029, 0x202F, 0x205F, 0x3000]"

definition trim_start :: "uchar list \<Rightarrow> uchar list" where
  "trim_start = dropWhile is_whitespace"

definition trim_end_matches :: "(uchar \<Rightarrow> bool) \<Rightarrow> uchar list \<Rightarrow> uchar list" where
  "trim_end_matches p s = rev (dropWhile p (rev s))"

definition trim :: "uchar list \<Rightarrow> uchar list" where
  "trim s = trim_end_matches is_whitespace (trim_start s)"

definition starts_with :: "'a list \<Rightarrow> 'a list \<Rightarrow> bool" where
  "starts_with prefix s \<longleftrightarrow> take (length prefix) s = prefix"

definition ends_with :: "'a list \<Rightarrow> 'a list \<Rightarrow> bool" where
  "ends_with suffix s \<longleftrightarrow> length suffix \<le> length s \<and> drop (length s - length suffix) s = suffix"

text \<open>Pieces joined by a separator, and a text cut at a separator.\<close>

fun join :: "'a list \<Rightarrow> 'a list list \<Rightarrow> 'a list" where
  "join sep [] = []"
| "join sep [s] = s"
| "join sep (s # t # ts) = s @ sep @ join sep (t # ts)"

fun split_at :: "'a \<Rightarrow> 'a list \<Rightarrow> 'a list list" where
  "split_at sep [] = [[]]"
| "split_at sep (c # cs) =
    (if c = sep then [] # split_at sep cs
     else case split_at sep cs of p # ps \<Rightarrow> (c # p) # ps | [] \<Rightarrow> [[c]])"

section \<open>Facts\<close>

lemma split_at_not_Nil [simp]: "split_at sep s \<noteq> []"
  by (induction s) (auto split: list.splits)

lemma length_split_at: "length (split_at sep s) = Suc (count_list s sep)"
  by (induction s) (auto split: list.splits)

lemma join_split_at: "join [sep] (split_at sep s) = s"
proof (induction s)
  case (Cons c s)
  obtain p ps where p: "split_at sep s = p # ps" by (cases "split_at sep s") auto
  with Cons show ?case by (cases ps) auto
qed simp

lemma parse_digits_lt: "parse_digits bound radix n s = Some m \<Longrightarrow> n < bound \<Longrightarrow> m < bound"
  by (induction s arbitrary: n) (auto split: option.splits if_splits)

lemma from_str_radix_lt:
  assumes "from_str_radix bound radix s = Some m" and "0 < bound"
  shows "m < bound"
  using assms parse_digits_lt [of bound radix 0 _ m]
  by (auto simp: from_str_radix_def simp del: parse_digits.simps split: list.splits if_splits)

text \<open>The value of a digit string, most significant digit first.\<close>

lemma parse_digits_bound:
  "parse_digits bound radix n s = Some m \<Longrightarrow> m < (n + 1) * radix ^ length s"
proof (induction s arbitrary: n)
  case (Cons c s)
  then obtain d where d: "to_digit radix c = Some d"
      "parse_digits bound radix (n * radix + d) s = Some m"
    by (auto split: option.splits if_splits)
  then have "d < radix" by (auto simp: to_digit.simps Let_def split: if_splits)
  have "m < (n * radix + d + 1) * radix ^ length s" using Cons.IH [OF d(2)] .
  also have "\<dots> \<le> ((n + 1) * radix) * radix ^ length s"
    using \<open>d < radix\<close> by (intro mult_le_mono1) simp
  finally show ?case by (simp add: algebra_simps)
qed simp

lemma from_str_radix_bound:
  assumes "from_str_radix bound radix s = Some m" and "0 < radix"
  shows "m < radix ^ length s"
proof -
  obtain c cs where s: "s = c # cs" using assms by (cases s) (auto simp: from_str_radix_def)
  show ?thesis
  proof (cases "c = ch CHR ''+''")
    case True
    then have "m < radix ^ length cs"
      using assms s parse_digits_bound [of bound radix 0 cs m] by (auto simp: from_str_radix_def split: if_splits)
    also have "\<dots> \<le> radix ^ length s" using s assms(2) by (intro power_increasing) auto
    finally show ?thesis .
  next
    case False
    then show ?thesis
      using assms s parse_digits_bound [of bound radix 0 s m] by (auto simp: from_str_radix_def)
  qed
qed

end
