(* ===== verification/Ansi_C_Decoder.thy ===== *)
theory Ansi_C_Decoder
  imports Rust_Str
begin

text \<open>
  The decoder of ANSI-C quoted shell output, \<^verbatim>\<open>app/src/terminal/model/ansi/ansi_c_decoder.rs\<close>.
  The iterator over the characters is the list of those it has left; \<open>nth(k)\<close> drops \<open>k + 1\<close> of them.
\<close>

section \<open>The decoder\<close>

definition is_ansi_c_quoted :: "uchar list \<Rightarrow> bool" where
  "is_ansi_c_quoted s \<longleftrightarrow> starts_with (chars [CHR ''$'', CHR 0x27]) s \<and> ends_with [0x27] s"

text \<open>The escapes of two characters.\<close>

definition two_character_escapes :: "(uchar \<times> uchar) list" where
  "two_character_escapes =
    [(ch CHR ''a'', 0x07), (ch CHR ''b'', 0x08), (ch CHR ''E'', 0x1B), (ch CHR ''e'', 0x1B),
     (ch CHR ''f'', 0x0C), (ch CHR ''n'', 0x0A), (ch CHR ''r'', 0x0D), (ch CHR ''t'', 0x09),
     (ch CHR ''v'', 0x0B), (0x5C, 0x5C), (0x27, 0x27), (0x22, 0x22), (ch CHR ''?'', ch CHR ''?'')]"

definition option_list :: "'a option \<Rightarrow> 'a list" where
  "option_list x = (case x of None \<Rightarrow> [] | Some y \<Rightarrow> [y])"

definition hex_escape :: "uchar list \<Rightarrow> uchar list" where
  "hex_escape hex = option_list (from_str_radix U8_END 16 hex)"

definition unicode_escape :: "uchar list \<Rightarrow> uchar list" where
  "unicode_escape hex = option_list (Option.bind (from_str_radix U32_END 16 hex) char_from_u32)"

definition octal_escape :: "uchar list \<Rightarrow> uchar list" where
  "octal_escape digits = option_list (Option.bind (from_str_radix U32_END 8 digits) char_from_u32)"

definition control_escape :: "uchar \<Rightarrow> uchar list" where
  "control_escape c = (if (0x40 \<le> c \<and> c \<le> 0x5F) \<or> c = 0x7F then [c - 64] else [])"

definition invisible_range :: "uchar list \<Rightarrow> bool" where
  "invisible_range s \<longleftrightarrow>
     get_bytes 4 s = Some (0x5C # chars ''001'') \<or> get_bytes 4 s = Some (0x5C # chars ''002'')"

text \<open>An escape that is longer than two characters: what it appends and what is left to read.\<close>

definition long_escape :: "uchar \<Rightarrow> uchar list \<Rightarrow> uchar list \<times> uchar list" where
  "long_escape c cs =
    (if c = ch CHR ''x'' then
       (case get_bytes 2 cs of None \<Rightarrow> ([], cs) | Some hex \<Rightarrow> (hex_escape hex, drop 2 cs))
     else if c = ch CHR ''u'' then
       (case get_bytes 4 cs of None \<Rightarrow> ([], cs) | Some hex \<Rightarrow> (unicode_escape hex, drop 4 cs))
     else if c = ch CHR ''U'' then
       (case get_bytes 8 cs of None \<Rightarrow> ([], cs) | Some hex \<Rightarrow> (unicode_escape hex, drop 8 cs))
     else if c = ch CHR ''c'' then
       (case cs of [] \<Rightarrow> ([], []) | d # ds \<Rightarrow> (control_escape d, ds))
     else
       (case get_bytes 3 (c # cs) of
          None \<Rightarrow> ([], drop 2 cs)
        | Some digits \<Rightarrow> (octal_escape digits, drop 2 cs)))"

lemma length_long_escape: "long_escape c cs = (out, rest) \<Longrightarrow> length rest \<le> length cs"
  by (auto simp: long_escape_def split: if_splits option.splits list.splits)

function unescape :: "uchar list \<Rightarrow> uchar list" where
  "unescape [] = []"
| "unescape (c # cs) =
    (if c \<noteq> 0x5C then c # unescape cs
     else if invisible_range (c # cs) then unescape (drop 3 cs)
     else case cs of
       [] \<Rightarrow> []
     | d # ds \<Rightarrow>
        (case map_of two_character_escapes d of
           Some e \<Rightarrow> e # unescape ds
         | None \<Rightarrow> (case long_escape d ds of (out, rest) \<Rightarrow> out @ unescape rest)))"
  by pat_completeness auto
termination
  by (relation "measure length") (auto dest!: length_long_escape [OF sym])

declare unescape.simps(2) [simp del]

definition parse_ansi_c_quoted_string :: "uchar list \<Rightarrow> uchar list" where
  "parse_ansi_c_quoted_string s =
    (if trim s = [] then s
     else if \<not> starts_with (chars [CHR ''$'', CHR 0x27]) s then s
     else let body = drop 2 s in
       if \<not> ends_with [0x27] body then s
       else unescape (take (length body - 1) body))"

section \<open>Every spelling of a character is read\<close>

text \<open>A number in \<open>n\<close> digits, with the lower-case letters as digits above 9.\<close>

definition digit :: "nat \<Rightarrow> uchar" where
  "digit d = (if d < 10 then ch CHR ''0'' + d else ch CHR ''a'' + (d - 10))"

fun digits :: "nat \<Rightarrow> nat \<Rightarrow> nat \<Rightarrow> uchar list" where
  "digits radix 0 v = []"
| "digits radix (Suc n) v = digits radix n (v div radix) @ [digit (v mod radix)]"

lemma length_digits [simp]: "length (digits radix n v) = n"
  by (induction n arbitrary: v) auto

lemma digit_ascii: "d < 16 \<Longrightarrow> 0x30 \<le> digit d \<and> digit d < 0x80 \<and> digit d \<noteq> 0x5C"
  by (auto simp: digit_def ch_def)

lemma digits_ascii: "radix \<le> 16 \<Longrightarrow> 0 < radix \<Longrightarrow> c \<in> set (digits radix n v) \<Longrightarrow> 0x30 \<le> c \<and> c < 0x80"
proof (induction n arbitrary: v)
  case (Suc n)
  have "v mod radix < radix" using Suc.prems by simp
  then have "v mod radix < 16" using Suc.prems(1) by linarith
  with Suc show ?case using digit_ascii [of "v mod radix"] by auto
qed simp

lemma to_digit_digit: "d < radix \<Longrightarrow> radix \<le> 16 \<Longrightarrow> to_digit radix (digit d) = Some d"
  by (auto simp: to_digit.simps digit_def ch_def Let_def)

lemma parse_digits_append:
  "parse_digits bound radix n (s @ t) =
     Option.bind (parse_digits bound radix n s) (\<lambda>m. parse_digits bound radix m t)"
  by (induction s arbitrary: n) (auto split: option.splits)

lemma parse_digits_digits:
  assumes "0 < radix" "radix \<le> 16" "v < radix ^ n" "v < bound"
  shows "parse_digits bound radix 0 (digits radix n v) = Some v"
  using assms(3,4)
proof (induction n arbitrary: v)
  case (Suc n)
  have "v div radix < radix ^ n"
    using Suc.prems(1) by (simp add: less_mult_imp_div_less mult.commute)
  moreover have "v div radix < bound" using Suc.prems(2) by (meson div_le_dividend le_less_trans)
  ultimately have "parse_digits bound radix 0 (digits radix n (v div radix)) = Some (v div radix)"
    by (rule Suc.IH)
  moreover have "v mod radix < radix" using assms(1) by simp
  ultimately show ?case
    using Suc.prems(2) assms(2) by (simp add: parse_digits_append to_digit_digit)
qed simp

lemma digits_inj:
  assumes "0 < radix" "radix \<le> 16" "v < radix ^ n" "w < radix ^ n"
    and "digits radix n v = digits radix n w"
  shows "v = w"
  using parse_digits_digits [OF assms(1-3), of "max v w + 1"]
    parse_digits_digits [OF assms(1,2,4), of "max v w + 1"] assms(5)
  by simp

lemma from_str_radix_digits:
  assumes "0 < radix" "radix \<le> 16" "v < radix ^ n" "v < bound" "0 < n"
  shows "from_str_radix bound radix (digits radix n v) = Some v"
proof -
  obtain c cs where c: "digits radix n v = c # cs"
    using assms(5) length_digits [of radix n v] by (cases "digits radix n v") auto
  then have "0x30 \<le> c" using digits_ascii [OF assms(2,1), of c n v] by simp
  then have "c \<noteq> ch CHR ''+''" by (simp add: ch_def)
  with c parse_digits_digits [OF assms(1-4)] show ?thesis
    by (simp add: from_str_radix_def)
qed

lemma get_bytes_ascii:
  "\<forall>c \<in> set s. c < 0x80 \<Longrightarrow> get_bytes (length s) (s @ t) = Some s"
  by (induction s) (simp_all add: get_bytes.simps len_utf8_def)

text \<open>A number in exactly \<open>n\<close> digits, letters among them in either case.\<close>

definition spelled_number :: "nat \<Rightarrow> nat \<Rightarrow> uchar list \<Rightarrow> nat \<Rightarrow> bool" where
  "spelled_number radix n ds v \<longleftrightarrow>
     length ds = n \<and> list_all (\<lambda>d. to_digit radix d \<noteq> None) ds \<and>
     v = foldl (\<lambda>m d. m * radix + the (to_digit radix d)) 0 ds"

lemma to_digit_ascii: "to_digit radix c \<noteq> None \<Longrightarrow> 0x30 \<le> c \<and> c < 0x80"
  by (auto simp: to_digit.simps ch_def Let_def split: if_splits)

lemma parse_spelled:
  assumes "1 \<le> radix" and "list_all (\<lambda>d. to_digit radix d \<noteq> None) ds"
    and "foldl (\<lambda>m d. m * radix + the (to_digit radix d)) m ds < bound"
  shows "m < bound \<and> parse_digits bound radix m ds = Some (foldl (\<lambda>m d. m * radix + the (to_digit radix d)) m ds)"
  using assms(2,3)
proof (induction ds arbitrary: m)
  case (Cons d ds)
  then obtain e where e: "to_digit radix d = Some e" by auto
  with Cons have IH: "m * radix + e < bound" "parse_digits bound radix (m * radix + e) ds =
      Some (foldl (\<lambda>m d. m * radix + the (to_digit radix d)) (m * radix + e) ds)" by auto
  moreover have "m \<le> m * radix" using assms(1) by simp
  then have "m < bound" using IH(1) by linarith
  ultimately show ?case using e by simp
qed simp

lemma from_str_spelled:
  assumes "spelled_number radix n ds v" and "1 \<le> radix" and "0 < n" and "v < bound"
  shows "from_str_radix bound radix ds = Some v"
proof -
  obtain c cs where c: "ds = c # cs" using assms(1,3) by (cases ds) (auto simp: spelled_number_def)
  then have "to_digit radix c \<noteq> None" using assms(1) by (auto simp: spelled_number_def)
  then have "c \<noteq> ch CHR ''+''" using to_digit_ascii [of radix c] by (auto simp: ch_def)
  with c assms parse_spelled [of radix ds 0 bound] show ?thesis
    by (simp add: from_str_radix_def spelled_number_def)
qed

text \<open>
  The spellings the decoder reads, with what they stand for: a character itself, the escapes of two
  characters, two hexadecimal digits, four or eight for a Unicode character, a control character, three
  octal digits, and the marks of an invisible range for nothing. The comments of the decoder, and the shells, also
  allow for fewer digits: see \<open>short_escapes_lost\<close>.
\<close>

inductive spells :: "uchar list \<Rightarrow> uchar list \<Rightarrow> bool" where
  itself: "c \<noteq> 0x5C \<Longrightarrow> spells [c] [c]"
| escape: "map_of two_character_escapes d = Some c \<Longrightarrow> spells [c] [0x5C, d]"
| hex: "spelled_number 16 2 ds c \<Longrightarrow> c < 0x100 \<Longrightarrow> spells [c] (0x5C # ch CHR ''x'' # ds)"
| unicode: "spelled_number 16 4 ds c \<Longrightarrow> char_from_u32 c \<noteq> None \<Longrightarrow> spells [c] (0x5C # ch CHR ''u'' # ds)"
| unicode_long: "spelled_number 16 8 ds c \<Longrightarrow> char_from_u32 c \<noteq> None \<Longrightarrow> spells [c] (0x5C # ch CHR ''U'' # ds)"
| control: "c < 0x20 \<Longrightarrow> spells [c] [0x5C, ch CHR ''c'', c + 0x40]"
| octal: "c < 0x200 \<Longrightarrow> c \<noteq> 1 \<Longrightarrow> c \<noteq> 2 \<Longrightarrow> spells [c] (0x5C # digits 8 3 c)"
| invisible: "c = 1 \<or> c = 2 \<Longrightarrow> spells [] (0x5C # digits 8 3 c)"

lemma char_from_u32_Some: "char_from_u32 c \<noteq> None \<Longrightarrow> char_from_u32 c = Some c \<and> c < 0x110000"
  by (auto simp: char_from_u32_def split: if_splits)

lemma not_invisible:
  assumes "d \<noteq> ch CHR ''0''"
  shows "\<not> invisible_range (0x5C # d # ds)"
  using assms
  by (auto simp: invisible_range_def chars_def get_bytes.simps [of 4] get_bytes.simps [of 3] len_utf8_def
      split: if_splits option.splits)

lemma unescape_letter:
  assumes "d \<noteq> ch CHR ''0''" and "map_of two_character_escapes d = None"
    and "long_escape d ds = (out, rest)"
  shows "unescape (0x5C # d # ds) = out @ unescape rest"
  using assms not_invisible [OF assms(1), of ds] by (simp add: unescape.simps)

lemma unescape_digits:
  assumes "d = ch CHR ''x'' \<and> n = 2 \<and> out = hex_escape \<or>
      d = ch CHR ''u'' \<and> n = 4 \<and> out = unicode_escape \<or> d = ch CHR ''U'' \<and> n = 8 \<and> out = unicode_escape"
    and "length ds = n" and "\<forall>c \<in> set ds. c < 0x80"
  shows "unescape (0x5C # d # ds @ t) = out ds @ unescape t"
proof (rule unescape_letter)
  have "get_bytes n (ds @ t) = Some ds" using get_bytes_ascii [of ds t] assms(2,3) by simp
  then show "long_escape d (ds @ t) = (out ds, t)"
    using assms(1,2) by (auto simp: long_escape_def)
qed (use assms(1) in \<open>auto simp: two_character_escapes_def ch_def\<close>)

lemma spelled_ascii: "spelled_number radix n ds v \<Longrightarrow> length ds = n \<and> (\<forall>c \<in> set ds. c < 0x80)"
  unfolding spelled_number_def list_all_iff using to_digit_ascii [of radix] by blast

lemma octal_digits: "digits 8 3 c = [digit (c div 64 mod 8), digit (c div 8 mod 8), digit (c mod 8)]"
proof -
  have "digits 8 (Suc (Suc (Suc 0))) c =
      [] @ [digit (c div 8 div 8 mod 8)] @ [digit (c div 8 mod 8)] @ [digit (c mod 8)]"
    by (simp only: digits.simps append_assoc)
  moreover have "c div 8 div 8 = c div 64" by (rule div_mult2_eq [of c 8 8, simplified, symmetric])
  ultimately show ?thesis by (simp only: numeral_3_eq_3 append.simps)
qed

lemma invisible_range_octal:
  assumes "c < 0x200"
  shows "invisible_range (0x5C # digits 8 3 c @ t) \<longleftrightarrow> c = 1 \<or> c = 2"
proof -
  let ?w = "0x5C # digits 8 3 c"
  have "get_bytes 4 (?w @ t) = Some ?w"
    using get_bytes_ascii [of ?w t] digits_ascii [of 8 _ 3 c] by auto
  then have "invisible_range (?w @ t) \<longleftrightarrow> digits 8 3 c = chars ''001'' \<or> digits 8 3 c = chars ''002''"
    by (simp add: invisible_range_def)
  moreover have "chars ''001'' = digits 8 3 1" "chars ''002'' = digits 8 3 2"
    by (simp_all add: octal_digits digit_def chars_def ch_def)
  moreover have "digits 8 3 c = digits 8 3 v \<longleftrightarrow> c = v" if "v < 0x200" for v
    using digits_inj [of 8 c 3 v] that assms by auto
  ultimately show ?thesis by simp
qed

lemma unescape_spelling:
  assumes "spells out w"
  shows "unescape (w @ t) = out @ unescape t"
  using assms
proof cases
  case (itself c)
  then show ?thesis by (simp add: unescape.simps)
next
  case (escape d c)
  moreover from this have "d \<noteq> ch CHR ''0''" by (auto simp: two_character_escapes_def ch_def)
  ultimately show ?thesis using not_invisible [of d t] by (simp add: unescape.simps)
next
  case (hex ds c)
  then have "hex_escape ds = [c]"
    by (simp add: hex_escape_def from_str_spelled U8_END_def option_list_def)
  with hex spelled_ascii show ?thesis using unescape_digits [of "ch CHR ''x''" 2 hex_escape ds t] by auto
next
  case (unicode ds c)
  then have "unicode_escape ds = [c]"
    using char_from_u32_Some [of c]
    by (simp add: unicode_escape_def from_str_spelled U32_END_def option_list_def)
  with unicode spelled_ascii show ?thesis using unescape_digits [of "ch CHR ''u''" 4 unicode_escape ds t] by auto
next
  case (unicode_long ds c)
  then have "unicode_escape ds = [c]"
    using char_from_u32_Some [of c]
    by (simp add: unicode_escape_def from_str_spelled U32_END_def option_list_def)
  with unicode_long spelled_ascii show ?thesis using unescape_digits [of "ch CHR ''U''" 8 unicode_escape ds t] by auto
next
  case (control c)
  have "unescape (0x5C # ch CHR ''c'' # (c + 0x40) # t) = [c] @ unescape t"
    using control
    by (intro unescape_letter)
      (auto simp: long_escape_def control_escape_def two_character_escapes_def ch_def)
  with control show ?thesis by simp
next
  case (octal c)
  let ?d = "digit (c div 64 mod 8)"
  have w: "w @ t = 0x5C # ?d # digit (c div 8 mod 8) # digit (c mod 8) # t"
    using octal by (simp add: octal_digits)
  have d: "?d < ch CHR ''0'' + 8" "ch CHR ''0'' \<le> ?d" by (simp_all add: digit_def ch_def)
  have "get_bytes 3 (digits 8 3 c @ t) = Some (digits 8 3 c)"
    using get_bytes_ascii [of "digits 8 3 c" t] digits_ascii [of 8 _ 3 c] by auto
  moreover have "octal_escape (digits 8 3 c) = [c]"
    using octal by (simp add: octal_escape_def from_str_radix_digits U32_END_def option_list_def char_from_u32_def)
  ultimately have "long_escape ?d (digit (c div 8 mod 8) # digit (c mod 8) # t) = ([c], t)"
    using d by (simp add: long_escape_def octal_digits ch_def)
  moreover have "map_of two_character_escapes ?d = None"
    using d by (simp add: two_character_escapes_def ch_def)
  moreover have "\<not> invisible_range (w @ t)"
    using octal invisible_range_octal [of c t] by simp
  ultimately show ?thesis using w octal by (simp add: unescape.simps)
next
  case (invisible c)
  then have "invisible_range (w @ t)" using invisible_range_octal [of c t] by auto
  with invisible show ?thesis by (simp add: unescape.simps octal_digits)
qed

lemma unescape_spellings:
  "list_all2 spells outs ws \<Longrightarrow> unescape (concat ws) = concat outs"
  by (induction rule: list_all2_induct) (simp_all add: unescape_spelling)

lemma parse_quoted:
  "parse_ansi_c_quoted_string (ch CHR ''$'' # 0x27 # body @ [0x27]) = unescape body"
  by (simp add: parse_ansi_c_quoted_string_def starts_with_def ends_with_def chars_def ch_def
      trim_def trim_start_def trim_end_matches_def is_whitespace_def)

text \<open>
  C7. A quoted text is read back: when every character is written as itself, as an escape of two characters, with exactly
  two, four or eight hexadecimal digits in either case after \<open>x\<close>, \<open>u\<close> or \<open>U\<close>, as a control
  character, or with exactly three octal digits, then the decoder returns the characters, without the marks
  of invisible ranges. Escapes of fewer digits, which the comments also name, are not among these.
\<close>

theorem quoted_text_roundtrip:
  assumes "list_all2 spells outs ws"
  shows "parse_ansi_c_quoted_string (ch CHR ''$'' # 0x27 # concat ws @ [0x27]) = concat outs"
  using assms by (simp add: parse_quoted unescape_spellings)

theorem quoted_text_roundtrip_witness:
  "parse_ansi_c_quoted_string
     (ch CHR ''$'' # 0x27 # concat [0x5C # digits 8 3 1, [0x5C, ch CHR ''E''], [0x4F60],
        0x5C # ch CHR ''u'' # chars ''597D'', 0x5C # ch CHR ''x'' # chars ''4a''] @ [0x27]) = [0x1B, 0x4F60, 0x597D, 0x4A]"
proof -
  have n: "spelled_number 16 4 (chars ''597D'') 0x597D" "spelled_number 16 2 (chars ''4a'') 0x4A"
    by (simp_all add: spelled_number_def chars_def ch_def to_digit.simps Let_def)
  have "list_all2 spells [[], [0x1B], [0x4F60], [0x597D], [0x4A]]
      [0x5C # digits 8 3 1, [0x5C, ch CHR ''E''], [0x4F60], 0x5C # ch CHR ''u'' # chars ''597D'',
       0x5C # ch CHR ''x'' # chars ''4a'']"
    by (auto intro!: spells.intros n simp: two_character_escapes_def char_from_u32_def)
  from quoted_text_roundtrip [OF this] show ?thesis by simp
qed

text \<open>
  A hexadecimal escape of one digit and an octal escape of fewer than three, which the comments document and shells write,
  are lost together with the characters after them: the decoder takes the full number of characters, and drops
  them all when they do not make a number.
\<close>

theorem short_escapes_lost:
  assumes "h < 0x80" "c < 0x80" "to_digit 16 h \<noteq> None" "to_digit 16 c = None"
    and "to_digit 8 d \<noteq> None" "e < 0x80" "f < 0x80" "to_digit 8 e = None \<or> to_digit 8 f = None"
  shows "unescape (0x5C # ch CHR ''x'' # h # c # t) = unescape t \<and> unescape (0x5C # d # e # f # t) = unescape t"
proof
  have "h \<noteq> ch CHR ''+''" using to_digit_ascii [OF assms(3)] by (auto simp: ch_def)
  then have "hex_escape [h, c] = []"
    using assms(4) by (simp add: hex_escape_def from_str_radix_def option_list_def split: option.split)
  then show "unescape (0x5C # ch CHR ''x'' # h # c # t) = unescape t"
    using unescape_digits [of "ch CHR ''x''" 2 hex_escape "[h, c]" t] assms(1,2) by simp
next
  have d: "ch CHR ''0'' \<le> d" "d \<le> ch CHR ''7''" "d < 0x80"
    using assms(5) by (auto simp: to_digit.simps ch_def Let_def split: if_splits)
  then have "d \<noteq> ch CHR ''+''" by (auto simp: ch_def)
  then have lost: "octal_escape [d, e, f] = []"
    using assms(8) by (auto simp: octal_escape_def from_str_radix_def option_list_def split: option.split)
  have get: "get_bytes 3 (d # e # f # t) = Some [d, e, f]"
    using get_bytes_ascii [of "[d, e, f]" t] d(3) assms(6,7) by (simp add: numeral_3_eq_3)
  have "get_bytes 4 (0x5C # d # e # f # t) = Some [0x5C, d, e, f]"
    using get_bytes_ascii [of "[0x5C, d, e, f]" t] d(3) assms(6,7) by (simp add: eval_nat_numeral)
  moreover have "to_digit 8 (ch CHR ''0'') \<noteq> None" "to_digit 8 (ch CHR ''1'') \<noteq> None" "to_digit 8 (ch CHR ''2'') \<noteq> None"
    by (simp_all add: to_digit.simps ch_def Let_def)
  ultimately have "\<not> invisible_range (0x5C # d # e # f # t)"
    using assms(8) by (auto simp: invisible_range_def chars_def)
  moreover have "long_escape d (e # f # t) = ([], t)"
    using d get lost by (auto simp: long_escape_def ch_def)
  moreover have "map_of two_character_escapes d = None"
    using d by (simp add: two_character_escapes_def ch_def)
  ultimately show "unescape (0x5C # d # e # f # t) = unescape t" by (simp add: unescape.simps)
qed

theorem short_escapes_lost_witness:
  "unescape (0x5C # ch CHR ''x'' # 0x37 # 0x20 # [0x41]) = unescape [0x41] \<and>
   unescape (0x5C # 0x37 # 0x20 # 0x42 # [0x41]) = unescape [0x41]"
  by (rule short_escapes_lost) (simp_all add: to_digit.simps ch_def Let_def)

text \<open>
  Bytes that are escaped one by one are not put together: the two bytes of a character in UTF-8,
  as a shell writes it where the locale does not print it, are read as two characters.
\<close>

theorem escaped_bytes_stay_apart:
  assumes "0x80 \<le> c" and "c < 0x800"
  shows "parse_ansi_c_quoted_string
      (ch CHR ''$'' # 0x27 # concat (map (\<lambda>b. 0x5C # digits 8 3 b) (encode_utf8 c)) @ [0x27])
    = encode_utf8 c \<and> encode_utf8 c \<noteq> [c]"
proof -
  have "c div 0x40 < 0x20" using assms by (intro less_mult_imp_div_less) simp
  then have b: "encode_utf8 c = [0xC0 + c div 0x40, 0x80 + c mod 0x40]"
      "0xC0 + c div 0x40 < 0x200" "0x80 + c mod 0x40 < 0x200"
    using assms by (simp_all add: encode_utf8_def)
  have "list_all2 spells (map (\<lambda>b. [b]) (encode_utf8 c)) (map (\<lambda>b. 0x5C # digits 8 3 b) (encode_utf8 c))"
    using b by (simp add: spells.octal)
  from unescape_spellings [OF this] show ?thesis unfolding parse_quoted using b by simp
qed

theorem escaped_bytes_stay_apart_witness:
  "parse_ansi_c_quoted_string
      (ch CHR ''$'' # 0x27 # concat (map (\<lambda>b. 0x5C # digits 8 3 b) (encode_utf8 0xE9)) @ [0x27])
    = encode_utf8 0xE9 \<and> encode_utf8 0xE9 \<noteq> [0xE9]"
  by (rule escaped_bytes_stay_apart) simp_all

end
