(* ===== verification/Tmux_Control.thy ===== *)
theory Tmux_Control
  imports Ansi_C_Decoder Term_Screen
begin

text \<open>
  The control mode of tmux, \<^verbatim>\<open>app/src/terminal/model/tmux\<close>: the parser of its output (\<^verbatim>\<open>parser.rs\<close>),
  the commands sent to it and the answers read back (\<^verbatim>\<open>commands.rs\<close>), and the input of a pane
  (\<^verbatim>\<open>mod.rs\<close>). The parser calls its handler: here a step returns the calls it makes. The tag that is
  being read is the part of its array that is filled.
\<close>

unbundle bit_operations_syntax

section \<open>Messages\<close>

text \<open>The output of a command is \<open>Inr\<close> of its lines, or \<open>Inl\<close> of them when it failed.\<close>

datatype tmux_message =
  CommandOutput "byte list list + byte list list" | WindowClose nat | ControlExit
| UnknownTag "byte list" "byte list" | ParseError string byte

datatype tmux_call = PaneOutput nat byte | Message tmux_message

record escape_sequence =
  es_char :: "8 word"
  es_remaining_digits :: nat

datatype parser_state =
  BeginningOfLine | ReadingTag "byte list" | TagExit | TagUnknown "byte list" "byte list" | TagBegin
| ReadingCommandOutput "byte list" "byte list list" | TagOutput "nat option"
| ReadingPaneOutput nat "escape_sequence option" | TagWindowClose "nat option" | TagError

definition MAX_TAG_LEN :: nat where "MAX_TAG_LEN = 23"

section \<open>The parser\<close>

definition report_parse_error :: "string \<Rightarrow> byte \<Rightarrow> tmux_call list" where
  "report_parse_error message b = [Message (ParseError message b)]"

text \<open>A decimal digit added to a \<open>u32\<close>.\<close>

definition add_digit :: "nat \<Rightarrow> byte \<Rightarrow> nat panics" where
  "add_digit n b =
    (let m = n * 10 + (b - ch CHR ''0'') in if m < 2 ^ 32 then Some m else None)"

definition tag_state :: "bool \<Rightarrow> byte list \<Rightarrow> parser_state" where
  "tag_state debug tag =
    (if tag = chars ''begin'' then TagBegin
     else if tag = chars ''exit'' then TagExit
     else if tag = chars ''output'' then TagOutput None
     else if tag = chars ''window-close'' \<or> tag = chars ''unlinked-window-close'' then TagWindowClose None
     else TagUnknown (if debug then tag else []) [])"

definition read_command_output :: "byte \<Rightarrow> byte list \<Rightarrow> byte list list \<Rightarrow> tmux_call list \<times> parser_state" where
  "read_command_output b current_line lines =
    (if b = 0x0A then
       if starts_with (chars ''%end'') current_line
       then ([Message (CommandOutput (Inr lines))], BeginningOfLine)
       else if starts_with (chars ''%error'') current_line
       then ([Message (CommandOutput (Inl lines))], BeginningOfLine)
       else ([], ReadingCommandOutput [] (lines @ [current_line]))
     else ([], ReadingCommandOutput (current_line @ [b]) lines))"

definition read_output_tag :: "byte \<Rightarrow> nat option \<Rightarrow> (tmux_call list \<times> parser_state) panics" where
  "read_output_tag b maybe_pane =
    (case maybe_pane of
       Some pane \<Rightarrow>
         if is_ascii_digit b then do { pane \<leftarrow> add_digit pane b; Some ([], TagOutput (Some pane)) }
         else if b = ch CHR '' '' then Some ([], ReadingPaneOutput pane None)
         else Some (report_parse_error ''Non-digit character in %output pane number'' b, TagError)
     | None \<Rightarrow>
         if b = ch CHR ''%'' then Some ([], TagOutput (Some 0))
         else if b = ch CHR '' '' then Some ([], TagOutput None)
         else Some (report_parse_error ''Unexpected character after %output'' b, TagOutput None))"

definition read_window_close :: "byte \<Rightarrow> nat option \<Rightarrow> (tmux_call list \<times> parser_state) panics" where
  "read_window_close b maybe_window =
    (case maybe_window of
       Some window \<Rightarrow>
         if is_ascii_digit b then do { window \<leftarrow> add_digit window b; Some ([], TagWindowClose (Some window)) }
         else if b = 0x0A then Some ([Message (WindowClose window)], BeginningOfLine)
         else Some (report_parse_error ''Non-digit character in %window-close window number'' b, TagError)
     | None \<Rightarrow>
         if b = ch CHR ''@'' then Some ([], TagWindowClose (Some 0))
         else if b = ch CHR '' '' then Some ([], TagWindowClose None)
         else Some (report_parse_error ''Unexpected character after %window-close'' b, TagWindowClose None))"

text \<open>The digits that are accepted go up to 8, as in the code.\<close>

definition read_escape :: "nat \<Rightarrow> byte \<Rightarrow> escape_sequence \<Rightarrow> (tmux_call list \<times> parser_state) panics" where
  "read_escape pane b e =
    (if ch CHR ''0'' \<le> b \<and> b \<le> ch CHR ''8'' then
       do { remaining \<leftarrow> usub (es_remaining_digits e) 1;
            let octal_digit = word_of_nat (b - ch CHR ''0'');
            let c = es_char e OR push_bit (remaining * 3) octal_digit;
            Some (if remaining = 0 then ([PaneOutput pane (unat c)], ReadingPaneOutput pane None)
                  else ([], ReadingPaneOutput pane (Some \<lparr>es_char = c, es_remaining_digits = remaining\<rparr>))) }
     else Some (report_parse_error ''Non-octal digit found in output escape sequence'' b, TagError))"

definition read_pane_output ::
  "nat \<Rightarrow> byte \<Rightarrow> escape_sequence option \<Rightarrow> (tmux_call list \<times> parser_state) panics" where
  "read_pane_output pane b maybe_escape =
    (case maybe_escape of
       Some e \<Rightarrow> read_escape pane b e
     | None \<Rightarrow>
         Some (if b = 0x0A then ([], BeginningOfLine)
               else if b = 0x5C
               then ([], ReadingPaneOutput pane (Some \<lparr>es_char = 0, es_remaining_digits = 3\<rparr>))
               else if b < 32
               then (report_parse_error ''Unescaped character < ASCII 32 found in output'' b, TagError)
               else ([PaneOutput pane b], ReadingPaneOutput pane None)))"

text \<open>
  A byte other than the end of a tag. The end of a tag fixes the state that then reads this byte
  itself, which is never again the state of reading a tag.
\<close>

fun advance_state :: "bool \<Rightarrow> byte \<Rightarrow> parser_state \<Rightarrow> (tmux_call list \<times> parser_state) panics" where
  "advance_state debug b BeginningOfLine =
     Some (if b \<noteq> ch CHR ''%''
           then (report_parse_error ''Received non-% character at the beginning of a line'' b, TagError)
           else ([], ReadingTag []))"
| "advance_state debug b (ReadingTag tag) =
     Some ([], ReadingTag (if length tag < MAX_TAG_LEN then tag @ [b] else tag))"
| "advance_state debug b TagError = Some ([], if b = 0x0A then BeginningOfLine else TagError)"
| "advance_state debug b TagExit =
     Some (if b \<noteq> 0x0A then (report_parse_error ''Extraneous byte after %exit'' b, TagError)
           else ([Message ControlExit], BeginningOfLine))"
| "advance_state debug b (TagUnknown tag args) =
     Some (if b = 0x0A then (if debug then [Message (UnknownTag tag args)] else [], BeginningOfLine)
           else ([], TagUnknown tag (if debug then args @ [b] else args)))"
| "advance_state debug b TagBegin =
     Some ([], if b = 0x0A then ReadingCommandOutput [] [] else TagBegin)"
| "advance_state debug b (ReadingCommandOutput current_line lines) =
     Some (read_command_output b current_line lines)"
| "advance_state debug b (TagOutput maybe_pane) = read_output_tag b maybe_pane"
| "advance_state debug b (ReadingPaneOutput pane maybe_escape) = read_pane_output pane b maybe_escape"
| "advance_state debug b (TagWindowClose maybe_window) = read_window_close b maybe_window"

definition advance_parser ::
  "bool \<Rightarrow> byte \<Rightarrow> parser_state \<Rightarrow> (tmux_call list \<times> parser_state) panics" where
  "advance_parser debug b st =
    (if b = 0x0D then Some ([], st)
     else case st of
       ReadingTag tag \<Rightarrow>
         if b = ch CHR '' '' \<or> b = 0x0A then advance_state debug b (tag_state debug tag)
         else advance_state debug b st
     | _ \<Rightarrow> advance_state debug b st)"

fun advance_all :: "bool \<Rightarrow> byte list \<Rightarrow> parser_state \<Rightarrow> (tmux_call list \<times> parser_state) panics" where
  "advance_all debug [] st = Some ([], st)"
| "advance_all debug (b # bs) st =
     do { (calls, st) \<leftarrow> advance_parser debug b st;
          (later, st) \<leftarrow> advance_all debug bs st;
          Some (calls @ later, st) }"

section \<open>Commands\<close>

text \<open>The environment is listed in the order in which the code's map iterates over it.\<close>

datatype tmux_command =
  GetPrimaryWindowPane
| RunInBackgroundWindow "uchar list" "uchar list option" "uchar list" "(uchar list \<times> uchar list) list option"
| UpdateClientSize nat nat
| SetDestroyUnattached
| SetWindowSizeToSmallest

definition PRIMARY_WINDOW_PANE_PREFIX :: string where
  "PRIMARY_WINDOW_PANE_PREFIX = ''primary window pane''"

definition BACKGROUND_WINDOW_PREFIX :: string where
  "BACKGROUND_WINDOW_PREFIX = ''background window''"

definition word_character :: "uchar \<Rightarrow> bool" where
  "word_character c \<longleftrightarrow>
     is_ascii_digit c \<or> is_ascii_uppercase c \<or> is_ascii_lowercase c \<or> c = ch CHR ''_''"

definition safe_env_var_name :: "uchar list \<Rightarrow> bool" where
  "safe_env_var_name name \<longleftrightarrow> name \<noteq> [] \<and> list_all word_character name"

text \<open>\<open>str::replace\<close> of a single character.\<close>

definition replace_char :: "uchar \<Rightarrow> uchar list \<Rightarrow> uchar list \<Rightarrow> uchar list" where
  "replace_char c t s = concat (map (\<lambda>d. if d = c then t else [d]) s)"

definition escape_single_quotes :: "uchar list \<Rightarrow> uchar list" where
  "escape_single_quotes s = replace_char 0x27 [0x27, 0x22, 0x27, 0x22, 0x27] s"

definition set_env_var :: "uchar list \<times> uchar list \<Rightarrow> uchar list" where
  "set_env_var nv =
    (case nv of (name, val) \<Rightarrow>
       if safe_env_var_name name
       then chars ''-e '' @ name @ [ch CHR ''='', 0x27] @ escape_single_quotes val @ [0x27, ch CHR '' '']
       else [])"

definition set_directory :: "uchar list option \<Rightarrow> uchar list" where
  "set_directory path =
    (case path of None \<Rightarrow> [] | Some p \<Rightarrow> chars ''-c '' @ [0x27] @ escape_single_quotes p @ [0x27])"

definition set_env_vars :: "(uchar list \<times> uchar list) list option \<Rightarrow> uchar list" where
  "set_env_vars env = (case env of None \<Rightarrow> [] | Some nvs \<Rightarrow> concat (map set_env_var nvs))"

fun get_command_string :: "bool \<Rightarrow> tmux_command \<Rightarrow> uchar list panics" where
  "get_command_string debug GetPrimaryWindowPane =
     Some (chars ''list-panes -F '' @ [0x22] @ chars ''#{?pane_active,'' @ chars PRIMARY_WINDOW_PANE_PREFIX @
       chars '': ,}#{window_id} #{pane_id}'' @ [0x22, 0x0A])"
| "get_command_string debug (RunInBackgroundWindow command_id path command env) =
     do { let escaped = escape_single_quotes command;
          assert_that (debug \<longrightarrow> 0x0A \<notin> set escaped);
          let escaped = replace_char 0x0A [0x5C, ch CHR ''n''] escaped;
          Some (chars ''new-window -d '' @ set_directory path @ [ch CHR '' ''] @ set_env_vars env @
            chars '' -PF '' @ [0x22] @ chars BACKGROUND_WINDOW_PREFIX @ chars '': #{window_id} #{pane_id}'' @
            [0x22, ch CHR '' '', 0x27] @ chars ''(builtin echo -n '' @ [0x22] @ chars ''^^^'' @ command_id @
            chars ''|||'' @ [0x22] @ chars ''; '' @ escaped @ chars ''; builtin echo '' @ [0x22] @
            chars ''|||$?'' @ concat (replicate 3 [0x5C, ch CHR ''$'']) @ [0x22] @
            chars '')|command cat; command sleep 1'' @ [0x27, 0x0A]) }"
| "get_command_string debug (UpdateClientSize num_rows num_cols) =
     Some (chars ''refresh-client -C '' @ chars (decimal num_cols) @ chars '','' @ chars (decimal num_rows) @ [0x0A])"
| "get_command_string debug SetDestroyUnattached = Some (chars ''set destroy-unattached on'' @ [0x0A])"
| "get_command_string debug SetWindowSizeToSmallest = Some (chars ''set window-size smallest'' @ [0x0A])"

section \<open>Answers\<close>

fun parse_ascii_digits :: "nat \<Rightarrow> byte list \<Rightarrow> nat option" where
  "parse_ascii_digits n [] = Some n"
| "parse_ascii_digits n (b # bs) =
    (if \<not> is_ascii_digit b then None
     else if n * 10 < 2 ^ 32 \<and> n * 10 + (b - ch CHR ''0'') < 2 ^ 32
     then parse_ascii_digits (n * 10 + (b - ch CHR ''0'')) bs else None)"

definition parse_ascii_u32 :: "byte list \<Rightarrow> nat option" where
  "parse_ascii_u32 bs = (if bs = [] then None else parse_ascii_digits 0 bs)"

datatype tmux_command_response = SetPrimaryWindowPane nat nat | BackgroundWindow nat nat

text \<open>The captures of \<open>^PREFIX: @([[:digit:]]+) %([[:digit:]]+)$\<close>.\<close>

definition window_pane_captures :: "string \<Rightarrow> byte list \<Rightarrow> (byte list \<times> byte list) option" where
  "window_pane_captures prefix line =
    (let head = chars prefix @ chars '': @'' in
     if starts_with head line then
       let rest = drop (length head) line;
           window = takeWhile is_ascii_digit rest; rest = dropWhile is_ascii_digit rest;
           pane = drop 2 rest
       in if window \<noteq> [] \<and> take 2 rest = chars '' %'' \<and> pane \<noteq> [] \<and> list_all is_ascii_digit pane
          then Some (window, pane) else None
     else None)"

text \<open>Numbers that do not fit are an \<open>expect\<close> that fails.\<close>

definition parse_command :: "byte list \<Rightarrow> tmux_command_response option panics" where
  "parse_command line =
    (case window_pane_captures BACKGROUND_WINDOW_PREFIX line of
       Some (window, pane) \<Rightarrow>
         do { window_id \<leftarrow> parse_ascii_u32 window; pane_id \<leftarrow> parse_ascii_u32 pane;
              Some (Some (BackgroundWindow window_id pane_id)) }
     | None \<Rightarrow>
         (case window_pane_captures PRIMARY_WINDOW_PANE_PREFIX line of
            Some (window, pane) \<Rightarrow>
              do { window_id \<leftarrow> parse_ascii_u32 window; pane_id \<leftarrow> parse_ascii_u32 pane;
                   Some (Some (SetPrimaryWindowPane window_id pane_id)) }
          | None \<Rightarrow> Some None))"

section \<open>Input\<close>

definition hex_upper_digit :: "nat \<Rightarrow> uchar" where
  "hex_upper_digit d = (if d < 10 then ch CHR ''0'' + d else ch CHR ''A'' + (d - 10))"

definition hex_upper :: "byte \<Rightarrow> uchar list" where
  "hex_upper b = (if b < 16 then [hex_upper_digit b] else [hex_upper_digit (b div 16), hex_upper_digit (b mod 16)])"

function chunks :: "nat \<Rightarrow> 'a list \<Rightarrow> 'a list list" where
  "chunks n xs = (if xs = [] \<or> n = 0 then [] else take n xs # chunks n (drop n xs))"
  by pat_completeness auto
termination
  by (relation "measure (length \<circ> snd)") auto

declare chunks.simps [simp del]

definition send_keys :: "nat \<Rightarrow> byte list \<Rightarrow> uchar list" where
  "send_keys pane keys =
     chars ''send-keys -Ht %'' @ chars (decimal pane) @
     concat (map (\<lambda>b. ch CHR '' '' # hex_upper b) keys) @ [0x0A]"

definition format_input :: "nat \<Rightarrow> byte list \<Rightarrow> uchar list" where
  "format_input pane keys = concat (map (send_keys pane) (chunks 1000 keys))"


section \<open>The parser reads what tmux writes\<close>

lemma advance_all_append:
  "advance_all debug (bs @ cs) st =
     do { (calls, st') \<leftarrow> advance_all debug bs st;
          (later, st'') \<leftarrow> advance_all debug cs st';
          Some (calls @ later, st'') }"
  by (induction bs arbitrary: st) (auto split: bind_splits option.splits prod.splits)

lemma advance_all_seq:
  assumes "advance_all debug bs st = Some (calls, st')" and "advance_all debug cs st' = Some (later, st'')"
  shows "advance_all debug (bs @ cs) st = Some (calls @ later, st'')"
  using assms by (simp add: advance_all_append)

text \<open>How tmux writes a byte of the output of a pane.\<close>

definition escape_output :: "byte \<Rightarrow> byte list" where
  "escape_output b = (if b < 32 \<or> b = 0x5C then 0x5C # digits 8 3 b else [b])"

lemma octal_bits:
  fixes x y z :: nat
  assumes "x < 4" "y < 8" "z < 8"
  shows "unat ((((0::8 word) OR push_bit 6 (word_of_nat x)) OR push_bit 3 (word_of_nat y)) OR word_of_nat z)
    = x * 64 + y * 8 + z"
proof -
  have "list_all (\<lambda>x. list_all (\<lambda>y. list_all (\<lambda>z.
      unat ((((0::8 word) OR push_bit 6 (word_of_nat x)) OR push_bit 3 (word_of_nat y)) OR word_of_nat z)
        = x * 64 + y * 8 + z) [0..<8]) [0..<8]) [0..<4]"
    by code_simp
  with assms show ?thesis by (auto simp: list_all_iff)
qed


lemma read_octal:
  assumes "d < 8"
  shows "advance_parser debug (digit d) (ReadingPaneOutput p (Some \<lparr>es_char = c, es_remaining_digits = Suc r\<rparr>)) =
    (let c' = c OR push_bit (r * 3) (word_of_nat d)
     in Some (if r = 0 then ([PaneOutput p (unat c')], ReadingPaneOutput p None)
              else ([], ReadingPaneOutput p (Some \<lparr>es_char = c', es_remaining_digits = r\<rparr>))))"
  using assms
  by (simp add: advance_parser_def read_pane_output_def read_escape_def digit_def ch_def usub_def Let_def)

lemma pane_byte_read:
  assumes "b < 256"
  shows "advance_all debug (escape_output b) (ReadingPaneOutput p None) =
    Some ([PaneOutput p b], ReadingPaneOutput p None)"
proof (cases "b < 32 \<or> b = 0x5C")
  case True
  then have "b div 64 < 4" "b < 128" by auto
  then have d: "b div 64 mod 8 = b div 64" by simp
  have start: "advance_parser debug 0x5C (ReadingPaneOutput p None) =
      Some ([], ReadingPaneOutput p (Some \<lparr>es_char = 0, es_remaining_digits = Suc 2\<rparr>))"
    by (simp add: advance_parser_def read_pane_output_def)
  have small: "b div 64 < 8" "b div 8 mod 8 < 8" "b mod 8 < 8" using \<open>b div 64 < 4\<close> by auto
  let ?c = "(0::8 word) OR push_bit 6 (word_of_nat (b div 64))"
  have steps:
    "advance_parser debug (digit (b div 64)) (ReadingPaneOutput p (Some \<lparr>es_char = 0, es_remaining_digits = Suc 2\<rparr>)) =
      Some ([], ReadingPaneOutput p (Some \<lparr>es_char = ?c, es_remaining_digits = Suc 1\<rparr>))"
    "advance_parser debug (digit (b div 8 mod 8)) (ReadingPaneOutput p (Some \<lparr>es_char = ?c, es_remaining_digits = Suc 1\<rparr>)) =
      Some ([], ReadingPaneOutput p (Some
        \<lparr>es_char = ?c OR push_bit 3 (word_of_nat (b div 8 mod 8)), es_remaining_digits = Suc 0\<rparr>))"
    using read_octal [OF small(1), of debug p 0 2] read_octal [OF small(2), of debug p ?c 1]
    by (simp_all add: Let_def)
  have "b div 64 * 64 + b div 8 mod 8 * 8 + b mod 8 = b"
    using recombine [of b 8 8] by (simp add: mult.commute)
  then have "unat ((?c OR push_bit 3 (word_of_nat (b div 8 mod 8))) OR word_of_nat (b mod 8)) = b"
    using octal_bits [OF \<open>b div 64 < 4\<close> small(2,3)] by (simp only:)
  then have last: "advance_parser debug (digit (b mod 8)) (ReadingPaneOutput p (Some
        \<lparr>es_char = ?c OR push_bit 3 (word_of_nat (b div 8 mod 8)), es_remaining_digits = Suc 0\<rparr>)) =
      Some ([PaneOutput p b], ReadingPaneOutput p None)"
    using read_octal [OF small(3), of debug p "?c OR push_bit 3 (word_of_nat (b div 8 mod 8))" 0]
    by (simp only: Let_def mult_zero_left push_bit_0_id id_apply refl if_True)
  then show ?thesis
    using True start steps last
    by (simp only: escape_output_def octal_digits d advance_all.simps if_True bind.bind_lunit prod.case append.simps)
next
  case False
  then show ?thesis
    by (simp add: escape_output_def advance_parser_def read_pane_output_def)
qed

lemma pane_bytes_read:
  assumes "\<forall>b \<in> set bs. b < 256"
  shows "advance_all debug (concat (map escape_output bs)) (ReadingPaneOutput p None) =
    Some (map (PaneOutput p) bs, ReadingPaneOutput p None)"
  using assms
proof (induction bs)
  case (Cons b bs)
  then show ?case using advance_all_seq [OF pane_byte_read [of b debug p] Cons.IH] by simp
qed simp

lemma chars_Cons [simp]: "chars (c # cs) = ch c # chars cs"
  and chars_Nil [simp]: "chars [] = []"
  and chars_append [simp]: "chars (cs @ ds) = chars cs @ chars ds"
  by (simp_all add: chars_def)

lemma ch_char_of: "n < 256 \<Longrightarrow> ch (char_of n) = n"
  by (simp add: ch_def)

lemma number_read:
  assumes "n < 2 ^ 32"
  shows "advance_all debug (chars (decimal n)) (TagOutput (Some 0)) = Some ([], TagOutput (Some n))"
  using assms
proof (induction n rule: decimal.induct)
  case (1 n)
  have digit_read: "advance_all debug [48 + d] (TagOutput (Some m)) = Some ([], TagOutput (Some (m * 10 + d)))"
    if "d < 10" "m * 10 + d < 2 ^ 32" for d m
    using that
    by (simp add: advance_parser_def read_output_tag_def is_ascii_digit_def ch_def add_digit_def Let_def)
  show ?case
  proof (cases "n < 10")
    case True
    then show ?thesis using digit_read [of n 0] 1 by (simp add: decimal.simps ch_char_of)
  next
    case False
    have "advance_all debug (chars (decimal (n div 10))) (TagOutput (Some 0)) = Some ([], TagOutput (Some (n div 10)))"
      using 1 False by (intro "1.IH") auto
    from advance_all_seq [OF this digit_read [of "n mod 10" "n div 10"]] 1 False
    show ?thesis by (simp add: decimal.simps [of n] ch_char_of)
  qed
qed

lemma output_line_read:
  assumes "pane < 2 ^ 32" and "\<forall>b \<in> set bs. b < 256"
  shows "advance_all debug (chars ''%output %'' @ chars (decimal pane) @ chars '' '' @
      concat (map escape_output bs) @ [0x0A]) BeginningOfLine =
    Some (map (PaneOutput pane) bs, BeginningOfLine)"
proof -
  have head: "advance_all debug (chars ''%output %'') BeginningOfLine = Some ([], TagOutput (Some 0))"
    by (simp add: advance_parser_def ch_def MAX_TAG_LEN_def tag_state_def read_output_tag_def)
  have space: "advance_all debug (chars '' '') (TagOutput (Some pane)) = Some ([], ReadingPaneOutput pane None)"
    by (simp add: advance_parser_def ch_def read_output_tag_def is_ascii_digit_def)
  have last: "advance_all debug [0x0A] (ReadingPaneOutput pane None) = Some ([], BeginningOfLine)"
    by (simp add: advance_parser_def read_pane_output_def)
  show ?thesis
    using advance_all_seq [OF head advance_all_seq [OF number_read [OF assms(1)] advance_all_seq [OF space
        advance_all_seq [OF pane_bytes_read [OF assms(2)] last]]]] by simp
qed

text \<open>
  C5. The output of a pane arrives as it was sent: whatever bytes a pane writes, the line in which
  tmux reports them makes the parser hand exactly these bytes, in order, to the handler, and leaves it
  ready for the next line.
\<close>

theorem pane_output_roundtrip:
  assumes "pane < 2 ^ 32" and "\<forall>b \<in> set bs. b < 256"
  shows "advance_all debug (chars ''%output %'' @ chars (decimal pane) @ chars '' '' @
      concat (map escape_output bs) @ [0x0A]) BeginningOfLine =
    Some (map (PaneOutput pane) bs, BeginningOfLine)"
  by (rule output_line_read) (use assms in blast)+

theorem pane_output_roundtrip_witness:
  "advance_all True (chars ''%output %'' @ chars (decimal 7) @ chars '' '' @
      concat (map escape_output [0x1B, 0x5C, 0x61, 0xE4]) @ [0x0A]) BeginningOfLine =
    Some (map (PaneOutput 7) [0x1B, 0x5C, 0x61, 0xE4], BeginningOfLine)"
  by (rule pane_output_roundtrip) simp_all

text \<open>The output of a command: the lines between its marks.\<close>

definition output_line :: "byte list \<Rightarrow> bool" where
  "output_line l \<longleftrightarrow> 0x0A \<notin> set l \<and> 0x0D \<notin> set l \<and>
     \<not> starts_with (chars ''%end'') l \<and> \<not> starts_with (chars ''%error'') l"

lemma line_bytes_read:
  assumes "0x0A \<notin> set l" "0x0D \<notin> set l"
  shows "advance_all debug l (ReadingCommandOutput cur lines) = Some ([], ReadingCommandOutput (cur @ l) lines)"
  using assms by (induction l arbitrary: cur) (auto simp: advance_parser_def read_command_output_def)

lemma newline_read:
  "read_command_output 0x0A l lines = (calls, st) \<Longrightarrow>
     advance_all debug [0x0A] (ReadingCommandOutput l lines) = Some (calls, st)"
  by (simp add: advance_parser_def)

lemma output_lines_read:
  assumes "\<forall>l \<in> set ls. output_line l"
  shows "advance_all debug (concat (map (\<lambda>l. l @ [0x0A]) ls)) (ReadingCommandOutput [] lines) =
    Some ([], ReadingCommandOutput [] (lines @ ls))"
  using assms
proof (induction ls arbitrary: lines)
  case (Cons l ls)
  then have l: "output_line l" by simp
  then have "read_command_output 0x0A l lines = ([], ReadingCommandOutput [] (lines @ [l]))"
    by (simp add: read_command_output_def output_line_def)
  from advance_all_seq [OF _ newline_read [OF this], of debug l "ReadingCommandOutput [] lines" "[]"]
  have "advance_all debug (l @ [0x0A]) (ReadingCommandOutput [] lines) =
      Some ([], ReadingCommandOutput [] (lines @ [l]))"
    using l line_bytes_read [of l debug "[]" lines] by (simp add: output_line_def)
  moreover have "advance_all debug (concat (map (\<lambda>l. l @ [0x0A]) ls)) (ReadingCommandOutput [] (lines @ [l])) =
      Some ([], ReadingCommandOutput [] (lines @ l # ls))"
    using Cons.IH [of "lines @ [l]"] Cons.prems by simp
  ultimately show ?case using advance_all_seq by fastforce
qed simp

lemma begin_read:
  assumes "0x0A \<notin> set flags" "0x0D \<notin> set flags"
  shows "advance_all debug (chars ''%begin '' @ flags @ [0x0A]) BeginningOfLine =
    Some ([], ReadingCommandOutput [] [])"
proof -
  have head: "advance_all debug (chars ''%begin '') BeginningOfLine = Some ([], TagBegin)"
    by (simp add: advance_parser_def ch_def MAX_TAG_LEN_def tag_state_def)
  have "advance_all debug flags TagBegin = Some ([], TagBegin)"
    using assms by (induction flags) (auto simp: advance_parser_def)
  from advance_all_seq [OF head advance_all_seq [OF this, of "[0x0A]" "[]" "ReadingCommandOutput [] []"]]
  show ?thesis by (simp add: advance_parser_def)
qed

text \<open>
  The answer to a command is its lines: between the marks of its beginning and of its end or
  failure, every line that is no such mark is collected, and the handler gets all of them at once.
\<close>

theorem command_output_roundtrip:
  assumes "\<forall>l \<in> set ls. output_line l" and "0x0A \<notin> set flags" "0x0D \<notin> set flags"
  shows "advance_all debug (chars ''%begin '' @ flags @ [0x0A] @ concat (map (\<lambda>l. l @ [0x0A]) ls) @
      (if failed then chars ''%error'' else chars ''%end'') @ flags @ [0x0A]) BeginningOfLine =
    Some ([Message (CommandOutput (if failed then Inl ls else Inr ls))], BeginningOfLine)"
proof -
  let ?mark = "(if failed then chars ''%error'' else chars ''%end'') @ flags"
  have "advance_all debug ?mark (ReadingCommandOutput [] ls) = Some ([], ReadingCommandOutput ?mark ls)"
    using line_bytes_read [of ?mark debug "[]" ls] assms(2,3) by (auto simp: ch_def)
  moreover have "read_command_output 0x0A ?mark ls =
      ([Message (CommandOutput (if failed then Inl ls else Inr ls))], BeginningOfLine)"
    by (simp add: read_command_output_def starts_with_def)
  ultimately have "advance_all debug (?mark @ [0x0A]) (ReadingCommandOutput [] ls) =
      Some ([Message (CommandOutput (if failed then Inl ls else Inr ls))], BeginningOfLine)"
    using advance_all_seq [OF _ newline_read] by fastforce
  from advance_all_seq [OF begin_read [OF assms(2,3)] advance_all_seq [OF output_lines_read [OF assms(1)]]] this
  show ?thesis by fastforce
qed

theorem command_output_roundtrip_witness:
  "advance_all True (chars ''%begin '' @ chars ''17 2 0'' @ [0x0A] @
      concat (map (\<lambda>l. l @ [0x0A]) [chars ''ok'', []]) @
      (if True then chars ''%error'' else chars ''%end'') @ chars ''17 2 0'' @ [0x0A]) BeginningOfLine =
    Some ([Message (CommandOutput (if True then Inl [chars ''ok'', []] else Inr [chars ''ok'', []]))], BeginningOfLine)"
  by (rule command_output_roundtrip) (auto simp: output_line_def starts_with_def ch_def)


section \<open>When the parser panics\<close>

fun parser_ok :: "parser_state \<Rightarrow> bool" where
  "parser_ok (ReadingTag tag) = (length tag \<le> MAX_TAG_LEN)"
| "parser_ok (ReadingPaneOutput _ (Some e)) = (1 \<le> es_remaining_digits e \<and> es_remaining_digits e \<le> 3)"
| "parser_ok _ = True"

lemma tag_state_ok: "parser_ok (tag_state debug tag) \<and> (\<forall>t. tag_state debug tag \<noteq> ReadingTag t)"
  by (simp add: tag_state_def)

lemma read_command_output_ok: "read_command_output b l ls = (calls, st) \<Longrightarrow> parser_ok st"
  by (auto simp: read_command_output_def split: if_splits)

lemma advance_state_ok:
  assumes "parser_ok st"
  shows "advance_state debug b st = None \<longleftrightarrow>
      (\<exists>n. (st = TagOutput (Some n) \<or> st = TagWindowClose (Some n)) \<and> is_ascii_digit b \<and>
           2 ^ 32 \<le> n * 10 + (b - ch CHR ''0''))"
    and "advance_state debug b st = Some (calls, st') \<Longrightarrow> parser_ok st'"
  using assms
  by (cases "(debug, b, st)" rule: advance_state.cases;
      auto simp: read_output_tag_def read_window_close_def read_pane_output_def read_escape_def
        add_digit_def Let_def usub_def MAX_TAG_LEN_def read_command_output_ok
      split: option.splits if_splits bind_splits)+

lemma advance_parser_ok:
  assumes "parser_ok st"
  shows "advance_parser debug b st = None \<longleftrightarrow>
      (\<exists>n. (st = TagOutput (Some n) \<or> st = TagWindowClose (Some n)) \<and> is_ascii_digit b \<and>
           2 ^ 32 \<le> n * 10 + (b - ch CHR ''0''))" (is "?panics = ?overflow")
    and "advance_parser debug b st = Some (calls, st') \<Longrightarrow> parser_ok st'"
proof -
  have cr: "\<not> is_ascii_digit 0x0D" "\<not> is_ascii_digit (ch CHR '' '')" "\<not> is_ascii_digit 0x0A"
    by (simp_all add: is_ascii_digit_def ch_def)
  show "?panics = ?overflow"
    using advance_state_ok(1) [OF assms, of debug b] tag_state_ok cr
      advance_state_ok(1) [of "tag_state debug tag" debug b for tag]
    by (auto simp: advance_parser_def split: parser_state.splits if_splits)
  show "advance_parser debug b st = Some (calls, st') \<Longrightarrow> parser_ok st'"
    using advance_state_ok(2) [OF assms, of debug b] tag_state_ok assms
      advance_state_ok(2) [of "tag_state debug tag" debug b for tag]
    by (auto simp: advance_parser_def split: parser_state.splits if_splits)
qed

lemma advance_all_ok: "advance_all debug bs st = Some (calls, st') \<Longrightarrow> parser_ok st \<Longrightarrow> parser_ok st'"
proof (induction bs arbitrary: st calls)
  case (Cons b bs)
  then obtain c1 st1 c2 where "advance_parser debug b st = Some (c1, st1)"
      "advance_all debug bs st1 = Some (c2, st')"
    by (auto split: bind_splits)
  with Cons advance_parser_ok(2) show ?case by blast
qed simp

text \<open>
  C38. The only input that can make the parser panic is a number that is too large: after any bytes,
  the next byte panics exactly when it is a digit that takes the pane or window number it
  continues past 32 bits.
\<close>

theorem parser_panics_iff_number_overflows:
  assumes "advance_all debug bs BeginningOfLine = Some (calls, st)"
  shows "advance_all debug (bs @ [b]) BeginningOfLine = None \<longleftrightarrow>
    (\<exists>n. (st = TagOutput (Some n) \<or> st = TagWindowClose (Some n)) \<and> is_ascii_digit b \<and>
         2 ^ 32 \<le> n * 10 + (b - ch CHR ''0''))"
proof -
  have "parser_ok st" using advance_all_ok [OF assms] by simp
  from advance_parser_ok(1) [OF this, of debug b] assms show ?thesis
    by (auto simp: advance_all_append split: bind_splits)
qed

theorem parser_panics_iff_number_overflows_witness:
  "advance_all True (chars ''%output %429496729'' @ [ch CHR ''6'']) BeginningOfLine = None"
proof -
  have "chars (decimal 429496729) = chars ''429496729''"
    by (simp add: decimal.simps ch_char_of ch_def)
  then have "advance_all True (chars ''429496729'') (TagOutput (Some 0)) = Some ([], TagOutput (Some 429496729))"
    using number_read [of 429496729 True] by simp
  moreover have "advance_all True (chars ''%output %'') BeginningOfLine = Some ([], TagOutput (Some 0))"
    by (simp add: advance_parser_def ch_def MAX_TAG_LEN_def tag_state_def read_output_tag_def)
  ultimately have "advance_all True (chars ''%output %429496729'') BeginningOfLine =
      Some ([], TagOutput (Some 429496729))"
    using advance_all_seq by fastforce
  from parser_panics_iff_number_overflows [OF this, of "ch CHR ''6''"] show ?thesis
    by (simp add: is_ascii_digit_def ch_def)
qed

text \<open>
  A digit 8 in an octal escape of pane output is taken for an octal digit, and its bits run into
  those of its neighbour, where the other digits outside the octal range are reported.
\<close>

theorem octal_eight_accepted:
  "advance_all debug (0x5C # chars ''108'') (ReadingPaneOutput p None) =
     Some ([PaneOutput p 0x48], ReadingPaneOutput p None) \<and>
   advance_all debug (0x5C # chars ''109'') (ReadingPaneOutput p None) =
     Some (report_parse_error ''Non-octal digit found in output escape sequence'' (ch CHR ''9''), TagError)"
  by (simp_all add: advance_parser_def ch_def read_pane_output_def read_escape_def usub_def)

section \<open>Commands are quoted\<close>

text \<open>How a shell reads a word made of quoted pieces: what it stands for, if it is closed and literal.\<close>

datatype quote = Plain | Single | Double

fun sh_word :: "quote \<Rightarrow> uchar list \<Rightarrow> uchar list option" where
  "sh_word Plain [] = Some []"
| "sh_word Plain (c # cs) = (if c = 0x27 then sh_word Single cs else if c = 0x22 then sh_word Double cs else None)"
| "sh_word Single [] = None"
| "sh_word Single (c # cs) = (if c = 0x27 then sh_word Plain cs else map_option ((#) c) (sh_word Single cs))"
| "sh_word Double [] = None"
| "sh_word Double (c # cs) =
    (if c = 0x22 then sh_word Plain cs
     else if c = ch CHR ''$'' \<or> c = 0x60 \<or> c = 0x5C then None else map_option ((#) c) (sh_word Double cs))"

lemma sh_word_escaped: "sh_word Single (escape_single_quotes s @ t) = map_option ((@) s) (sh_word Single t)"
  by (cases "sh_word Single t"; induction s) (auto simp: escape_single_quotes_def replace_char_def ch_def)

text \<open>Text without quotes of its own needs no escaping inside single quotes.\<close>

lemma sh_word_unquoted: "0x27 \<notin> set s \<Longrightarrow> sh_word Single (s @ t) = map_option ((@) s) (sh_word Single t)"
  by (cases "sh_word Single t"; induction s) auto

lemma escape_newline: "0x0A \<in> set (escape_single_quotes s) \<longleftrightarrow> 0x0A \<in> set s"
  by (auto simp: escape_single_quotes_def replace_char_def)

lemma replace_absent: "c \<notin> set s \<Longrightarrow> replace_char c t s = s"
  by (induction s) (simp_all add: replace_char_def)

text \<open>The script tmux runs in a background window.\<close>

definition background_script :: "uchar list \<Rightarrow> uchar list \<Rightarrow> uchar list" where
  "background_script command_id command =
     chars ''(builtin echo -n '' @ [0x22] @ chars ''^^^'' @ command_id @ chars ''|||'' @ [0x22] @ chars ''; '' @
     command @ chars ''; builtin echo '' @ [0x22] @ chars ''|||$?'' @
     concat (replicate 3 [0x5C, ch CHR ''$'']) @ [0x22] @ chars '')|command cat; command sleep 1''"

lemma replace_keeps: "d \<noteq> c \<Longrightarrow> d \<notin> set t \<Longrightarrow> d \<in> set (replace_char c t s) \<longleftrightarrow> d \<in> set s"
  by (auto simp: replace_char_def)

lemma replace_removes: "c \<notin> set t \<Longrightarrow> c \<notin> set (replace_char c t s)"
  by (auto simp: replace_char_def)

lemma escape_then_replace:
  "replace_char 0x0A [0x5C, ch CHR ''n''] (escape_single_quotes s) =
   escape_single_quotes (replace_char 0x0A [0x5C, ch CHR ''n''] s)"
  by (induction s) (auto simp: escape_single_quotes_def replace_char_def ch_def)

lemma decimal_no_special: "c \<in> set (chars (decimal n)) \<Longrightarrow> ch CHR ''0'' \<le> c \<and> c \<le> ch CHR ''9''"
proof (induction n rule: decimal.induct)
  case (1 n)
  then show ?case
    by (subst (asm) decimal.simps) (auto simp: ch_def split: if_splits)
qed

text \<open>Where a newline can get into the command: the directory, or the value of a variable that is passed on.\<close>

definition newline_in_path :: "uchar list option \<Rightarrow> bool" where
  "newline_in_path path = (case path of Some p \<Rightarrow> 0x0A \<in> set p | None \<Rightarrow> False)"

definition newline_in_env :: "(uchar list \<times> uchar list) list option \<Rightarrow> bool" where
  "newline_in_env env =
    (case env of Some nvs \<Rightarrow> list_ex (\<lambda>nv. safe_env_var_name (fst nv) \<and> 0x0A \<in> set (snd nv)) nvs | None \<Rightarrow> False)"

lemma directory_newline: "0x0A \<in> set (set_directory path) \<longleftrightarrow> newline_in_path path"
  by (simp add: set_directory_def newline_in_path_def escape_newline ch_def split: option.split)

lemma env_newline: "0x0A \<in> set (set_env_vars env) \<longleftrightarrow> newline_in_env env"
proof -
  have "\<not> word_character 0x0A"
    by (simp add: word_character_def is_ascii_digit_def is_ascii_uppercase_def is_ascii_lowercase_def ch_def)
  then have "0x0A \<notin> set name" if "safe_env_var_name name" for name
    using that by (auto simp: safe_env_var_name_def list_all_iff)
  then have "0x0A \<in> set (set_env_var nv) \<longleftrightarrow> safe_env_var_name (fst nv) \<and> 0x0A \<in> set (snd nv)" for nv
    by (cases nv) (auto simp: set_env_var_def escape_newline ch_def)
  then show ?thesis
    by (auto simp: set_env_vars_def newline_in_env_def list_ex_iff split: option.split)
qed

text \<open>
  C6. A command run in a background window cannot break out of its quotes, whatever it contains. The
  identifier is a time stamp in decimal digits, as the executor makes it. Making the tmux command panics exactly
  for a command with a newline in it, in a debug build; otherwise the last word of it reads
  back as exactly the script around the command, newlines of which have become \<open>\n\<close>, the
  directory reads back as itself, and so does the value of every variable passed on. It is one line, unless there is a newline
  in the directory or in such a value: these are not looked at, and then tmux takes the rest for another command.
\<close>

theorem background_command_is_one_word:
  "(get_command_string debug (RunInBackgroundWindow (chars (decimal stamp)) path command env) = None \<longleftrightarrow>
      debug \<and> 0x0A \<in> set command) \<and>
   (\<forall>s. get_command_string debug (RunInBackgroundWindow (chars (decimal stamp)) path command env) = Some s \<longrightarrow>
      (\<exists>quoted. s = chars ''new-window -d '' @ set_directory path @ [ch CHR '' ''] @ set_env_vars env @
          chars '' -PF '' @ [0x22] @ chars BACKGROUND_WINDOW_PREFIX @ chars '': #{window_id} #{pane_id}'' @
          [0x22, ch CHR '' ''] @ quoted @ [0x0A] \<and>
        sh_word Plain quoted =
          Some (background_script (chars (decimal stamp)) (replace_char 0x0A [0x5C, ch CHR ''n''] command))) \<and>
      (0x0A \<in> set (butlast s) \<longleftrightarrow> newline_in_path path \<or> newline_in_env env)) \<and>
   sh_word Plain (drop 3 (set_directory (Some dir))) = Some dir \<and>
   (safe_env_var_name name \<longrightarrow> sh_word Plain (drop (4 + length name) (butlast (set_env_var (name, val)))) = Some val)"
proof (intro conjI allI impI)
  let ?call = "get_command_string debug (RunInBackgroundWindow (chars (decimal stamp)) path command env)"
  let ?command = "replace_char 0x0A [0x5C, ch CHR ''n''] command"
  let ?before = "chars ''(builtin echo -n '' @ [0x22] @ chars ''^^^'' @ chars (decimal stamp) @ chars ''|||'' @ [0x22] @ chars ''; ''"
  let ?after = "chars ''; builtin echo '' @ [0x22] @ chars ''|||$?'' @
     concat (replicate 3 [0x5C, ch CHR ''$'']) @ [0x22] @ chars '')|command cat; command sleep 1''"
  let ?quoted = "0x27 # ?before @ escape_single_quotes ?command @ ?after @ [0x27]"
  let ?head = "chars ''new-window -d '' @ set_directory path @ [ch CHR '' ''] @ set_env_vars env @
      chars '' -PF '' @ [0x22] @ chars BACKGROUND_WINDOW_PREFIX @ chars '': #{window_id} #{pane_id}'' @ [0x22, ch CHR '' '']"
  have made: "?call = (if debug \<and> 0x0A \<in> set command then None else Some (?head @ ?quoted @ [0x0A]))"
    by (simp add: Let_def escape_newline escape_then_replace assert_that_def)
  then show "?call = None \<longleftrightarrow> debug \<and> 0x0A \<in> set command" by simp
  fix s assume "?call = Some s"
  then have s: "s = ?head @ ?quoted @ [0x0A]" using made by (simp split: if_splits)
  have "0x27 \<notin> set ?before" "0x27 \<notin> set ?after" "0x0A \<notin> set ?before" "0x0A \<notin> set ?after"
    using decimal_no_special [of "0x27" stamp] decimal_no_special [of "0x0A" stamp] by (auto simp: ch_def)
  note plain = this
  from sh_word_unquoted [OF plain(1)] sh_word_unquoted [OF plain(2)]
  have word: "sh_word Plain ?quoted = Some (background_script (chars (decimal stamp)) ?command)"
    by (simp only: sh_word.simps if_True refl append_assoc sh_word_escaped option.map background_script_def
        append_Nil2)
  show "\<exists>quoted. s = chars ''new-window -d '' @ set_directory path @ [ch CHR '' ''] @ set_env_vars env @
          chars '' -PF '' @ [0x22] @ chars BACKGROUND_WINDOW_PREFIX @ chars '': #{window_id} #{pane_id}'' @
          [0x22, ch CHR '' ''] @ quoted @ [0x0A] \<and> sh_word Plain quoted = Some (background_script (chars (decimal stamp)) ?command)"
    by (rule exI [of _ ?quoted]) (use word s in simp)
  have "0x0A \<notin> set (escape_single_quotes ?command)"
    using replace_removes [of "0x0A :: uchar" "[0x5C, ch CHR ''n'']" command] by (simp add: escape_newline ch_def)
  then have "0x0A \<notin> set ?quoted" using plain(3,4) by (simp add: ch_def)
  moreover have "butlast s = ?head @ ?quoted" unfolding s by (simp only: append_assoc [symmetric] butlast_snoc)
  ultimately show "0x0A \<in> set (butlast s) \<longleftrightarrow> newline_in_path path \<or> newline_in_env env"
    by (simp add: directory_newline env_newline ch_def BACKGROUND_WINDOW_PREFIX_def)
next
  show "sh_word Plain (drop 3 (set_directory (Some dir))) = Some dir"
    by (simp add: set_directory_def sh_word_escaped)
  assume "safe_env_var_name name"
  then have "butlast (set_env_var (name, val)) = (chars ''-e '' @ name @ [ch CHR ''='']) @ 0x27 # escape_single_quotes val @ [0x27]"
    by (simp add: set_env_var_def butlast_append)
  then have "drop (4 + length name) (butlast (set_env_var (name, val))) = 0x27 # escape_single_quotes val @ [0x27]"
    by (simp only: drop_append) simp
  then show "sh_word Plain (drop (4 + length name) (butlast (set_env_var (name, val)))) = Some val"
    by (simp add: sh_word_escaped)
qed

text \<open>A command, a directory and a variable that each hold a single quote.\<close>

theorem background_command_is_one_word_witness:
  "\<exists>s first quoted. get_command_string True (RunInBackgroundWindow (chars (decimal 7)) (Some [0x27])
       (chars ''echo '' @ [0x27]) (Some [(chars ''A'', [0x27, 0x20])])) = Some s \<and>
     s = first @ quoted @ [0x0A] \<and>
     sh_word Plain quoted =
       Some (background_script (chars (decimal 7)) (replace_char 0x0A [0x5C, ch CHR ''n''] (chars ''echo '' @ [0x27]))) \<and>
     0x0A \<notin> set (butlast s) \<and>
     sh_word Plain (drop (4 + length (chars ''A'')) (butlast (set_env_var (chars ''A'', [0x27, 0x20])))) = Some [0x27, 0x20]"
proof -
  let ?call = "get_command_string True (RunInBackgroundWindow (chars (decimal 7)) (Some [0x27])
       (chars ''echo '' @ [0x27]) (Some [(chars ''A'', [0x27, 0x20])]))"
  note one_word = background_command_is_one_word [of True 7 "Some [0x27]" "chars ''echo '' @ [0x27]"
      "Some [(chars ''A'', [0x27, 0x20])]" "[]" "chars ''A''" "[0x27, 0x20]"]
  have "0x0A \<notin> set (chars ''echo '' @ [0x27])" by (simp add: ch_def)
  then have "?call \<noteq> None" using one_word by blast
  then obtain s where s: "?call = Some s" by blast
  have "\<not> newline_in_path (Some [0x27])" "\<not> newline_in_env (Some [(chars ''A'', [0x27, 0x20])])"
    by (simp_all add: newline_in_path_def newline_in_env_def)
  then have one_line: "0x0A \<notin> set (butlast s)" using one_word s by blast
  have name: "safe_env_var_name (chars ''A'')" by code_simp
  obtain first quoted where "s = first @ quoted @ [0x0A]"
      "sh_word Plain quoted =
         Some (background_script (chars (decimal 7)) (replace_char 0x0A [0x5C, ch CHR ''n''] (chars ''echo '' @ [0x27])))"
    using one_word s by (metis append_assoc)
  with one_line name s one_word show ?thesis by blast
qed

section \<open>Answers are read\<close>

lemma decimal_digits: "list_all is_ascii_digit (chars (decimal n)) \<and> chars (decimal n) \<noteq> []"
proof (induction n rule: decimal.induct)
  case (1 n)
  then show ?case
    by (cases "n < 10") (simp_all add: decimal.simps [of n] ch_char_of is_ascii_digit_def ch_def)
qed

lemma parse_ascii_digits_append:
  "parse_ascii_digits n (bs @ cs) = Option.bind (parse_ascii_digits n bs) (\<lambda>m. parse_ascii_digits m cs)"
  by (induction bs arbitrary: n) auto

lemma parse_ascii_decimal: "parse_ascii_u32 (chars (decimal n)) = (if n < 2 ^ 32 then Some n else None)"
proof -
  have "parse_ascii_digits 0 (chars (decimal n)) = (if n < 2 ^ 32 then Some n else None)"
  proof (induction n rule: decimal.induct)
    case (1 n)
    have digit: "is_ascii_digit (48 + d) \<longleftrightarrow> d < 10" for d by (auto simp: is_ascii_digit_def ch_def)
    show ?case
    proof (cases "n < 10")
      case True
      then show ?thesis by (simp add: decimal.simps [of n] ch_char_of digit) (simp add: ch_def)
    next
      case False
      then have "parse_ascii_digits 0 (chars (decimal (n div 10))) =
          (if n div 10 < 2 ^ 32 then Some (n div 10) else None)" using 1 by simp
      moreover have "n div 10 < 2 ^ 32 \<and> n div 10 * 10 < 2 ^ 32" if "n < 2 ^ 32" using that by linarith
      moreover have "n div 10 * 10 + n mod 10 = n" by simp
      moreover have "ch CHR ''0'' = 48" by (simp add: ch_def)
      ultimately show ?thesis
        using False by (cases "n < 2 ^ 32") (simp_all add: decimal.simps [of n] ch_char_of digit parse_ascii_digits_append)
    qed
  qed
  then show ?thesis using decimal_digits [of n] by (simp add: parse_ascii_u32_def)
qed

definition answer_line :: "string \<Rightarrow> nat \<Rightarrow> nat \<Rightarrow> byte list" where
  "answer_line prefix window pane =
     chars prefix @ chars '': @'' @ chars (decimal window) @ chars '' %'' @ chars (decimal pane)"

lemma captures_answer:
  "window_pane_captures prefix (answer_line prefix window pane) =
     Some (chars (decimal window), chars (decimal pane))"
proof -
  have stop: "\<not> is_ascii_digit (ch CHR '' '')" by (simp add: is_ascii_digit_def ch_def)
  have "takeWhile is_ascii_digit (chars (decimal window) @ chars '' %'' @ chars (decimal pane)) = chars (decimal window)"
    "dropWhile is_ascii_digit (chars (decimal window) @ chars '' %'' @ chars (decimal pane)) =
      chars '' %'' @ chars (decimal pane)"
    using decimal_digits [of window] stop by (auto simp: list_all_iff takeWhile_append dropWhile_append)
  then show ?thesis
    using decimal_digits [of window] decimal_digits [of pane]
    by (simp add: window_pane_captures_def answer_line_def starts_with_def Let_def)
qed

text \<open>
  The answers that carry the windows and panes are read back: both lines tmux is told to print
  give their numbers, unless one does not fit into 32 bits, and then reading them panics.
\<close>

theorem answers_roundtrip:
  "parse_command (answer_line BACKGROUND_WINDOW_PREFIX window pane) =
     (if window < 2 ^ 32 \<and> pane < 2 ^ 32 then Some (Some (BackgroundWindow window pane)) else None) \<and>
   parse_command (answer_line PRIMARY_WINDOW_PANE_PREFIX window pane) =
     (if window < 2 ^ 32 \<and> pane < 2 ^ 32 then Some (Some (SetPrimaryWindowPane window pane)) else None)"
proof -
  have "window_pane_captures BACKGROUND_WINDOW_PREFIX (answer_line PRIMARY_WINDOW_PANE_PREFIX window pane) = None"
    by (simp add: window_pane_captures_def answer_line_def starts_with_def BACKGROUND_WINDOW_PREFIX_def
        PRIMARY_WINDOW_PANE_PREFIX_def Let_def)
  then show ?thesis
    by (auto simp: parse_command_def captures_answer parse_ascii_decimal)
qed

section \<open>Input reaches the pane\<close>

lemma chunks_parts:
  "0 < n \<Longrightarrow> concat (chunks n xs) = xs \<and> (\<forall>p \<in> set (chunks n xs). p \<noteq> [] \<and> length p \<le> n)"
proof (induction n xs rule: chunks.induct)
  case (1 n xs)
  show ?case
  proof (cases "xs = []")
    case False
    then have "concat (chunks n (drop n xs)) = drop n xs \<and>
        (\<forall>p \<in> set (chunks n (drop n xs)). p \<noteq> [] \<and> length p \<le> n)"
      using 1 by simp
    moreover have "chunks n xs = take n xs # chunks n (drop n xs)"
      using False 1(2) by (simp add: chunks.simps [of n xs])
    ultimately show ?thesis using False 1(2) by simp
  qed (simp add: chunks.simps)
qed

lemma hex_upper_digit_value: "d < 16 \<Longrightarrow> to_digit 16 (hex_upper_digit d) = Some d"
  by (auto simp: to_digit.simps hex_upper_digit_def ch_def Let_def)

lemma hex_upper_value:
  assumes "b < 256"
  shows "from_str_radix U8_END 16 (hex_upper b) = Some b"
proof -
  have plus: "hex_upper_digit d \<noteq> ch CHR ''+''" if "d < 16" for d
    using that by (auto simp: hex_upper_digit_def ch_def)
  have small: "b div 16 < 16" "b mod 16 < 16" using assms by auto
  have one: "parse_digits U8_END 16 m (hex_upper_digit d # ds) = parse_digits U8_END 16 (m * 16 + d) ds"
    if "d < 16" "m * 16 + d < 256" for m d ds
    using that by (simp add: hex_upper_digit_value U8_END_def)
  have "parse_digits U8_END 16 0 [hex_upper_digit (b div 16), hex_upper_digit (b mod 16)] = Some b"
    using one [OF small(1), of 0] one [OF small(2), of "b div 16" "[]"] assms small(1) by simp
  moreover have "parse_digits U8_END 16 0 [hex_upper_digit b] = Some b" if "b < 16"
    using one [OF that, of 0 "[]"] that by simp
  ultimately show ?thesis
    using plus [OF small(1)] plus [of b] by (simp add: from_str_radix_def hex_upper_def del: parse_digits.simps)
qed

text \<open>
  Input goes to the pane key by key: it is sent as commands of at most 1000 keys each, which
  together name every byte in order by its number in hexadecimal.
\<close>

theorem input_is_sent_in_keys:
  assumes "\<forall>b \<in> set keys. b < 256"
  shows "\<exists>parts. format_input pane keys = concat (map (send_keys pane) parts) \<and> concat parts = keys \<and>
    (\<forall>p \<in> set parts. 1 \<le> length p \<and> length p \<le> 1000) \<and>
    map (\<lambda>b. from_str_radix U8_END 16 (hex_upper b)) keys = map Some keys"
  using chunks_parts [of 1000 keys] assms
  by (auto simp: format_input_def hex_upper_value Suc_le_eq intro!: exI [of _ "chunks 1000 keys"])

theorem input_is_sent_in_keys_witness:
  "\<exists>parts. format_input 3 [0x1B, 0x5B] = concat (map (send_keys 3) parts) \<and> concat parts = [0x1B, 0x5B] \<and>
    (\<forall>p \<in> set parts. 1 \<le> length p \<and> length p \<le> 1000) \<and>
    map (\<lambda>b. from_str_radix U8_END 16 (hex_upper b)) [0x1B, 0x5B] = map Some [0x1B, 0x5B]"
  by (rule input_is_sent_in_keys) simp

end
