(* ===== verification/Term_Images.thy ===== *)
theory Term_Images
  imports Rust_Str Term_Screen
begin

text \<open>
  The headers of terminal images: the control data of the Kitty protocol
  (\<^verbatim>\<open>app/src/terminal/model/kitty.rs\<close>) and the metadata of iTerm images
  (\<^verbatim>\<open>app/src/terminal/model/iterm_image.rs\<close>), with the number parsers they share
  (\<^verbatim>\<open>crates/warpui_core/src/util.rs\<close>).
\<close>

section \<open>Numbers\<close>

fun parse_number_below :: "nat \<Rightarrow> nat \<Rightarrow> byte list \<Rightarrow> nat option" where
  "parse_number_below bound n [] = Some n"
| "parse_number_below bound n (c # cs) =
    (case to_digit 10 c of
       None \<Rightarrow> None
     | Some d \<Rightarrow>
         if n * 10 < bound \<and> n * 10 + d < bound then parse_number_below bound (n * 10 + d) cs else None)"

definition parse_u32 :: "byte list \<Rightarrow> nat option" where
  "parse_u32 s = (if s = [] then None else parse_number_below (2 ^ 32) 0 s)"

definition parse_i32 :: "byte list \<Rightarrow> int option" where
  "parse_i32 s =
    (case s of
       [] \<Rightarrow> None
     | c # cs \<Rightarrow>
         if c = ch CHR ''-'' then
           (if cs = [] then None else map_option (\<lambda>n. - int n) (parse_number_below (2 ^ 31) 0 cs))
         else map_option int (parse_number_below (2 ^ 31) 0 s))"

text \<open>The text before and after the first separator.\<close>

definition split_once :: "'a \<Rightarrow> 'a list \<Rightarrow> ('a list \<times> 'a list) option" where
  "split_once sep s = map_option (\<lambda>i. (take i s, drop (i + 1) s)) (position ((=) sep) s)"

section \<open>Kitty images\<close>

datatype kitty_placement_action =
  KPA_StoreOnly | KPA_StoreAndDisplay | KPA_DisplayStoredImage | KPA_QuerySupport | KPA_Delete | KPA_Unknown

datatype delete_action = DA_DeleteAll | DA_DeleteById

datatype kitty_pixel_data_format = KPF_Rgb24Bit | KPF_Rgba32Bit | KPF_Png

datatype kitty_transmission_medium =
  KTM_Direct | KTM_SimpleFile | KTM_TemporaryFile | KTM_SharedMemoryObject

datatype kitty_response_verbosity = KRV_All | KRV_ErrorsOnly | KRV_None

definition send_ok :: "kitty_response_verbosity \<Rightarrow> bool" where
  "send_ok v \<longleftrightarrow> v = KRV_All"

definition send_error :: "kitty_response_verbosity \<Rightarrow> bool" where
  "send_error v \<longleftrightarrow> v = KRV_All \<or> v = KRV_ErrorsOnly"

record kitty_control_data =
  kc_pixel_data_format :: kitty_pixel_data_format
  kc_width :: nat
  kc_height :: nat
  kc_compressed :: bool
  kc_transmission_medium :: kitty_transmission_medium
  kc_further_chunks :: bool
  kc_image_id :: "nat option"
  kc_placement_id :: "nat option"
  kc_placement_action :: kitty_placement_action
  kc_verbosity :: kitty_response_verbosity
  kc_z_index :: int
  kc_delete_action :: delete_action
  kc_delete_placements_only :: bool
  kc_rows :: "nat option"
  kc_cols :: "nat option"
  kc_cursor_movement_policy :: cursor_movement_policy
  kc_unicode_placeholder :: bool

definition default_control_data :: kitty_control_data where
  "default_control_data =
    \<lparr>kc_pixel_data_format = KPF_Rgba32Bit, kc_width = 0, kc_height = 0, kc_compressed = False,
     kc_transmission_medium = KTM_Direct, kc_further_chunks = False, kc_image_id = None,
     kc_placement_id = None, kc_placement_action = KPA_StoreOnly, kc_verbosity = KRV_All,
     kc_z_index = 0, kc_delete_action = DA_DeleteAll, kc_delete_placements_only = True,
     kc_rows = None, kc_cols = None, kc_cursor_movement_policy = CMP_MoveCursor,
     kc_unicode_placeholder = False\<rparr>"

text \<open>A \<open>match\<close> of a value against byte strings, with the default of the other values.\<close>

definition match_bytes :: "(string \<times> 'a) list \<Rightarrow> 'a \<Rightarrow> byte list \<Rightarrow> 'a" where
  "match_bytes cases otherwise s =
    (case map_of (map (\<lambda>(k, v). (chars k, v)) cases) s of Some v \<Rightarrow> v | None \<Rightarrow> otherwise)"

text \<open>A number that does not parse leaves the field as it is.\<close>

definition set_number :: "('a \<Rightarrow> 'r \<Rightarrow> 'r) \<Rightarrow> 'a option \<Rightarrow> 'r \<Rightarrow> 'r" where
  "set_number f n r = (case n of Some v \<Rightarrow> f v r | None \<Rightarrow> r)"

definition to_ascii_lowercase :: "byte list \<Rightarrow> byte list" where
  "to_ascii_lowercase s = map (\<lambda>b. if is_ascii_uppercase b then b + 32 else b) s"

definition delete_specifier :: "byte list \<Rightarrow> kitty_control_data \<Rightarrow> kitty_control_data" where
  "delete_specifier v d =
    (let d = (if list_all is_ascii_uppercase v then d\<lparr>kc_delete_placements_only := False\<rparr> else d)
     in d\<lparr>kc_delete_action :=
            match_bytes [(''a'', DA_DeleteAll), (''i'', DA_DeleteById)] DA_DeleteAll (to_ascii_lowercase v)\<rparr>)"

definition control_field :: "byte list \<Rightarrow> byte list \<Rightarrow> kitty_control_data \<Rightarrow> kitty_control_data" where
  "control_field k v d =
    (if k = chars ''f'' then
       d\<lparr>kc_pixel_data_format := match_bytes
           [(''24'', KPF_Rgb24Bit), (''32'', KPF_Rgba32Bit), (''100'', KPF_Png)] KPF_Rgba32Bit v\<rparr>
     else if k = chars ''s'' then set_number (\<lambda>n. kc_width_update (\<lambda>_. n)) (parse_u32 v) d
     else if k = chars ''v'' then set_number (\<lambda>n. kc_height_update (\<lambda>_. n)) (parse_u32 v) d
     else if k = chars ''o'' then d\<lparr>kc_compressed := (v = chars ''z'')\<rparr>
     else if k = chars ''m'' then d\<lparr>kc_further_chunks := (v = chars ''1'')\<rparr>
     else if k = chars ''t'' then
       d\<lparr>kc_transmission_medium := match_bytes
           [(''d'', KTM_Direct), (''f'', KTM_SimpleFile), (''t'', KTM_TemporaryFile),
            (''s'', KTM_SharedMemoryObject)] KTM_Direct v\<rparr>
     else if k = chars ''i'' then set_number (\<lambda>n. kc_image_id_update (\<lambda>_. Some n)) (parse_u32 v) d
     else if k = chars ''p'' then set_number (\<lambda>n. kc_placement_id_update (\<lambda>_. Some n)) (parse_u32 v) d
     else if k = chars ''a'' then
       d\<lparr>kc_placement_action := match_bytes
           [(''t'', KPA_StoreOnly), (''T'', KPA_StoreAndDisplay), (''p'', KPA_DisplayStoredImage),
            (''q'', KPA_QuerySupport), (''d'', KPA_Delete)] KPA_Unknown v\<rparr>
     else if k = chars ''q'' then
       d\<lparr>kc_verbosity := match_bytes [(''0'', KRV_All), (''1'', KRV_ErrorsOnly), (''2'', KRV_None)] KRV_All v\<rparr>
     else if k = chars ''z'' then set_number (\<lambda>n. kc_z_index_update (\<lambda>_. n)) (parse_i32 v) d
     else if k = chars ''d'' then delete_specifier v d
     else if k = chars ''c'' then set_number (\<lambda>n. kc_cols_update (\<lambda>_. Some n)) (parse_u32 v) d
     else if k = chars ''r'' then set_number (\<lambda>n. kc_rows_update (\<lambda>_. Some n)) (parse_u32 v) d
     else if k = chars ''C'' then
       d\<lparr>kc_cursor_movement_policy := match_bytes
           [(''0'', CMP_MoveCursor), (''1'', CMP_DoNotMoveCursor)] CMP_MoveCursor v\<rparr>
     else if k = chars ''U'' then d\<lparr>kc_unicode_placeholder := (v = chars ''1'')\<rparr>
     else d)"

definition control_param :: "byte list \<Rightarrow> kitty_control_data \<Rightarrow> kitty_control_data" where
  "control_param param d =
    (case split_once (ch CHR ''='') param of None \<Rightarrow> d | Some (k, v) \<Rightarrow> control_field k v d)"

definition parse_kitty_control_data :: "byte list \<Rightarrow> kitty_control_data" where
  "parse_kitty_control_data s = fold control_param (split_at (ch CHR '','') s) default_control_data"

record kitty_chunk =
  kchunk_control_data :: kitty_control_data
  kchunk_payload :: "byte list"

definition parse_kitty_chunk :: "byte list \<Rightarrow> kitty_chunk" where
  "parse_kitty_chunk chunk =
    (let (control_data, payload) =
       (case split_once (ch CHR '';'') chunk of Some cp \<Rightarrow> cp | None \<Rightarrow> (chunk, []))
     in \<lparr>kchunk_control_data = parse_kitty_control_data control_data, kchunk_payload = payload\<rparr>)"

section \<open>iTerm images\<close>

text \<open>The size of an image is filled in later, when its data is decoded.\<close>

record iterm_image_metadata =
  im_id :: nat
  im_desired_width :: "(nat \<times> iterm_dimension_unit) option"
  im_desired_height :: "(nat \<times> iterm_dimension_unit) option"
  im_preserve_aspect_ratio :: bool
  im_name :: "uchar list"
  im_inline :: bool

definition default_iterm_metadata :: "nat \<Rightarrow> iterm_image_metadata" where
  "default_iterm_metadata random =
    \<lparr>im_id = random, im_desired_width = None, im_desired_height = None, im_preserve_aspect_ratio = True,
     im_name = chars ''Unnamed file'', im_inline = False\<rparr>"

definition parse_iterm_image_dimensions :: "byte list \<Rightarrow> (nat \<times> iterm_dimension_unit) option" where
  "parse_iterm_image_dimensions s =
    (if ends_with (chars ''px'') s
     then map_option (\<lambda>n. (n, IDU_Pixel)) (parse_u32 (take (length s - 2) s))
     else if ends_with (chars ''%'') s
     then map_option (\<lambda>n. (min n 100, IDU_Percent)) (parse_u32 (take (length s - 1) s))
     else map_option (\<lambda>n. (n, IDU_Cell)) (parse_u32 s))"

text \<open>\<open>Path::file_name\<close>: the last component, when it names something.\<close>

definition file_name :: "uchar list \<Rightarrow> uchar list option" where
  "file_name path =
    (let components = filter (\<lambda>c. c \<noteq> [] \<and> c \<noteq> chars ''.'') (split_at (ch CHR ''/'') path)
     in if components = [] \<or> last components = chars ''..'' then None else Some (last components))"

definition iterm_field ::
  "(byte list \<Rightarrow> byte list option) \<Rightarrow> byte list \<Rightarrow> byte list \<Rightarrow> iterm_image_metadata \<Rightarrow> iterm_image_metadata" where
  "iterm_field base64 k v m =
    (if k = chars ''width'' then m\<lparr>im_desired_width := parse_iterm_image_dimensions v\<rparr>
     else if k = chars ''height'' then m\<lparr>im_desired_height := parse_iterm_image_dimensions v\<rparr>
     else if k = chars ''preserveAspectRatio''
     then m\<lparr>im_preserve_aspect_ratio := (v = chars ''1'' \<or> v = chars ''true'')\<rparr>
     else if k = chars ''name'' then
       set_number (\<lambda>n. im_name_update (\<lambda>_. n))
         (Option.bind (Option.bind (base64 v) from_utf8) file_name) m
     else if k = chars ''inline'' then m\<lparr>im_inline := (v = chars ''1'' \<or> v = chars ''true'')\<rparr>
     else m)"

definition iterm_param ::
  "(byte list \<Rightarrow> byte list option) \<Rightarrow> byte list \<Rightarrow> iterm_image_metadata \<Rightarrow> iterm_image_metadata" where
  "iterm_param base64 param m =
    (case split_once (ch CHR ''='') param of
       None \<Rightarrow> m
     | Some (k, v) \<Rightarrow>
        (case (if k = chars ''File'' \<or> k = chars ''MultipartFile''
               then split_once (ch CHR ''='') v else Some (k, v)) of
           None \<Rightarrow> m
         | Some (k, v) \<Rightarrow>
             iterm_field base64 k (case split_once (ch CHR '':'') v of Some (v, _) \<Rightarrow> v | None \<Rightarrow> v) m))"

definition parse_iterm_image_metadata ::
  "(byte list \<Rightarrow> byte list option) \<Rightarrow> nat \<Rightarrow> byte list list \<Rightarrow> iterm_image_metadata" where
  "parse_iterm_image_metadata base64 random params =
     fold (iterm_param base64) params (default_iterm_metadata random)"

section \<open>Headers are read\<close>

lemma position_append: "\<forall>x \<in> set s. \<not> p x \<Longrightarrow> position p (s @ t) = map_option ((+) (length s)) (position p t)"
  by (cases "position p t"; induction s) auto

lemma split_once_first [simp]: "sep \<notin> set s \<Longrightarrow> split_once sep (s @ sep # t) = Some (s, t)"
proof -
  assume "sep \<notin> set s"
  then have "position ((=) sep) (s @ sep # t) = Some (length s)"
    by (subst position_append) auto
  then show ?thesis by (simp add: split_once_def)
qed

lemma split_once_None: "split_once sep s = None \<longleftrightarrow> sep \<notin> set s"
  by (auto simp: split_once_def position_None)

lemma split_at_join: "\<forall>s \<in> set ss. sep \<notin> set s \<Longrightarrow> ss \<noteq> [] \<Longrightarrow> split_at sep (join [sep] ss) = ss"
proof (induction ss rule: induct_list012)
  case (2 s)
  have "split_at sep t = [t]" if "sep \<notin> set t" for t using that by (induction t) auto
  with 2 show ?case by simp
next
  case (3 s t ts)
  have "split_at sep (u @ sep # v) = u # split_at sep v" if "sep \<notin> set u" for u v
    using that by (induction u) auto
  with 3 show ?case by simp
qed simp

text \<open>
  A Kitty chunk is split at its first semicolon and its header at every comma: the fields apply
  one after the other, and the payload arrives untouched, whatever bytes it holds.
\<close>

theorem kitty_chunk_fields:
  assumes "\<forall>(k, v) \<in> set kvs. set k \<inter> {ch CHR '','', ch CHR '';'', ch CHR ''=''} = {} \<and>
      set v \<inter> {ch CHR '','', ch CHR '';''} = {}"
    and "kvs \<noteq> []"
  shows "parse_kitty_chunk (join [ch CHR '',''] (map (\<lambda>(k, v). k @ [ch CHR ''=''] @ v) kvs) @
      [ch CHR '';''] @ payload) =
    \<lparr>kchunk_control_data = fold (\<lambda>(k, v). control_field k v) kvs default_control_data,
     kchunk_payload = payload\<rparr>"
proof -
  let ?params = "map (\<lambda>(k, v). k @ [ch CHR ''=''] @ v) kvs"
  have no_semi: "ch CHR '';'' \<notin> set (join [ch CHR '',''] ps)" if "\<forall>p \<in> set ps. ch CHR '';'' \<notin> set p" for ps
    using that by (induction ps rule: induct_list012) auto
  have "ch CHR '';'' \<notin> set (join [ch CHR '',''] ?params)" by (rule no_semi) (use assms(1) in auto)
  moreover have "split_at (ch CHR '','') (join [ch CHR '',''] ?params) = ?params"
    by (rule split_at_join) (use assms in auto)
  moreover have "fold control_param ?params d = fold (\<lambda>(k, v). control_field k v) kvs d" for d
    using assms(1) by (induction kvs arbitrary: d) (auto simp: control_param_def)
  ultimately show ?thesis by (simp add: parse_kitty_chunk_def parse_kitty_control_data_def)
qed

theorem kitty_chunk_fields_witness:
  "parse_kitty_chunk (join [ch CHR '',''] (map (\<lambda>(k, v). k @ [ch CHR ''=''] @ v)
       [(chars ''a'', chars ''T''), (chars ''f'', chars ''100'')]) @ [ch CHR '';''] @ [0, 0x3B]) =
    \<lparr>kchunk_control_data = fold (\<lambda>(k, v). control_field k v)
       [(chars ''a'', chars ''T''), (chars ''f'', chars ''100'')] default_control_data,
     kchunk_payload = [0, 0x3B]\<rparr>"
  by (rule kitty_chunk_fields) (auto simp: chars_def)

lemma parse_number_below_append:
  "parse_number_below bound n (s @ t) =
     Option.bind (parse_number_below bound n s) (\<lambda>m. parse_number_below bound m t)"
  by (induction s arbitrary: n) (auto split: option.splits)

lemma parse_decimal:
  assumes "n < bound"
  shows "parse_number_below bound 0 (chars (decimal n)) = Some n \<and> chars (decimal n) \<noteq> []"
  using assms
proof (induction n rule: decimal.induct)
  case (1 n)
  have d: "to_digit 10 (48 + d) = Some d" if "d < 10" for d
    using that by (simp add: to_digit.simps ch_def Let_def)
  have c: "chars [char_of (48 + d)] = [48 + d]" if "d < 10" for d
    using that by (simp add: chars_def ch_def)
  show ?case
  proof (cases "n < 10")
    case True
    then show ?thesis using 1 by (simp add: decimal.simps [of n] c d)
  next
    case False
    have "n div 10 < bound" using 1(2) by (meson div_le_dividend le_less_trans)
    then have p: "parse_number_below bound 0 (chars (decimal (n div 10))) = Some (n div 10)"
      using 1 False by simp
    have "chars (decimal n) = chars (decimal (n div 10)) @ [48 + n mod 10]"
      using False c [of "n mod 10"] by (simp add: decimal.simps [of n] chars_def)
    moreover have "n div 10 * 10 < bound" using 1(2) by linarith
    ultimately show ?thesis
      using p 1(2) d [of "n mod 10"] by (simp add: parse_number_below_append)
  qed
qed

text \<open>
  The size of an iTerm image is read in its three units, percentages up to 100.
\<close>

theorem iterm_dimensions_roundtrip:
  assumes "n < 2 ^ 32"
  shows "parse_iterm_image_dimensions (chars (decimal n) @ chars ''px'') = Some (n, IDU_Pixel) \<and>
    parse_iterm_image_dimensions (chars (decimal n) @ chars ''%'') = Some (min n 100, IDU_Percent) \<and>
    parse_iterm_image_dimensions (chars (decimal n)) = Some (n, IDU_Cell)"
proof -
  have "to_digit 10 c \<noteq> None" if "c \<in> set s" "parse_number_below b m s = Some k" for c s b m k
    using that by (induction s arbitrary: m) (auto split: option.splits if_splits)
  then have digit: "to_digit 10 c \<noteq> None" if "c \<in> set (chars (decimal n))" for c
    using that parse_decimal [OF assms] by blast
  have no_suffix: "\<not> ends_with [c] (chars (decimal n))" "\<not> ends_with [d, c] (chars (decimal n))"
    if "to_digit 10 c = None" for c d
  proof -
    have "last s = c" if "ends_with (t @ [c]) s" for s t
      using that by (metis append_is_Nil_conv append_take_drop_id ends_with_def last_appendR last_snoc list.distinct(1))
    then show "\<not> ends_with [c] (chars (decimal n))" "\<not> ends_with [d, c] (chars (decimal n))"
      using digit [of c] \<open>to_digit 10 c = None\<close> parse_decimal [OF assms] last_in_set
      by (metis append_Nil append_Cons)+
  qed
  have "to_digit 10 (ch CHR ''x'') = None" "to_digit 10 (ch CHR ''%'') = None"
    by (simp_all add: to_digit.simps ch_def Let_def)
  note no = no_suffix [OF this(1)] no_suffix [OF this(2)]
  have u: "parse_u32 (chars (decimal n)) = Some n"
    using parse_decimal [OF assms] by (simp add: parse_u32_def)
  have "\<not> ends_with (chars ''px'') (chars (decimal n) @ chars ''%'')"
    by (simp add: ends_with_def chars_def)
  then show ?thesis
    using no u by (simp add: parse_iterm_image_dimensions_def) (simp add: ends_with_def chars_def)
qed

theorem iterm_dimensions_roundtrip_witness:
  "parse_iterm_image_dimensions (chars (decimal 120) @ chars ''px'') = Some (120, IDU_Pixel) \<and>
    parse_iterm_image_dimensions (chars (decimal 120) @ chars ''%'') = Some (min 120 100, IDU_Percent) \<and>
    parse_iterm_image_dimensions (chars (decimal 120)) = Some (120, IDU_Cell)"
  by (rule iterm_dimensions_roundtrip) simp

text \<open>
  A request to delete the images at a place, which is not supported, is taken for one to delete
  all images; with a capital letter, or with no letter at all, their data goes too.
\<close>

theorem unsupported_deletion_deletes_all:
  assumes "to_ascii_lowercase v \<noteq> chars ''i''"
  shows "kc_delete_action (delete_specifier v d) = DA_DeleteAll \<and>
    (list_all is_ascii_uppercase v \<longrightarrow> \<not> kc_delete_placements_only (delete_specifier v d))"
  using assms by (simp add: delete_specifier_def match_bytes_def Let_def chars_def)

theorem unsupported_deletion_deletes_all_witness:
  "kc_delete_action (delete_specifier (chars ''C'') default_control_data) = DA_DeleteAll \<and>
    (list_all is_ascii_uppercase (chars ''C'') \<longrightarrow>
      \<not> kc_delete_placements_only (delete_specifier (chars ''C'') default_control_data))"
  by (rule unsupported_deletion_deletes_all)
    (simp add: to_ascii_lowercase_def chars_def ch_def is_ascii_uppercase_def)

end
