(* ===== verification/Dcs_Hooks.thy ===== *)
theory Dcs_Hooks
  imports Ansi_C_Decoder
begin

text \<open>
  The messages the shell sends inside escape sequences, \<^verbatim>\<open>app/src/terminal/model/ansi/dcs_hooks.rs\<close>:
  the hooks with their values, and the hook that is put together from key-value pairs. Decoding
  JSON is the serialization library's; here are the functions its deserializers call. A floating point
  number is its 64 bits, and \<open>parse_f64\<close> its parser; under \<open>debug\<close> assertions are checked.
\<close>

section \<open>Values\<close>

record system_details =
  sd_operating_system :: "uchar list"
  sd_package_manager :: "uchar list"
  sd_shell :: "uchar list"
  sd_writable_home :: "bool option"

datatype warpification_unavailable_reason =
  WU_TmuxFailed
| WU_UnsupportedTmuxVersion system_details
| WU_TmuxNotInstalled system_details "uchar list"
| WU_UnsupportedShell "uchar list"
| WU_Timeout bool bool "system_details option"
| WU_TmuxInstallFailed "system_details option" "uchar list option" "uchar list option"

record tmux_install_failed_info =
  tf_line :: "uchar list"
  tf_command :: "uchar list"

record command_finished_value =
  cf_exit_code :: int
  cf_next_block_id :: "uchar list"

record precmd_value =
  pc_pwd :: "uchar list option"
  pc_ps1 :: "uchar list option"
  pc_ps1_is_encoded :: "bool option"
  pc_honor_ps1 :: "bool option"
  pc_rprompt :: "uchar list option"
  pc_git_head :: "uchar list option"
  pc_git_branch :: "uchar list option"
  pc_virtual_env :: "uchar list option"
  pc_conda_env :: "uchar list option"
  pc_node_version :: "uchar list option"
  pc_kube_config :: "uchar list option"
  pc_session_id :: "nat option"
  pc_is_after_in_band_command :: bool

definition default_precmd :: precmd_value where
  "default_precmd =
    \<lparr>pc_pwd = None, pc_ps1 = None, pc_ps1_is_encoded = Some True, pc_honor_ps1 = None, pc_rprompt = None,
     pc_git_head = None, pc_git_branch = None, pc_virtual_env = None, pc_conda_env = None,
     pc_node_version = None, pc_kube_config = None, pc_session_id = None,
     pc_is_after_in_band_command = False\<rparr>"

definition was_sent_after_in_band_command :: "precmd_value \<Rightarrow> bool" where
  "was_sent_after_in_band_command v \<longleftrightarrow>
     pc_is_after_in_band_command v \<or> (pc_pwd v = None \<and> pc_ps1 v = None)"

record bootstrapped_value =
  bs_histfile :: "uchar list option"
  bs_shell :: "uchar list"
  bs_home_dir :: "uchar list option"
  bs_path :: "uchar list option"
  bs_cdpath :: "uchar list option"
  bs_editor :: "uchar list option"
  bs_aliases :: "uchar list option"
  bs_abbreviations :: "uchar list option"
  bs_function_names :: "uchar list option"
  bs_env_var_names :: "uchar list option"
  bs_builtins :: "uchar list option"
  bs_keywords :: "uchar list option"
  bs_shell_version :: "uchar list option"
  bs_shell_options :: "uchar list set option"
  bs_rcfiles_start_time :: "64 word option"
  bs_rcfiles_end_time :: "64 word option"
  bs_shell_plugins :: "uchar list set option"
  bs_vi_mode_enabled :: "uchar list option"
  bs_os_category :: "uchar list option"
  bs_linux_distribution :: "uchar list option"
  bs_wsl_name :: "uchar list option"
  bs_shell_path :: "uchar list option"

definition default_bootstrapped :: bootstrapped_value where
  "default_bootstrapped =
    \<lparr>bs_histfile = None, bs_shell = [], bs_home_dir = None, bs_path = None, bs_cdpath = None,
     bs_editor = None, bs_aliases = None, bs_abbreviations = None, bs_function_names = None,
     bs_env_var_names = None, bs_builtins = None, bs_keywords = None, bs_shell_version = None,
     bs_shell_options = None, bs_rcfiles_start_time = None, bs_rcfiles_end_time = None,
     bs_shell_plugins = None, bs_vi_mode_enabled = None, bs_os_category = None,
     bs_linux_distribution = None, bs_wsl_name = None, bs_shell_path = None\<rparr>"

record ssh_value =
  ssh_socket_path :: "uchar list"
  ssh_remote_shell :: "uchar list"

record init_shell_value =
  is_session_id :: nat
  is_shell :: "uchar list"
  is_is_subshell :: bool
  is_user :: "uchar list"
  is_hostname :: "uchar list"
  is_wsl_name :: "uchar list option"

text \<open>The values of \<open>InitSsh\<close> and \<open>InitSubshell\<close>, and the one of \<open>SourcedRcFileForWarp\<close>.\<close>

record shell_uname_value =
  su_shell :: "uchar list"
  su_uname :: "uchar list option"

record sourced_rc_file_value = shell_uname_value +
  sr_tmux :: "bool option"

section \<open>Hooks\<close>

datatype dproto_hook =
  CommandFinished command_finished_value
| Precmd precmd_value
| Preexec "uchar list"
| Bootstrapped bootstrapped_value
| PreInteractiveSSHSession
| SSH ssh_value
| InitShell init_shell_value
| InputBuffer "uchar list"
| ClearHook
| InitSubshell shell_uname_value
| SourcedRcFileForWarp sourced_rc_file_value
| InitSsh shell_uname_value
| FinishUpdate "uchar list"
| RemoteWarpificationIsUnavailable warpification_unavailable_reason
| SshTmuxInstaller "uchar list"
| TmuxInstallFailed tmux_install_failed_info
| ExitShell nat

fun hook_name :: "dproto_hook \<Rightarrow> string" where
  "hook_name (CommandFinished _) = ''CommandFinished''"
| "hook_name (Precmd _) = ''Precmd''"
| "hook_name (Preexec _) = ''Preexec''"
| "hook_name (Bootstrapped _) = ''Bootstrapped''"
| "hook_name PreInteractiveSSHSession = ''PreInteractiveSSHSession''"
| "hook_name (SSH _) = ''SSH''"
| "hook_name (InitShell _) = ''InitShell''"
| "hook_name (InputBuffer _) = ''InputBuffer''"
| "hook_name ClearHook = ''Clear''"
| "hook_name (InitSubshell _) = ''InitSubshell''"
| "hook_name (SourcedRcFileForWarp _) = ''SourcedRcFileForWarp''"
| "hook_name (InitSsh _) = ''InitSsh''"
| "hook_name (FinishUpdate _) = ''FinishUpdate''"
| "hook_name (RemoteWarpificationIsUnavailable _) = ''RemoteWarpificationIsUnavailable''"
| "hook_name (SshTmuxInstaller _) = ''SshTmuxInstaller''"
| "hook_name (TmuxInstallFailed _) = ''TmuxInstallFailed''"
| "hook_name (ExitShell _) = ''ExitShell''"

text \<open>
  The hooks a name stands for, with default values, where the default block is a new one with a
  \<open>fresh_id\<close>; an unknown name is an assertion under \<open>debug\<close>.
\<close>

definition default_hooks :: "uchar list \<Rightarrow> dproto_hook list" where
  "default_hooks fresh_id =
    [CommandFinished \<lparr>cf_exit_code = 0, cf_next_block_id = fresh_id\<rparr>, Precmd default_precmd, Preexec [],
     Bootstrapped default_bootstrapped, PreInteractiveSSHSession,
     SSH \<lparr>ssh_socket_path = [], ssh_remote_shell = []\<rparr>,
     InitShell \<lparr>is_session_id = 0, is_shell = [], is_is_subshell = False, is_user = [], is_hostname = [],
       is_wsl_name = None\<rparr>,
     InputBuffer [], ClearHook, InitSubshell \<lparr>su_shell = [], su_uname = None\<rparr>,
     SourcedRcFileForWarp \<lparr>su_shell = [], su_uname = None, sr_tmux = None\<rparr>,
     InitSsh \<lparr>su_shell = [], su_uname = None\<rparr>, FinishUpdate [], SshTmuxInstaller [],
     TmuxInstallFailed \<lparr>tf_line = [], tf_command = []\<rparr>, ExitShell 0]"

definition default_from_name :: "uchar list \<Rightarrow> bool \<Rightarrow> uchar list \<Rightarrow> dproto_hook option panics" where
  "default_from_name fresh_id debug hook =
    (case map_of (map (\<lambda>h. (chars (hook_name h), h)) (default_hooks fresh_id)) hook of
       Some h \<Rightarrow> Some (Some h)
     | None \<Rightarrow> if debug then None else Some None)"

section \<open>Parsing the values\<close>

definition map_empty_to_none :: "uchar list \<Rightarrow> uchar list option" where
  "map_empty_to_none s = (if s = [] then None else Some s)"

definition trim_null_byte :: "uchar list \<Rightarrow> uchar list" where
  "trim_null_byte s = trim_end_matches (\<lambda>c. c = 0) (trim s)"

definition empty_string_is_none :: "uchar list \<Rightarrow> uchar list option" where
  "empty_string_is_none s = map_empty_to_none (trim_null_byte s)"

text \<open>\<open>str::split_whitespace\<close> gives no empty pieces.\<close>

fun split_whitespace :: "uchar list \<Rightarrow> uchar list \<Rightarrow> uchar list list" where
  "split_whitespace [] word = (if word = [] then [] else [rev word])"
| "split_whitespace (c # cs) word =
    (if is_whitespace c then (if word = [] then [] else [rev word]) @ split_whitespace cs []
     else split_whitespace cs (c # word))"

definition parse_shell_options_list :: "uchar list \<Rightarrow> uchar list set" where
  "parse_shell_options_list s = set (split_whitespace s [])"

definition parse_float_from_string :: "(uchar list \<Rightarrow> 64 word option) \<Rightarrow> uchar list \<Rightarrow> 64 word option" where
  "parse_float_from_string parse_f64 s = (if s = [] then None else parse_f64 s)"

definition parse_bool :: "uchar list \<Rightarrow> bool option" where
  "parse_bool s = (if s = chars ''true'' then Some True else if s = chars ''false'' then Some False else None)"

definition parse_exit_code :: "uchar list \<Rightarrow> int option" where
  "parse_exit_code s =
    (case s of
       [] \<Rightarrow> None
     | c # cs \<Rightarrow>
         if c = ch CHR ''-'' then
           (if cs = [] then None else map_option (\<lambda>n. - int n) (parse_digits (2 ^ 31 + 1) 10 0 cs))
         else map_option int (from_str_radix (2 ^ 31) 10 s))"

definition parse_u64 :: "uchar list \<Rightarrow> nat option" where
  "parse_u64 = from_str_radix U64_END 10"

definition unwrap_or :: "'a \<Rightarrow> 'a option \<Rightarrow> 'a" where
  "unwrap_or d x = (case x of None \<Rightarrow> d | Some y \<Rightarrow> y)"

section \<open>Fields from key-value pairs\<close>

text \<open>A \<open>match\<close> on the key: the update of the first key that is equal, or none.\<close>

definition on_key :: "(string \<times> ('r \<Rightarrow> 'r)) list \<Rightarrow> uchar list \<Rightarrow> 'r \<Rightarrow> 'r" where
  "on_key cases k r =
    (case map_of (map (\<lambda>(n, f). (chars n, f)) cases) k of Some f \<Rightarrow> f r | None \<Rightarrow> r)"

definition command_finished_field :: "uchar list \<Rightarrow> uchar list \<Rightarrow> command_finished_value \<Rightarrow> command_finished_value" where
  "command_finished_field k v =
    on_key [(''exit_code'', cf_exit_code_update (\<lambda>_. unwrap_or 0 (parse_exit_code v))),
            (''next_block_id'', cf_next_block_id_update (\<lambda>_. v))] k"

definition precmd_field :: "uchar list \<Rightarrow> uchar list \<Rightarrow> precmd_value \<Rightarrow> precmd_value" where
  "precmd_field k v =
    on_key [(''pwd'', pc_pwd_update (\<lambda>_. map_empty_to_none v)),
            (''ps1'', pc_ps1_update (\<lambda>_. map_empty_to_none v)),
            (''ps1_is_encoded'', pc_ps1_is_encoded_update (\<lambda>_. parse_bool v)),
            (''honor_ps1'', pc_honor_ps1_update (\<lambda>_. parse_bool v)),
            (''rprompt'', pc_rprompt_update (\<lambda>_. map_empty_to_none v)),
            (''git_head'', pc_git_head_update (\<lambda>_. map_empty_to_none v)),
            (''git_branch'', pc_git_branch_update (\<lambda>_. map_empty_to_none v)),
            (''virtual_env'', pc_virtual_env_update (\<lambda>_. map_empty_to_none v)),
            (''conda_env'', pc_conda_env_update (\<lambda>_. map_empty_to_none v)),
            (''kube_config'', pc_kube_config_update (\<lambda>_. map_empty_to_none v)),
            (''session_id'', pc_session_id_update (\<lambda>_. parse_u64 v))] k"

definition init_shell_field :: "uchar list \<Rightarrow> uchar list \<Rightarrow> init_shell_value \<Rightarrow> init_shell_value" where
  "init_shell_field k v =
    on_key [(''session_id'', is_session_id_update (\<lambda>_. unwrap_or 0 (parse_u64 v))),
            (''shell'', is_shell_update (\<lambda>_. v)),
            (''is_subshell'', is_is_subshell_update (\<lambda>_. unwrap_or False (parse_bool v))),
            (''user'', is_user_update (\<lambda>_. trim_null_byte v)),
            (''hostname'', is_hostname_update (\<lambda>_. trim_null_byte v))] k"

definition bootstrapped_field ::
  "(uchar list \<Rightarrow> 64 word option) \<Rightarrow> uchar list \<Rightarrow> uchar list \<Rightarrow> bootstrapped_value \<Rightarrow> bootstrapped_value" where
  "bootstrapped_field parse_f64 k v =
    on_key [(''histfile'', bs_histfile_update (\<lambda>_. map_empty_to_none v)),
            (''shell'', bs_shell_update (\<lambda>_. trim_null_byte v)),
            (''home_dir'', bs_home_dir_update (\<lambda>_. map_empty_to_none v)),
            (''path'', bs_path_update (\<lambda>_. map_empty_to_none v)),
            (''cdpath'', bs_cdpath_update (\<lambda>_. map_empty_to_none v)),
            (''editor'', bs_editor_update (\<lambda>_. map_empty_to_none v)),
            (''aliases'', bs_aliases_update (\<lambda>_. map_empty_to_none v)),
            (''abbreviations'', bs_abbreviations_update (\<lambda>_. map_empty_to_none v)),
            (''function_names'', bs_function_names_update (\<lambda>_. map_empty_to_none v)),
            (''env_var_names'', bs_env_var_names_update (\<lambda>_. map_empty_to_none v)),
            (''builtins'', bs_builtins_update (\<lambda>_. map_empty_to_none v)),
            (''keywords'', bs_keywords_update (\<lambda>_. map_empty_to_none v)),
            (''shell_version'', bs_shell_version_update (\<lambda>_. map_empty_to_none v)),
            (''shell_options'', bs_shell_options_update (\<lambda>_. Some (parse_shell_options_list v))),
            (''rcfiles_start_time'', bs_rcfiles_start_time_update (\<lambda>_. parse_float_from_string parse_f64 v)),
            (''rcfiles_end_time'', bs_rcfiles_end_time_update (\<lambda>_. parse_float_from_string parse_f64 v)),
            (''shell_plugins'', bs_shell_plugins_update (\<lambda>_. Some (parse_shell_options_list v))),
            (''vi_mode_enabled'', bs_vi_mode_enabled_update (\<lambda>_. map_empty_to_none v)),
            (''os_category'', bs_os_category_update (\<lambda>_. map_empty_to_none v)),
            (''linux_distribution'', bs_linux_distribution_update (\<lambda>_. map_empty_to_none v)),
            (''wsl_name'', bs_wsl_name_update (\<lambda>_. map_empty_to_none v))] k"

fun populate_field ::
  "(uchar list \<Rightarrow> 64 word option) \<Rightarrow> bool \<Rightarrow> uchar list \<Rightarrow> uchar list \<Rightarrow> dproto_hook \<Rightarrow> dproto_hook panics" where
  "populate_field parse_f64 debug k v (CommandFinished x) = Some (CommandFinished (command_finished_field k v x))"
| "populate_field parse_f64 debug k v (Precmd x) = Some (Precmd (precmd_field k v x))"
| "populate_field parse_f64 debug k v (InitShell x) = Some (InitShell (init_shell_field k v x))"
| "populate_field parse_f64 debug k v (Bootstrapped x) =
     Some (Bootstrapped (bootstrapped_field parse_f64 k v x))"
| "populate_field parse_f64 debug k v (Preexec x) = Some (Preexec (if k = chars ''command'' then v else x))"
| "populate_field parse_f64 debug k v ClearHook = Some ClearHook"
| "populate_field parse_f64 debug k v (FinishUpdate x) =
     Some (FinishUpdate (if k = chars ''update_id'' then v else x))"
| "populate_field parse_f64 debug k v (InputBuffer x) =
     Some (InputBuffer (if k = chars ''buffer'' then v else x))"
| "populate_field parse_f64 debug k v (ExitShell x) =
     Some (ExitShell (if k = chars ''session_id'' then unwrap_or 0 (parse_u64 v) else x))"
| "populate_field parse_f64 debug k v h = (if debug then None else Some h)"

text \<open>A pending hook is the hook under construction.\<close>

definition pending_create :: "uchar list \<Rightarrow> bool \<Rightarrow> uchar list \<Rightarrow> dproto_hook option panics" where
  "pending_create fresh_id debug name = default_from_name fresh_id debug name"

definition pending_update ::
  "(uchar list \<Rightarrow> 64 word option) \<Rightarrow> bool \<Rightarrow> uchar list \<Rightarrow> uchar list \<Rightarrow> dproto_hook \<Rightarrow> dproto_hook panics" where
  "pending_update parse_f64 debug k v h =
     populate_field parse_f64 debug k (if is_ansi_c_quoted v then parse_ansi_c_quoted_string v else v) h"

section \<open>Hooks put together from pairs\<close>

text \<open>
  Every hook but one can be started under its own name: the default of a name is a hook of that
  name, and only the hook for an unavailable remote shell has none.
\<close>

theorem hook_names_roundtrip:
  "(\<exists>d. default_from_name fresh_id debug (chars (hook_name h)) = Some (Some d) \<and> hook_name d = hook_name h) \<longleftrightarrow>
     (\<forall>r. h \<noteq> RemoteWarpificationIsUnavailable r)"
  by (cases h) (simp_all add: default_from_name_def default_hooks_def chars_def)

definition updates ::
  "(uchar list \<Rightarrow> 64 word option) \<Rightarrow> bool \<Rightarrow> (uchar list \<times> uchar list) list \<Rightarrow> dproto_hook \<Rightarrow> dproto_hook panics" where
  "updates parse_f64 debug kvs h = fold_panics (\<lambda>(k, v). pending_update parse_f64 debug k v) kvs h"

lemma on_key_update:
  "on_key ((n, f) # cases) k r = (if k = chars n then f r else on_key cases k r)"
  by (simp add: on_key_def)

lemma on_key_Nil: "on_key [] k r = r"
  by (simp add: on_key_def)

text \<open>The prompt of a \<open>Precmd\<close>, as the shell may quote it.\<close>

lemma is_quoted: "is_ansi_c_quoted (ch CHR ''$'' # 0x27 # body @ [0x27])"
  by (simp add: is_ansi_c_quoted_def starts_with_def ends_with_def chars_def ch_def)

text \<open>
  A prompt sent by pairs arrives as the shell meant it: from the default hook of its name, the
  pairs of directory and quoted prompt give the directory as sent and the prompt with every escape
  resolved, whatever other pairs for other fields come between.
\<close>

theorem quoted_prompt_arrives:
  assumes "list_all2 spells outs ws" and "concat outs \<noteq> []"
    and "pwd \<noteq> []" "\<not> is_ansi_c_quoted pwd"
    and "\<forall>(k, v) \<in> set others. k \<noteq> chars ''pwd'' \<and> k \<noteq> chars ''ps1''"
  shows "\<exists>d p. default_from_name fresh_id debug (chars ''Precmd'') = Some (Some d) \<and>
    updates parse_f64 debug
      ((chars ''ps1'', ch CHR ''$'' # 0x27 # concat ws @ [0x27]) # (chars ''pwd'', pwd) # others) d =
      Some (Precmd p) \<and> pc_pwd p = Some pwd \<and> pc_ps1 p = Some (concat outs) \<and>
    \<not> (\<not> pc_is_after_in_band_command p \<and> was_sent_after_in_band_command p)"
proof -
  have others: "\<exists>q. updates parse_f64 debug others (Precmd p) = Some (Precmd q) \<and>
      pc_pwd q = pc_pwd p \<and> pc_ps1 q = pc_ps1 p" for p
    using assms(5)
  proof (induction others arbitrary: p)
    case (Cons kv others)
    obtain k v where kv: "kv = (k, v)" by (cases kv)
    have "pc_pwd (precmd_field k u p) = pc_pwd p \<and> pc_ps1 (precmd_field k u p) = pc_ps1 p" for u
      using Cons.prems kv by (simp add: precmd_field_def on_key_update on_key_Nil)
    moreover have "\<exists>q. updates parse_f64 debug others (Precmd p') = Some (Precmd q) \<and>
        pc_pwd q = pc_pwd p' \<and> pc_ps1 q = pc_ps1 p'" for p'
      using Cons.IH Cons.prems by simp
    ultimately show ?case
      using kv by (simp add: updates_def pending_update_def) metis
  qed (simp add: updates_def)
  let ?p = "default_precmd\<lparr>pc_ps1 := Some (concat outs), pc_pwd := Some pwd\<rparr>"
  have start: "default_from_name fresh_id debug (chars ''Precmd'') = Some (Some (Precmd default_precmd))"
    by (simp add: default_from_name_def default_hooks_def chars_def)
  have "parse_ansi_c_quoted_string (ch CHR ''$'' # 0x27 # concat ws @ [0x27]) = concat outs"
    using assms(1) by (simp add: parse_quoted unescape_spellings)
  then have "updates parse_f64 debug
      ((chars ''ps1'', ch CHR ''$'' # 0x27 # concat ws @ [0x27]) # (chars ''pwd'', pwd) # others) (Precmd default_precmd) =
      updates parse_f64 debug others (Precmd ?p)"
    using assms(2-4)
    by (auto simp: updates_def pending_update_def is_quoted precmd_field_def on_key_update map_empty_to_none_def
        chars_def)
  with others [of ?p] start show ?thesis
    by (auto simp: was_sent_after_in_band_command_def)
qed

theorem quoted_prompt_arrives_witness:
  "\<exists>d p. default_from_name [] True (chars ''Precmd'') = Some (Some d) \<and>
    updates (\<lambda>_. None) True
      ((chars ''ps1'', ch CHR ''$'' # 0x27 # concat [[0x5C, ch CHR ''E''], [0x24]] @ [0x27]) #
       (chars ''pwd'', chars ''/home'') # [(chars ''session_id'', chars ''7'')]) d =
      Some (Precmd p) \<and> pc_pwd p = Some (chars ''/home'') \<and> pc_ps1 p = Some (concat [[0x1B], [0x24]]) \<and>
    \<not> (\<not> pc_is_after_in_band_command p \<and> was_sent_after_in_band_command p)"
  by (rule quoted_prompt_arrives)
    (auto intro!: spells.intros simp: two_character_escapes_def is_ansi_c_quoted_def starts_with_def chars_def ch_def)

end
