(* ===== verification/Ansi_Decoder.thy ===== *)
theory Ansi_Decoder
  imports Term_Screen_Safe Dcs_Hooks Term_Images
begin

text \<open>
  The decoder of escape sequences, \<^verbatim>\<open>app/src/terminal/model/ansi/mod.rs\<close>: what the actions of the \<open>vte\<close>
  parser make of its handler. Calls of the handler are values: those that a grid serves are
  \<open>handler_call\<close>s, the others \<open>session_call\<close>s, and bytes written back to the shell are replies. The
  feature flags, the clock, and the decoders of hexadecimal, base64 and JSON are an environment; what
  the handler answers when it finishes a hook is an argument. Parameters are pairs of their
  first number and their sub-parameters.
\<close>

section \<open>Colors\<close>

definition rgb_color :: "nat \<Rightarrow> nat \<Rightarrow> nat \<Rightarrow> color_u" where
  "rgb_color r g b = \<lparr>cu_r = r, cu_g = g, cu_b = b, cu_a = 255\<rparr>"

definition scale_component :: "uchar list \<Rightarrow> nat option" where
  "scale_component s =
    (if str_len s > 4 then None
     else map_option (\<lambda>v. 255 * v div (16 ^ str_len s - 1) mod 256) (from_str_radix U32_END 16 s))"

definition parse_rgb_color :: "byte list \<Rightarrow> color_u option" where
  "parse_rgb_color color =
    (case map_option (split_at (ch CHR ''/'')) (from_utf8 color) of
       Some [r, g, b] \<Rightarrow>
         do { r \<leftarrow> scale_component r; g \<leftarrow> scale_component g; b \<leftarrow> scale_component b; Some (rgb_color r g b) }
     | _ \<Rightarrow> None)"

text \<open>The shift by the width of the item is checked, the value shifted is not.\<close>

definition color_from_slice :: "byte list \<Rightarrow> nat option panics" where
  "color_from_slice item =
    (case Option.bind (from_utf8 item) (from_str_radix U64_END 16) of
       None \<Rightarrow> Some None
     | Some v \<Rightarrow>
         do { assert_that (4 * (length item - 1) < 64);
              Some (Some (v * 16 mod U64_END div 2 ^ (4 * (length item - 1)) mod 256)) })"

definition parse_legacy_color :: "byte list \<Rightarrow> color_u option panics" where
  "parse_legacy_color color =
    (let item_len = length color div 3 in
     do { r \<leftarrow> color_from_slice (take item_len color);
          case r of None \<Rightarrow> Some None | Some r \<Rightarrow>
          do { g \<leftarrow> color_from_slice (take item_len (drop item_len color));
               case g of None \<Rightarrow> Some None | Some g \<Rightarrow>
               do { b \<leftarrow> color_from_slice (drop (item_len * 2) color);
                    Some (map_option (\<lambda>b. rgb_color r g b) b) } } })"

definition xparse_color :: "byte list \<Rightarrow> color_u option panics" where
  "xparse_color color =
    (if color \<noteq> [] \<and> hd color = ch CHR ''#'' then parse_legacy_color (tl color)
     else if starts_with (chars ''rgb:'') color then Some (parse_rgb_color (drop 4 color))
     else Some None)"

definition parse_number :: "byte list \<Rightarrow> nat option" where
  "parse_number s = (if s = [] then None else parse_number_below 256 0 s)"

definition COLOR_FOREGROUND :: nat where "COLOR_FOREGROUND = 256"
definition COLOR_BACKGROUND :: nat where "COLOR_BACKGROUND = 257"
definition COLOR_CURSOR :: nat where "COLOR_CURSOR = 258"

section \<open>Calls\<close>

datatype tmux_installation_state =
  InstalledByWarpRootInThisSession | InstalledByWarpInThisSession | InstalledByWarpInPriorSession
| InstalledByUser | NotInstalled

definition tmux_installation_from_str :: "uchar list \<Rightarrow> tmux_installation_state option" where
  "tmux_installation_from_str s =
    match_bytes [(''installed_by_warp_root_in_this_session'', Some InstalledByWarpRootInThisSession),
      (''installed_by_warp_in_this_session'', Some InstalledByWarpInThisSession),
      (''warp'', Some InstalledByWarpInPriorSession),
      (''installed_by_warp_in_prior_session'', Some InstalledByWarpInPriorSession),
      (''user'', Some InstalledByUser), (''installed_by_user'', Some InstalledByUser),
      (''not_installed'', Some NotInstalled)] None s"

datatype completions_format = CF_Raw | CF_IncrementallyTyped

definition from_format_type :: "uchar list \<Rightarrow> completions_format option" where
  "from_format_type s =
     match_bytes [(''raw'', Some CF_Raw), (''incrementally_typed'', Some CF_IncrementallyTyped)] None s"

record shell_completion =
  sc_name :: "uchar list"
  sc_description :: "uchar list option"

definition shell_completion_new :: "uchar list \<Rightarrow> shell_completion" where
  "shell_completion_new name = \<lparr>sc_name = trim name, sc_description = None\<rparr>"

datatype session_call =
  SetTitle "uchar list option" | PushTitle | PopTitle | IdentifyTerminal "uchar option" | ReportXtversion
| DeviceStatus nat | TextAreaSizePixels | TextAreaSizeChars | QueryKeyboardFlags | MoveForwardTabs nat
| Substitute | SetColor nat color_u | DynamicColorSequence nat nat string | ResetColor nat
| MarkPrompt prompt_marker | ReceiveHook dproto_hook | NotifySshTmuxIsInstalled tmux_installation_state
| StartReceivingHook "uchar list" | FinishReceivingHook | UpdateHook "uchar list" "uchar list"
| PluggableNotification "uchar list option" "uchar list"
| StartItermImage iterm_image_metadata | ItermImageData "byte list" | EndItermImage
| KittyImageChunk kitty_chunk | EndKittyAction
| StartInBandCommandOutput | EndInBandCommandOutput bool
| StartCompletionsOutput completions_format | EndCompletionsOutput | CompletionResult shell_completion
| UpdateLastCompletion "uchar list" | SendCompletionsPrompt

datatype decoded = Grid handler_call | Session session_call | Reply string

record decoder_env =
  de_ssh_tmux_wrapper :: bool
  de_kitty_images :: bool
  de_windows :: bool
  de_now :: nat
  de_random :: nat
  de_hex :: "uchar list \<Rightarrow> byte list option"
  de_base64 :: "byte list \<Rightarrow> byte list option"
  de_json :: "byte list \<Rightarrow> dproto_hook option"

section \<open>Hooks\<close>

definition handle_decoded_hook :: "dproto_hook option \<Rightarrow> decoded list" where
  "handle_decoded_hook hook =
    (case hook of
       Some (SourcedRcFileForWarp _) \<Rightarrow> []
     | Some (SshTmuxInstaller v) \<Rightarrow>
         (case tmux_installation_from_str v of
            Some t \<Rightarrow> [Session (NotifySshTmuxIsInstalled t)] | None \<Rightarrow> [])
     | Some h \<Rightarrow> [Session (ReceiveHook h)]
     | None \<Rightarrow> [])"

definition handle_unencoded_hook :: "dproto_hook option \<Rightarrow> decoded list" where
  "handle_unencoded_hook hook =
    (case hook of
       Some (InitShell v) \<Rightarrow> [Session (ReceiveHook (InitShell v))]
     | Some (InitSubshell v) \<Rightarrow> [Session (ReceiveHook (InitSubshell v))]
     | Some (SourcedRcFileForWarp v) \<Rightarrow> [Session (ReceiveHook (SourcedRcFileForWarp v))]
     | Some (InitSsh v) \<Rightarrow> [Session (ReceiveHook (InitSsh v))]
     | _ \<Rightarrow> [])"

definition handle_decoded_data :: "decoder_env \<Rightarrow> byte list option \<Rightarrow> decoded list" where
  "handle_decoded_data env data =
    (case data of Some bytes \<Rightarrow> handle_decoded_hook (de_json env bytes) | None \<Rightarrow> [])"

definition param :: "nat \<Rightarrow> byte list list \<Rightarrow> byte list option" where
  "param i params = (if i < length params then Some (params ! i) else None)"

text \<open>\<open>pending\<close> is the hook that the handler has when it is told to finish one.\<close>

definition handle_kv_marker :: "dproto_hook option \<Rightarrow> byte list list \<Rightarrow> decoded list" where
  "handle_kv_marker pending params =
    (if param 2 params = Some (chars ''A'') then
       (case param 3 params of
          None \<Rightarrow> [] | Some hook \<Rightarrow> [Session (StartReceivingHook (from_utf8_lossy hook))])
     else if param 2 params = Some (chars ''C'') then
       Session FinishReceivingHook #
       (case pending of None \<Rightarrow> [] | Some hook \<Rightarrow> handle_decoded_hook (Some hook))
     else if param 2 params = Some (chars ''B'') then
       (case param 3 params of
          None \<Rightarrow> []
        | Some k \<Rightarrow>
            [Session (UpdateHook (from_utf8_lossy k)
               (join [ch CHR '';''] (map from_utf8_lossy (drop 4 params))))])
     else [])"

section \<open>Operating system commands\<close>

definition terminator :: "bool \<Rightarrow> string" where
  "terminator bell_terminated = (if bell_terminated then [CHR 0x07] else [CHR 0x1B, CHR 0x5C])"

text \<open>The parts that are UTF-8, joined and trimmed.\<close>

definition text_of :: "byte list list \<Rightarrow> uchar list" where
  "text_of parts = trim (join [ch CHR '';''] (concat (map (option_list \<circ> from_utf8) parts)))"

fun set_first_color :: "byte list list \<Rightarrow> decoded list panics" where
  "set_first_color (index # color # rest) =
    do { c \<leftarrow> xparse_color color;
         case (parse_number index, c) of
           (Some i, Some c) \<Rightarrow> Some [Session (SetColor i c)]
         | _ \<Rightarrow> set_first_color rest }"
| "set_first_color [index] = None"
| "set_first_color [] = Some []"

fun dynamic_colors :: "bool \<Rightarrow> nat \<Rightarrow> byte list list \<Rightarrow> decoded list panics" where
  "dynamic_colors bel dynamic_code [] = Some []"
| "dynamic_colors bel dynamic_code (p # ps) =
    do { offset \<leftarrow> usub dynamic_code 10;
         let index = COLOR_FOREGROUND + offset;
         if index > COLOR_CURSOR then Some []
         else
           do { color \<leftarrow> xparse_color p;
                let calls = (case color of
                    Some c \<Rightarrow> [Session (SetColor index c)]
                  | None \<Rightarrow> if p = chars ''?''
                           then [Session (DynamicColorSequence dynamic_code index (terminator bel))] else []);
                assert_that (dynamic_code + 1 < 256);
                later \<leftarrow> dynamic_colors bel (dynamic_code + 1) ps;
                Some (calls @ later) } }"

definition desktop_notification :: "byte list list \<Rightarrow> decoded list" where
  "desktop_notification params =
    (if length params \<ge> 2 \<and> \<not> (params ! 1 \<noteq> [] \<and> list_all is_ascii_digit (params ! 1)) then
       (let parts = map from_utf8 (tl params) in
        if None \<in> set parts then []
        else let body = trim (join [ch CHR '';''] (map the parts)) in
          if body \<noteq> [] then [Session (PluggableNotification None body)] else [])
     else [])"

definition notify_notification :: "byte list list \<Rightarrow> decoded list" where
  "notify_notification params =
    (if length params \<ge> 4 \<and> params ! 1 = chars ''notify'' then
       (let title = Option.bind (Option.bind (param 2 params) from_utf8) (\<lambda>s. map_empty_to_none (trim s));
            body = text_of (drop 3 params)
        in if body \<noteq> [] then [Session (PluggableNotification title body)] else [])
     else [])"

definition set_cursor_shape_osc :: "byte list list \<Rightarrow> decoded list" where
  "set_cursor_shape_osc params =
    (if length params \<ge> 2 \<and> length (params ! 1) \<ge> 13 \<and> take 12 (params ! 1) = chars ''CursorShape='' then
       (case map_of [(ch CHR ''0'', CS_Block), (ch CHR ''1'', CS_Beam), (ch CHR ''2'', CS_Underline)]
               (params ! 1 ! 12) of
          Some shape \<Rightarrow> [Grid (Control (SetCursorShape shape))] | None \<Rightarrow> [])
     else [])"

definition clipboard_osc :: "bool \<Rightarrow> byte list list \<Rightarrow> decoded list" where
  "clipboard_osc bel params =
    (if length params < 3 then []
     else
       let clipboard = (case params ! 1 of [] \<Rightarrow> ch CHR ''c'' | c # _ \<Rightarrow> c)
       in if params ! 2 = chars ''?'' then [Grid (Control (LoadClipboard clipboard (terminator bel)))]
          else [Grid (Control (StoreClipboard clipboard (params ! 2)))])"

definition reset_colors :: "byte list list \<Rightarrow> decoded list" where
  "reset_colors params =
    (if length params = 1 then map (\<lambda>i. Session (ResetColor i)) [0..<256]
     else concat (map (\<lambda>p. case parse_number p of Some i \<Rightarrow> [Session (ResetColor i)] | None \<Rightarrow> []) (tl params)))"

text \<open>The second parameter of an inline image is read without checking that there is one.\<close>

definition iterm_image_osc :: "decoder_env \<Rightarrow> byte list list \<Rightarrow> decoded list panics" where
  "iterm_image_osc env params =
    do { first \<leftarrow> nth_checked params 1;
         let metadata = parse_iterm_image_metadata (de_base64 env) (de_random env) params;
         Some (
           if starts_with (chars ''File='') first then
             (case split_once (ch CHR '':'') (last params) of
                None \<Rightarrow> []
              | Some (_, image_data) \<Rightarrow>
                  [Session (StartItermImage metadata), Session (ItermImageData image_data), Session EndItermImage])
           else if starts_with (chars ''MultipartFile='') first then [Session (StartItermImage metadata)]
           else if starts_with (chars ''FilePart='') first then
             (case split_once (ch CHR ''='') first of
                None \<Rightarrow> [] | Some (_, image_data) \<Rightarrow> [Session (ItermImageData image_data)])
           else if starts_with (chars ''FileEnd'') first then [Session EndItermImage]
           else []) }"

definition in_band_osc :: "byte list list \<Rightarrow> decoded list" where
  "in_band_osc params =
    (if param 1 params = Some (chars ''A'') then [Session StartInBandCommandOutput]
     else if param 1 params = Some (chars ''B'') then [Session (EndInBandCommandOutput True)]
     else [])"

definition hook_osc :: "decoder_env \<Rightarrow> dproto_hook option \<Rightarrow> byte list list \<Rightarrow> decoded list" where
  "hook_osc env pending params =
    (case map_option from_utf8_lossy (param 1 params) of
       Some (marker # _) \<Rightarrow>
         if marker = ch CHR ''d'' then
           (case param 2 params of
              None \<Rightarrow> [] | Some data \<Rightarrow> handle_decoded_data env (de_hex env (from_utf8_lossy data)))
         else if marker = ch CHR ''f'' then
           (case param 2 params of
              None \<Rightarrow> []
            | Some data \<Rightarrow> handle_unencoded_hook (de_json env (str_bytes (from_utf8_lossy data))))
         else if marker = ch CHR ''k'' then handle_kv_marker pending params
         else []
     | _ \<Rightarrow> [])"

definition completions_osc :: "byte list list \<Rightarrow> decoded list" where
  "completions_osc params =
    (case param 1 params of
       None \<Rightarrow> []
     | Some b \<Rightarrow>
         if b = chars ''A'' then
           (case Option.bind (map_option from_utf8_lossy (param 2 params)) from_format_type of
              None \<Rightarrow> [] | Some format \<Rightarrow> [Session (StartCompletionsOutput format)])
         else if b = chars ''B'' then [Session EndCompletionsOutput]
         else if b = chars ''C'' then
           (case param 2 params of
              None \<Rightarrow> []
            | Some data \<Rightarrow> [Session (CompletionResult (shell_completion_new (from_utf8_lossy data)))])
         else if starts_with (chars ''D?'') b then
           (case (from_utf8 b, param 2 params) of
              (Some s, Some data) \<Rightarrow>
                if drop 2 s = chars ''description'' then [Session (UpdateLastCompletion (from_utf8_lossy data))]
                else []
            | _ \<Rightarrow> [])
         else if b = chars ''P'' then [Session SendCompletionsPrompt]
         else [])"

definition osc_dispatch ::
  "decoder_env \<Rightarrow> dproto_hook option \<Rightarrow> byte list list \<Rightarrow> bool \<Rightarrow> decoded list panics" where
  "osc_dispatch env pending params bel =
    (if params = [] \<or> hd params = [] then Some []
     else let number = hd params in
       if number = chars ''0'' \<or> number = chars ''2'' then
         Some (if length params \<ge> 2 then [Session (SetTitle (Some (text_of (tl params))))] else [])
       else if number = chars ''4'' then
         (if length params > 1 \<and> odd (length params) then set_first_color (tl params) else Some [])
       else if number = chars ''9'' then Some (desktop_notification params)
       else if number = chars ''10'' \<or> number = chars ''11'' \<or> number = chars ''12'' then
         (if length params \<ge> 2 then
            (case parse_number number of
               Some dynamic_code \<Rightarrow> dynamic_colors bel dynamic_code (tl params) | None \<Rightarrow> Some [])
          else Some [])
       else if number = chars ''50'' then Some (set_cursor_shape_osc params)
       else if number = chars ''52'' then Some (clipboard_osc bel params)
       else if number = chars ''104'' then Some (reset_colors params)
       else if number = chars ''110'' then Some [Session (ResetColor COLOR_FOREGROUND)]
       else if number = chars ''111'' then Some [Session (ResetColor COLOR_BACKGROUND)]
       else if number = chars ''112'' then Some [Session (ResetColor COLOR_CURSOR)]
       else if number = chars ''133'' then
         Some (case prompt_marker_try_from (tl params) of
                 Inr m \<Rightarrow> [Session (MarkPrompt m)] | Inl _ \<Rightarrow> [])
       else if number = chars ''777'' then Some (notify_notification params)
       else if number = chars ''1337'' then iterm_image_osc env params
       else if number = chars ''9277'' then Some (in_band_osc params)
       else if number = chars ''9278'' then Some (hook_osc env pending params)
       else if number = chars ''9279'' then Some [Grid (Control OnResetGrid)]
       else if number = chars ''9280'' then Some (completions_osc params)
       else Some [])"

section \<open>State\<close>

text \<open>Buffered output, with the time in milliseconds at which buffering started or was prolonged.\<close>

datatype sync_output_state = SyncInactive | SyncActive "byte list" nat

definition SYNC_OUTPUT_MAX_TIMEOUT :: nat where "SYNC_OUTPUT_MAX_TIMEOUT = 150"
definition SYNC_OUTPUT_MAX_BUFFER_SIZE :: nat where "SYNC_OUTPUT_MAX_BUFFER_SIZE = 2 * 1024 * 1024"

fun sync_is_active :: "sync_output_state \<Rightarrow> bool" where
  "sync_is_active SyncInactive = False"
| "sync_is_active (SyncActive _ _) = True"

fun sync_activate :: "nat \<Rightarrow> sync_output_state \<Rightarrow> sync_output_state" where
  "sync_activate now SyncInactive = SyncActive [] now"
| "sync_activate now (SyncActive buffer _) = SyncActive buffer now"

fun sync_buffer :: "sync_output_state \<Rightarrow> byte list option" where
  "sync_buffer SyncInactive = None"
| "sync_buffer (SyncActive buffer _) = Some buffer"

definition sync_deactivate :: "sync_output_state \<Rightarrow> byte list option \<times> sync_output_state" where
  "sync_deactivate s = (sync_buffer s, SyncInactive)"

fun sync_remaining_timeout :: "nat \<Rightarrow> sync_output_state \<Rightarrow> nat option" where
  "sync_remaining_timeout now SyncInactive = None"
| "sync_remaining_timeout now (SyncActive _ last_activated_at) =
     Some (last_activated_at + SYNC_OUTPUT_MAX_TIMEOUT - now)"

definition sync_buffer_len :: "sync_output_state \<Rightarrow> nat option" where
  "sync_buffer_len s = map_option length (sync_buffer s)"

record dcs_data =
  dcs_bytes :: "byte list"
  dcs_intermediates :: "byte list"
  dcs_final_char :: uchar

definition dcs_push :: "byte \<Rightarrow> dcs_data \<Rightarrow> dcs_data" where
  "dcs_push b d = d\<lparr>dcs_bytes := dcs_bytes d @ [b]\<rparr>"

definition dcs_on_hook :: "byte list \<Rightarrow> uchar \<Rightarrow> dcs_data \<Rightarrow> dcs_data" where
  "dcs_on_hook intermediates final_char d =
     d\<lparr>dcs_intermediates := intermediates, dcs_final_char := final_char, dcs_bytes := []\<rparr>"

text \<open>The type of the state of tmux control mode is a parameter, as that state contains a decoder again.\<close>

record 't processor_state =
  pr_preceding_char :: "uchar option"
  pr_dcs_data :: dcs_data
  pr_apc_data :: "byte list"
  pr_tmux_control_mode :: "'t option"
  pr_sync_output :: sync_output_state

definition processor_state_new :: "'t processor_state" where
  "processor_state_new =
    \<lparr>pr_preceding_char = None, pr_dcs_data = \<lparr>dcs_bytes = [], dcs_intermediates = [], dcs_final_char = 0\<rparr>,
     pr_apc_data = [], pr_tmux_control_mode = None, pr_sync_output = SyncInactive\<rparr>"


section \<open>Control sequences\<close>

definition next_param_or :: "nat \<Rightarrow> sgr_param list \<Rightarrow> nat" where
  "next_param_or d ps = (case ps of [] \<Rightarrow> d | (p, _) # _ \<Rightarrow> if p = 0 then d else p)"

text \<open>A later parameter, when an earlier one has been taken.\<close>

abbreviation first_or :: "nat \<Rightarrow> sgr_param list \<Rightarrow> nat" where
  "first_or d ps \<equiv> next_param_or d ps"

abbreviation second_or :: "nat \<Rightarrow> sgr_param list \<Rightarrow> nat" where
  "second_or d ps \<equiv> next_param_or d (tl ps)"

definition cursor_csi :: "uchar \<Rightarrow> sgr_param list \<Rightarrow> cursor_call option panics" where
  "cursor_csi action ps =
    (let n = first_or 1 ps in
       if action = ch CHR ''A'' then Some (Some (MoveUp n))
       else if one_of action ''Be'' then Some (Some (MoveDown n))
       else if one_of action ''Ca'' then Some (Some (MoveForward n))
       else if action = ch CHR ''D'' then Some (Some (MoveBackward n))
       else if action = ch CHR ''d'' then do { row \<leftarrow> usub n 1; Some (Some (GotoLine row)) }
       else if action = ch CHR ''E'' then Some (Some (MoveDownAndCr n))
       else if action = ch CHR ''F'' then Some (Some (MoveUpAndCr n))
       else if action = ch CHR ''G'' \<or> action = 0x60 then do { col \<leftarrow> usub n 1; Some (Some (GotoCol col)) }
       else if one_of action ''Hf'' then
         do { y \<leftarrow> usub n 1; x \<leftarrow> usub (second_or 1 ps) 1; Some (Some (Goto y x)) }
       else if action = ch CHR ''s'' then Some (Some SaveCursorPosition)
       else if action = ch CHR ''u'' then Some (Some RestoreCursorPosition)
       else if action = ch CHR ''Z'' then Some (Some (MoveBackwardTabs n))
       else Some None)"

definition edit_csi :: "uchar \<Rightarrow> sgr_param list \<Rightarrow> edit_call option" where
  "edit_csi action ps =
    (let n = first_or 1 ps; m = first_or 0 ps in
       if action = ch CHR ''@'' then Some (InsertBlank n)
       else if action = ch CHR ''g'' then map_option ClearTabs (map_of [(0, TCM_Current), (3, TCM_All)] m)
       else if action = ch CHR ''J'' then
         map_option ClearScreen (map_of [(0, CM_Below), (1, CM_Above), (2, CM_All), (3, CM_Saved)] m)
       else if action = ch CHR ''K'' then
         map_option ClearLine (map_of [(0, LCM_Right), (1, LCM_Left), (2, LCM_All)] m)
       else if action = ch CHR ''L'' then Some (InsertBlankLines n)
       else if action = ch CHR ''M'' then Some (DeleteLines n)
       else if action = ch CHR ''P'' then Some (DeleteChars n)
       else if action = ch CHR ''S'' then Some (ScrollUp n)
       else if action = ch CHR ''T'' then Some (ScrollDown n)
       else if action = ch CHR ''X'' then Some (EraseChars n)
       else None)"

definition session_csi :: "uchar \<Rightarrow> sgr_param list \<Rightarrow> session_call option" where
  "session_csi action ps =
    (if action = ch CHR ''I'' then Some (MoveForwardTabs (first_or 1 ps))
     else if action = ch CHR ''n'' then Some (DeviceStatus (first_or 0 ps))
     else if action = ch CHR ''t'' then
       map_of [(14, TextAreaSizePixels), (18, TextAreaSizeChars), (22, PushTitle), (23, PopTitle)] (first_or 1 ps)
     else None)"

text \<open>Control sequences without an intermediate byte.\<close>

definition plain_csi :: "uchar option \<Rightarrow> uchar \<Rightarrow> sgr_param list \<Rightarrow> decoded list panics" where
  "plain_csi preceding_char action ps =
    (if action = ch CHR ''b'' then
       Some (case preceding_char of
               Some c \<Rightarrow> replicate (first_or 1 ps) (Grid (Cursor (Input c))) | None \<Rightarrow> [])
     else if action = ch CHR ''m'' then
       Some (if ps = [] then [Grid (Control (TerminalAttribute A_Reset))]
             else concat (map (\<lambda>a. case a of Some a \<Rightarrow> [Grid (Control (TerminalAttribute a))] | None \<Rightarrow> [])
                            (attrs_from_sgr_parameters ps)))
     else if action = ch CHR ''r'' then
       (let bottom = second_or 0 ps
        in Some [Grid (Control (SetScrollingRegion (first_or 1 ps) (if bottom = 0 then None else Some bottom)))])
     else
       do { cursor \<leftarrow> cursor_csi action ps;
            Some (case (cursor, edit_csi action ps, session_csi action ps) of
                    (Some c, _, _) \<Rightarrow> [Grid (Cursor c)]
                  | (None, Some c, _) \<Rightarrow> [Grid (Edit c)]
                  | (None, None, Some c) \<Rightarrow> [Session c]
                  | (None, None, None) \<Rightarrow> []) })"

text \<open>Keyboard flags: bits that no flag uses are dropped.\<close>

definition keyboard_csi :: "uchar \<Rightarrow> sgr_param list \<Rightarrow> decoded list" where
  "keyboard_csi intermediate ps =
    (let flags = word_of_nat (first_or 0 ps) AND KM_ALL in
       if intermediate = ch CHR ''='' then
         (case from_kitty_apply_mode (second_or 1 ps) of
            None \<Rightarrow> [] | Some apply_mode \<Rightarrow> [Grid (Control (SetKeyboardFlags flags apply_mode))])
       else if intermediate = ch CHR ''>'' then [Grid (Control (PushKeyboardFlags flags))]
       else if intermediate = ch CHR ''<'' then [Grid (Control (PopKeyboardFlags (first_or 1 ps)))]
       else if intermediate = ch CHR ''?'' then [Session QueryKeyboardFlags]
       else [])"

definition cursor_style_csi :: "sgr_param list \<Rightarrow> decoded list" where
  "cursor_style_csi ps =
    (let style_id = first_or 0 ps;
         style = (\<lambda>shape. \<lparr>cstyle_shape = shape, cstyle_blinking = (style_id mod 2 = 1)\<rparr>)
     in if style_id = 0 then [Grid (Control (SetCursorStyle None))]
        else case map_of [(1, CS_Block), (2, CS_Block), (3, CS_Underline), (4, CS_Underline), (5, CS_Beam),
                          (6, CS_Beam)] style_id of
               Some shape \<Rightarrow> [Grid (Control (SetCursorStyle (Some (style shape))))] | None \<Rightarrow> [])"

text \<open>Setting modes: synchronized output starts buffering.\<close>

fun set_modes :: "nat \<Rightarrow> uchar option \<Rightarrow> sgr_param list \<Rightarrow> sync_output_state \<Rightarrow> decoded list \<times> sync_output_state" where
  "set_modes now intermediate [] sync = ([], sync)"
| "set_modes now intermediate ((num, _) # ps) sync =
    (case mode_from_primitive intermediate num of
       None \<Rightarrow> set_modes now intermediate ps sync
     | Some m \<Rightarrow>
         (case set_modes now intermediate ps (if m = M_SyncOutput then sync_activate now sync else sync) of
            (calls, sync') \<Rightarrow> (Grid (Control (SetMode m)) # calls, sync')))"

definition unset_modes :: "uchar option \<Rightarrow> sgr_param list \<Rightarrow> decoded list" where
  "unset_modes intermediate ps =
    concat (map (\<lambda>(num, _).
      case mode_from_primitive intermediate num of
        Some m \<Rightarrow> if m \<noteq> M_SyncOutput then [Grid (Control (UnsetMode m))] else [] | None \<Rightarrow> []) ps)"

definition report_mode :: "uchar option \<Rightarrow> sgr_param list \<Rightarrow> sync_output_state \<Rightarrow> decoded list" where
  "report_mode intermediate ps sync =
    (if mode_from_primitive intermediate (first_or 0 ps) = Some M_SyncOutput
     then [Reply (csi @ ''?2026;'' @ (if sync_is_active sync then ''1'' else ''2'') @ ''$y'')] else [])"

definition csi_dispatch ::
  "decoder_env \<Rightarrow> sgr_param list \<Rightarrow> byte list \<Rightarrow> bool \<Rightarrow> uchar \<Rightarrow> 't processor_state \<Rightarrow>
     (decoded list \<times> 't processor_state) panics" where
  "csi_dispatch env ps intermediates ignored action st =
    (let intermediate = (case intermediates of [] \<Rightarrow> None | i # _ \<Rightarrow> Some i) in
       if ignored \<or> length intermediates > 2 then Some ([], st)
       else if action = ch CHR ''c'' then
         Some (if first_or 0 ps = 0 then [Session (IdentifyTerminal intermediate)] else [], st)
       else if action = ch CHR ''h'' then
         (case set_modes (de_now env) intermediate ps (pr_sync_output st) of
            (calls, sync) \<Rightarrow> Some (calls, st\<lparr>pr_sync_output := sync\<rparr>))
       else if action = ch CHR ''l'' then Some (unset_modes intermediate ps, st)
       else if action = ch CHR ''p'' then Some (report_mode intermediate ps (pr_sync_output st), st)
       else case intermediate of
         None \<Rightarrow> map_option (\<lambda>calls. (calls, st)) (plain_csi (pr_preceding_char st) action ps)
       | Some i \<Rightarrow>
           Some (if action = ch CHR ''q'' \<and> i = ch CHR '' '' then cursor_style_csi ps
                 else if action = ch CHR ''q'' \<and> i = ch CHR ''>'' then [Session ReportXtversion]
                 else if action = ch CHR ''u'' \<and> \<not> de_windows env then keyboard_csi i ps
                 else [], st))"

section \<open>Escape sequences and control characters\<close>

definition configure_charset_call :: "standard_charset \<Rightarrow> byte list \<Rightarrow> decoded list" where
  "configure_charset_call charset intermediates =
    (case map_of [([ch CHR ''(''], G0), ([ch CHR '')''], G1), ([ch CHR ''*''], G2), ([ch CHR ''+''], G3)]
            intermediates of
       Some index \<Rightarrow> [Grid (Control (ConfigureCharset index charset))] | None \<Rightarrow> [])"

definition esc_dispatch :: "byte list \<Rightarrow> byte \<Rightarrow> decoded list" where
  "esc_dispatch intermediates b =
    (if b = ch CHR ''B'' then configure_charset_call SC_Ascii intermediates
     else if b = ch CHR ''0'' then configure_charset_call SC_SpecialCharacterAndusizeDrawing intermediates
     else if b = ch CHR ''8'' \<and> intermediates = [ch CHR ''#''] then [Grid (Edit Decaln)]
     else if intermediates \<noteq> [] then []
     else if b = ch CHR ''D'' then [Grid (Cursor Linefeed)]
     else if b = ch CHR ''E'' then [Grid (Cursor Linefeed), Grid (Cursor CarriageReturn)]
     else if b = ch CHR ''H'' then [Grid (Edit SetHorizontalTabstop)]
     else if b = ch CHR ''M'' then [Grid (Cursor ReverseIndex)]
     else if b = ch CHR ''Z'' then [Session (IdentifyTerminal None)]
     else if b = ch CHR ''c'' then [Grid (Edit ResetState)]
     else if b = ch CHR ''7'' then [Grid (Cursor SaveCursorPosition)]
     else if b = ch CHR ''8'' then [Grid (Cursor RestoreCursorPosition)]
     else if b = ch CHR ''='' then [Grid (Control SetKeypadApplicationMode)]
     else if b = ch CHR ''>'' then [Grid (Control UnsetKeypadApplicationMode)]
     else [])"

definition execute :: "byte \<Rightarrow> decoded list" where
  "execute b =
    (if b = 0x09 then [Grid (Cursor (PutTab 1))]
     else if b = 0x08 then [Grid (Cursor Backspace)]
     else if b = 0x0D then [Grid (Cursor CarriageReturn)]
     else if b = 0x0A \<or> b = 0x0B \<or> b = 0x0C then [Grid (Cursor Linefeed)]
     else if b = 0x07 then [Grid (Control RingBell)]
     else if b = 0x1A then [Session Substitute]
     else if b = 0x0F then [Grid (Control (SetActiveCharset G0))]
     else if b = 0x0E then [Grid (Control (SetActiveCharset G1))]
     else [])"

section \<open>Device control strings and application commands\<close>

definition hook :: "decoder_env \<Rightarrow> 't \<Rightarrow> sgr_param list \<Rightarrow> byte list \<Rightarrow> uchar \<Rightarrow> 't processor_state \<Rightarrow> 't processor_state" where
  "hook env new_tmux ps intermediates c st =
    (let st = (if de_ssh_tmux_wrapper env \<and> c = ch CHR ''p'' \<and> ps = [(1000, [])]
               then st\<lparr>pr_tmux_control_mode := Some new_tmux\<rparr> else st)
     in st\<lparr>pr_dcs_data := dcs_on_hook intermediates c (pr_dcs_data st)\<rparr>)"

definition put :: "byte \<Rightarrow> 't processor_state \<Rightarrow> 't processor_state" where
  "put b st = st\<lparr>pr_dcs_data := dcs_push b (pr_dcs_data st)\<rparr>"

definition unhook :: "decoder_env \<Rightarrow> 't processor_state \<Rightarrow> decoded list" where
  "unhook env st =
    (let data = from_utf8_lossy (dcs_bytes (pr_dcs_data st)) in
       if dcs_final_char (pr_dcs_data st) = ch CHR ''d'' then handle_decoded_data env (de_hex env data)
       else if dcs_final_char (pr_dcs_data st) = ch CHR ''f''
       then handle_unencoded_hook (de_json env (str_bytes data))
       else [])"

definition apc_end :: "decoder_env \<Rightarrow> 't processor_state \<Rightarrow> decoded list" where
  "apc_end env st =
    (case pr_apc_data st of
       [] \<Rightarrow> []
     | first # data \<Rightarrow>
         if first = ch CHR ''G'' \<and> de_kitty_images env then
           (let chunk = parse_kitty_chunk data in
            Session (KittyImageChunk chunk) #
            (if kc_further_chunks (kchunk_control_data chunk) then [] else [Session EndKittyAction]))
         else [])"

section \<open>All actions\<close>

text \<open>The actions of the parser, the methods of the library's \<open>Perform\<close>.\<close>

datatype vte_action =
  VPrint uchar | VExecute byte | VHook "sgr_param list" "byte list" bool uchar | VPut byte | VUnhook
| VOsc "byte list list" bool | VCsi "sgr_param list" "byte list" bool uchar | VEsc "byte list" bool byte
| VApcStart | VApcPut byte | VApcEnd

fun perform ::
  "decoder_env \<Rightarrow> dproto_hook option \<Rightarrow> 't \<Rightarrow> vte_action \<Rightarrow> 't processor_state \<Rightarrow>
     (decoded list \<times> 't processor_state) panics" where
  "perform env pending new_tmux (VPrint c) st =
     Some ([Grid (Cursor (Input c))], st\<lparr>pr_preceding_char := Some c\<rparr>)"
| "perform env pending new_tmux (VExecute b) st = Some (execute b, st)"
| "perform env pending new_tmux (VHook ps ints ignored c) st = Some ([], hook env new_tmux ps ints c st)"
| "perform env pending new_tmux (VPut b) st = Some ([], put b st)"
| "perform env pending new_tmux VUnhook st = Some (unhook env st, st)"
| "perform env pending new_tmux (VOsc params bel) st =
     map_option (\<lambda>calls. (calls, st)) (osc_dispatch env pending params bel)"
| "perform env pending new_tmux (VCsi ps ints ignored action) st = csi_dispatch env ps ints ignored action st"
| "perform env pending new_tmux (VEsc ints ignored b) st = Some (esc_dispatch ints b, st)"
| "perform env pending new_tmux VApcStart st = Some ([], st\<lparr>pr_apc_data := []\<rparr>)"
| "perform env pending new_tmux (VApcPut b) st = Some ([], st\<lparr>pr_apc_data := pr_apc_data st @ [b]\<rparr>)"
| "perform env pending new_tmux VApcEnd st = Some (apc_end env st, st)"

fun perform_all ::
  "decoder_env \<Rightarrow> dproto_hook option \<Rightarrow> 't \<Rightarrow> vte_action list \<Rightarrow> 't processor_state \<Rightarrow>
     (decoded list \<times> 't processor_state) panics" where
  "perform_all env pending new_tmux [] st = Some ([], st)"
| "perform_all env pending new_tmux (a # as) st =
     do { (calls, st) \<leftarrow> perform env pending new_tmux a st;
          (later, st) \<leftarrow> perform_all env pending new_tmux as st;
          Some (calls @ later, st) }"

end
