(* ===== verification/Ansi_Facts.thy ===== *)
theory Ansi_Facts
  imports Ansi_Decoder
begin

text \<open>
  What the decoder of escape sequences promises: the calls it makes are the ones a grid can serve, images
  aside, it panics only on the commands shown here, colors mean the same in either spelling, and a cursor
  position goes out and comes back.
\<close>

section \<open>The decoded calls are legal\<close>

fun swaps_screen :: "handler_call \<Rightarrow> bool" where
  "swaps_screen (Control (SetMode (M_SwapScreen _))) = True"
| "swaps_screen (Control (UnsetMode (M_SwapScreen _))) = True"
| "swaps_screen _ = False"

fun legal_decoded :: "decoded \<Rightarrow> bool" where
  "legal_decoded (Grid c) = (legal c \<or> swaps_screen c)"
| "legal_decoded _ = True"

lemma legal_mode: "legal (Control (SetMode m)) \<or> swaps_screen (Control (SetMode m))"
    "legal (Control (UnsetMode m)) \<or> swaps_screen (Control (UnsetMode m))"
  by (cases m; simp)+

named_theorems decodes_legal \<open>the calls of one kind of sequence are legal\<close>

lemma next_param_or_pos: "1 \<le> d \<Longrightarrow> 1 \<le> next_param_or d ps"
  by (auto simp: next_param_or_def split: list.split)

lemma legal_execute [decodes_legal]: "list_all legal_decoded (execute b)"
  by (simp add: execute_def)

lemma legal_esc [decodes_legal]: "list_all legal_decoded (esc_dispatch ints b)"
  by (simp add: esc_dispatch_def configure_charset_call_def split: option.split)

lemma legal_hooks [decodes_legal]:
  "list_all legal_decoded (handle_decoded_hook h)" "list_all legal_decoded (handle_unencoded_hook h)"
  by (auto simp: handle_decoded_hook_def handle_unencoded_hook_def split: option.split dproto_hook.split)

lemma legal_data [decodes_legal]:
  "list_all legal_decoded (handle_decoded_data env d)" "list_all legal_decoded (handle_kv_marker pending params)"
  by (auto simp: handle_decoded_data_def handle_kv_marker_def decodes_legal split: option.split)

lemma legal_unhook [decodes_legal]: "list_all legal_decoded (unhook env st)"
  by (simp add: unhook_def Let_def decodes_legal)

lemma legal_apc [decodes_legal]: "list_all legal_decoded (apc_end env st)"
  by (simp add: apc_end_def Let_def split: list.split)

lemma legal_unset_modes [decodes_legal]: "list_all legal_decoded (unset_modes i ps)"
  by (auto simp: unset_modes_def list_all_iff legal_mode split: option.splits prod.splits if_splits)

lemma legal_set_modes: "set_modes now i ps sync = (calls, sync') \<Longrightarrow> list_all legal_decoded calls"
  by (induction now i ps sync arbitrary: calls rule: set_modes.induct)
    (auto simp: legal_mode split: option.splits prod.splits)

lemma legal_keyboard [decodes_legal]:
  "list_all legal_decoded (keyboard_csi i ps)" "list_all legal_decoded (cursor_style_csi ps)"
  "list_all legal_decoded (report_mode j ps sync)"
  by (auto simp: keyboard_csi_def cursor_style_csi_def report_mode_def Let_def split: option.split)

lemma legal_repeat: "list_all legal_decoded (replicate n (Grid (Cursor c)))"
  by (simp add: list_all_iff)

lemma legal_attributes:
  "list_all legal_decoded (concat (map (\<lambda>a. case a of Some a \<Rightarrow> [Grid (Control (TerminalAttribute a))] | None \<Rightarrow> []) as))"
  by (induction "as") (auto split: option.split)

lemma legal_plain: "plain_csi c action ps = Some calls \<Longrightarrow> list_all legal_decoded calls"
  by (auto simp: plain_csi_def Let_def legal_repeat legal_attributes next_param_or_pos
      simp del: One_nat_def split: if_splits option.splits bind_splits)

lemma legal_csi: "csi_dispatch env ps ints ignored action st = Some (calls, st') \<Longrightarrow> list_all legal_decoded calls"
  by (auto simp: csi_dispatch_def Let_def decodes_legal dest: legal_set_modes legal_plain
      split: if_splits option.splits prod.splits list.splits)

lemma legal_first_color: "set_first_color ps = Some calls \<Longrightarrow> list_all legal_decoded calls"
  by (induction ps rule: set_first_color.induct) (auto split: bind_splits option.splits)

lemma legal_dynamic: "dynamic_colors bel code ps = Some calls \<Longrightarrow> list_all legal_decoded calls"
  by (induction bel code ps arbitrary: calls rule: dynamic_colors.induct)
    (auto simp: Let_def split: bind_splits option.splits if_splits)

lemma legal_osc_parts [decodes_legal]:
  "list_all legal_decoded (desktop_notification params)" "list_all legal_decoded (notify_notification params)"
  "list_all legal_decoded (set_cursor_shape_osc params)" "list_all legal_decoded (clipboard_osc bel params)"
  "list_all legal_decoded (in_band_osc params)" "list_all legal_decoded (completions_osc params)"
  "list_all legal_decoded (hook_osc env pending params)" "list_all legal_decoded (reset_colors params)"
  by (auto simp: desktop_notification_def notify_notification_def set_cursor_shape_osc_def
      clipboard_osc_def in_band_osc_def completions_osc_def hook_osc_def reset_colors_def Let_def decodes_legal
      list_all_iff [of _ "concat _"] list_all_iff [of _ "map _ _"]
      split: option.splits list.splits)

lemma legal_iterm: "iterm_image_osc env params = Some calls \<Longrightarrow> list_all legal_decoded calls"
  by (auto simp: iterm_image_osc_def Let_def split: bind_splits option.splits if_splits prod.splits)

lemma legal_osc: "osc_dispatch env pending params bel = Some calls \<Longrightarrow> list_all legal_decoded calls"
  unfolding osc_dispatch_def Let_def
  by (auto simp: decodes_legal dest: legal_first_color legal_dynamic legal_iterm
      split: if_splits option.splits sum.splits)

lemma legal_perform: "perform env pending t a st = Some (calls, st') \<Longrightarrow> list_all legal_decoded calls"
  by (cases a) (auto simp: decodes_legal dest: legal_csi legal_osc)

lemma legal_perform_all:
  "perform_all env pending t as st = Some (calls, st') \<Longrightarrow> list_all legal_decoded calls"
proof (induction "as" arbitrary: st calls)
  case (Cons a "as")
  then obtain c1 st1 c2 where "perform env pending t a st = Some (c1, st1)"
      "perform_all env pending t as st1 = Some (c2, st')" "calls = c1 @ c2"
    by (auto split: bind_splits)
  with Cons.IH legal_perform show ?case by fastforce
qed simp

text \<open>
  The calls a grid gets. Swapping the screens is done above it. The other calls of the session write
  replies, send events or collect data for it, except the ends of images: an image that is complete may
  become a call of the grid, when its data can be decoded, its size is known and its protocol is
  on. What it becomes is an argument, one for each position among the decoded calls.
\<close>

fun grid_call :: "image_call option \<Rightarrow> decoded \<Rightarrow> handler_call list" where
  "grid_call done_image (Grid c) = (if swaps_screen c then [] else [c])"
| "grid_call done_image (Session EndItermImage) = map Image (option_list done_image)"
| "grid_call done_image (Session EndKittyAction) = map Image (option_list done_image)"
| "grid_call done_image _ = []"

definition grid_calls :: "(nat \<Rightarrow> image_call option) \<Rightarrow> decoded list \<Rightarrow> handler_call list" where
  "grid_calls images calls = concat (map (\<lambda>i. grid_call (images i) (calls ! i)) [0..<length calls])"

lemma grid_calls_one: "grid_calls images [Grid c] = (if swaps_screen c then [] else [c])"
  by (simp add: grid_calls_def)

lemma grid_call_legal:
  "legal_decoded d \<Longrightarrow> c \<in> set (grid_call done_image d) \<Longrightarrow> legal c \<or> (\<exists>i. c = Image i)"
  by (cases "(done_image, d)" rule: grid_call.cases) (auto split: if_splits)

lemma grid_calls_legal:
  assumes "list_all legal_decoded calls" and "c \<in> set (grid_calls images calls)"
  shows "legal c \<or> (\<exists>i. c = Image i)"
  using assms(2) grid_call_legal [of _ c] assms(1) by (auto simp: grid_calls_def list_all_length)

text \<open>
  C1. The only output of a program that brings the alternate screen down is an image. Whatever actions the parser
  reports, when the decoder gets through them (it panics on the commands listed further down only), the
  calls it makes, with whatever images they complete, panic on a new alternate screen exactly when they
  come to an image that the screen does not accept: one shown at a size of no rows, or of a number of
  pixels that 32 bits do not hold. Otherwise all of them are served, and then the cursor, the
  rows, the region and the tab stops are within their bounds.
\<close>

theorem decoded_output_never_panics:
  assumes "perform_all env pending t actions st = Some (calls, st')" and "1 \<le> rows" and "2 \<le> cols"
  shows "\<exists>h. handler_new sequential resize_fix rows cols width height limit True False = Some h \<and>
    (handle_all L (grid_calls images calls) h = None \<longleftrightarrow>
       (\<exists>first i rest h1. grid_calls images calls = first @ Image i # rest \<and>
          handle_all L first h = Some h1 \<and> \<not> accepts_image h1 i)) \<and>
    (\<forall>h'. handle_all L (grid_calls images calls) h = Some h' \<longrightarrow> safe rows cols h')"
proof -
  obtain h where h: "handler_new sequential resize_fix rows cols width height limit True False = Some h"
      "safe rows cols h"
    using handler_new_safe [OF assms(2,3)] by (rule endsE)
  let ?refused = "\<exists>first i rest h1. grid_calls images calls = first @ Image i # rest \<and>
      handle_all L first h = Some h1 \<and> \<not> accepts_image h1 i"
  have ?refused if stop: "handle_all L (grid_calls images calls) h = None"
  proof -
    obtain first c rest h1 where r: "grid_calls images calls = first @ c # rest" "handle_all L first h = Some h1"
        "\<not> accepts h1 c"
      using handle_all_stops [OF h(2) stop] by blast
    moreover have "legal c \<or> (\<exists>i. c = Image i)"
      by (rule grid_calls_legal [OF legal_perform_all [OF assms(1)], of c images]) (simp add: r(1))
    ultimately show ?thesis using legal_accepted by fastforce
  qed
  moreover have "handle_all L (grid_calls images calls) h = None" if ?refused
    using that handle_all_refused [OF h(2)] by fastforce
  ultimately have "handle_all L (grid_calls images calls) h = None \<longleftrightarrow> ?refused" by (rule iffI)
  moreover have "\<forall>h'. handle_all L (grid_calls images calls) h = Some h' \<longrightarrow> safe rows cols h'"
    using handle_all_ends_safe [OF h(2)] by blast
  ultimately show ?thesis by (intro exI [of _ h] conjI h(1))
qed

definition sample_env :: decoder_env where
  "sample_env =
    \<lparr>de_ssh_tmux_wrapper = True, de_kitty_images = True, de_windows = False, de_now = 0, de_random = 0,
     de_hex = (\<lambda>_. None), de_base64 = (\<lambda>_. None), de_json = (\<lambda>_. None)\<rparr>"

text \<open>A letter, a region, and a Kitty image that is shown at a size of no rows.\<close>

definition sample_actions :: "vte_action list" where
  "sample_actions =
    [VPrint 0x61, VCsi [(1, []), (3, [])] [] False (ch CHR ''r''), VApcStart, VApcPut (ch CHR ''G''), VApcEnd]"

theorem decoded_output_never_panics_witness:
  "\<exists>calls st' h. perform_all sample_env None () sample_actions processor_state_new = Some (calls, st') \<and>
    handler_new True False 3 5 8 16 100 True False = Some h \<and>
    handle_all sample_libraries (grid_calls (\<lambda>_. Some (ShowKittyImage True 1 2 no_rows 0 1)) calls) h = None"
proof -
  let ?image = "ShowKittyImage True 1 2 no_rows 0 1"
  have not_continued: "\<not> kc_further_chunks (kchunk_control_data (parse_kitty_chunk []))" by code_simp
  let ?first = "[Cursor (Input 0x61), Control (SetScrollingRegion 1 (Some 3))]"
  obtain calls st' where run: "perform_all sample_env None () sample_actions processor_state_new = Some (calls, st')"
      and calls: "grid_calls (\<lambda>_. Some ?image) calls = ?first @ Image ?image # []"
    using not_continued
    by (simp add: sample_actions_def csi_dispatch_def plain_csi_def Let_def sample_env_def grid_calls_def apc_end_def
        next_param_or_def processor_state_new_def option_list_def)
  obtain h where h: "handler_new True False 3 5 8 16 100 True False = Some h" "safe 3 5 h"
    using handler_new_safe [of 3 5 True False 8 16 100] by (auto elim: endsE)
  have "list_all legal ?first" by simp
  from handle_all_safe [OF h(2) this] obtain h1 where first: "handle_all sample_libraries ?first h = Some h1"
    by (rule endsE)
  moreover have "\<not> accepts_image h1 ?image" by (simp add: no_rows_def)
  ultimately have "\<exists>first i rest h1. grid_calls (\<lambda>_. Some ?image) calls = first @ Image i # rest \<and>
      handle_all sample_libraries first h = Some h1 \<and> \<not> accepts_image h1 i"
    using calls by blast
  moreover obtain h' where h': "handler_new True False 3 5 8 16 100 True False = Some h'"
      "handle_all sample_libraries (grid_calls (\<lambda>_. Some ?image) calls) h' = None \<longleftrightarrow>
        (\<exists>first i rest h1. grid_calls (\<lambda>_. Some ?image) calls = first @ Image i # rest \<and>
          handle_all sample_libraries first h' = Some h1 \<and> \<not> accepts_image h1 i)"
    using decoded_output_never_panics [OF run, of 3 5 True False 8 16 100 sample_libraries "\<lambda>_. Some ?image"] by auto
  moreover have "h' = h" using h(1) h'(1) by simp
  ultimately show ?thesis using run h(1) by blast
qed

section \<open>When the decoder panics\<close>

lemma color_from_slice_short: "length s \<le> 16 \<Longrightarrow> color_from_slice s \<noteq> None"
  by (auto simp: color_from_slice_def assert_that_def split: option.splits)

lemma legacy_color_short:
  assumes "length color \<le> 46"
  shows "parse_legacy_color color \<noteq> None"
proof -
  let ?n = "length color div 3"
  have "?n \<le> 16" "length color - ?n * 2 \<le> 16" using assms by linarith+
  then have "color_from_slice (take ?n color) \<noteq> None" "color_from_slice (take ?n (drop ?n color)) \<noteq> None"
    "color_from_slice (drop (?n * 2) color) \<noteq> None"
    by (simp_all add: color_from_slice_short del: not_None_eq)
  then show ?thesis by (auto simp: parse_legacy_color_def Let_def split: option.splits bind_splits)
qed

lemma xparse_color_panics: "xparse_color p = None \<Longrightarrow> 48 \<le> length p \<and> hd p = ch CHR ''#''"
proof (cases p)
  case (Cons c cs)
  assume "xparse_color p = None"
  then have "c = ch CHR ''#''" "parse_legacy_color cs = None"
    using Cons by (auto simp: xparse_color_def split: if_splits)
  moreover from this(2) have "\<not> length cs \<le> 46" using legacy_color_short by blast
  ultimately show ?thesis using Cons by simp
qed (simp add: xparse_color_def starts_with_def chars_def)

lemma set_first_color_panics:
  assumes "set_first_color ps = None" and "even (length ps)"
  shows "\<exists>p \<in> set ps. xparse_color p = None"
  using assms by (induction ps rule: set_first_color.induct) (auto split: bind_splits option.splits)

lemma dynamic_colors_panics:
  assumes "dynamic_colors bel code ps = None" and "10 \<le> code" and "code \<le> 13"
  shows "\<exists>p \<in> set ps. xparse_color p = None"
  using assms
proof (induction bel code ps rule: dynamic_colors.induct)
  case (2 bel code p ps)
  show ?case
  proof (cases "xparse_color p")
    case (Some c)
    have "code \<noteq> 13" using 2(2-) by (auto simp: usub_def COLOR_FOREGROUND_def COLOR_CURSOR_def)
    with 2(2-) Some have "dynamic_colors bel (code + 1) ps = None"
      by (auto simp: usub_def Let_def COLOR_FOREGROUND_def COLOR_CURSOR_def split: if_splits bind_splits)
    moreover have "\<not> COLOR_CURSOR < COLOR_FOREGROUND + (code - 10)"
      using \<open>code \<noteq> 13\<close> 2(4) by (simp add: COLOR_FOREGROUND_def COLOR_CURSOR_def)
    ultimately have "\<exists>p \<in> set ps. xparse_color p = None"
      using 2(1) [of "code - 10"] 2(3,4) \<open>code \<noteq> 13\<close> Some by (auto simp: usub_def)
    then show ?thesis by simp
  qed simp
qed simp

lemma plain_csi_total: "plain_csi c action ps \<noteq> None"
  using next_param_or_pos [of 1 ps] next_param_or_pos [of 1 "tl ps"]
  by (auto simp: plain_csi_def cursor_csi_def Let_def usub_def split: if_splits bind_splits)

lemma csi_dispatch_total: "csi_dispatch env ps ints ignored action st \<noteq> None"
  using plain_csi_total
  by (auto simp: csi_dispatch_def Let_def split: list.splits prod.splits)

lemma osc_panics:
  assumes "osc_dispatch env pending params bel = None"
  shows "params = [chars ''1337''] \<or> (\<exists>p \<in> set params. xparse_color p = None)"
proof (cases "params = [chars ''1337'']")
  case False
  have numbers: "parse_number (chars ''10'') = Some 10" "parse_number (chars ''11'') = Some 11"
    "parse_number (chars ''12'') = Some 12"
    by (simp_all add: parse_number_def chars_def ch_def to_digit.simps)
  have image: "iterm_image_osc env params \<noteq> None" if "hd params = chars ''1337''" "params \<noteq> []"
    using that False by (cases params) (auto simp: iterm_image_osc_def nth_checked_def Let_def split: bind_splits)
  from assms have "set_first_color (tl params) = None \<and> odd (length params) \<or>
      dynamic_colors bel 10 (tl params) = None \<or> dynamic_colors bel 11 (tl params) = None \<or>
      dynamic_colors bel 12 (tl params) = None"
    using image numbers unfolding osc_dispatch_def Let_def
    by (auto split: if_splits option.splits)
  then have "\<exists>p \<in> set (tl params). xparse_color p = None"
    by (auto dest!: set_first_color_panics dynamic_colors_panics)
  then show ?thesis by (cases params) auto
qed simp

text \<open>
  C8. The decoder panics on two kinds of commands only: an inline-image command without arguments, and
  a command with a color of hash form of 48 bytes or more. Everything else it takes or ignores.
\<close>

theorem decoder_panics_only_on:
  assumes "perform env pending t a st = None"
  shows "\<exists>params bel. a = VOsc params bel \<and>
    (params = [chars ''1337''] \<or> (\<exists>p \<in> set params. 48 \<le> length p \<and> hd p = ch CHR ''#''))"
proof (cases a)
  case (VOsc params bel)
  then have "osc_dispatch env pending params bel = None" using assms by simp
  from osc_panics [OF this] VOsc show ?thesis using xparse_color_panics by blast
qed (use assms in \<open>simp_all add: csi_dispatch_total [unfolded not_None_eq] csi_dispatch_total\<close>)


text \<open>
  Both commands do bring the decoder down: an inline-image command without arguments, and a palette
  color of a hash and 51 zeros.
\<close>

theorem decoder_panics_on_hash_color:
  "perform env pending t (VOsc [chars ''1337''] bel) st = None \<and>
   perform env pending t (VOsc [chars ''10'', ch CHR ''#'' # replicate 51 (ch CHR ''0'')] bel) st = None"
proof
  have "parse_number (chars ''10'') = Some 10" by (simp add: parse_number_def chars_def ch_def to_digit.simps)
  moreover have "color_from_slice (replicate 17 (ch CHR ''0'')) = None"
  proof -
    have ascii: "from_utf8 (replicate n (ch CHR ''0'')) = Some (replicate n (ch CHR ''0''))" for n
      by (induction n) (simp_all add: utf8_next_def ch_def)
    have digits: "parse_digits U64_END 16 0 (replicate n (ch CHR ''0'')) = Some 0" for n
      by (induction n) (simp_all add: to_digit.simps ch_def Let_def U64_END_def)
    have "from_str_radix U64_END 16 (replicate (Suc n) (ch CHR ''0'')) = Some 0" for n
      using digits [of "Suc n"] by (simp add: from_str_radix_def del: parse_digits.simps)
    from this [of 16] show ?thesis by (simp add: color_from_slice_def ascii)
  qed
  ultimately show "perform env pending t (VOsc [chars ''10'', ch CHR ''#'' # replicate 51 (ch CHR ''0'')] bel) st = None"
    by (simp add: osc_dispatch_def xparse_color_def parse_legacy_color_def Let_def usub_def COLOR_FOREGROUND_def
        COLOR_CURSOR_def)
      (simp add: chars_def)
  show "perform env pending t (VOsc [chars ''1337''] bel) st = None"
    by (simp add: osc_dispatch_def iterm_image_osc_def nth_checked_def chars_def)
qed

theorem decoder_panics_only_on_witness:
  "\<exists>params bel. VOsc [chars ''1337''] True = VOsc params bel \<and>
    (params = [chars ''1337''] \<or> (\<exists>p \<in> set params. 48 \<le> length p \<and> hd p = ch CHR ''#''))"
proof -
  have "perform sample_env None () (VOsc [chars ''1337''] True) processor_state_new = None"
    by (simp add: osc_dispatch_def iterm_image_osc_def nth_checked_def chars_def)
  then show ?thesis by (rule decoder_panics_only_on)
qed

section \<open>Colors\<close>

lemma from_utf8_ascii: "\<forall>c \<in> set s. c < 0x80 \<Longrightarrow> from_utf8 s = Some s"
  by (induction s) (simp_all add: utf8_next_def)

lemma str_len_ascii: "\<forall>c \<in> set s. c < 0x80 \<Longrightarrow> str_len s = length s"
  by (induction s) (simp_all add: str_len_def len_utf8_def)

lemma hex_digits_ascii: "\<forall>c \<in> set (digits 16 n v). c < 0x80 \<and> c \<noteq> ch CHR ''/''"
  using digits_ascii [of 16 _ n v] by (force simp: ch_def)

lemma scale_two_digits: "v < 256 \<Longrightarrow> scale_component (digits 16 2 v) = Some v"
  using hex_digits_ascii [of 2 v]
  by (simp add: scale_component_def str_len_ascii from_str_radix_digits U32_END_def)

lemma slice_two_digits: "v < 256 \<Longrightarrow> color_from_slice (digits 16 2 v) = Some (Some v)"
  using hex_digits_ascii [of 2 v]
  by (simp add: color_from_slice_def from_utf8_ascii from_str_radix_digits U64_END_def)

text \<open>
  A color of three bytes means the same in both spellings, and every component is exact: as
  \<open>rgb:\<close> with two digits each, and as a hash with six digits.
\<close>

theorem color_spellings_agree:
  assumes "r < 256" "g < 256" "b < 256"
  shows "xparse_color (chars ''rgb:'' @ digits 16 2 r @ chars ''/'' @ digits 16 2 g @ chars ''/'' @ digits 16 2 b) =
      Some (Some (rgb_color r g b)) \<and>
    xparse_color (chars ''#'' @ digits 16 2 r @ digits 16 2 g @ digits 16 2 b) = Some (Some (rgb_color r g b))"
proof
  let ?rgb = "digits 16 2 r @ chars ''/'' @ digits 16 2 g @ chars ''/'' @ digits 16 2 b"
  have "from_utf8 ?rgb = Some ?rgb"
    using hex_digits_ascii [of 2 r] hex_digits_ascii [of 2 g] hex_digits_ascii [of 2 b]
    by (intro from_utf8_ascii) (auto simp: ch_def chars_def)
  moreover have "split_at (ch CHR ''/'') ?rgb = [digits 16 2 r, digits 16 2 g, digits 16 2 b]"
    using split_at_join [of "[digits 16 2 r, digits 16 2 g, digits 16 2 b]" "ch CHR ''/''"]
      hex_digits_ascii [of 2 r] hex_digits_ascii [of 2 g] hex_digits_ascii [of 2 b] by (auto simp: chars_def)
  ultimately show "xparse_color (chars ''rgb:'' @ ?rgb) = Some (Some (rgb_color r g b))"
    using assms by (simp add: xparse_color_def parse_rgb_color_def scale_two_digits starts_with_def chars_def)
  show "xparse_color (chars ''#'' @ digits 16 2 r @ digits 16 2 g @ digits 16 2 b) = Some (Some (rgb_color r g b))"
    using assms by (simp add: xparse_color_def parse_legacy_color_def slice_two_digits Let_def chars_def)
qed

theorem color_spellings_agree_witness:
  "xparse_color (chars ''rgb:'' @ digits 16 2 255 @ chars ''/'' @ digits 16 2 128 @ chars ''/'' @ digits 16 2 7) =
      Some (Some (rgb_color 255 128 7)) \<and>
    xparse_color (chars ''#'' @ digits 16 2 255 @ digits 16 2 128 @ digits 16 2 7) = Some (Some (rgb_color 255 128 7))"
  by (rule color_spellings_agree) simp_all

text \<open>
  A command that sets several palette colors sets the first one only: once a pair of an index and a
  color is read, the pairs after it are dropped.
\<close>

theorem only_first_color_is_set:
  assumes "parse_number index = Some i" and "xparse_color color = Some (Some c)" and "even (length pairs)"
  shows "perform env pending t (VOsc (chars ''4'' # index # color # pairs) bel) st =
    Some ([Session (SetColor i c)], st)"
proof -
  have "osc_dispatch env pending (chars ''4'' # index # color # pairs) bel = Some [Session (SetColor i c)]"
    using assms by (simp add: osc_dispatch_def Let_def chars_def)
  then show ?thesis by simp
qed

theorem only_first_color_is_set_witness:
  "perform sample_env None () (VOsc [chars ''4'', chars ''1'', chars ''#'' @ digits 16 2 255 @ digits 16 2 0 @ digits 16 2 0,
      chars ''2'', chars ''#'' @ digits 16 2 0 @ digits 16 2 255 @ digits 16 2 0] True) processor_state_new =
    Some ([Session (SetColor 1 (rgb_color 255 0 0))], processor_state_new)"
proof -
  have "parse_number (chars ''1'') = Some 1" by (simp add: parse_number_def chars_def ch_def to_digit.simps)
  moreover have "xparse_color (chars ''#'' @ digits 16 2 255 @ digits 16 2 0 @ digits 16 2 0) = Some (Some (rgb_color 255 0 0))"
    by (simp add: chars_def xparse_color_def parse_legacy_color_def slice_two_digits Let_def)
  ultimately show ?thesis by (rule only_first_color_is_set) simp
qed

section \<open>The position of the cursor\<close>

text \<open>The rows that addresses count from and are cut off at: the region in origin mode, else the screen.\<close>

definition addressed_rows :: "handler \<Rightarrow> nat \<times> nat" where
  "addressed_rows h = (if has_mode TM_ORIGIN h then h_scroll_region h else (0, visible_rows h))"

lemma goto_places:
  assumes "safe rows cols h"
  shows "ends (\<lambda>h'. safe rows cols h' \<and> cursor_row h' = min (y + fst (addressed_rows h)) (snd (addressed_rows h) - 1) \<and>
    cursor_col h' = min x (cols - 1)) (goto y x h)"
proof -
  note s = safe_facts [OF assms]
  let ?b = "addressed_rows h"
  have b: "1 \<le> snd ?b" "snd ?b \<le> rows" "snd ?b - 1 < rows" using s(3,8,9,13) by (auto simp: addressed_rows_def)
  have bounds: "(if has_mode TM_ORIGIN h then
                do { max_y \<leftarrow> usub (snd (h_scroll_region h)) 1; Some (fst (h_scroll_region h), max_y) }
              else do { max_y \<leftarrow> usub (visible_rows h) 1; Some (0, max_y) }) = Some (fst ?b, snd ?b - 1)"
    using b by (simp add: addressed_rows_def usub_def split: if_splits)
  have "moves_inside rows cols h (\<lambda>c. set_needs_wrap False
      (c\<lparr>cur_point := VisiblePoint (min (y + fst ?b) (snd ?b - 1)) (min x (cols - 1))\<rparr>))"
    using s(2,6) b by (intro moves_wrap) (auto simp: moves_inside_def cursor_inside_def min_less_iff_disj)
  from update_cursor_safe [OF assms this] show ?thesis
    unfolding goto_def bounds s(14) Let_def bind.bind_lunit fst_conv snd_conv
    by (rule ends_mono) (simp add: cursor_row_def cursor_col_def set_needs_wrap_def)
qed

lemma position_decoded:
  "perform env pending t (VCsi ps [] False (ch CHR ''H'')) st =
      Some ([Grid (Cursor (Goto (first_or 1 ps - 1) (second_or 1 ps - 1)))], st)"
  "perform env pending t (VCsi [(6, [])] [] False (ch CHR ''n'')) st = Some ([Session (DeviceStatus 6)], st)"
  using next_param_or_pos [of 1 ps] next_param_or_pos [of 1 "tl ps"]
  by (simp_all add: csi_dispatch_def plain_csi_def cursor_csi_def edit_csi_def session_csi_def usub_def Let_def ch_def one_of_def
      next_param_or_def [of _ "[_]"] split: list.split)

text \<open>
  C9. The cursor goes where a program sends it and reports where it is. On any alternate screen within its
  bounds, after the sequence that addresses a row and a column, with whatever parameters, the cursor is at
  that row, counted from the start of the scrolling region in origin mode and from the top of the screen
  otherwise, but no further than the last row of either, and at that column, but no further than the last one;
  and the status report then answers with that row and column of the screen. So outside origin mode
  an address on the screen is answered as it was sent.
\<close>

theorem cursor_position_roundtrip:
  assumes "safe rows cols h"
  shows "\<exists>calls h'. perform env pending t (VCsi ps [] False (ch CHR ''H'')) st = Some (calls, st) \<and>
    handle_all L (grid_calls images calls) h = Some h' \<and> safe rows cols h' \<and>
    cursor_row h' = min (first_or 1 ps - 1 + fst (addressed_rows h)) (snd (addressed_rows h) - 1) \<and>
    cursor_col h' = min (second_or 1 ps - 1) (cols - 1) \<and>
    perform env pending t (VCsi [(6, [])] [] False (ch CHR ''n'')) st = Some ([Session (DeviceStatus 6)], st) \<and>
    device_status 6 h' = csi @ decimal (cursor_row h' + 1) @ '';'' @ decimal (cursor_col h' + 1) @ ''R'' \<and>
    (\<not> has_mode TM_ORIGIN h \<and> first_or 1 ps \<le> rows \<and> second_or 1 ps \<le> cols \<longrightarrow>
       device_status 6 h' = csi @ decimal (first_or 1 ps) @ '';'' @ decimal (second_or 1 ps) @ ''R'')"
proof -
  let ?y = "first_or 1 ps" and ?x = "second_or 1 ps"
  obtain h' where h': "goto (?y - 1) (?x - 1) h = Some h'" "safe rows cols h'"
      "cursor_row h' = min (?y - 1 + fst (addressed_rows h)) (snd (addressed_rows h) - 1)"
      "cursor_col h' = min (?x - 1) (cols - 1)"
    using goto_places [OF assms] by (auto elim!: endsE)
  have run: "handle_all L (grid_calls images [Grid (Cursor (Goto (?y - 1) (?x - 1)))]) h = Some h'"
    using h'(1) by (simp add: grid_calls_one handle_all_def)
  have report: "device_status 6 h' = csi @ decimal (cursor_row h' + 1) @ '';'' @ decimal (cursor_col h' + 1) @ ''R''"
    by (simp add: device_status_def)
  have "cursor_row h' + 1 = ?y \<and> cursor_col h' + 1 = ?x" if "\<not> has_mode TM_ORIGIN h" "?y \<le> rows" "?x \<le> cols"
    using that next_param_or_pos [of 1 ps] next_param_or_pos [of 1 "tl ps"] safe_facts(13) [OF assms]
    by (auto simp: h'(3,4) addressed_rows_def)
  then have "\<not> has_mode TM_ORIGIN h \<and> ?y \<le> rows \<and> ?x \<le> cols \<longrightarrow>
      device_status 6 h' = csi @ decimal ?y @ '';'' @ decimal ?x @ ''R''"
    unfolding report by (metis (no_types, lifting))
  then show ?thesis
    by (intro exI conjI) (rule position_decoded(1), rule run, rule h'(2), rule h'(3), rule h'(4), rule position_decoded(2),
      rule report, assumption)
qed

theorem cursor_position_roundtrip_witness:
  "\<exists>h calls h'. handler_new True False 24 80 8 16 100 True False = Some h \<and>
    perform sample_env None () (VCsi [(7, []), (33, [])] [] False (ch CHR ''H'')) processor_state_new =
      Some (calls, processor_state_new) \<and>
    handle_all sample_libraries (grid_calls (\<lambda>_. None) calls) h = Some h' \<and>
    device_status 6 h' = csi @ decimal 7 @ '';'' @ decimal 33 @ ''R''"
proof -
  obtain h where h: "handler_new True False 24 80 8 16 100 True False = Some h" "safe 24 80 h"
    using handler_new_safe [of 24 80 True False 8 16 100] by (auto elim!: endsE)
  have o: "\<not> has_mode TM_ORIGIN h"
    using h(1) by (auto simp: handler_new_def Let_def has_mode_def mode_contains_def default_term_mode_def
        TM_ORIGIN_def TM_SHOW_CURSOR_def TM_LINE_WRAP_def TM_ALTERNATE_SCROLL_def TM_URGENCY_HINTS_def split: bind_splits)
  have p: "first_or 1 [(7, []), (33, [])] = 7" "second_or 1 [(7, []), (33, [])] = 33"
    by (simp_all add: next_param_or_def)
  obtain calls h' where r: "perform sample_env None () (VCsi [(7, []), (33, [])] [] False (ch CHR ''H'')) processor_state_new =
      Some (calls, processor_state_new)" "handle_all sample_libraries (grid_calls (\<lambda>_. None) calls) h = Some h'"
      "\<not> has_mode TM_ORIGIN h \<and> first_or 1 [(7, []), (33, [])] \<le> 24 \<and> second_or 1 [(7, []), (33, [])] \<le> 80 \<longrightarrow>
        device_status 6 h' = csi @ decimal (first_or 1 [(7, []), (33, [])]) @ '';'' @
          decimal (second_or 1 [(7, []), (33, [])]) @ ''R''"
    using cursor_position_roundtrip [OF h(2), of sample_env None "()" "[(7, []), (33, [])]" processor_state_new
      sample_libraries "\<lambda>_. None"] by (elim exE conjE) (rule that; assumption)
  then have "device_status 6 h' = csi @ decimal 7 @ '';'' @ decimal 33 @ ''R''" using o unfolding p by simp
  with h(1) r(1,2) show ?thesis by (intro exI conjI)
qed

end
