(* ===== verification/Ansi_Processor.thy ===== *)
theory Ansi_Processor
  imports Ansi_Decoder Tmux_Control
begin

text \<open>
  The processor around the decoder, \<^verbatim>\<open>app/src/terminal/model/ansi/mod.rs\<close>: bytes go through the
  \<open>vte\<close> parser, are buffered while output is synchronized, and belong to tmux once its control
  mode has started. The parser library is a parameter: a step takes a byte to the actions it
  reports. What reaches the handler is a list of events, and the handler's answers are functions of
  the events before.

  The buffer of a finished update is parsed by a nested call, so that parsing is given fuel;
  \<open>Ansi_Processor_Facts\<close> shows how much is enough.
\<close>

section \<open>World and state\<close>

datatype control_mode_event =
  Starting | ControlModeReady nat nat | BackgroundPaneOutput nat byte | ControlModeExited

datatype event =
  Main decoded | InPane nat decoded | FinishBytes "byte list" bool | ControlMode control_mode_event

text \<open>
  What the processor depends on: the environment of the decoder, the parser library with its new
  parser, the hook the handler has pending after some events, the order in which a hash map gives its entries,
  and whether assertions are compiled in.
\<close>

record 'p world =
  w_env :: decoder_env
  w_vte :: "'p \<Rightarrow> byte \<Rightarrow> vte_action list \<times> 'p"
  w_new :: 'p
  w_pending :: "event list \<Rightarrow> dproto_hook option"
  w_order :: "(nat \<times> byte list) list \<Rightarrow> (nat \<times> byte list) list"
  w_debug :: bool

datatype primary_pane_state = PanePending "(nat \<times> byte list) list" | PaneReady nat

text \<open>The control mode that a pane's own decoder enters is never driven, so that it has no state.\<close>

record 'p tmux_state =
  tm_parser :: parser_state
  tm_inner :: "unit processor_state"
  tm_inner_vte :: 'p
  tm_pane_for_window :: "nat \<Rightarrow> nat option"
  tm_primary_pane :: primary_pane_state

record 'p processor =
  proc_state :: "'p tmux_state processor_state"
  proc_vte :: 'p

definition processor_new :: "'p world \<Rightarrow> 'p processor" where
  "processor_new W = \<lparr>proc_state = processor_state_new, proc_vte = w_new W\<rparr>"

definition tmux_new :: "'p world \<Rightarrow> 'p tmux_state" where
  "tmux_new W =
    \<lparr>tm_parser = BeginningOfLine, tm_inner = processor_state_new, tm_inner_vte = w_new W,
     tm_pane_for_window = Map.empty, tm_primary_pane = PanePending []\<rparr>"

section \<open>One byte for a parser\<close>

fun run_actions ::
  "'p world \<Rightarrow> (decoded \<Rightarrow> event) \<Rightarrow> 't \<Rightarrow> vte_action list \<Rightarrow> 't processor_state \<times> event list \<Rightarrow>
     ('t processor_state \<times> event list) panics" where
  "run_actions W tag new_tmux [] s = Some s"
| "run_actions W tag new_tmux (a # as) (st, evs) =
    do { (calls, st) \<leftarrow> perform (w_env W) (w_pending W evs) new_tmux a st;
         run_actions W tag new_tmux as (st, evs @ map tag calls) }"

definition vte_byte ::
  "'p world \<Rightarrow> (decoded \<Rightarrow> event) \<Rightarrow> 't \<Rightarrow> byte \<Rightarrow> 'p \<Rightarrow> 't processor_state \<times> event list \<Rightarrow>
     ('p \<times> 't processor_state \<times> event list) panics" where
  "vte_byte W tag new_tmux b p s =
    (case w_vte W p b of (actions, p') \<Rightarrow> map_option (Pair p') (run_actions W tag new_tmux actions s))"

section \<open>Tmux control mode\<close>

record 'p tmux_performer =
  tp_state :: "'p tmux_state"
  tp_exited :: bool
  tp_parse_error :: bool
  tp_output :: "byte list"
  tp_events :: "event list"

definition told_event :: "event \<Rightarrow> 'p tmux_performer \<Rightarrow> 'p tmux_performer" where
  "told_event e tp = tp\<lparr>tp_events := tp_events tp @ [e]\<rparr>"

definition process_primary_pane_output ::
  "'p world \<Rightarrow> nat \<Rightarrow> byte \<Rightarrow> 'p tmux_performer \<Rightarrow> 'p tmux_performer panics" where
  "process_primary_pane_output W pane b tp =
    do { (p, st, evs) \<leftarrow> vte_byte W (InPane pane) () b (tm_inner_vte (tp_state tp))
           (tm_inner (tp_state tp), tp_events tp);
         Some (tp\<lparr>tp_state := (tp_state tp)\<lparr>tm_inner_vte := p, tm_inner := st\<rparr>, tp_events := evs\<rparr>) }"

text \<open>\<open>entry(pane).or_default().push(byte)\<close>.\<close>

fun push_pane_byte :: "nat \<Rightarrow> byte \<Rightarrow> (nat \<times> byte list) list \<Rightarrow> (nat \<times> byte list) list" where
  "push_pane_byte pane b [] = [(pane, [b])]"
| "push_pane_byte pane b ((q, bs) # m) =
    (if q = pane then (q, bs @ [b]) # m else (q, bs) # push_pane_byte pane b m)"

definition handle_pane_output ::
  "'p world \<Rightarrow> nat \<Rightarrow> byte \<Rightarrow> 'p tmux_performer \<Rightarrow> 'p tmux_performer panics" where
  "handle_pane_output W pane b tp =
    (case tm_primary_pane (tp_state tp) of
       PanePending m \<Rightarrow>
         Some (tp\<lparr>tp_state := (tp_state tp)\<lparr>tm_primary_pane := PanePending (push_pane_byte pane b m)\<rparr>\<rparr>)
     | PaneReady primary \<Rightarrow>
         if pane = primary
         then process_primary_pane_output W primary b (tp\<lparr>tp_output := tp_output tp @ [b]\<rparr>)
         else Some (told_event (ControlMode (BackgroundPaneOutput pane b)) tp))"

definition flush_pane ::
  "'p world \<Rightarrow> nat \<Rightarrow> nat \<times> byte list \<Rightarrow> 'p tmux_performer \<Rightarrow> 'p tmux_performer panics" where
  "flush_pane W primary entry tp =
    (case entry of (pane, bytes) \<Rightarrow>
       if primary = pane then
         map_option (told_event (FinishBytes bytes False))
           (fold_panics (process_primary_pane_output W primary) bytes tp)
       else Some (fold (\<lambda>b. told_event (ControlMode (BackgroundPaneOutput pane b))) bytes tp))"

definition init_primary_pane ::
  "'p world \<Rightarrow> nat \<Rightarrow> nat \<Rightarrow> 'p tmux_performer \<Rightarrow> 'p tmux_performer panics" where
  "init_primary_pane W window pane tp =
    (let ready = tp\<lparr>tp_state := (tp_state tp)\<lparr>tm_primary_pane := PaneReady pane\<rparr>\<rparr>
     in case tm_primary_pane (tp_state tp) of
          PaneReady _ \<Rightarrow> Some ready
        | PanePending m \<Rightarrow>
            fold_panics (flush_pane W pane) (w_order W m)
              (told_event (ControlMode (ControlModeReady window pane)) ready))"

definition note_window :: "nat \<Rightarrow> nat \<Rightarrow> 'p tmux_performer \<Rightarrow> 'p tmux_performer" where
  "note_window window pane tp =
     tp\<lparr>tp_state := (tp_state tp)\<lparr>tm_pane_for_window := (tm_pane_for_window (tp_state tp))(window \<mapsto> pane)\<rparr>\<rparr>"

definition handle_answer :: "'p world \<Rightarrow> byte list \<Rightarrow> 'p tmux_performer \<Rightarrow> 'p tmux_performer panics" where
  "handle_answer W line tp =
    do { command \<leftarrow> parse_command line;
         case command of
           None \<Rightarrow> Some tp
         | Some (SetPrimaryWindowPane window pane) \<Rightarrow> init_primary_pane W window pane (note_window window pane tp)
         | Some (BackgroundWindow window pane) \<Rightarrow> Some (note_window window pane tp) }"

fun handle_message :: "'p world \<Rightarrow> tmux_message \<Rightarrow> 'p tmux_performer \<Rightarrow> 'p tmux_performer panics" where
  "handle_message W ControlExit tp = Some (tp\<lparr>tp_exited := True\<rparr>)"
| "handle_message W (ParseError _ _) tp = Some (tp\<lparr>tp_exited := True, tp_parse_error := True\<rparr>)"
| "handle_message W (CommandOutput (Inr lines)) tp = fold_panics (handle_answer W) lines tp"
| "handle_message W (CommandOutput (Inl _)) tp = Some tp"
| "handle_message W (UnknownTag _ _) tp = Some tp"
| "handle_message W (WindowClose _) tp = Some tp"

fun handle_tmux_call :: "'p world \<Rightarrow> tmux_call \<Rightarrow> 'p tmux_performer \<Rightarrow> 'p tmux_performer panics" where
  "handle_tmux_call W (PaneOutput pane b) tp = handle_pane_output W pane b tp"
| "handle_tmux_call W (Message m) tp = handle_message W m tp"

definition tmux_byte :: "'p world \<Rightarrow> byte \<Rightarrow> 'p tmux_performer \<Rightarrow> 'p tmux_performer panics" where
  "tmux_byte W b tp =
    do { (calls, parser) \<leftarrow> advance_parser (w_debug W) b (tm_parser (tp_state tp));
         tp \<leftarrow> fold_panics (handle_tmux_call W) calls tp;
         Some (tp\<lparr>tp_state := (tp_state tp)\<lparr>tm_parser := parser\<rparr>\<rparr>) }"

text \<open>Bytes are taken until control mode ends; \<open>k\<close> counts them.\<close>

fun tmux_feed :: "'p world \<Rightarrow> byte list \<Rightarrow> nat \<Rightarrow> 'p tmux_performer \<Rightarrow> (nat \<times> 'p tmux_performer) panics" where
  "tmux_feed W [] k tp = Some (k, tp)"
| "tmux_feed W (b # bs) k tp =
    do { tp \<leftarrow> tmux_byte W b tp;
         if tp_exited tp then Some (k + 1, tp) else tmux_feed W bs (k + 1) tp }"

text \<open>A run of bytes in control mode: how many were taken, and the processor and events after it.\<close>

definition tmux_bytes ::
  "'p world \<Rightarrow> bool \<Rightarrow> 'p tmux_state \<Rightarrow> byte list \<Rightarrow> 'p processor \<times> event list \<Rightarrow>
     (nat \<times> 'p processor \<times> event list) panics" where
  "tmux_bytes W frame tm bytes s =
    (case s of (P, evs) \<Rightarrow>
       do { (k, tp) \<leftarrow> tmux_feed W bytes 0
              \<lparr>tp_state = tm, tp_exited = False, tp_parse_error = False, tp_output = [], tp_events = evs\<rparr>;
            let evs = tp_events tp @ [FinishBytes (tp_output tp) frame];
            if tp_exited tp then
              let evs = evs @ [ControlMode ControlModeExited] in
              if tp_parse_error tp then do { k \<leftarrow> usub k 1; Some (k, processor_new W, evs) }
              else Some (k, P\<lparr>proc_state := (proc_state P)\<lparr>pr_tmux_control_mode := None\<rparr>\<rparr>, evs)
            else Some (k, P\<lparr>proc_state := (proc_state P)\<lparr>pr_tmux_control_mode := Some (tp_state tp)\<rparr>\<rparr>, evs) })"

section \<open>Bytes of the shell\<close>

datatype 'a run = Out_of_fuel | Panicked | Done 'a

fun done_or_panicked :: "'a panics \<Rightarrow> 'a run" where
  "done_or_panicked None = Panicked"
| "done_or_panicked (Some x) = Done x"

type_synonym 'p running = "'p processor \<times> event list"

abbreviation sync_of :: "'p processor \<Rightarrow> sync_output_state" where
  "sync_of P \<equiv> pr_sync_output (proc_state P)"

abbreviation tmux_of :: "'p processor \<Rightarrow> 'p tmux_state option" where
  "tmux_of P \<equiv> pr_tmux_control_mode (proc_state P)"

definition with_sync :: "sync_output_state \<Rightarrow> 'p processor \<Rightarrow> 'p processor" where
  "with_sync sync P = P\<lparr>proc_state := (proc_state P)\<lparr>pr_sync_output := sync\<rparr>\<rparr>"

definition SYNC_START :: "byte list" where "SYNC_START = 0x1B # chars ''[?2026h''"
definition SYNC_END :: "byte list" where "SYNC_END = 0x1B # chars ''[?2026l''"

text \<open>\<open>nested\<close> parses the buffer, as a frame of its own.\<close>

definition finish_sync_output ::
  "(byte list \<Rightarrow> 'p running \<Rightarrow> 'p running run) \<Rightarrow> 'p running \<Rightarrow> 'p running run" where
  "finish_sync_output nested s =
    (case s of (P, evs) \<Rightarrow>
       case sync_deactivate (sync_of P) of
         (None, _) \<Rightarrow> Done s
       | (Some buffer, sync) \<Rightarrow>
           (case nested buffer (with_sync sync P, evs) of
              Done (P, evs) \<Rightarrow> Done (P, evs @ [Main (Grid (Control (UnsetMode M_SyncOutput)))])
            | Panicked \<Rightarrow> Panicked
            | Out_of_fuel \<Rightarrow> Out_of_fuel))"

definition direct_byte :: "'p world \<Rightarrow> byte \<Rightarrow> 'p running \<Rightarrow> 'p running panics" where
  "direct_byte W b s =
    (case s of (P, evs) \<Rightarrow>
       map_option (\<lambda>(p, st, evs). (\<lparr>proc_state = st, proc_vte = p\<rparr>, evs))
         (vte_byte W Main (tmux_new W) b (proc_vte P) (proc_state P, evs)))"

definition parse_byte ::
  "'p world \<Rightarrow> (byte list \<Rightarrow> 'p running \<Rightarrow> 'p running run) \<Rightarrow> byte \<Rightarrow> 'p running \<Rightarrow> 'p running run" where
  "parse_byte W nested b s =
    (case s of (P, evs) \<Rightarrow>
       case sync_of P of
         SyncInactive \<Rightarrow> done_or_panicked (direct_byte W b s)
       | SyncActive buffer at \<Rightarrow>
           let buffer = buffer @ [b];
               len = length buffer;
               offset = len - 8;
               tail = drop offset buffer
           in if tail = SYNC_START
              then Done (with_sync (sync_activate (de_now (w_env W)) (SyncActive (take offset buffer) at)) P, evs)
              else if tail = SYNC_END
              then finish_sync_output nested (with_sync (SyncActive (take offset buffer) at) P, evs)
              else if len \<ge> SYNC_OUTPUT_MAX_BUFFER_SIZE
              then finish_sync_output nested (with_sync (SyncActive buffer at) P, evs)
              else Done (with_sync (SyncActive buffer at) P, evs))"

text \<open>Bytes are taken until control mode starts or buffering starts or ends; \<open>k\<close> counts them.\<close>

fun feed ::
  "'p world \<Rightarrow> (byte list \<Rightarrow> 'p running \<Rightarrow> 'p running run) \<Rightarrow> byte list \<Rightarrow> nat \<Rightarrow> 'p running \<Rightarrow>
     (nat \<times> 'p running) run" where
  "feed W nested [] k s = Done (k, s)"
| "feed W nested (b # bs) k s =
    (case parse_byte W nested b s of
       Out_of_fuel \<Rightarrow> Out_of_fuel
     | Panicked \<Rightarrow> Panicked
     | Done t \<Rightarrow>
         if tmux_of (fst t) \<noteq> None \<or> sync_is_active (sync_of (fst s)) \<noteq> sync_is_active (sync_of (fst t))
         then Done (k + 1, t) else feed W nested bs (k + 1) t)"

fun parse_bytes_internal ::
  "'p world \<Rightarrow> nat \<Rightarrow> bool \<Rightarrow> byte list \<Rightarrow> 'p running \<Rightarrow> 'p running run" where
  "parse_bytes_internal W 0 frame bytes s = Out_of_fuel"
| "parse_bytes_internal W (Suc n) frame bytes s =
    (if bytes = [] then Done s
     else case tmux_of (fst s) of
       None \<Rightarrow>
         (case feed W (parse_bytes_internal W n True) bytes 0 s of
            Out_of_fuel \<Rightarrow> Out_of_fuel
          | Panicked \<Rightarrow> Panicked
          | Done (k, P, evs) \<Rightarrow>
              parse_bytes_internal W n frame (drop k bytes)
                (P, evs @ FinishBytes (take k bytes) frame #
                      (if tmux_of P \<noteq> None then [ControlMode Starting] else [])))
     | Some tm \<Rightarrow>
         (case tmux_bytes W frame tm bytes s of
            None \<Rightarrow> Panicked
          | Some (k, t) \<Rightarrow> parse_bytes_internal W n frame (drop k bytes) t))"

definition parse_bytes :: "'p world \<Rightarrow> nat \<Rightarrow> byte list \<Rightarrow> 'p running \<Rightarrow> 'p running run" where
  "parse_bytes W n bytes s = parse_bytes_internal W n False bytes s"

definition finish_sync_output_now :: "'p world \<Rightarrow> nat \<Rightarrow> 'p running \<Rightarrow> 'p running run" where
  "finish_sync_output_now W n s = finish_sync_output (parse_bytes_internal W n True) s"

end
