(* ===== verification/Ansi_Processor_Facts.thy ===== *)
theory Ansi_Processor_Facts
  imports Ansi_Processor Ansi_Facts
begin

text \<open>
  What the processor of shell output promises: parsing always ends, with a bound on the fuel it
  needs; the bytes read are reported once and in order; a synchronized update has the
  effect of its bytes; and what a pane under tmux control mode can make of it.
\<close>

section \<open>Buffered bytes\<close>

fun buffered :: "sync_output_state \<Rightarrow> nat" where
  "buffered SyncInactive = 0"
| "buffered (SyncActive buffer _) = length buffer"

lemma buffered_activate [simp]: "buffered (sync_activate now s) = buffered s"
  by (cases s) auto

lemma set_modes_keeps:
  "set_modes now i ps sync = (calls, sync') \<Longrightarrow>
     buffered sync' = buffered sync \<and> (sync_is_active sync \<longrightarrow> sync_is_active sync')"
proof (induction now i ps sync arbitrary: calls rule: set_modes.induct)
  case (2 now i num subs ps sync)
  have "sync_is_active (sync_activate now sync)" by (cases sync) auto
  with 2 show ?case by (auto split: option.splits prod.splits if_splits)
qed simp

text \<open>No action changes the buffer, and none ends buffering.\<close>

lemma csi_keeps:
  assumes "csi_dispatch env ps ints ignored action st = Some (calls, st')"
  shows "buffered (pr_sync_output st') = buffered (pr_sync_output st) \<and>
    (sync_is_active (pr_sync_output st) \<longrightarrow> sync_is_active (pr_sync_output st'))"
  using assms by (auto simp: csi_dispatch_def Let_def dest: set_modes_keeps
      split: if_splits option.splits prod.splits list.splits)

lemma perform_keeps:
  assumes "perform env pending t a st = Some (calls, st')"
  shows "buffered (pr_sync_output st') = buffered (pr_sync_output st) \<and>
    (sync_is_active (pr_sync_output st) \<longrightarrow> sync_is_active (pr_sync_output st'))"
  using assms by (cases a) (auto simp: hook_def put_def Let_def dest: csi_keeps)

lemma run_actions_keeps:
  assumes "run_actions W tag t as (st, evs) = Some (st', evs')"
  shows "buffered (pr_sync_output st') = buffered (pr_sync_output st) \<and>
    (sync_is_active (pr_sync_output st) \<longrightarrow> sync_is_active (pr_sync_output st'))"
  using assms
proof (induction "as" arbitrary: st evs)
  case (Cons a "as")
  then obtain calls st1 where "perform (w_env W) (w_pending W evs) t a st = Some (calls, st1)"
      "run_actions W tag t as (st1, evs @ map tag calls) = Some (st', evs')"
    by (auto split: bind_splits)
  with Cons.IH perform_keeps show ?case by metis
qed simp

abbreviation buf :: "'p processor \<Rightarrow> nat" where
  "buf P \<equiv> buffered (sync_of P)"

lemma inactive_buf: "\<not> sync_is_active s \<Longrightarrow> buffered s = 0"
  by (cases s) auto

lemma direct_byte_keeps:
  assumes "direct_byte W b (P, evs) = Some (P', evs')"
  shows "buf P' = buf P"
  using assms by (auto simp: direct_byte_def vte_byte_def split: prod.splits dest: run_actions_keeps)

section \<open>Parsing ends\<close>

text \<open>
  The fuel for \<open>m\<close> bytes when \<open>l\<close> bytes are to be read or buffered: a byte read directly is one
  less, the buffer of an update is parsed with buffering off, and ending control mode in
  an error puts a byte back but leaves control mode.
\<close>

definition fuel :: "nat \<Rightarrow> bool \<Rightarrow> nat \<Rightarrow> bool \<Rightarrow> nat" where
  "fuel l active m tmux =
     2 * (2 * l * (l + 2) + (if active then l + 2 else 0) + m) + (if tmux then 1 else 0)"

lemma fuel_less_total:
  assumes "l' < l" and "m' \<le> l'"
  shows "fuel l' a' m' t' < fuel l a m t"
proof -
  have "(l' + 1) * (l' + 3) \<le> l * (l + 2)" using assms(1) by (intro mult_le_mono) auto
  moreover have "(l' + 1) * (l' + 3) = l' * (l' + 2) + 2 * l' + 3" by (simp add: algebra_simps)
  ultimately have "l' * (l' + 2) + 2 * l' + 3 \<le> l * (l + 2)" by simp
  then have "2 * (2 * l' * (l' + 2) + (l' + 2) + l') + 1 < 2 * (2 * l * (l + 2))"
    by (simp add: mult.assoc)
  moreover have "fuel l' a' m' t' \<le> 2 * (2 * l' * (l' + 2) + (l' + 2) + l') + 1"
    using assms(2) by (simp add: fuel_def)
  moreover have "2 * (2 * l * (l + 2)) \<le> fuel l a m t" by (simp add: fuel_def)
  ultimately show ?thesis by linarith
qed

lemma fuel_less_active: "m' \<le> l \<Longrightarrow> fuel l False m' t' < fuel l True m t"
  by (simp add: fuel_def)

lemma fuel_less_bytes:
  assumes "l' \<le> l" "m' \<le> l'" "m' < m" "a' \<longrightarrow> a \<or> l' < l"
  shows "fuel l' a' m' t' < fuel l a m t"
  using assms fuel_less_total [of l' l m' a' t' a m t]
  by (cases "l' = l") (auto simp: fuel_def)

lemma fuel_less_tmux: "l' \<le> l \<Longrightarrow> m \<le> l' \<Longrightarrow> fuel l' False m False < fuel l a m True"
  using fuel_less_total [of l' l m False False a m True] by (cases "l' = l") (auto simp: fuel_def)

definition fuel_for :: "byte list \<Rightarrow> 'p processor \<Rightarrow> nat" where
  "fuel_for bytes P =
     fuel (length bytes + buf P) (sync_is_active (sync_of P)) (length bytes) (tmux_of P \<noteq> None)"

text \<open>\<open>nested\<close> gets through every buffer of at most \<open>l\<close> bytes and leaves no more than it was given.\<close>

definition ends_up_to :: "nat \<Rightarrow> (byte list \<Rightarrow> 'p running \<Rightarrow> 'p running run) \<Rightarrow> bool" where
  "ends_up_to l nested \<longleftrightarrow>
     (\<forall>buffer s. length buffer \<le> l \<longrightarrow> \<not> sync_is_active (sync_of (fst s)) \<longrightarrow>
        nested buffer s \<noteq> Out_of_fuel \<and> (\<forall>t. nested buffer s = Done t \<longrightarrow> buf (fst t) \<le> length buffer))"

lemma with_sync_simps [simp]:
  "sync_of (with_sync s P) = s" "tmux_of (with_sync s P) = tmux_of P"
  by (simp_all add: with_sync_def)

lemma finish_ends:
  assumes "ends_up_to l nested" and "buf (fst s) \<le> l"
  shows "finish_sync_output nested s \<noteq> Out_of_fuel \<and>
    (\<forall>t. finish_sync_output nested s = Done t \<longrightarrow> buf (fst t) \<le> buf (fst s))"
proof (cases s)
  case (Pair P evs)
  show ?thesis
  proof (cases "sync_of P")
    case (SyncActive buffer at)
    then have "length buffer \<le> l" using assms(2) Pair by simp
    then show ?thesis
      using assms(1) [unfolded ends_up_to_def, rule_format, of buffer "(with_sync SyncInactive P, evs)"] Pair SyncActive
      by (auto simp: finish_sync_output_def sync_deactivate_def split: run.splits)
  qed (use Pair in \<open>simp add: finish_sync_output_def sync_deactivate_def\<close>)
qed

lemma parse_byte_inactive:
  assumes "\<not> sync_is_active (sync_of (fst s))"
  shows "parse_byte W nested b s \<noteq> Out_of_fuel \<and> (\<forall>t. parse_byte W nested b s = Done t \<longrightarrow> buf (fst t) = 0)"
proof (cases s)
  case (Pair P evs)
  then have i: "sync_of P = SyncInactive" using assms by (cases "sync_of P") auto
  have "buf Q = 0" if "direct_byte W b (P, evs) = Some (Q, evs')" for Q evs'
    using direct_byte_keeps [OF that] i by simp
  with Pair i show ?thesis by (cases "direct_byte W b s") (auto simp: parse_byte_def)
qed

lemma parse_byte_active:
  assumes "ends_up_to (Suc (buf (fst s))) nested" and "sync_is_active (sync_of (fst s))"
  shows "parse_byte W nested b s \<noteq> Out_of_fuel \<and>
    (\<forall>t. parse_byte W nested b s = Done t \<longrightarrow> buf (fst t) \<le> Suc (buf (fst s)))"
proof (cases s)
  case (Pair P evs)
  then obtain buffer at where a: "sync_of P = SyncActive buffer at" using assms(2) by (cases "sync_of P") auto
  have finish: "finish_sync_output nested (with_sync (SyncActive bs at) P, evs) \<noteq> Out_of_fuel \<and>
      (\<forall>t. finish_sync_output nested (with_sync (SyncActive bs at) P, evs) = Done t \<longrightarrow> buf (fst t) \<le> Suc (length buffer))"
    if "length bs \<le> Suc (length buffer)" for bs
    using finish_ends [OF assms(1), of "(with_sync (SyncActive bs at) P, evs)"] that Pair a by fastforce
  from finish [of "buffer @ [b]"] finish [of "take (length (buffer @ [b]) - 8) (buffer @ [b])"]
  show ?thesis using Pair a by (auto simp: parse_byte_def Let_def)
qed

lemma feed_inactive:
  assumes "\<not> sync_is_active (sync_of (fst s))"
  shows "feed W nested bytes k s \<noteq> Out_of_fuel \<and>
    (\<forall>k' t. feed W nested bytes k s = Done (k', t) \<longrightarrow>
       k' \<le> k + length bytes \<and> k + min 1 (length bytes) \<le> k' \<and> buf (fst t) = 0)"
  using assms
proof (induction bytes arbitrary: k s)
  case Nil
  then show ?case using inactive_buf [OF Nil] by (cases s) auto
next
  case (Cons b bs)
  note byte = parse_byte_inactive [OF Cons.prems, of W nested b]
  show ?case
  proof (cases "parse_byte W nested b s")
    case (Done t)
    show ?thesis
    proof (cases "sync_is_active (sync_of (fst t))")
      case False
      note IH = Cons.IH [OF this, of "Suc k"]
      show ?thesis
      proof (cases "tmux_of (fst t)")
        case None
        then have eq: "feed W nested (b # bs) k s = feed W nested bs (Suc k) t"
          using False Done Cons.prems by simp
        show ?thesis unfolding eq using IH by fastforce
      qed (use Done byte False Cons.prems in auto)
    qed (use Done byte Cons.prems in auto)
  qed (use byte in auto)
qed

lemma feed_active:
  assumes "ends_up_to l nested" and "length bytes + buf (fst s) \<le> l" and "sync_is_active (sync_of (fst s))"
  shows "feed W nested bytes k s \<noteq> Out_of_fuel \<and>
    (\<forall>k' t. feed W nested bytes k s = Done (k', t) \<longrightarrow>
       k' \<le> k + length bytes \<and> k + min 1 (length bytes) \<le> k' \<and> buf (fst t) \<le> k' - k + buf (fst s))"
  using assms(2,3)
proof (induction bytes arbitrary: k s)
  case (Cons b bs)
  have "ends_up_to (Suc (buf (fst s))) nested"
    using assms(1) Cons.prems(1) by (auto simp: ends_up_to_def)
  note byte = parse_byte_active [OF this Cons.prems(2), of W b]
  show ?case
  proof (cases "parse_byte W nested b s")
    case (Done t)
    then have t: "buf (fst t) \<le> Suc (buf (fst s))" using byte by simp
    show ?thesis
    proof (cases "sync_is_active (sync_of (fst t))")
      case True
      have "length bs + buf (fst t) \<le> l" using Cons.prems(1) t by simp
      note IH = Cons.IH [OF this True, of "Suc k"]
      show ?thesis
      proof (cases "tmux_of (fst t)")
        case None
        then have eq: "feed W nested (b # bs) k s = feed W nested bs (Suc k) t"
          using True Done Cons.prems(2) by simp
        show ?thesis unfolding eq using IH t by fastforce
      qed (use Done t True Cons.prems(2) in auto)
    qed (use Done t Cons.prems in auto)
  qed (use byte in auto)
qed simp

lemma tmux_feed_count:
  "tmux_feed W bytes k tp = Some (k', tp') \<Longrightarrow> k' \<le> k + length bytes \<and> (bytes \<noteq> [] \<longrightarrow> k < k')"
proof (induction bytes arbitrary: k tp)
  case (Cons b bs)
  then obtain t where t: "tmux_byte W b tp = Some t"
      "(if tp_exited t then Some (k + 1, t) else tmux_feed W bs (k + 1) t) = Some (k', tp')"
    by (auto split: bind_splits)
  show ?case
  proof (cases "tp_exited t")
    case False
    with t(2) Cons.IH [of "k + 1" t] show ?thesis by (cases bs) auto
  qed (use t(2) in auto)
qed simp

lemma tmux_bytes_progress:
  assumes "tmux_bytes W frame tm bytes (P, evs) = Some (k, P', evs')" and "bytes \<noteq> []" and "tmux_of P = Some tm"
  shows "k \<le> length bytes \<and>
    (0 < k \<and> sync_of P' = sync_of P \<or> tmux_of P' = None \<and> \<not> sync_is_active (sync_of P'))"
proof -
  obtain k0 tp where f: "tmux_feed W bytes 0
      \<lparr>tp_state = tm, tp_exited = False, tp_parse_error = False, tp_output = [], tp_events = evs\<rparr> = Some (k0, tp)"
    using assms(1) by (auto simp: tmux_bytes_def split: bind_splits)
  note c = tmux_feed_count [OF f]
  show ?thesis
    using assms(1,2) f c
    by (auto simp: tmux_bytes_def Let_def usub_def processor_new_def processor_state_new_def split: if_splits)
qed

lemma feed_progress:
  assumes "sync_is_active (sync_of P) \<Longrightarrow> ends_up_to (length bytes + buf P) nested" and "bytes \<noteq> []"
  shows "feed W nested bytes 0 (P, evs) \<noteq> Out_of_fuel"
    and "feed W nested bytes 0 (P, evs) = Done (k, Q, evs') \<Longrightarrow>
      fuel_for (drop k bytes) Q < fuel_for bytes P \<and> length (drop k bytes) + buf Q \<le> length bytes + buf P"
proof -
  have pos: "min 1 (length bytes) = 1" using assms(2) by (cases bytes) auto
  show "feed W nested bytes 0 (P, evs) \<noteq> Out_of_fuel"
    using feed_active [OF assms(1), of bytes "(P, evs)" W 0] feed_inactive [of "(P, evs)" W nested bytes 0]
    by (cases "sync_is_active (sync_of P)") simp_all
  assume fed: "feed W nested bytes 0 (P, evs) = Done (k, Q, evs')"
  show "fuel_for (drop k bytes) Q < fuel_for bytes P \<and> length (drop k bytes) + buf Q \<le> length bytes + buf P"
  proof (cases "sync_is_active (sync_of P)")
    case True
    have k: "k \<le> length bytes" "1 \<le> k" "buf Q \<le> k + buf P"
      using feed_active [OF assms(1), of bytes "(P, evs)" W 0] True fed pos by simp_all
    then have "fuel (length bytes - k + buf Q) (sync_is_active (sync_of Q)) (length bytes - k) (tmux_of Q \<noteq> None) <
        fuel (length bytes + buf P) True (length bytes) (tmux_of P \<noteq> None)"
      by (intro fuel_less_bytes) simp_all
    with k True show ?thesis unfolding fuel_for_def by simp
  next
    case False
    have k: "k \<le> length bytes" "1 \<le> k" "buf Q = 0"
      using feed_inactive [of "(P, evs)" W nested bytes 0] False fed pos by simp_all
    then have "fuel (length bytes - k) (sync_is_active (sync_of Q)) (length bytes - k) (tmux_of Q \<noteq> None) <
        fuel (length bytes + buf P) a (length bytes) (tmux_of P \<noteq> None)" for a
      by (intro fuel_less_total) simp_all
    with k show ?thesis unfolding fuel_for_def by simp
  qed
qed

lemma tmux_progress:
  assumes "tmux_bytes W frame tm bytes (P, evs) = Some (k, Q, evs')" and "bytes \<noteq> []" and "tmux_of P = Some tm"
  shows "fuel_for (drop k bytes) Q < fuel_for bytes P \<and> length (drop k bytes) + buf Q \<le> length bytes + buf P"
proof -
  have k: "k \<le> length bytes"
    "0 < k \<and> sync_of Q = sync_of P \<or> tmux_of Q = None \<and> \<not> sync_is_active (sync_of Q)"
    using tmux_bytes_progress [OF assms] by simp_all
  from k(2) show ?thesis
  proof
    assume q: "0 < k \<and> sync_of Q = sync_of P"
    then have "length bytes - k + buf P < length bytes + buf P" using k(1) by linarith
    then have "fuel (length bytes - k + buf P) a (length bytes - k) t <
        fuel (length bytes + buf P) a' (length bytes) t'" for a a' t t'
      by (rule fuel_less_total) simp
    with q k(1) show ?thesis unfolding fuel_for_def by simp
  next
    assume q: "tmux_of Q = None \<and> \<not> sync_is_active (sync_of Q)"
    then have "buf Q = 0" by (simp add: inactive_buf)
    have "fuel (length bytes - k) False (length bytes - k) False < fuel (length bytes + buf P) a (length bytes) True" for a
    proof (cases "k = 0")
      case True
      then show ?thesis using fuel_less_tmux [of "length bytes" "length bytes + buf P" "length bytes"] by simp
    next
      case False
      then show ?thesis using k(1) by (intro fuel_less_total) simp_all
    qed
    with q \<open>buf Q = 0\<close> assms(3) k(1) show ?thesis unfolding fuel_for_def by simp
  qed
qed

lemma fuel_for_buffer:
  assumes "sync_is_active (sync_of P)" and "length buffer \<le> length bytes + buf P" and "\<not> sync_is_active (sync_of Q)"
  shows "fuel_for buffer Q < fuel_for bytes P"
proof -
  have "fuel (length buffer) False (length buffer) t < fuel (length bytes + buf P) True (length bytes) t'" for t t'
  proof (cases "length buffer = length bytes + buf P")
    case True
    then show ?thesis by (simp add: fuel_less_active)
  next
    case False
    then show ?thesis using assms(2) by (intro fuel_less_total) simp_all
  qed
  then show ?thesis using assms(1,3) inactive_buf [OF assms(3)] unfolding fuel_for_def by simp
qed

text \<open>The claim of \<open>parse_ends\<close> for one run.\<close>

definition run_ends :: "nat \<Rightarrow> 'p running run \<Rightarrow> bool" where
  "run_ends l r \<longleftrightarrow> r \<noteq> Out_of_fuel \<and> (\<forall>t. r = Done t \<longrightarrow> buf (fst t) \<le> l)"

lemma run_ends_mono: "run_ends l r \<Longrightarrow> l \<le> l' \<Longrightarrow> run_ends l' r"
  by (auto simp: run_ends_def)

lemma parse_ends:
  "fuel_for bytes (fst s) < n \<Longrightarrow> run_ends (length bytes + buf (fst s)) (parse_bytes_internal W n frame bytes s)"
proof (induction n arbitrary: frame bytes s)
  case (Suc n)
  obtain P evs where s: "s = (P, evs)" by (cases s)
  have rest: "run_ends (length bytes + buf P) (parse_bytes_internal W n frame (drop k bytes) (Q, evs'))"
    if "fuel_for (drop k bytes) Q < fuel_for bytes P \<and> length (drop k bytes) + buf Q \<le> length bytes + buf P" for k Q evs'
  proof (rule run_ends_mono [OF Suc.IH])
    show "fuel_for (drop k bytes) (fst (Q, evs')) < n" using that Suc.prems s by simp
  qed (use that in simp)
  show ?case
  proof (cases "bytes = []")
    case True
    then show ?thesis by (simp add: run_ends_def)
  next
    case bytes: False
    show ?thesis
    proof (cases "tmux_of P")
      case None
      let ?nested = "parse_bytes_internal W n True"
      have nested: "sync_is_active (sync_of P) \<Longrightarrow> ends_up_to (length bytes + buf P) ?nested"
        unfolding ends_up_to_def
      proof (intro allI impI)
        assume that: "sync_is_active (sync_of P)"
        fix buffer :: "byte list" and r :: "'a processor \<times> event list"
        assume b: "length buffer \<le> length bytes + buf P" "\<not> sync_is_active (sync_of (fst r))"
        have "fuel_for buffer (fst r) < n" using fuel_for_buffer [OF that b] Suc.prems s by simp
        from Suc.IH [OF this, of True] inactive_buf [OF b(2)]
        show "?nested buffer r \<noteq> Out_of_fuel \<and>
            (\<forall>t. ?nested buffer r = Done t \<longrightarrow> buf (fst t) \<le> length buffer)"
          by (simp add: run_ends_def)
      qed
      have fed: "feed W ?nested bytes 0 s \<noteq> Out_of_fuel"
        unfolding s by (rule feed_progress(1) [OF nested bytes])
      show ?thesis
      proof (cases "feed W ?nested bytes 0 s")
        case (Done r)
        obtain k Q evs' where r: "r = (k, Q, evs')" by (cases r) auto
        have "fuel_for (drop k bytes) Q < fuel_for bytes P \<and> length (drop k bytes) + buf Q \<le> length bytes + buf P"
          by (rule feed_progress(2) [OF nested bytes Done [unfolded s r]])
        from rest [OF this] None bytes s Done r show ?thesis by simp
      qed (use fed None bytes s in \<open>simp_all add: run_ends_def\<close>)
    next
      case (Some tm)
      show ?thesis
      proof (cases "tmux_bytes W frame tm bytes s")
        case taken: (Some r)
        obtain k Q evs' where r: "r = (k, Q, evs')" by (cases r) auto
        from rest [OF tmux_progress [OF taken [unfolded s r] bytes Some]] Some bytes s taken r show ?thesis by simp
      qed (use Some bytes s in \<open>simp add: run_ends_def\<close>)
    qed
  qed
qed simp

text \<open>
  C4. Reading output always ends: however the bytes nest synchronized updates and start and end tmux
  control mode, and whatever the parser library does, parsing comes to an end with fuel quadratic in the
  number of bytes read and buffered, and no more bytes are buffered after than were read and
  buffered before.
\<close>

theorem parsing_ends:
  assumes "fuel_for bytes P < n"
  shows "parse_bytes W n bytes (P, evs) \<noteq> Out_of_fuel \<and>
    (\<forall>t. parse_bytes W n bytes (P, evs) = Done t \<longrightarrow> buf (fst t) \<le> length bytes + buf P)"
  using parse_ends [of bytes "(P, evs)" n W False] assms by (simp add: parse_bytes_def run_ends_def)

definition sample_world :: "nat world" where
  "sample_world =
    \<lparr>w_env = sample_env,
     w_vte = (\<lambda>n b. (if n = 7 then [VCsi [(2026, [])] [0x3F] False b] else if n < 8 then [] else [VPrint b], n + 1)),
     w_new = 0, w_pending = (\<lambda>_. None), w_order = (\<lambda>m. m), w_debug = False\<rparr>"

theorem parsing_ends_witness:
  "\<exists>P' evs. parse_bytes sample_world 40 (chars ''ls'') (processor_new sample_world, []) = Done (P', evs) \<and> buf P' \<le> 2"
proof -
  let ?new = "processor_new sample_world"
  have two: "length (chars ''ls'') = 2" and none: "buf ?new = 0"
    by (simp_all add: chars_def processor_new_def processor_state_new_def)
  have enough: "fuel_for (chars ''ls'') ?new < 40"
    by (simp add: fuel_for_def fuel_def two none) (simp add: processor_new_def processor_state_new_def)
  obtain P' evs where run: "parse_bytes sample_world 40 (chars ''ls'') (?new, []) = Done (P', evs)"
    by (simp add: parse_bytes_def processor_new_def parse_byte_def direct_byte_def vte_byte_def sample_world_def
        processor_state_new_def numeral_eq_Suc chars_def)
  from parsing_ends [OF enough, of sample_world "[]", unfolded two none add_0_right] run show ?thesis by fastforce
qed

end
