(* ===== verification/Ansi_Sync_Facts.thy ===== *)
theory Ansi_Sync_Facts
  imports Ansi_Processor_Facts
begin

text \<open>
  Synchronized updates: what an update does, what of it a pane under tmux control mode gets, and that
  the bytes read are reported once and in order around it.
\<close>

section \<open>The effect of an update\<close>

text \<open>What the parser library reports for some bytes.\<close>

fun vte_read :: "'p world \<Rightarrow> 'p \<Rightarrow> byte list \<Rightarrow> vte_action list \<times> 'p" where
  "vte_read W p [] = ([], p)"
| "vte_read W p (b # bs) =
    (case w_vte W p b of (acts, p') \<Rightarrow> case vte_read W p' bs of (acts', p'') \<Rightarrow> (acts @ acts', p''))"

lemma feed_silent:
  assumes "vte_read W (proc_vte P) bs = ([], p')" and "sync_of P = SyncInactive" and "tmux_of P = None"
  shows "feed W nested (bs @ rest) k (P, evs) = feed W nested rest (k + length bs) (P\<lparr>proc_vte := p'\<rparr>, evs)"
  using assms
proof (induction bs arbitrary: P k)
  case (Cons b bs)
  then obtain p1 where "w_vte W (proc_vte P) b = ([], p1)" and rest: "vte_read W p1 bs = ([], p')"
    by (auto split: prod.splits)
  then have "parse_byte W nested b (P, evs) = Done (P\<lparr>proc_vte := p1\<rparr>, evs)"
    using Cons.prems(2) by (simp add: parse_byte_def direct_byte_def vte_byte_def)
  then show ?case using Cons.IH [of "P\<lparr>proc_vte := p1\<rparr>" "Suc k"] rest Cons.prems(2,3) by simp
next
  case Nil
  then have "p' = proc_vte P" by simp
  then show ?case by simp
qed

lemma marker_length [simp]: "length SYNC_START = 8" "length SYNC_END = 8"
  by (simp_all add: SYNC_START_def SYNC_END_def chars_def)

lemma markers_differ: "SYNC_END \<noteq> SYNC_START"
  by (simp add: SYNC_START_def SYNC_END_def chars_def ch_def)

lemma with_sync_twice [simp]: "with_sync s (with_sync t P) = with_sync s P"
  by (simp add: with_sync_def)

definition marker_free :: "byte list \<Rightarrow> bool" where
  "marker_free bs \<longleftrightarrow> (\<forall>a c. bs \<noteq> a @ SYNC_START @ c \<and> bs \<noteq> a @ SYNC_END @ c)"

lemma marker_free_tail:
  assumes "marker_free bs"
  shows "drop (length bs - 8) bs \<noteq> SYNC_START" "drop (length bs - 8) bs \<noteq> SYNC_END"
  using assms append_take_drop_id [of "length bs - 8" bs] unfolding marker_free_def
  by (metis append_Nil2)+

lemma marker_free_take: "marker_free (a @ c) \<Longrightarrow> marker_free a"
  unfolding marker_free_def by (metis append_assoc)

lemma feed_buffered:
  assumes "marker_free (buffer @ bs)" and "length buffer + length bs < SYNC_OUTPUT_MAX_BUFFER_SIZE"
    and "tmux_of P = None"
  shows "feed W nested (bs @ rest) k (with_sync (SyncActive buffer at) P, evs) =
    feed W nested rest (k + length bs) (with_sync (SyncActive (buffer @ bs) at) P, evs)"
  using assms
proof (induction bs arbitrary: buffer k)
  case (Cons b bs)
  have "marker_free (buffer @ [b])" using Cons.prems(1) marker_free_take [of "buffer @ [b]" bs] by simp
  note tail = marker_free_tail [OF this]
  have "parse_byte W nested b (with_sync (SyncActive buffer at) P, evs) = Done (with_sync (SyncActive (buffer @ [b]) at) P, evs)"
    using tail Cons.prems(2) by (simp add: parse_byte_def Let_def)
  then show ?case using Cons.IH [of "buffer @ [b]" "Suc k"] Cons.prems by simp
qed simp

text \<open>No marker straddles the end of the content: escape only begins one.\<close>

lemma marker_not_straddled:
  assumes "marker_free content"
  shows "marker_free (content @ butlast SYNC_END)"
proof -
  have no: False if m: "content @ butlast SYNC_END = a @ m @ c" and len: "length m = 8"
      and esc: "\<forall>i \<in> {1..<8}. m ! i \<noteq> 0x1B" and free: "\<forall>a c. content \<noteq> a @ m @ c" for a m c
  proof (cases "length a + 8 \<le> length content")
    case True
    then have "content = a @ m @ take (length content - length a - 8) c"
      using arg_cong [OF m, of "take (length content)"] len by simp
    with free show False by blast
  next
    case False
    let ?i = "length content - length a"
    have "length a + 8 \<le> length content + 7" using arg_cong [OF m, of length] len by simp
    then have i: "1 \<le> ?i" "?i < 8" "length a + ?i = length content" using False by auto
    have "(content @ butlast SYNC_END) ! length content = 0x1B"
      by (simp add: nth_append SYNC_END_def chars_def)
    then have "m ! ?i = 0x1B" using i len m by (simp add: nth_append)
    with esc i show False by simp
  qed
  have "\<forall>i \<in> {1..<8}. m ! i \<noteq> 0x1B" if "m = SYNC_START \<or> m = SYNC_END" for m
  proof
    fix i :: nat assume "i \<in> {1..<8}"
    then have "i \<in> {1, 2, 3, 4, 5, 6, 7}" by auto
    with that show "m ! i \<noteq> 0x1B" by (auto simp: SYNC_START_def SYNC_END_def chars_def ch_def)
  qed
  with no assms show ?thesis unfolding marker_free_def by (metis marker_length)
qed

lemma parse_fed:
  assumes "feed W (parse_bytes_internal W n True) bytes 0 (P, evs) = Done (k, Q, evs')"
    and "bytes \<noteq> []" "tmux_of P = None"
  shows "parse_bytes_internal W (Suc n) frame bytes (P, evs) =
    parse_bytes_internal W n frame (drop k bytes)
      (Q, evs' @ FinishBytes (take k bytes) frame # (if tmux_of Q \<noteq> None then [ControlMode Starting] else []))"
  using assms by simp

text \<open>
  A processor that buffers nothing and is not in control mode; the rest of its state is arbitrary: the last
  character, the data a device sequence has collected, and the state of the parser library.
\<close>

definition idle :: "'p processor \<Rightarrow> bool" where
  "idle P \<longleftrightarrow> sync_of P = SyncInactive \<and> tmux_of P = None"

lemma synchronized_run:
  assumes P: "idle P"
    and silent: "vte_read W (proc_vte P) (butlast SYNC_START) = ([], p1)"
    and marker: "w_vte W p1 (ch CHR ''h'') = ([VCsi [(2026, [])] [0x3F] False (ch CHR ''h'')], p2)"
    and content: "marker_free content" "length content + 7 < SYNC_OUTPUT_MAX_BUFFER_SIZE"
    and parsed: "parse_bytes_internal W (Suc n) True content (P\<lparr>proc_vte := p2\<rparr>,
        evs @ [Main (Grid (Control (SetMode M_SyncOutput))), FinishBytes SYNC_START False]) = Done (Q, evs')"
  shows "parse_bytes W (Suc (Suc (Suc n))) (SYNC_START @ content @ SYNC_END) (P, evs) =
    Done (Q, evs' @ [Main (Grid (Control (UnsetMode M_SyncOutput))), FinishBytes (content @ SYNC_END) False] @
         (if tmux_of Q \<noteq> None then [ControlMode Starting] else []))"
proof -
  let ?set = "Main (Grid (Control (SetMode M_SyncOutput)))"
  let ?active = "\<lambda>buffer. with_sync (SyncActive buffer (de_now (w_env W))) (P\<lparr>proc_vte := p2\<rparr>)"
  have start: "SYNC_START = butlast SYNC_START @ [ch CHR ''h'']"
    by (simp add: SYNC_START_def chars_def ch_def)
  have stop: "SYNC_END = butlast SYNC_END @ [ch CHR ''l'']"
    by (simp add: SYNC_END_def chars_def ch_def)
  have idle: "sync_of P = SyncInactive" "tmux_of P = None" using P by (simp_all add: idle_def)
  have nonempty: "SYNC_START \<noteq> []" "SYNC_END \<noteq> []" by (simp_all add: SYNC_START_def SYNC_END_def)
  have tmux: "tmux_of (?active buffer) = None" for buffer using idle(2) by (simp add: with_sync_def)
  have sync: "sync_of (?active buffer) = SyncActive buffer (de_now (w_env W))" for buffer
    by (simp add: with_sync_def)
  have unbuffered: "with_sync SyncInactive (P\<lparr>proc_vte := p2\<rparr>) = P\<lparr>proc_vte := p2\<rparr>"
    using idle(1) by (simp add: with_sync_def)
  have activate: "parse_byte W nested (ch CHR ''h'') (P\<lparr>proc_vte := p1\<rparr>, evs) = Done (?active [], evs @ [?set])" for nested
    using marker idle by (simp add: parse_byte_def direct_byte_def vte_byte_def csi_dispatch_def Let_def with_sync_def
        ch_def mode_from_primitive_def private_modes_def)
  have first: "feed W nested (SYNC_START @ content @ SYNC_END) 0 (P, evs) = Done (8, ?active [], evs @ [?set])" for nested
    by (subst start, simp only: append_assoc, subst feed_silent [OF silent idle])
      (simp add: activate idle sync)
  have second: "feed W nested (content @ SYNC_END) 0 (?active [], es) =
      feed W nested [ch CHR ''l''] (length content + 7) (?active (content @ butlast SYNC_END), es)" for nested es
    using feed_buffered [of "[]" "content @ butlast SYNC_END" "P\<lparr>proc_vte := p2\<rparr>" W nested "[ch CHR ''l'']" 0
        "de_now (w_env W)" es] marker_not_straddled [OF content(1)] content(2) stop idle(2)
    by simp
  have last: "feed W (parse_bytes_internal W (Suc n) True) [ch CHR ''l''] k (?active (content @ butlast SYNC_END),
      evs @ [?set, FinishBytes SYNC_START False]) = Done (Suc k, Q, evs' @ [Main (Grid (Control (UnsetMode M_SyncOutput)))])" for k
  proof -
    have "finish_sync_output (parse_bytes_internal W (Suc n) True)
        (?active content, evs @ [?set, FinishBytes SYNC_START False]) =
      Done (Q, evs' @ [Main (Grid (Control (UnsetMode M_SyncOutput)))])"
      using parsed by (simp add: finish_sync_output_def sync_deactivate_def sync unbuffered del: parse_bytes_internal.simps)
    then show ?thesis using stop
      by (simp add: parse_byte_def Let_def markers_differ sync del: parse_bytes_internal.simps)
  qed
  show ?thesis
    unfolding parse_bytes_def
    by (simp add: parse_fed [OF first] parse_fed [OF trans [OF second last]] idle tmux nonempty del: parse_bytes_internal.simps)
      simp
qed

text \<open>
  C2. A synchronized update has the effect of its bytes, all at once. Take any processor that buffers nothing and is not
  in control mode, whatever else its state holds, content that has no start or end marker in it and is
  shorter, with the end marker, than the buffer of 2 MiB, and a parser library that reads the start
  marker as the private mode it spells. Then the start marker, the content and the end marker set the mode, do exactly
  what parsing the content as one frame does from that same state, and unset the mode; and the
  bytes are reported in two parts, the start marker and the rest.
\<close>

theorem synchronized_update:
  assumes "idle P"
    and "vte_read W (proc_vte P) (butlast SYNC_START) = ([], p1)"
    and "w_vte W p1 (ch CHR ''h'') = ([VCsi [(2026, [])] [0x3F] False (ch CHR ''h'')], p2)"
    and "marker_free content" and "length content + 7 < SYNC_OUTPUT_MAX_BUFFER_SIZE"
    and "parse_bytes_internal W (Suc n) True content (P\<lparr>proc_vte := p2\<rparr>,
        evs @ [Main (Grid (Control (SetMode M_SyncOutput))), FinishBytes SYNC_START False]) = Done (Q, evs')"
  shows "parse_bytes W (Suc (Suc (Suc n))) (SYNC_START @ content @ SYNC_END) (P, evs) =
    Done (Q, evs' @ [Main (Grid (Control (UnsetMode M_SyncOutput))), FinishBytes (content @ SYNC_END) False] @
         (if tmux_of Q \<noteq> None then [ControlMode Starting] else []))"
  by (rule synchronized_run [OF assms])

text \<open>An update of one letter, read by a processor that remembers a character.\<close>

definition sample_processor :: "nat processor" where
  "sample_processor = \<lparr>proc_state = processor_state_new\<lparr>pr_preceding_char := Some 0x42\<rparr>, proc_vte = 0\<rparr>"

lemma sample_update_premises:
  "idle sample_processor"
  "vte_read sample_world (proc_vte sample_processor) (butlast SYNC_START) = ([], 7)"
  "w_vte sample_world 7 (ch CHR ''h'') = ([VCsi [(2026, [])] [0x3F] False (ch CHR ''h'')], 8)"
  "marker_free [0x41]" "length [0x41] + 7 < SYNC_OUTPUT_MAX_BUFFER_SIZE"
  "\<exists>Q. parse_bytes_internal sample_world (Suc 1) True [0x41] (sample_processor\<lparr>proc_vte := 8\<rparr>,
      [] @ [Main (Grid (Control (SetMode M_SyncOutput))), FinishBytes SYNC_START False]) =
    Done (Q, [Main (Grid (Control (SetMode M_SyncOutput))), FinishBytes SYNC_START False,
      Main (Grid (Cursor (Input 0x41))), FinishBytes [0x41] True]) \<and> tmux_of Q = None"
  by (simp_all add: idle_def sample_processor_def processor_state_new_def sample_world_def SYNC_START_def chars_def
      SYNC_OUTPUT_MAX_BUFFER_SIZE_def parse_byte_def direct_byte_def vte_byte_def)
    (auto simp: marker_free_def SYNC_START_def SYNC_END_def chars_def Cons_eq_append_conv)

definition sample_update_events :: "event list" where
  "sample_update_events =
    [Main (Grid (Control (SetMode M_SyncOutput))), FinishBytes SYNC_START False,
     Main (Grid (Cursor (Input 0x41))), FinishBytes [0x41] True,
     Main (Grid (Control (UnsetMode M_SyncOutput))), FinishBytes (0x41 # SYNC_END) False]"

theorem synchronized_update_witness:
  "\<exists>Q. parse_bytes sample_world 4 (SYNC_START @ [0x41] @ SYNC_END) (sample_processor, []) = Done (Q, sample_update_events)"
proof -
  note u = sample_update_premises
  obtain Q where parsed: "parse_bytes_internal sample_world (Suc 1) True [0x41] (sample_processor\<lparr>proc_vte := 8\<rparr>,
      [] @ [Main (Grid (Control (SetMode M_SyncOutput))), FinishBytes SYNC_START False]) =
    Done (Q, [Main (Grid (Control (SetMode M_SyncOutput))), FinishBytes SYNC_START False,
      Main (Grid (Cursor (Input 0x41))), FinishBytes [0x41] True])" and none: "tmux_of Q = None"
    using u(6) by blast
  have four: "Suc (Suc (Suc 1)) = 4" by simp
  from synchronized_update [OF u(1-5) parsed, unfolded four] none show ?thesis
    by (simp add: sample_update_events_def)
qed

section \<open>A pane's updates\<close>

lemma vte_byte_keeps:
  assumes "vte_byte W tag t b p (st, evs) = Some (p', st', evs')" and "sync_is_active (pr_sync_output st)"
  shows "sync_is_active (pr_sync_output st')"
  using assms by (auto simp: vte_byte_def split: prod.splits dest: run_actions_keeps)

text \<open>
  C39. Under tmux control mode a pane that begins a synchronized update never ends it: the pane's bytes
  go to its decoder one by one, past the buffering that would see the end marker, and no control
  sequence ends the mode there. The mode stays set whatever the pane writes, and a query for it is always answered
  with "set".
\<close>

theorem pane_update_never_ends:
  assumes "fold_panics (process_primary_pane_output W pane) bytes tp = Some tp'"
    and "sync_is_active (pr_sync_output (tm_inner (tp_state tp)))"
  shows "sync_is_active (pr_sync_output (tm_inner (tp_state tp'))) \<and>
    report_mode (Some 0x3F) [(2026, [])] (pr_sync_output (tm_inner (tp_state tp'))) = [Reply (csi @ ''?2026;1$y'')]"
proof -
  have "sync_is_active (pr_sync_output (tm_inner (tp_state tp')))"
    using assms
  proof (induction bytes arbitrary: tp)
    case (Cons b bytes)
    then obtain tp1 where one: "process_primary_pane_output W pane b tp = Some tp1"
        and rest: "fold_panics (process_primary_pane_output W pane) bytes tp1 = Some tp'"
      by (auto split: option.splits)
    from one Cons.prems(2) have "sync_is_active (pr_sync_output (tm_inner (tp_state tp1)))"
      by (auto simp: process_primary_pane_output_def split: bind_splits dest: vte_byte_keeps)
    with Cons.IH rest show ?case by blast
  qed simp
  then show ?thesis by (simp add: report_mode_def next_param_or_def mode_from_primitive_def private_modes_def ch_def)
qed

theorem pane_update_never_ends_witness:
  "\<exists>tp tp'. sync_is_active (pr_sync_output (tm_inner (tp_state tp))) \<and>
     fold_panics (process_primary_pane_output sample_world 1) [ch CHR ''l''] tp = Some tp' \<and>
     tp_events tp' = [] \<and> sync_is_active (pr_sync_output (tm_inner (tp_state tp')))"
proof -
  let ?inner = "processor_state_new\<lparr>pr_sync_output := SyncActive [] 0\<rparr>"
  let ?tp = "\<lparr>tp_state = \<lparr>tm_parser = BeginningOfLine, tm_inner = ?inner, tm_inner_vte = 7,
      tm_pane_for_window = Map.empty, tm_primary_pane = PaneReady 1\<rparr>,
    tp_exited = False, tp_parse_error = False, tp_output = [], tp_events = []\<rparr>"
  obtain tp' where run: "fold_panics (process_primary_pane_output sample_world 1) [ch CHR ''l''] ?tp = Some tp'"
      and quiet: "tp_events tp' = []"
    by (simp add: process_primary_pane_output_def vte_byte_def sample_world_def csi_dispatch_def Let_def ch_def
        unset_modes_def mode_from_primitive_def private_modes_def)
  from pane_update_never_ends [OF run] have "sync_is_active (pr_sync_output (tm_inner (tp_state tp')))" by simp
  with run quiet show ?thesis by (intro exI [of _ ?tp] exI [of _ tp']) simp
qed

section \<open>The bytes read are reported in order\<close>

text \<open>Events are only added.\<close>

lemma run_actions_events:
  "run_actions W tag t as (st, evs) = Some (st', evs') \<Longrightarrow> \<exists>calls. evs' = evs @ map tag calls"
proof (induction "as" arbitrary: st evs)
  case (Cons a "as")
  then obtain calls st1 where "run_actions W tag t as (st1, evs @ map tag calls) = Some (st', evs')"
    by (auto split: bind_splits)
  from Cons.IH [OF this] obtain more where "evs' = evs @ map tag (calls @ more)" by auto
  then show ?case by blast
qed simp

lemma vte_byte_events:
  "vte_byte W tag t b p (st, evs) = Some (p', st', evs') \<Longrightarrow> \<exists>calls. evs' = evs @ map tag calls"
  by (auto simp: vte_byte_def split: prod.splits dest: run_actions_events)

definition grows :: "'p tmux_performer \<Rightarrow> 'p tmux_performer panics \<Rightarrow> bool" where
  "grows tp r \<longleftrightarrow> (\<forall>tp'. r = Some tp' \<longrightarrow> set (tp_events tp) \<subseteq> set (tp_events tp'))"

lemma grows_Some [simp]: "grows tp (Some tp') \<longleftrightarrow> set (tp_events tp) \<subseteq> set (tp_events tp')"
  by (simp add: grows_def)

lemma grows_None [simp]: "grows tp None"
  by (simp add: grows_def)

lemma grows_bind: "grows tp r \<Longrightarrow> (\<And>tp'. r = Some tp' \<Longrightarrow> grows tp' (f tp')) \<Longrightarrow> grows tp (r \<bind> f)"
  by (cases r) (auto simp: grows_def)

lemma grows_fold: "(\<And>x tp. grows tp (f x tp)) \<Longrightarrow> grows tp (fold_panics f xs tp)"
proof (induction xs arbitrary: tp)
  case (Cons x xs)
  then show ?case by (auto simp: grows_def split: option.splits) (meson subset_iff)
qed simp

lemma grows_same: "tp_events tp = tp_events tq \<Longrightarrow> grows tp r \<longleftrightarrow> grows tq r"
  by (simp add: grows_def)

lemma pane_output_grows: "grows tp (process_primary_pane_output W pane b tp)"
  by (auto simp: process_primary_pane_output_def grows_def split: bind_splits dest: vte_byte_events)

lemma told_events [simp]: "tp_events (told_event e tp) = tp_events tp @ [e]"
  by (simp add: told_event_def)

lemma fold_told_events: "set (tp_events tp) \<subseteq> set (tp_events (fold (\<lambda>b. told_event (f b)) bs tp))"
  by (induction bs arbitrary: tp) (auto simp: subset_iff)

lemma flush_pane_grows: "grows tp (flush_pane W primary entry tp)"
proof (cases entry)
  case (Pair pane bytes)
  have "grows tp (fold_panics (process_primary_pane_output W primary) bytes tp)"
    by (rule grows_fold) (rule pane_output_grows)
  then show ?thesis using Pair by (auto simp: flush_pane_def grows_def intro: subsetD [OF fold_told_events])
qed

lemma init_primary_pane_grows: "grows tp (init_primary_pane W window pane tp)"
proof (cases "tm_primary_pane (tp_state tp)")
  case (PanePending m)
  let ?ready = "told_event (ControlMode (ControlModeReady window pane))
    (tp\<lparr>tp_state := (tp_state tp)\<lparr>tm_primary_pane := PaneReady pane\<rparr>\<rparr>)"
  have "grows ?ready (fold_panics (flush_pane W pane) (w_order W m) ?ready)"
    by (rule grows_fold) (rule flush_pane_grows)
  then show ?thesis using PanePending by (auto simp: init_primary_pane_def grows_def)
qed (simp add: init_primary_pane_def)

lemma handle_answer_grows: "grows tp (handle_answer W line tp)"
proof -
  have "grows tp (init_primary_pane W w p (note_window w p tp))" for w p
    using init_primary_pane_grows [of "note_window w p tp" W w p] by (simp add: grows_def note_window_def)
  then show ?thesis
    by (auto simp: handle_answer_def note_window_def split: bind_splits option.splits tmux_command_response.splits)
qed

lemma handle_call_grows: "grows tp (handle_tmux_call W call tp)"
proof (cases "(W, call, tp)" rule: handle_tmux_call.cases)
  case (1 W pane b tp)
  then show ?thesis using grows_same [of tp "tp\<lparr>tp_output := tp_output tp @ [b]\<rparr>"] pane_output_grows
    by (auto simp: handle_pane_output_def split: primary_pane_state.splits)
next
  case (2 W m tp)
  have "grows tp (fold_panics (handle_answer W) lines tp)" for lines
    by (rule grows_fold) (rule handle_answer_grows)
  with 2 show ?thesis by (cases "(W, m, tp)" rule: handle_message.cases) auto
qed

lemma tmux_byte_grows: "grows tp (tmux_byte W b tp)"
proof -
  have "grows tp (fold_panics (handle_tmux_call W) calls tp)" for calls
    by (rule grows_fold) (rule handle_call_grows)
  then show ?thesis by (auto simp: tmux_byte_def grows_def split: bind_splits)
qed

lemma tmux_feed_grows: "tmux_feed W bytes k tp = Some (k', tp') \<Longrightarrow> set (tp_events tp) \<subseteq> set (tp_events tp')"
proof (induction bytes arbitrary: k tp)
  case (Cons b bs)
  then obtain t where t: "tmux_byte W b tp = Some t"
      "(if tp_exited t then Some (k + 1, t) else tmux_feed W bs (k + 1) t) = Some (k', tp')"
    by (auto split: bind_splits)
  with tmux_byte_grows [of tp W b] Cons.IH [of "k + 1" t] show ?case
    by (auto simp: subset_iff split: if_splits)
qed simp

lemma tmux_bytes_grows:
  assumes "tmux_bytes W frame tm bytes (P, evs) = Some (k, P', evs')"
  shows "set evs \<subseteq> set evs'"
proof -
  obtain k0 tp where f: "tmux_feed W bytes 0
      \<lparr>tp_state = tm, tp_exited = False, tp_parse_error = False, tp_output = [], tp_events = evs\<rparr> = Some (k0, tp)"
    using assms by (auto simp: tmux_bytes_def split: bind_splits)
  from tmux_feed_grows [OF f] assms f show ?thesis
    by (auto simp: tmux_bytes_def Let_def usub_def split: if_splits)
qed

text \<open>The bytes reported outside of frames.\<close>

fun raw :: "event list \<Rightarrow> byte list" where
  "raw [] = []"
| "raw (FinishBytes bs False # evs) = bs @ raw evs"
| "raw (_ # evs) = raw evs"

lemma raw_append [simp]: "raw (a @ b) = raw a @ raw b"
  by (induction a rule: raw.induct) simp_all

lemma raw_Main [simp]: "raw (map Main calls) = []"
  by (induction calls) simp_all

text \<open>
  \<open>reports bs evs evs'\<close>: \<open>evs'\<close> has the events \<open>evs\<close>, and unless control mode has started, \<open>bs\<close> has been
  reported since.
\<close>

definition reports :: "byte list \<Rightarrow> event list \<Rightarrow> event list \<Rightarrow> bool" where
  "reports bs evs evs' \<longleftrightarrow>
     set evs \<subseteq> set evs' \<and> (ControlMode Starting \<notin> set evs' \<longrightarrow> raw evs' = raw evs @ bs)"

lemma reports_trans: "reports bs evs evs1 \<Longrightarrow> reports cs evs1 evs2 \<Longrightarrow> reports (bs @ cs) evs evs2"
  by (auto simp: reports_def)

definition reporting :: "(byte list \<Rightarrow> 'p running \<Rightarrow> 'p running run) \<Rightarrow> bool" where
  "reporting nested \<longleftrightarrow> (\<forall>bs P evs P' evs'. nested bs (P, evs) = Done (P', evs') \<and> tmux_of P = None \<longrightarrow>
     reports [] evs evs' \<and> (ControlMode Starting \<notin> set evs' \<longrightarrow> tmux_of P' = None))"

lemma direct_byte_reports:
  assumes "direct_byte W b (P, evs) = Some (P', evs')"
  shows "reports [] evs evs'"
  using assms by (auto simp: direct_byte_def reports_def split: prod.splits dest!: vte_byte_events)

lemma finish_reports:
  assumes "reporting nested" and "finish_sync_output nested (P, evs) = Done (P', evs')" and "tmux_of P = None"
  shows "reports [] evs evs'"
proof (cases "sync_of P")
  case SyncInactive
  then show ?thesis using assms(2) by (simp add: finish_sync_output_def sync_deactivate_def reports_def)
next
  case (SyncActive buffer at)
  then obtain evs1 where n: "nested buffer (with_sync SyncInactive P, evs) = Done (P', evs1)"
      and e: "evs' = evs1 @ [Main (Grid (Control (UnsetMode M_SyncOutput)))]"
    using assms(2) by (auto simp: finish_sync_output_def sync_deactivate_def split: run.splits)
  have "reports [] evs evs1" using assms(1,3) n unfolding reporting_def by fastforce
  then show ?thesis unfolding e by (auto simp: reports_def)
qed

lemma parse_byte_reports:
  assumes "reporting nested" and "parse_byte W nested b (P, evs) = Done (P', evs')" and "tmux_of P = None"
  shows "reports [] evs evs'"
proof (cases "sync_of P")
  case SyncInactive
  then show ?thesis using assms(2) direct_byte_reports
    by (cases "direct_byte W b (P, evs)") (auto simp: parse_byte_def)
next
  case (SyncActive buffer at)
  have same: "reports [] evs evs" by (simp add: reports_def)
  show ?thesis using assms SyncActive same finish_reports [OF assms(1)]
    by (auto simp: parse_byte_def Let_def split: if_splits)
qed

lemma feed_reports:
  assumes "reporting nested"
  shows "feed W nested bytes k (P, evs) = Done (k', P', evs') \<Longrightarrow> tmux_of P = None \<Longrightarrow> reports [] evs evs'"
proof (induction bytes arbitrary: k P evs)
  case (Cons b bs)
  then obtain Q evs1 where one: "parse_byte W nested b (P, evs) = Done (Q, evs1)"
    by (auto split: run.splits)
  note r = parse_byte_reports [OF assms one Cons.prems(2)]
  show ?case
  proof (cases "tmux_of Q \<noteq> None \<or> sync_is_active (sync_of P) \<noteq> sync_is_active (sync_of Q)")
    case True
    with Cons.prems(1) one r show ?thesis by simp
  next
    case False
    then have "feed W nested bs (k + 1) (Q, evs1) = Done (k', P', evs')" and "tmux_of Q = None"
      using Cons.prems(1) one by auto
    from Cons.IH [OF this] r show ?thesis using reports_trans [of "[]"] by simp
  qed
qed (simp add: reports_def)

text \<open>Events are only added by parsing, in control mode or not.\<close>

lemma parse_reports:
  "parse_bytes_internal W n frame bytes (P, evs) = Done (P', evs') \<Longrightarrow>
     set evs \<subseteq> set evs' \<and>
     (tmux_of P = None \<longrightarrow> reports (if frame then [] else bytes) evs evs' \<and>
       (ControlMode Starting \<notin> set evs' \<longrightarrow> tmux_of P' = None))"
proof (induction n arbitrary: frame bytes P evs P' evs')
  case (Suc n)
  have nested: "reporting (parse_bytes_internal W n True)"
    unfolding reporting_def using Suc.IH [of True] by auto
  show ?case
  proof (cases "bytes = []")
    case True
    then show ?thesis using Suc.prems by (auto simp: reports_def)
  next
    case ne: False
    show ?thesis
    proof (cases "tmux_of P")
      case None
      then obtain k Q evs1 where fed: "feed W (parse_bytes_internal W n True) bytes 0 (P, evs) = Done (k, Q, evs1)"
        using Suc.prems ne by (auto split: run.splits)
      let ?evs2 = "evs1 @ FinishBytes (take k bytes) frame # (if tmux_of Q \<noteq> None then [ControlMode Starting] else [])"
      have rest: "parse_bytes_internal W n frame (drop k bytes) (Q, ?evs2) = Done (P', evs')"
        using Suc.prems parse_fed [OF fed ne None, of frame] by simp
      note IH = Suc.IH [OF rest]
      have "reports [] evs evs1" by (rule feed_reports [OF nested fed None])
      then have one: "reports (if frame then [] else take k bytes) evs ?evs2" by (auto simp: reports_def)
      show ?thesis
      proof (cases "tmux_of Q")
        case None
        from reports_trans [OF one, of "if frame then [] else drop k bytes" evs'] IH None
        show ?thesis by (auto simp: reports_def split: if_splits)
      next
        case (Some tm)
        then have "ControlMode Starting \<in> set evs'" using IH by auto
        with IH one show ?thesis by (auto simp: reports_def)
      qed
    next
      case (Some tm)
      then obtain k Q evs1 where step: "tmux_bytes W frame tm bytes (P, evs) = Some (k, Q, evs1)"
          and rest: "parse_bytes_internal W n frame (drop k bytes) (Q, evs1) = Done (P', evs')"
        using Suc.prems ne by (auto split: option.splits)
      from Suc.IH [OF rest] tmux_bytes_grows [OF step] Some show ?thesis by auto
    qed
  qed
qed simp

subsection \<open>In control mode\<close>

text \<open>The pane that is the primary one after a call, when one is known before it, and what the call reports of it.\<close>

definition primary_after_line :: "byte list \<Rightarrow> nat \<Rightarrow> nat" where
  "primary_after_line line p =
    (case parse_command line of Some (Some (SetPrimaryWindowPane window pane)) \<Rightarrow> pane | _ \<Rightarrow> p)"

fun primary_after :: "tmux_call \<Rightarrow> nat \<Rightarrow> nat" where
  "primary_after (Message (CommandOutput (Inr lines))) p = fold primary_after_line lines p"
| "primary_after _ p = p"

fun pane_reported :: "nat \<Rightarrow> tmux_call list \<Rightarrow> byte list" where
  "pane_reported p [] = []"
| "pane_reported p (PaneOutput pane b # calls) = (if pane = p then b # pane_reported p calls else pane_reported p calls)"
| "pane_reported p (call # calls) = pane_reported (primary_after call p) calls"

fun ends_control_mode :: "tmux_call \<Rightarrow> bool" where
  "ends_control_mode (Message ControlExit) = True"
| "ends_control_mode (Message (ParseError _ _)) = True"
| "ends_control_mode _ = False"

text \<open>\<open>serves p bs tp tp'\<close>: from \<open>tp\<close> to \<open>tp'\<close>, \<open>bs\<close> were put out by the primary pane, which now is \<open>p\<close>.\<close>

definition serves :: "nat \<Rightarrow> byte list \<Rightarrow> 'p tmux_performer \<Rightarrow> 'p tmux_performer \<Rightarrow> bool" where
  "serves p bs tp tp' \<longleftrightarrow> tm_primary_pane (tp_state tp') = PaneReady p \<and> tp_output tp' = tp_output tp @ bs \<and>
     raw (tp_events tp') = raw (tp_events tp) \<and> tp_exited tp' = tp_exited tp"

lemma serves_trans: "serves p bs tp tp1 \<Longrightarrow> serves q cs tp1 tp2 \<Longrightarrow> serves q (bs @ cs) tp tp2"
  by (simp add: serves_def)

lemma raw_InPane [simp]: "raw (map (InPane p) calls) = []"
  by (induction calls) simp_all

lemma answer_serves:
  assumes "handle_answer W line tp = Some tp'" and "tm_primary_pane (tp_state tp) = PaneReady p"
  shows "serves (primary_after_line line p) [] tp tp'"
  using assms
  by (auto simp: handle_answer_def serves_def primary_after_line_def note_window_def init_primary_pane_def Let_def
      split: bind_splits option.splits tmux_command_response.splits)

lemma answers_serve:
  assumes "fold_panics (handle_answer W) lines tp = Some tp'" and "tm_primary_pane (tp_state tp) = PaneReady p"
  shows "serves (fold primary_after_line lines p) [] tp tp'"
  using assms
proof (induction lines arbitrary: tp p)
  case (Cons line lines)
  then obtain tp1 where one: "handle_answer W line tp = Some tp1" and rest: "fold_panics (handle_answer W) lines tp1 = Some tp'"
    by (auto split: option.splits)
  note s = answer_serves [OF one Cons.prems(2)]
  from Cons.IH [OF rest] s serves_trans [OF s] show ?case by (simp add: serves_def)
qed (simp add: serves_def)

lemma call_serves:
  assumes "handle_tmux_call W call tp = Some tp'" and "tm_primary_pane (tp_state tp) = PaneReady p"
    and "\<not> ends_control_mode call"
  shows "serves (primary_after call p) (pane_reported p [call]) tp tp'"
proof (cases call)
  case (PaneOutput pane b)
  then show ?thesis using assms(1,2)
    by (auto simp: handle_pane_output_def process_primary_pane_output_def serves_def told_event_def
        split: if_splits bind_splits dest!: vte_byte_events)
next
  case (Message m)
  then show ?thesis using assms answers_serve [of W _ tp tp' p]
    by (cases "(W, m, tp)" rule: handle_message.cases) (auto simp: serves_def)
qed

lemma reported_later: "pane_reported p (call # calls) = pane_reported p [call] @ pane_reported (primary_after call p) calls"
  by (cases "(p, call # calls)" rule: pane_reported.cases) auto

lemma calls_serve:
  assumes "fold_panics (handle_tmux_call W) calls tp = Some tp'" and "tm_primary_pane (tp_state tp) = PaneReady p"
    and "list_all (\<lambda>call. \<not> ends_control_mode call) calls"
  shows "serves (fold primary_after calls p) (pane_reported p calls) tp tp'"
  using assms
proof (induction calls arbitrary: tp p)
  case (Cons call calls)
  then obtain tp1 where one: "handle_tmux_call W call tp = Some tp1"
      and rest: "fold_panics (handle_tmux_call W) calls tp1 = Some tp'"
    by (auto split: option.splits)
  have s: "serves (primary_after call p) (pane_reported p [call]) tp tp1"
    using Cons.prems(2,3) by (intro call_serves [OF one]) simp_all
  then have "serves (fold primary_after calls (primary_after call p)) (pane_reported (primary_after call p) calls) tp1 tp'"
    using Cons.prems(3) by (intro Cons.IH [OF rest]) (simp_all add: serves_def)
  from serves_trans [OF s this] show ?case unfolding reported_later [of p call calls] by simp
qed (simp add: serves_def)

lemma reported_append: "pane_reported p (calls @ later) = pane_reported p calls @ pane_reported (fold primary_after calls p) later"
proof (induction calls arbitrary: p)
  case (Cons call calls)
  then show ?case using reported_later [of p call "calls @ later"] reported_later [of p call calls] by simp
qed simp

lemma tmux_feed_serves:
  assumes "tmux_feed W bytes k tp = Some (k', tp')" and "tm_primary_pane (tp_state tp) = PaneReady p"
    and "\<not> tp_exited tp" and "advance_all (w_debug W) bytes (tm_parser (tp_state tp)) = Some (calls, parser')"
    and "list_all (\<lambda>call. \<not> ends_control_mode call) calls"
  shows "k' = k + length bytes \<and> serves (fold primary_after calls p) (pane_reported p calls) tp tp'"
  using assms
proof (induction bytes arbitrary: k tp p calls)
  case Nil
  then show ?case by (simp add: serves_def)
next
  case (Cons b bytes)
  obtain c1 q c2 where a: "advance_parser (w_debug W) b (tm_parser (tp_state tp)) = Some (c1, q)"
      "advance_all (w_debug W) bytes q = Some (c2, parser')" "calls = c1 @ c2"
    using Cons.prems(4) by (auto split: bind_splits)
  obtain t where t: "fold_panics (handle_tmux_call W) c1 tp = Some t"
      and rest: "(if tp_exited t then Some (k + 1, t\<lparr>tp_state := (tp_state t)\<lparr>tm_parser := q\<rparr>\<rparr>)
        else tmux_feed W bytes (k + 1) (t\<lparr>tp_state := (tp_state t)\<lparr>tm_parser := q\<rparr>\<rparr>)) = Some (k', tp')"
    using Cons.prems(1) a(1) by (auto simp: tmux_byte_def split: bind_splits)
  let ?t = "t\<lparr>tp_state := (tp_state t)\<lparr>tm_parser := q\<rparr>\<rparr>"
  have "serves (fold primary_after c1 p) (pane_reported p c1) tp t"
    using Cons.prems(2,5) a(3) by (intro calls_serve [OF t]) simp_all
  then have s: "serves (fold primary_after c1 p) (pane_reported p c1) tp ?t" by (simp add: serves_def)
  then have "tm_primary_pane (tp_state ?t) = PaneReady (fold primary_after c1 p)" "\<not> tp_exited ?t"
    using Cons.prems(3) by (simp_all add: serves_def)
  with Cons.IH [of "k + 1" ?t] rest a(2,3) Cons.prems(5)
  have "k' = k + 1 + length bytes \<and> serves (fold primary_after c2 (fold primary_after c1 p))
      (pane_reported (fold primary_after c1 p) c2) ?t tp'" by simp
  with serves_trans [OF s] a(3) show ?case by (simp add: reported_append)
qed

lemma control_mode_reports:
  assumes "parse_bytes W n bytes (P, evs) = Done (P', evs')" and "tmux_of P = Some tm"
    and "tm_primary_pane tm = PaneReady p"
    and "advance_all (w_debug W) bytes (tm_parser tm) = Some (calls, parser')"
    and "list_all (\<lambda>call. \<not> ends_control_mode call) calls"
  shows "raw evs' = raw evs @ pane_reported p calls"
proof (cases "bytes = []")
  case True
  with assms show ?thesis by (cases n) (auto simp: parse_bytes_def)
next
  case False
  let ?start = "\<lparr>tp_state = tm, tp_exited = False, tp_parse_error = False, tp_output = [], tp_events = evs\<rparr>"
  obtain m where n: "n = Suc m" using assms(1) by (cases n) (auto simp: parse_bytes_def)
  then obtain k Q evs1 where step: "tmux_bytes W False tm bytes (P, evs) = Some (k, Q, evs1)"
      and rest: "parse_bytes_internal W m False (drop k bytes) (Q, evs1) = Done (P', evs')"
    using assms(1,2) False by (auto simp: parse_bytes_def split: option.splits)
  obtain k0 tp where fed: "tmux_feed W bytes 0 ?start = Some (k0, tp)"
    using step by (auto simp: tmux_bytes_def split: bind_splits)
  have s: "k0 = length bytes \<and> serves (fold primary_after calls p) (pane_reported p calls) ?start tp"
    using tmux_feed_serves [OF fed] assms(3-5) by simp
  then have "k = length bytes" "evs1 = tp_events tp @ [FinishBytes (tp_output tp) False]"
    using step fed by (auto simp: tmux_bytes_def serves_def)
  moreover from this(1) rest have "evs' = evs1" by (cases m) auto
  ultimately show ?thesis using s by (simp add: serves_def)
qed

text \<open>
  C3. What is reported to the handler as raw bytes. Outside of control mode, every byte of the shell's output,
  once and in order: whether they were decoded at once or held back for a synchronized update,
  the raw bytes are the bytes that were read, as long as control mode does not start. (The bytes of an update are
  reported once more, as those of a frame, which raw bytes leave out.) In control mode, once the primary pane is known
  and as long as the mode does not end, the bytes that the lines read report as output of
  the primary pane, in order, and no others; the primary pane being the one last named.
\<close>

theorem bytes_reported_in_order:
  assumes "parse_bytes W n bytes (P, evs) = Done (P', evs')"
  shows "(tmux_of P = None \<and> ControlMode Starting \<notin> set evs' \<longrightarrow> raw evs' = raw evs @ bytes) \<and>
    (\<forall>tm p calls parser'. tmux_of P = Some tm \<and> tm_primary_pane tm = PaneReady p \<and>
       advance_all (w_debug W) bytes (tm_parser tm) = Some (calls, parser') \<and>
       list_all (\<lambda>call. \<not> ends_control_mode call) calls \<longrightarrow> raw evs' = raw evs @ pane_reported p calls)"
  using parse_reports [OF assms(1) [unfolded parse_bytes_def]] control_mode_reports [OF assms]
  by (auto simp: reports_def)

text \<open>A synchronized update; and in control mode, what the primary pane puts out, to the end of the line.\<close>

definition controlled_processor :: "nat processor" where
  "controlled_processor =
    \<lparr>proc_state = processor_state_new\<lparr>pr_tmux_control_mode :=
       Some ((tmux_new sample_world)\<lparr>tm_parser := ReadingPaneOutput 1 None, tm_primary_pane := PaneReady 1\<rparr>)\<rparr>, proc_vte = 0\<rparr>"

lemma pane_reported_own: "pane_reported p (map (PaneOutput p) bs) = bs"
  by (induction bs) simp_all

theorem bytes_reported_in_order_witness:
  "(\<exists>P' evs'. parse_bytes sample_world 4 (SYNC_START @ [0x41] @ SYNC_END) (sample_processor, []) = Done (P', evs') \<and>
     raw evs' = SYNC_START @ [0x41] @ SYNC_END) \<and>
   (\<exists>P' evs'. parse_bytes sample_world 2 [0x61, 0x0A] (controlled_processor, []) = Done (P', evs') \<and>
     raw evs' = [0x61])"
proof
  note u = sample_update_premises
  obtain Q where "parse_bytes_internal sample_world (Suc 1) True [0x41] (sample_processor\<lparr>proc_vte := 8\<rparr>,
      [] @ [Main (Grid (Control (SetMode M_SyncOutput))), FinishBytes SYNC_START False]) =
    Done (Q, [Main (Grid (Control (SetMode M_SyncOutput))), FinishBytes SYNC_START False,
      Main (Grid (Cursor (Input 0x41))), FinishBytes [0x41] True])" and none: "tmux_of Q = None"
    using u(6) by blast
  from synchronized_run [OF u(1-5) this(1)] none
  have run: "parse_bytes sample_world 4 (SYNC_START @ [0x41] @ SYNC_END) (sample_processor, []) = Done (Q, sample_update_events)"
    by (simp add: sample_update_events_def numeral_eq_Suc)
  have "tmux_of sample_processor = None" "ControlMode Starting \<notin> set sample_update_events"
    using u(1) by (simp_all add: idle_def sample_update_events_def)
  with bytes_reported_in_order [OF run] run
  show "\<exists>P' evs'. parse_bytes sample_world 4 (SYNC_START @ [0x41] @ SYNC_END) (sample_processor, []) = Done (P', evs') \<and>
     raw evs' = SYNC_START @ [0x41] @ SYNC_END" by auto
next
  let ?line = "[0x61, 0x0A] :: byte list"
  have line: "advance_all (w_debug sample_world) ?line (ReadingPaneOutput 1 None) = Some (map (PaneOutput 1) [0x61], BeginningOfLine)"
    by (simp add: advance_parser_def read_pane_output_def ch_def)
  obtain P' evs' where run: "parse_bytes sample_world 2 ?line (controlled_processor, []) = Done (P', evs')"
    by (simp add: parse_bytes_def numeral_eq_Suc controlled_processor_def processor_state_new_def tmux_new_def
        tmux_bytes_def tmux_byte_def chars_def ch_def advance_parser_def MAX_TAG_LEN_def tag_state_def
        read_output_tag_def is_ascii_digit_def add_digit_def read_pane_output_def handle_pane_output_def
        process_primary_pane_output_def vte_byte_def sample_world_def Let_def)
  have "tmux_of controlled_processor = Some ((tmux_new sample_world)\<lparr>tm_parser := ReadingPaneOutput 1 None, tm_primary_pane := PaneReady 1\<rparr>)"
    by (simp add: controlled_processor_def)
  with bytes_reported_in_order [OF run] line pane_reported_own [of 1 "[0x61]"] run
  show "\<exists>P' evs'. parse_bytes sample_world 2 ?line (controlled_processor, []) = Done (P', evs') \<and> raw evs' = [0x61]"
    by (fastforce simp: tmux_new_def)
qed

end
