(* ===== verification/Keystrokes.thy ===== *)
theory Keystrokes
  imports Rust_Str
begin

text \<open>
  Keystrokes, \<^verbatim>\<open>crates/warpui_core/src/keymap.rs\<close>: their fields, their spelling as a trigger and the
  parser of that spelling. A panic of a debug assertion is \<open>None\<close>; whether a character is an upper
  or lower case letter is a Unicode table of the standard library, two predicates here. Strings
  are lists of characters.
\<close>

record keystroke =
  ks_ctrl :: bool
  ks_alt :: bool
  ks_shift :: bool
  ks_cmd :: bool
  ks_meta :: bool
  ks_key :: "uchar list"

definition VALID_SPECIAL_KEYS :: "uchar list list" where
  "VALID_SPECIAL_KEYS = map chars
    [''up'', ''down'', ''left'', ''right'', ''home'', ''end'', ''pageup'', ''pagedown'', ''backspace'', ''enter'',
     ''insert'', ''delete'', ''escape'', ''tab'', ''numpadenter'', ''f1'', ''f2'', ''f3'', ''f4'', ''f5'', ''f6'',
     ''f7'', ''f8'', ''f9'', ''f10'', ''f11'', ''f12'', ''f13'', ''f14'', ''f15'', ''f16'', ''f17'', ''f18'',
     ''f19'', ''f20'']"

definition is_valid_special_key :: "uchar list \<Rightarrow> bool" where
  "is_valid_special_key name \<longleftrightarrow> name \<in> set VALID_SPECIAL_KEYS"

definition is_valid_key :: "uchar list \<Rightarrow> bool" where
  "is_valid_key name \<longleftrightarrow> length name = 1 \<or> is_valid_special_key name"

definition has_any_modifier :: "keystroke \<Rightarrow> bool" where
  "has_any_modifier k \<longleftrightarrow> ks_ctrl k \<or> ks_alt k \<or> ks_shift k \<or> ks_cmd k \<or> ks_meta k"

definition is_unmodified :: "keystroke \<Rightarrow> bool" where
  "is_unmodified k \<longleftrightarrow> \<not> has_any_modifier k"

definition is_unmodified_key :: "keystroke \<Rightarrow> uchar list \<Rightarrow> bool" where
  "is_unmodified_key k key \<longleftrightarrow> ks_key k = key \<and> is_unmodified k"

definition is_unmodified_enter :: "keystroke \<Rightarrow> bool" where
  "is_unmodified_enter k \<longleftrightarrow>
     (ks_key k = chars ''enter'' \<or> ks_key k = chars ''numpadenter'') \<and> is_unmodified k"

definition is_shift_tab :: "keystroke \<Rightarrow> bool" where
  "is_shift_tab k \<longleftrightarrow>
     ks_key k = chars ''tab'' \<and> ks_shift k \<and> \<not> ks_ctrl k \<and> \<not> ks_alt k \<and> \<not> ks_cmd k \<and> \<not> ks_meta k"

section \<open>Parsing\<close>

datatype keystroke_error = InvalidKeystroke "uchar list" | UnknownKey "uchar list" | KeyIsUnset

text \<open>The modifiers by their names; \<open>cmdorctrl\<close> depends on the platform.\<close>

definition modifier_named :: "bool \<Rightarrow> uchar list \<Rightarrow> (keystroke \<Rightarrow> keystroke) option" where
  "modifier_named is_mac component =
    map_of [(chars ''ctrl'', ks_ctrl_update (\<lambda>_. True)), (chars ''alt'', ks_alt_update (\<lambda>_. True)),
      (chars ''shift'', ks_shift_update (\<lambda>_. True)), (chars ''cmd'', ks_cmd_update (\<lambda>_. True)),
      (chars ''meta'', ks_meta_update (\<lambda>_. True)),
      (chars ''cmdorctrl'', if is_mac then ks_cmd_update (\<lambda>_. True) else ks_ctrl_update (\<lambda>_. True))] component"

text \<open>
  The loop over the components: the keystroke so far and whether it has a key. The key \<open>-\<close> splits
  into two empty components, of which the first ends the loop.
\<close>

fun parse_components ::
  "bool \<Rightarrow> uchar list \<Rightarrow> uchar list list \<Rightarrow> keystroke \<times> bool \<Rightarrow> keystroke_error + keystroke \<times> bool" where
  "parse_components is_mac source [] acc = Inr acc"
| "parse_components is_mac source (component # rest) (k, has_key) =
    (case modifier_named is_mac component of
       Some modify \<Rightarrow> parse_components is_mac source rest (modify k, has_key)
     | None \<Rightarrow>
         if component = chars ''space'' then
           parse_components is_mac source rest (k\<lparr>ks_key := chars '' ''\<rparr>, True)
         else case rest of
           next # _ \<Rightarrow>
             if next = [] \<and> ends_with (chars ''-'') source then Inr (k\<lparr>ks_key := chars ''-''\<rparr>, True)
             else Inl (InvalidKeystroke source)
         | [] \<Rightarrow>
             if is_valid_key component then parse_components is_mac source rest (k\<lparr>ks_key := component\<rparr>, True)
             else Inl (UnknownKey component))"

definition unmodified :: "uchar list \<Rightarrow> keystroke" where
  "unmodified key =
     \<lparr>ks_ctrl = False, ks_alt = False, ks_shift = False, ks_cmd = False, ks_meta = False, ks_key = key\<rparr>"

text \<open>The debug assertion on the case of a letter.\<close>

definition case_fits :: "(uchar \<Rightarrow> bool) \<Rightarrow> (uchar \<Rightarrow> bool) \<Rightarrow> keystroke \<Rightarrow> bool" where
  "case_fits is_lowercase is_uppercase k \<longleftrightarrow>
    (case ks_key k of
       [c] \<Rightarrow> \<not> (ks_shift k \<and> is_lowercase c) \<and> \<not> (\<not> ks_shift k \<and> is_uppercase c)
     | _ \<Rightarrow> True)"

definition keystroke_parse ::
  "bool \<Rightarrow> bool \<Rightarrow> (uchar \<Rightarrow> bool) \<Rightarrow> (uchar \<Rightarrow> bool) \<Rightarrow> uchar list \<Rightarrow> (keystroke_error + keystroke) panics" where
  "keystroke_parse is_mac debug is_lowercase is_uppercase source =
    (case parse_components is_mac source (split_at (ch CHR ''-'') source) (unmodified [], False) of
       Inl e \<Rightarrow> Some (Inl e)
     | Inr (k, has_key) \<Rightarrow>
         if debug \<and> has_key \<and> \<not> case_fits is_lowercase is_uppercase k then None
         else Some (if has_key then Inr k else Inl KeyIsUnset))"

section \<open>Spelling\<close>

definition modifier_prefix :: "keystroke \<Rightarrow> uchar list" where
  "modifier_prefix k =
    (if ks_ctrl k then chars ''ctrl-'' else []) @ (if ks_alt k then chars ''alt-'' else []) @
    (if ks_shift k then chars ''shift-'' else []) @ (if ks_cmd k then chars ''cmd-'' else []) @
    (if ks_meta k then chars ''meta-'' else [])"

definition normalized :: "keystroke \<Rightarrow> uchar list" where
  "normalized k = modifier_prefix k @ (if ks_key k = chars '' '' then chars ''space'' else ks_key k)"

text \<open>The spelling shown to the user; symbols are their code points.\<close>

definition key_displayed :: "uchar list \<Rightarrow> uchar list" where
  "key_displayed key =
    (case map_of [(chars ''up'', [0x2191]), (chars ''down'', [0x2193]), (chars ''left'', [0x2190]),
        (chars ''right'', [0x2192]), ([0x09], chars ''Tab''), (chars '' '', chars ''Space''),
        (chars ''enter'', [0x23CE]), (chars ''backspace'', [0x232B])] key of
       Some s \<Rightarrow> s
     | None \<Rightarrow>
         (case key of
            [] \<Rightarrow> []
          | c # cs \<Rightarrow> (if ch CHR ''a'' \<le> c \<and> c \<le> ch CHR ''z'' then c - 32 else c) # cs))"

definition displayed :: "bool \<Rightarrow> keystroke \<Rightarrow> uchar list" where
  "displayed is_mac k =
    join (if is_mac then [] else chars '' '')
      ((if ks_ctrl k then [if is_mac then [0x2303] else chars ''Ctrl''] else []) @
       (if ks_alt k then [if is_mac then [0x2325] else chars ''Alt''] else []) @
       (if ks_shift k then [if is_mac then [0x21E7] else chars ''Shift''] else []) @
       (if ks_cmd k then [if is_mac then [0x2318] else chars ''Logo''] else []) @
       (if ks_meta k then [chars ''Meta''] else []) @ [key_displayed (ks_key k)])"

section \<open>Facts\<close>

lemma split_at_word [simp]:
  "sep \<notin> set w \<Longrightarrow> split_at sep (w @ sep # s) = w # split_at sep s"
  by (induction w) auto

lemma split_at_none [simp]: "sep \<notin> set w \<Longrightarrow> split_at sep w = [w]"
  by (induction w) auto

lemma special_keys:
  "list_all (\<lambda>key. ch CHR ''-'' \<notin> set key \<and> key \<noteq> [] \<and>
     key \<notin> set (map chars [''ctrl'', ''alt'', ''shift'', ''cmd'', ''meta'', ''cmdorctrl'', ''space''])) VALID_SPECIAL_KEYS"
  by code_simp

lemma special_keys_plain: "is_valid_special_key key \<Longrightarrow> ch CHR ''-'' \<notin> set key \<and> key \<noteq> []"
  using special_keys by (auto simp: is_valid_special_key_def list_all_iff)

lemma modifier_named_None:
  "modifier_named is_mac key = None \<longleftrightarrow>
     key \<notin> set (map chars [''ctrl'', ''alt'', ''shift'', ''cmd'', ''meta'', ''cmdorctrl''])"
  by (simp add: modifier_named_def map_of_eq_None_iff)

lemma valid_key_no_modifier:
  assumes "is_valid_key key"
  shows "modifier_named is_mac key = None" "key \<noteq> chars ''space''" "key \<noteq> []"
proof -
  have "length (chars s) = 1 \<longleftrightarrow> length s = 1" for s by (simp add: chars_def)
  then have "modifier_named is_mac key = None \<and> key \<noteq> chars ''space'' \<and> key \<noteq> []" if "length key = 1"
    using that by (auto simp: modifier_named_None)
  then show "modifier_named is_mac key = None" "key \<noteq> chars ''space''" "key \<noteq> []"
    using assms special_keys by (auto simp: is_valid_key_def is_valid_special_key_def list_all_iff modifier_named_None)
qed

text \<open>The components of the modifiers, one after another.\<close>

definition modifier_words :: "keystroke \<Rightarrow> uchar list list" where
  "modifier_words k =
    (if ks_ctrl k then [chars ''ctrl''] else []) @ (if ks_alt k then [chars ''alt''] else []) @
    (if ks_shift k then [chars ''shift''] else []) @ (if ks_cmd k then [chars ''cmd''] else []) @
    (if ks_meta k then [chars ''meta''] else [])"

lemma split_prefix: "split_at (ch CHR ''-'') (modifier_prefix k @ s) = modifier_words k @ split_at (ch CHR ''-'') s"
  by (simp add: modifier_prefix_def modifier_words_def chars_def ch_def)

lemma parse_modifiers:
  "parse_components is_mac source (modifier_words k @ rest) (unmodified [], False) =
     parse_components is_mac source rest (k\<lparr>ks_key := []\<rparr>, False)"
  by (cases k) (simp add: modifier_words_def modifier_named_def unmodified_def chars_def ch_def)

text \<open>
  C12. A keystroke survives being written and read: the spelling of any keystroke with a valid key
  parses to that keystroke, on every platform, even for the key that separates the modifiers.
\<close>

theorem keystroke_roundtrip:
  assumes "is_valid_key (ks_key k)" and "debug \<longrightarrow> case_fits is_lowercase is_uppercase k"
  shows "keystroke_parse is_mac debug is_lowercase is_uppercase (normalized k) = Some (Inr k)"
proof -
  let ?key = "ks_key k"
  have done_with: "parse_components is_mac source rest (k\<lparr>ks_key := []\<rparr>, False) = Inr (k, True) \<Longrightarrow>
      split_at (ch CHR ''-'') source = modifier_words k @ rest \<Longrightarrow>
      keystroke_parse is_mac debug is_lowercase is_uppercase source = Some (Inr k)" for source rest
    using assms(2) by (auto simp: keystroke_parse_def parse_modifiers)
  have split: "split_at (ch CHR ''-'') (chars ''space'') = [chars ''space'']" "split_at (ch CHR ''-'') (chars ''-'') = [[], []]"
    by (simp_all add: chars_def ch_def)
  consider "?key = chars '' ''" | "?key = chars ''-''" | "ch CHR ''-'' \<notin> set ?key" "?key \<noteq> chars '' ''"
    using assms(1) special_keys_plain [of ?key]
    by (fastforce simp: is_valid_key_def chars_def length_Suc_conv)
  then show ?thesis
  proof cases
    case 1
    have "parse_components is_mac (normalized k) [chars ''space''] (k\<lparr>ks_key := []\<rparr>, False) = Inr (k, True)"
      using 1 by (simp add: modifier_named_def chars_def ch_def)
    then show ?thesis
      by (rule done_with) (use 1 in \<open>simp add: normalized_def split_prefix split\<close>)
  next
    case 2
    have dash: "chars ''-'' \<noteq> chars '' ''" by (simp add: chars_def ch_def)
    have "parse_components is_mac (normalized k) [[], []] (k\<lparr>ks_key := []\<rparr>, False) = Inr (k, True)"
      using 2 by (simp add: modifier_named_def chars_def ch_def normalized_def ends_with_def)
    then show ?thesis
      by (rule done_with) (use 2 dash in \<open>simp add: normalized_def split_prefix split\<close>)
  next
    case 3
    have "parse_components is_mac (normalized k) [?key] (k\<lparr>ks_key := []\<rparr>, False) = Inr (k, True)"
      using valid_key_no_modifier [OF assms(1)] assms(1) by simp
    then show ?thesis
      by (rule done_with) (use 3 in \<open>simp add: normalized_def split_prefix\<close>)
  qed
qed

theorem keystroke_roundtrip_witness:
  "keystroke_parse True True (\<lambda>c. 97 \<le> c \<and> c \<le> 122) (\<lambda>c. 65 \<le> c \<and> c \<le> 90)
     (normalized ((unmodified (chars ''-''))\<lparr>ks_ctrl := True, ks_shift := True\<rparr>)) =
   Some (Inr ((unmodified (chars ''-''))\<lparr>ks_ctrl := True, ks_shift := True\<rparr>))"
  by (rule keystroke_roundtrip) (simp_all add: unmodified_def is_valid_key_def case_fits_def chars_def ch_def)

text \<open>
  A dash at the end is read as the dash key whatever stands before it: an unknown name, which would be
  an error elsewhere, is dropped.
\<close>

theorem trailing_dash_drops_component:
  assumes "ch CHR ''-'' \<notin> set name" and "modifier_named is_mac name = None" and "name \<noteq> chars ''space''"
    and "\<not> is_uppercase (ch CHR ''-'')"
  shows "keystroke_parse is_mac debug is_lowercase is_uppercase (name @ chars ''-'') =
    Some (Inr (unmodified (chars ''-'')))"
proof -
  have "split_at (ch CHR ''-'') (name @ chars ''-'') = [name, []]"
    using split_at_word [OF assms(1), of "[]"] by (simp add: chars_def)
  then show ?thesis
    using assms by (simp add: keystroke_parse_def ends_with_def case_fits_def unmodified_def chars_def)
qed

theorem trailing_dash_drops_component_witness:
  "keystroke_parse False True (\<lambda>c. 97 \<le> c \<and> c \<le> 122) (\<lambda>c. 65 \<le> c \<and> c \<le> 90) (chars ''nonsense'' @ chars ''-'') =
    Some (Inr (unmodified (chars ''-'')))"
  by (rule trailing_dash_drops_component) (simp_all add: modifier_named_def chars_def ch_def)

end
