(* ===== verification/Escape_Encoder.thy ===== *)
theory Escape_Encoder
  imports Keystrokes Term_Images
begin

text \<open>
  The encoder of keystrokes and mouse events, \<^verbatim>\<open>crates/warp_terminal/src/model/escape_sequences.rs\<close>
  and \<^verbatim>\<open>escape_sequences/kitty_keyboard_protocol.rs\<close>. The provider of the terminal's modes is the
  function that answers whether a mode is set; whether the platform is macOS is an argument.
\<close>

section \<open>Codes\<close>

definition ESC :: byte where "ESC = 0x1B"
definition CSI_BYTES :: "byte list" where "CSI_BYTES = [ESC, ch CHR ''['']"
definition SS3_BYTES :: "byte list" where "SS3_BYTES = [ESC, ch CHR ''O'']"

definition BRACKETED_PASTE_START :: "byte list" where "BRACKETED_PASTE_START = ESC # chars ''[200~''"
definition BRACKETED_PASTE_END :: "byte list" where "BRACKETED_PASTE_END = ESC # chars ''[201~''"

type_synonym mode_provider = "term_mode \<Rightarrow> bool"

definition get_c1_sequence :: "mode_provider \<Rightarrow> byte list" where
  "get_c1_sequence is_set = (if is_set TM_APP_CURSOR then SS3_BYTES else CSI_BYTES)"

definition build_escape_sequence_with_c1 :: "byte list \<Rightarrow> byte list \<Rightarrow> byte list" where
  "build_escape_sequence_with_c1 c1 c = c1 @ c"

definition build_escape_sequence :: "mode_provider \<Rightarrow> byte list \<Rightarrow> byte list" where
  "build_escape_sequence is_set c = build_escape_sequence_with_c1 (get_c1_sequence is_set) c"

section \<open>The mouse\<close>

datatype mouse_button = MB_Left | MB_Right | MB_Wheel | MB_LeftDrag | MB_Move
datatype mouse_action = MA_Pressed | MA_Released | MA_Scrolled int

record modifiers_state =
  ms_alt :: bool
  ms_cmd :: bool
  ms_shift :: bool
  ms_ctrl :: bool
  ms_func :: bool

record mouse_state =
  mo_button :: mouse_button
  mo_action :: mouse_action
  mo_point :: "point option"
  mo_modifiers :: modifiers_state

definition mouse_new :: "mouse_button \<Rightarrow> mouse_action \<Rightarrow> modifiers_state \<Rightarrow> mouse_state" where
  "mouse_new button action mods =
    \<lparr>mo_button = button, mo_action = action, mo_point = None, mo_modifiers = mods\<rparr>"

definition set_point :: "point \<Rightarrow> mouse_state \<Rightarrow> mouse_state" where
  "set_point p m = m\<lparr>mo_point := Some p\<rparr>"

definition MOUSE_LEFT :: nat where "MOUSE_LEFT = 0"
definition MOUSE_RIGHT :: nat where "MOUSE_RIGHT = 2"
definition MOUSE_DRAG :: nat where "MOUSE_DRAG = 32"
definition MOUSE_MOVE :: nat where "MOUSE_MOVE = 35"
definition MOUSE_WHEEL_UP :: nat where "MOUSE_WHEEL_UP = 64"
definition MOUSE_WHEEL_DOWN :: nat where "MOUSE_WHEEL_DOWN = 65"

text \<open>The button and how often it is reported; another action of the wheel panics.\<close>

fun mouse_code :: "mouse_button \<Rightarrow> mouse_action \<Rightarrow> (nat \<times> nat) panics" where
  "mouse_code MB_Left _ = Some (MOUSE_LEFT, 1)"
| "mouse_code MB_Right _ = Some (MOUSE_RIGHT, 1)"
| "mouse_code MB_LeftDrag _ = Some (MOUSE_DRAG, 1)"
| "mouse_code MB_Move _ = Some (MOUSE_MOVE, 1)"
| "mouse_code MB_Wheel (MA_Scrolled delta) =
     Some (if delta > 0 then MOUSE_WHEEL_UP else MOUSE_WHEEL_DOWN, nat \<bar>delta\<bar>)"
| "mouse_code MB_Wheel _ = None"

definition mouse_to_escape_sequence :: "mouse_state \<Rightarrow> byte list option panics" where
  "mouse_to_escape_sequence m =
    (let action = (if mo_action m = MA_Released then ''m'' else ''M'') in
     do { (button, repeats) \<leftarrow> mouse_code (mo_button m) (mo_action m);
          case mo_point m of
            None \<Rightarrow> Some None
          | Some p \<Rightarrow>
              Some (Some (concat (replicate repeats
                (CSI_BYTES @ chars (''<'' @ decimal button @ '';'' @ decimal (p_col p + 1) @ '';'' @
                   decimal (p_row p + 1) @ action))))) })"

section \<open>Keys without the keyboard protocol\<close>

definition to_modifier_escape_byte :: "keystroke \<Rightarrow> byte option" where
  "to_modifier_escape_byte k =
    (case (ks_shift k, ks_alt k, ks_ctrl k) of
       (True, False, False) \<Rightarrow> Some (ch CHR ''2'')
     | (False, True, False) \<Rightarrow> Some (ch CHR ''3'')
     | (True, True, False) \<Rightarrow> Some (ch CHR ''4'')
     | (False, False, True) \<Rightarrow> Some (ch CHR ''5'')
     | (True, False, True) \<Rightarrow> Some (ch CHR ''6'')
     | (False, True, True) \<Rightarrow> Some (ch CHR ''7'')
     | (True, True, True) \<Rightarrow> Some (ch CHR ''8'')
     | (False, False, False) \<Rightarrow> if ks_meta k then Some (ch CHR ''3'') else None)"

text \<open>The function keys: the bytes after the introducer, and the number before a modifier with the last byte.\<close>

definition fn_keys :: "(string \<times> byte list \<times> string \<times> string) list" where
  "fn_keys =
    [(''f1'', SS3_BYTES @ chars ''P'', ''1'', ''P''), (''f2'', SS3_BYTES @ chars ''Q'', ''1'', ''Q''),
     (''f3'', SS3_BYTES @ chars ''R'', ''1'', ''R''), (''f4'', SS3_BYTES @ chars ''S'', ''1'', ''S''),
     (''f5'', CSI_BYTES @ chars ''15~'', ''15'', ''~''), (''f6'', CSI_BYTES @ chars ''17~'', ''17'', ''~''),
     (''f7'', CSI_BYTES @ chars ''18~'', ''18'', ''~''), (''f8'', CSI_BYTES @ chars ''19~'', ''19'', ''~''),
     (''f9'', CSI_BYTES @ chars ''20~'', ''20'', ''~''), (''f10'', CSI_BYTES @ chars ''21~'', ''21'', ''~''),
     (''f11'', CSI_BYTES @ chars ''23~'', ''23'', ''~''), (''f12'', CSI_BYTES @ chars ''24~'', ''24'', ''~''),
     (''f13'', CSI_BYTES @ chars ''25~'', ''25'', ''~''), (''f14'', CSI_BYTES @ chars ''26~'', ''26'', ''~''),
     (''f15'', CSI_BYTES @ chars ''28~'', ''28'', ''~''), (''f16'', CSI_BYTES @ chars ''29~'', ''29'', ''~''),
     (''f17'', CSI_BYTES @ chars ''31~'', ''31'', ''~''), (''f18'', CSI_BYTES @ chars ''32~'', ''32'', ''~''),
     (''f19'', CSI_BYTES @ chars ''33~'', ''33'', ''~''), (''f20'', CSI_BYTES @ chars ''34~'', ''34'', ''~'')]"

definition fn_key :: "uchar list \<Rightarrow> (byte list \<times> string \<times> string) option" where
  "fn_key key = map_of (map (\<lambda>(name, code). (chars name, code)) fn_keys) key"

definition fn_keystroke_without_modifier_to_escape_sequence :: "uchar list \<Rightarrow> byte list option" where
  "fn_keystroke_without_modifier_to_escape_sequence key = map_option fst (fn_key key)"

definition fn_keystroke_with_modifier_to_escape_sequence :: "uchar list \<Rightarrow> byte \<Rightarrow> byte list option" where
  "fn_keystroke_with_modifier_to_escape_sequence key modifier_byte =
     map_option (\<lambda>(_, number, final). CSI_BYTES @ chars (number @ '';'') @ [modifier_byte] @ chars final) (fn_key key)"

definition fn_keystroke_to_escape_sequence :: "keystroke \<Rightarrow> byte list option" where
  "fn_keystroke_to_escape_sequence k =
    (if fn_key (ks_key k) \<noteq> None then
       (case to_modifier_escape_byte k of
          Some modifier_byte \<Rightarrow> fn_keystroke_with_modifier_to_escape_sequence (ks_key k) modifier_byte
        | None \<Rightarrow> fn_keystroke_without_modifier_to_escape_sequence (ks_key k))
     else None)"

definition keystroke_to_c0_control_code :: "keystroke \<Rightarrow> byte list option" where
  "keystroke_to_c0_control_code k =
    (if \<not> (ks_ctrl k \<and> \<not> ks_alt k \<and> \<not> ks_shift k \<and> \<not> ks_meta k) then None
     else map_option (\<lambda>c. [c])
       (match_bytes [('' '', Some 0x00), (''2'', Some 0x00), (''3'', Some 0x1B), (''4'', Some 0x1C),
          (''5'', Some 0x1D), (''6'', Some 0x1E), (''7'', Some 0x1F), (''8'', Some 0x7F)] None (ks_key k)))"

definition cursor_control_code :: "uchar list \<Rightarrow> byte option" where
  "cursor_control_code key =
     match_bytes [(''up'', Some (ch CHR ''A'')), (''down'', Some (ch CHR ''B'')), (''right'', Some (ch CHR ''C'')),
       (''left'', Some (ch CHR ''D'')), (''home'', Some (ch CHR ''H'')), (''end'', Some (ch CHR ''F''))] None key"

definition cursor_movement_keystroke_to_escape_sequence :: "mode_provider \<Rightarrow> keystroke \<Rightarrow> byte list option" where
  "cursor_movement_keystroke_to_escape_sequence is_set k =
    (case cursor_control_code (ks_key k) of
       None \<Rightarrow> None
     | Some code \<Rightarrow>
         Some (case to_modifier_escape_byte k of
                 Some modifier_byte \<Rightarrow> CSI_BYTES @ chars ''1;'' @ [modifier_byte, code]
               | None \<Rightarrow> get_c1_sequence is_set @ [code]))"

definition map_special_key_to_bytes :: "uchar list \<Rightarrow> byte list option" where
  "map_special_key_to_bytes key =
     match_bytes [(''enter'', Some [0x0D]), (''numpadenter'', Some [0x0D]), (''tab'', Some [0x09]),
       (''escape'', Some [ESC]), (''backspace'', Some [0x7F]), (''insert'', Some (ESC # chars ''[2~'')),
       (''delete'', Some (ESC # chars ''[3~'')), (''pageup'', Some (ESC # chars ''[5~'')),
       (''pagedown'', Some (ESC # chars ''[6~''))] None key"

definition meta_keystroke_to_escape_sequence :: "bool \<Rightarrow> keystroke \<Rightarrow> byte list option" where
  "meta_keystroke_to_escape_sequence is_mac k =
    (if \<not> (if is_mac then ks_meta k else ks_alt k) then None
     else case map_special_key_to_bytes (ks_key k) of
            Some bytes \<Rightarrow> Some (ESC # bytes)
          | None \<Rightarrow> Some (ESC # str_bytes (ks_key k)))"

section \<open>The keyboard protocol\<close>

definition is_control :: "uchar \<Rightarrow> bool" where
  "is_control c \<longleftrightarrow> c < 0x20 \<or> (0x7F \<le> c \<and> c < 0xA0)"

definition lower_ascii :: "uchar \<Rightarrow> uchar" where
  "lower_ascii c = (if ch CHR ''A'' \<le> c \<and> c \<le> ch CHR ''Z'' then c + 32 else c)"

definition named_key_codes :: "(uchar list \<times> nat) list" where
  "named_key_codes =
    [(chars ''enter'', 13), (chars ''tab'', 9), (chars ''escape'', 27), (chars ''backspace'', 127),
     (chars ''space'', 32)] @
    map (\<lambda>n. (chars (''f'' @ decimal n), 57363 + n)) [13..<36]"

definition csi_u_key_code :: "uchar list \<Rightarrow> uchar list option \<Rightarrow> nat option" where
  "csi_u_key_code key key_without_modifiers =
    (case map_of named_key_codes key of
       Some code \<Rightarrow> Some code
     | None \<Rightarrow>
         (case key of
            [c] \<Rightarrow>
              (case key_without_modifiers of
                 Some (base # _) \<Rightarrow> Some (lower_ascii base)
               | _ \<Rightarrow> Some (lower_ascii c))
          | _ \<Rightarrow> None))"

definition csi_u_modifiers :: "keystroke \<Rightarrow> nat" where
  "csi_u_modifiers k =
     1 + (if ks_shift k then 1 else 0) + (if ks_alt k \<or> ks_meta k then 2 else 0) +
     (if ks_ctrl k then 4 else 0) + (if ks_cmd k then 8 else 0)"

definition csi_u_alternate :: "mode_provider \<Rightarrow> keystroke \<Rightarrow> nat \<Rightarrow> nat option" where
  "csi_u_alternate is_set k key_code =
    (if is_set TM_KEYBOARD_REPORT_ALTERNATE_KEYS \<and> ks_shift k then
       (case ks_key k of [c] \<Rightarrow> if c \<noteq> key_code then Some c else None | _ \<Rightarrow> None)
     else None)"

text \<open>The code points of the text that the key inserts.\<close>

definition csi_u_text :: "mode_provider \<Rightarrow> uchar list option \<Rightarrow> uchar list option" where
  "csi_u_text is_set text =
    (if is_set TM_KEYBOARD_REPORT_ASSOCIATED_TEXT then
       (case text of
          Some t \<Rightarrow> if t \<noteq> [] \<and> \<not> list_ex is_control t then Some t else None
        | None \<Rightarrow> None)
     else None)"

definition keystroke_to_csi_u ::
  "mode_provider \<Rightarrow> keystroke \<Rightarrow> uchar list option \<Rightarrow> uchar list option \<Rightarrow> byte list option" where
  "keystroke_to_csi_u is_set k key_without_modifiers text =
    do { key_code \<leftarrow> csi_u_key_code (ks_key k) key_without_modifiers;
         let key_part = (case csi_u_alternate is_set k key_code of
                           Some a \<Rightarrow> decimal key_code @ '':'' @ decimal a | None \<Rightarrow> decimal key_code);
         let modifiers = csi_u_modifiers k;
         Some (CSI_BYTES @ chars (key_part @
           (case csi_u_text is_set text of
              Some t \<Rightarrow> '';'' @ decimal modifiers @ '';'' @ join '':'' (map decimal t)
            | None \<Rightarrow> if modifiers > 1 then '';'' @ decimal modifiers else '''') @ ''u'')) }"

definition is_ambiguous :: "bool \<Rightarrow> keystroke \<Rightarrow> bool" where
  "is_ambiguous is_mac k \<longleftrightarrow>
     ks_key k = chars ''escape'' \<or> ks_ctrl k \<or> ks_meta k \<or> (\<not> is_mac \<and> ks_alt k) \<or>
     (ks_shift k \<and> ks_key k \<in> {chars ''enter'', chars ''tab'', chars ''backspace''})"

definition maybe_convert_keystroke_to_csi_u ::
  "bool \<Rightarrow> mode_provider \<Rightarrow> keystroke \<Rightarrow> uchar list option \<Rightarrow> uchar list option \<Rightarrow> byte list option" where
  "maybe_convert_keystroke_to_csi_u is_mac is_set k key_without_modifiers text =
    (if \<not> is_set TM_KEYBOARD_PROTOCOL then None
     else if is_set TM_KEYBOARD_REPORT_ALL_AS_ESCAPE \<or>
             (is_set TM_KEYBOARD_DISAMBIGUATE_ESCAPE \<and> is_ambiguous is_mac k)
     then keystroke_to_csi_u is_set k key_without_modifiers text else None)"

text \<open>Modifier keys on their own; the codes of other keys are not told apart.\<close>

datatype key_code =
  ShiftLeft | ControlLeft | AltLeft | SuperLeft | ShiftRight | ControlRight | AltRight | SuperRight
| CapsLock | NumLock | OtherKey nat

definition modifier_key_number :: "key_code \<Rightarrow> nat option" where
  "modifier_key_number k =
    (case k of ShiftLeft \<Rightarrow> Some 57441 | ControlLeft \<Rightarrow> Some 57442 | AltLeft \<Rightarrow> Some 57443
     | SuperLeft \<Rightarrow> Some 57444 | ShiftRight \<Rightarrow> Some 57447 | ControlRight \<Rightarrow> Some 57448 | AltRight \<Rightarrow> Some 57449
     | SuperRight \<Rightarrow> Some 57450 | CapsLock \<Rightarrow> Some 57358 | NumLock \<Rightarrow> Some 57360 | OtherKey _ \<Rightarrow> None)"

definition modifier_key_bits :: "key_code \<Rightarrow> nat" where
  "modifier_key_bits k =
    (if k \<in> {ShiftLeft, ShiftRight} then 1 else if k \<in> {AltLeft, AltRight} then 2
     else if k \<in> {ControlLeft, ControlRight} then 4 else if k \<in> {SuperLeft, SuperRight} then 8 else 0)"

definition modifier_key_to_csi_u :: "key_code \<Rightarrow> bool \<Rightarrow> bool \<Rightarrow> byte list option" where
  "modifier_key_to_csi_u k is_press report_event_types =
    do { number \<leftarrow> modifier_key_number k;
         let modifiers = 1 + modifier_key_bits k;
         if report_event_types then
           Some (CSI_BYTES @ chars (decimal number @ '';'' @ decimal modifiers @ '':'' @
                   decimal (if is_press then 1 else 3) @ ''u''))
         else if \<not> is_press then None
         else Some (CSI_BYTES @ chars (decimal number @ '';'' @ decimal modifiers @ ''u'')) }"

definition maybe_kitty_keyboard_escape_sequence :: "mode_provider \<Rightarrow> key_code \<Rightarrow> bool \<Rightarrow> byte list option" where
  "maybe_kitty_keyboard_escape_sequence is_set k is_press =
    (if \<not> is_set TM_KEYBOARD_REPORT_ALL_AS_ESCAPE then None
     else modifier_key_to_csi_u k is_press (is_set TM_KEYBOARD_REPORT_EVENT_TYPES))"

section \<open>A keystroke\<close>

definition or_else :: "'a option \<Rightarrow> 'a option \<Rightarrow> 'a option" where
  "or_else x y = (case x of None \<Rightarrow> y | Some _ \<Rightarrow> x)"

definition legacy_sequence :: "bool \<Rightarrow> mode_provider \<Rightarrow> keystroke \<Rightarrow> byte list option" where
  "legacy_sequence is_mac is_set k =
    or_else (or_else (or_else (fn_keystroke_to_escape_sequence k) (keystroke_to_c0_control_code k))
        (cursor_movement_keystroke_to_escape_sequence is_set k))
      (meta_keystroke_to_escape_sequence is_mac k)"

definition keystroke_to_escape_sequence ::
  "bool \<Rightarrow> mode_provider \<Rightarrow> keystroke \<Rightarrow> uchar list option \<Rightarrow> uchar list option \<Rightarrow> byte list option" where
  "keystroke_to_escape_sequence is_mac is_set k key_without_modifiers text =
     or_else (maybe_convert_keystroke_to_csi_u is_mac is_set k key_without_modifiers text)
       (legacy_sequence is_mac is_set k)"

end
