(* ===== verification/Encoder_Facts.thy ===== *)
theory Encoder_Facts
  imports Ansi_Facts Term_Facts Escape_Encoder
begin

text \<open>
  What the encoder of keystrokes promises: a sequence of the keyboard protocol can be read
  back, the protocol is spoken exactly while a program asks for it, and the older encoding of
  modifiers and of the mouse.
\<close>

section \<open>The provider of modes\<close>

text \<open>A mode made of several flags counts as set when any of them is.\<close>

locale modes_provided =
  fixes is_set :: mode_provider
  assumes union: "is_set (a OR b) \<longleftrightarrow> is_set a \<or> is_set b"
begin

lemma protocol_iff:
  "is_set TM_KEYBOARD_PROTOCOL \<longleftrightarrow>
     is_set TM_KEYBOARD_DISAMBIGUATE_ESCAPE \<or> is_set TM_KEYBOARD_REPORT_EVENT_TYPES \<or>
     is_set TM_KEYBOARD_REPORT_ALTERNATE_KEYS \<or> is_set TM_KEYBOARD_REPORT_ALL_AS_ESCAPE \<or>
     is_set TM_KEYBOARD_REPORT_ASSOCIATED_TEXT"
  by (simp add: TM_KEYBOARD_PROTOCOL_def union)

lemma legacy_without_protocol:
  "\<not> is_set TM_KEYBOARD_PROTOCOL \<Longrightarrow>
     keystroke_to_escape_sequence is_mac is_set k base typed = legacy_sequence is_mac is_set k"
  by (simp add: keystroke_to_escape_sequence_def maybe_convert_keystroke_to_csi_u_def or_else_def)

lemma csi_u_when_asked:
  assumes "is_set TM_KEYBOARD_REPORT_ALL_AS_ESCAPE \<or> is_set TM_KEYBOARD_DISAMBIGUATE_ESCAPE \<and> is_ambiguous is_mac k"
  shows "keystroke_to_escape_sequence is_mac is_set k base typed =
    or_else (keystroke_to_csi_u is_set k base typed) (legacy_sequence is_mac is_set k)"
proof -
  have "is_set TM_KEYBOARD_PROTOCOL" using assms protocol_iff by blast
  with assms show ?thesis
    by (auto simp: keystroke_to_escape_sequence_def maybe_convert_keystroke_to_csi_u_def)
qed

end

lemma mode_bits: "is_mode_set m h \<longleftrightarrow> (\<exists>n. bit (h_mode h) n \<and> bit m n)"
proof -
  have "n < 32" if "bit (m :: term_mode) n" for n using bit_imp_le_length [OF that] by simp
  then show ?thesis by (auto simp: is_mode_set_def bit_eq_iff bit_and_iff)
qed

lemma mode_flag: "n < 32 \<Longrightarrow> is_mode_set (push_bit n 1) h \<longleftrightarrow> bit (h_mode h) n"
  unfolding mode_bits by (auto simp: bit_push_bit_iff bit_1_iff simp del: push_bit_of_1)

interpretation handler_modes: modes_provided "\<lambda>m. is_mode_set m h" for h
  by unfold_locales (auto simp: mode_bits bit_or_iff)

section \<open>The keyboard protocol in a session\<close>

lemma protocol_of_keyboard:
  assumes "flags_mirrored h"
  shows "is_mode_set TM_KEYBOARD_DISAMBIGUATE_ESCAPE h \<longleftrightarrow> bit (h_keyboard_mode h) 0"
    and "h_keyboard_mode h = 0 \<Longrightarrow> \<not> is_mode_set TM_KEYBOARD_PROTOCOL h"
proof -
  show "is_mode_set TM_KEYBOARD_DISAMBIGUATE_ESCAPE h \<longleftrightarrow> bit (h_keyboard_mode h) 0"
    unfolding keyboard_protocol_bits using mirrored_bits [OF assms, of 0] mode_flag [of 18 h] by simp
  assume "h_keyboard_mode h = 0"
  then show "\<not> is_mode_set TM_KEYBOARD_PROTOCOL h"
    using assms by (simp add: flags_mirrored_def is_mode_set_def term_mode_from_keyboard_shift)
qed

lemma keyboard_calls:
  assumes "\<not> de_windows env"
  shows "perform env pending t (VCsi [(f, [])] [ch CHR ''>''] False (ch CHR ''u'')) st =
      Some ([Grid (Control (PushKeyboardFlags (word_of_nat f AND KM_ALL)))], st)"
    and "perform env pending t (VCsi [] [ch CHR ''<''] False (ch CHR ''u'')) st =
      Some ([Grid (Control (PopKeyboardFlags 1))], st)"
  using assms by (simp_all add: csi_dispatch_def keyboard_csi_def next_param_or_def ch_def)

text \<open>
  How a keystroke is to be sent while the flags of the protocol are the given ones: a sequence of the
  protocol if the flag for all keys is set, or the one for ambiguous keys and the key is ambiguous,
  where there is such a sequence; and the older encoding otherwise.
\<close>

definition protocol_sequence ::
  "bool \<Rightarrow> keyboard_modes \<Rightarrow> mode_provider \<Rightarrow> keystroke \<Rightarrow> uchar list option \<Rightarrow> uchar list option \<Rightarrow> byte list option" where
  "protocol_sequence is_mac flags is_set k base typed =
    (if mode_contains flags KM_REPORT_ALL_KEYS_AS_ESC \<or>
        mode_contains flags KM_DISAMBIGUATE_ESC_CODES \<and> is_ambiguous is_mac k
     then or_else (keystroke_to_csi_u is_set k base typed) (legacy_sequence is_mac is_set k)
     else legacy_sequence is_mac is_set k)"

text \<open>The modes of a handler, with the given flags of the protocol in the place of its own.\<close>

definition modes_with_flags :: "keyboard_modes \<Rightarrow> handler \<Rightarrow> mode_provider" where
  "modes_with_flags flags h m \<longleftrightarrow>
     (h_mode h AND NOT TM_KEYBOARD_PROTOCOL OR term_mode_from_keyboard flags) AND m \<noteq> 0"

definition requested_flags :: "nat \<Rightarrow> keyboard_modes" where
  "requested_flags f = word_of_nat f AND KM_ALL"

text \<open>A bounded deque that is full loses its oldest entry when one is pushed.\<close>

definition kept_entries :: "keyboard_modes list \<Rightarrow> keyboard_modes list" where
  "kept_entries stack = (if length stack < KEYBOARD_MODE_STACK_MAX_DEPTH then stack else tl stack)"

definition flags_in_force :: "keyboard_modes list \<Rightarrow> keyboard_modes" where
  "flags_in_force stack = (if stack = [] then KM_NO_MODE else last stack)"

lemma encodes_by_flags:
  assumes "flags_mirrored h"
  shows "keystroke_to_escape_sequence is_mac (\<lambda>m. is_mode_set m h) =
    protocol_sequence is_mac (h_keyboard_mode h) (\<lambda>m. is_mode_set m h)"
proof (intro ext)
  fix k base typed
  let ?is_set = "\<lambda>m. is_mode_set m h"
  have "is_mode_set TM_KEYBOARD_DISAMBIGUATE_ESCAPE h \<longleftrightarrow> mode_contains (h_keyboard_mode h) KM_DISAMBIGUATE_ESC_CODES"
    "is_mode_set TM_KEYBOARD_REPORT_ALL_AS_ESCAPE h \<longleftrightarrow> mode_contains (h_keyboard_mode h) KM_REPORT_ALL_KEYS_AS_ESC"
    unfolding keyboard_protocol_bits keyboard_flags
    using mirrored_bits [OF assms, of 0] mode_flag [of 18 h] mirrored_bits [OF assms, of 3] mode_flag [of 21 h]
      contains_flag [of 0 "h_keyboard_mode h"] contains_flag [of 3 "h_keyboard_mode h"]
    by simp_all
  then show "keystroke_to_escape_sequence is_mac ?is_set k base typed =
      protocol_sequence is_mac (h_keyboard_mode h) ?is_set k base typed"
    using handler_modes.csi_u_when_asked [of h is_mac k base typed]
    by (auto simp: protocol_sequence_def keystroke_to_escape_sequence_def maybe_convert_keystroke_to_csi_u_def or_else_def)
qed

lemma set_flags_provides:
  "(\<lambda>m. is_mode_set m (set_keyboard_mode flags KA_Replace h)) = modes_with_flags flags h"
  "h_keyboard_mode (set_keyboard_mode flags KA_Replace h) = flags"
  "h_keyboard_mode_stack (set_keyboard_mode flags a h) = h_keyboard_mode_stack h"
  by (auto simp: set_keyboard_mode_def Let_def is_mode_set_def modes_with_flags_def)

lemma flags_replaced:
  "modes_with_flags flags (set_keyboard_mode flags' a h) = modes_with_flags flags h"
  "modes_with_flags flags (h\<lparr>h_keyboard_mode_stack := ks\<rparr>) = modes_with_flags flags h"
proof -
  have "(m AND NOT TM_KEYBOARD_PROTOCOL OR term_mode_from_keyboard k) AND NOT TM_KEYBOARD_PROTOCOL =
      m AND NOT TM_KEYBOARD_PROTOCOL" for m :: term_mode and k
    by (auto simp: term_mode_from_keyboard_shift protocol_mask bit_eq_iff [where 'a = "32 word"] bit_simps)
  then show "modes_with_flags flags (set_keyboard_mode flags' a h) = modes_with_flags flags h"
    by (simp add: modes_with_flags_def set_keyboard_mode_def Let_def fun_eq_iff)
qed (simp add: modes_with_flags_def fun_eq_iff)

lemma own_flags:
  assumes "flags_mirrored h"
  shows "modes_with_flags (h_keyboard_mode h) h = (\<lambda>m. is_mode_set m h)"
proof -
  have "h_mode h AND NOT TM_KEYBOARD_PROTOCOL OR h_mode h AND TM_KEYBOARD_PROTOCOL = h_mode h"
    by (auto simp: bit_eq_iff bit_simps)
  with assms show ?thesis by (simp add: modes_with_flags_def is_mode_set_def flags_mirrored_def fun_eq_iff)
qed

text \<open>
  C10. The keyboard protocol is spoken exactly while a program asks for it. Where the protocol is on and
  offered (not on Windows), once the decoder has read a request that pushes any flags, on any stack, every
  keystroke is sent as these flags have it, with all other modes as they were: in a sequence of the
  protocol when the flags ask for all keys, or for the ambiguous ones and the key is one, and there is a
  sequence for it; and else in the older encoding. Once it has read the request that pops one entry, the stack is the one
  before, less its oldest entry if it was full, and every keystroke is sent by the flags on its top, or in
  the older encoding if it is empty; which is just as before the push, if these flags were in force then.
\<close>

theorem keyboard_protocol_session:
  assumes "\<not> de_windows env" and "kitty_keyboard L"
    and "bounded_push_back L KEYBOARD_MODE_STACK_MAX_DEPTH (h_keyboard_mode_stack h) (requested_flags f) =
      kept_entries (h_keyboard_mode_stack h) @ [requested_flags f]"
  shows "\<exists>push pop h1 h2.
    perform env pending t (VCsi [(f, [])] [ch CHR ''>''] False (ch CHR ''u'')) st = Some (push, st) \<and>
    handle_all L (grid_calls images push) h = Some h1 \<and>
    keystroke_to_escape_sequence is_mac (\<lambda>m. is_mode_set m h1) =
      protocol_sequence is_mac (requested_flags f) (modes_with_flags (requested_flags f) h) \<and>
    perform env pending t (VCsi [] [ch CHR ''<''] False (ch CHR ''u'')) st = Some (pop, st) \<and>
    handle_all L (grid_calls images pop) h1 = Some h2 \<and>
    h_keyboard_mode_stack h2 = kept_entries (h_keyboard_mode_stack h) \<and>
    keystroke_to_escape_sequence is_mac (\<lambda>m. is_mode_set m h2) =
      protocol_sequence is_mac (flags_in_force (kept_entries (h_keyboard_mode_stack h)))
        (modes_with_flags (flags_in_force (kept_entries (h_keyboard_mode_stack h))) h) \<and>
    (flags_mirrored h \<and> h_keyboard_mode h = flags_in_force (kept_entries (h_keyboard_mode_stack h)) \<longrightarrow>
      keystroke_to_escape_sequence is_mac (\<lambda>m. is_mode_set m h2) =
      keystroke_to_escape_sequence is_mac (\<lambda>m. is_mode_set m h))"
proof -
  define flags below where "flags = requested_flags f" and "below = kept_entries (h_keyboard_mode_stack h)"
  note assms = assms [folded flags_def below_def]
  let ?h1 = "push_keyboard_mode L flags h"
  let ?h2 = "pop_keyboard_modes 1 ?h1"
  let ?top = "flags_in_force below"
  have h1: "h_keyboard_mode ?h1 = flags" "h_keyboard_mode_stack ?h1 = below @ [flags]" "flags_mirrored ?h1"
      "(\<lambda>m. is_mode_set m ?h1) = modes_with_flags flags h"
    using assms(3) by (simp_all add: push_keyboard_mode_def Let_def set_flags_provides flags_replaced
        set_keyboard_mode_mirrored)
  have h2: "h_keyboard_mode ?h2 = ?top" "h_keyboard_mode_stack ?h2 = below" "flags_mirrored ?h2"
      "(\<lambda>m. is_mode_set m ?h2) = modes_with_flags ?top h"
    using h1(2) by (simp_all add: pop_keyboard_modes_def flags_in_force_def Let_def set_flags_provides flags_replaced
        set_keyboard_mode_mirrored) (simp_all add: push_keyboard_mode_def Let_def flags_replaced)
  have run1: "handle_all L (grid_calls images [Grid (Control (PushKeyboardFlags flags))]) h = Some ?h1"
    and run2: "handle_all L (grid_calls images [Grid (Control (PopKeyboardFlags 1))]) ?h1 = Some ?h2"
    using assms(2) by (simp_all add: grid_calls_one handle_all_def push_keyboard_enhancement_flags_def
        pop_keyboard_enhancement_flags_def)
  have pushed: "keystroke_to_escape_sequence is_mac (\<lambda>m. is_mode_set m ?h1) =
      protocol_sequence is_mac flags (modes_with_flags flags h)"
    using encodes_by_flags [OF h1(3)] h1(1,4) by simp
  have popped: "keystroke_to_escape_sequence is_mac (\<lambda>m. is_mode_set m ?h2) =
      protocol_sequence is_mac ?top (modes_with_flags ?top h)"
    using encodes_by_flags [OF h2(3)] h2(1,4) by simp
  have again: "flags_mirrored h \<and> h_keyboard_mode h = ?top \<longrightarrow>
      keystroke_to_escape_sequence is_mac (\<lambda>m. is_mode_set m ?h2) =
      keystroke_to_escape_sequence is_mac (\<lambda>m. is_mode_set m h)"
    using popped encodes_by_flags [of h is_mac] own_flags [of h] by auto
  show ?thesis
    unfolding flags_def [symmetric] below_def [symmetric]
    by (intro exI conjI) (rule keyboard_calls(1) [OF assms(1), where f = f, folded requested_flags_def, folded flags_def], rule run1, rule pushed,
      rule keyboard_calls(2) [OF assms(1)], rule run2, rule h2(2), rule popped, rule again)
qed

theorem keyboard_protocol_session_witness:
  "\<exists>h push pop h1 h2. handler_new True False 2 4 8 16 100 True False = Some h \<and>
    perform sample_env None () (VCsi [(8, [])] [ch CHR ''>''] False (ch CHR ''u'')) processor_state_new =
      Some (push, processor_state_new) \<and>
    handle_all sample_libraries (grid_calls (\<lambda>_. None) push) h = Some h1 \<and>
    keystroke_to_escape_sequence True (\<lambda>m. is_mode_set m h1) =
      protocol_sequence True 8 (modes_with_flags 8 h) \<and>
    perform sample_env None () (VCsi [] [ch CHR ''<''] False (ch CHR ''u'')) processor_state_new =
      Some (pop, processor_state_new) \<and>
    handle_all sample_libraries (grid_calls (\<lambda>_. None) pop) h1 = Some h2 \<and>
    h_keyboard_mode_stack h2 = []"
proof -
  obtain h where h: "handler_new True False 2 4 8 16 100 True False = Some h"
    using handler_new_safe [of 2 4 True False 8 16 100] by (auto elim!: endsE)
  then have stack: "h_keyboard_mode_stack h = []" by (auto simp: handler_new_def Let_def split: bind_splits)
  have flags: "requested_flags 8 = 8" by (simp add: requested_flags_def KM_ALL_def keyboard_mode_defs)
  have "\<not> de_windows sample_env" "kitty_keyboard sample_libraries"
    by (simp_all add: sample_env_def sample_libraries_def)
  from keyboard_protocol_session [OF this, of h 8 None "()" processor_state_new "\<lambda>_. None" True]
  show ?thesis
    unfolding flags stack using h by (fastforce simp: sample_libraries_def kept_entries_def KEYBOARD_MODE_STACK_MAX_DEPTH_def)
qed

section \<open>Reading a sequence of the protocol\<close>

text \<open>
  A reader of such sequences, as a program has it: fields separated by semicolons, numbers in them by
  colons; the key code with its alternate, the modifiers, which are 1 when they are left out, and the
  code points of the text.
\<close>

definition csi_u_fields :: "byte list \<Rightarrow> nat option list list" where
  "csi_u_fields bs = map (map parse_u32 \<circ> split_at (ch CHR '':'')) (split_at (ch CHR '';'') (butlast (drop 2 bs)))"

fun read_fields :: "nat option list list \<Rightarrow> (nat \<times> nat option \<times> nat \<times> nat list) option" where
  "read_fields ((Some code # alternates) # rest) =
    Some (code, (case alternates of [a] \<Rightarrow> a | _ \<Rightarrow> None),
      (case rest of [Some m] # _ \<Rightarrow> m | _ \<Rightarrow> 1), (case rest of [_, t] \<Rightarrow> map the t | _ \<Rightarrow> []))"
| "read_fields _ = None"

definition read_csi_u :: "byte list \<Rightarrow> (nat \<times> nat option \<times> nat \<times> nat list) option" where
  "read_csi_u bs =
    (if starts_with CSI_BYTES bs \<and> last bs = ch CHR ''u'' then read_fields (csi_u_fields bs) else None)"

lemma decimal_plain: "c \<in> set (chars (decimal n)) \<Longrightarrow> c \<noteq> ch CHR '':'' \<and> c \<noteq> ch CHR '';''"
proof (induction n rule: decimal.induct)
  case (1 n)
  then show ?case
    by (subst (asm) decimal.simps) (auto simp: chars_def ch_def split: if_splits)
qed

lemma chars_join: "chars (join sep ss) = join (chars sep) (map chars ss)"
  by (induction ss rule: induct_list012) (simp_all add: chars_def)

lemma set_join: "set (join sep ss) \<subseteq> set sep \<union> (\<Union>s \<in> set ss. set s)"
  by (induction ss rule: induct_list012) auto

lemma parse_u32_decimal: "n < 2 ^ 32 \<Longrightarrow> parse_u32 (chars (decimal n)) = Some n"
  using parse_decimal [of n "2 ^ 32"] by (simp add: parse_u32_def U32_END_def)

lemma fields_read:
  assumes "F \<noteq> []" and "\<forall>ns \<in> set F. ns \<noteq> [] \<and> (\<forall>n \<in> set ns. n < 2 ^ 32)"
  shows "csi_u_fields (CSI_BYTES @ join [ch CHR '';''] (map (\<lambda>ns. join [ch CHR '':''] (map (\<lambda>n. chars (decimal n)) ns)) F) @
    chars ''u'') = map (map Some) F"
proof -
  let ?field = "\<lambda>ns. join [ch CHR '':''] (map (\<lambda>n. chars (decimal n)) ns)"
  have no: "ch CHR '';'' \<notin> set (chars (decimal n))" for n using decimal_plain by blast
  have plain: "ch CHR '';'' \<notin> set (?field ns)" for ns
    using set_join [of "[ch CHR '':'']" "map (\<lambda>n. chars (decimal n)) ns"] no
    by (auto simp: ch_def dest!: subsetD)
  have split: "split_at (ch CHR '';'') (join [ch CHR '';''] (map ?field F)) = map ?field F"
    using assms(1) plain by (intro split_at_join) auto
  have "split_at (ch CHR '':'') (?field ns) = map (\<lambda>n. chars (decimal n)) ns" if "ns \<noteq> []" for ns
    using that decimal_plain by (intro split_at_join) auto
  then have "map parse_u32 (split_at (ch CHR '':'') (?field ns)) = map Some ns" if "ns \<in> set F" for ns
    using that assms(2) by (auto simp: parse_u32_decimal)
  then show ?thesis
    using split by (simp add: csi_u_fields_def CSI_BYTES_def chars_def [of "''u''"])
qed

definition csi_u_numbers :: "mode_provider \<Rightarrow> keystroke \<Rightarrow> uchar list option \<Rightarrow> nat \<Rightarrow> nat list list" where
  "csi_u_numbers is_set k typed code =
    (code # option_list (csi_u_alternate is_set k code)) #
    (case csi_u_text is_set typed of
       Some t \<Rightarrow> [[csi_u_modifiers k], t]
     | None \<Rightarrow> if csi_u_modifiers k > 1 then [[csi_u_modifiers k]] else [])"

lemma csi_u_as_fields:
  "keystroke_to_csi_u is_set k base typed =
    map_option (\<lambda>code. CSI_BYTES @ join [ch CHR '';'']
        (map (\<lambda>ns. join [ch CHR '':''] (map (\<lambda>n. chars (decimal n)) ns)) (csi_u_numbers is_set k typed code)) @ chars ''u'')
      (csi_u_key_code (ks_key k) base)"
proof (cases "csi_u_key_code (ks_key k) base")
  case (Some code)
  have append: "chars (a @ b) = chars a @ chars b" "chars [] = []" for a b by (simp_all add: chars_def)
  have one: "chars [c] = [ch c]" for c by (simp add: chars_def)
  have "chars (join '':'' (map decimal t)) = join [ch CHR '':''] (map (\<lambda>n. chars (decimal n)) t)" for t
    using chars_join [of "'':''" "map decimal t"] by (simp add: one comp_def)
  then show ?thesis using Some
    by (cases "csi_u_text is_set typed"; cases "csi_u_alternate is_set k code")
      (simp_all add: keystroke_to_csi_u_def csi_u_numbers_def option_list_def Let_def append one
        append(1) [of "[_]", simplified one, simplified])
qed (simp add: keystroke_to_csi_u_def)

text \<open>
  C11. A program reads back from a sequence of the keyboard protocol what the encoder put in it: the code
  of the key, the code of the key it becomes with shift, the text it types, and each modifier; the
  modifiers may be left out only when there are none.
\<close>

theorem csi_u_roundtrip:
  assumes "keystroke_to_csi_u is_set k base typed = Some bs"
    and "\<forall>c \<in> set (ks_key k). c < 0x110000" "\<forall>t. base = Some t \<longrightarrow> (\<forall>c \<in> set t. c < 0x110000)"
      "\<forall>t. typed = Some t \<longrightarrow> (\<forall>c \<in> set t. c < 0x110000)"
  shows "(\<exists>code. csi_u_key_code (ks_key k) base = Some code \<and>
      read_csi_u bs = Some (code, csi_u_alternate is_set k code, csi_u_modifiers k,
        (case csi_u_text is_set typed of Some t \<Rightarrow> t | None \<Rightarrow> []))) \<and>
    (let m = csi_u_modifiers k - 1 in
       (odd m \<longleftrightarrow> ks_shift k) \<and> (odd (m div 2) \<longleftrightarrow> ks_alt k \<or> ks_meta k) \<and>
       (odd (m div 4) \<longleftrightarrow> ks_ctrl k) \<and> (odd (m div 8) \<longleftrightarrow> ks_cmd k))"
proof -
  obtain code where code: "csi_u_key_code (ks_key k) base = Some code"
    and bs: "bs = CSI_BYTES @ join [ch CHR '';'']
      (map (\<lambda>ns. join [ch CHR '':''] (map (\<lambda>n. chars (decimal n)) ns)) (csi_u_numbers is_set k typed code)) @ chars ''u''"
    using assms(1) by (auto simp: csi_u_as_fields)
  have lower: "lower_ascii c < 2 ^ 32" if "c < 0x110000" for c using that by (simp add: lower_ascii_def)
  have "code' < 2 ^ 32" if "map_of named_key_codes (ks_key k) = Some code'" for code'
    using map_of_SomeD [OF that] by (auto simp: named_key_codes_def)
  then have c: "code < 2 ^ 32"
    using code assms(2,3) lower by (fastforce simp: csi_u_key_code_def split: option.splits list.splits)
  have m: "csi_u_modifiers k < 2 ^ 32" "1 \<le> csi_u_modifiers k" by (simp_all add: csi_u_modifiers_def)
  have a: "a < 2 ^ 32" if "csi_u_alternate is_set k code = Some a" for a
    using that assms(2) by (auto simp: csi_u_alternate_def split: if_splits list.splits)
  have t: "t \<noteq> [] \<and> (\<forall>c \<in> set t. c < 2 ^ 32)" if "csi_u_text is_set typed = Some t" for t
    using that assms(4) by (auto simp: csi_u_text_def split: if_splits option.splits)
  have fields: "csi_u_fields bs = map (map Some) (csi_u_numbers is_set k typed code)"
    unfolding bs using c m a t
    by (intro fields_read) (auto simp: csi_u_numbers_def option_list_def split: option.splits)
  have "starts_with CSI_BYTES bs \<and> last bs = ch CHR ''u''"
    unfolding bs by (simp add: starts_with_def chars_def [of "''u''"])
  then have "read_csi_u bs = Some (code, csi_u_alternate is_set k code, csi_u_modifiers k,
      (case csi_u_text is_set typed of Some t \<Rightarrow> t | None \<Rightarrow> []))"
    unfolding read_csi_u_def fields using m
    by (auto simp: csi_u_numbers_def option_list_def comp_def split: option.splits)
  then show ?thesis
    using code by (simp add: csi_u_modifiers_def)
qed

theorem csi_u_roundtrip_witness:
  "\<exists>bs. keystroke_to_csi_u (\<lambda>_. True) ((unmodified [0x41])\<lparr>ks_shift := True\<rparr>) None (Some [0x41]) = Some bs \<and>
     read_csi_u bs = Some (0x61, Some 0x41, 2, [0x41])"
proof -
  let ?k = "(unmodified [0x41])\<lparr>ks_shift := True\<rparr>"
  have "map_of named_key_codes [0x41] = None"
    by (auto simp: named_key_codes_def map_of_eq_None_iff chars_def ch_def)
  then have code: "csi_u_key_code (ks_key ?k) None = Some 0x61"
    by (simp add: csi_u_key_code_def unmodified_def lower_ascii_def ch_def)
  then obtain bs where bs: "keystroke_to_csi_u (\<lambda>_. True) ?k None (Some [0x41]) = Some bs"
    by (auto simp: keystroke_to_csi_u_def Let_def)
  have "csi_u_modifiers ?k = 2" "csi_u_alternate (\<lambda>_. True) ?k 0x61 = Some 0x41"
      "csi_u_text (\<lambda>_. True) (Some [0x41]) = Some [0x41]"
    by (simp_all add: unmodified_def csi_u_modifiers_def csi_u_alternate_def csi_u_text_def is_control_def)
  with csi_u_roundtrip [OF bs] code bs show ?thesis by (auto simp: unmodified_def)
qed

section \<open>The older encoding\<close>

text \<open>
  The modifiers of the older encoding are one more than the sum of shift, alt and ctrl, worth 1, 2 and 4;
  meta, which is meant to stand for alt, counts only when no other modifier is held and
  is lost otherwise.
\<close>

theorem modifier_byte_is_xterm:
  "to_modifier_escape_byte k =
    (let m = (if ks_shift k then 1 else 0) + (if ks_alt k then 2 else 0) + (if ks_ctrl k then 4 else 0) in
     if m = 0 then (if ks_meta k then Some (ch CHR ''3'') else None) else Some (ch CHR ''1'' + m))"
  by (simp add: to_modifier_escape_byte_def Let_def ch_def)

lemma cursor_code_key:
  assumes "cursor_control_code key = Some c"
  shows "fn_key key = None" "key \<noteq> []"
  using assms
  by (auto simp: cursor_control_code_def match_bytes_def fn_key_def fn_keys_def map_of_eq_None_iff chars_def ch_def
      split: if_splits)

text \<open>
  The cursor keys follow the mode that a program sets: after the decoder has read the sequence that sets
  the mode of the cursor keys, an unmodified cursor key is sent with the introducer of application
  mode, and after the sequence that unsets it, with the ordinary one, as long as the keyboard protocol
  is off.
\<close>

theorem cursor_keys_follow_mode:
  assumes "\<not> is_mode_set TM_KEYBOARD_PROTOCOL h" and "cursor_control_code key = Some c"
  shows "\<exists>on off h1 h2.
    perform env pending t (VCsi [(1, [])] [ch CHR ''?''] False (ch CHR ''h'')) st = Some (on, st) \<and>
    handle_all L (grid_calls images on) h = Some h1 \<and>
    keystroke_to_escape_sequence is_mac (\<lambda>m. is_mode_set m h1) (unmodified key) base typed = Some (SS3_BYTES @ [c]) \<and>
    perform env pending t (VCsi [(1, [])] [ch CHR ''?''] False (ch CHR ''l'')) st = Some (off, st) \<and>
    handle_all L (grid_calls images off) h1 = Some h2 \<and>
    keystroke_to_escape_sequence is_mac (\<lambda>m. is_mode_set m h2) (unmodified key) base typed = Some (CSI_BYTES @ [c])"
proof -
  let ?h1 = "insert_mode TM_APP_CURSOR h"
  let ?h2 = "remove_mode TM_APP_CURSOR ?h1"
  have calls: "perform env pending t (VCsi [(1, [])] [ch CHR ''?''] False (ch CHR ''h'')) st =
      Some ([Grid (Control (SetMode M_CursorKeys))], st)"
    "perform env pending t (VCsi [(1, [])] [ch CHR ''?''] False (ch CHR ''l'')) st =
      Some ([Grid (Control (UnsetMode M_CursorKeys))], st)"
    by (simp_all add: csi_dispatch_def unset_modes_def mode_from_primitive_def private_modes_def ch_def Let_def)
  have runs: "handle_all L (grid_calls images [Grid (Control (SetMode M_CursorKeys))]) h = Some ?h1"
    "handle_all L (grid_calls images [Grid (Control (UnsetMode M_CursorKeys))]) ?h1 = Some ?h2"
    by (simp_all add: grid_calls_one handle_all_def)
  have app: "bit TM_APP_CURSOR 1" by (simp add: TM_APP_CURSOR_def)
  have disjoint: "\<not> (bit TM_APP_CURSOR n \<and> bit TM_KEYBOARD_PROTOCOL n)" for n
    using arg_cong [OF mirrored_flags(3), of "\<lambda>w. bit w n"] by (simp add: bit_and_iff)
  note bits = mode_bits insert_mode_def remove_mode_def mode_insert_def mode_remove_def bit_or_iff bit_and_iff bit_not_iff
  have flag: "is_mode_set TM_APP_CURSOR ?h1" "\<not> is_mode_set TM_APP_CURSOR ?h2"
    using app by (auto simp: bits)
  have off: "\<not> is_mode_set TM_KEYBOARD_PROTOCOL ?h1" "\<not> is_mode_set TM_KEYBOARD_PROTOCOL ?h2"
    using assms(1) disjoint by (auto simp: bits)
  have legacy: "legacy_sequence is_mac is_set (unmodified key) = Some (get_c1_sequence is_set @ [c])" for is_set
    using cursor_code_key [OF assms(2)] assms(2)
    by (simp add: legacy_sequence_def or_else_def fn_keystroke_to_escape_sequence_def unmodified_def
        keystroke_to_c0_control_code_def cursor_movement_keystroke_to_escape_sequence_def to_modifier_escape_byte_def)
  have up: "keystroke_to_escape_sequence is_mac (\<lambda>m. is_mode_set m ?h1) (unmodified key) base typed = Some (SS3_BYTES @ [c])"
    using handler_modes.legacy_without_protocol [OF off(1)] flag(1) by (simp add: legacy get_c1_sequence_def)
  have down: "keystroke_to_escape_sequence is_mac (\<lambda>m. is_mode_set m ?h2) (unmodified key) base typed = Some (CSI_BYTES @ [c])"
    using handler_modes.legacy_without_protocol [OF off(2)] flag(2) by (simp add: legacy get_c1_sequence_def)
  show ?thesis
    by (rule exI, rule exI, rule exI, rule exI, intro conjI, rule calls(1), rule runs(1), rule up,
        rule calls(2), rule runs(2), rule down)
qed

theorem cursor_keys_follow_mode_witness:
  "\<exists>h on off h1 h2. handler_new True False 2 4 8 16 100 True False = Some h \<and>
    perform sample_env None () (VCsi [(1, [])] [ch CHR ''?''] False (ch CHR ''h'')) processor_state_new =
      Some (on, processor_state_new) \<and>
    handle_all sample_libraries (grid_calls (\<lambda>_. None) on) h = Some h1 \<and>
    keystroke_to_escape_sequence False (\<lambda>m. is_mode_set m h1) (unmodified (chars ''up'')) None None =
      Some (SS3_BYTES @ [ch CHR ''A'']) \<and>
    perform sample_env None () (VCsi [(1, [])] [ch CHR ''?''] False (ch CHR ''l'')) processor_state_new =
      Some (off, processor_state_new) \<and>
    handle_all sample_libraries (grid_calls (\<lambda>_. None) off) h1 = Some h2 \<and>
    keystroke_to_escape_sequence False (\<lambda>m. is_mode_set m h2) (unmodified (chars ''up'')) None None =
      Some (CSI_BYTES @ [ch CHR ''A''])"
proof -
  obtain h where h: "handler_new True False 2 4 8 16 100 True False = Some h"
    using handler_new_safe [of 2 4 True False 8 16 100] by (auto elim!: endsE)
  then have off: "\<not> is_mode_set TM_KEYBOARD_PROTOCOL h"
    by (auto simp: handler_new_def Let_def is_mode_set_def default_term_mode_def term_mode_defs split: bind_splits)
  have up: "cursor_control_code (chars ''up'') = Some (ch CHR ''A'')"
    by (simp add: cursor_control_code_def match_bytes_def)
  from cursor_keys_follow_mode [OF off up, of sample_env None "()" processor_state_new sample_libraries "\<lambda>_. None" False None None] h
  show ?thesis by blast
qed

section \<open>The mouse\<close>

text \<open>A reader of mouse reports: the button, the column and the row from 1, and whether it was released.\<close>

definition read_mouse :: "byte list \<Rightarrow> (nat option list \<times> bool) option" where
  "read_mouse bs =
    (if starts_with (CSI_BYTES @ chars ''<'') bs \<and> last bs \<in> {ch CHR ''m'', ch CHR ''M''}
     then Some (map parse_u32 (split_at (ch CHR '';'') (butlast (drop 3 bs))), last bs = ch CHR ''m'') else None)"

text \<open>
  The report of a mouse event is read back as the button, the place and whether the button was let go; a turn
  of the wheel is the report of one line, as often as there are lines, and other actions of the wheel panic.
  The modifiers that were held are not reported.
\<close>

theorem mouse_report_roundtrip:
  assumes "p_col p + 1 < 2 ^ 32" and "p_row p + 1 < 2 ^ 32"
  shows "case mouse_code button action of
      None \<Rightarrow> button = MB_Wheel \<and> action \<in> {MA_Pressed, MA_Released} \<and>
        mouse_to_escape_sequence (set_point p (mouse_new button action mods)) = None
    | Some (code, repeats) \<Rightarrow> (\<exists>report.
        mouse_to_escape_sequence (set_point p (mouse_new button action mods)) =
          Some (Some (concat (replicate repeats report))) \<and>
        read_mouse report = Some ([Some code, Some (p_col p + 1), Some (p_row p + 1)], action = MA_Released))"
proof (cases "mouse_code button action")
  case None
  then show ?thesis
    by (cases "(button, action)" rule: mouse_code.cases)
      (simp_all add: mouse_to_escape_sequence_def set_point_def mouse_new_def Let_def)
next
  case (Some r)
  obtain code repeats where r: "r = (code, repeats)" by (cases r)
  have code: "code < 2 ^ 32"
    using Some r by (cases "(button, action)" rule: mouse_code.cases)
      (auto simp: MOUSE_LEFT_def MOUSE_RIGHT_def MOUSE_DRAG_def MOUSE_MOVE_def MOUSE_WHEEL_UP_def MOUSE_WHEEL_DOWN_def
        split: if_splits)
  let ?numbers = "[code, p_col p + 1, p_row p + 1]"
  let ?body = "join [ch CHR '';''] (map (\<lambda>n. chars (decimal n)) ?numbers)"
  let ?final = "if action = MA_Released then ch CHR ''m'' else ch CHR ''M''"
  let ?report = "CSI_BYTES @ chars ''<'' @ ?body @ [?final]"
  have "split_at (ch CHR '';'') ?body = map (\<lambda>n. chars (decimal n)) ?numbers"
    using decimal_plain by (intro split_at_join) auto
  then have "map parse_u32 (split_at (ch CHR '';'') ?body) = map Some ?numbers"
    using code assms by (simp add: parse_u32_decimal)
  moreover have "butlast (drop 3 ?report) = ?body" by (simp add: CSI_BYTES_def chars_def [of "''<''"] del: join.simps)
  moreover have "starts_with (CSI_BYTES @ chars ''<'') ?report" by (simp add: starts_with_def chars_def)
  ultimately have "read_mouse ?report = Some (map Some ?numbers, action = MA_Released)"
    by (simp add: read_mouse_def ch_def del: join.simps)
  moreover have "mouse_to_escape_sequence (set_point p (mouse_new button action mods)) =
      Some (Some (concat (replicate repeats ?report)))"
    using Some r by (simp add: mouse_to_escape_sequence_def set_point_def mouse_new_def Let_def chars_def)
  ultimately show ?thesis using Some r by auto
qed

theorem mouse_report_roundtrip_witness:
  "\<exists>report. mouse_to_escape_sequence
      (set_point (Point 4 7) (mouse_new MB_Wheel (MA_Scrolled (- 3)) \<lparr>ms_alt = False, ms_cmd = False, ms_shift = True, ms_ctrl = False, ms_func = False\<rparr>)) =
      Some (Some (concat (replicate 3 report))) \<and>
    read_mouse report = Some ([Some 65, Some 8, Some 5], False)"
  using mouse_report_roundtrip [of "Point 4 7" MB_Wheel "MA_Scrolled (- 3)" "\<lparr>ms_alt = False, ms_cmd = False, ms_shift = True, ms_ctrl = False, ms_func = False\<rparr>"]
  by (simp add: MOUSE_WHEEL_DOWN_def)

end
