(* ===== verification/Vim_Types.thy ===== *)
theory Vim_Types
  imports Warp_Prelude
begin

text \<open>
  The vocabulary of the vim mode: \<^verbatim>\<open>crates/vim/src/vim.rs\<close> (its enums, structs and the
  conversions from characters) and \<^verbatim>\<open>crates/vim/src/register.rs\<close>. A conversion that ends in
  \<open>panic!\<close> is a function into \<open>panics\<close>; counts are \<open>u32\<close>.
\<close>

section \<open>Modes and motions\<close>

datatype motion_type = Charwise | Linewise

datatype vim_mode = VM_Normal | VM_Insert | VM_Visual motion_type | VM_Replace

datatype direction = Backward | Forward

fun opposite :: "direction \<Rightarrow> direction" where
  "opposite Backward = Forward"
| "opposite Forward = Backward"

datatype word_bound = WB_Start | WB_End

datatype word_type = WT_Default | WT_BigWord

definition word_type_from :: "uchar \<Rightarrow> word_type" where
  "word_type_from c = (if is_ascii_uppercase c then WT_BigWord else WT_Default)"

record word_motion =
  wm_direction :: direction
  wm_bound :: word_bound
  wm_word_type :: word_type

definition word_motion_new :: "direction \<Rightarrow> word_bound \<Rightarrow> word_type \<Rightarrow> word_motion" where
  "word_motion_new d b t = \<lparr>wm_direction = d, wm_bound = b, wm_word_type = t\<rparr>"

datatype line_motion = LM_Start | LM_FirstNonWhitespace | LM_End

datatype character_motion = CH_Up | CH_Down | CH_Left | CH_Right | CH_WrappingLeft | CH_WrappingRight

datatype first_nonwhitespace_motion = FN_Up | FN_Down | FN_DownMinusOne

datatype find_char_destination = AtChar | BeforeChar

record find_char_motion =
  fc_direction :: direction
  fc_destination :: find_char_destination
  fc_is_repetition :: bool
  fc_c :: uchar

definition with_opposite_direction :: "find_char_motion \<Rightarrow> find_char_motion" where
  "with_opposite_direction m = m\<lparr>fc_direction := opposite (fc_direction m)\<rparr>"

definition repetition :: "find_char_motion \<Rightarrow> find_char_motion" where
  "repetition m = m\<lparr>fc_is_repetition := True\<rparr>"

section \<open>Brackets, quotes, text objects\<close>

datatype text_object_inclusion = Around | Inner

datatype quote_type = QT_Single | QT_Double | QT_Backtick

fun quote_is_char :: "quote_type \<Rightarrow> uchar \<Rightarrow> bool" where
  "quote_is_char QT_Single c = (c = ch CHR 0x27)"
| "quote_is_char QT_Double c = (c = ch CHR 0x22)"
| "quote_is_char QT_Backtick c = (c = ch CHR 0x60)"

definition quote_type_from :: "uchar \<Rightarrow> quote_type panics" where
  "quote_type_from c =
    (if c = ch CHR 0x27 then Some QT_Single
     else if c = ch CHR 0x22 then Some QT_Double
     else if c = ch CHR 0x60 then Some QT_Backtick
     else None)"

datatype bracket_end = Opening | Closing

datatype bracket_type = Parenthesis | CurlyBrace | SquareBracket

definition bracket_type_from :: "uchar \<Rightarrow> bracket_type panics" where
  "bracket_type_from c =
    (if one_of c ''()b'' then Some Parenthesis
     else if one_of c ''[]'' then Some SquareBracket
     else if one_of c ''{}B'' then Some CurlyBrace
     else None)"

record bracket_char =
  bc_end :: bracket_end
  bc_kind :: bracket_type

definition bracket_char_try_from :: "uchar \<Rightarrow> bracket_char option" where
  "bracket_char_try_from c =
    (if one_of c ''('' then Some \<lparr>bc_end = Opening, bc_kind = Parenthesis\<rparr>
     else if one_of c '')'' then Some \<lparr>bc_end = Closing, bc_kind = Parenthesis\<rparr>
     else if one_of c ''['' then Some \<lparr>bc_end = Opening, bc_kind = SquareBracket\<rparr>
     else if one_of c '']'' then Some \<lparr>bc_end = Closing, bc_kind = SquareBracket\<rparr>
     else if one_of c ''{'' then Some \<lparr>bc_end = Opening, bc_kind = CurlyBrace\<rparr>
     else if one_of c ''}'' then Some \<lparr>bc_end = Closing, bc_kind = CurlyBrace\<rparr>
     else None)"

definition bracket_is_char :: "bracket_char \<Rightarrow> uchar \<Rightarrow> bool" where
  "bracket_is_char b c =
    (case bracket_char_try_from c of Some b' \<Rightarrow> b = b' | None \<Rightarrow> False)"

definition bracket_complements :: "bracket_char \<Rightarrow> uchar \<Rightarrow> bool" where
  "bracket_complements b c =
    (case bracket_char_try_from c of
       Some b' \<Rightarrow> bc_kind b = bc_kind b' \<and> bc_end b \<noteq> bc_end b'
     | None \<Rightarrow> False)"

datatype text_object_type =
    TO_Word word_type
  | TO_Paragraph
  | TO_Quote quote_type
  | TO_Block bracket_type

definition text_object_type_from :: "uchar \<Rightarrow> text_object_type panics" where
  "text_object_type_from c =
    (if one_of c ''wW'' then Some (TO_Word (word_type_from c))
     else if one_of c ''p'' then Some TO_Paragraph
     else if one_of c [CHR 0x27, CHR 0x22, CHR 0x60] then map_option TO_Quote (quote_type_from c)
     else if one_of c ''bB()[]{}'' then map_option TO_Block (bracket_type_from c)
     else None)"

record vim_text_object =
  to_inclusion :: text_object_inclusion
  to_object_type :: text_object_type

section \<open>Operators and what is pending\<close>

datatype vim_operator =
    VO_Delete | VO_Change | VO_Yank | VO_ToggleCase | VO_Uppercase | VO_Lowercase | VO_ToggleComment

definition vim_operator_from :: "uchar \<Rightarrow> vim_operator panics" where
  "vim_operator_from c =
    (if one_of c ''dDxX'' then Some VO_Delete
     else if one_of c ''cCsS'' then Some VO_Change
     else if one_of c ''yY'' then Some VO_Yank
     else if one_of c ''~'' then Some VO_ToggleCase
     else if one_of c ''u'' then Some VO_Lowercase
     else if one_of c ''U'' then Some VO_Uppercase
     else None)"

datatype pending_operand =
    PO_G
  | PO_TextObject text_object_inclusion
  | PO_FindChar direction find_char_destination
  | PO_SquareBracket direction

definition pending_operand_from :: "uchar \<Rightarrow> pending_operand panics" where
  "pending_operand_from c =
    (if one_of c ''g'' then Some PO_G
     else if one_of c ''i'' then Some (PO_TextObject Inner)
     else if one_of c ''a'' then Some (PO_TextObject Around)
     else if one_of c ''f'' then Some (PO_FindChar Forward AtChar)
     else if one_of c ''t'' then Some (PO_FindChar Forward BeforeChar)
     else if one_of c ''F'' then Some (PO_FindChar Backward AtChar)
     else if one_of c ''T'' then Some (PO_FindChar Backward BeforeChar)
     else if one_of c ''['' then Some (PO_SquareBracket Backward)
     else if one_of c '']'' then Some (PO_SquareBracket Forward)
     else None)"

datatype pending_action =
    PA_Operation vim_operator "pending_operand option"
  | PA_G
  | PA_Z
  | PA_FindChar direction find_char_destination
  | PA_SquareBracket direction
  | PA_SetRegister

definition pending_action_from :: "uchar \<Rightarrow> pending_action panics" where
  "pending_action_from c =
    (if one_of c ''d'' then Some (PA_Operation VO_Delete None)
     else if one_of c ''c'' then Some (PA_Operation VO_Change None)
     else if one_of c ''y'' then Some (PA_Operation VO_Yank None)
     else if one_of c ''g'' then Some PA_G
     else if one_of c ''z'' then Some PA_Z
     else if one_of c ''f'' then Some (PA_FindChar Forward AtChar)
     else if one_of c ''t'' then Some (PA_FindChar Forward BeforeChar)
     else if one_of c ''F'' then Some (PA_FindChar Backward AtChar)
     else if one_of c ''T'' then Some (PA_FindChar Backward BeforeChar)
     else if one_of c ''['' then Some (PA_SquareBracket Backward)
     else if one_of c '']'' then Some (PA_SquareBracket Forward)
     else if c = ch CHR 0x22 then Some PA_SetRegister
     else None)"

datatype vim_motion =
    MO_Character character_motion
  | MO_Word word_motion
  | MO_Line line_motion
  | MO_FirstNonWhitespace first_nonwhitespace_motion
  | MO_FindChar find_char_motion
  | MO_JumpToFirstLine
  | MO_JumpToLastLine
  | MO_JumpToLine nat
  | MO_JumpToMatchingBracket
  | MO_JumpToUnmatchedBracket bracket_char
  | MO_Paragraph direction

datatype vim_operand =
    OP_Motion motion_type vim_motion
  | OP_TextObject vim_text_object
  | OP_Line

section \<open>Events\<close>

datatype insert_position =
    IP_AtCursor | IP_AfterCursor | IP_LineFirstNonWhitespace | IP_LineEnd | IP_LineAbove | IP_LineBelow

record mode_transition =
  mt_mode :: vim_mode
  mt_position :: insert_position

definition transition_with_motion :: "vim_mode \<Rightarrow> insert_position \<Rightarrow> mode_transition" where
  "transition_with_motion m p = \<lparr>mt_mode = m, mt_position = p\<rparr>"

definition mode_transition_from :: "vim_mode \<Rightarrow> mode_transition" where
  "mode_transition_from m = \<lparr>mt_mode = m, mt_position = IP_AtCursor\<rparr>"

datatype vim_event_type =
    EV_InsertChar uchar
  | EV_Navigate vim_motion
  | EV_ReplaceChar "uchar option"
  | EV_ToggleCase
  | EV_Search direction
  | EV_CycleSearch direction
  | EV_SearchWordAtCursor direction
  | EV_KeywordPrg
  | EV_ExCommand
  | EV_Paste direction uchar
  | EV_JoinLine
  | EV_ChangeMode mode_transition vim_mode
  | EV_Undo
  | EV_Backspace
  | EV_DeleteForward
  | EV_Escape
  | EV_Operation vim_operator vim_operand uchar "uchar list"
  | EV_InsertText "uchar list" insert_position
  | EV_VisualOperator vim_operator motion_type uchar
  | EV_VisualPaste motion_type uchar uchar
  | EV_VisualTextObject vim_text_object
  | EV_GotoDefinition
  | EV_FindReferences
  | EV_ShowHover
  | EV_CenterCursorVertically
  | EV_ScrollHalfPageDown
  | EV_ScrollHalfPageUp

record vim_event =
  ve_event_type :: vim_event_type
  ve_count :: nat

definition vim_event_from :: "vim_event_type \<Rightarrow> vim_event" where
  "vim_event_from t = \<lparr>ve_event_type = t, ve_count = 1\<rparr>"

text \<open>What a later \<open>.\<close> repeats after this event.\<close>

definition for_dot_repeat :: "vim_event_type \<Rightarrow> vim_event_type option" where
  "for_dot_repeat e =
    (case e of
       EV_ReplaceChar _ \<Rightarrow> Some e
     | EV_ToggleCase \<Rightarrow> Some e
     | EV_Paste _ _ \<Rightarrow> Some e
     | EV_InsertText _ _ \<Rightarrow> Some e
     | EV_JoinLine \<Rightarrow> Some e
     | EV_DeleteForward \<Rightarrow> Some e
     | EV_Operation operator _ _ _ \<Rightarrow>
         if operator = VO_Change \<or> operator = VO_Delete then Some e else None
     | EV_ChangeMode new _ \<Rightarrow>
         (case mt_mode new of
            VM_Insert \<Rightarrow> Some (EV_InsertText [] (mt_position new))
          | VM_Replace \<Rightarrow> Some (EV_ReplaceChar None)
          | _ \<Rightarrow> None)
     | _ \<Rightarrow> None)"

section \<open>Characters to motions\<close>

definition BACKSPACE_CHAR :: uchar where "BACKSPACE_CHAR = ch CHR 0x08"

definition word_motion_for_character :: "uchar \<Rightarrow> word_motion panics" where
  "word_motion_for_character c =
    (let t = word_type_from c
     in if one_of c ''w'' then Some (word_motion_new Forward WB_Start t)
        else if one_of c ''W'' then Some (word_motion_new Forward WB_Start t)
        else if one_of c ''b'' then Some (word_motion_new Backward WB_Start t)
        else if one_of c ''B'' then Some (word_motion_new Backward WB_Start t)
        else if one_of c ''e'' then Some (word_motion_new Forward WB_End t)
        else if one_of c ''E'' then Some (word_motion_new Forward WB_End t)
        else None)"

definition closed_word_motion_for_character :: "uchar \<Rightarrow> word_motion panics" where
  "closed_word_motion_for_character c =
    (let t = word_type_from c
     in if one_of c ''we'' then Some (word_motion_new Forward WB_End t)
        else if one_of c ''WE'' then Some (word_motion_new Forward WB_End t)
        else if one_of c ''b'' then Some (word_motion_new Backward WB_Start t)
        else if one_of c ''B'' then Some (word_motion_new Backward WB_Start t)
        else None)"

definition line_motion_for_character :: "uchar \<Rightarrow> line_motion panics" where
  "line_motion_for_character c =
    (if one_of c ''0'' then Some LM_Start
     else if one_of c ''^'' then Some LM_FirstNonWhitespace
     else if one_of c ''$'' then Some LM_End
     else None)"

definition char_motion_for_character :: "uchar \<Rightarrow> character_motion panics" where
  "char_motion_for_character c =
    (if one_of c ''h'' then Some CH_Left
     else if one_of c ''l'' then Some CH_Right
     else if one_of c ''k'' then Some CH_Up
     else if one_of c ''j'' then Some CH_Down
     else if one_of c '' '' then Some CH_WrappingRight
     else if c = BACKSPACE_CHAR then Some CH_WrappingLeft
     else None)"

definition first_nonwhitespace_motion_for_char :: "uchar \<Rightarrow> first_nonwhitespace_motion panics" where
  "first_nonwhitespace_motion_for_char c =
    (if one_of c ''+'' then Some FN_Down
     else if one_of c ''-'' then Some FN_Up
     else if one_of c ''_'' then Some FN_DownMinusOne
     else None)"

section \<open>Registers\<close>

definition BLACK_HOLE_REGISTER :: uchar where "BLACK_HOLE_REGISTER = ch CHR ''_''"

definition DEFAULT_REGISTER :: uchar where "DEFAULT_REGISTER = ch CHR 0x22"

definition valid_register_name :: "uchar \<Rightarrow> bool" where
  "valid_register_name c \<longleftrightarrow>
     is_ascii_lowercase c \<or> is_ascii_uppercase c \<or> one_of c ''+*'' \<or> c = ch CHR 0x22"

section \<open>Lemmas\<close>

text \<open>On the characters they are applied to, the conversions do not panic.\<close>

lemma conversions_defined:
  "one_of c ''wWbBeE'' \<Longrightarrow> word_motion_for_character c \<noteq> None"
  "one_of c ''wWbBeE'' \<Longrightarrow> closed_word_motion_for_character c \<noteq> None"
  "one_of c ''^$'' \<Longrightarrow> line_motion_for_character c \<noteq> None"
  "one_of c ''hjkl '' \<or> c = BACKSPACE_CHAR \<Longrightarrow> char_motion_for_character c \<noteq> None"
  "one_of c ''hl '' \<or> c = BACKSPACE_CHAR \<Longrightarrow> char_motion_for_character c \<noteq> None"
  "one_of c ''jk'' \<Longrightarrow> char_motion_for_character c \<noteq> None"
  "one_of c ''+-_'' \<Longrightarrow> first_nonwhitespace_motion_for_char c \<noteq> None"
  "one_of c ''(){}[]'' \<Longrightarrow> bracket_type_from c \<noteq> None"
  by (auto elim!: one_ofE simp: word_motion_for_character_def closed_word_motion_for_character_def
      line_motion_for_character_def char_motion_for_character_def bracket_type_from_def
      first_nonwhitespace_motion_for_char_def BACKSPACE_CHAR_def Let_def)

lemma pending_conversions_defined:
  "one_of c ''dDyYxX~uU'' \<Longrightarrow> vim_operator_from c \<noteq> None"
  "one_of c ''cCsS'' \<Longrightarrow> vim_operator_from c \<noteq> None"
  "one_of c ''~uU'' \<Longrightarrow> vim_operator_from c \<noteq> None"
  "one_of c ''gdcyzfFtT[]'' \<or> c = ch CHR 0x22 \<Longrightarrow> pending_action_from c \<noteq> None"
  "one_of c ''gzfFtT[]'' \<or> c = ch CHR 0x22 \<Longrightarrow> pending_action_from c \<noteq> None"
  "one_of c ''iagfFtT[]'' \<Longrightarrow> pending_operand_from c \<noteq> None"
  by (auto elim!: one_ofE simp: vim_operator_from_def pending_action_from_def pending_operand_from_def)

lemma text_object_conversion_defined:
  "one_of c ''wWpbB()[]{}'' \<or> one_of c [CHR 0x27, CHR 0x22, CHR 0x60] \<Longrightarrow>
     text_object_type_from c \<noteq> None"
  by (auto elim!: one_ofE simp: text_object_type_from_def quote_type_from_def bracket_type_from_def)

lemmas conversions_exist =
  conversions_defined [unfolded not_None_eq] pending_conversions_defined [unfolded not_None_eq]
  text_object_conversion_defined [unfolded not_None_eq]

text \<open>
  The two ends of a bracket pair complement each other, and a bracket character complements
  exactly the other character of its pair.
\<close>

theorem bracket_complements_sym:
  assumes "bracket_char_try_from c = Some b" and "bracket_char_try_from c' = Some b'"
  shows "bracket_complements b c' = bracket_complements b' c \<and>
         (bracket_complements b c' \<longrightarrow> \<not> bracket_is_char b c')"
  using assms by (auto simp: bracket_complements_def bracket_is_char_def)

theorem bracket_complements_sym_witness:
  "bracket_complements \<lparr>bc_end = Opening, bc_kind = Parenthesis\<rparr> (ch CHR '')'') =
   bracket_complements \<lparr>bc_end = Closing, bc_kind = Parenthesis\<rparr> (ch CHR ''('')"
  using bracket_complements_sym [of "ch CHR ''(''" "\<lparr>bc_end = Opening, bc_kind = Parenthesis\<rparr>"
      "ch CHR '')''" "\<lparr>bc_end = Closing, bc_kind = Parenthesis\<rparr>"]
  by (simp add: bracket_char_try_from_def)

text \<open>What an event leaves to be repeated is itself repeated as it is.\<close>

theorem for_dot_repeat_idem:
  assumes "for_dot_repeat e = Some e'"
  shows "for_dot_repeat e' = Some e'"
  using assms by (auto simp: for_dot_repeat_def split: vim_event_type.splits vim_mode.splits if_splits)

theorem for_dot_repeat_idem_witness:
  "for_dot_repeat (EV_InsertText [] IP_LineEnd) = Some (EV_InsertText [] IP_LineEnd)"
  by (rule for_dot_repeat_idem [of "EV_ChangeMode (transition_with_motion VM_Insert IP_LineEnd) VM_Normal"])
    (simp add: for_dot_repeat_def transition_with_motion_def)

end
