(* ===== verification/Vim_Fsa.thy ===== *)
theory Vim_Fsa
  imports Vim_Types
begin

text \<open>
  The state machine of the vim mode, \<open>VimFSA\<close> of \<^verbatim>\<open>crates/vim/src/vim.rs\<close>: one
  character or keystroke at a time becomes at most one event for the editor. A handler returns the
  new state with its \<open>Option\<close> result; a handler that can panic returns both in \<open>panics\<close>.
\<close>

record vim_fsa =
  v_mode :: vim_mode
  v_showcmd :: "uchar list"
  v_pending_action :: "pending_action option"
  v_pending_action_count :: "uchar list option"
  v_pending_operand_count :: "uchar list option"
  v_pending_visual_object :: "text_object_inclusion option"
  v_last_find_motion :: "find_char_motion option"
  v_register :: uchar
  v_dot_repeat_event :: "vim_event option"

type_synonym handled = "vim_fsa \<times> vim_event_type option"

abbreviation emit :: "vim_fsa \<Rightarrow> vim_event_type \<Rightarrow> handled panics" where
  "emit v e \<equiv> Some (v, Some e)"

abbreviation quiet :: "vim_fsa \<Rightarrow> handled panics" where
  "quiet v \<equiv> Some (v, None)"

section \<open>State and counts\<close>

definition vim_new :: vim_fsa where
  "vim_new =
    \<lparr>v_mode = VM_Insert, v_showcmd = [], v_pending_action = None, v_pending_action_count = None,
     v_pending_operand_count = None, v_pending_visual_object = None, v_last_find_motion = None,
     v_register = DEFAULT_REGISTER, v_dot_repeat_event = None\<rparr>"

definition vim_clear :: "vim_fsa \<Rightarrow> vim_fsa" where
  "vim_clear v =
    v\<lparr>v_showcmd := [], v_pending_action := None, v_pending_action_count := None,
      v_pending_operand_count := None, v_pending_visual_object := None,
      v_register := DEFAULT_REGISTER\<rparr>"

definition vim_interrupt :: "vim_fsa \<Rightarrow> vim_fsa" where
  "vim_interrupt v =
    (let v = vim_clear v
     in case v_mode v of
          VM_Replace \<Rightarrow> v\<lparr>v_mode := VM_Normal\<rparr>
        | VM_Visual _ \<Rightarrow> v\<lparr>v_mode := VM_Normal\<rparr>
        | VM_Insert \<Rightarrow> v
        | VM_Normal \<Rightarrow> v)"

definition vim_state :: "vim_fsa \<Rightarrow> vim_mode \<times> uchar list" where
  "vim_state v = (v_mode v, v_showcmd v)"

definition force_insert_mode :: "vim_fsa \<Rightarrow> vim_fsa" where
  "force_insert_mode v = (vim_clear v)\<lparr>v_mode := VM_Insert\<rparr>"

text \<open>
  \<open>str::parse::<u32>\<close>: an optional plus sign, then at least one digit, and no overflow. A count
  that does not parse is no count.
\<close>

fun digits_value :: "nat \<Rightarrow> uchar list \<Rightarrow> nat option" where
  "digits_value acc [] = Some acc"
| "digits_value acc (c # cs) =
    (if is_ascii_digit c
     then (let acc' = 10 * acc + (c - ch CHR ''0'')
           in if acc' < 2 ^ 32 then digits_value acc' cs else None)
     else None)"

definition parse_u32 :: "uchar list \<Rightarrow> nat option" where
  "parse_u32 s =
    (let digits = (if s \<noteq> [] \<and> hd s = ch CHR ''+'' then tl s else s)
     in if digits = [] then None else digits_value 0 digits)"

definition get_action_count :: "vim_fsa \<Rightarrow> nat option" where
  "get_action_count v = Option.bind (v_pending_action_count v) parse_u32"

definition get_operand_count :: "vim_fsa \<Rightarrow> nat option" where
  "get_operand_count v = Option.bind (v_pending_operand_count v) parse_u32"

definition unwrap_or :: "'a \<Rightarrow> 'a option \<Rightarrow> 'a" where
  "unwrap_or d x = (case x of None \<Rightarrow> d | Some y \<Rightarrow> y)"

text \<open>A product of two \<open>u32\<close> counts, which overflows.\<close>

definition umul32 :: "nat \<Rightarrow> nat \<Rightarrow> nat panics" where
  "umul32 a b = (if a * b < 2 ^ 32 then Some (a * b) else None)"

definition compute_event_count :: "vim_fsa \<Rightarrow> uchar \<Rightarrow> vim_event_type \<Rightarrow> nat panics" where
  "compute_event_count v c event_type =
    (let this_action_count = get_action_count v
     in if c = ch CHR ''.'' \<or> (case event_type of EV_ReplaceChar _ \<Rightarrow> True | _ \<Rightarrow> False) then
          Some (case this_action_count of
                  Some n \<Rightarrow> n
                | None \<Rightarrow> unwrap_or 1 (map_option ve_count (v_dot_repeat_event v)))
        else umul32 (unwrap_or 1 this_action_count) (unwrap_or 1 (get_operand_count v)))"

definition push_action_count :: "uchar \<Rightarrow> vim_fsa \<Rightarrow> vim_fsa" where
  "push_action_count c v =
    v\<lparr>v_pending_action_count := Some (unwrap_or [] (v_pending_action_count v) @ [c])\<rparr>"

definition push_operand_count :: "uchar \<Rightarrow> vim_fsa \<Rightarrow> vim_fsa" where
  "push_operand_count c v =
    v\<lparr>v_pending_operand_count := Some (unwrap_or [] (v_pending_operand_count v) @ [c])\<rparr>"

section \<open>Building events\<close>

definition vim_change_mode :: "mode_transition \<Rightarrow> vim_fsa \<Rightarrow> vim_fsa \<times> vim_event_type" where
  "vim_change_mode t v = (v\<lparr>v_mode := mt_mode t\<rparr>, EV_ChangeMode t (v_mode v))"

abbreviation changed :: "vim_fsa \<times> vim_event_type \<Rightarrow> handled panics" where
  "changed r \<equiv> Some (fst r, Some (snd r))"

definition create_operation :: "vim_fsa \<Rightarrow> vim_operator \<Rightarrow> vim_operand \<Rightarrow> vim_event_type" where
  "create_operation v operator operand = EV_Operation operator operand (v_register v) []"

definition create_visual_operator ::
  "vim_fsa \<Rightarrow> uchar \<Rightarrow> motion_type \<Rightarrow> vim_event_type panics" where
  "create_visual_operator v c motion_type =
    do { let motion_type = (if is_ascii_uppercase c \<and> c \<noteq> ch CHR ''U'' then Linewise else motion_type);
         operator \<leftarrow> vim_operator_from c;
         Some (EV_VisualOperator operator motion_type (v_register v)) }"

section \<open>Text typed for a later repeat\<close>

text \<open>\<open>dot_repeat_text_mut\<close>, with what the caller does to the text.\<close>

definition dot_repeat_text_mut :: "(uchar list \<Rightarrow> uchar list) \<Rightarrow> vim_fsa \<Rightarrow> vim_fsa" where
  "dot_repeat_text_mut f v =
    (case v_dot_repeat_event v of
       None \<Rightarrow> v
     | Some e \<Rightarrow>
         (case ve_event_type e of
            EV_InsertText t p \<Rightarrow>
              v\<lparr>v_dot_repeat_event := Some (e\<lparr>ve_event_type := EV_InsertText (f t) p\<rparr>)\<rparr>
          | EV_Operation VO_Change operand r t \<Rightarrow>
              v\<lparr>v_dot_repeat_event := Some (e\<lparr>ve_event_type := EV_Operation VO_Change operand r (f t)\<rparr>)\<rparr>
          | _ \<Rightarrow> v))"

definition handle_insert_char :: "uchar \<Rightarrow> vim_fsa \<Rightarrow> vim_fsa \<times> vim_event_type" where
  "handle_insert_char c v = (dot_repeat_text_mut (\<lambda>t. t @ [c]) v, EV_InsertChar c)"

definition handle_insert_mode_backspace :: "vim_fsa \<Rightarrow> vim_fsa \<times> vim_event_type" where
  "handle_insert_mode_backspace v = (dot_repeat_text_mut butlast v, EV_Backspace)"

definition handle_insert_mode_delete :: "vim_fsa \<Rightarrow> vim_fsa \<times> vim_event_type" where
  "handle_insert_mode_delete v =
    ((if v_dot_repeat_event v = None
      then v\<lparr>v_dot_repeat_event := Some \<lparr>ve_event_type = EV_DeleteForward, ve_count = 1\<rparr>\<rparr>
      else v),
     EV_DeleteForward)"

text \<open>Leaving insert mode repeats a counted insertion the remaining times.\<close>

definition number_repeated_text :: "vim_fsa \<Rightarrow> (uchar list \<times> insert_position \<times> nat) option" where
  "number_repeated_text v =
    (case v_dot_repeat_event v of
       None \<Rightarrow> None
     | Some e \<Rightarrow>
         if ve_count e > 1 then
           (case ve_event_type e of
              EV_InsertText text position \<Rightarrow>
                Some (text,
                      (if position = IP_LineAbove \<or> position = IP_LineBelow then position
                       else IP_AtCursor),
                      ve_count e - 1)
            | _ \<Rightarrow> None)
         else None)"

definition exit_insert_mode :: "vim_fsa \<Rightarrow> vim_fsa \<times> vim_event" where
  "exit_insert_mode v =
    (case number_repeated_text v of
       Some (text, position, count) \<Rightarrow>
         (v\<lparr>v_mode := VM_Normal\<rparr>,
          \<lparr>ve_event_type = EV_InsertText text position, ve_count = count\<rparr>)
     | None \<Rightarrow>
         (let (v, t) = vim_change_mode (mode_transition_from VM_Normal) v
          in (v, vim_event_from t)))"

section \<open>Normal mode\<close>

text \<open>Repeating the last find, in the same direction or the other.\<close>

definition handle_normal_nothing_pending :: "uchar \<Rightarrow> vim_fsa \<Rightarrow> handled panics" where
  "handle_normal_nothing_pending c v =
    (if one_of c ''hjkl '' \<or> c = BACKSPACE_CHAR then
       do { m \<leftarrow> char_motion_for_character c; emit v (EV_Navigate (MO_Character m)) }
     else if one_of c ''wWbBeE'' then
       do { m \<leftarrow> word_motion_for_character c; emit v (EV_Navigate (MO_Word m)) }
     else if one_of c ''^$'' then
       do { m \<leftarrow> line_motion_for_character c; emit v (EV_Navigate (MO_Line m)) }
     else if one_of c ''+-_'' then
       do { m \<leftarrow> first_nonwhitespace_motion_for_char c; emit v (EV_Navigate (MO_FirstNonWhitespace m)) }
     else if one_of c ''0'' then
       (case v_pending_action_count v of
          None \<Rightarrow> emit v (EV_Navigate (MO_Line LM_Start))
        | Some _ \<Rightarrow> quiet (push_action_count c v))
     else if one_of c ''123456789'' then quiet (push_action_count c v)
     else if one_of c ''i'' then
       changed (vim_change_mode (transition_with_motion VM_Insert IP_AtCursor) v)
     else if one_of c ''a'' then
       changed (vim_change_mode (transition_with_motion VM_Insert IP_AfterCursor) v)
     else if one_of c ''o'' then
       changed (vim_change_mode (transition_with_motion VM_Insert IP_LineBelow) v)
     else if one_of c ''O'' then
       changed (vim_change_mode (transition_with_motion VM_Insert IP_LineAbove) v)
     else if one_of c ''I'' then
       changed (vim_change_mode (transition_with_motion VM_Insert IP_LineFirstNonWhitespace) v)
     else if one_of c ''A'' then
       changed (vim_change_mode (transition_with_motion VM_Insert IP_LineEnd) v)
     else if one_of c ''x'' then
       emit v (create_operation v VO_Delete (OP_Motion Charwise (MO_Character CH_Right)))
     else if one_of c ''X'' then
       emit v (create_operation v VO_Delete (OP_Motion Charwise (MO_Character CH_Left)))
     else if one_of c ''r'' then changed (vim_change_mode (mode_transition_from VM_Replace) v)
     else if one_of c ''gdcyzfFtT[]'' \<or> c = ch CHR 0x22 then
       do { a \<leftarrow> pending_action_from c; quiet (v\<lparr>v_pending_action := Some a\<rparr>) }
     else if one_of c ''D'' then
       emit v (create_operation v VO_Delete (OP_Motion Charwise (MO_Line LM_End)))
     else if one_of c ''C'' then
       (let v = v\<lparr>v_mode := VM_Insert\<rparr>
        in emit v (create_operation v VO_Change (OP_Motion Charwise (MO_Line LM_End))))
     else if one_of c ''Y'' then emit v (create_operation v VO_Yank OP_Line)
     else if one_of c ''s'' then
       (let v = v\<lparr>v_mode := VM_Insert\<rparr>
        in emit v (create_operation v VO_Change (OP_Motion Charwise (MO_Character CH_Right))))
     else if one_of c ''S'' then
       (let v = v\<lparr>v_mode := VM_Insert\<rparr>
        in emit v (create_operation v VO_Change OP_Line))
     else if one_of c ''p'' then emit v (EV_Paste Forward (v_register v))
     else if one_of c ''P'' then emit v (EV_Paste Backward (v_register v))
     else if one_of c ''J'' then emit v EV_JoinLine
     else if one_of c ''K'' then emit v EV_KeywordPrg
     else if one_of c ''u'' then emit v EV_Undo
     else if one_of c ''~'' then emit v EV_ToggleCase
     else if one_of c ''/'' then emit v (EV_Search Forward)
     else if one_of c ''?'' then emit v (EV_Search Backward)
     else if one_of c ''n'' then emit v (EV_CycleSearch Forward)
     else if one_of c ''N'' then emit v (EV_CycleSearch Backward)
     else if one_of c ''*'' then emit v (EV_SearchWordAtCursor Forward)
     else if one_of c ''#'' then emit v (EV_SearchWordAtCursor Backward)
     else if one_of c '':'' then emit v EV_ExCommand
     else if one_of c ''G'' then
       (case get_action_count v of
          Some line_number \<Rightarrow> emit v (EV_Navigate (MO_JumpToLine line_number))
        | None \<Rightarrow> emit v (EV_Navigate MO_JumpToLastLine))
     else if one_of c ''%'' then emit v (EV_Navigate MO_JumpToMatchingBracket)
     else if one_of c ''{'' then emit v (EV_Navigate (MO_Paragraph Backward))
     else if one_of c ''}'' then emit v (EV_Navigate (MO_Paragraph Forward))
     else if one_of c '';'' then
       (case v_last_find_motion v of
          Some m \<Rightarrow> emit v (EV_Navigate (MO_FindChar (repetition m)))
        | None \<Rightarrow> quiet (vim_clear v))
     else if one_of c '','' then
       (case v_last_find_motion v of
          Some m \<Rightarrow> emit v (EV_Navigate (MO_FindChar (with_opposite_direction (repetition m))))
        | None \<Rightarrow> quiet (vim_clear v))
     else if one_of c ''.'' then
       (case v_dot_repeat_event v of
          Some event \<Rightarrow> emit v (ve_event_type event)
        | None \<Rightarrow> quiet v)
     else if one_of c ''v'' then
       changed (vim_change_mode (mode_transition_from (VM_Visual Charwise)) v)
     else if one_of c ''V'' then
       changed (vim_change_mode (mode_transition_from (VM_Visual Linewise)) v)
     else quiet (vim_clear v))"

definition handle_normal_pending_operation ::
  "uchar \<Rightarrow> vim_operator \<Rightarrow> vim_fsa \<Rightarrow> handled panics" where
  "handle_normal_pending_operation c operator v =
    (if one_of c ''d'' \<and> operator = VO_Delete then emit v (create_operation v operator OP_Line)
     else if one_of c ''c'' \<and> operator = VO_Change then emit v (create_operation v operator OP_Line)
     else if one_of c ''y'' \<and> operator = VO_Yank then emit v (create_operation v operator OP_Line)
     else if one_of c ''c'' \<and> operator = VO_ToggleComment then
       emit v (create_operation v operator OP_Line)
     else if one_of c ''iagfFtT[]'' then
       do { p \<leftarrow> pending_operand_from c;
            quiet (v\<lparr>v_pending_action := Some (PA_Operation operator (Some p))\<rparr>) }
     else if one_of c ''hl '' \<or> c = BACKSPACE_CHAR then
       do { m \<leftarrow> char_motion_for_character c;
            emit v (create_operation v operator (OP_Motion Charwise (MO_Character m))) }
     else if one_of c ''jk'' then
       do { m \<leftarrow> char_motion_for_character c;
            emit v (create_operation v operator (OP_Motion Linewise (MO_Character m))) }
     else if one_of c ''wWbBeE'' then
       do { m \<leftarrow> (if operator = VO_Change then closed_word_motion_for_character c
                  else word_motion_for_character c);
            emit v (create_operation v operator (OP_Motion Charwise (MO_Word m))) }
     else if one_of c ''^$'' then
       do { m \<leftarrow> line_motion_for_character c;
            emit v (create_operation v operator (OP_Motion Charwise (MO_Line m))) }
     else if one_of c ''+-_'' then
       do { m \<leftarrow> first_nonwhitespace_motion_for_char c;
            emit v (create_operation v operator (OP_Motion Linewise (MO_FirstNonWhitespace m))) }
     else if one_of c ''G'' then
       emit v (create_operation v operator (OP_Motion Linewise
         (case get_operand_count v of
            Some line_number \<Rightarrow> MO_JumpToLine line_number
          | None \<Rightarrow> MO_JumpToLastLine)))
     else if one_of c ''{'' then
       emit v (create_operation v operator (OP_Motion Linewise (MO_Paragraph Backward)))
     else if one_of c ''}'' then
       emit v (create_operation v operator (OP_Motion Linewise (MO_Paragraph Forward)))
     else if one_of c ''0'' then
       (case v_pending_operand_count v of
          None \<Rightarrow> emit v (create_operation v operator (OP_Motion Charwise (MO_Line LM_Start)))
        | Some _ \<Rightarrow> quiet (push_operand_count c v))
     else if one_of c ''123456789'' then quiet (push_operand_count c v)
     else if one_of c ''%'' then
       emit v (create_operation v operator (OP_Motion Charwise MO_JumpToMatchingBracket))
     else if one_of c '';'' then
       (case v_last_find_motion v of
          Some m \<Rightarrow>
            emit v (create_operation v operator (OP_Motion Charwise (MO_FindChar (repetition m))))
        | None \<Rightarrow> quiet (vim_clear v))
     else if one_of c '','' then
       (case v_last_find_motion v of
          Some m \<Rightarrow>
            emit v (create_operation v operator
              (OP_Motion Charwise (MO_FindChar (with_opposite_direction (repetition m)))))
        | None \<Rightarrow> quiet (vim_clear v))
     else quiet (vim_clear v))"

definition unmatched_bracket :: "direction \<Rightarrow> bracket_type \<Rightarrow> vim_motion" where
  "unmatched_bracket d kind =
    MO_JumpToUnmatchedBracket
      \<lparr>bc_end = (case d of Backward \<Rightarrow> Closing | Forward \<Rightarrow> Opening), bc_kind = kind\<rparr>"

definition new_find_motion :: "direction \<Rightarrow> find_char_destination \<Rightarrow> uchar \<Rightarrow> find_char_motion" where
  "new_find_motion d dest c =
    \<lparr>fc_direction = d, fc_destination = dest, fc_is_repetition = False, fc_c = c\<rparr>"

definition handle_normal_pending_operand ::
  "uchar \<Rightarrow> vim_operator \<Rightarrow> pending_operand \<Rightarrow> vim_fsa \<Rightarrow> handled panics" where
  "handle_normal_pending_operand c operator operand v =
    (case operand of
       PO_G \<Rightarrow>
         (if one_of c ''eE'' then
            emit v (create_operation v operator
              (OP_Motion Charwise (MO_Word (word_motion_new Backward WB_End (word_type_from c)))))
          else if one_of c ''g'' then
            emit v (create_operation v operator (OP_Motion Linewise MO_JumpToFirstLine))
          else quiet (vim_clear v))
     | PO_FindChar d dest \<Rightarrow>
         (let motion = new_find_motion d dest c;
              v = v\<lparr>v_last_find_motion := Some motion\<rparr>
          in emit v (create_operation v operator (OP_Motion Charwise (MO_FindChar motion))))
     | PO_TextObject inclusion \<Rightarrow>
         (if one_of c ''wWpbB()[]{}'' \<or> one_of c [CHR 0x27, CHR 0x22, CHR 0x60] then
            do { t \<leftarrow> text_object_type_from c;
                 emit v (create_operation v operator
                   (OP_TextObject \<lparr>to_inclusion = inclusion, to_object_type = t\<rparr>)) }
          else quiet (vim_clear v))
     | PO_SquareBracket d \<Rightarrow>
         (if one_of c ''(){}[]'' then
            do { kind \<leftarrow> bracket_type_from c;
                 emit v (create_operation v operator (OP_Motion Charwise (unmatched_bracket d kind))) }
          else quiet (vim_clear v)))"

definition handle_normal_pending_action ::
  "uchar \<Rightarrow> pending_action \<Rightarrow> vim_fsa \<Rightarrow> handled panics" where
  "handle_normal_pending_action c action v =
    (case action of
       PA_Z \<Rightarrow> (if one_of c ''z'' then emit v EV_CenterCursorVertically else quiet (vim_clear v))
     | PA_G \<Rightarrow>
         (if one_of c ''eE'' then
            emit v (EV_Navigate (MO_Word (word_motion_new Backward WB_End (word_type_from c))))
          else if one_of c ''g'' then emit v (EV_Navigate MO_JumpToFirstLine)
          else if one_of c ''d'' then emit v EV_GotoDefinition
          else if one_of c ''h'' then emit v EV_ShowHover
          else if one_of c ''r'' then emit v EV_FindReferences
          else if one_of c ''~uU'' then
            do { operator \<leftarrow> vim_operator_from c;
                 quiet (v\<lparr>v_pending_action := Some (PA_Operation operator None)\<rparr>) }
          else if one_of c ''c'' then
            quiet (v\<lparr>v_pending_action := Some (PA_Operation VO_ToggleComment None)\<rparr>)
          else quiet (vim_clear v))
     | PA_FindChar d dest \<Rightarrow>
         (let motion = new_find_motion d dest c
          in emit (v\<lparr>v_last_find_motion := Some motion\<rparr>) (EV_Navigate (MO_FindChar motion)))
     | PA_SquareBracket d \<Rightarrow>
         (if one_of c ''(){}[]'' then
            do { kind \<leftarrow> bracket_type_from c; emit v (EV_Navigate (unmatched_bracket d kind)) }
          else quiet (vim_clear v))
     | PA_SetRegister \<Rightarrow>
         (let v = (if valid_register_name c then v\<lparr>v_register := c\<rparr> else v)
          in quiet (v\<lparr>v_pending_action := None\<rparr>))
     | PA_Operation operator pending_operand \<Rightarrow>
         do { r \<leftarrow> (case pending_operand of
                      Some operand \<Rightarrow> handle_normal_pending_operand c operator operand v
                    | None \<Rightarrow> handle_normal_pending_operation c operator v);
              case r of
                (v, None) \<Rightarrow> quiet v
              | (v, Some event) \<Rightarrow>
                  emit (if operator = VO_Change then v\<lparr>v_mode := VM_Insert\<rparr> else v) event })"

section \<open>Visual mode\<close>

definition handle_visual_nothing_pending :: "uchar \<Rightarrow> motion_type \<Rightarrow> vim_fsa \<Rightarrow> handled panics" where
  "handle_visual_nothing_pending c motion_type v =
    (if one_of c ''hjkl '' \<or> c = BACKSPACE_CHAR then
       do { m \<leftarrow> char_motion_for_character c; emit v (EV_Navigate (MO_Character m)) }
     else if one_of c ''wWbBeE'' then
       do { m \<leftarrow> word_motion_for_character c; emit v (EV_Navigate (MO_Word m)) }
     else if one_of c ''^$'' then
       do { m \<leftarrow> line_motion_for_character c; emit v (EV_Navigate (MO_Line m)) }
     else if one_of c ''+-_'' then
       do { m \<leftarrow> first_nonwhitespace_motion_for_char c; emit v (EV_Navigate (MO_FirstNonWhitespace m)) }
     else if one_of c ''0'' then
       (case v_pending_action_count v of
          None \<Rightarrow> emit v (EV_Navigate (MO_Line LM_Start))
        | Some _ \<Rightarrow> quiet (push_action_count c v))
     else if one_of c ''123456789'' then quiet (push_action_count c v)
     else if one_of c ''G'' then
       (case get_action_count v of
          Some line_number \<Rightarrow> emit v (EV_Navigate (MO_JumpToLine line_number))
        | None \<Rightarrow> emit v (EV_Navigate MO_JumpToLastLine))
     else if one_of c ''%'' then emit v (EV_Navigate MO_JumpToMatchingBracket)
     else if one_of c ''{'' then emit v (EV_Navigate (MO_Paragraph Backward))
     else if one_of c ''}'' then emit v (EV_Navigate (MO_Paragraph Forward))
     else if one_of c '';'' then
       (case v_last_find_motion v of
          Some m \<Rightarrow> emit v (EV_Navigate (MO_FindChar (repetition m)))
        | None \<Rightarrow> quiet (vim_clear v))
     else if one_of c '','' then
       (case v_last_find_motion v of
          Some m \<Rightarrow> emit v (EV_Navigate (MO_FindChar (with_opposite_direction (repetition m))))
        | None \<Rightarrow> quiet (vim_clear v))
     else if one_of c ''dDyYxX~uU'' then
       do { e \<leftarrow> create_visual_operator v c motion_type; emit (v\<lparr>v_mode := VM_Normal\<rparr>) e }
     else if one_of c ''cCsS'' then
       do { e \<leftarrow> create_visual_operator v c motion_type; emit (v\<lparr>v_mode := VM_Insert\<rparr>) e }
     else if one_of c ''pP'' then
       emit (v\<lparr>v_mode := VM_Normal\<rparr>)
         (EV_VisualPaste motion_type (v_register v)
           (if one_of c ''p'' then v_register v else BLACK_HOLE_REGISTER))
     else if one_of c ''gzfFtT[]'' \<or> c = ch CHR 0x22 then
       do { a \<leftarrow> pending_action_from c; quiet (v\<lparr>v_pending_action := Some a\<rparr>) }
     else if one_of c ''i'' then quiet (v\<lparr>v_pending_visual_object := Some Inner\<rparr>)
     else if one_of c ''a'' then quiet (v\<lparr>v_pending_visual_object := Some Around\<rparr>)
     else if one_of c ''v'' then
       (case motion_type of
          Charwise \<Rightarrow> changed (vim_change_mode (mode_transition_from VM_Normal) v)
        | Linewise \<Rightarrow> changed (vim_change_mode (mode_transition_from (VM_Visual Charwise)) v))
     else if one_of c ''V'' then
       (case motion_type of
          Linewise \<Rightarrow> changed (vim_change_mode (mode_transition_from VM_Normal) v)
        | Charwise \<Rightarrow> changed (vim_change_mode (mode_transition_from (VM_Visual Linewise)) v))
     else quiet v)"

definition handle_visual_pending_action ::
  "uchar \<Rightarrow> pending_action \<Rightarrow> vim_fsa \<Rightarrow> handled panics" where
  "handle_visual_pending_action c action v =
    (case action of
       PA_Z \<Rightarrow> (if one_of c ''z'' then emit v EV_CenterCursorVertically else quiet (vim_clear v))
     | PA_G \<Rightarrow>
         (if one_of c ''eE'' then
            emit v (EV_Navigate (MO_Word (word_motion_new Backward WB_End (word_type_from c))))
          else if one_of c ''g'' then emit v (EV_Navigate MO_JumpToFirstLine)
          else if one_of c ''c'' then
            (let motion_type = (case v_mode v of VM_Visual mt \<Rightarrow> mt | _ \<Rightarrow> Charwise);
                 v = v\<lparr>v_mode := VM_Normal\<rparr>
             in emit v (EV_VisualOperator VO_ToggleComment motion_type (v_register v)))
          else quiet (vim_clear v))
     | PA_FindChar d dest \<Rightarrow>
         (let motion = new_find_motion d dest c
          in emit (v\<lparr>v_last_find_motion := Some motion\<rparr>) (EV_Navigate (MO_FindChar motion)))
     | PA_SquareBracket d \<Rightarrow>
         (if one_of c ''(){}[]'' then
            do { kind \<leftarrow> bracket_type_from c; emit v (EV_Navigate (unmatched_bracket d kind)) }
          else quiet (vim_clear v))
     | PA_SetRegister \<Rightarrow>
         (let v = (if valid_register_name c then v\<lparr>v_register := c\<rparr> else v)
          in quiet (v\<lparr>v_pending_action := None\<rparr>))
     | PA_Operation _ _ \<Rightarrow> quiet (vim_clear v))"

definition handle_visual_command :: "uchar \<Rightarrow> motion_type \<Rightarrow> vim_fsa \<Rightarrow> handled panics" where
  "handle_visual_command c motion_type v =
    (case v_pending_action v of
       Some action \<Rightarrow> handle_visual_pending_action c action v
     | None \<Rightarrow>
         (case v_pending_visual_object v of
            Some inclusion \<Rightarrow>
              (if one_of c ''wWpbB()[]{}'' \<or> one_of c [CHR 0x27, CHR 0x22, CHR 0x60] then
                 do { let v = (if one_of c ''p'' then v\<lparr>v_mode := VM_Visual Linewise\<rparr> else v);
                      t \<leftarrow> text_object_type_from c;
                      emit v (EV_VisualTextObject \<lparr>to_inclusion = inclusion, to_object_type = t\<rparr>) }
               else quiet (vim_clear v))
          | None \<Rightarrow> handle_visual_nothing_pending c motion_type v))"

section \<open>Characters and keystrokes\<close>

definition handle_character :: "uchar \<Rightarrow> vim_fsa \<Rightarrow> handled panics" where
  "handle_character c v =
    (case v_mode v of
       VM_Insert \<Rightarrow> changed (handle_insert_char c v)
     | VM_Normal \<Rightarrow>
         (case v_pending_action v of
            Some action \<Rightarrow> handle_normal_pending_action c action v
          | None \<Rightarrow> handle_normal_nothing_pending c v)
     | VM_Visual motion_type \<Rightarrow> handle_visual_command c motion_type v
     | VM_Replace \<Rightarrow> emit (v\<lparr>v_mode := VM_Normal\<rparr>) (EV_ReplaceChar (Some c)))"

definition typed_character :: "uchar \<Rightarrow> vim_fsa \<Rightarrow> (vim_fsa \<times> vim_event option) panics" where
  "typed_character c v =
    do { let v = v\<lparr>v_showcmd := v_showcmd v @ [c]\<rparr>;
         r \<leftarrow> handle_character c v;
         case r of
           (v, None) \<Rightarrow> Some (v, None)
         | (v, Some event_type) \<Rightarrow>
             do { count \<leftarrow> compute_event_count v c event_type;
                  let v = vim_clear v;
                  let dot = (case for_dot_repeat event_type of
                               Some t \<Rightarrow> Some \<lparr>ve_event_type = t, ve_count = count\<rparr>
                             | None \<Rightarrow> v_dot_repeat_event v);
                  Some (v\<lparr>v_dot_repeat_event := dot\<rparr>,
                        Some \<lparr>ve_event_type = event_type, ve_count = count\<rparr>) } }"

definition once :: "vim_fsa \<times> vim_event_type \<Rightarrow> (vim_fsa \<times> vim_event option) panics" where
  "once r = Some (fst r, Some (vim_event_from (snd r)))"

definition scroll_half_page :: "vim_event_type \<Rightarrow> vim_fsa \<Rightarrow> (vim_fsa \<times> vim_event option) panics" where
  "scroll_half_page t v =
    (let count = unwrap_or 1 (get_action_count v)
     in Some (vim_clear v, Some \<lparr>ve_event_type = t, ve_count = count\<rparr>))"

definition keypress :: "string \<Rightarrow> vim_fsa \<Rightarrow> (vim_fsa \<times> vim_event option) panics" where
  "keypress keystroke v =
    (let to_normal = once (vim_change_mode (mode_transition_from VM_Normal) v)
     in if keystroke = ''escape'' then
          (case v_mode v of
             VM_Normal \<Rightarrow> once (vim_clear v, EV_Escape)
           | VM_Replace \<Rightarrow> to_normal
           | VM_Visual _ \<Rightarrow> to_normal
           | VM_Insert \<Rightarrow> (let (v, e) = exit_insert_mode v in Some (v, Some e)))
        else if keystroke = ''backspace'' then
          (case v_mode v of
             VM_Insert \<Rightarrow> once (handle_insert_mode_backspace v)
           | VM_Visual _ \<Rightarrow> typed_character BACKSPACE_CHAR v
           | VM_Normal \<Rightarrow> typed_character BACKSPACE_CHAR v
           | VM_Replace \<Rightarrow> to_normal)
        else if keystroke \<in> {''enter'', ''shift-enter'', ''numpadenter''} then
          (case v_mode v of
             VM_Insert \<Rightarrow> once (v, EV_InsertChar (ch CHR 0x0A))
           | VM_Normal \<Rightarrow> once (v, EV_Navigate (MO_FirstNonWhitespace FN_Down))
           | VM_Visual _ \<Rightarrow> once (v, EV_Navigate (MO_FirstNonWhitespace FN_Down))
           | VM_Replace \<Rightarrow> to_normal)
        else if keystroke \<in> {''tab'', ''shift-tab''} then
          (if v_mode v = VM_Insert then once (v, EV_InsertChar (ch CHR 0x09)) else Some (v, None))
        else if keystroke = ''delete'' then
          (case v_mode v of
             VM_Insert \<Rightarrow> once (handle_insert_mode_delete v)
           | VM_Normal \<Rightarrow> typed_character (ch CHR ''x'') v
           | VM_Visual _ \<Rightarrow> typed_character (ch CHR ''x'') v
           | VM_Replace \<Rightarrow> to_normal)
        else if keystroke = ''ctrl-d'' then
          (case v_mode v of
             VM_Normal \<Rightarrow> scroll_half_page EV_ScrollHalfPageDown v
           | VM_Visual _ \<Rightarrow> scroll_half_page EV_ScrollHalfPageDown v
           | _ \<Rightarrow> Some (v, None))
        else if keystroke = ''ctrl-u'' then
          (case v_mode v of
             VM_Normal \<Rightarrow> scroll_half_page EV_ScrollHalfPageUp v
           | VM_Visual _ \<Rightarrow> scroll_half_page EV_ScrollHalfPageUp v
           | _ \<Rightarrow> Some (v, None))
        else Some (v, None))"

section \<open>The model around it\<close>

datatype vim_input = Typed uchar | Key string | Interrupt | ForceInsert

definition vim_input :: "vim_input \<Rightarrow> vim_fsa \<Rightarrow> (vim_fsa \<times> vim_event option) panics" where
  "vim_input i v =
    (case i of
       Typed c \<Rightarrow> typed_character c v
     | Key k \<Rightarrow> keypress k v
     | Interrupt \<Rightarrow> Some (vim_interrupt v, None)
     | ForceInsert \<Rightarrow> Some (force_insert_mode v, None))"

text \<open>A sequence of inputs, with the events it emits.\<close>

fun vim_run :: "vim_input list \<Rightarrow> vim_fsa \<Rightarrow> (vim_fsa \<times> vim_event list) panics" where
  "vim_run [] v = Some (v, [])"
| "vim_run (i # is) v =
    do { r \<leftarrow> vim_input i v;
         r' \<leftarrow> vim_run is (fst r);
         Some (fst r', (case snd r of None \<Rightarrow> [] | Some e \<Rightarrow> [e]) @ snd r') }"

inductive vim_reachable :: "vim_fsa \<Rightarrow> bool" where
  vim_init: "vim_reachable vim_new"
| vim_step: "vim_reachable v \<Longrightarrow> vim_input i v = Some (v', e) \<Longrightarrow> vim_reachable v'"

text \<open>The handler's methods, and which one an event calls, with its arguments.\<close>

datatype handler_call =
    H_insert_char uchar
  | H_navigate_char nat character_motion
  | H_navigate_word nat word_motion
  | H_navigate_line nat line_motion
  | H_first_nonwhitespace_motion nat first_nonwhitespace_motion
  | H_find_char nat find_char_motion
  | H_navigate_paragraph nat direction
  | H_jump_to_first_line
  | H_jump_to_last_line
  | H_jump_to_line nat
  | H_jump_to_matching_bracket
  | H_jump_to_unmatched_bracket bracket_char
  | H_operation vim_operator nat vim_operand uchar "uchar list"
  | H_replace_char uchar nat
  | H_paste nat direction uchar
  | H_insert_text "uchar list" insert_position nat
  | H_join_line nat
  | H_undo
  | H_toggle_case nat
  | H_search direction
  | H_cycle_search direction
  | H_search_word_at_cursor direction
  | H_keyword_prg
  | H_ex_command
  | H_visual_operator vim_operator motion_type uchar
  | H_visual_paste motion_type uchar uchar
  | H_visual_text_object vim_text_object
  | H_escape
  | H_change_mode vim_mode mode_transition
  | H_backspace
  | H_delete_forward
  | H_goto_definition
  | H_find_references
  | H_show_hover
  | H_center_cursor_vertically
  | H_scroll_half_page_down nat
  | H_scroll_half_page_up nat

definition handle_vim_event :: "vim_event \<Rightarrow> handler_call option" where
  "handle_vim_event event =
    (let n = ve_count event
     in case ve_event_type event of
          EV_InsertChar c \<Rightarrow> Some (H_insert_char c)
        | EV_Navigate motion \<Rightarrow>
            Some (case motion of
                    MO_Character m \<Rightarrow> H_navigate_char n m
                  | MO_Word m \<Rightarrow> H_navigate_word n m
                  | MO_Line m \<Rightarrow> H_navigate_line n m
                  | MO_FirstNonWhitespace m \<Rightarrow> H_first_nonwhitespace_motion n m
                  | MO_FindChar m \<Rightarrow> H_find_char n m
                  | MO_Paragraph d \<Rightarrow> H_navigate_paragraph n d
                  | MO_JumpToFirstLine \<Rightarrow> H_jump_to_first_line
                  | MO_JumpToLastLine \<Rightarrow> H_jump_to_last_line
                  | MO_JumpToLine l \<Rightarrow> H_jump_to_line l
                  | MO_JumpToMatchingBracket \<Rightarrow> H_jump_to_matching_bracket
                  | MO_JumpToUnmatchedBracket b \<Rightarrow> H_jump_to_unmatched_bracket b)
        | EV_Operation operator operand r t \<Rightarrow> Some (H_operation operator n operand r t)
        | EV_ReplaceChar (Some c) \<Rightarrow> Some (H_replace_char c n)
        | EV_ReplaceChar None \<Rightarrow> None
        | EV_Paste d r \<Rightarrow> Some (H_paste n d r)
        | EV_InsertText t p \<Rightarrow> Some (H_insert_text t p n)
        | EV_JoinLine \<Rightarrow> Some (H_join_line n)
        | EV_Undo \<Rightarrow> Some H_undo
        | EV_ToggleCase \<Rightarrow> Some (H_toggle_case n)
        | EV_Search d \<Rightarrow> Some (H_search d)
        | EV_CycleSearch d \<Rightarrow> Some (H_cycle_search d)
        | EV_SearchWordAtCursor d \<Rightarrow> Some (H_search_word_at_cursor d)
        | EV_KeywordPrg \<Rightarrow> Some H_keyword_prg
        | EV_ExCommand \<Rightarrow> Some H_ex_command
        | EV_VisualOperator operator t r \<Rightarrow> Some (H_visual_operator operator t r)
        | EV_VisualPaste t r w \<Rightarrow> Some (H_visual_paste t r w)
        | EV_VisualTextObject t \<Rightarrow> Some (H_visual_text_object t)
        | EV_Escape \<Rightarrow> Some H_escape
        | EV_ChangeMode new old \<Rightarrow> Some (H_change_mode old new)
        | EV_Backspace \<Rightarrow> Some H_backspace
        | EV_DeleteForward \<Rightarrow> Some H_delete_forward
        | EV_GotoDefinition \<Rightarrow> Some H_goto_definition
        | EV_FindReferences \<Rightarrow> Some H_find_references
        | EV_ShowHover \<Rightarrow> Some H_show_hover
        | EV_CenterCursorVertically \<Rightarrow> Some H_center_cursor_vertically
        | EV_ScrollHalfPageDown \<Rightarrow> Some (H_scroll_half_page_down n)
        | EV_ScrollHalfPageUp \<Rightarrow> Some (H_scroll_half_page_up n))"

section \<open>Reasoning about handlers\<close>

text \<open>A handler result that does not panic and satisfies a postcondition.\<close>

definition sat :: "(vim_fsa \<Rightarrow> vim_event_type option \<Rightarrow> bool) \<Rightarrow> handled panics \<Rightarrow> bool" where
  "sat P r \<longleftrightarrow> (case r of None \<Rightarrow> False | Some (v, e) \<Rightarrow> P v e)"

named_theorems handled_rules \<open>weakest preconditions of the handlers' constructs\<close>

lemma sat_if [handled_rules]: "(b \<Longrightarrow> sat P x) \<Longrightarrow> sat P y \<Longrightarrow> sat P (if b then x else y)"
  by simp

lemma sat_result [handled_rules]: "P v e \<Longrightarrow> sat P (Some (v, e))"
  by (simp add: sat_def)

lemma sat_bind [handled_rules]:
  "m \<noteq> None \<Longrightarrow> (\<And>x. m = Some x \<Longrightarrow> sat P (f x)) \<Longrightarrow> sat P (Option.bind m f)"
  by auto

lemma sat_option [handled_rules]:
  "(m = None \<Longrightarrow> sat P x) \<Longrightarrow> (\<And>y. m = Some y \<Longrightarrow> sat P (f y)) \<Longrightarrow>
     sat P (case m of None \<Rightarrow> x | Some y \<Rightarrow> f y)"
  by (cases m) auto

lemma sat_let [handled_rules]: "sat P (f x) \<Longrightarrow> sat P (Let x f)"
  by simp

lemma sat_weaken: "sat P r \<Longrightarrow> (\<And>v e. P v e \<Longrightarrow> Q v e) \<Longrightarrow> sat Q r"
  by (auto simp: sat_def split: option.splits)

lemmas sat_cases [handled_rules] =
  pending_action.split [where P = "sat P" for P, THEN iffD2]
  pending_operand.split [where P = "sat P" for P, THEN iffD2]
  motion_type.split [where P = "sat P" for P, THEN iffD2]
  vim_mode.split [where P = "sat P" for P, THEN iffD2]

text \<open>
  The postcondition of every handler outside insert mode: an event leaves the counts and the
  event to repeat as they were; no event leaves a state that keeps the invariant.
\<close>

fun digits_ok :: "uchar list option \<Rightarrow> bool" where
  "digits_ok None = True"
| "digits_ok (Some s) = (s \<noteq> [] \<and> list_all is_ascii_digit s \<and> hd s \<noteq> ch CHR ''0'')"

definition is_operation :: "pending_action option \<Rightarrow> bool" where
  "is_operation a = (case a of Some (PA_Operation _ _) \<Rightarrow> True | _ \<Rightarrow> False)"

definition dot_ok :: "vim_fsa \<Rightarrow> bool" where
  "dot_ok v \<longleftrightarrow>
     (case v_dot_repeat_event v of
        None \<Rightarrow> True
      | Some e \<Rightarrow> for_dot_repeat (ve_event_type e) = Some (ve_event_type e) \<and> ve_count e < 2 ^ 32)"

definition nothing_pending :: "vim_fsa \<Rightarrow> bool" where
  "nothing_pending v \<longleftrightarrow>
     v_pending_action v = None \<and> v_pending_action_count v = None \<and>
     v_pending_operand_count v = None \<and> v_pending_visual_object v = None \<and>
     v_register v = DEFAULT_REGISTER"

definition is_visual :: "vim_mode \<Rightarrow> bool" where
  "is_visual m = (case m of VM_Visual _ \<Rightarrow> True | _ \<Rightarrow> False)"

definition vim_inv :: "vim_fsa \<Rightarrow> bool" where
  "vim_inv v \<longleftrightarrow>
     valid_register_name (v_register v) \<and>
     digits_ok (v_pending_action_count v) \<and> digits_ok (v_pending_operand_count v) \<and>
     (v_pending_operand_count v \<noteq> None \<longrightarrow> v_mode v = VM_Normal \<and> is_operation (v_pending_action v)) \<and>
     (v_mode v = VM_Insert \<or> v_mode v = VM_Replace \<longrightarrow> nothing_pending v) \<and>
     (is_visual (v_mode v) \<longrightarrow> \<not> is_operation (v_pending_action v)) \<and>
     dot_ok v"

definition handled_post :: "vim_fsa \<Rightarrow> vim_fsa \<Rightarrow> vim_event_type option \<Rightarrow> bool" where
  "handled_post v0 v e \<longleftrightarrow>
     v_dot_repeat_event v = v_dot_repeat_event v0 \<and>
     (case e of
        Some _ \<Rightarrow> v_pending_action_count v = v_pending_action_count v0 \<and>
                  v_pending_operand_count v = v_pending_operand_count v0
      | None \<Rightarrow> vim_inv v0 \<longrightarrow> vim_inv v)"

lemma vim_clear_fields [simp]:
  "v_mode (vim_clear v) = v_mode v" "v_dot_repeat_event (vim_clear v) = v_dot_repeat_event v"
  "v_last_find_motion (vim_clear v) = v_last_find_motion v" "v_showcmd (vim_clear v) = []"
  "nothing_pending (vim_clear v)"
  by (simp_all add: vim_clear_def nothing_pending_def)

lemma default_register_valid [simp]: "valid_register_name DEFAULT_REGISTER"
  by (simp add: valid_register_name_def DEFAULT_REGISTER_def)

text \<open>A state with nothing pending satisfies the invariant in every mode.\<close>

lemma nothing_pending_inv: "nothing_pending v \<Longrightarrow> dot_ok v \<Longrightarrow> vim_inv v"
  by (auto simp: vim_inv_def nothing_pending_def is_operation_def)

lemma vim_clear_post [simp]: "handled_post v0 (vim_clear v0) None"
  using nothing_pending_inv [of "vim_clear v0"] by (auto simp: handled_post_def vim_inv_def dot_ok_def)

text \<open>Counts are typed digit by digit, never starting with a zero.\<close>

lemma digits_ok_push:
  assumes "digits_ok n" and "one_of c ''0'' \<Longrightarrow> n \<noteq> None" and "one_of c ''0'' \<or> one_of c ''123456789''"
  shows "digits_ok (Some (unwrap_or [] n @ [c]))"
proof -
  have "is_ascii_digit c" "\<not> one_of c ''0'' \<Longrightarrow> c \<noteq> ch CHR ''0''"
    using assms(3) by (auto simp: is_ascii_digit_def ch_def one_of_def)
  with assms show ?thesis
    by (cases n) (auto simp: unwrap_or_def)
qed

lemma push_action_post:
  assumes "v_mode v = VM_Normal \<or> is_visual (v_mode v)"
    and "one_of c ''0'' \<Longrightarrow> v_pending_action_count v \<noteq> None"
    and "one_of c ''0'' \<or> one_of c ''123456789''"
  shows "handled_post v (push_action_count c v) None"
  using assms digits_ok_push [OF _ assms(2,3)]
  by (auto simp: handled_post_def push_action_count_def vim_inv_def dot_ok_def is_visual_def)

lemma push_operand_post:
  assumes "v_mode v = VM_Normal" and "is_operation (v_pending_action v)"
    and "one_of c ''0'' \<Longrightarrow> v_pending_operand_count v \<noteq> None"
    and "one_of c ''0'' \<or> one_of c ''123456789''"
  shows "handled_post v (push_operand_count c v) None"
  using assms digits_ok_push [OF _ assms(3,4)]
  by (auto simp: handled_post_def push_operand_count_def vim_inv_def dot_ok_def is_visual_def)

lemma nonzero_digit [simp]: "one_of c ''123456789'' \<Longrightarrow> \<not> one_of c ''0''"
  by (auto elim!: one_ofE)

text \<open>What any event leaves unchanged.\<close>

lemma event_post [simp]:
  "handled_post v v (Some e)"
  "handled_post v (v\<lparr>v_mode := m\<rparr>) (Some e)"
  "handled_post v (v\<lparr>v_last_find_motion := f\<rparr>) (Some e)"
  "handled_post v (fst (vim_change_mode t v)) (Some e)"
  by (simp_all add: handled_post_def vim_change_mode_def)

lemma visual_operator_defined:
  "one_of c ''dDyYxX~uU'' \<Longrightarrow> create_visual_operator v c t \<noteq> None"
  "one_of c ''cCsS'' \<Longrightarrow> create_visual_operator v c t \<noteq> None"
  using pending_conversions_defined(1,2) [of c]
  by (auto simp: create_visual_operator_def Let_def split: Option.bind_splits)

lemma normal_nothing_pending_post:
  assumes "v_mode v = VM_Normal" and "v_pending_action v = None"
  shows "sat (handled_post v) (handle_normal_nothing_pending c v)"
proof -
  have pend: "handled_post v (v\<lparr>v_pending_action := Some a\<rparr>) None" for a
    using assms by (auto simp: handled_post_def vim_inv_def dot_ok_def is_visual_def is_operation_def)
  have skip: "handled_post v v None"
    by (simp add: handled_post_def)
  show ?thesis
    unfolding handle_normal_nothing_pending_def
    by (intro handled_rules)
      (use assms pend skip push_action_post [of v c] in
        \<open>simp_all add: conversions_defined pending_conversions_defined visual_operator_defined
          del: not_None_eq\<close>)
qed

lemma normal_pending_operation_post:
  assumes "v_mode v = VM_Normal" and "is_operation (v_pending_action v)"
  shows "sat (handled_post v) (handle_normal_pending_operation c operator v)"
proof -
  have pend: "handled_post v (v\<lparr>v_pending_action := Some (PA_Operation operator p)\<rparr>) None" for p
    using assms by (auto simp: handled_post_def vim_inv_def dot_ok_def is_visual_def is_operation_def)
  show ?thesis
    unfolding handle_normal_pending_operation_def
    by (intro handled_rules)
      (use assms pend push_operand_post [of v c] in
        \<open>simp_all add: conversions_defined pending_conversions_defined visual_operator_defined
          del: not_None_eq\<close>)
qed

lemma normal_pending_operand_post:
  "sat (handled_post v) (handle_normal_pending_operand c operator operand v)"
  unfolding handle_normal_pending_operand_def
  by (intro handled_rules conjI allI impI)
    (simp_all add: conversions_defined text_object_conversion_defined)

lemma sat_then_emit:
  assumes "sat P m" and "\<And>v. P v None \<Longrightarrow> Q v None" and "\<And>v e. P v (Some e) \<Longrightarrow> Q (f v) (Some e)"
  shows "sat Q (Option.bind m (\<lambda>r. case r of (v, None) \<Rightarrow> quiet v | (v, Some e) \<Rightarrow> emit (f v) e))"
  using assms by (auto simp: sat_def split: option.splits Option.bind_splits)

lemma event_post_mode:
  "handled_post v0 v (Some e) \<Longrightarrow> handled_post v0 (v\<lparr>v_mode := m\<rparr>) (Some e)"
  by (simp add: handled_post_def)

lemma register_post:
  assumes "v_mode v = VM_Normal \<or> is_visual (v_mode v)" and "v_pending_action v = Some PA_SetRegister"
  shows "handled_post v (v\<lparr>v_register := c, v_pending_action := None\<rparr>) None \<or> \<not> valid_register_name c"
    and "handled_post v (v\<lparr>v_pending_action := None\<rparr>) None"
  using assms by (auto simp: handled_post_def vim_inv_def dot_ok_def is_visual_def is_operation_def)

lemma normal_pending_action_post:
  assumes "v_mode v = VM_Normal" and "v_pending_action v = Some a"
  shows "sat (handled_post v) (handle_normal_pending_action c a v)"
proof -
  have pend: "handled_post v (v\<lparr>v_pending_action := Some b\<rparr>) None"
    if "\<not> is_operation (Some a)" for b
    using assms that by (auto simp: handled_post_def vim_inv_def dot_ok_def is_visual_def is_operation_def)
  show ?thesis
  proof (cases a)
    case (PA_Operation operator p)
    have "sat (handled_post v)
        (case p of Some operand \<Rightarrow> handle_normal_pending_operand c operator operand v
         | None \<Rightarrow> handle_normal_pending_operation c operator v)"
      using assms PA_Operation normal_pending_operation_post normal_pending_operand_post
      by (auto simp: is_operation_def split: option.split)
    then show ?thesis
      unfolding handle_normal_pending_action_def PA_Operation pending_action.case
      by (rule sat_then_emit) (auto intro: event_post_mode)
  qed (use assms pend register_post(1) [of v c] register_post(2) [of v] in \<open>auto simp: handle_normal_pending_action_def Let_def
      conversions_exist is_operation_def intro!: handled_rules\<close>)
qed

lemma visual_nothing_pending_post:
  assumes "is_visual (v_mode v)" and "v_pending_action v = None"
  shows "sat (handled_post v) (handle_visual_nothing_pending c t v)"
proof -
  have pend: "handled_post v (v\<lparr>v_pending_action := Some a\<rparr>) None" if "\<not> is_operation (Some a)" for a
    using assms that by (auto simp: handled_post_def vim_inv_def dot_ok_def is_visual_def)
  have action: "\<not> is_operation (Some a)"
    if "pending_action_from c = Some a" "one_of c ''gzfFtT[]'' \<or> c = ch CHR 0x22" for a
    using that by (auto elim!: one_ofE simp: pending_action_from_def is_operation_def)
  have object: "handled_post v (v\<lparr>v_pending_visual_object := a\<rparr>) None" for a
    using assms by (auto simp: handled_post_def vim_inv_def dot_ok_def is_visual_def)
  have skip: "handled_post v v None"
    by (simp add: handled_post_def)
  show ?thesis
    unfolding handle_visual_nothing_pending_def
    by (intro handled_rules conjI allI impI)
      (use assms pend action object skip push_action_post [of v c] in
        \<open>simp_all add: conversions_defined pending_conversions_defined visual_operator_defined
          del: not_None_eq\<close>)
qed

lemma visual_pending_action_post:
  assumes "is_visual (v_mode v)" and "v_pending_action v = Some a"
  shows "sat (handled_post v) (handle_visual_pending_action c a v)"
  unfolding handle_visual_pending_action_def
  using assms register_post(1) [of v c] register_post(2) [of v]
  by (intro handled_rules conjI allI impI)
    (auto simp: conversions_exist intro: event_post_mode)

lemma visual_command_post:
  assumes "v_mode v = VM_Visual t"
  shows "sat (handled_post v) (handle_visual_command c t v)"
  unfolding handle_visual_command_def
  using assms visual_pending_action_post [of v _ c] visual_nothing_pending_post [of v c t]
  by (intro handled_rules conjI allI impI)
    (simp_all add: is_visual_def text_object_conversion_defined Let_def del: not_None_eq)

lemma handle_character_post:
  assumes "v_mode v \<noteq> VM_Insert"
  shows "sat (handled_post v) (handle_character c v)"
  using assms normal_pending_action_post [of v _ c] normal_nothing_pending_post [of v c]
    visual_command_post [of v _ c]
  by (auto simp: handle_character_def intro!: handled_rules split: vim_mode.split)

lemma dot_repeat_text_mut_fields [simp]:
  "v_mode (dot_repeat_text_mut f v) = v_mode v"
  "v_pending_action_count (dot_repeat_text_mut f v) = v_pending_action_count v"
  "v_pending_operand_count (dot_repeat_text_mut f v) = v_pending_operand_count v"
  "nothing_pending (dot_repeat_text_mut f v) = nothing_pending v"
  by (auto simp: dot_repeat_text_mut_def nothing_pending_def
      split: option.split vim_event_type.split vim_operator.split)

lemma dot_ok_text_mut: "dot_ok v \<Longrightarrow> dot_ok (dot_repeat_text_mut f v)"
  by (auto simp: dot_repeat_text_mut_def dot_ok_def for_dot_repeat_def
      split: option.split vim_event_type.splits vim_operator.splits)

text \<open>Every character: the handler returns, an event keeps the counts, no event keeps the invariant.\<close>

definition character_post :: "vim_fsa \<Rightarrow> vim_fsa \<Rightarrow> vim_event_type option \<Rightarrow> bool" where
  "character_post v0 v e \<longleftrightarrow>
     (dot_ok v0 \<longrightarrow> dot_ok v) \<and>
     (case e of
        Some _ \<Rightarrow> v_pending_action_count v = v_pending_action_count v0 \<and>
                  v_pending_operand_count v = v_pending_operand_count v0
      | None \<Rightarrow> vim_inv v0 \<longrightarrow> vim_inv v)"

lemma character_handled: "sat (character_post v) (handle_character c v)"
proof (cases "v_mode v = VM_Insert")
  case True
  then show ?thesis
    using dot_ok_text_mut [of v]
    by (auto simp: handle_character_def handle_insert_char_def character_post_def intro!: handled_rules)
next
  case False
  from handle_character_post [OF this] show ?thesis
    by (rule sat_weaken) (auto simp: handled_post_def character_post_def dot_ok_def split: option.splits)
qed

lemma digits_value_bound: "acc < 2 ^ 32 \<Longrightarrow> digits_value acc s = Some n \<Longrightarrow> n < 2 ^ 32"
  by (induction acc s rule: digits_value.induct) (auto simp: Let_def split: if_splits)

lemma parse_u32_bound: "parse_u32 s = Some n \<Longrightarrow> n < 2 ^ 32"
  using digits_value_bound [of 0] by (auto simp: parse_u32_def Let_def split: if_splits)

lemma event_count_bound:
  assumes "compute_event_count v c e = Some n" and "dot_ok v"
  shows "n < 2 ^ 32"
proof -
  have "k < 2 ^ 32" if "get_action_count v = Some k" for k
    using that parse_u32_bound by (auto simp: get_action_count_def bind_eq_Some_conv)
  with assms show ?thesis
    by (auto simp: compute_event_count_def umul32_def Let_def unwrap_or_def dot_ok_def
        split: option.splits if_splits)
qed

lemma compute_event_count_defined:
  assumes "unwrap_or 1 (get_action_count v) * unwrap_or 1 (get_operand_count v) < 2 ^ 32"
  shows "compute_event_count v c e \<noteq> None"
  using assms by (simp add: compute_event_count_def umul32_def Let_def)

text \<open>The shape of every outcome of a typed character.\<close>

lemma typed_character_cases:
  assumes "typed_character c v = Some (v', r)"
  obtains (quiet) v1 where "r = None" "v' = v1" "vim_inv v \<longrightarrow> vim_inv v1"
  | (event) v1 t n dot where
      "r = Some \<lparr>ve_event_type = t, ve_count = n\<rparr>"
      "handle_character c (v\<lparr>v_showcmd := v_showcmd v @ [c]\<rparr>) = Some (v1, Some t)"
      "compute_event_count v1 c t = Some n"
      "v' = (vim_clear v1)\<lparr>v_dot_repeat_event := dot\<rparr>"
      "dot = (case for_dot_repeat t of
                Some t' \<Rightarrow> Some \<lparr>ve_event_type = t', ve_count = n\<rparr>
              | None \<Rightarrow> v_dot_repeat_event v1)"
      "dot_ok v \<longrightarrow> dot_ok v1"
proof -
  let ?v = "v\<lparr>v_showcmd := v_showcmd v @ [c]\<rparr>"
  obtain v1 e where e: "handle_character c ?v = Some (v1, e)" "character_post ?v v1 e"
    using character_handled [of ?v c] by (auto simp: sat_def split: option.splits)
  have inv: "vim_inv ?v = vim_inv v" "dot_ok ?v = dot_ok v"
    by (simp_all add: vim_inv_def dot_ok_def nothing_pending_def)
  show ?thesis
  proof (cases e)
    case None
    with e assms inv show ?thesis
      by (intro quiet [of v1]) (auto simp: typed_character_def character_post_def)
  next
    case (Some t)
    obtain n where n: "compute_event_count v1 c t = Some n" "r = Some \<lparr>ve_event_type = t, ve_count = n\<rparr>"
      "v' = (vim_clear v1)\<lparr>v_dot_repeat_event :=
         (case for_dot_repeat t of
            Some t' \<Rightarrow> Some \<lparr>ve_event_type = t', ve_count = n\<rparr>
          | None \<Rightarrow> v_dot_repeat_event v1)\<rparr>"
      using e(1) Some assms by (auto simp: typed_character_def Let_def split: Option.bind_splits cong: option.case_cong)
    show ?thesis
      using e Some inv by (intro event [OF n(2) _ n(1,3) refl]) (simp_all add: character_post_def)
  qed
qed

lemma vim_new_inv: "vim_inv vim_new"
  by (rule nothing_pending_inv) (simp_all add: vim_new_def nothing_pending_def dot_ok_def)

lemma typed_character_inv:
  assumes "typed_character c v = Some (v', r)" and "vim_inv v"
  shows "vim_inv v'"
  using assms(1)
proof (cases rule: typed_character_cases)
  case (event v1 t n dot)
  have "dot_ok v1" using event(6) assms(2) by (simp add: vim_inv_def)
  have "n < 2 ^ 32" using event_count_bound [OF event(3) \<open>dot_ok v1\<close>] .
  have "for_dot_repeat t = Some t' \<Longrightarrow> for_dot_repeat t' = Some t'" for t'
    by (auto simp: for_dot_repeat_def split: vim_event_type.splits vim_mode.splits if_splits)
  with \<open>dot_ok v1\<close> \<open>n < 2 ^ 32\<close> have "dot_ok v'"
    unfolding event(4,5) by (auto simp: dot_ok_def split: option.split)
  moreover have "nothing_pending v'"
    by (simp add: event(4) nothing_pending_def vim_clear_def)
  ultimately show ?thesis by (intro nothing_pending_inv)
qed (use assms in simp)

lemma to_normal_inv: "vim_inv v \<Longrightarrow> vim_inv (v\<lparr>v_mode := VM_Normal\<rparr>)"
  by (simp add: vim_inv_def dot_ok_def is_visual_def)

lemma change_to_normal_inv:
  "vim_inv v \<Longrightarrow> vim_inv (fst (vim_change_mode (mode_transition_from VM_Normal) v))"
  using to_normal_inv by (simp add: vim_change_mode_def mode_transition_from_def)

lemma exit_insert_mode_fst: "fst (exit_insert_mode v) = v\<lparr>v_mode := VM_Normal\<rparr>"
  by (cases "number_repeated_text v")
    (auto simp: exit_insert_mode_def vim_change_mode_def mode_transition_from_def)

lemma cleared_inv: "dot_ok v \<Longrightarrow> vim_inv (vim_clear v)"
  by (rule nothing_pending_inv) (simp_all add: dot_ok_def)

lemma text_mut_inv: "vim_inv v \<Longrightarrow> v_mode v = VM_Insert \<Longrightarrow> vim_inv (dot_repeat_text_mut f v)"
  by (rule nothing_pending_inv) (simp_all add: vim_inv_def dot_ok_text_mut)

lemma insert_delete_inv:
  "vim_inv v \<Longrightarrow> v_mode v = VM_Insert \<Longrightarrow> vim_inv (fst (handle_insert_mode_delete v))"
  by (rule nothing_pending_inv)
    (auto simp: handle_insert_mode_delete_def vim_inv_def nothing_pending_def dot_ok_def for_dot_repeat_def)

lemma keypress_inv:
  assumes "keypress k v = Some (v', e)" and "vim_inv v"
  shows "vim_inv v'"
proof -
  have dot: "dot_ok v" using assms(2) by (simp add: vim_inv_def)
  show ?thesis
    using assms(1) change_to_normal_inv [OF assms(2)] to_normal_inv [OF assms(2)]
      exit_insert_mode_fst [of v] cleared_inv [OF dot] text_mut_inv [OF assms(2)]
      insert_delete_inv [OF assms(2)] typed_character_inv [OF _ assms(2)] assms(2)
    by (auto simp: keypress_def Let_def once_def scroll_half_page_def handle_insert_mode_backspace_def
        split: vim_mode.splits if_splits prod.splits)
qed

lemma vim_input_inv: "vim_input i v = Some (v', e) \<Longrightarrow> vim_inv v \<Longrightarrow> vim_inv v'"
  using typed_character_inv [of _ v v' e] keypress_inv [of _ v v' e]
  by (auto simp: vim_input_def vim_interrupt_def force_insert_mode_def Let_def
      split: vim_input.splits vim_mode.splits intro!: nothing_pending_inv)
    (auto simp: nothing_pending_def vim_clear_def dot_ok_def vim_inv_def)

inductive_cases vim_reachableE: "vim_reachable v"

section \<open>Runs\<close>

lemma vim_run_append:
  "vim_run (is @ js) v =
     do { r \<leftarrow> vim_run is v; r' \<leftarrow> vim_run js (fst r); Some (fst r', snd r @ snd r') }"
  by (induction "is" arbitrary: v) (auto split: Option.bind_splits)

text \<open>A machine waiting for a command in normal mode, with a count typed so far.\<close>

definition awaiting :: "uchar list \<Rightarrow> vim_fsa \<Rightarrow> bool" where
  "awaiting ds v \<longleftrightarrow>
     v_mode v = VM_Normal \<and> v_pending_action v = None \<and> v_pending_operand_count v = None \<and>
     v_pending_action_count v = (if ds = [] then None else Some ds) \<and>
     v_register v = DEFAULT_REGISTER"

definition count_of :: "uchar list \<Rightarrow> nat" where
  "count_of ds = (if ds = [] then 1 else unwrap_or 1 (parse_u32 ds))"

lemma count_of_bound: "count_of ds < 2 ^ 32"
  using parse_u32_bound [of ds] by (auto simp: count_of_def unwrap_or_def split: option.split)

lemma awaiting_count: "awaiting ds v \<Longrightarrow> unwrap_or 1 (get_action_count v) = count_of ds"
  by (simp add: awaiting_def get_action_count_def count_of_def unwrap_or_def)

lemma typed_quiet:
  "handle_character c (v\<lparr>v_showcmd := v_showcmd v @ [c]\<rparr>) = quiet v' \<Longrightarrow>
     typed_character c v = Some (v', None)"
  by (simp add: typed_character_def)

lemma typed_event:
  "handle_character c (v\<lparr>v_showcmd := v_showcmd v @ [c]\<rparr>) = emit v1 t \<Longrightarrow>
     compute_event_count v1 c t = Some n \<Longrightarrow>
     typed_character c v =
       Some ((vim_clear v1)\<lparr>v_dot_repeat_event :=
               (case for_dot_repeat t of
                  Some t' \<Rightarrow> Some \<lparr>ve_event_type = t', ve_count = n\<rparr>
                | None \<Rightarrow> v_dot_repeat_event v1)\<rparr>,
             Some \<lparr>ve_event_type = t, ve_count = n\<rparr>)"
  by (simp add: typed_character_def Let_def cong: option.case_cong)

text \<open>The commands that start an insertion, and where they put it.\<close>

definition insert_commands :: "(uchar \<times> insert_position) list" where
  "insert_commands =
    [(ch CHR ''i'', IP_AtCursor), (ch CHR ''a'', IP_AfterCursor), (ch CHR ''o'', IP_LineBelow),
     (ch CHR ''O'', IP_LineAbove), (ch CHR ''I'', IP_LineFirstNonWhitespace),
     (ch CHR ''A'', IP_LineEnd)]"

definition inserting :: "uchar list \<Rightarrow> insert_position \<Rightarrow> nat \<Rightarrow> vim_fsa \<Rightarrow> bool" where
  "inserting text p n v \<longleftrightarrow>
     v_mode v = VM_Insert \<and> nothing_pending v \<and>
     v_dot_repeat_event v = Some \<lparr>ve_event_type = EV_InsertText text p, ve_count = n\<rparr>"

lemma insert_command_handlers:
  "handle_normal_nothing_pending (ch CHR ''i'') v =
     changed (vim_change_mode (transition_with_motion VM_Insert IP_AtCursor) v)"
  "handle_normal_nothing_pending (ch CHR ''a'') v =
     changed (vim_change_mode (transition_with_motion VM_Insert IP_AfterCursor) v)"
  "handle_normal_nothing_pending (ch CHR ''o'') v =
     changed (vim_change_mode (transition_with_motion VM_Insert IP_LineBelow) v)"
  "handle_normal_nothing_pending (ch CHR ''O'') v =
     changed (vim_change_mode (transition_with_motion VM_Insert IP_LineAbove) v)"
  "handle_normal_nothing_pending (ch CHR ''I'') v =
     changed (vim_change_mode (transition_with_motion VM_Insert IP_LineFirstNonWhitespace) v)"
  "handle_normal_nothing_pending (ch CHR ''A'') v =
     changed (vim_change_mode (transition_with_motion VM_Insert IP_LineEnd) v)"
  by (simp_all add: handle_normal_nothing_pending_def BACKSPACE_CHAR_def)

lemma insert_command_step:
  assumes "awaiting ds v" and "(c, p) \<in> set insert_commands"
  shows "\<exists>v1. typed_character c v =
             Some (v1, Some \<lparr>ve_event_type = EV_ChangeMode \<lparr>mt_mode = VM_Insert, mt_position = p\<rparr> VM_Normal,
                             ve_count = count_of ds\<rparr>) \<and>
           inserting [] p (count_of ds) v1"
proof -
  let ?v = "v\<lparr>v_showcmd := v_showcmd v @ [c]\<rparr>"
  let ?t = "EV_ChangeMode \<lparr>mt_mode = VM_Insert, mt_position = p\<rparr> VM_Normal"
  have h: "handle_character c ?v = emit (?v\<lparr>v_mode := VM_Insert\<rparr>) ?t"
    using assms
    by (auto simp: insert_commands_def handle_character_def awaiting_def insert_command_handlers
        vim_change_mode_def transition_with_motion_def)
  have "get_action_count (?v\<lparr>v_mode := VM_Insert\<rparr>) = get_action_count v"
    "get_operand_count (?v\<lparr>v_mode := VM_Insert\<rparr>) = None" "c \<noteq> ch CHR ''.''"
    using assms by (auto simp: get_action_count_def get_operand_count_def awaiting_def insert_commands_def)
  then have n: "compute_event_count (?v\<lparr>v_mode := VM_Insert\<rparr>) c ?t = Some (count_of ds)"
    using awaiting_count [OF assms(1)] count_of_bound [of ds]
    by (simp add: compute_event_count_def umul32_def Let_def) (simp add: unwrap_or_def)
  show ?thesis
    unfolding typed_event [OF h n]
    by (simp add: inserting_def for_dot_repeat_def) (simp add: nothing_pending_def vim_clear_def)
qed

lemma insert_char_step:
  assumes "inserting s p n v"
  shows "\<exists>v1 k. typed_character c v = Some (v1, Some \<lparr>ve_event_type = EV_InsertChar c, ve_count = k\<rparr>) \<and>
           inserting (s @ [c]) p n v1"
proof -
  let ?v = "v\<lparr>v_showcmd := v_showcmd v @ [c]\<rparr>"
  let ?v1 = "?v\<lparr>v_dot_repeat_event := Some \<lparr>ve_event_type = EV_InsertText (s @ [c]) p, ve_count = n\<rparr>\<rparr>"
  have h: "handle_character c ?v = emit ?v1 (EV_InsertChar c)"
    using assms by (simp add: handle_character_def inserting_def handle_insert_char_def dot_repeat_text_mut_def)
  have "get_action_count ?v1 = None" "get_operand_count ?v1 = None"
    using assms by (simp_all add: inserting_def nothing_pending_def get_action_count_def get_operand_count_def)
  then obtain k where k: "compute_event_count ?v1 c (EV_InsertChar c) = Some k"
    using compute_event_count_defined [of ?v1 c "EV_InsertChar c"] by (auto simp: unwrap_or_def)
  show ?thesis
    using assms unfolding typed_event [OF h k]
    by (simp add: inserting_def for_dot_repeat_def) (simp add: nothing_pending_def vim_clear_def)
qed

lemma insert_chars_run:
  assumes "inserting s p n v"
  shows "\<exists>v1 evs. vim_run (map Typed cs) v = Some (v1, evs) \<and> inserting (s @ cs) p n v1 \<and>
           map handle_vim_event evs = map (\<lambda>c. Some (H_insert_char c)) cs"
  using assms
proof (induction cs arbitrary: s v)
  case (Cons c cs)
  obtain v1 k where step: "typed_character c v = Some (v1, Some \<lparr>ve_event_type = EV_InsertChar c, ve_count = k\<rparr>)"
    "inserting (s @ [c]) p n v1"
    using insert_char_step [OF Cons.prems] by blast
  with Cons.IH [OF step(2)] show ?case
    by (auto simp: vim_input_def handle_vim_event_def)
qed simp

lemma dot_step:
  assumes "v_mode v = VM_Normal" and "nothing_pending v" and "v_dot_repeat_event v = Some e"
    and "for_dot_repeat (ve_event_type e) = Some (ve_event_type e)"
  shows "\<exists>v1. typed_character (ch CHR ''.'') v = Some (v1, Some e) \<and> v_mode v1 = VM_Normal \<and>
           v_dot_repeat_event v1 = Some e"
proof -
  let ?v = "v\<lparr>v_showcmd := v_showcmd v @ [ch CHR ''.'']\<rparr>"
  have h: "handle_character (ch CHR ''.'') ?v = emit ?v (ve_event_type e)"
    using assms by (simp add: handle_character_def handle_normal_nothing_pending_def nothing_pending_def
        BACKSPACE_CHAR_def)
  have n: "compute_event_count ?v (ch CHR ''.'') (ve_event_type e) = Some (ve_count e)"
    using assms by (simp add: compute_event_count_def get_action_count_def nothing_pending_def
        unwrap_or_def Let_def)
  show ?thesis
    using assms unfolding typed_event [OF h n] by simp
qed

text \<open>Leaving insert mode, then repeating.\<close>

lemma escape_step:
  assumes "inserting text p n v"
  shows "\<exists>v1 e. keypress ''escape'' v = Some (v1, Some e) \<and> v_mode v1 = VM_Normal \<and>
           nothing_pending v1 \<and> v_dot_repeat_event v1 = v_dot_repeat_event v \<and>
           e = (if 1 < n
                then \<lparr>ve_event_type = EV_InsertText text
                        (if p = IP_LineAbove \<or> p = IP_LineBelow then p else IP_AtCursor),
                      ve_count = n - 1\<rparr>
                else \<lparr>ve_event_type = EV_ChangeMode \<lparr>mt_mode = VM_Normal, mt_position = IP_AtCursor\<rparr>
                        VM_Insert, ve_count = 1\<rparr>)"
  using assms
  by (cases "1 < n")
    (simp_all add: keypress_def inserting_def exit_insert_mode_def number_repeated_text_def
      vim_change_mode_def mode_transition_from_def vim_event_from_def nothing_pending_def)

definition escape_event :: "uchar list \<Rightarrow> insert_position \<Rightarrow> nat \<Rightarrow> vim_event" where
  "escape_event text p n =
     (if 1 < n
      then \<lparr>ve_event_type = EV_InsertText text
              (if p = IP_LineAbove \<or> p = IP_LineBelow then p else IP_AtCursor),
            ve_count = n - 1\<rparr>
      else \<lparr>ve_event_type = EV_ChangeMode \<lparr>mt_mode = VM_Normal, mt_position = IP_AtCursor\<rparr> VM_Insert,
            ve_count = 1\<rparr>)"

lemma escape_and_repeat:
  assumes "inserting text p n v"
  shows "\<exists>v1. vim_run [Key ''escape'', Typed (ch CHR ''.'')] v =
             Some (v1, [escape_event text p n, \<lparr>ve_event_type = EV_InsertText text p, ve_count = n\<rparr>]) \<and>
           v_mode v1 = VM_Normal"
proof -
  obtain v1 where v1: "keypress ''escape'' v = Some (v1, Some (escape_event text p n))"
    "v_mode v1 = VM_Normal" "nothing_pending v1" "v_dot_repeat_event v1 = v_dot_repeat_event v"
    using escape_step [OF assms] by (auto simp: escape_event_def)
  moreover have "for_dot_repeat (EV_InsertText text p) = Some (EV_InsertText text p)"
    by (simp add: for_dot_repeat_def)
  ultimately show ?thesis
    using dot_step [of v1 "\<lparr>ve_event_type = EV_InsertText text p, ve_count = n\<rparr>"] assms
    by (auto simp: vim_input_def inserting_def)
qed

text \<open>Typing counts.\<close>

abbreviation pending_digits :: "uchar list \<Rightarrow> uchar list option" where
  "pending_digits ds \<equiv> if ds = [] then None else Some ds"

lemma digit_chars: "is_ascii_digit c \<Longrightarrow> one_of c ''0'' \<or> one_of c ''123456789''"
  by (simp add: is_ascii_digit_def one_of_def ch_def) arith

lemma normal_digit:
  assumes "one_of c ''0'' \<and> v_pending_action_count v \<noteq> None \<or> one_of c ''123456789''"
  shows "handle_normal_nothing_pending c v = quiet (push_action_count c v)"
  using assms unfolding one_of_Cons one_of_Nil
  by (elim disjE conjE FalseE; hypsubst; auto simp: handle_normal_nothing_pending_def BACKSPACE_CHAR_def)

lemma operand_digit:
  assumes "one_of c ''0'' \<and> v_pending_operand_count v \<noteq> None \<or> one_of c ''123456789''"
  shows "handle_normal_pending_operation c operator v = quiet (push_operand_count c v)"
  using assms unfolding one_of_Cons one_of_Nil
  by (elim disjE conjE FalseE; hypsubst; auto simp: handle_normal_pending_operation_def BACKSPACE_CHAR_def)

definition operating :: "vim_operator \<Rightarrow> uchar list \<Rightarrow> uchar list \<Rightarrow> vim_fsa \<Rightarrow> bool" where
  "operating operator ds es v \<longleftrightarrow>
     v_mode v = VM_Normal \<and> v_pending_action v = Some (PA_Operation operator None) \<and>
     v_pending_action_count v = pending_digits ds \<and>
     v_pending_operand_count v = pending_digits es \<and> v_register v = DEFAULT_REGISTER"

lemma action_digits_run:
  assumes "awaiting ds v" and "digits_ok (pending_digits (ds @ es))"
  shows "\<exists>v'. vim_run (map Typed es) v = Some (v', []) \<and> awaiting (ds @ es) v'"
  using assms
proof (induction es arbitrary: ds v)
  case (Cons c es)
  let ?v = "v\<lparr>v_showcmd := v_showcmd v @ [c]\<rparr>"
  have "is_ascii_digit c" "ds = [] \<Longrightarrow> c \<noteq> ch CHR ''0''"
    using Cons.prems(2) by auto
  then have "handle_normal_nothing_pending c ?v = quiet (push_action_count c ?v)"
    using Cons.prems(1) digit_chars [of c]
    by (intro normal_digit) (auto simp: awaiting_def one_of_Cons)
  then have "typed_character c v = Some (push_action_count c ?v, None)"
    using Cons.prems(1) by (intro typed_quiet) (simp add: handle_character_def awaiting_def)
  moreover have "awaiting (ds @ [c]) (push_action_count c ?v)"
    using Cons.prems(1) by (simp add: awaiting_def push_action_count_def unwrap_or_def)
  ultimately show ?case
    using Cons.IH [of "ds @ [c]"] Cons.prems(2) by (auto simp: vim_input_def)
qed simp

lemma operand_digits_run:
  assumes "operating operator ds es v" and "digits_ok (pending_digits (es @ fs))"
  shows "\<exists>v'. vim_run (map Typed fs) v = Some (v', []) \<and> operating operator ds (es @ fs) v'"
  using assms
proof (induction fs arbitrary: es v)
  case (Cons c fs)
  let ?v = "v\<lparr>v_showcmd := v_showcmd v @ [c]\<rparr>"
  have "is_ascii_digit c" "es = [] \<Longrightarrow> c \<noteq> ch CHR ''0''"
    using Cons.prems(2) by auto
  then have "handle_normal_pending_operation c operator ?v = quiet (push_operand_count c ?v)"
    using Cons.prems(1) digit_chars [of c]
    by (intro operand_digit) (auto simp: operating_def one_of_Cons)
  then have "typed_character c v = Some (push_operand_count c ?v, None)"
    using Cons.prems(1)
    by (intro typed_quiet) (simp add: handle_character_def handle_normal_pending_action_def operating_def)
  moreover have "operating operator ds (es @ [c]) (push_operand_count c ?v)"
    using Cons.prems(1) by (simp add: operating_def push_operand_count_def unwrap_or_def)
  ultimately show ?case
    using Cons.IH [of "es @ [c]"] Cons.prems(2) by (auto simp: vim_input_def)
qed simp

lemma delete_step:
  assumes "awaiting ds v"
  shows "\<exists>v'. typed_character (ch CHR ''d'') v = Some (v', None) \<and> operating VO_Delete ds [] v'"
proof -
  let ?v = "v\<lparr>v_showcmd := v_showcmd v @ [ch CHR ''d'']\<rparr>"
  have "handle_normal_nothing_pending (ch CHR ''d'') ?v =
      quiet (?v\<lparr>v_pending_action := Some (PA_Operation VO_Delete None)\<rparr>)"
    by (simp add: handle_normal_nothing_pending_def BACKSPACE_CHAR_def pending_action_from_def)
  then have "typed_character (ch CHR ''d'') v =
      Some (?v\<lparr>v_pending_action := Some (PA_Operation VO_Delete None)\<rparr>, None)"
    using assms by (intro typed_quiet) (simp add: handle_character_def awaiting_def)
  with assms show ?thesis
    by (simp add: operating_def awaiting_def)
qed

definition delete_word :: vim_event_type where
  "delete_word = EV_Operation VO_Delete
     (OP_Motion Charwise (MO_Word (word_motion_new Forward WB_Start WT_Default))) DEFAULT_REGISTER []"

lemma delete_word_step:
  assumes "operating VO_Delete ds es v"
  shows "\<exists>v'. awaiting [] v' \<and> typed_character (ch CHR ''w'') v =
           (if count_of ds * count_of es < 2 ^ 32
            then Some (v', Some \<lparr>ve_event_type = delete_word, ve_count = count_of ds * count_of es\<rparr>)
            else None)"
proof -
  let ?v = "v\<lparr>v_showcmd := v_showcmd v @ [ch CHR ''w'']\<rparr>"
  have h: "handle_character (ch CHR ''w'') ?v = emit ?v delete_word"
    using assms by (simp add: handle_character_def handle_normal_pending_action_def operating_def
        handle_normal_pending_operation_def BACKSPACE_CHAR_def create_operation_def delete_word_def
        word_motion_for_character_def word_type_from_def is_ascii_uppercase_def)
      (simp add: ch_def)
  have n: "compute_event_count ?v (ch CHR ''w'') delete_word = umul32 (count_of ds) (count_of es)"
    using assms by (simp add: compute_event_count_def delete_word_def operating_def get_action_count_def
        get_operand_count_def count_of_def unwrap_or_def Let_def)
  let ?v' = "(vim_clear ?v)\<lparr>v_dot_repeat_event := Some \<lparr>ve_event_type = delete_word,
      ve_count = count_of ds * count_of es\<rparr>\<rparr>"
  have "awaiting [] ?v'"
    using assms by (simp add: awaiting_def operating_def) (simp add: vim_clear_def)
  moreover have "for_dot_repeat delete_word = Some delete_word"
    by (simp add: for_dot_repeat_def delete_word_def)
  ultimately show ?thesis
    using h n typed_event [OF h, of "count_of ds * count_of es"]
    by (intro exI [of _ ?v']) (auto simp: umul32_def typed_character_def)
qed

text \<open>A machine in normal mode that has seen nothing yet.\<close>

definition vim_idle :: vim_fsa where
  "vim_idle = vim_new\<lparr>v_mode := VM_Normal\<rparr>"

lemma awaiting_idle: "awaiting [] vim_idle"
  by (simp add: awaiting_def vim_idle_def vim_new_def)

section \<open>Properties\<close>

text \<open>
  C34. Every state the machine can reach from its start keeps the invariant: the register is a valid
  one, counts are digit strings without a leading zero, a count for an operand is only pending
  behind an operator in normal mode, insert and replace mode have nothing pending, and the event to
  repeat is one that can be repeated, with a 32-bit count.
\<close>

theorem vim_reachable_inv:
  assumes "vim_reachable v"
  shows "vim_inv v"
  using assms by induction (auto intro: vim_new_inv vim_input_inv)

theorem vim_reachable_inv_witness:
  "vim_inv (vim_interrupt (force_insert_mode vim_new))"
proof (rule vim_reachable_inv)
  have "vim_reachable (force_insert_mode vim_new)"
    by (rule vim_step [OF vim_init, of ForceInsert]) (simp add: vim_input_def)
  then show "vim_reachable (vim_interrupt (force_insert_mode vim_new))"
    by (rule vim_step [where i = Interrupt]) (simp add: vim_input_def)
qed


text \<open>
  Whenever a typed character produces an event, nothing is left pending: no action, count, text
  object or text to show, and the register is the default one again.
\<close>

theorem event_clears_pending:
  assumes "typed_character c v = Some (v', Some e)"
  shows "nothing_pending v' \<and> v_showcmd v' = []"
  using assms by (cases rule: typed_character_cases) (simp_all add: nothing_pending_def vim_clear_def)

theorem event_clears_pending_witness:
  "\<exists>v'. typed_character (ch CHR ''x'') (vim_new\<lparr>v_mode := VM_Replace\<rparr>) =
       Some (v', Some \<lparr>ve_event_type = EV_ReplaceChar (Some (ch CHR ''x'')), ve_count = 1\<rparr>) \<and>
     nothing_pending v' \<and> v_showcmd v' = []"
proof -
  let ?r = "typed_character (ch CHR ''x'') (vim_new\<lparr>v_mode := VM_Replace\<rparr>)"
  have r: "\<exists>v'. ?r = Some (v', Some \<lparr>ve_event_type = EV_ReplaceChar (Some (ch CHR ''x'')), ve_count = 1\<rparr>)"
    by (simp add: typed_character_def handle_character_def vim_new_def compute_event_count_def
        get_action_count_def unwrap_or_def Let_def)
  then show ?thesis
    using event_clears_pending by blast
qed

text \<open>C37. Escape always produces an event and always ends in normal mode.\<close>

theorem escape_reaches_normal:
  "\<exists>v' e. keypress ''escape'' v = Some (v', Some e) \<and> v_mode v' = VM_Normal"
  using exit_insert_mode_fst [of v]
  by (cases "v_mode v"; cases "exit_insert_mode v")
    (simp_all add: keypress_def once_def vim_change_mode_def mode_transition_from_def)

text \<open>
  Escape from visual mode does not clear what was pending there: a half-typed find command
  survives into normal mode, where the next character is taken as the one to find.
\<close>

theorem visual_escape_keeps_find:
  assumes "v_mode v = VM_Visual t" and "v_pending_action v = Some (PA_FindChar d dest)"
  shows "\<exists>v' e. keypress ''escape'' v = Some (v', Some e) \<and> v_mode v' = VM_Normal \<and>
           handle_character c v' =
             Some (v'\<lparr>v_last_find_motion := Some (new_find_motion d dest c)\<rparr>,
                   Some (EV_Navigate (MO_FindChar (new_find_motion d dest c))))"
  using assms
  by (simp add: keypress_def once_def vim_change_mode_def mode_transition_from_def handle_character_def
      handle_normal_pending_action_def Let_def)

theorem visual_escape_keeps_find_witness:
  "\<exists>v' e. keypress ''escape'' (vim_idle\<lparr>v_mode := VM_Visual Charwise,
         v_pending_action := Some (PA_FindChar Forward AtChar)\<rparr>) = Some (v', Some e) \<and>
     v_mode v' = VM_Normal \<and>
     handle_character (ch CHR ''x'') v' =
       emit (v'\<lparr>v_last_find_motion := Some (new_find_motion Forward AtChar (ch CHR ''x''))\<rparr>)
         (EV_Navigate (MO_FindChar (new_find_motion Forward AtChar (ch CHR ''x''))))"
  by (rule visual_escape_keeps_find) simp_all

text \<open>
  C35. Text typed in an insertion is delivered character by character; leaving it emits the remaining
  repetitions of a counted insertion, and a later \<open>.\<close> inserts the same text at the same kind of
  place with the same count. This holds for each of the six commands that start an insertion.
\<close>

theorem insertion_is_repeated:
  assumes "awaiting ds v" and "(c, p) \<in> set insert_commands"
  shows "\<exists>v' start typed.
           vim_run (Typed c # map Typed cs @ [Key ''escape'', Typed (ch CHR ''.'')]) v =
             Some (v', start # typed @
               [escape_event cs p (count_of ds),
                \<lparr>ve_event_type = EV_InsertText cs p, ve_count = count_of ds\<rparr>]) \<and>
           handle_vim_event start =
             Some (H_change_mode VM_Normal \<lparr>mt_mode = VM_Insert, mt_position = p\<rparr>) \<and>
           map handle_vim_event typed = map (\<lambda>c. Some (H_insert_char c)) cs \<and>
           v_mode v' = VM_Normal"
proof -
  obtain v1 where v1: "typed_character c v =
      Some (v1, Some \<lparr>ve_event_type = EV_ChangeMode \<lparr>mt_mode = VM_Insert, mt_position = p\<rparr> VM_Normal,
                      ve_count = count_of ds\<rparr>)" "inserting [] p (count_of ds) v1"
    using insert_command_step [OF assms] by blast
  obtain v2 evs where v2: "vim_run (map Typed cs) v1 = Some (v2, evs)" "inserting cs p (count_of ds) v2"
    "map handle_vim_event evs = map (\<lambda>c. Some (H_insert_char c)) cs"
    using insert_chars_run [OF v1(2), of cs] by auto
  obtain v3 where v3: "vim_run [Key ''escape'', Typed (ch CHR ''.'')] v2 =
      Some (v3, [escape_event cs p (count_of ds),
                 \<lparr>ve_event_type = EV_InsertText cs p, ve_count = count_of ds\<rparr>])"
    "v_mode v3 = VM_Normal"
    using escape_and_repeat [OF v2(2)] by blast
  have "vim_run (Typed c # map Typed cs @ [Key ''escape'', Typed (ch CHR ''.'')]) v =
      Some (v3, \<lparr>ve_event_type = EV_ChangeMode \<lparr>mt_mode = VM_Insert, mt_position = p\<rparr> VM_Normal,
                ve_count = count_of ds\<rparr> # evs @
               [escape_event cs p (count_of ds),
                \<lparr>ve_event_type = EV_InsertText cs p, ve_count = count_of ds\<rparr>])"
    using v1(1) v2(1) v3(1) vim_run.simps(2) [of "Typed c" "map Typed cs @ _"]
    by (simp only: vim_run_append vim_input_def vim_input.case bind.bind_lunit fst_conv snd_conv
        option.case append_Cons append_Nil)
  with v2(3) v3(2) show ?thesis
    by (intro exI conjI) (auto simp: handle_vim_event_def)
qed

theorem insertion_is_repeated_witness:
  "\<exists>v' evs. vim_run (Typed (ch CHR ''A'') # map Typed (chars ''hi'') @
         [Key ''escape'', Typed (ch CHR ''.'')]) vim_idle = Some (v', evs) \<and>
     last evs = \<lparr>ve_event_type = EV_InsertText (chars ''hi'') IP_LineEnd, ve_count = 1\<rparr>"
proof -
  have "(ch CHR ''A'', IP_LineEnd) \<in> set insert_commands" by (simp add: insert_commands_def)
  from insertion_is_repeated [OF awaiting_idle this, of "chars ''hi''"] show ?thesis
    by (elim exE conjE) (intro exI conjI, assumption, simp add: count_of_def)
qed

text \<open>
  A line break typed with the enter key during an insertion is inserted but not remembered, so
  repeating the insertion joins the text before and after it.
\<close>

theorem repeat_forgets_enter:
  assumes "inserting [] p 1 v"
  shows "\<exists>v' evs.
           vim_run (map Typed cs @ Key ''enter'' # map Typed ds @ [Key ''escape'', Typed (ch CHR ''.'')]) v =
             Some (v', evs @ [\<lparr>ve_event_type = EV_InsertText (cs @ ds) p, ve_count = 1\<rparr>]) \<and>
           \<lparr>ve_event_type = EV_InsertChar (ch CHR 0x0A), ve_count = 1\<rparr> \<in> set evs"
proof -
  obtain v1 evs1 where v1: "vim_run (map Typed cs) v = Some (v1, evs1)" "inserting cs p 1 v1"
    using insert_chars_run [OF assms, of cs] by auto
  have enter: "keypress ''enter'' v1 =
      Some (v1, Some \<lparr>ve_event_type = EV_InsertChar (ch CHR 0x0A), ve_count = 1\<rparr>)"
    using v1(2) by (simp add: keypress_def inserting_def once_def vim_event_from_def)
  obtain v2 evs2 where v2: "vim_run (map Typed ds) v1 = Some (v2, evs2)" "inserting (cs @ ds) p 1 v2"
    using insert_chars_run [OF v1(2), of ds] by auto
  define E where "E = [Key ''escape'', Typed (ch CHR ''.'')]"
  obtain v3 where v3: "vim_run E v2 = Some (v3, [escape_event (cs @ ds) p 1,
      \<lparr>ve_event_type = EV_InsertText (cs @ ds) p, ve_count = 1\<rparr>])"
    using escape_and_repeat [OF v2(2)] by (auto simp: E_def)
  have "vim_run (map Typed cs @ Key ''enter'' # map Typed ds @ E) v =
      Some (v3, (evs1 @ \<lparr>ve_event_type = EV_InsertChar (ch CHR 0x0A), ve_count = 1\<rparr> # evs2 @
        [escape_event (cs @ ds) p 1]) @ [\<lparr>ve_event_type = EV_InsertText (cs @ ds) p, ve_count = 1\<rparr>])"
    using v1(1) enter v2(1) v3 by (simp add: vim_run_append vim_input_def)
  then show ?thesis
    unfolding E_def by (intro exI conjI) auto
qed

theorem repeat_forgets_enter_witness:
  "\<exists>v' evs.
     vim_run (map Typed (chars ''a'') @ Key ''enter'' # map Typed (chars ''b'') @
         [Key ''escape'', Typed (ch CHR ''.'')])
       (vim_new\<lparr>v_dot_repeat_event :=
          Some \<lparr>ve_event_type = EV_InsertText [] IP_AtCursor, ve_count = 1\<rparr>\<rparr>) =
       Some (v', evs @ [\<lparr>ve_event_type = EV_InsertText (chars ''a'' @ chars ''b'') IP_AtCursor, ve_count = 1\<rparr>]) \<and>
     \<lparr>ve_event_type = EV_InsertChar (ch CHR 0x0A), ve_count = 1\<rparr> \<in> set evs"
  by (rule repeat_forgets_enter) (simp add: inserting_def vim_new_def nothing_pending_def)

text \<open>
  Typing a count, \<open>d\<close>, a second count and \<open>w\<close> deletes words as many times as the product of
  the two counts says, a missing or unreadable count being 1, and leaves the machine waiting for a
  command; if the product does not fit into 32 bits it panics.
\<close>

theorem counts_multiply:
  assumes "awaiting [] v" and "digits_ok (pending_digits ds)" and "digits_ok (pending_digits es)"
  shows "\<exists>v'. awaiting [] v' \<and>
           vim_run (map Typed ds @ Typed (ch CHR ''d'') # map Typed es @ [Typed (ch CHR ''w'')]) v =
             (if count_of ds * count_of es < 2 ^ 32
              then Some (v', [\<lparr>ve_event_type = delete_word, ve_count = count_of ds * count_of es\<rparr>])
              else None)"
proof -
  obtain v1 where v1: "vim_run (map Typed ds) v = Some (v1, [])" "awaiting ds v1"
    using action_digits_run [OF assms(1), of ds, unfolded append_Nil] assms(2) by blast
  obtain v2 where v2: "typed_character (ch CHR ''d'') v1 = Some (v2, None)" "operating VO_Delete ds [] v2"
    using delete_step [OF v1(2)] by blast
  obtain v3 where v3: "vim_run (map Typed es) v2 = Some (v3, [])" "operating VO_Delete ds es v3"
    using operand_digits_run [OF v2(2), of es, unfolded append_Nil] assms(3) by blast
  obtain v4 where "awaiting [] v4" "typed_character (ch CHR ''w'') v3 =
      (if count_of ds * count_of es < 2 ^ 32
       then Some (v4, Some \<lparr>ve_event_type = delete_word, ve_count = count_of ds * count_of es\<rparr>)
       else None)"
    using delete_word_step [OF v3(2)] by blast
  with v1 v2 v3 show ?thesis
    by (intro exI [of _ v4]) (simp add: vim_run_append vim_input_def)
qed

theorem counts_multiply_witness:
  "vim_run (map Typed (chars ''65536'') @ Typed (ch CHR ''d'') # map Typed (chars ''65536'') @
     [Typed (ch CHR ''w'')]) vim_idle = None"
proof -
  have d: "digits_ok (pending_digits (chars ''65536''))" "count_of (chars ''65536'') = 65536"
    by (simp_all add: chars_def is_ascii_digit_def ch_def count_of_def parse_u32_def unwrap_or_def Let_def)
  from counts_multiply [OF awaiting_idle d(1) d(1)] show ?thesis
    unfolding d(2) by (elim exE conjE) simp
qed

text \<open>Every event calls one method of the handler, except a replacement that names no character.\<close>

theorem dispatch_total:
  "handle_vim_event e = None \<longleftrightarrow> ve_event_type e = EV_ReplaceChar None"
  by (simp add: handle_vim_event_def Let_def split: vim_event_type.split option.split)

end
