(* ===== verification/Text_Buffer.thy ===== *)
theory Text_Buffer
  imports Rust_Str
begin

text \<open>
  Buffers of text as the editors and the vim motions see them: the trait \<open>TextBuffer\<close> and its
  implementation for strings, \<^verbatim>\<open>crates/warpui_core/src/text/mod.rs\<close>, points in a text, \<^verbatim>\<open>text/point.rs\<close>,
  the characters that bound words, \<^verbatim>\<open>text/words.rs\<close>, and the iterator over the bounds of words,
  \<^verbatim>\<open>text/word_boundaries.rs\<close>. An iterator over characters is the list of those that are left.
\<close>

section \<open>Points\<close>

record text_point =
  tp_row :: nat
  tp_column :: nat

definition text_point_le :: "text_point \<Rightarrow> text_point \<Rightarrow> bool" where
  "text_point_le p q \<longleftrightarrow> tp_row p < tp_row q \<or> (tp_row p = tp_row q \<and> tp_column p \<le> tp_column q)"

text \<open>Sums of rows and columns, which are 32-bit numbers.\<close>

definition add_u32 :: "nat \<Rightarrow> nat \<Rightarrow> nat panics" where
  "add_u32 a b = (if a + b < 2 ^ 32 then Some (a + b) else None)"

definition text_point_add :: "text_point \<Rightarrow> text_point \<Rightarrow> text_point panics" where
  "text_point_add p q =
    (if tp_row q = 0
     then do { c \<leftarrow> add_u32 (tp_column p) (tp_column q); Some \<lparr>tp_row = tp_row p, tp_column = c\<rparr> }
     else do { r \<leftarrow> add_u32 (tp_row p) (tp_row q); Some \<lparr>tp_row = r, tp_column = tp_column q\<rparr> })"

definition text_point_sub :: "text_point \<Rightarrow> text_point \<Rightarrow> text_point panics" where
  "text_point_sub p q =
    (if \<not> text_point_le q p then None
     else if tp_row p = tp_row q
     then do { c \<leftarrow> usub (tp_column p) (tp_column q); Some \<lparr>tp_row = 0, tp_column = c\<rparr> }
     else do { r \<leftarrow> usub (tp_row p) (tp_row q); Some \<lparr>tp_row = r, tp_column = tp_column p\<rparr> })"

section \<open>Buffers\<close>

text \<open>The operations of the trait; an offset out of bounds is an error, here \<open>None\<close>.\<close>

record text_buffer =
  tb_chars_at :: "nat \<Rightarrow> uchar list option"
  tb_chars_rev_at :: "nat \<Rightarrow> uchar list option"
  tb_to_point :: "nat \<Rightarrow> text_point option"
  tb_to_offset :: "text_point \<Rightarrow> nat option"

definition str_chars_at :: "uchar list \<Rightarrow> nat \<Rightarrow> uchar list option" where
  "str_chars_at s offset = (if offset \<le> length s then Some (drop offset s) else None)"

definition str_chars_rev_at :: "uchar list \<Rightarrow> nat \<Rightarrow> uchar list option" where
  "str_chars_rev_at s offset =
    (if offset \<le> length s then Some (drop (length s - offset) (rev s)) else None)"

definition str_to_point :: "uchar list \<Rightarrow> nat \<Rightarrow> text_point option" where
  "str_to_point s offset = (if offset \<le> length s then Some \<lparr>tp_row = 0, tp_column = offset mod 2 ^ 32\<rparr> else None)"

definition str_to_offset :: "uchar list \<Rightarrow> text_point \<Rightarrow> nat option" where
  "str_to_offset s p =
    (if tp_row p = 0 then (if tp_column p \<le> length s then Some (tp_column p) else None) else None)"

definition str_buffer :: "uchar list \<Rightarrow> text_buffer" where
  "str_buffer s = \<lparr>tb_chars_at = str_chars_at s, tb_chars_rev_at = str_chars_rev_at s,
     tb_to_point = str_to_point s, tb_to_offset = str_to_offset s\<rparr>"

text \<open>
  What the motions rely on: the buffer has a text, and its iterators run forward from an offset to
  the end and backward from it to the start.
\<close>

locale buffer_of =
  fixes B :: text_buffer and s :: "uchar list"
  assumes chars_at: "tb_chars_at B k = (if k \<le> length s then Some (drop k s) else None)"
    and chars_rev_at: "tb_chars_rev_at B k = (if k \<le> length s then Some (rev (take k s)) else None)"

interpretation str: buffer_of "str_buffer s" s for s
  by unfold_locales (simp_all add: str_buffer_def str_chars_at_def str_chars_rev_at_def rev_take)

section \<open>Slices by characters\<close>

definition char_slice :: "uchar list \<Rightarrow> nat \<Rightarrow> nat \<Rightarrow> uchar list option" where
  "char_slice s start end =
    (if end < start then None
     else if start = end then Some []
     else if length s \<le> start then None
     else if length s < end then None
     else Some (take (end - start) (drop start s)))"

text \<open>
  The counter of characters of \<^verbatim>\<open>crates/string-offset/src/lib.rs\<close>: characters counted, and the byte
  offset and the characters that are left of its iterator.
\<close>

record char_counter =
  cc_current_offset :: nat
  cc_byte_offset :: nat
  cc_rest :: "uchar list"

definition char_counter_new :: "uchar list \<Rightarrow> char_counter" where
  "char_counter_new s = \<lparr>cc_current_offset = 0, cc_byte_offset = 0, cc_rest = s\<rparr>"

fun count_chars :: "nat \<Rightarrow> nat \<Rightarrow> nat \<Rightarrow> uchar list \<Rightarrow> nat option \<times> char_counter" where
  "count_chars target k i [] = (None, \<lparr>cc_current_offset = k, cc_byte_offset = i, cc_rest = []\<rparr>)"
| "count_chars target k i (c # cs) =
    (if i = target
     then (Some k, \<lparr>cc_current_offset = k + 1, cc_byte_offset = i + len_utf8 c, cc_rest = cs\<rparr>)
     else count_chars target (k + 1) (i + len_utf8 c) cs)"

definition char_offset :: "nat \<Rightarrow> char_counter \<Rightarrow> nat option \<times> char_counter" where
  "char_offset target cc =
    (if cc_byte_offset cc > target then (None, cc)
     else count_chars target (cc_current_offset cc) (cc_byte_offset cc) (cc_rest cc))"

definition count_chars_up_to_byte :: "uchar list \<Rightarrow> nat \<Rightarrow> nat option" where
  "count_chars_up_to_byte s byte_offset =
    (if byte_offset = str_len s then Some (length s)
     else fst (char_offset byte_offset (char_counter_new s)))"

section \<open>Words\<close>

definition DEFAULT_WORD_BOUNDARY_CHARS :: "uchar list" where
  "DEFAULT_WORD_BOUNDARY_CHARS =
     chars ''`~!@#$%^&*()-=+[{]}'' @ [0x5C] @ chars ''|;:'' @ [0x27, 0x22] @ chars '',.<>/?'' @ [0xAB, 0xBB]"

definition SUBWORD_BOUNDARY_CHARS :: "uchar list" where
  "SUBWORD_BOUNDARY_CHARS = chars ''_''"

definition is_default_word_boundary :: "uchar \<Rightarrow> bool" where
  "is_default_word_boundary c \<longleftrightarrow> is_whitespace c \<or> c \<in> set DEFAULT_WORD_BOUNDARY_CHARS"

definition is_subword_boundary_char :: "uchar \<Rightarrow> bool" where
  "is_subword_boundary_char c \<longleftrightarrow> is_default_word_boundary c \<or> c \<in> set SUBWORD_BOUNDARY_CHARS"

text \<open>The loop of \<open>split_at_next_word_start\<close>: how many characters are before the next word.\<close>

fun chars_before_word :: "bool \<Rightarrow> uchar list \<Rightarrow> nat" where
  "chars_before_word in_word [] = 0"
| "chars_before_word in_word (c # cs) =
    (if in_word then Suc (chars_before_word (\<not> is_default_word_boundary c) cs)
     else if \<not> is_default_word_boundary c then 0
     else Suc (chars_before_word False cs))"

definition split_at_next_word_start :: "uchar list \<Rightarrow> uchar list \<times> uchar list" where
  "split_at_next_word_start s = (let n = chars_before_word True s in (take n s, drop n s))"

section \<open>Word boundaries\<close>

datatype word_boundaries_policy = WP_Default | WP_Custom "uchar list" | WP_OnlyWhitespace
datatype word_boundaries_approach = ForwardWordStarts | ForwardWordEnds | BackwardWordStarts

record word_boundaries =
  wb_offset :: nat
  wb_chars :: "uchar list"
  wb_buffer :: text_buffer
  wb_in_word :: bool
  wb_approach :: word_boundaries_approach
  wb_policy :: word_boundaries_policy
  wb_done :: bool

definition boundaries_new ::
  "word_boundaries_approach \<Rightarrow> bool \<Rightarrow> nat \<Rightarrow> uchar list \<Rightarrow> text_buffer \<Rightarrow> word_boundaries" where
  "boundaries_new approach in_word offset cs B =
    \<lparr>wb_offset = offset, wb_chars = cs, wb_buffer = B, wb_in_word = in_word, wb_approach = approach,
     wb_policy = WP_Default, wb_done = False\<rparr>"

definition forward_starts :: "nat \<Rightarrow> uchar list \<Rightarrow> text_buffer \<Rightarrow> word_boundaries" where
  "forward_starts = boundaries_new ForwardWordStarts True"
definition forward_ends_exclusive :: "nat \<Rightarrow> uchar list \<Rightarrow> text_buffer \<Rightarrow> word_boundaries" where
  "forward_ends_exclusive = boundaries_new ForwardWordEnds False"
definition forward_ends_inclusive :: "nat \<Rightarrow> uchar list \<Rightarrow> text_buffer \<Rightarrow> word_boundaries" where
  "forward_ends_inclusive = boundaries_new ForwardWordEnds True"
definition backward_starts_exclusive :: "nat \<Rightarrow> uchar list \<Rightarrow> text_buffer \<Rightarrow> word_boundaries" where
  "backward_starts_exclusive = boundaries_new BackwardWordStarts False"
definition backward_starts_inclusive :: "nat \<Rightarrow> uchar list \<Rightarrow> text_buffer \<Rightarrow> word_boundaries" where
  "backward_starts_inclusive = boundaries_new BackwardWordStarts True"

definition with_policy :: "word_boundaries_policy \<Rightarrow> word_boundaries \<Rightarrow> word_boundaries" where
  "with_policy policy w = w\<lparr>wb_policy := policy\<rparr>"

definition policy_boundary :: "word_boundaries_policy \<Rightarrow> uchar \<Rightarrow> bool" where
  "policy_boundary policy c =
    (case policy of
       WP_Default \<Rightarrow> is_default_word_boundary c
     | WP_Custom cs \<Rightarrow> is_whitespace c \<or> c \<in> set cs
     | WP_OnlyWhitespace \<Rightarrow> is_whitespace c)"

definition boundaries_step :: "word_boundaries \<Rightarrow> word_boundaries panics" where
  "boundaries_step w =
    (let w = w\<lparr>wb_chars := tl (wb_chars w)\<rparr> in
     case wb_approach w of
       BackwardWordStarts \<Rightarrow> do { k \<leftarrow> usub (wb_offset w) 1; Some (w\<lparr>wb_offset := k\<rparr>) }
     | _ \<Rightarrow> Some (w\<lparr>wb_offset := wb_offset w + 1\<rparr>))"

lemma boundaries_step_chars:
  "boundaries_step w = Some w' \<Longrightarrow> wb_chars w' = tl (wb_chars w)"
  by (auto simp: boundaries_step_def Let_def split: word_boundaries_approach.splits bind_splits)

text \<open>
  The loop of \<open>next\<close>: the point of the next bound with the state behind it, or nothing when the
  characters have run out.
\<close>

function boundaries_loop :: "word_boundaries \<Rightarrow> (text_point option option \<times> word_boundaries) panics" where
  "boundaries_loop w =
    (case wb_chars w of
       [] \<Rightarrow> Some (None, w)
     | c # _ \<Rightarrow>
        if wb_approach w = ForwardWordStarts then
          if wb_in_word w then
            (case boundaries_step w of
               None \<Rightarrow> None
             | Some w' \<Rightarrow> boundaries_loop (if policy_boundary (wb_policy w) c then w'\<lparr>wb_in_word := False\<rparr> else w'))
          else if policy_boundary (wb_policy w) c then
            (case boundaries_step w of None \<Rightarrow> None | Some w' \<Rightarrow> boundaries_loop w')
          else Some (Some (tb_to_point (wb_buffer w) (wb_offset w)), w\<lparr>wb_in_word := True\<rparr>)
        else
          if wb_in_word w then
            if policy_boundary (wb_policy w) c
            then Some (Some (tb_to_point (wb_buffer w) (wb_offset w)), w\<lparr>wb_in_word := False\<rparr>)
            else (case boundaries_step w of None \<Rightarrow> None | Some w' \<Rightarrow> boundaries_loop w')
          else
            (case boundaries_step w of
               None \<Rightarrow> None
             | Some w' \<Rightarrow> boundaries_loop (if policy_boundary (wb_policy w) c then w' else w'\<lparr>wb_in_word := True\<rparr>)))"
  by pat_completeness auto
termination
  by (relation "measure (\<lambda>w. length (wb_chars w))")
    (auto dest!: boundaries_step_chars)

declare boundaries_loop.simps [simp del]

definition boundaries_next :: "word_boundaries \<Rightarrow> (text_point option \<times> word_boundaries) panics" where
  "boundaries_next w =
    do { (r, w') \<leftarrow> boundaries_loop w;
         case r of
           Some p \<Rightarrow> Some (p, w')
         | None \<Rightarrow>
             if wb_done w' then Some (None, w')
             else Some (tb_to_point (wb_buffer w') (wb_offset w'), w'\<lparr>wb_done := True\<rparr>) }"

text \<open>The methods of the trait that start these iterators.\<close>

definition word_starts_from_offset :: "text_buffer \<Rightarrow> nat \<Rightarrow> word_boundaries option" where
  "word_starts_from_offset B offset =
     map_option (\<lambda>cs. forward_starts offset cs B) (tb_chars_at B offset)"
definition word_ends_from_offset_exclusive :: "text_buffer \<Rightarrow> nat \<Rightarrow> word_boundaries option" where
  "word_ends_from_offset_exclusive B offset =
     map_option (\<lambda>cs. forward_ends_exclusive offset cs B) (tb_chars_at B offset)"
definition word_ends_from_offset_inclusive :: "text_buffer \<Rightarrow> nat \<Rightarrow> word_boundaries option" where
  "word_ends_from_offset_inclusive B offset =
     map_option (\<lambda>cs. forward_ends_inclusive offset cs B) (tb_chars_at B offset)"
definition word_starts_backward_from_offset_exclusive :: "text_buffer \<Rightarrow> nat \<Rightarrow> word_boundaries option" where
  "word_starts_backward_from_offset_exclusive B offset =
     map_option (\<lambda>cs. backward_starts_exclusive offset cs B) (tb_chars_rev_at B offset)"
definition word_starts_backward_from_offset_inclusive :: "text_buffer \<Rightarrow> nat \<Rightarrow> word_boundaries option" where
  "word_starts_backward_from_offset_inclusive B offset =
     map_option (\<lambda>cs. backward_starts_inclusive offset cs B) (tb_chars_rev_at B offset)"

end
