(* ===== verification/Text_Facts.thy ===== *)
theory Text_Facts
  imports Text_Buffer
begin

text \<open>
  What the iterators over a text visit. The locale \<open>visits_marks\<close> is the contract of an iterator that
  moves over positions and yields the marked ones and then one last item; it is interpreted on the
  word boundaries here and on the word motions of vim later.
\<close>

section \<open>Iterators that visit marks\<close>

text \<open>Up to \<open>n\<close> items of an iterator.\<close>

fun items :: "('it \<Rightarrow> ('a option \<times> 'it) panics) \<Rightarrow> nat \<Rightarrow> 'it \<Rightarrow> 'a list panics" where
  "items next_item 0 it = Some []"
| "items next_item (Suc n) it =
    (case next_item it of
       None \<Rightarrow> None
     | Some (None, _) \<Rightarrow> Some []
     | Some (Some x, it') \<Rightarrow> map_option ((#) x) (items next_item n it'))"

locale visits_marks =
  fixes next_item :: "'it \<Rightarrow> ('a option \<times> 'it) panics"
    and at_position :: "nat \<Rightarrow> 'it \<Rightarrow> bool"
    and finished :: "'it \<Rightarrow> bool"
    and len :: nat
    and mark :: "nat \<Rightarrow> bool"
    and item_at :: "nat \<Rightarrow> 'a"
    and last_item :: 'a
  assumes to_mark: "at_position j it \<Longrightarrow> filter mark [Suc j..<len] = k # ks \<Longrightarrow>
      \<exists>it'. next_item it = Some (Some (item_at k), it') \<and> at_position k it'"
    and to_end: "at_position j it \<Longrightarrow> filter mark [Suc j..<len] = [] \<Longrightarrow>
      \<exists>it'. next_item it = Some (Some last_item, it') \<and> finished it'"
    and at_end: "finished it \<Longrightarrow> next_item it = Some (None, it)"
begin

lemma filter_upt_Cons:
  "filter mark [j..<len] = k # ks \<Longrightarrow> ks = filter mark [Suc k..<len]"
proof (induction "len - j" arbitrary: j)
  case (Suc n)
  then have "j < len" "n = len - Suc j" by simp_all
  with Suc show ?case by (cases "mark j") (auto simp: upt_conv_Cons)
qed simp

theorem items_are_marks:
  assumes "at_position j it"
  shows "items next_item n it = Some (take n (map item_at (filter mark [Suc j..<len]) @ [last_item]))"
  using assms
proof (induction n arbitrary: j it)
  case (Suc n)
  show ?case
  proof (cases "filter mark [Suc j..<len]")
    case Nil
    then obtain it' where "next_item it = Some (Some last_item, it')" "finished it'"
      using to_end [OF Suc.prems] by blast
    then show ?thesis using Nil by (cases n) (simp_all add: at_end)
  next
    case (Cons k ks)
    then obtain it' where "next_item it = Some (Some (item_at k), it')" "at_position k it'"
      using to_mark [OF Suc.prems] by blast
    with Suc.IH [of k it'] Cons show ?thesis by (simp add: filter_upt_Cons [OF Cons])
  qed
qed simp

end

section \<open>Word boundaries\<close>

text \<open>The iterator at an offset of the text, in a word or between words, as \<open>new\<close> and \<open>next\<close> leave it.\<close>

definition boundaries_at ::
  "word_boundaries_approach \<Rightarrow> bool \<Rightarrow> word_boundaries_policy \<Rightarrow> uchar list \<Rightarrow> nat \<Rightarrow> word_boundaries" where
  "boundaries_at approach in_word policy s j =
    \<lparr>wb_offset = j, wb_chars = drop j s, wb_buffer = str_buffer s, wb_in_word = in_word,
     wb_approach = approach, wb_policy = policy, wb_done = False\<rparr>"

definition word_starts_at :: "word_boundaries_policy \<Rightarrow> uchar list \<Rightarrow> nat \<Rightarrow> bool" where
  "word_starts_at policy s j \<longleftrightarrow> policy_boundary policy (s ! (j - 1)) \<and> \<not> policy_boundary policy (s ! j)"

lemma boundaries_step_at:
  "approach \<noteq> BackwardWordStarts \<Longrightarrow>
   boundaries_step (boundaries_at approach in_word policy s j) = Some (boundaries_at approach in_word policy s (Suc j))"
  by (cases approach) (simp_all add: boundaries_step_def boundaries_at_def tl_drop drop_Suc)

lemma boundaries_in_word [simp]:
  "(boundaries_at approach in_word policy s j)\<lparr>wb_in_word := b\<rparr> = boundaries_at approach b policy s j"
  by (simp add: boundaries_at_def)

lemma boundaries_at_fields [simp]:
  "wb_chars (boundaries_at approach in_word policy s j) = drop j s"
  "wb_approach (boundaries_at approach in_word policy s j) = approach"
  "wb_in_word (boundaries_at approach in_word policy s j) = in_word"
  "wb_policy (boundaries_at approach in_word policy s j) = policy"
  "wb_offset (boundaries_at approach in_word policy s j) = j"
  "wb_buffer (boundaries_at approach in_word policy s j) = str_buffer s"
  by (simp_all add: boundaries_at_def)

text \<open>One turn of the loop for the starts of words.\<close>

lemma starts_turn:
  assumes "j < length s"
  shows "boundaries_loop (boundaries_at ForwardWordStarts True policy s j) =
      boundaries_loop (boundaries_at ForwardWordStarts (\<not> policy_boundary policy (s ! j)) policy s (Suc j))"
    and "boundaries_loop (boundaries_at ForwardWordStarts False policy s j) =
      (if policy_boundary policy (s ! j)
       then boundaries_loop (boundaries_at ForwardWordStarts False policy s (Suc j))
       else Some (Some (str_to_point s j), boundaries_at ForwardWordStarts True policy s j))"
  using assms
  by (subst boundaries_loop.simps,
      auto simp: Cons_nth_drop_Suc [symmetric] boundaries_step_at str_buffer_def simp del: boundaries_loop.simps)+

lemma starts_end:
  "length s \<le> j \<Longrightarrow> boundaries_loop (boundaries_at ForwardWordStarts in_word policy s j) =
     Some (None, boundaries_at ForwardWordStarts in_word policy s j)"
  by (subst boundaries_loop.simps) simp

lemma starts_loop:
  assumes "j \<le> length s" and "in_word \<or> (0 < j \<and> policy_boundary policy (s ! (j - 1)))"
  shows "case filter (word_starts_at policy s) [(if in_word then Suc j else j)..<length s] of
      [] \<Rightarrow> \<exists>in_word'. boundaries_loop (boundaries_at ForwardWordStarts in_word policy s j) =
             Some (None, boundaries_at ForwardWordStarts in_word' policy s (length s))
    | k # _ \<Rightarrow> boundaries_loop (boundaries_at ForwardWordStarts in_word policy s j) =
             Some (Some (str_to_point s k), boundaries_at ForwardWordStarts True policy s k)"
  using assms
proof (induction "length s - j" arbitrary: j in_word)
  case 0
  then show ?case by (auto simp: starts_end)
next
  case (Suc n)
  then have j: "j < length s" and n: "n = length s - Suc j" by simp_all
  show ?case
  proof (cases in_word)
    case True
    let ?b = "policy_boundary policy (s ! j)"
    have "filter (word_starts_at policy s) [(if \<not> ?b then Suc (Suc j) else Suc j)..<length s] =
        filter (word_starts_at policy s) [Suc j..<length s]"
      by (cases "Suc j < length s") (auto simp: upt_conv_Cons word_starts_at_def)
    then show ?thesis
      using Suc.hyps(1) [OF n, of "\<not> ?b"] j True by (simp add: starts_turn split: list.splits)
  next
    case False
    then show ?thesis
      using Suc.hyps(1) [OF n, of False] Suc.prems j
      by (cases "policy_boundary policy (s ! j)") (simp_all add: starts_turn upt_conv_Cons word_starts_at_def split: list.splits)
  qed
qed

interpretation starts: visits_marks boundaries_next
  "\<lambda>j it. j \<le> length s \<and> it = boundaries_at ForwardWordStarts True policy s j"
  "\<lambda>it. wb_done it \<and> wb_chars it = []" "length s" "word_starts_at policy s"
  "\<lambda>j. \<lparr>tp_row = 0, tp_column = j mod 2 ^ 32\<rparr>" "\<lparr>tp_row = 0, tp_column = length s mod 2 ^ 32\<rparr>" for policy s
proof (unfold_locales, goal_cases)
  case (1 j it k ks)
  then have "k \<in> set (filter (word_starts_at policy s) [Suc j..<length s])" by simp
  then have "k < length s" by (simp only: set_filter set_upt) simp
  with 1 starts_loop [of j s True policy] show ?case
    by (auto simp: boundaries_next_def str_to_point_def)
next
  case (2 j it)
  with starts_loop [of j s True policy] show ?case
    by (auto simp: boundaries_next_def str_to_point_def str_buffer_def boundaries_at_def)
next
  case (3 it)
  then show ?case by (subst boundaries_next_def, subst boundaries_loop.simps) simp
qed

text \<open>
  The iterator over word starts visits exactly the offsets beyond its start at which a word begins, in
  order, and then the end of the text, for every policy of what bounds a word.
\<close>

theorem word_starts_visited:
  assumes "offset \<le> length s" and "length s < 2 ^ 32"
  shows "\<exists>it. word_starts_from_offset (str_buffer s) offset = Some it \<and>
    items boundaries_next n (with_policy policy it) =
      Some (take n (map (\<lambda>j. \<lparr>tp_row = 0, tp_column = j\<rparr>)
        (filter (word_starts_at policy s) [Suc offset..<length s] @ [length s])))"
proof -
  have mods: "map (\<lambda>j. \<lparr>tp_row = 0, tp_column = j mod 2 ^ 32\<rparr>) (filter (word_starts_at policy s) [Suc offset..<length s]) =
      map (\<lambda>j. \<lparr>tp_row = 0, tp_column = j\<rparr>) (filter (word_starts_at policy s) [Suc offset..<length s])"
    using assms(2) by (intro map_cong) auto
  have "items boundaries_next n (boundaries_at ForwardWordStarts True policy s offset) =
      Some (take n (map (\<lambda>j. \<lparr>tp_row = 0, tp_column = j\<rparr>)
        (filter (word_starts_at policy s) [Suc offset..<length s]) @ [\<lparr>tp_row = 0, tp_column = length s mod 2 ^ 32\<rparr>]))"
    unfolding mods [symmetric] using assms(1) by (intro starts.items_are_marks) simp
  moreover have "with_policy policy (forward_starts offset (drop offset s) (str_buffer s)) =
      boundaries_at ForwardWordStarts True policy s offset"
    by (simp add: with_policy_def forward_starts_def boundaries_new_def boundaries_at_def)
  ultimately show ?thesis
    using assms by (simp add: word_starts_from_offset_def str.chars_at)
qed

theorem word_starts_visited_witness:
  "\<exists>it. word_starts_from_offset (str_buffer (chars ''ab cd'')) 1 = Some it \<and>
    items boundaries_next 5 (with_policy WP_OnlyWhitespace it) =
      Some [\<lparr>tp_row = 0, tp_column = 3\<rparr>, \<lparr>tp_row = 0, tp_column = 5\<rparr>]"
proof -
  have "is_whitespace (ch CHR '' '')" "\<not> is_whitespace (ch CHR ''c'')" "\<not> is_whitespace (ch CHR ''b'')"
      "\<not> is_whitespace (ch CHR ''d'')"
    by (simp_all add: is_whitespace_def ch_def)
  then have "filter (word_starts_at WP_OnlyWhitespace (chars ''ab cd'')) [Suc 1..<length (chars ''ab cd'')] = [3]"
    by (simp add: word_starts_at_def policy_boundary_def chars_def upt_rec)
  moreover have "length (chars ''ab cd'') = 5" by (simp add: chars_def)
  ultimately show ?thesis
    using word_starts_visited [of 1 "chars ''ab cd''" 5 WP_OnlyWhitespace] by simp
qed

section \<open>Characters and bytes\<close>

lemma len_utf8_pos: "0 < len_utf8 c"
  by (simp add: len_utf8_def)

lemma str_len_Cons: "str_len (c # cs) = len_utf8 c + str_len cs"
  by (simp add: str_len_def)

lemma str_len_take_Suc: "str_len (take (Suc j) (c # s)) = len_utf8 c + str_len (take j s)"
  by (simp add: str_len_Cons)

lemma str_len_take_inject:
  "str_len (take j s) = str_len (take k s) \<Longrightarrow> j \<le> length s \<Longrightarrow> k \<le> length s \<Longrightarrow> j = k"
proof (induction s arbitrary: j k)
  case (Cons c s)
  have ne: "str_len (take 0 (c # s)) \<noteq> str_len (take (Suc n) (c # s))" for n
    unfolding str_len_take_Suc using len_utf8_pos [of c] by (simp add: str_len_def)
  show ?case
  proof (cases j)
    case 0
    with ne Cons.prems(1) show ?thesis by (cases k) (simp, simp only:)
  next
    case (Suc j')
    with ne [of j'] Cons.prems(1) obtain k' where "k = Suc k'" by (metis not0_implies_Suc)
    with Suc Cons.prems show ?thesis
      using Cons.IH [of j' k'] by (simp del: take_Suc_Cons add: str_len_take_Suc)
  qed
qed simp

lemma count_chars_iff:
  "fst (count_chars target k i s) = Some m \<longleftrightarrow>
    (\<exists>j < length s. m = k + j \<and> i + str_len (take j s) = target)"
proof (induction s arbitrary: k i)
  case (Cons c s)
  have cases: "(\<exists>j < length (c # s). m = k + j \<and> i + str_len (take j (c # s)) = target) \<longleftrightarrow>
      (m = k \<and> i = target) \<or> (\<exists>j < length s. m = Suc k + j \<and> i + len_utf8 c + str_len (take j s) = target)"
    by (simp add: less_Suc_eq_0_disj str_len_take_Suc add.assoc del: take_Suc_Cons) (auto simp: str_len_def)
  show ?case unfolding cases using Cons [of "k + 1" "i + len_utf8 c"] len_utf8_pos [of c] by auto
qed simp

text \<open>
  The number of characters before a byte of a string is counted exactly: the count is the number of
  characters that take as many bytes, and there is none for a byte inside a character or beyond the
  end.
\<close>

theorem characters_before_byte:
  "count_chars_up_to_byte s b = Some k \<longleftrightarrow> k \<le> length s \<and> str_len (take k s) = b"
proof (cases "b = str_len s")
  case True
  then show ?thesis
    using str_len_take_inject [of k s "length s"] by (auto simp: count_chars_up_to_byte_def)
next
  case False
  have "fst (char_offset b (char_counter_new s)) = Some k \<longleftrightarrow> k < length s \<and> str_len (take k s) = b"
    by (auto simp: char_offset_def char_counter_new_def count_chars_iff)
  with False show ?thesis by (auto simp: count_chars_up_to_byte_def order.order_iff_strict)
qed

end
