(* ===== verification/Vim_Motions.thy ===== *)
theory Vim_Motions
  imports Text_Buffer Vim_Types
begin

text \<open>
  The motions and text objects of vim on a buffer: \<^verbatim>\<open>crates/vim/src/word_iterator.rs\<close>,
  \<^verbatim>\<open>find_char.rs\<close>, \<^verbatim>\<open>matching_brackets.rs\<close>, \<^verbatim>\<open>paragraph_iterator.rs\<close> and \<^verbatim>\<open>text_objects/\<close>. They work on
  any implementation of \<open>text_buffer\<close>. A range of offsets is the pair of its start and its end.
\<close>

section \<open>Kinds of characters\<close>

datatype character_kind = WordChars | Symbols | Whitespace

definition equivalent_char_kind :: "character_kind \<Rightarrow> character_kind \<Rightarrow> word_type \<Rightarrow> bool" where
  "equivalent_char_kind k other word_type \<longleftrightarrow>
    (case word_type of
       WT_Default \<Rightarrow> k = other
     | WT_BigWord \<Rightarrow> k = other \<or> (k = WordChars \<and> other = Symbols \<or> k = Symbols \<and> other = WordChars))"

definition character_kind_from :: "uchar \<Rightarrow> character_kind" where
  "character_kind_from c =
    (if is_whitespace c then Whitespace else if is_default_word_boundary c then Symbols else WordChars)"

section \<open>Word motions\<close>

lemma tl_Cons_length: "tl xs = y # ys \<Longrightarrow> length xs = Suc (Suc (length ys))"
  by (cases xs) auto

text \<open>\<open>WordHeadsVim\<close>: the motions w and W, and backward ge and gE.\<close>

record word_heads =
  wh_offset :: nat
  wh_chars :: "uchar list"
  wh_context :: character_kind
  wh_direction :: direction
  wh_word_type :: word_type
  wh_done :: bool

definition word_heads_new :: "nat \<Rightarrow> text_buffer \<Rightarrow> direction \<Rightarrow> word_type \<Rightarrow> word_heads option" where
  "word_heads_new offset B direction word_type =
    do { (offset, cs) \<leftarrow>
           (case direction of
              Backward \<Rightarrow> map_option (Pair (offset + 1)) (tb_chars_rev_at B (offset + 1))
            | Forward \<Rightarrow> map_option (Pair offset) (tb_chars_at B offset));
         Some \<lparr>wh_offset = offset, wh_chars = cs,
           wh_context = (case cs of [] \<Rightarrow> WordChars | c # _ \<Rightarrow> character_kind_from c),
           wh_direction = direction, wh_word_type = word_type, wh_done = False\<rparr> }"

definition heads_step :: "word_heads \<Rightarrow> word_heads panics" where
  "heads_step h =
    (let h = h\<lparr>wh_chars := tl (wh_chars h)\<rparr> in
     case wh_direction h of
       Backward \<Rightarrow> do { k \<leftarrow> usub (wh_offset h) 1; Some (h\<lparr>wh_offset := k\<rparr>) }
     | Forward \<Rightarrow> Some (h\<lparr>wh_offset := wh_offset h + 1\<rparr>))"

lemma heads_step_chars: "heads_step h = Some h' \<Longrightarrow> wh_chars h' = tl (wh_chars h)"
  by (auto simp: heads_step_def Let_def split: direction.splits bind_splits)

text \<open>The loop of \<open>next\<close>: the next head, or nothing when the characters have run out.\<close>

function heads_loop :: "word_heads \<Rightarrow> (nat option \<times> word_heads) panics" where
  "heads_loop h =
    (case heads_step h of
       None \<Rightarrow> None
     | Some h' \<Rightarrow>
        (case wh_chars h' of
           [] \<Rightarrow> Some (None, h')
         | c # _ \<Rightarrow>
            let prev_cursor_context = wh_context h';
                h'' = h'\<lparr>wh_context := character_kind_from c\<rparr>
            in if \<not> equivalent_char_kind (wh_context h'') prev_cursor_context (wh_word_type h'') \<and>
                  wh_context h'' \<noteq> Whitespace
               then (case wh_direction h'' of
                       Backward \<Rightarrow> do { k \<leftarrow> usub (wh_offset h'') 1; Some (Some k, h'') }
                     | Forward \<Rightarrow> Some (Some (wh_offset h''), h''))
               else heads_loop h''))"
  by pat_completeness auto
termination
  by (relation "measure (\<lambda>h. length (wh_chars h))") (auto dest!: heads_step_chars tl_Cons_length)

declare heads_loop.simps [simp del]

definition heads_next :: "word_heads \<Rightarrow> (nat option \<times> word_heads) panics" where
  "heads_next h =
    (if wh_done h then Some (None, h)
     else do { (r, h') \<leftarrow> heads_loop h;
               case r of
                 Some k \<Rightarrow> Some (Some k, h')
               | None \<Rightarrow> Some (Some (wh_offset h'), h'\<lparr>wh_done := True\<rparr>) })"

text \<open>\<open>WordTailsVim\<close>: the motions e and E, and backward b and B.\<close>

record word_tails =
  wt_offset :: nat
  wt_chars :: "uchar list"
  wt_direction :: direction
  wt_word_type :: word_type
  wt_done :: bool

definition word_tails_new :: "nat \<Rightarrow> text_buffer \<Rightarrow> direction \<Rightarrow> word_type \<Rightarrow> word_tails option" where
  "word_tails_new offset B direction word_type =
    do { (offset, cs) \<leftarrow>
           (case direction of
              Backward \<Rightarrow> map_option (Pair (offset + 1)) (tb_chars_rev_at B (offset + 1))
            | Forward \<Rightarrow> map_option (Pair offset) (tb_chars_at B offset));
         Some \<lparr>wt_offset = offset, wt_chars = cs, wt_direction = direction, wt_word_type = word_type,
           wt_done = False\<rparr> }"

definition tails_step :: "word_tails \<Rightarrow> word_tails panics" where
  "tails_step t =
    (let t = t\<lparr>wt_chars := tl (wt_chars t)\<rparr> in
     case wt_direction t of
       Backward \<Rightarrow> do { k \<leftarrow> usub (wt_offset t) 1; Some (t\<lparr>wt_offset := k\<rparr>) }
     | Forward \<Rightarrow> Some (t\<lparr>wt_offset := wt_offset t + 1\<rparr>))"

lemma tails_step_chars: "tails_step t = Some t' \<Longrightarrow> wt_chars t' = tl (wt_chars t)"
  by (auto simp: tails_step_def Let_def split: direction.splits bind_splits)

definition tails_landing :: "word_tails \<Rightarrow> nat panics" where
  "tails_landing t = (case wt_direction t of Backward \<Rightarrow> usub (wt_offset t) 1 | Forward \<Rightarrow> Some (wt_offset t))"

function tails_loop :: "word_tails \<Rightarrow> (nat option \<times> word_tails) panics" where
  "tails_loop t =
    (if length (wt_chars t) < 2 then Some (None, t)
     else case tails_step t of
       None \<Rightarrow> None
     | Some t' \<Rightarrow>
        (case wt_chars t' of
           c # c_next # _ \<Rightarrow>
             if \<not> equivalent_char_kind (character_kind_from c) (character_kind_from c_next) (wt_word_type t') \<and>
                character_kind_from c \<noteq> Whitespace
             then do { k \<leftarrow> tails_landing t'; Some (Some k, t') }
             else tails_loop t'
         | _ \<Rightarrow> Some (None, t')))"
  by pat_completeness auto
termination
  by (relation "measure (\<lambda>t. length (wt_chars t))") (auto dest!: tails_step_chars tl_Cons_length)

declare tails_loop.simps [simp del]

definition tails_next :: "word_tails \<Rightarrow> (nat option \<times> word_tails) panics" where
  "tails_next t =
    (if wt_done t then Some (None, t)
     else do { (r, t') \<leftarrow> tails_loop t;
               case r of
                 Some k \<Rightarrow> Some (Some k, t')
               | None \<Rightarrow> do { k \<leftarrow> tails_landing t'; Some (Some k, t'\<lparr>wt_done := True\<rparr>) } })"

datatype word_iterator = Heads word_heads | Tails word_tails

definition vim_word_iterator_from_offset ::
  "nat \<Rightarrow> text_buffer \<Rightarrow> direction \<Rightarrow> word_bound \<Rightarrow> word_type \<Rightarrow> word_iterator option" where
  "vim_word_iterator_from_offset offset B direction bound word_type =
    (case (direction, bound) of
       (Forward, WB_Start) \<Rightarrow> map_option Heads (word_heads_new offset B direction word_type)
     | (Backward, WB_End) \<Rightarrow> map_option Heads (word_heads_new offset B direction word_type)
     | (Forward, WB_End) \<Rightarrow> map_option Tails (word_tails_new offset B direction word_type)
     | (Backward, WB_Start) \<Rightarrow> map_option Tails (word_tails_new offset B direction word_type))"

definition word_iterator_next :: "word_iterator \<Rightarrow> (nat option \<times> word_iterator) panics" where
  "word_iterator_next it =
    (case it of
       Heads h \<Rightarrow> map_option (map_prod id Heads) (heads_next h)
     | Tails t \<Rightarrow> map_option (map_prod id Tails) (tails_next t))"

section \<open>Finding a character\<close>

text \<open>The position of the match number \<open>n\<close>, counted from 0, in an iterator.\<close>

definition nth_match :: "uchar \<Rightarrow> nat \<Rightarrow> uchar list \<Rightarrow> nat option" where
  "nth_match c n cs =
    (let hits = filter (\<lambda>(_, x). x = c) (List.enumerate 0 cs)
     in if n < length hits then Some (fst (hits ! n)) else None)"

definition search_start_column :: "nat \<Rightarrow> find_char_motion \<Rightarrow> nat" where
  "search_start_column current_column m =
    (case (fc_direction m, fc_destination m, fc_is_repetition m) of
       (Backward, AtChar, _) \<Rightarrow> current_column
     | (Backward, BeforeChar, False) \<Rightarrow> current_column
     | (Backward, BeforeChar, True) \<Rightarrow> current_column - 1
     | (Forward, AtChar, _) \<Rightarrow> current_column + 1
     | (Forward, BeforeChar, False) \<Rightarrow> current_column + 1
     | (Forward, BeforeChar, True) \<Rightarrow> current_column + 2)"

definition vim_find_char_on_line ::
  "uchar list \<Rightarrow> nat \<Rightarrow> find_char_motion \<Rightarrow> nat \<Rightarrow> bool \<Rightarrow> nat option" where
  "vim_find_char_on_line line current_column m occurrence_count keep_selection =
    (let start = search_start_column current_column m;
         found_char =
           (case fc_direction m of
              Backward \<Rightarrow> Option.bind (tb_chars_rev_at (str_buffer line) start) (nth_match (fc_c m) (occurrence_count - 1))
            | Forward \<Rightarrow> Option.bind (tb_chars_at (str_buffer line) start) (nth_match (fc_c m) (occurrence_count - 1)))
     in case found_char of
          None \<Rightarrow> None
        | Some i \<Rightarrow>
            let move_distance =
                  (case (fc_destination m, fc_is_repetition m) of
                     (AtChar, _) \<Rightarrow> i + 1
                   | (BeforeChar, True) \<Rightarrow> i + 1
                   | (BeforeChar, False) \<Rightarrow> i);
                new_column =
                  (case fc_direction m of
                     Backward \<Rightarrow> current_column - move_distance
                   | Forward \<Rightarrow> current_column + move_distance)
            in Some (if keep_selection \<and> fc_direction m = Forward then new_column + 1 else new_column))"

section \<open>Matching brackets\<close>

text \<open>
  The search with its \<open>depth\<close>, a 32-bit number: the position of the first complement at depth 0.
\<close>

fun bracket_position :: "bracket_char \<Rightarrow> nat \<Rightarrow> nat \<Rightarrow> uchar list \<Rightarrow> nat option panics" where
  "bracket_position b depth i [] = Some None"
| "bracket_position b depth i (c # cs) =
    (if bracket_is_char b c then
       (if depth + 1 < 2 ^ 32 then bracket_position b (depth + 1) (i + 1) cs else None)
     else if bracket_complements b c then
       (if depth = 0 then Some (Some i) else bracket_position b (depth - 1) (i + 1) cs)
     else bracket_position b depth (i + 1) cs)"

definition vim_find_matching_bracket :: "text_buffer \<Rightarrow> bracket_char \<Rightarrow> nat \<Rightarrow> nat option panics" where
  "vim_find_matching_bracket B b offset =
    (case (case bc_end b of Opening \<Rightarrow> tb_chars_at B (offset + 1) | Closing \<Rightarrow> tb_chars_rev_at B offset) of
       None \<Rightarrow> Some None
     | Some cs \<Rightarrow>
        do { r \<leftarrow> bracket_position b 0 0 cs;
             case r of
               None \<Rightarrow> Some None
             | Some i \<Rightarrow>
                 (case bc_end b of
                    Opening \<Rightarrow> Some (Some (offset + i + 1))
                  | Closing \<Rightarrow> do { k \<leftarrow> usub offset i; k \<leftarrow> usub k 1; Some (Some k) }) })"

section \<open>Paragraphs\<close>

abbreviation (input) newline :: uchar where "newline \<equiv> 0x0A"

text \<open>The scan for two newlines in a row.\<close>

fun two_newlines :: "bool \<Rightarrow> (nat \<times> uchar) list \<Rightarrow> nat option" where
  "two_newlines prev_was_newline [] = None"
| "two_newlines prev_was_newline ((at, c) # cs) =
    (if c = newline then (if prev_was_newline then Some at else two_newlines True cs)
     else two_newlines False cs)"

definition paragraph_scan :: "uchar list \<Rightarrow> nat option" where
  "paragraph_scan cs = two_newlines False (dropWhile (\<lambda>(_, c). c = newline) (List.enumerate 0 cs))"

text \<open>The position of a character in an iterator from the offset is never beyond the offset.\<close>

definition find_previous_paragraph_start :: "text_buffer \<Rightarrow> nat \<Rightarrow> nat option" where
  "find_previous_paragraph_start B offset =
    do { cs \<leftarrow> tb_chars_rev_at B (offset + 1);
         at \<leftarrow> paragraph_scan cs;
         Some (offset + 1 - at) }"

definition find_next_paragraph_end :: "text_buffer \<Rightarrow> nat \<Rightarrow> nat option" where
  "find_next_paragraph_end B offset =
    do { cs \<leftarrow> tb_chars_at B offset;
         at \<leftarrow> paragraph_scan cs;
         Some (offset + at) }"

end
