(* ===== verification/Vim_Objects.thy ===== *)
theory Vim_Objects
  imports Vim_Motions
begin

text \<open>
  The text objects of vim, \<^verbatim>\<open>crates/vim/src/text_objects/\<close>: words, quotes, blocks in brackets and
  paragraphs. The outer \<open>option\<close> is a panic, the inner one that there is no such object.
\<close>

type_synonym range = "nat \<times> nat"

section \<open>Words\<close>

text \<open>\<open>run_length\<close> is how often a loop moves a bound until the first character of another kind.\<close>

definition run_length :: "(uchar \<Rightarrow> bool) \<Rightarrow> uchar list \<Rightarrow> nat" where
  "run_length P cs = length (takeWhile P cs)"

definition of_kind :: "character_kind \<Rightarrow> word_type \<Rightarrow> uchar \<Rightarrow> bool" where
  "of_kind k word_type c = equivalent_char_kind (character_kind_from c) k word_type"

definition is_blank :: "uchar \<Rightarrow> bool" where
  "is_blank c \<longleftrightarrow> character_kind_from c = Whitespace"

definition vim_inner_word :: "text_buffer \<Rightarrow> nat \<Rightarrow> word_type \<Rightarrow> range option panics" where
  "vim_inner_word B offset word_type =
    (case (tb_chars_at B offset, tb_chars_rev_at B offset) of
       (Some (c # cs), Some behind) \<Rightarrow>
         let same = of_kind (character_kind_from c) word_type in
         do { word_start \<leftarrow> usub offset (run_length same behind);
              Some (Some (word_start, offset + run_length same (c # cs))) }
     | _ \<Rightarrow> Some None)"

definition vim_a_word :: "text_buffer \<Rightarrow> nat \<Rightarrow> word_type \<Rightarrow> range option panics" where
  "vim_a_word B offset word_type =
    (case (tb_chars_at B offset, tb_chars_rev_at B offset) of
       (Some (c # cs), Some behind) \<Rightarrow>
         let cursor_context = character_kind_from c;
             same = of_kind cursor_context word_type;
             backward_iter = dropWhile same behind;
             forward_iter = dropWhile same (c # cs);
             word_end = offset + run_length same (c # cs)
         in do { word_start \<leftarrow> usub offset (run_length same behind);
                 if cursor_context = Whitespace then
                   (case forward_iter of
                      [] \<Rightarrow> Some (Some (word_start, word_end))
                    | d # _ \<Rightarrow>
                       Some (Some (word_start,
                         word_end + run_length (of_kind (character_kind_from d) word_type) forward_iter)))
                 else
                   (case forward_iter of
                      [] \<Rightarrow>
                        (case backward_iter of
                           [] \<Rightarrow> Some (Some (word_start, word_end))
                         | e # _ \<Rightarrow>
                            if is_blank e
                            then do { k \<leftarrow> usub word_start (run_length is_blank backward_iter); Some (Some (k, word_end)) }
                            else Some (Some (word_start, word_end)))
                    | d # _ \<Rightarrow>
                        if is_blank d then Some (Some (word_start, word_end + run_length is_blank forward_iter))
                        else
                          (case backward_iter of
                             [] \<Rightarrow> Some (Some (word_start, word_end))
                           | e # _ \<Rightarrow>
                              if is_blank e
                              then do { k \<leftarrow> usub word_start (run_length is_blank backward_iter); Some (Some (k, word_end)) }
                              else Some (Some (word_start, word_end)))) }
     | _ \<Rightarrow> Some None)"

section \<open>Quotes\<close>

text \<open>An iterator over a line with the positions, advanced behind the first match.\<close>

fun next_quote :: "quote_type \<Rightarrow> (nat \<times> uchar) list \<Rightarrow> nat option \<times> (nat \<times> uchar) list" where
  "next_quote q [] = (None, [])"
| "next_quote q ((i, c) # cs) = (if quote_is_char q c then (Some i, cs) else next_quote q cs)"

definition rest_of_line :: "uchar list \<Rightarrow> (nat \<times> uchar) list" where
  "rest_of_line cs = List.enumerate 0 (takeWhile (\<lambda>c. c \<noteq> newline) cs)"

definition vim_a_quote :: "text_buffer \<Rightarrow> nat \<Rightarrow> quote_type \<Rightarrow> range option panics" where
  "vim_a_quote B offset quote_type =
    (case (tb_chars_at B offset, tb_chars_rev_at B offset) of
       (Some ahead, Some behind) \<Rightarrow>
         let forward_iter = rest_of_line ahead;
             backward_iter = rest_of_line behind
         in (case forward_iter of
               [] \<Rightarrow> Some None
             | (_, c) # forward_iter \<Rightarrow>
                 if \<not> quote_is_char quote_type c then
                   do { quote_behind_found_at \<leftarrow>
                          (case fst (next_quote quote_type backward_iter) of
                             None \<Rightarrow> Some None
                           | Some i \<Rightarrow> do { k \<leftarrow> usub offset i; k \<leftarrow> usub k 1; Some (Some k) });
                        let (quote_ahead, forward_iter) = next_quote quote_type forward_iter in
                        (case (quote_behind_found_at, map_option ((+) offset) quote_ahead) of
                           (Some start, Some end) \<Rightarrow> Some (Some (start, end + 1))
                         | (None, Some start) \<Rightarrow>
                             Some (map_option (\<lambda>i. (start, offset + i + 1)) (fst (next_quote quote_type forward_iter)))
                         | (_, None) \<Rightarrow> Some None) }
                 else
                   let quotes_behind = filter (\<lambda>(_, c). quote_is_char quote_type c) backward_iter in
                   if length quotes_behind mod 2 = 1 then
                     do { (i, _) \<leftarrow> nth_checked quotes_behind 0;
                          k \<leftarrow> usub offset i;
                          start \<leftarrow> usub k 1;
                          Some (Some (start, offset + 1)) }
                   else Some (map_option (\<lambda>i. (offset, offset + i + 1)) (fst (next_quote quote_type forward_iter))))
     | _ \<Rightarrow> Some None)"

definition vim_inner_quote :: "text_buffer \<Rightarrow> nat \<Rightarrow> quote_type \<Rightarrow> range option panics" where
  "vim_inner_quote B offset quote_type =
    do { r \<leftarrow> vim_a_quote B offset quote_type;
         case r of
           None \<Rightarrow> Some None
         | Some (start, end) \<Rightarrow> do { k \<leftarrow> usub end 1; Some (Some (start + 1, k)) } }"

section \<open>Blocks\<close>

definition vim_a_block :: "text_buffer \<Rightarrow> nat \<Rightarrow> bracket_type \<Rightarrow> range option panics" where
  "vim_a_block B offset bracket_type =
    (case tb_chars_at B offset of
       Some (c # _) \<Rightarrow>
         let search =
           do { e \<leftarrow> vim_find_matching_bracket B \<lparr>bc_end = Opening, bc_kind = bracket_type\<rparr> offset;
                case e of
                  None \<Rightarrow> Some None
                | Some block_end \<Rightarrow>
                   do { st \<leftarrow> vim_find_matching_bracket B \<lparr>bc_end = Closing, bc_kind = bracket_type\<rparr> block_end;
                        case st of
                          None \<Rightarrow> Some None
                        | Some block_start \<Rightarrow> Some (Some (block_start, block_end + 1)) } }
         in (case bracket_char_try_from c of
               Some bracket \<Rightarrow>
                 if bc_kind bracket = bracket_type then
                   do { r \<leftarrow> vim_find_matching_bracket B bracket offset;
                        case r of
                          None \<Rightarrow> Some None
                        | Some other_offset \<Rightarrow>
                            let (block_start, block_end) =
                                  (if other_offset > offset then (offset, other_offset) else (other_offset, offset))
                            in Some (Some (block_start, block_end + 1)) }
                 else search
             | None \<Rightarrow> search)
     | _ \<Rightarrow> Some None)"

text \<open>The position of the first newline in the whitespace that an iterator starts with.\<close>

definition newline_in_padding :: "uchar list \<Rightarrow> nat option" where
  "newline_in_padding cs =
    (let padding = takeWhile is_whitespace cs; i = run_length (\<lambda>c. c \<noteq> newline) padding
     in if i < length padding then Some i else None)"

definition vim_inner_block :: "text_buffer \<Rightarrow> nat \<Rightarrow> bracket_type \<Rightarrow> bool \<Rightarrow> range option panics" where
  "vim_inner_block B offset bracket_type preserve_leading_padding =
    do { r \<leftarrow> vim_a_block B offset bracket_type;
         case r of
           None \<Rightarrow> Some None
         | Some (start, end) \<Rightarrow>
            do { let block_start = start + 1;
                 block_end \<leftarrow> usub end 1;
                 case tb_chars_rev_at B block_end of
                   None \<Rightarrow> Some None
                 | Some behind \<Rightarrow>
                    do { block_end \<leftarrow>
                           (case newline_in_padding behind of
                              Some i \<Rightarrow> usub block_end (i + 1)
                            | None \<Rightarrow> Some block_end);
                         if preserve_leading_padding then
                           (case tb_chars_at B block_start of
                              None \<Rightarrow> Some None
                            | Some after \<Rightarrow>
                                Some (Some (case newline_in_padding after of
                                              Some i \<Rightarrow> block_start + (i + 1)
                                            | None \<Rightarrow> block_start, block_end)))
                         else Some (Some (block_start, block_end)) } } }"

section \<open>Paragraphs\<close>

definition newlines :: "uchar list \<Rightarrow> nat" where
  "newlines = run_length (\<lambda>c. c = newline)"

definition vim_inner_paragraph :: "text_buffer \<Rightarrow> nat \<Rightarrow> range option panics" where
  "vim_inner_paragraph B offset =
    (case tb_chars_at B offset of
       None \<Rightarrow> Some None
     | Some cs \<Rightarrow>
        if cs \<noteq> [] \<and> hd cs = newline then
          do { k \<leftarrow> usub offset 1;
               let paragraph_end = k + newlines cs;
               case tb_chars_rev_at B offset of
                 None \<Rightarrow> Some None
               | Some behind \<Rightarrow>
                   do { paragraph_start \<leftarrow> usub (offset + 1) (newlines behind);
                        Some (Some (paragraph_start, paragraph_end)) } }
        else
          do { let paragraph_start = (case find_previous_paragraph_start B offset of Some i \<Rightarrow> i + 1 | None \<Rightarrow> 0);
               paragraph_end \<leftarrow>
                 (case find_next_paragraph_end B offset of Some i \<Rightarrow> usub i 1 | None \<Rightarrow> Some (offset + length cs));
               Some (Some (paragraph_start, paragraph_end)) })"

definition vim_a_paragraph :: "text_buffer \<Rightarrow> nat \<Rightarrow> range option panics" where
  "vim_a_paragraph B offset =
    (case tb_chars_at B offset of
       None \<Rightarrow> Some None
     | Some cs \<Rightarrow>
        if cs \<noteq> [] \<and> hd cs = newline then
          do { paragraph_end \<leftarrow>
                 (case find_next_paragraph_end B offset of Some i \<Rightarrow> usub i 1 | None \<Rightarrow> Some (offset + length cs));
               case tb_chars_rev_at B offset of
                 None \<Rightarrow> Some None
               | Some behind \<Rightarrow>
                   do { paragraph_start \<leftarrow> usub (offset + 1) (newlines behind);
                        Some (Some (paragraph_start, paragraph_end)) } }
        else
          do { let end_found = find_next_paragraph_end B offset;
               paragraph_start \<leftarrow>
                 (case find_previous_paragraph_start B offset of
                    None \<Rightarrow> Some 0
                  | Some i \<Rightarrow>
                      if end_found \<noteq> None then Some (i + 1)
                      else usub (i + 1) (case tb_chars_rev_at B i of Some behind \<Rightarrow> newlines behind | None \<Rightarrow> 0));
               paragraph_end \<leftarrow>
                 (case end_found of
                    None \<Rightarrow> Some (offset + length cs)
                  | Some i \<Rightarrow>
                      do { k \<leftarrow> usub i 1;
                           Some (k + (case tb_chars_at B i of Some after \<Rightarrow> newlines after | None \<Rightarrow> 0)) });
               Some (Some (paragraph_start, paragraph_end)) })"

end
