(* ===== verification/Vim_Motion_Facts.thy ===== *)
theory Vim_Motion_Facts
  imports Text_Facts Vim_Objects
begin

text \<open>
  What the motions and text objects of vim do on a text: the word motions visit the words, a character
  is found at its occurrences, brackets match mutually, and the ranges of the text objects. The word
  iterators satisfy the contract \<open>visits_marks\<close>.
\<close>

section \<open>Word motions\<close>

definition at_offset :: "direction \<Rightarrow> nat \<Rightarrow> nat \<Rightarrow> nat" where
  "at_offset d base j = (case d of Forward \<Rightarrow> base + j | Backward \<Rightarrow> base - j)"

definition landing :: "direction \<Rightarrow> nat \<Rightarrow> nat \<Rightarrow> nat" where
  "landing d base j = (case d of Forward \<Rightarrow> base + j | Backward \<Rightarrow> base - j - 1)"

text \<open>The iterators after \<open>j\<close> steps over the characters \<open>cs\<close>.\<close>

definition heads_at :: "direction \<Rightarrow> word_type \<Rightarrow> nat \<Rightarrow> uchar list \<Rightarrow> nat \<Rightarrow> word_heads \<Rightarrow> bool" where
  "heads_at d w base cs j h \<longleftrightarrow> j < length cs \<and> (d = Backward \<longrightarrow> length cs \<le> base) \<and>
     h = \<lparr>wh_offset = at_offset d base j, wh_chars = drop j cs, wh_context = character_kind_from (cs ! j),
          wh_direction = d, wh_word_type = w, wh_done = False\<rparr>"

definition tails_at :: "direction \<Rightarrow> word_type \<Rightarrow> nat \<Rightarrow> uchar list \<Rightarrow> nat \<Rightarrow> word_tails \<Rightarrow> bool" where
  "tails_at d w base cs j t \<longleftrightarrow> j < length cs \<and> (d = Backward \<longrightarrow> length cs \<le> base) \<and>
     t = \<lparr>wt_offset = at_offset d base j, wt_chars = drop j cs, wt_direction = d, wt_word_type = w,
          wt_done = False\<rparr>"

definition head_mark :: "word_type \<Rightarrow> uchar list \<Rightarrow> nat \<Rightarrow> bool" where
  "head_mark w cs j \<longleftrightarrow>
     \<not> equivalent_char_kind (character_kind_from (cs ! j)) (character_kind_from (cs ! (j - 1))) w \<and>
     character_kind_from (cs ! j) \<noteq> Whitespace"

definition tail_mark :: "word_type \<Rightarrow> uchar list \<Rightarrow> nat \<Rightarrow> bool" where
  "tail_mark w cs j \<longleftrightarrow>
     \<not> equivalent_char_kind (character_kind_from (cs ! j)) (character_kind_from (cs ! Suc j)) w \<and>
     character_kind_from (cs ! j) \<noteq> Whitespace"

lemma heads_loop_at:
  assumes "heads_at d w base cs j h"
  shows "case filter (head_mark w cs) [Suc j..<length cs] of
      [] \<Rightarrow> \<exists>h'. heads_loop h = Some (None, h') \<and> wh_offset h' = at_offset d base (length cs) \<and> \<not> wh_done h'
    | k # _ \<Rightarrow> \<exists>h'. heads_loop h = Some (Some (landing d base k), h') \<and> heads_at d w base cs k h'"
  using assms
proof (induction "length cs - j" arbitrary: j h)
  case (Suc n)
  let ?h = "h\<lparr>wh_offset := at_offset d base (Suc j), wh_chars := drop (Suc j) cs\<rparr>"
  let ?h' = "?h\<lparr>wh_context := character_kind_from (cs ! Suc j)\<rparr>"
  have step: "heads_step h = Some ?h"
    using Suc.prems by (cases d) (auto simp: heads_step_def heads_at_def at_offset_def usub_def tl_drop drop_Suc)
  show ?case
  proof (cases "Suc j < length cs")
    case False
    then have "Suc j = length cs" using Suc.prems by (simp add: heads_at_def)
    then show ?thesis
      using Suc.prems step by (subst heads_loop.simps) (auto simp: heads_at_def)
  next
    case True
    have at: "heads_at d w base cs (Suc j) ?h'" using Suc.prems True by (simp add: heads_at_def)
    have loop: "heads_loop h = (if head_mark w cs (Suc j) then Some (Some (landing d base (Suc j)), ?h') else heads_loop ?h')"
      using Suc.prems True step
      by (subst heads_loop.simps)
        (auto simp: heads_at_def head_mark_def landing_def at_offset_def usub_def Cons_nth_drop_Suc [symmetric]
          Let_def split: direction.splits)
    have n: "n = length cs - Suc j" using Suc.hyps(2) by simp
    show ?thesis using Suc.hyps(1) [OF n at] at True by (auto simp: loop upt_conv_Cons split: list.splits)
  qed
qed (simp add: heads_at_def)

lemma tails_loop_at:
  assumes "tails_at d w base cs j t"
  shows "case filter (tail_mark w cs) [Suc j..<length cs - 1] of
      [] \<Rightarrow> \<exists>t'. tails_loop t = Some (None, t') \<and> tails_at d w base cs (length cs - 1) t'
    | k # _ \<Rightarrow> \<exists>t'. tails_loop t = Some (Some (landing d base k), t') \<and> tails_at d w base cs k t'"
  using assms
proof (induction "length cs - j" arbitrary: j t)
  case (Suc n)
  let ?t = "t\<lparr>wt_offset := at_offset d base (Suc j), wt_chars := drop (Suc j) cs\<rparr>"
  have step: "tails_step t = Some ?t"
    using Suc.prems by (cases d) (auto simp: tails_step_def tails_at_def at_offset_def usub_def tl_drop drop_Suc)
  show ?case
  proof (cases "Suc j < length cs")
    case False
    then have "length cs - 1 = j" using Suc.prems by (auto simp: tails_at_def)
    then show ?thesis
      using Suc.prems by (subst tails_loop.simps) (auto simp: tails_at_def)
  next
    case True
    have at: "tails_at d w base cs (Suc j) ?t" using Suc.prems True by (simp add: tails_at_def)
    have n: "n = length cs - Suc j" using Suc.hyps(2) by simp
    show ?thesis
    proof (cases "Suc (Suc j) < length cs")
      case False
      then have "length cs - 1 = Suc j" using True by simp
      then show ?thesis
        using Suc.prems True step at
        by (subst tails_loop.simps) (auto simp: tails_at_def Cons_nth_drop_Suc [symmetric])
    next
      case more: True
      have loop: "tails_loop t = (if tail_mark w cs (Suc j) then Some (Some (landing d base (Suc j)), ?t) else tails_loop ?t)"
        using Suc.prems more step
        by (subst tails_loop.simps)
          (auto simp: tails_at_def tail_mark_def tails_landing_def landing_def at_offset_def usub_def
            Cons_nth_drop_Suc [symmetric] split: direction.splits)
      show ?thesis using Suc.hyps(1) [OF n at] at more by (auto simp: loop upt_conv_Cons split: list.splits)
    qed
  qed
qed (simp add: tails_at_def)

interpretation heads: visits_marks heads_next "heads_at d w base cs" wh_done "length cs" "head_mark w cs"
  "landing d base" "at_offset d base (length cs)" for d w base cs
proof (unfold_locales, goal_cases)
  case (1 j it k ks)
  with heads_loop_at [OF 1(1)] show ?case by (auto simp: heads_next_def heads_at_def)
next
  case (2 j it)
  with heads_loop_at [OF 2(1)] show ?case by (auto simp: heads_next_def heads_at_def)
next
  case (3 it)
  then show ?case by (simp add: heads_next_def)
qed

interpretation tails: visits_marks tails_next "tails_at d w base cs" wt_done "length cs - 1" "tail_mark w cs"
  "landing d base" "landing d base (length cs - 1)" for d w base cs
proof (unfold_locales, goal_cases)
  case (1 j it k ks)
  with tails_loop_at [OF 1(1)] show ?case by (auto simp: tails_next_def tails_at_def)
next
  case (2 j it)
  with tails_loop_at [OF 2(1)] show ?case
    by (auto simp: tails_next_def tails_at_def tails_landing_def landing_def at_offset_def usub_def split: direction.splits)
next
  case (3 it)
  then show ?case by (simp add: tails_next_def)
qed

lemma items_wrapped:
  "items word_iterator_next n (Heads h) = items heads_next n h"
  "items word_iterator_next n (Tails t) = items tails_next n t"
proof -
  have "\<forall>h. items word_iterator_next n (Heads h) = items heads_next n h"
    by (induction n) (auto simp: word_iterator_next_def split: option.splits)
  moreover have "\<forall>t. items word_iterator_next n (Tails t) = items tails_next n t"
    by (induction n) (auto simp: word_iterator_next_def split: option.splits)
  ultimately show "items word_iterator_next n (Heads h) = items heads_next n h"
    "items word_iterator_next n (Tails t) = items tails_next n t" by simp_all
qed

lemma map_filter_upt:
  assumes "map f [a..<b] = xs" and "\<And>j. a \<le> j \<Longrightarrow> j < b \<Longrightarrow> P j \<longleftrightarrow> Q (f j)"
  shows "map f (filter P [a..<b]) = filter Q xs"
proof -
  have "filter P [a..<b] = filter (Q \<circ> f) [a..<b]" using assms(2) by (intro filter_cong) auto
  with assms(1) show ?thesis by (simp add: filter_map [symmetric])
qed

lemma upt_up: "map (\<lambda>j. k + j) [a..<b] = [k + a..<k + b]"
  by (induction b) auto

lemma upt_down: "b \<le> Suc k \<Longrightarrow> map (\<lambda>j. k - j) [a..<b] = rev [Suc k - b..<Suc k - a]"
proof (induction b)
  case (Suc b)
  have "[k - b..<Suc k - a] = (k - b) # [Suc k - b..<Suc k - a]" if "a \<le> b"
    using that Suc.prems by (subst upt_conv_Cons) (auto simp: Suc_diff_le)
  with Suc show ?case by auto
qed simp

definition starts_word :: "word_type \<Rightarrow> uchar list \<Rightarrow> nat \<Rightarrow> bool" where
  "starts_word w s i \<longleftrightarrow> character_kind_from (s ! i) \<noteq> Whitespace \<and>
     \<not> equivalent_char_kind (character_kind_from (s ! i)) (character_kind_from (s ! (i - 1))) w"

definition ends_word :: "word_type \<Rightarrow> uchar list \<Rightarrow> nat \<Rightarrow> bool" where
  "ends_word w s i \<longleftrightarrow> character_kind_from (s ! i) \<noteq> Whitespace \<and>
     \<not> equivalent_char_kind (character_kind_from (s ! i)) (character_kind_from (s ! Suc i)) w"

lemma landing_fun:
  "landing Forward k = (\<lambda>j. k + j)" "landing Backward (Suc k) = (\<lambda>j. k - j)"
  by (auto simp: landing_def)

lemma nth_backward: "j \<le> k \<Longrightarrow> k < length s \<Longrightarrow> rev (take (Suc k) s) ! j = s ! (k - j)"
  by (simp add: rev_nth)

lemma forward_starts_items:
  assumes k: "k < length s"
  shows "\<exists>it. vim_word_iterator_from_offset k (str_buffer s) Forward WB_Start w = Some it \<and>
    items word_iterator_next n it = Some (take n (filter (starts_word w s) [Suc k..<length s] @ [length s]))"
proof -
  obtain h where h: "word_heads_new k (str_buffer s) Forward w = Some h" "heads_at Forward w k (drop k s) 0 h"
    using k by (auto simp: word_heads_new_def str.chars_at heads_at_def at_offset_def Cons_nth_drop_Suc [symmetric])
  have "map (landing Forward k) (filter (head_mark w (drop k s)) [Suc 0..<length s - k]) =
      filter (starts_word w s) [Suc k..<length s]"
    using k upt_up [of k "Suc 0" "length s - k"]
    by (intro map_filter_upt) (auto simp: landing_fun head_mark_def starts_word_def)
  then show ?thesis
    using h heads.items_are_marks [OF h(2), of n] k
    by (simp add: vim_word_iterator_from_offset_def items_wrapped at_offset_def)
qed

lemma forward_ends_items:
  assumes k: "k < length s"
  shows "\<exists>it. vim_word_iterator_from_offset k (str_buffer s) Forward WB_End w = Some it \<and>
    items word_iterator_next n it = Some (take n (filter (ends_word w s) [Suc k..<length s - 1] @ [length s - 1]))"
proof -
  obtain t where t: "word_tails_new k (str_buffer s) Forward w = Some t" "tails_at Forward w k (drop k s) 0 t"
    using k by (auto simp: word_tails_new_def str.chars_at tails_at_def at_offset_def)
  have "map (landing Forward k) (filter (tail_mark w (drop k s)) [Suc 0..<length s - k - 1]) =
      filter (ends_word w s) [Suc k..<length s - 1]"
    using k upt_up [of k "Suc 0" "length s - k - 1"]
    by (intro map_filter_upt) (auto simp: landing_fun tail_mark_def ends_word_def)
  then show ?thesis
    using t tails.items_are_marks [OF t(2), of n] k
    by (simp add: vim_word_iterator_from_offset_def items_wrapped landing_def)
qed

lemma backward_starts_items:
  assumes k: "k < length s"
  shows "\<exists>it. vim_word_iterator_from_offset k (str_buffer s) Backward WB_Start w = Some it \<and>
    items word_iterator_next n it = Some (take n (rev (filter (starts_word w s) [1..<k]) @ [0]))"
proof -
  let ?cs = "rev (take (Suc k) s)"
  obtain t where t: "word_tails_new k (str_buffer s) Backward w = Some t" "tails_at Backward w (Suc k) ?cs 0 t"
    using k by (auto simp: word_tails_new_def str.chars_rev_at tails_at_def at_offset_def)
  have "map (landing Backward (Suc k)) (filter (tail_mark w ?cs) [Suc 0..<length ?cs - 1]) =
      filter (starts_word w s) (rev [1..<k])"
    using k upt_down [of k k "Suc 0"]
    by (intro map_filter_upt) (auto simp: landing_fun tail_mark_def starts_word_def nth_backward)
  then show ?thesis
    using t tails.items_are_marks [OF t(2), of n] k
    by (simp add: vim_word_iterator_from_offset_def items_wrapped landing_def rev_filter)
qed

lemma backward_ends_items:
  assumes k: "k < length s"
  shows "\<exists>it. vim_word_iterator_from_offset k (str_buffer s) Backward WB_End w = Some it \<and>
    items word_iterator_next n it = Some (take n (rev (filter (ends_word w s) [0..<k]) @ [0]))"
proof -
  let ?cs = "rev (take (Suc k) s)"
  obtain h where h: "word_heads_new k (str_buffer s) Backward w = Some h" "heads_at Backward w (Suc k) ?cs 0 h"
    using k by (auto simp: word_heads_new_def str.chars_rev_at heads_at_def at_offset_def take_Suc_conv_app_nth)
  have "map (landing Backward (Suc k)) (filter (head_mark w ?cs) [Suc 0..<length ?cs]) =
      filter (ends_word w s) (rev [0..<k])"
    using k upt_down [of "Suc k" k "Suc 0"]
    by (intro map_filter_upt) (auto simp: landing_fun head_mark_def ends_word_def nth_backward Suc_diff_le)
  then show ?thesis
    using h heads.items_are_marks [OF h(2), of n] k
    by (simp add: vim_word_iterator_from_offset_def items_wrapped at_offset_def rev_filter)
qed

text \<open>
  C13. The word motions visit the words: w the starts of the words beyond the cursor and then the end of the
  text, e the ends beyond it and then the last character, b the starts before it and then the first
  character, and ge the ends before it and then the first character; in order, and never panicking.
\<close>

theorem word_motions_visit_words:
  assumes "k < length s"
  shows "\<exists>w e b ge.
    vim_word_iterator_from_offset k (str_buffer s) Forward WB_Start t = Some w \<and>
    items word_iterator_next n w = Some (take n (filter (starts_word t s) [Suc k..<length s] @ [length s])) \<and>
    vim_word_iterator_from_offset k (str_buffer s) Forward WB_End t = Some e \<and>
    items word_iterator_next n e = Some (take n (filter (ends_word t s) [Suc k..<length s - 1] @ [length s - 1])) \<and>
    vim_word_iterator_from_offset k (str_buffer s) Backward WB_Start t = Some b \<and>
    items word_iterator_next n b = Some (take n (rev (filter (starts_word t s) [1..<k]) @ [0])) \<and>
    vim_word_iterator_from_offset k (str_buffer s) Backward WB_End t = Some ge \<and>
    items word_iterator_next n ge = Some (take n (rev (filter (ends_word t s) [0..<k]) @ [0]))"
  using forward_starts_items [OF assms, of t n] forward_ends_items [OF assms, of t n]
    backward_starts_items [OF assms, of t n] backward_ends_items [OF assms, of t n]
  by blast

theorem word_motions_visit_words_witness:
  "\<exists>ge. vim_word_iterator_from_offset 3 (str_buffer (chars ''a. b'')) Backward WB_End WT_Default = Some ge \<and>
    items word_iterator_next 9 ge = Some [1, 0, 0]"
proof -
  have "is_whitespace (ch CHR '' '')" "\<not> is_whitespace (ch CHR ''a'')" "\<not> is_whitespace (ch CHR ''b'')"
      "\<not> is_whitespace (ch CHR ''.'')" "is_default_word_boundary (ch CHR ''.'')" "\<not> is_default_word_boundary (ch CHR ''a'')"
    by (simp_all add: is_whitespace_def is_default_word_boundary_def DEFAULT_WORD_BOUNDARY_CHARS_def chars_def ch_def)
  then have "rev (filter (ends_word WT_Default (chars ''a. b'')) [0..<3]) = [1, 0]"
    by (simp add: ends_word_def character_kind_from_def equivalent_char_kind_def chars_def upt_rec)
  moreover have "length (chars ''a. b'') = 4" by (simp add: chars_def)
  ultimately show ?thesis
    using word_motions_visit_words [of 3 "chars ''a. b''" WT_Default 9] by auto
qed

text \<open>
  Behind the last character, where the cursor is when the text ends in a newline, the word motions go
  wrong: backward there is no iterator at all, and w lands beyond the end of the text.
\<close>

theorem word_motions_at_the_end:
  "vim_word_iterator_from_offset (length s) (str_buffer s) Backward bound t = None \<and>
   (\<exists>w. vim_word_iterator_from_offset (length s) (str_buffer s) Forward WB_Start t = Some w \<and>
      items word_iterator_next 1 w = Some [length s + 1])"
proof
  show "vim_word_iterator_from_offset (length s) (str_buffer s) Backward bound t = None"
    by (cases bound)
      (simp_all add: vim_word_iterator_from_offset_def word_heads_new_def word_tails_new_def str.chars_rev_at)
  show "\<exists>w. vim_word_iterator_from_offset (length s) (str_buffer s) Forward WB_Start t = Some w \<and>
      items word_iterator_next 1 w = Some [length s + 1]"
    by (simp add: vim_word_iterator_from_offset_def word_heads_new_def str.chars_at word_iterator_next_def heads_next_def
        heads_loop.simps heads_step_def)
qed

end
