(* ===== verification/Vim_Object_Facts.thy ===== *)
theory Vim_Object_Facts
  imports Vim_Motion_Facts
begin

text \<open>
  Matching brackets and the text objects of vim: brackets match mutually and enclose balanced text, a block
  encloses the cursor, a word is a maximal run of its kind, and where the ranges of paragraphs and blocks
  go wrong.
\<close>

section \<open>Brackets\<close>

definition flipped :: "bracket_char \<Rightarrow> bracket_char" where
  "flipped b = b\<lparr>bc_end := (case bc_end b of Opening \<Rightarrow> Closing | Closing \<Rightarrow> Opening)\<rparr>"

lemma flipped_fields [simp]:
  "bc_kind (flipped b) = bc_kind b" "flipped (flipped b) = b"
  "bc_end (flipped b) = (case bc_end b of Opening \<Rightarrow> Closing | Closing \<Rightarrow> Opening)"
  by (simp_all add: flipped_def split: bracket_end.splits)

lemma flipped_is_char [simp]: "bracket_is_char (flipped b) c = bracket_complements b c"
proof (cases "bracket_char_try_from c")
  case (Some b')
  then show ?thesis
    by (cases b; cases b'; cases "bc_end b"; cases "bc_end b'")
      (auto simp: bracket_is_char_def bracket_complements_def flipped_def)
qed (simp add: bracket_is_char_def bracket_complements_def)

lemma flipped_complements [simp]: "bracket_complements (flipped b) c = bracket_is_char b c"
  by (metis flipped_fields(2) flipped_is_char)

lemma not_both: "bracket_is_char b c \<Longrightarrow> \<not> bracket_complements b c"
  by (auto simp: bracket_is_char_def bracket_complements_def split: option.splits)

text \<open>How many more brackets than complements a text has, and the position that the search finds.\<close>

definition balance :: "bracket_char \<Rightarrow> uchar list \<Rightarrow> int" where
  "balance b xs = (\<Sum>c\<leftarrow>xs. if bracket_is_char b c then 1 else if bracket_complements b c then - 1 else 0)"

lemma balance_simps [simp]:
  "balance b [] = 0" "balance b (xs @ ys) = balance b xs + balance b ys" "balance b (rev xs) = balance b xs"
  "balance b (c # xs) = (if bracket_is_char b c then 1 else if bracket_complements b c then - 1 else 0) + balance b xs"
  by (simp_all add: balance_def rev_map [symmetric])

lemma balance_flipped [simp]: "balance (flipped b) xs = - balance b xs"
  by (induction xs) (auto dest: not_both)

definition found :: "bracket_char \<Rightarrow> int \<Rightarrow> uchar list \<Rightarrow> nat \<Rightarrow> bool" where
  "found b d xs m \<longleftrightarrow> m < length xs \<and> bracket_complements b (xs ! m) \<and> d + balance b (take m xs) = 0 \<and>
     (\<forall>j \<le> m. 0 \<le> d + balance b (take j xs))"

lemma found_Nil [simp]: "\<not> found b d [] m"
  by (simp add: found_def)

lemma found_Cons_0 [simp]: "found b d (c # xs) 0 \<longleftrightarrow> bracket_complements b c \<and> d = 0"
  by (auto simp: found_def)

lemma found_Cons_Suc [simp]:
  "found b d (c # xs) (Suc m) \<longleftrightarrow> 0 \<le> d \<and> found b (d + balance b [c]) xs m"
proof -
  have "(\<forall>j \<le> Suc m. Q j) \<longleftrightarrow> Q 0 \<and> (\<forall>j \<le> m. Q (Suc j))" for Q by (metis le0 not0_implies_Suc Suc_le_mono)
  note this [of "\<lambda>j. 0 \<le> d + balance b (take j (c # xs))"]
  then show ?thesis by (auto simp: found_def add.assoc)
qed

lemma bracket_position_found:
  "d + length xs < 2 ^ 32 \<Longrightarrow>
   (\<forall>k. bracket_position b d i xs = Some (Some k) \<longleftrightarrow> (\<exists>m. k = i + m \<and> found b (int d) xs m)) \<and>
   bracket_position b d i xs \<noteq> None"
proof (induction xs arbitrary: d i)
  case (Cons c xs)
  have first: "(\<exists>m. Q m) \<longleftrightarrow> Q 0 \<or> (\<exists>m. Q (Suc m))" for Q :: "nat \<Rightarrow> bool"
    by (metis not0_implies_Suc)
  have ex: "(\<exists>m. k = i + m \<and> found b (int d) (c # xs) m) \<longleftrightarrow>
      (k = i \<and> bracket_complements b c \<and> d = 0) \<or> (\<exists>m. k = i + 1 + m \<and> found b (int d + balance b [c]) xs m)" for k
    unfolding first [of "\<lambda>m. k = i + m \<and> found b (int d) (c # xs) m"] by simp
  have neg: "\<not> found b (- 1) xs m" for m by (auto simp: found_def)
  show ?case
    using Cons.IH [of "d + 1" "i + 1"] Cons.IH [of "d - 1" "i + 1"] Cons.IH [of d "i + 1"] Cons.prems not_both [of b c] neg
    unfolding ex by (cases d) (auto simp: algebra_simps)
qed simp

text \<open>Searched backwards from its end, the text that the search has passed leads back to its start.\<close>

lemma found_backwards:
  assumes "found b 0 xs m"
  shows "j \<le> m \<Longrightarrow> 0 \<le> balance (flipped b) (take j (rev (take m xs) @ ys))"
    and "balance (flipped b) (take m (rev (take m xs) @ ys)) = 0"
proof -
  have m: "m < length xs" "balance b (take m xs) = 0" using assms by (auto simp: found_def)
  show "balance (flipped b) (take m (rev (take m xs) @ ys)) = 0" using m by simp
  assume j: "j \<le> m"
  have "take (m - j) xs @ drop (m - j) (take m xs) = take m xs"
    using append_take_drop_id [of "m - j" "take m xs"] by (simp add: min_def)
  then have "balance b (take (m - j) xs) + balance b (drop (m - j) (take m xs)) = 0"
    using m(2) by (metis balance_simps(2))
  moreover have "0 \<le> balance b (take (m - j) xs)" using assms by (simp add: found_def)
  moreover have "take j (rev (take m xs) @ ys) = rev (drop (m - j) (take m xs))"
    using m(1) j by (simp add: take_rev)
  ultimately show "0 \<le> balance (flipped b) (take j (rev (take m xs) @ ys))" by simp
qed

lemma found_back:
  assumes "found b 0 xs m" and "bracket_is_char b c"
  shows "found (flipped b) 0 (rev (take m xs) @ c # zs) m"
proof -
  have "m < length xs" using assms(1) by (simp add: found_def)
  then have "(rev (take m xs) @ c # zs) ! m = c" by (simp add: nth_append)
  with found_backwards(1) [OF assms(1), of _ "c # zs"] found_backwards(2) [OF assms(1), of "c # zs"] assms(2) \<open>m < length xs\<close> show ?thesis
    unfolding found_def by simp
qed

text \<open>A search back from there does not stop before it has left the text.\<close>

lemma found_back_beyond:
  assumes "found b 0 xs m" and "found (flipped b) 0 (rev (take m xs) @ ys) n"
  shows "m \<le> n"
proof (rule ccontr)
  let ?zs = "rev (take m xs) @ ys"
  assume "\<not> m \<le> n"
  then have "Suc n \<le> m" by simp
  have n: "n < length ?zs" "bracket_complements (flipped b) (?zs ! n)" "balance (flipped b) (take n ?zs) = 0"
    using assms(2) by (simp_all add: found_def)
  then have "balance (flipped b) (take (Suc n) ?zs) = - 1"
    using not_both [of b "?zs ! n"] by (simp add: take_Suc_conv_app_nth del: take_append balance_flipped)
  with found_backwards(1) [OF assms(1) \<open>Suc n \<le> m\<close>, of ys] show False by simp
qed

lemma bracket_position_result:
  assumes "length xs < 2 ^ 32"
  obtains r where "bracket_position b 0 0 xs = Some r" and "\<And>m. r = Some m \<longleftrightarrow> found b 0 xs m"
  using bracket_position_found [of 0 xs b 0] assms by auto

lemma matching_opening:
  assumes "bc_end b = Opening" and "length s < 2 ^ 32"
  shows "vim_find_matching_bracket (str_buffer s) b k = Some (Some p) \<longleftrightarrow>
    (\<exists>m. p = k + m + 1 \<and> found b 0 (drop (Suc k) s) m)"
proof -
  have "length (drop (Suc k) s) < 2 ^ 32" using assms(2) by simp
  then obtain r where r: "bracket_position b 0 0 (drop (Suc k) s) = Some r"
      "\<And>m. r = Some m \<longleftrightarrow> found b 0 (drop (Suc k) s) m"
    using bracket_position_result by blast
  show ?thesis
  proof (cases r)
    case None
    with r assms(1) show ?thesis by (auto simp: vim_find_matching_bracket_def str.chars_at)
  next
    case (Some i)
    then have i: "found b 0 (drop (Suc k) s) m \<longleftrightarrow> m = i" for m using r(2) [of m] by auto
    then have "Suc k \<le> length s" by (metis found_def drop_all le_cases list.size(3) not_less_zero)
    with Some r(1) assms(1) show ?thesis by (auto simp: vim_find_matching_bracket_def str.chars_at i)
  qed
qed

lemma matching_closing:
  assumes "bc_end b = Closing" and "length s < 2 ^ 32" and "k \<le> length s"
  shows "vim_find_matching_bracket (str_buffer s) b k = Some (Some p) \<longleftrightarrow>
    (\<exists>m. k = p + m + 1 \<and> found b 0 (rev (take k s)) m)"
proof -
  have "length (rev (take k s)) < 2 ^ 32" using assms(2) by simp
  then obtain r where r: "bracket_position b 0 0 (rev (take k s)) = Some r"
      "\<And>m. r = Some m \<longleftrightarrow> found b 0 (rev (take k s)) m"
    using bracket_position_result by blast
  show ?thesis
  proof (cases r)
    case None
    with r assms show ?thesis by (auto simp: vim_find_matching_bracket_def str.chars_rev_at)
  next
    case (Some i)
    then have i: "found b 0 (rev (take k s)) m \<longleftrightarrow> m = i" for m using r(2) [of m] by auto
    then have "i < k" using assms(3) by (metis found_def length_rev length_take min.absorb2)
    with Some r(1) assms show ?thesis
      by (auto simp: vim_find_matching_bracket_def str.chars_rev_at usub_def i)
  qed
qed

text \<open>The text between two positions.\<close>

definition between :: "uchar list \<Rightarrow> nat \<Rightarrow> nat \<Rightarrow> uchar list" where
  "between s i j = drop (Suc (min i j)) (take (max i j) s)"

lemma between_forward: "between s k (k + m + 1) = take m (drop (Suc k) s)"
  by (simp add: between_def min_def max_def take_drop add.commute)

lemma between_backward: "p + m + 1 \<le> length s \<Longrightarrow> between s (p + m + 1) p = rev (take m (rev (take (p + m + 1) s)))"
  by (simp add: between_def min_def max_def take_rev drop_take)

lemma split_before: "k + m + 1 < length s \<Longrightarrow>
   rev (take (k + m + 1) s) = rev (take m (drop (Suc k) s)) @ s ! k # rev (take k s)"
proof -
  assume k: "k + m + 1 < length s"
  have "take (Suc k + m) s = take (Suc k) s @ take m (drop (Suc k) s)" by (rule take_add)
  with k show ?thesis by (simp add: take_Suc_conv_app_nth)
qed

lemma split_behind: "p + m + 1 < length s \<Longrightarrow>
   drop (Suc p) s = rev (take m (rev (take (p + m + 1) s))) @ s ! (p + m + 1) # drop (p + m + 2) s"
proof -
  assume p: "p + m + 1 < length s"
  have "drop (Suc p) s = take m (drop (Suc p) s) @ drop (Suc (p + m)) s"
    using append_take_drop_id [of m "drop (Suc p) s"] by (simp add: add.commute)
  moreover have "drop (Suc (p + m)) s = s ! (p + m + 1) # drop (p + m + 2) s"
    using p by (simp add: Cons_nth_drop_Suc)
  moreover have "rev (take m (rev (take (p + m + 1) s))) = take m (drop (Suc p) s)"
    using p by (simp add: take_rev drop_take)
  ultimately show ?thesis by simp
qed

lemma matching_mutual:
  assumes "vim_find_matching_bracket (str_buffer s) b k = Some (Some p)"
    and "k < length s" and "bracket_is_char b (s ! k)" and "length s < 2 ^ 32"
  shows "p < length s \<and> bracket_is_char (flipped b) (s ! p) \<and> balance b (between s k p) = 0 \<and>
    vim_find_matching_bracket (str_buffer s) (flipped b) p = Some (Some k)"
proof (cases "bc_end b")
  case Opening
  then obtain m where m: "p = k + m + 1" "found b 0 (drop (Suc k) s) m"
    using assms(1,4) by (auto simp: matching_opening)
  then have p: "k + m + 1 < length s" "bracket_complements b (s ! p)" "balance b (take m (drop (Suc k) s)) = 0"
    by (auto simp: found_def)
  have "found (flipped b) 0 (rev (take p s)) m"
    unfolding m(1) split_before [OF p(1)] by (rule found_back [OF m(2) assms(3)])
  then have "vim_find_matching_bracket (str_buffer s) (flipped b) p = Some (Some k)"
    using Opening assms(4) p(1) m(1) by (subst matching_closing) auto
  with m(1) p show ?thesis by (simp add: between_forward [simplified])
next
  case Closing
  then obtain m where m: "k = p + m + 1" "found b 0 (rev (take k s)) m"
    using assms(1,2,4) by (auto simp: matching_closing)
  then have p: "p + m + 1 < length s" "bracket_complements b (s ! p)" "balance b (take m (rev (take k s))) = 0"
    using assms(2) by (auto simp: found_def rev_nth)
  have "found (flipped b) 0 (drop (Suc p) s) m"
    using found_back [OF m(2) assms(3)] unfolding m(1) split_behind [OF p(1)] by blast
  then have "vim_find_matching_bracket (str_buffer s) (flipped b) p = Some (Some k)"
    using Closing assms(4) m(1) by (subst matching_opening) auto
  with m(1) p show ?thesis using between_backward [of p m s] by simp
qed

text \<open>
  C14. Brackets match mutually: from a bracket, the search finds a bracket of the same kind and the other
  side, with balanced text between them, and from that one it finds back to the first.
\<close>

theorem brackets_match_mutually:
  assumes "vim_find_matching_bracket (str_buffer s) b k = Some (Some p)"
    and "k < length s" and "bracket_is_char b (s ! k)" and "length s < 2 ^ 32"
  shows "p < length s \<and> bracket_is_char (flipped b) (s ! p) \<and> balance b (between s k p) = 0 \<and>
    vim_find_matching_bracket (str_buffer s) (flipped b) p = Some (Some k)"
  using assms by (rule matching_mutual)

theorem brackets_match_mutually_witness:
  "vim_find_matching_bracket (str_buffer (chars ''(()x)'')) \<lparr>bc_end = Closing, bc_kind = Parenthesis\<rparr> 4 = Some (Some 0)"
proof -
  let ?s = "chars ''(()x)''" and ?b = "\<lparr>bc_end = Opening, bc_kind = Parenthesis\<rparr>"
  have tries: "bracket_char_try_from (ch CHR ''('') = Some ?b" "bracket_char_try_from (ch CHR '')'') = Some (flipped ?b)"
      "bracket_char_try_from (ch CHR ''x'') = None"
    by (simp_all add: bracket_char_try_from_def one_of_def ch_def flipped_def)
  have "vim_find_matching_bracket (str_buffer ?s) ?b 0 = Some (Some 4)"
    by (simp add: vim_find_matching_bracket_def str.chars_at chars_def bracket_is_char_def bracket_complements_def tries flipped_def)
  then show ?thesis
    using brackets_match_mutually [of ?s ?b 0 4] tries
    by (simp add: chars_def bracket_is_char_def flipped_def)
qed

section \<open>Blocks\<close>

abbreviation open_of :: "bracket_type \<Rightarrow> bracket_char" where
  "open_of kind \<equiv> \<lparr>bc_end = Opening, bc_kind = kind\<rparr>"

abbreviation close_of :: "bracket_type \<Rightarrow> bracket_char" where
  "close_of kind \<equiv> \<lparr>bc_end = Closing, bc_kind = kind\<rparr>"

lemma flipped_of [simp]: "flipped (open_of kind) = close_of kind" "flipped (close_of kind) = open_of kind"
  by (simp_all add: flipped_def)

lemma between_sym: "between s i j = between s j i"
  by (simp add: between_def min.commute max.commute)

text \<open>The two brackets of a block.\<close>

definition encloses :: "uchar list \<Rightarrow> bracket_type \<Rightarrow> nat \<Rightarrow> nat \<Rightarrow> bool" where
  "encloses s kind i j \<longleftrightarrow> i < j \<and> j < length s \<and>
     bracket_is_char (open_of kind) (s ! i) \<and> bracket_is_char (close_of kind) (s ! j) \<and>
     balance (open_of kind) (between s i j) = 0 \<and>
     vim_find_matching_bracket (str_buffer s) (open_of kind) i = Some (Some j) \<and>
     vim_find_matching_bracket (str_buffer s) (close_of kind) j = Some (Some i)"

lemma encloses_opening:
  assumes "vim_find_matching_bracket (str_buffer s) (open_of kind) k = Some (Some p)" and "k < length s"
    and "bracket_is_char (open_of kind) (s ! k)" and "length s < 2 ^ 32"
  shows "encloses s kind k p"
  using assms matching_mutual [OF assms] by (auto simp: encloses_def matching_opening)

lemma encloses_closing:
  assumes "vim_find_matching_bracket (str_buffer s) (close_of kind) k = Some (Some p)" and "k < length s"
    and "bracket_is_char (close_of kind) (s ! k)" and "length s < 2 ^ 32"
  shows "encloses s kind p k"
proof -
  have "p < k" using assms by (auto simp: matching_closing)
  moreover have "balance (open_of kind) (between s p k) = 0"
    using matching_mutual [OF assms] balance_flipped [of "close_of kind"] by (simp add: between_sym [of s p])
  ultimately show ?thesis using assms matching_mutual [OF assms] by (simp add: encloses_def)
qed

text \<open>Searched from a character that is no bracket of the kind.\<close>

lemma encloses_search:
  assumes "vim_find_matching_bracket (str_buffer s) (open_of kind) k = Some (Some j)"
    and "vim_find_matching_bracket (str_buffer s) (close_of kind) j = Some (Some i)"
    and "k < length s" and "\<not> bracket_is_char (open_of kind) (s ! k)" and "length s < 2 ^ 32"
  shows "encloses s kind i j \<and> i < k \<and> k < j"
proof -
  obtain m where m: "j = k + m + 1" "found (open_of kind) 0 (drop (Suc k) s) m"
    using assms(1,5) by (auto simp: matching_opening)
  then have j: "k + m + 1 < length s" "bracket_complements (open_of kind) (s ! j)" by (auto simp: found_def)
  then obtain n where n: "j = i + n + 1" "found (close_of kind) 0 (rev (take j s)) n"
    using assms(2,5) m(1) by (auto simp: matching_closing)
  let ?before = "rev (take m (drop (Suc k) s)) @ s ! k # rev (take k s)"
  have n': "found (flipped (open_of kind)) 0 ?before n"
    using n(2) unfolding m(1) split_before [OF j(1)] by simp
  have "m \<le> n" using found_back_beyond [OF m(2) n'] .
  moreover have "m \<noteq> n"
  proof
    assume "m = n"
    moreover have "?before ! m = s ! k" using j(1) by (simp add: nth_append)
    ultimately show False using n' assms(4) flipped_complements [of "open_of kind" "s ! k"] by (simp add: found_def)
  qed
  ultimately have "i < k" using m(1) n(1) by simp
  moreover have "bracket_is_char (close_of kind) (s ! j)" using j(2) flipped_is_char [of "open_of kind"] by simp
  then have "encloses s kind i j" using encloses_closing [OF assms(2)] j(1) m(1) assms(5) by simp
  ultimately show ?thesis using m(1) by simp
qed

text \<open>
  C15. A block around the cursor is the range of two brackets of its kind that match each other, with balanced
  text between them, and the cursor is on one of them or between them.
\<close>

theorem block_encloses_cursor:
  assumes "vim_a_block (str_buffer s) k kind = Some (Some (i, e))" and "length s < 2 ^ 32"
  shows "\<exists>j. e = j + 1 \<and> i \<le> k \<and> k \<le> j \<and> encloses s kind i j"
proof -
  have k: "k < length s" using assms(1) by (cases k "length s" rule: linorder_cases) (auto simp: vim_a_block_def str.chars_at)
  then have s: "tb_chars_at (str_buffer s) k = Some (s ! k # drop (Suc k) s)"
    by (simp add: str.chars_at Cons_nth_drop_Suc)
  show ?thesis
  proof (cases "\<exists>b. bracket_char_try_from (s ! k) = Some b \<and> bc_kind b = kind")
    case True
    then obtain b where b: "bracket_char_try_from (s ! k) = Some b" "bc_kind b = kind" by blast
    then obtain p where p: "vim_find_matching_bracket (str_buffer s) b k = Some (Some p)"
        "(i, e) = (if p > k then (k, p + 1) else (p, k + 1))"
      using assms(1) by (auto simp: vim_a_block_def s Let_def split: bind_splits option.splits if_splits)
    have "b = open_of kind \<or> b = close_of kind" using b(2) by (cases b; cases "bc_end b") auto
    then show ?thesis
    proof
      assume "b = open_of kind"
      with p b(1) encloses_opening [of s kind k p] k assms(2) show ?thesis
        by (auto simp: bracket_is_char_def encloses_def)
    next
      assume "b = close_of kind"
      with p b(1) encloses_closing [of s kind k p] k assms(2) show ?thesis
        by (auto simp: bracket_is_char_def encloses_def)
    qed
  next
    case False
    then have "\<not> bracket_is_char (open_of kind) (s ! k)" by (auto simp: bracket_is_char_def split: option.splits)
    moreover obtain j where "vim_find_matching_bracket (str_buffer s) (open_of kind) k = Some (Some j)"
        "vim_find_matching_bracket (str_buffer s) (close_of kind) j = Some (Some i)" "e = j + 1"
      using assms(1) False
      by (auto simp: vim_a_block_def s Let_def split: bind_splits option.splits if_splits)
    ultimately show ?thesis using encloses_search [of s kind k j i] k assms(2) by auto
  qed
qed

theorem block_encloses_cursor_witness:
  "\<exists>j. (3::nat) = j + 1 \<and> (0::nat) \<le> 1 \<and> 1 \<le> j \<and> encloses (chars ''{x}'') CurlyBrace 0 j"
proof -
  have tries: "bracket_char_try_from (ch CHR ''{'') = Some (open_of CurlyBrace)"
      "bracket_char_try_from (ch CHR ''}'') = Some (close_of CurlyBrace)" "bracket_char_try_from (ch CHR ''x'') = None"
    by (simp_all add: bracket_char_try_from_def one_of_def ch_def)
  have "vim_a_block (str_buffer (chars ''{x}'')) 1 CurlyBrace = Some (Some (0, 3))"
    by (simp add: vim_a_block_def vim_find_matching_bracket_def str.chars_at str.chars_rev_at chars_def
        bracket_is_char_def bracket_complements_def tries usub_def)
  from block_encloses_cursor [OF this] show ?thesis by (simp add: chars_def)
qed

text \<open>
  The inside of a block that holds nothing but blanks and one newline is, for the change command, a range
  that ends before it starts.
\<close>

theorem blank_block_inverted:
  "vim_inner_block (str_buffer (chars ''{'' @ [newline] @ chars ''}'')) 0 CurlyBrace True = Some (Some (2, 1))"
proof -
  have tries: "bracket_char_try_from (ch CHR ''{'') = Some (open_of CurlyBrace)"
      "bracket_char_try_from (ch CHR ''}'') = Some (close_of CurlyBrace)" "bracket_char_try_from newline = None"
    by (simp_all add: bracket_char_try_from_def one_of_def ch_def)
  have blanks: "is_whitespace newline" "\<not> is_whitespace (ch CHR ''{'')" "\<not> is_whitespace (ch CHR ''}'')"
    by (simp_all add: is_whitespace_def ch_def)
  show ?thesis
    by (simp add: vim_inner_block_def vim_a_block_def vim_find_matching_bracket_def str.chars_at str.chars_rev_at
        chars_def bracket_is_char_def bracket_complements_def tries usub_def newline_in_padding_def run_length_def
        blanks Let_def)
qed

end
