(* ===== verification/Vim_Text_Facts.thy ===== *)
theory Vim_Text_Facts
  imports Vim_Object_Facts
begin

text \<open>
  Finding characters on a line, paragraphs, words and quotes: each motion and text object against a
  description of the positions in the text, and the offsets at which paragraphs go wrong.
\<close>

section \<open>Finding a character\<close>

lemma enumerate_nth: "List.enumerate 0 cs = map (\<lambda>i. (i, cs ! i)) [0..<length cs]"
  by (rule nth_equalityI) (simp_all add: nth_enumerate_eq)

text \<open>The number \<open>n\<close> of a list, if it has that many.\<close>

definition nth_of :: "nat list \<Rightarrow> nat \<Rightarrow> nat option" where
  "nth_of xs n = (if n < length xs then Some (xs ! n) else None)"

lemma nth_match_positions: "nth_match c n cs = nth_of (filter (\<lambda>i. cs ! i = c) [0..<length cs]) n"
proof -
  have "filter (\<lambda>(_, x). x = c) (List.enumerate 0 cs) = map (\<lambda>i. (i, cs ! i)) (filter (\<lambda>i. cs ! i = c) [0..<length cs])"
    by (simp add: enumerate_nth filter_map comp_def)
  then show ?thesis by (simp add: nth_match_def nth_of_def)
qed

lemma nth_of_map: "nth_of (map f xs) n = map_option f (nth_of xs n)"
  by (simp add: nth_of_def)

text \<open>The occurrences of a character that a search visits, in its order.\<close>

definition occurrences :: "direction \<Rightarrow> nat \<Rightarrow> uchar \<Rightarrow> uchar list \<Rightarrow> nat list" where
  "occurrences d start c line =
    (case d of
       Forward \<Rightarrow> filter (\<lambda>i. line ! i = c) [start..<length line]
     | Backward \<Rightarrow> if start \<le> length line then filter (\<lambda>i. line ! i = c) (rev [0..<start]) else [])"

lemma found_forward:
  "Option.bind (tb_chars_at (str_buffer line) start) (nth_match c n) =
     map_option (\<lambda>p. p - start) (nth_of (occurrences Forward start c line) n)"
proof (cases "start \<le> length line")
  case True
  have "map (\<lambda>j. start + j) (filter (\<lambda>i. drop start line ! i = c) [0..<length line - start]) =
      filter (\<lambda>i. line ! i = c) [start..<length line]"
    using True upt_up [of start 0 "length line - start"] by (intro map_filter_upt) auto
  then have "occurrences Forward start c line =
      map (\<lambda>j. start + j) (filter (\<lambda>i. drop start line ! i = c) [0..<length line - start])"
    by (simp add: occurrences_def)
  with True show ?thesis
    by (simp add: str.chars_at nth_match_positions nth_of_map option.map_comp option.map_ident comp_def)
qed (simp add: str.chars_at occurrences_def nth_of_def)

lemma found_backward:
  assumes "0 < start"
  shows "Option.bind (tb_chars_rev_at (str_buffer line) start) (nth_match c n) =
     map_option (\<lambda>p. start - 1 - p) (nth_of (occurrences Backward start c line) n)"
proof (cases "start \<le> length line")
  case True
  have "map (\<lambda>j. start - 1 - j) (filter (\<lambda>i. rev (take start line) ! i = c) [0..<start]) =
      filter (\<lambda>i. line ! i = c) (rev [0..<start])"
    using True assms upt_down [of start "start - 1" 0] by (intro map_filter_upt) (auto simp: rev_nth)
  then have "occurrences Backward start c line =
      map (\<lambda>j. start - 1 - j) (filter (\<lambda>i. rev (take start line) ! i = c) [0..<start])"
    using True by (simp add: occurrences_def)
  moreover have "map (\<lambda>i. start - 1 - (start - 1 - i)) (filter (\<lambda>i. rev (take start line) ! i = c) [0..<start]) =
      filter (\<lambda>i. rev (take start line) ! i = c) [0..<start]"
    by (rule map_idI) auto
  ultimately show ?thesis
    using True
    by (simp add: str.chars_rev_at nth_match_positions nth_of_map [symmetric] comp_def del: upt_Suc)
qed (simp add: str.chars_rev_at occurrences_def nth_of_def)

lemma nth_of_set: "nth_of xs n = Some p \<Longrightarrow> p \<in> set xs"
  by (auto simp: nth_of_def split: if_splits)

text \<open>
  C16. The motions f, F, t and T and their repetitions land at, or next to, the wanted occurrence of the
  character on the line, counted from where the search starts, and fail exactly when there are too
  few; a forward motion that extends a selection includes the character it lands on.
\<close>

theorem find_char_lands:
  "vim_find_char_on_line line column m count keep =
    map_option (\<lambda>p.
      case fc_direction m of
        Forward \<Rightarrow> (case fc_destination m of AtChar \<Rightarrow> p | BeforeChar \<Rightarrow> p - 1) + (if keep then 1 else 0)
      | Backward \<Rightarrow> (case fc_destination m of AtChar \<Rightarrow> p | BeforeChar \<Rightarrow> p + 1))
    (nth_of (occurrences (fc_direction m) (search_start_column column m) (fc_c m) line) (count - 1))"
proof (cases "fc_direction m")
  case Forward
  have "p \<ge> search_start_column column m"
    if "nth_of (occurrences Forward (search_start_column column m) (fc_c m) line) (count - 1) = Some p" for p
    using nth_of_set [OF that] by (simp add: occurrences_def)
  with Forward show ?thesis
    unfolding vim_find_char_on_line_def
    by (auto simp: found_forward Let_def search_start_column_def split: find_char_destination.splits bool.splits option.splits)
next
  case Backward
  show ?thesis
  proof (cases "search_start_column column m")
    case 0
    with Backward show ?thesis
      unfolding vim_find_char_on_line_def
      by (simp add: str.chars_rev_at nth_match_positions occurrences_def nth_of_def)
  next
    case (Suc start)
    have "p < search_start_column column m"
      if "nth_of (occurrences Backward (search_start_column column m) (fc_c m) line) (count - 1) = Some p" for p
      using nth_of_set [OF that] by (simp add: occurrences_def split: if_splits)
    with Backward Suc show ?thesis
      unfolding vim_find_char_on_line_def
      by (auto simp: found_backward Let_def search_start_column_def split: find_char_destination.splits bool.splits option.splits)
  qed
qed

section \<open>Paragraphs\<close>

text \<open>A second newline in a row, with a newline before the text or not.\<close>

definition doubled :: "bool \<Rightarrow> uchar list \<Rightarrow> nat \<Rightarrow> bool" where
  "doubled b cs i \<longleftrightarrow> i < length cs \<and> cs ! i = newline \<and> (if i = 0 then b else cs ! (i - 1) = newline)"

lemma doubled_simps [simp]:
  "\<not> doubled b [] i" "doubled b (c # cs) 0 \<longleftrightarrow> c = newline \<and> b"
  "doubled b (c # cs) (Suc i) \<longleftrightarrow> doubled (c = newline) cs i"
  by (auto simp: doubled_def nth_Cons' split: nat.splits)

lemma two_newlines_first:
  "two_newlines b (List.enumerate n cs) = Some p \<longleftrightarrow>
    (\<exists>i. p = n + i \<and> doubled b cs i \<and> (\<forall>j < i. \<not> doubled b cs j))"
proof (induction cs arbitrary: b n)
  case (Cons c cs)
  have first: "(\<exists>m. Q m) \<longleftrightarrow> Q 0 \<or> (\<exists>m. Q (Suc m))" for Q :: "nat \<Rightarrow> bool"
    by (metis not0_implies_Suc)
  show ?case
    unfolding first [of "\<lambda>i. p = n + i \<and> doubled b (c # cs) i \<and> (\<forall>j < i. \<not> doubled b (c # cs) j)"]
    by (auto simp: Cons All_less_Suc2)
qed simp

lemma dropWhile_enumerate:
  "dropWhile (\<lambda>(_, c). P c) (List.enumerate n cs) =
     List.enumerate (n + length (takeWhile P cs)) (drop (length (takeWhile P cs)) cs)"
  by (induction cs arbitrary: n) auto

text \<open>A blank line behind something that is not a newline.\<close>

definition gap :: "uchar list \<Rightarrow> nat \<Rightarrow> bool" where
  "gap cs p \<longleftrightarrow> 0 < p \<and> p < length cs \<and> cs ! p = newline \<and> cs ! (p - 1) = newline \<and> (\<exists>q < p. cs ! q \<noteq> newline)"

lemma gap_doubled:
  defines "k \<equiv> \<lambda>cs. length (takeWhile (\<lambda>c. c = newline) cs)"
  shows "gap cs p \<longleftrightarrow> k cs \<le> p \<and> doubled False (drop (k cs) cs) (p - k cs)"
proof (cases "k cs < p")
  case True
  show ?thesis
  proof (cases "p < length cs")
    case len: True
    then have "cs ! k cs \<noteq> newline" using True unfolding k_def by (intro nth_length_takeWhile) simp
    with True len show ?thesis by (auto simp: gap_def doubled_def)
  qed (use True in \<open>auto simp: gap_def doubled_def\<close>)
next
  case False
  have "q < k cs \<Longrightarrow> cs ! q = newline" for q
    unfolding k_def using nth_mem [of q "takeWhile (\<lambda>c. c = newline) cs"] set_takeWhileD takeWhile_nth by metis
  with False show ?thesis by (auto simp: gap_def doubled_def)
qed

lemma paragraph_scan_first:
  "paragraph_scan cs = Some p \<longleftrightarrow> gap cs p \<and> (\<forall>p' < p. \<not> gap cs p')"
proof -
  let ?k = "length (takeWhile (\<lambda>c. c = newline) cs)"
  have "paragraph_scan cs = Some p \<longleftrightarrow>
      (\<exists>i. p = ?k + i \<and> doubled False (drop ?k cs) i \<and> (\<forall>j < i. \<not> doubled False (drop ?k cs) j))"
    by (simp add: paragraph_scan_def dropWhile_enumerate two_newlines_first)
  also have "\<dots> \<longleftrightarrow> gap cs p \<and> (\<forall>p' < p. \<not> gap cs p')"
    unfolding gap_doubled
    by (auto simp: nat_le_iff_add) (metis add_less_cancel_left add_diff_cancel_left')
  finally show ?thesis .
qed

text \<open>Blank lines behind and before some content, seen from a position in the text.\<close>

definition blank_line_behind :: "uchar list \<Rightarrow> nat \<Rightarrow> nat \<Rightarrow> bool" where
  "blank_line_behind s k p \<longleftrightarrow> k < p \<and> p < length s \<and> s ! p = newline \<and> s ! (p - 1) = newline \<and>
     (\<exists>q. k \<le> q \<and> q < p \<and> s ! q \<noteq> newline)"

definition blank_line_ahead :: "uchar list \<Rightarrow> nat \<Rightarrow> nat \<Rightarrow> bool" where
  "blank_line_ahead s k p \<longleftrightarrow> 0 < p \<and> p \<le> k \<and> s ! p = newline \<and> s ! (p - 1) = newline \<and>
     (\<exists>q. p \<le> q \<and> q \<le> k \<and> s ! q \<noteq> newline)"

lemma gap_forward: "k \<le> length s \<Longrightarrow> gap (drop k s) i \<longleftrightarrow> blank_line_behind s k (k + i)"
  by (auto simp: gap_def blank_line_behind_def) (metis le_add1 nat_add_left_cancel_less, metis le_add_diff_inverse nat_add_left_cancel_less)

lemma gap_backward:
  assumes "k < length s" and "i \<le> k"
  shows "gap (rev (take (Suc k) s)) i \<longleftrightarrow> 0 < i \<and> blank_line_ahead s k (k + 1 - i)"
proof -
  have nth: "j \<le> k \<Longrightarrow> rev (take (Suc k) s) ! j = s ! (k - j)" for j using nth_backward assms(1) by blast
  have "(\<exists>q < i. rev (take (Suc k) s) ! q \<noteq> newline) \<longleftrightarrow> (\<exists>q. k + 1 - i \<le> q \<and> q \<le> k \<and> s ! q \<noteq> newline)" (is "?l = ?r")
  proof
    assume ?l
    then obtain q where "q < i" "rev (take (Suc k) s) ! q \<noteq> newline" by blast
    with nth [of q] assms(2) show ?r by (intro exI [of _ "k - q"]) auto
  next
    assume ?r
    then obtain q where "k + 1 - i \<le> q" "q \<le> k" "s ! q \<noteq> newline" by blast
    with nth [of "k - q"] show ?l by (intro exI [of _ "k - q"]) auto
  qed
  with assms nth [of i] nth [of "i - 1"] show ?thesis
    by (auto simp: gap_def blank_line_ahead_def Suc_diff_le)
qed

lemma next_paragraph:
  assumes "k < length s"
  shows "find_next_paragraph_end (str_buffer s) k = Some p \<longleftrightarrow>
    blank_line_behind s k p \<and> \<not> (\<exists>p' < p. blank_line_behind s k p')"
proof -
  have gap: "gap (drop k s) i \<longleftrightarrow> blank_line_behind s k (k + i)" for i
    using assms by (simp add: gap_forward)
  have "find_next_paragraph_end (str_buffer s) k = Some p \<longleftrightarrow> (\<exists>i. paragraph_scan (drop k s) = Some i \<and> p = k + i)"
    using assms by (auto simp: find_next_paragraph_end_def str.chars_at bind_eq_Some_conv)
  also have "\<dots> \<longleftrightarrow> (\<exists>i. p = k + i \<and> blank_line_behind s k (k + i) \<and> (\<forall>j < i. \<not> blank_line_behind s k (k + j)))"
    unfolding paragraph_scan_first gap by blast
  also have "\<dots> \<longleftrightarrow> blank_line_behind s k p \<and> \<not> (\<exists>p' < p. blank_line_behind s k p')" (is "?l = ?r")
  proof
    assume ?l
    then obtain i where i: "p = k + i" "blank_line_behind s k p" "\<And>j. j < i \<Longrightarrow> \<not> blank_line_behind s k (k + j)"
      by blast
    have "\<not> blank_line_behind s k p'" if "p' < p" for p'
    proof
      assume p': "blank_line_behind s k p'"
      then have "k < p'" by (simp add: blank_line_behind_def)
      then have "p' - k < i" using that i(1) by linarith
      with i(3) [of "p' - k"] p' \<open>k < p'\<close> show False by simp
    qed
    with i(2) show ?r by blast
  next
    assume r: ?r
    then have "k < p" by (simp add: blank_line_behind_def)
    with r show ?l by (intro exI [of _ "p - k"]) auto
  qed
  finally show ?thesis .
qed

lemma previous_paragraph:
  assumes "k < length s"
  shows "find_previous_paragraph_start (str_buffer s) k = Some p \<longleftrightarrow>
    blank_line_ahead s k p \<and> \<not> (\<exists>p' > p. blank_line_ahead s k p')"
proof -
  let ?cs = "rev (take (Suc k) s)"
  have gap: "gap ?cs i \<longleftrightarrow> 0 < i \<and> i \<le> k \<and> blank_line_ahead s k (k + 1 - i)" for i
  proof (cases "i \<le> k")
    case True
    then show ?thesis using assms by (simp add: gap_backward)
  qed (use assms in \<open>auto simp: gap_def\<close>)
  have "find_previous_paragraph_start (str_buffer s) k = Some p \<longleftrightarrow> (\<exists>i. paragraph_scan ?cs = Some i \<and> p = k + 1 - i)"
    using assms by (auto simp: find_previous_paragraph_start_def str.chars_rev_at bind_eq_Some_conv)
  also have "\<dots> \<longleftrightarrow> blank_line_ahead s k p \<and> \<not> (\<exists>p' > p. blank_line_ahead s k p')" (is "?l = ?r")
  proof
    assume ?l
    then obtain i where i: "p = k + 1 - i" "gap ?cs i" "\<And>j. j < i \<Longrightarrow> \<not> gap ?cs j"
      unfolding paragraph_scan_first by blast
    have "\<not> blank_line_ahead s k p'" if "p < p'" for p'
    proof
      assume p': "blank_line_ahead s k p'"
      then have "0 < p'" "p' \<le> k" by (simp_all add: blank_line_ahead_def)
      then have "k + 1 - (k + 1 - p') = p'" "k + 1 - p' < i" using that i(1) by simp_all
      with i(3) [of "k + 1 - p'"] p' \<open>0 < p'\<close> \<open>p' \<le> k\<close> show False unfolding gap by simp
    qed
    with i(1,2) show ?r unfolding gap by blast
  next
    assume r: ?r
    then have p: "0 < p" "p \<le> k" by (simp_all add: blank_line_ahead_def)
    then have "gap ?cs (k + 1 - p)" using r unfolding gap by simp
    moreover have "\<not> gap ?cs j" if "j < k + 1 - p" for j
    proof
      assume "gap ?cs j"
      then have "blank_line_ahead s k (k + 1 - j)" unfolding gap by simp
      moreover have "p < k + 1 - j" using that p by simp
      ultimately show False using r by blast
    qed
    ultimately show ?l unfolding paragraph_scan_first using p by (intro exI [of _ "k + 1 - p"]) simp
  qed
  finally show ?thesis .
qed

text \<open>
  C17. The motion to the next paragraph goes to the first blank line behind some content, and the one to the
  previous paragraph to the last blank line before some content; there is none exactly when there
  is no such line.
\<close>

theorem paragraph_motions:
  assumes "k < length s"
  shows "(find_next_paragraph_end (str_buffer s) k = Some p \<longleftrightarrow>
      blank_line_behind s k p \<and> \<not> (\<exists>p' < p. blank_line_behind s k p')) \<and>
    (find_previous_paragraph_start (str_buffer s) k = Some p \<longleftrightarrow>
      blank_line_ahead s k p \<and> \<not> (\<exists>p' > p. blank_line_ahead s k p'))"
  using next_paragraph [OF assms] previous_paragraph [OF assms] by blast

theorem paragraph_motions_witness:
  "find_previous_paragraph_start (str_buffer [65, newline, newline, 66]) 3 = Some 2"
proof -
  have "blank_line_ahead [65, newline, newline, 66] 3 2"
    unfolding blank_line_ahead_def by (intro conjI exI [of _ 3]) simp_all
  moreover have "\<not> (\<exists>p' > 2. blank_line_ahead [65, newline, newline, 66] 3 p')"
    by (auto simp: blank_line_ahead_def numeral_3_eq_3 less_Suc_eq le_Suc_eq)
  ultimately show ?thesis
    using paragraph_motions [of 3 "[65, newline, newline, 66]" 2] by simp
qed

text \<open>
  Behind the last character the previous paragraph is never found, so that the motion back goes to the
  start of the text, and the paragraph there is the whole text, whatever blank lines it has.
\<close>

theorem paragraph_at_the_end:
  "find_previous_paragraph_start (str_buffer s) (length s) = None \<and>
   vim_inner_paragraph (str_buffer s) (length s) = Some (Some (0, length s)) \<and>
   vim_a_paragraph (str_buffer s) (length s) = Some (Some (0, length s))"
proof -
  have "find_previous_paragraph_start (str_buffer s) (length s) = None"
    by (simp add: find_previous_paragraph_start_def str.chars_rev_at)
  moreover have "find_next_paragraph_end (str_buffer s) (length s) = None"
    by (simp add: find_next_paragraph_end_def str.chars_at paragraph_scan_def)
  ultimately show ?thesis by (simp add: vim_inner_paragraph_def vim_a_paragraph_def str.chars_at)
qed

lemma newlines_le: "newlines cs \<le> length cs"
  by (simp add: newlines_def run_length_def length_takeWhile_le)

lemma next_end_pos: "find_next_paragraph_end B k = Some p \<Longrightarrow> 0 < p"
  by (auto simp: find_next_paragraph_end_def bind_eq_Some_conv paragraph_scan_first gap_def)

text \<open>
  C40. The paragraph around the cursor panics exactly on a newline at the start of the text, where one is
  subtracted from the offset 0; the outer paragraph never panics.
\<close>

theorem inner_paragraph_panics_iff:
  "(vim_inner_paragraph (str_buffer s) k = None \<longleftrightarrow> k = 0 \<and> s \<noteq> [] \<and> hd s = newline) \<and>
   vim_a_paragraph (str_buffer s) k \<noteq> None"
proof
  have le: "newlines (rev (take k s)) \<le> k" "newlines (rev (take k s)) \<le> Suc k" for k
    using newlines_le [of "rev (take k s)"] by auto
  show "vim_inner_paragraph (str_buffer s) k = None \<longleftrightarrow> k = 0 \<and> s \<noteq> [] \<and> hd s = newline"
    using le [of k] next_end_pos [of "str_buffer s" k]
    by (cases k) (auto simp: vim_inner_paragraph_def str.chars_at str.chars_rev_at usub_def split: option.splits)
  show "vim_a_paragraph (str_buffer s) k \<noteq> None"
    using le next_end_pos [of "str_buffer s" k]
    by (auto simp: vim_a_paragraph_def str.chars_at str.chars_rev_at usub_def Let_def split: option.splits if_splits)
qed

section \<open>Words\<close>

lemma of_kind_self: "of_kind (character_kind_from c) w c"
  by (simp add: of_kind_def equivalent_char_kind_def split: word_type.splits)

text \<open>A maximal run of characters of the kind of the one at a position.\<close>

definition word_run :: "word_type \<Rightarrow> uchar list \<Rightarrow> nat \<Rightarrow> nat \<Rightarrow> nat \<Rightarrow> bool" where
  "word_run w s k i e \<longleftrightarrow>
     (let same = of_kind (character_kind_from (s ! k)) w in
      i \<le> k \<and> k < e \<and> e \<le> length s \<and> (\<forall>j \<in> {i..<e}. same (s ! j)) \<and>
      (0 < i \<longrightarrow> \<not> same (s ! (i - 1))) \<and> (e < length s \<longrightarrow> \<not> same (s ! e)))"

lemma run_length_nth:
  "run_length P cs \<le> length cs" "j < run_length P cs \<Longrightarrow> P (cs ! j)"
  "run_length P cs < length cs \<Longrightarrow> \<not> P (cs ! run_length P cs)"
  using set_takeWhileD [of _ P cs] nth_mem [of j "takeWhile P cs"] takeWhile_nth [of j P cs]
  by (auto simp: run_length_def length_takeWhile_le nth_length_takeWhile)

lemma inner_word_run:
  assumes "k < length s"
  obtains i e where "vim_inner_word (str_buffer s) k w = Some (Some (i, e))" and "word_run w s k i e"
    and "i = k - run_length (of_kind (character_kind_from (s ! k)) w) (rev (take k s))"
    and "e = k + run_length (of_kind (character_kind_from (s ! k)) w) (drop k s)"
proof -
  let ?same = "of_kind (character_kind_from (s ! k)) w"
  let ?l = "run_length ?same (rev (take k s))" and ?r = "run_length ?same (drop k s)"
  have cs: "drop k s = s ! k # drop (Suc k) s" using assms by (simp add: Cons_nth_drop_Suc)
  have l: "?l \<le> k" using run_length_nth(1) [of ?same "rev (take k s)"] assms by simp
  have r: "?r \<le> length s - k" using run_length_nth(1) [of ?same "drop k s"] by simp
  have pos: "0 < ?r" unfolding cs by (simp add: run_length_def of_kind_self)
  have "vim_inner_word (str_buffer s) k w = Some (Some (k - ?l, k + ?r))"
    using assms l by (simp add: vim_inner_word_def str.chars_at str.chars_rev_at cs usub_def Let_def)
  moreover have "?same (s ! j)" if "k - ?l \<le> j" "j < k + ?r" for j
  proof (cases "j < k")
    case True
    then show ?thesis
      using run_length_nth(2) [of "k - 1 - j" ?same "rev (take k s)"] that l assms by (simp add: rev_nth)
  next
    case False
    then show ?thesis using run_length_nth(2) [of "j - k" ?same "drop k s"] that assms by simp
  qed
  moreover have "\<not> ?same (s ! (k - ?l - 1))" if "0 < k - ?l"
    using run_length_nth(3) [of ?same "rev (take k s)"] that assms by (simp add: rev_nth)
  moreover have "\<not> ?same (s ! (k + ?r))" if "k + ?r < length s"
    using run_length_nth(3) [of ?same "drop k s"] that assms by simp
  ultimately show ?thesis using that [of "k - ?l" "k + ?r"] l r pos assms by (auto simp: word_run_def Let_def)
qed

lemma run_length_Cons: "run_length P (d # ds) = (if P d then Suc (run_length P ds) else 0)" "run_length P [] = 0"
  by (simp_all add: run_length_def)

lemma a_word_result:
  assumes "tb_chars_at B k = Some (c # cs)" and "tb_chars_rev_at B k = Some behind" and "\<not> is_blank c"
    and "dropWhile (of_kind (character_kind_from c) w) (c # cs) = fwd"
    and "dropWhile (of_kind (character_kind_from c) w) behind = bwd"
    and "run_length (of_kind (character_kind_from c) w) behind = l" and "l \<le> k"
    and "run_length (of_kind (character_kind_from c) w) (c # cs) = r"
    and "run_length is_blank bwd \<le> k - l"
  shows "vim_a_word B k w = Some (Some
    (if run_length is_blank fwd = 0 then k - l - run_length is_blank bwd else k - l, k + r + run_length is_blank fwd))"
proof -
  have nonblank: "character_kind_from c \<noteq> Whitespace" using assms(3) by (simp add: is_blank_def)
  have subs: "usub k l = Some (k - l)" "usub (k - l) (run_length is_blank bwd) = Some (k - l - run_length is_blank bwd)"
    using assms(7,9) by (simp_all add: usub_def)
  have "vim_a_word B k w =
    (case fwd of
       [] \<Rightarrow> (case bwd of
                [] \<Rightarrow> Some (Some (k - l, k + r))
              | e # _ \<Rightarrow> if is_blank e then Some (Some (k - l - run_length is_blank bwd, k + r)) else Some (Some (k - l, k + r)))
     | d # _ \<Rightarrow>
         if is_blank d then Some (Some (k - l, k + r + run_length is_blank fwd))
         else (case bwd of
                 [] \<Rightarrow> Some (Some (k - l, k + r))
               | e # _ \<Rightarrow> if is_blank e then Some (Some (k - l - run_length is_blank bwd, k + r)) else Some (Some (k - l, k + r))))"
    using nonblank subs
    unfolding vim_a_word_def assms(1,2) option.case prod.case list.case Let_def assms(4,5,6,8)
    by (cases fwd; cases bwd) simp_all
  then show ?thesis by (simp add: run_length_Cons split: list.splits)
qed

lemma a_word_on_blank:
  assumes "tb_chars_at B k = Some (c # cs)" and "tb_chars_rev_at B k = Some behind" and "is_blank c"
    and "dropWhile (of_kind (character_kind_from c) w) (c # cs) = fwd"
    and "run_length (of_kind (character_kind_from c) w) behind = l" and "l \<le> k"
    and "run_length (of_kind (character_kind_from c) w) (c # cs) = r"
  shows "vim_a_word B k w = Some (Some (k - l,
    k + r + (case fwd of [] \<Rightarrow> 0 | d # _ \<Rightarrow> run_length (of_kind (character_kind_from d) w) fwd)))"
proof -
  have blank: "character_kind_from c = Whitespace" using assms(3) by (simp add: is_blank_def)
  have "usub k l = Some (k - l)" using assms(6) by (simp add: usub_def)
  then show ?thesis
    unfolding vim_a_word_def assms(1,2) option.case prod.case list.case Let_def assms(4,5,7)
    using blank by (cases fwd) simp_all
qed

text \<open>The run behind a run of blanks begins right there.\<close>

lemma run_behind_blanks:
  assumes "word_run w s k i e" and "is_blank (s ! k)" and "e < length s"
  shows "\<exists>e'. e' = e + run_length (of_kind (character_kind_from (s ! e)) w) (drop e s) \<and> word_run w s e e e'"
proof -
  let ?same = "of_kind (character_kind_from (s ! e)) w"
  obtain i' e' where run: "word_run w s e i' e'" and i': "i' = e - run_length ?same (rev (take e s))"
      and e': "e' = e + run_length ?same (drop e s)"
    using inner_word_run [OF assms(3)] by metis
  have e: "k < e" using assms(1) by (simp add: word_run_def Let_def)
  have blank: "character_kind_from (s ! k) = Whitespace" using assms(2) by (simp add: is_blank_def)
  have "of_kind (character_kind_from (s ! k)) w (s ! (e - 1))" "\<not> of_kind (character_kind_from (s ! k)) w (s ! e)"
    using assms(1,3) e by (auto simp: word_run_def Let_def)
  then have "\<not> ?same (s ! (e - 1))"
    using blank by (cases "character_kind_from (s ! e)"; cases "character_kind_from (s ! (e - 1))"; cases w)
      (simp_all add: of_kind_def equivalent_char_kind_def)
  moreover have "rev (take e s) = s ! (e - 1) # rev (take (e - 1) s)"
    using assms(3) e by (cases e) (simp_all add: take_Suc_conv_app_nth)
  ultimately have "run_length ?same (rev (take e s)) = 0" by (simp add: run_length_def)
  with run i' e' show ?thesis by auto
qed

text \<open>
  C18. The inner word around the cursor is the maximal run of characters of the same kind that the cursor is
  in. The outer word, on a character that is not blank, is that run with the blanks behind it, or, when
  there are none, with the blanks before it; on a blank, it is that run of blanks with the whole run that begins
  right behind it, if the text does not end there. (A newline is a blank here.)
\<close>

theorem word_objects:
  assumes "k < length s"
  shows "\<exists>i e. vim_inner_word (str_buffer s) k w = Some (Some (i, e)) \<and> word_run w s k i e \<and>
    (let behind = run_length is_blank (drop e s); ahead = run_length is_blank (rev (take i s)) in
     \<not> is_blank (s ! k) \<longrightarrow>
     vim_a_word (str_buffer s) k w = Some (Some (if behind = 0 then i - ahead else i, e + behind))) \<and>
    (is_blank (s ! k) \<longrightarrow>
     (\<exists>e'. vim_a_word (str_buffer s) k w = Some (Some (i, e')) \<and>
        (if e < length s then word_run w s e e e' else e' = e)))"
proof -
  let ?same = "of_kind (character_kind_from (s ! k)) w"
  obtain i e where inner: "vim_inner_word (str_buffer s) k w = Some (Some (i, e))" "word_run w s k i e"
    and i: "i = k - run_length ?same (rev (take k s))" and e: "e = k + run_length ?same (drop k s)"
    using inner_word_run [OF assms] .
  have le: "run_length ?same (rev (take k s)) \<le> k" using run_length_nth(1) [of ?same "rev (take k s)"] assms by simp
  have drops: "dropWhile ?same (drop k s) = drop e s" "dropWhile ?same (rev (take k s)) = rev (take i s)"
    using le assms by (simp_all add: dropWhile_eq_drop i e run_length_def add.commute drop_rev take_take min_def)
  have blanks: "run_length is_blank (rev (take i s)) \<le> i"
    using run_length_nth(1) [of is_blank "rev (take i s)"] by (simp split: if_splits)
  have cs: "drop k s = s ! k # drop (Suc k) s" using assms by (simp add: Cons_nth_drop_Suc)
  have starts: "tb_chars_at (str_buffer s) k = Some (s ! k # drop (Suc k) s)"
      "tb_chars_rev_at (str_buffer s) k = Some (rev (take k s))"
    using assms cs by (simp_all add: str.chars_at str.chars_rev_at)
  have word: "vim_a_word (str_buffer s) k w =
      Some (Some (if run_length is_blank (drop e s) = 0 then i - run_length is_blank (rev (take i s)) else i,
        e + run_length is_blank (drop e s)))" if "\<not> is_blank (s ! k)"
    using a_word_result [OF starts that drops(1) [unfolded cs] drops(2) refl le refl] blanks
    unfolding i e cs by simp
  have "\<exists>e'. vim_a_word (str_buffer s) k w = Some (Some (i, e')) \<and> (if e < length s then word_run w s e e e' else e' = e)"
    if blank: "is_blank (s ! k)"
  proof -
    have a: "vim_a_word (str_buffer s) k w = Some (Some (i,
        e + (case drop e s of [] \<Rightarrow> 0 | d # _ \<Rightarrow> run_length (of_kind (character_kind_from d) w) (drop e s))))"
      using a_word_on_blank [OF starts blank drops(1) [unfolded cs] refl le refl] unfolding i e cs by simp
    show ?thesis
    proof (cases "e < length s")
      case True
      then have "drop e s = s ! e # drop (Suc e) s" by (simp add: Cons_nth_drop_Suc)
      then have "(case drop e s of [] \<Rightarrow> 0 | d # _ \<Rightarrow> run_length (of_kind (character_kind_from d) w) (drop e s)) =
          run_length (of_kind (character_kind_from (s ! e)) w) (drop e s)" by simp
      with a run_behind_blanks [OF inner(2) blank True] True show ?thesis by metis
    qed (use a in simp)
  qed
  with inner word show ?thesis by (metis (no_types, lifting))
qed

text \<open>On the last word of a text, and on the blank before it.\<close>

theorem word_objects_witness:
  "vim_a_word (str_buffer (chars ''ab cd'')) 4 WT_Default = Some (Some (2, 5)) \<and>
   (\<exists>e'. vim_a_word (str_buffer (chars ''ab cd'')) 2 WT_Default = Some (Some (2, e')) \<and>
      word_run WT_Default (chars ''ab cd'') 3 3 e')"
proof
  let ?s = "chars ''ab cd''"
  have kinds: "character_kind_from (ch CHR '' '') = Whitespace" "character_kind_from (ch CHR ''a'') = WordChars"
      "character_kind_from (ch CHR ''b'') = WordChars" "character_kind_from (ch CHR ''c'') = WordChars"
      "character_kind_from (ch CHR ''d'') = WordChars"
    by (simp_all add: character_kind_from_def is_whitespace_def is_default_word_boundary_def
        DEFAULT_WORD_BOUNDARY_CHARS_def chars_def ch_def)
  have "vim_inner_word (str_buffer ?s) 4 WT_Default = Some (Some (3, 5))"
    "vim_inner_word (str_buffer ?s) 2 WT_Default = Some (Some (2, 3))"
    by (simp_all add: vim_inner_word_def str.chars_at str.chars_rev_at chars_def kinds of_kind_def equivalent_char_kind_def
        run_length_def usub_def)
  then show "vim_a_word (str_buffer ?s) 4 WT_Default = Some (Some (2, 5))"
    "\<exists>e'. vim_a_word (str_buffer ?s) 2 WT_Default = Some (Some (2, e')) \<and> word_run WT_Default ?s 3 3 e'"
    using word_objects [of 4 ?s WT_Default] word_objects [of 2 ?s WT_Default]
    by (simp_all add: chars_def run_length_def is_blank_def kinds Let_def)
qed

section \<open>Quotes\<close>

text \<open>Two quotes on one line with no quote between them.\<close>

definition quote_pair :: "quote_type \<Rightarrow> uchar list \<Rightarrow> nat \<Rightarrow> nat \<Rightarrow> bool" where
  "quote_pair q s i j \<longleftrightarrow> i < j \<and> j < length s \<and> quote_is_char q (s ! i) \<and> quote_is_char q (s ! j) \<and>
     (\<forall>x. i < x \<and> x < j \<longrightarrow> \<not> quote_is_char q (s ! x)) \<and> (\<forall>x. i \<le> x \<and> x \<le> j \<longrightarrow> s ! x \<noteq> newline)"

text \<open>The first quote in some characters.\<close>

definition first_quote :: "quote_type \<Rightarrow> uchar list \<Rightarrow> nat \<Rightarrow> bool" where
  "first_quote q cs m \<longleftrightarrow> m < length cs \<and> quote_is_char q (cs ! m) \<and> (\<forall>x < m. \<not> quote_is_char q (cs ! x))"

lemma first_quote_Cons [simp]:
  "first_quote q (c # cs) 0 \<longleftrightarrow> quote_is_char q c"
  "first_quote q (c # cs) (Suc m) \<longleftrightarrow> \<not> quote_is_char q c \<and> first_quote q cs m"
  by (auto simp: first_quote_def All_less_Suc2)

lemma next_quote_first:
  "next_quote q (List.enumerate n cs) = (Some i, rest) \<Longrightarrow>
     \<exists>m. i = n + m \<and> first_quote q cs m \<and> rest = List.enumerate (i + 1) (drop (m + 1) cs)"
proof (induction cs arbitrary: n)
  case (Cons c cs)
  show ?case
  proof (cases "quote_is_char q c")
    case True
    with Cons.prems show ?thesis by (intro exI [of _ 0]) auto
  next
    case False
    with Cons.prems Cons.IH [of "Suc n"] obtain m where
      "i = Suc n + m" "first_quote q cs m" "rest = List.enumerate (i + 1) (drop (m + 1) cs)" by auto
    with False show ?thesis by (intro exI [of _ "Suc m"]) simp
  qed
qed simp

lemma filter_quotes_first:
  "filter (\<lambda>(_, c). quote_is_char q c) (List.enumerate n cs) = (i, c) # rest \<Longrightarrow>
     \<exists>m. i = n + m \<and> first_quote q cs m"
proof (induction cs arbitrary: n)
  case (Cons d cs)
  show ?case
  proof (cases "quote_is_char q d")
    case True
    with Cons.prems show ?thesis by (intro exI [of _ 0]) auto
  next
    case False
    with Cons.prems Cons.IH [of "Suc n"] obtain m where "i = Suc n + m" "first_quote q cs m" by auto
    with False show ?thesis by (intro exI [of _ "Suc m"]) simp
  qed
qed simp

text \<open>The characters of the line from a position on, and those before it, the nearest first.\<close>

definition line_from :: "uchar list \<Rightarrow> nat \<Rightarrow> uchar list" where
  "line_from s k = takeWhile (\<lambda>c. c \<noteq> newline) (drop k s)"

definition line_to :: "uchar list \<Rightarrow> nat \<Rightarrow> uchar list" where
  "line_to s k = takeWhile (\<lambda>c. c \<noteq> newline) (rev (take k s))"

lemma line_ahead:
  assumes "first_quote q (line_from s k) m"
  shows "k + m < length s" "quote_is_char q (s ! (k + m))" "x \<le> m \<Longrightarrow> s ! (k + x) \<noteq> newline"
    "x < m \<Longrightarrow> \<not> quote_is_char q (s ! (k + x))"
proof -
  let ?cs = "takeWhile (\<lambda>c. c \<noteq> newline) (drop k s)"
  have m: "m < length ?cs" using assms by (simp add: first_quote_def line_from_def line_to_def)
  also have "\<dots> \<le> length s - k" using length_takeWhile_le [of "\<lambda>c. c \<noteq> newline" "drop k s"] by simp
  finally have len: "m < length s - k" .
  have nth: "?cs ! x = s ! (k + x)" if "x \<le> m" for x
    using that m len by (simp add: takeWhile_nth)
  show "k + m < length s" using len by simp
  show "quote_is_char q (s ! (k + m))" using assms nth [of m] by (simp add: first_quote_def line_from_def line_to_def)
  show "s ! (k + x) \<noteq> newline" if "x \<le> m"
    using nth_mem [of x ?cs] nth [OF that] m that by (metis (mono_tags, lifting) le_less_trans set_takeWhileD)
  show "\<not> quote_is_char q (s ! (k + x))" if "x < m"
    using assms nth [of x] that by (auto simp: first_quote_def line_from_def line_to_def)
qed

lemma line_behind:
  assumes "first_quote q (line_to s k) m" and "k \<le> length s"
  shows "m < k" "quote_is_char q (s ! (k - 1 - m))" "k - 1 - m \<le> x \<Longrightarrow> x < k \<Longrightarrow> s ! x \<noteq> newline"
    "k - 1 - m < x \<Longrightarrow> x < k \<Longrightarrow> \<not> quote_is_char q (s ! x)"
proof -
  let ?cs = "takeWhile (\<lambda>c. c \<noteq> newline) (rev (take k s))"
  have m: "m < length ?cs" using assms by (simp add: first_quote_def line_from_def line_to_def)
  also have "\<dots> \<le> k" using length_takeWhile_le [of "\<lambda>c. c \<noteq> newline" "rev (take k s)"] by simp
  finally show len: "m < k" .
  have nth: "?cs ! x = s ! (k - 1 - x)" if "x \<le> m" for x
    using that m len assms(2) by (simp add: takeWhile_nth rev_nth)
  show "quote_is_char q (s ! (k - 1 - m))" using assms nth [of m] by (simp add: first_quote_def line_from_def line_to_def)
  show "s ! x \<noteq> newline" if "k - 1 - m \<le> x" "x < k"
  proof -
    have x: "k - 1 - x \<le> m" "k - 1 - (k - 1 - x) = x" using that len by linarith+
    then have "?cs ! (k - 1 - x) = s ! x" using nth [of "k - 1 - x"] by simp
    moreover have "?cs ! (k - 1 - x) \<in> set ?cs" using x m by (intro nth_mem) simp
    ultimately show ?thesis using set_takeWhileD [of "s ! x"] by fastforce
  qed
  show "\<not> quote_is_char q (s ! x)" if "k - 1 - m < x" "x < k"
  proof -
    have "k - 1 - x < m" "k - 1 - (k - 1 - x) = x" using that len by linarith+
    then show ?thesis using assms nth [of "k - 1 - x"] by (auto simp: first_quote_def line_from_def line_to_def)
  qed
qed

text \<open>Pairs of quotes before and behind a position.\<close>

lemma pair_around:
  assumes "first_quote q (line_to s k) m" and "k < length s"
    and "first_quote q (line_from s k) n"
  shows "quote_pair q s (k - 1 - m) (k + n)"
proof -
  note b = line_behind [OF assms(1)] and a = line_ahead [OF assms(3)]
  have "\<not> quote_is_char q (s ! x)" if "k - 1 - m < x" "x < k + n" for x
    using that b(4) [of x] a(4) [of "x - k"] assms(2) by (cases "x < k") auto
  moreover have "s ! x \<noteq> newline" if "k - 1 - m \<le> x" "x \<le> k + n" for x
    using that b(3) [of x] a(3) [of "x - k"] assms(2) by (cases "x < k") auto
  moreover have "k - 1 - m < k + n" using b(1) assms(2) by simp
  ultimately show ?thesis using b(2) a(1,2) assms(2) unfolding quote_pair_def by simp
qed

lemma pair_ahead:
  assumes "first_quote q (line_from s k) n"
    and "first_quote q (drop (n + 1) (line_from s k)) m"
  shows "quote_pair q s (k + n) (k + n + 1 + m)"
proof -
  let ?cs = "takeWhile (\<lambda>c. c \<noteq> newline) (drop k s)"
  have m: "n + 1 + m < length ?cs" "quote_is_char q (?cs ! (n + 1 + m))" "x < m \<Longrightarrow> \<not> quote_is_char q (?cs ! (n + 1 + x))" for x
    using assms(2) by (auto simp: first_quote_def line_from_def)
  have "length ?cs \<le> length s - k" using length_takeWhile_le [of "\<lambda>c. c \<noteq> newline" "drop k s"] by simp
  then have len: "k + n + 1 + m < length s" using m(1) by simp
  have nth: "?cs ! x = s ! (k + x)" if "x \<le> n + 1 + m" for x using that m(1) len by (simp add: takeWhile_nth)
  have line: "s ! (k + x) \<noteq> newline" if "x \<le> n + 1 + m" for x
    using nth_mem [of x ?cs] nth [OF that] m(1) that by (metis (mono_tags, lifting) le_less_trans set_takeWhileD)
  have "\<not> quote_is_char q (s ! x)" if "k + n < x" "x < k + n + 1 + m" for x
    using m(3) [of "x - (k + n + 1)"] nth [of "x - k"] that by (auto simp: Suc_diff_Suc)
  moreover have "s ! x \<noteq> newline" if "k + n \<le> x" "x \<le> k + n + 1 + m" for x
    using line [of "x - k"] that by simp
  ultimately show ?thesis
    using line_ahead(2) [OF assms(1)] m(2) nth [of "n + 1 + m"] len unfolding quote_pair_def by (simp add: ac_simps)
qed

text \<open>The quote found behind the cursor and the one ahead of it, when it is not on a quote itself.\<close>

lemma quote_behind:
  assumes "k < length s"
  obtains b where "(case fst (next_quote q (List.enumerate 0 (line_to s k))) of
      None \<Rightarrow> Some None
    | Some i \<Rightarrow> do { j \<leftarrow> usub k i; j \<leftarrow> usub j 1; Some (Some j) }) = Some b"
    and "b = None \<or> (\<exists>m. first_quote q (line_to s k) m \<and> b = Some (k - 1 - m))"
proof (cases "next_quote q (List.enumerate 0 (line_to s k))")
  case (Pair r rest)
  show ?thesis
  proof (cases r)
    case None
    with Pair that [of None] show ?thesis by simp
  next
    case (Some m)
    then have m: "first_quote q (line_to s k) m" using next_quote_first [of q 0 "line_to s k" m rest] Pair by auto
    then have "m < k" using line_behind(1) [of q s k m] assms by simp
    then have "usub k m = Some (k - m)" "usub (k - m) 1 = Some (k - 1 - m)" by (simp_all add: usub_def)
    then show ?thesis using that [of "Some (k - 1 - m)"] m Pair Some by auto
  qed
qed

lemma line_from_Cons: "k < length s \<Longrightarrow> s ! k \<noteq> newline \<Longrightarrow> line_from s k = s ! k # tl (line_from s k)"
  by (simp add: line_from_def Cons_nth_drop_Suc [symmetric])

lemma quote_ahead:
  assumes "next_quote q (List.enumerate 1 (tl (line_from s k))) = (Some n, rest)"
    and "k < length s" and "s ! k \<noteq> newline" and "\<not> quote_is_char q (s ! k)"
  shows "first_quote q (line_from s k) n" and "rest = List.enumerate (n + 1) (drop (n + 1) (line_from s k))"
proof -
  obtain m where m: "n = 1 + m" "first_quote q (tl (line_from s k)) m"
      "rest = List.enumerate (n + 1) (drop (m + 1) (tl (line_from s k)))"
    using next_quote_first [OF assms(1)] by blast
  have "first_quote q (s ! k # tl (line_from s k)) (Suc m)" using m(2) assms(4) by simp
  with m(1) show "first_quote q (line_from s k) n" using line_from_Cons [OF assms(2,3)] by simp
  show "rest = List.enumerate (n + 1) (drop (n + 1) (line_from s k))"
    using m(1,3) by (subst line_from_Cons [OF assms(2,3)]) simp
qed

text \<open>The iterators with which \<open>vim_a_quote\<close> starts.\<close>

lemma quote_iterators:
  assumes "k < length s" and "s ! k \<noteq> newline"
  shows "tb_chars_at (str_buffer s) k = Some (drop k s)"
    and "tb_chars_rev_at (str_buffer s) k = Some (rev (take k s))"
    and "rest_of_line (drop k s) = (0, s ! k) # List.enumerate 1 (tl (line_from s k))"
    and "rest_of_line (rev (take k s)) = List.enumerate 0 (line_to s k)"
  using assms(1) line_from_Cons [OF assms]
  by (simp_all add: str.chars_at str.chars_rev_at rest_of_line_def line_from_def [symmetric] line_to_def)
    (metis One_nat_def enumerate_simps(2))

text \<open>What a search may return: nothing, or a pair of quotes that ends behind the cursor.\<close>

definition quoted :: "quote_type \<Rightarrow> uchar list \<Rightarrow> nat \<Rightarrow> range option \<Rightarrow> bool" where
  "quoted q s k = pred_option (\<lambda>(i, e). i < e \<and> k < e \<and> quote_pair q s i (e - 1))"

lemma quoted_simps [simp]:
  "quoted q s k None" "quote_pair q s i j \<Longrightarrow> k \<le> j \<Longrightarrow> quoted q s k (Some (i, Suc j))"
  by (auto simp: quoted_def quote_pair_def)

lemma a_quote_off_quote:
  assumes "k < length s" and "s ! k \<noteq> newline" and "\<not> quote_is_char q (s ! k)"
  shows "\<exists>r. vim_a_quote (str_buffer s) k q = Some r \<and> quoted q s k r"
proof -
  obtain n rest where ahead: "next_quote q (List.enumerate 1 (tl (line_from s k))) = (n, rest)" by fastforce
  obtain b where b: "(case fst (next_quote q (List.enumerate 0 (line_to s k))) of
        None \<Rightarrow> Some None
      | Some i \<Rightarrow> do { j \<leftarrow> usub k i; j \<leftarrow> usub j 1; Some (Some j) }) = Some b"
    and b_found: "b = None \<or> (\<exists>m. first_quote q (line_to s k) m \<and> b = Some (k - 1 - m))"
    using quote_behind [OF assms(1)] .
  have result: "vim_a_quote (str_buffer s) k q =
      (case n of
         None \<Rightarrow> Some None
       | Some n \<Rightarrow>
          (case b of
             Some st \<Rightarrow> Some (Some (st, k + n + 1))
           | None \<Rightarrow> Some (map_option (\<lambda>i. (k + n, k + i + 1)) (fst (next_quote q rest)))))"
    unfolding vim_a_quote_def quote_iterators [OF assms(1,2)] option.case prod.case list.case Let_def b
    using assms(3) ahead by (cases n; cases b) simp_all
  show ?thesis
  proof (cases n)
    case (Some j)
    have j: "first_quote q (line_from s k) j" "rest = List.enumerate (j + 1) (drop (j + 1) (line_from s k))"
      using quote_ahead [OF ahead [unfolded Some] assms] .
    have "quoted q s k (map_option (\<lambda>i. (k + j, k + i + 1)) (fst (next_quote q rest)))"
    proof (cases "next_quote q rest")
      case (Pair e rest')
      show ?thesis
      proof (cases e)
        case (Some i)
        obtain m where "i = j + 1 + m" "first_quote q (drop (j + 1) (line_from s k)) m"
          using next_quote_first [OF Pair [unfolded Some j(2)]] by blast
        then have "quote_pair q s (k + j) (k + i)" using pair_ahead [OF j(1), of m] by (simp add: add.assoc)
        then show ?thesis using Pair Some by simp
      qed (simp add: Pair)
    qed
    moreover have "b = Some st \<Longrightarrow> quoted q s k (Some (st, Suc (k + j)))" for st
      using b_found pair_around [OF _ assms(1) j(1)] by auto
    ultimately show ?thesis using result Some by (cases b) simp_all
  qed (use result in simp)
qed

lemma a_quote_on_quote:
  assumes "k < length s" and "s ! k \<noteq> newline" and "quote_is_char q (s ! k)"
  shows "\<exists>r. vim_a_quote (str_buffer s) k q = Some r \<and> quoted q s k r"
proof -
  let ?quotes = "filter (\<lambda>(_, c). quote_is_char q c) (List.enumerate 0 (line_to s k))"
  note start = vim_a_quote_def quote_iterators [OF assms(1,2)] option.case prod.case list.case Let_def
  have on: "first_quote q (line_from s k) 0" by (subst line_from_Cons [OF assms(1,2)]) (simp add: assms(3))
  show ?thesis
  proof (cases "length ?quotes mod 2 = 1")
    case True
    then obtain m c qs where qs: "?quotes = (m, c) # qs" by (cases ?quotes) auto
    then have m: "first_quote q (line_to s k) m" using filter_quotes_first by fastforce
    then have "m < k" using line_behind(1) assms(1) by fastforce
    then have "vim_a_quote (str_buffer s) k q = Some (Some (k - 1 - m, Suc k))"
      unfolding start using assms(3) True qs by (simp add: nth_checked_def usub_def)
    moreover have "quote_pair q s (k - 1 - m) k" using pair_around [OF m assms(1) on] by simp
    ultimately show ?thesis by simp
  next
    case False
    obtain n rest where ahead: "next_quote q (List.enumerate 1 (tl (line_from s k))) = (n, rest)" by fastforce
    have result: "vim_a_quote (str_buffer s) k q = Some (map_option (\<lambda>i. (k, k + i + 1)) n)"
      unfolding start using assms(3) False ahead by simp
    show ?thesis
    proof (cases n)
      case (Some i)
      obtain m where "i = 1 + m" "first_quote q (tl (line_from s k)) m"
        using next_quote_first [OF ahead [unfolded Some]] by blast
      then show ?thesis using pair_ahead [OF on, of m] result Some by (simp add: drop_Suc)
    qed (use result in simp)
  qed
qed

text \<open>
  C19. The quoted text that is found is delimited by two quotes on one line with no quote between them,
  and the cursor is not behind it; looking for it never panics.
\<close>

theorem quote_objects:
  "\<exists>r. vim_a_quote (str_buffer s) k q = Some r \<and> quoted q s k r"
proof (cases "k < length s \<and> s ! k \<noteq> newline")
  case True
  then show ?thesis using a_quote_off_quote a_quote_on_quote by blast
next
  case False
  then have "k > length s \<or> k \<le> length s \<and> takeWhile (\<lambda>c. c \<noteq> newline) (drop k s) = []"
    by (cases "k < length s") (auto simp: Cons_nth_drop_Suc [symmetric])
  then show ?thesis
    by (intro exI [of _ None]) (auto simp: vim_a_quote_def str.chars_at str.chars_rev_at rest_of_line_def)
qed

end
