(* ===== verification/Sum_Tree.thy ===== *)
theory Sum_Tree
  imports Warp_Prelude
begin

text \<open>
  The summarised tree of \<^verbatim>\<open>crates/sum_tree/src/lib.rs\<close>, the B-tree under the text buffer, the
  block list and the scrollback. A node caches the sum of the summaries of its items; summaries are
  a monoid and \<open>Item::summary\<close> is the argument \<open>summ\<close>. A bounded \<open>ArrayVec\<close> panics when it
  is filled beyond its capacity, and the accessors \<open>child_trees()\<close> and \<open>items()\<close> panic on the
  wrong kind of node. Heights are natural numbers: \<open>height_is_logarithmic\<close> shows that the \<open>u8\<close> of
  the code never overflows.
\<close>

definition TREE_BASE :: nat where "TREE_BASE = 6"

datatype ('a, 's) node =
    Internal (n_height: nat) 's "'s list" "('a, 's) node list"
  | Leaf 's "'a list" "'s list"

section \<open>Nodes\<close>

fun is_leaf :: "('a, 's) node \<Rightarrow> bool" where
  "is_leaf (Leaf _ _ _) = True"
| "is_leaf (Internal _ _ _ _) = False"

fun node_height :: "('a, 's) node \<Rightarrow> nat" where
  "node_height (Internal h _ _ _) = h"
| "node_height (Leaf _ _ _) = 0"

fun node_summary :: "('a, 's) node \<Rightarrow> 's" where
  "node_summary (Internal _ s _ _) = s"
| "node_summary (Leaf s _ _) = s"

fun child_summaries :: "('a, 's) node \<Rightarrow> 's list" where
  "child_summaries (Internal _ _ ss _) = ss"
| "child_summaries (Leaf _ _ ss) = ss"

fun child_trees :: "('a, 's) node \<Rightarrow> ('a, 's) node list panics" where
  "child_trees (Internal _ _ _ ts) = Some ts"
| "child_trees (Leaf _ _ _) = None"

fun node_items :: "('a, 's) node \<Rightarrow> 'a list panics" where
  "node_items (Leaf _ xs _) = Some xs"
| "node_items (Internal _ _ _ _) = None"

fun is_underflowing :: "('a, 's) node \<Rightarrow> bool" where
  "is_underflowing (Internal _ _ _ ts) = (length ts < TREE_BASE)"
| "is_underflowing (Leaf _ xs _) = (length xs < TREE_BASE)"

text \<open>Filling an \<open>ArrayVec\<close> of capacity \<open>2 * TREE_BASE\<close>.\<close>

definition array_vec :: "'b list \<Rightarrow> 'b list panics" where
  "array_vec xs = (if length xs \<le> 2 * TREE_BASE then Some xs else None)"

definition sum_of :: "'s::monoid_add list \<Rightarrow> 's" where
  "sum_of ss = foldl (+) 0 ss"

section \<open>Trees\<close>

definition tree_new :: "('a, 's::monoid_add) node" where
  "tree_new = Leaf 0 [] []"

fun tree_is_empty :: "('a, 's) node \<Rightarrow> bool" where
  "tree_is_empty (Leaf _ xs _) = (xs = [])"
| "tree_is_empty (Internal _ _ _ _) = False"

definition from_child_trees :: "('a, 's::monoid_add) node list \<Rightarrow> ('a, 's) node panics" where
  "from_child_trees ts =
    do { t \<leftarrow> nth_checked ts 0;
         ss \<leftarrow> array_vec (map node_summary ts);
         ts \<leftarrow> array_vec ts;
         Some (Internal (node_height t + 1) (sum_of ss) ss ts) }"

text \<open>
  \<open>push_tree_recursive\<close> returns the node it was called on, changed, and the right half if that
  node had to be split. What is appended to an internal node is a list of trees with their
  summaries.
\<close>

definition midpoint :: "nat \<Rightarrow> nat" where
  "midpoint child_count = (child_count + child_count mod 2) div 2"

definition append_children ::
  "nat \<Rightarrow> 's::monoid_add \<Rightarrow> 's list \<Rightarrow> ('a, 's) node list \<Rightarrow> 's list \<Rightarrow> ('a, 's) node list \<Rightarrow>
     (('a, 's) node \<times> ('a, 's) node option) panics" where
  "append_children h s ss ts summaries_to_append trees_to_append =
    do { summaries_to_append \<leftarrow> array_vec summaries_to_append;
         trees_to_append \<leftarrow> array_vec trees_to_append;
         let child_count = length ts + length trees_to_append;
         if child_count > 2 * TREE_BASE then
           do { let m = midpoint child_count;
                left_summaries \<leftarrow> array_vec (take m (ss @ summaries_to_append));
                right_summaries \<leftarrow> array_vec (drop m (ss @ summaries_to_append));
                left_trees \<leftarrow> array_vec (take m (ts @ trees_to_append));
                right_trees \<leftarrow> array_vec (drop m (ts @ trees_to_append));
                Some (Internal h (sum_of left_summaries) left_summaries left_trees,
                      Some (Internal h (sum_of right_summaries) right_summaries right_trees)) }
         else
           do { ss \<leftarrow> array_vec (ss @ summaries_to_append);
                ts \<leftarrow> array_vec (ts @ trees_to_append);
                Some (Internal h s ss ts, None) } }"

definition append_items ::
  "'s::monoid_add \<Rightarrow> 'a list \<Rightarrow> 's list \<Rightarrow> ('a, 's) node \<Rightarrow>
     (('a, 's) node \<times> ('a, 's) node option) panics" where
  "append_items s xs ss other =
    do { ys \<leftarrow> node_items other;
         let child_count = length xs + length ys;
         if child_count > 2 * TREE_BASE then
           do { let m = midpoint child_count;
                left_items \<leftarrow> array_vec (take m (xs @ ys));
                right_items \<leftarrow> array_vec (drop m (xs @ ys));
                left_summaries \<leftarrow> array_vec (take m (ss @ child_summaries other));
                right_summaries \<leftarrow> array_vec (drop m (ss @ child_summaries other));
                Some (Leaf (sum_of left_summaries) left_items left_summaries,
                      Some (Leaf (sum_of right_summaries) right_items right_summaries)) }
         else
           do { xs \<leftarrow> array_vec (xs @ ys);
                ss \<leftarrow> array_vec (ss @ child_summaries other);
                Some (Leaf (s + node_summary other) xs ss, None) } }"

function push_tree_recursive ::
  "('a, 's::monoid_add) node \<Rightarrow> ('a, 's) node \<Rightarrow>
     (('a, 's) node \<times> ('a, 's) node option) panics" where
  "push_tree_recursive (Internal h s ss ts) other =
    do { let s = s + node_summary other;
         height_delta \<leftarrow> usub h (node_height other);
         if height_delta = 0 then
           do { us \<leftarrow> child_trees other; append_children h s ss ts (child_summaries other) us }
         else if height_delta = 1 \<and> \<not> is_underflowing other then
           append_children h s ss ts [node_summary other] [other]
         else
           do { assert_that (ts \<noteq> [] \<and> ss \<noteq> []);
                r \<leftarrow> (if ts \<noteq> [] then push_tree_recursive (last ts) other else None);
                let ts = butlast ts @ [fst r];
                let ss = butlast ss @ [node_summary (fst r)];
                (case snd r of
                   Some split_tree \<Rightarrow> append_children h s ss ts [node_summary split_tree] [split_tree]
                 | None \<Rightarrow> append_children h s ss ts [] []) } }"
| "push_tree_recursive (Leaf s xs ss) other = append_items s xs ss other"
  by pat_completeness auto
termination
proof (relation "measure (size \<circ> fst)")
  fix h s ss and ts :: "('a, 's) node list" and other :: "('a, 's) node"
  assume "ts \<noteq> []"
  then have "size (last ts) < Suc (size_list size ts)"
    using size_list_estimation' [of "last ts" ts "size (last ts)" size] by simp
  then show "((last ts, other), (Internal h s ss ts, other)) \<in> measure (size \<circ> fst)"
    by simp
qed simp

function push_tree ::
    "('a, 's::monoid_add) node \<Rightarrow> ('a, 's) node \<Rightarrow> ('a, 's) node panics"
  and push_trees ::
    "('a, 's::monoid_add) node \<Rightarrow> ('a, 's) node list \<Rightarrow> ('a, 's) node panics" where
  "push_tree t other =
    (if \<not> is_leaf other \<or> node_items other \<noteq> Some [] then
       (if node_height t < node_height other then
          (case other of
             Internal _ _ _ us \<Rightarrow> push_trees t us
           | Leaf _ _ _ \<Rightarrow> None)
        else
          do { r \<leftarrow> push_tree_recursive t other;
               case snd r of
                 Some split_tree \<Rightarrow> from_child_trees [fst r, split_tree]
               | None \<Rightarrow> Some (fst r) })
     else Some t)"
| "push_trees t [] = Some t"
| "push_trees t (u # us) = do { t \<leftarrow> push_tree t u; push_trees t us }"
  by pat_completeness auto
termination
  by (relation "measure (\<lambda>p. case p of Inl (_, u) \<Rightarrow> size u | Inr (_, us) \<Rightarrow> size_list size us)") auto

definition tree_push :: "('a \<Rightarrow> 's::monoid_add) \<Rightarrow> 'a \<Rightarrow> ('a, 's) node \<Rightarrow> ('a, 's) node panics" where
  "tree_push summ item t =
    do { other \<leftarrow> from_child_trees [Leaf (summ item) [item] [summ item]];
         push_tree t other }"

definition from_item :: "('a \<Rightarrow> 's::monoid_add) \<Rightarrow> 'a \<Rightarrow> ('a, 's) node panics" where
  "from_item summ item = tree_push summ item tree_new"

text \<open>One round of the loop of \<open>extend\<close>, over the tree and the leaf being filled.\<close>

definition extend_step ::
  "('a \<Rightarrow> 's::monoid_add) \<Rightarrow> 'a \<Rightarrow> ('a, 's) node \<times> ('a, 's) node option \<Rightarrow>
     (('a, 's) node \<times> ('a, 's) node option) panics" where
  "extend_step summ item st =
    do { st \<leftarrow>
           (case snd st of
              None \<Rightarrow> Some st
            | Some leaf \<Rightarrow>
                do { xs \<leftarrow> node_items leaf;
                     if length xs = 2 * TREE_BASE
                     then do { t \<leftarrow> push_tree (fst st) leaf; Some (t, None) }
                     else Some st });
         case (case snd st of None \<Rightarrow> Leaf 0 [] [] | Some leaf \<Rightarrow> leaf) of
           Leaf s xs ss \<Rightarrow>
             do { xs \<leftarrow> array_vec (xs @ [item]);
                  ss \<leftarrow> array_vec (ss @ [summ item]);
                  Some (fst st, Some (Leaf (s + summ item) xs ss)) }
         | Internal _ _ _ _ \<Rightarrow> None }"

definition tree_extend ::
  "('a \<Rightarrow> 's::monoid_add) \<Rightarrow> 'a list \<Rightarrow> ('a, 's) node \<Rightarrow> ('a, 's) node panics" where
  "tree_extend summ xs t =
    do { st \<leftarrow> fold_panics (extend_step summ) xs (t, None);
         case snd st of
           None \<Rightarrow> Some (fst st)
         | Some leaf \<Rightarrow> push_tree (fst st) leaf }"

function update_last_leaf_recursive ::
  "('a \<Rightarrow> 's::monoid_add) \<Rightarrow> ('a \<Rightarrow> 'a) \<Rightarrow> ('a, 's) node \<Rightarrow> (('a, 's) node \<times> 's) panics" where
  "update_last_leaf_recursive summ f (Internal h s ss ts) =
    do { assert_that (ss \<noteq> [] \<and> ts \<noteq> []);
         r \<leftarrow> (if ts \<noteq> [] then update_last_leaf_recursive summ f (last ts) else None);
         let ss = butlast ss @ [snd r];
         let s = sum_of ss;
         Some (Internal h s ss (butlast ts @ [fst r]), s) }"
| "update_last_leaf_recursive summ f (Leaf s xs ss) =
    do { assert_that (xs \<noteq> [] \<and> ss \<noteq> []);
         let x = f (last xs);
         let ss = butlast ss @ [summ x];
         let s = sum_of ss;
         Some (Leaf s (butlast xs @ [x]) ss, s) }"
  by pat_completeness auto
termination
proof (relation "measure (size \<circ> snd \<circ> snd)")
  fix summ :: "'a \<Rightarrow> 's" and f :: "'a \<Rightarrow> 'a" and h s ss and ts :: "('a, 's) node list"
  assume "ts \<noteq> []"
  then have "size (last ts) < Suc (size_list size ts)"
    using size_list_estimation' [of "last ts" ts "size (last ts)" size] by simp
  then show "((summ, f, last ts), (summ, f, Internal h s ss ts)) \<in> measure (size \<circ> snd \<circ> snd)"
    by simp
qed simp

definition update_last ::
  "('a \<Rightarrow> 's::monoid_add) \<Rightarrow> ('a \<Rightarrow> 'a) \<Rightarrow> ('a, 's) node \<Rightarrow> ('a, 's) node panics" where
  "update_last summ f t =
    (if tree_is_empty t then Some t
     else do { r \<leftarrow> update_last_leaf_recursive summ f t; Some (fst r) })"

function leftmost_leaf :: "('a, 's) node \<Rightarrow> ('a, 's) node panics" where
  "leftmost_leaf (Leaf s xs ss) = Some (Leaf s xs ss)"
| "leftmost_leaf (Internal h s ss ts) = (if ts \<noteq> [] then leftmost_leaf (hd ts) else None)"
  by pat_completeness auto
termination
proof (relation "measure size")
  fix h s ss and ts :: "('a, 's) node list"
  assume "ts \<noteq> []"
  then have "size (hd ts) < Suc (size_list size ts)"
    using size_list_estimation' [of "hd ts" ts "size (hd ts)" size] by simp
  then show "(hd ts, Internal h s ss ts) \<in> measure size" by simp
qed simp

function rightmost_leaf :: "('a, 's) node \<Rightarrow> ('a, 's) node panics" where
  "rightmost_leaf (Leaf s xs ss) = Some (Leaf s xs ss)"
| "rightmost_leaf (Internal h s ss ts) = (if ts \<noteq> [] then rightmost_leaf (last ts) else None)"
  by pat_completeness auto
termination
proof (relation "measure size")
  fix h s ss and ts :: "('a, 's) node list"
  assume "ts \<noteq> []"
  then have "size (last ts) < Suc (size_list size ts)"
    using size_list_estimation' [of "last ts" ts "size (last ts)" size] by simp
  then show "(last ts, Internal h s ss ts) \<in> measure size" by simp
qed simp

definition tree_first :: "('a, 's) node \<Rightarrow> 'a option panics" where
  "tree_first t =
    do { leaf \<leftarrow> leftmost_leaf t; xs \<leftarrow> node_items leaf;
         Some (if xs = [] then None else Some (hd xs)) }"

definition tree_last :: "('a, 's) node \<Rightarrow> 'a option panics" where
  "tree_last t =
    do { leaf \<leftarrow> rightmost_leaf t; xs \<leftarrow> node_items leaf;
         Some (if xs = [] then None else Some (last xs)) }"

section \<open>Well-formed trees and the list they stand for\<close>

fun tree_items :: "('a, 's) node \<Rightarrow> 'a list" where
  "tree_items (Leaf _ xs _) = xs"
| "tree_items (Internal _ _ _ ts) = concat (map tree_items ts)"

text \<open>
  A node that is not an empty leaf: within its capacity, at least \<open>m\<close> children (the children
  themselves at least \<open>TREE_BASE\<close>), all leaves at the same depth and not empty, and every cached
  summary the sum of what is below.
\<close>

fun tree_ok :: "('a \<Rightarrow> 's::monoid_add) \<Rightarrow> nat \<Rightarrow> ('a, 's) node \<Rightarrow> bool" where
  "tree_ok summ m (Leaf s xs ss) \<longleftrightarrow>
     xs \<noteq> [] \<and> length xs \<le> 2 * TREE_BASE \<and> ss = map summ xs \<and> s = sum_list ss"
| "tree_ok summ m (Internal h s ss ts) \<longleftrightarrow>
     ts \<noteq> [] \<and> m \<le> length ts \<and> length ts \<le> 2 * TREE_BASE \<and> ss = map node_summary ts \<and>
     s = sum_list ss \<and> (\<forall>t \<in> set ts. tree_ok summ TREE_BASE t \<and> h = Suc (node_height t))"

definition valid_tree :: "('a \<Rightarrow> 's::monoid_add) \<Rightarrow> ('a, 's) node \<Rightarrow> bool" where
  "valid_tree summ t \<longleftrightarrow> t = tree_new \<or> tree_ok summ 2 t"

lemma foldl_add: "foldl (+) a xs = a + sum_list (xs :: 's::monoid_add list)"
  by (induction xs arbitrary: a) (simp_all add: add.assoc)

lemma sum_of_eq [simp]: "sum_of ss = sum_list ss"
  by (simp add: sum_of_def foldl_add)

lemma array_vec_eq [simp]: "length xs \<le> 2 * TREE_BASE \<Longrightarrow> array_vec xs = Some xs"
  by (simp add: array_vec_def)

lemma tree_ok_mono: "tree_ok summ m t \<Longrightarrow> k \<le> m \<Longrightarrow> tree_ok summ k t"
  by (cases t) auto

lemma tree_ok_full: "tree_ok summ m t \<Longrightarrow> \<not> is_underflowing t \<Longrightarrow> tree_ok summ TREE_BASE t"
  by (cases t) auto

lemma sum_list_concat_mono: "sum_list (concat xss) = sum_list (map sum_list (xss :: 's::monoid_add list list))"
  by (induction xss) simp_all

lemma summary_of_items: "tree_ok summ m t \<Longrightarrow> node_summary t = sum_list (map summ (tree_items t))"
proof (induction t arbitrary: m)
  case (Internal h s ss ts)
  then have "map node_summary ts = map (\<lambda>t. sum_list (map summ (tree_items t))) ts"
    by (auto intro!: map_cong)
  with Internal.prems show ?case
    by (simp add: map_concat sum_list_concat_mono comp_def)
qed simp

lemma summaries_of_items:
  "\<forall>t \<in> set ts. tree_ok summ (f t) t \<Longrightarrow>
     sum_list (map node_summary ts) = sum_list (map summ (concat (map tree_items ts)))"
proof (induction ts)
  case (Cons t ts)
  then have "node_summary t = sum_list (map summ (tree_items t))"
    using summary_of_items [of summ "f t" t] by simp
  with Cons show ?case by simp
qed simp

lemma tree_ok_height: "tree_ok summ m t \<Longrightarrow> (node_height t = 0) = is_leaf t"
proof (cases t)
  case (Internal h s ss ts)
  then show "tree_ok summ m t \<Longrightarrow> (node_height t = 0) = is_leaf t"
    by (cases ts) auto
qed simp

lemma midpoint_bounds:
  assumes "2 * TREE_BASE < n" and "n \<le> 4 * TREE_BASE"
  shows "Suc TREE_BASE \<le> midpoint n \<and> midpoint n \<le> 2 * TREE_BASE \<and>
         TREE_BASE \<le> n - midpoint n \<and> n - midpoint n \<le> 2 * TREE_BASE"
proof -
  have "midpoint n = (n + 1) div 2"
    unfolding midpoint_def by presburger
  with assms show ?thesis unfolding TREE_BASE_def by presburger
qed

text \<open>The two halves of an overfull node fit, and so do their summaries.\<close>

lemma halves:
  assumes "2 * TREE_BASE < length xs + length ys"
    and "length xs \<le> 2 * TREE_BASE" and "length ys \<le> 2 * TREE_BASE"
  defines "m \<equiv> midpoint (length xs + length ys)"
  defines "l \<equiv> take m (xs @ ys)" and "r \<equiv> drop m (xs @ ys)"
  shows halves_length: "Suc TREE_BASE \<le> length l" "length l \<le> 2 * TREE_BASE"
      "TREE_BASE \<le> length r" "length r \<le> 2 * TREE_BASE"
    and halves_vec: "array_vec l = Some l" "array_vec r = Some r"
      "array_vec (take m (map f xs @ map f ys)) = Some (map f l)"
      "array_vec (drop m (map f xs @ map f ys)) = Some (map f r)"
    and halves_append: "l @ r = xs @ ys"
    and halves_ne: "l \<noteq> []" "r \<noteq> []"
proof -
  have "Suc TREE_BASE \<le> m \<and> m \<le> 2 * TREE_BASE \<and>
      TREE_BASE \<le> length xs + length ys - m \<and> length xs + length ys - m \<le> 2 * TREE_BASE"
    unfolding m_def by (rule midpoint_bounds) (use assms(1-3) in simp_all)
  then show len: "Suc TREE_BASE \<le> length l" "length l \<le> 2 * TREE_BASE"
      "TREE_BASE \<le> length r" "length r \<le> 2 * TREE_BASE"
    using assms(1) by (auto simp: l_def r_def min_def simp del: take_append drop_append)
  then show "l \<noteq> []" "r \<noteq> []" by (auto simp: TREE_BASE_def)
  show "array_vec l = Some l" "array_vec r = Some r"
    by (rule array_vec_eq, rule len)+
  have "take m (map f xs @ map f ys) = map f l" "drop m (map f xs @ map f ys) = map f r"
    by (simp_all only: l_def r_def take_map drop_map map_append [symmetric])
  then show "array_vec (take m (map f xs @ map f ys)) = Some (map f l)"
      "array_vec (drop m (map f xs @ map f ys)) = Some (map f r)"
    using len by simp_all
  show "l @ r = xs @ ys" by (simp only: l_def r_def append_take_drop_id)
qed

text \<open>What appending to a node returns.\<close>

definition pushed ::
  "('a \<Rightarrow> 's::monoid_add) \<Rightarrow> nat \<Rightarrow> nat \<Rightarrow> 'a list \<Rightarrow>
     (('a, 's) node \<times> ('a, 's) node option) panics \<Rightarrow> bool" where
  "pushed summ m h xs r \<longleftrightarrow>
     (case r of
        None \<Rightarrow> False
      | Some (t, None) \<Rightarrow> tree_ok summ m t \<and> node_height t = h \<and> tree_items t = xs
      | Some (t, Some u) \<Rightarrow>
          tree_ok summ m t \<and> tree_ok summ TREE_BASE t \<and> node_height t = h \<and>
          tree_ok summ TREE_BASE u \<and> node_height u = h \<and> tree_items t @ tree_items u = xs)"

lemma pushed_split:
  assumes "tree_ok summ (Suc TREE_BASE) t" and "m \<le> Suc TREE_BASE" and "node_height t = h"
    and "tree_ok summ TREE_BASE u" and "node_height u = h" and "tree_items t @ tree_items u = xs"
  shows "pushed summ m h xs (Some (t, Some u))"
  using assms tree_ok_mono [OF assms(1)] by (simp add: pushed_def)

lemma internal_ok:
  assumes "ts \<noteq> []" and "m \<le> length ts" and "length ts \<le> 2 * TREE_BASE"
    and "\<forall>t \<in> set ts. tree_ok summ TREE_BASE t \<and> h = Suc (node_height t)"
  shows "tree_ok summ m (Internal h (sum_list (map node_summary ts)) (map node_summary ts) ts)"
  using assms by simp

lemma append_children_ok:
  assumes "ts \<noteq> []" and "m \<le> length ts" and "length ts \<le> 2 * TREE_BASE"
    and "length us \<le> 2 * TREE_BASE" and "m \<le> Suc TREE_BASE"
    and children: "\<forall>t \<in> set (ts @ us). tree_ok summ TREE_BASE t \<and> h = Suc (node_height t)"
    and s: "s = sum_list (map summ (concat (map tree_items (ts @ us))))"
  shows "pushed summ m h (concat (map tree_items (ts @ us)))
           (append_children h s (map node_summary ts) ts (map node_summary us) us)"
proof -
  let ?n = "length ts + length us" and ?all = "ts @ us"
  have sum: "sum_list (map node_summary ?all) = s"
    using summaries_of_items [of ?all summ "\<lambda>_. TREE_BASE"] children s by simp
  show ?thesis
  proof (cases "?n > 2 * TREE_BASE")
    case False
    then have "append_children h s (map node_summary ts) ts (map node_summary us) us =
        Some (Internal h s (map node_summary ?all) ?all, None)"
      using assms by (simp add: append_children_def)
    moreover have "tree_ok summ m (Internal h s (map node_summary ?all) ?all)"
      using internal_ok [of ?all m summ h] False assms sum by auto
    ultimately show ?thesis by (simp add: pushed_def)
  next
    case True
    define l where "l = take (midpoint ?n) ?all"
    define r where "r = drop (midpoint ?n) ?all"
    note hv = halves [OF True assms(3,4), folded l_def r_def]
    have vec: "array_vec (map node_summary us) = Some (map node_summary us)" "array_vec us = Some us"
      using assms(4) by simp_all
    have "append_children h s (map node_summary ts) ts (map node_summary us) us =
        Some (Internal h (sum_list (map node_summary l)) (map node_summary l) l,
              Some (Internal h (sum_list (map node_summary r)) (map node_summary r) r))"
      by (simp only: append_children_def vec bind.bind_lunit Let_def if_P [OF True] l_def [symmetric]
          r_def [symmetric] hv sum_of_eq)
    moreover have "\<forall>t \<in> set l \<union> set r. tree_ok summ TREE_BASE t \<and> h = Suc (node_height t)"
      using children by (simp flip: hv(9))
    then have ok: "tree_ok summ (Suc TREE_BASE) (Internal h (sum_list (map node_summary l)) (map node_summary l) l)"
      "tree_ok summ TREE_BASE (Internal h (sum_list (map node_summary r)) (map node_summary r) r)"
      using hv by (simp_all add: internal_ok)
    have "pushed summ m h (concat (map tree_items ?all))
        (Some (Internal h (sum_list (map node_summary l)) (map node_summary l) l,
               Some (Internal h (sum_list (map node_summary r)) (map node_summary r) r)))"
      by (rule pushed_split [OF ok(1) assms(5) _ ok(2)]) (simp_all flip: hv(9))
    ultimately show ?thesis by simp
  qed
qed

lemma append_items_ok:
  assumes "length xs \<le> 2 * TREE_BASE" and "tree_ok summ 1 u" and "node_height u = 0"
    and "m \<le> Suc TREE_BASE"
  shows "pushed summ m 0 (xs @ tree_items u)
           (append_items (sum_list (map summ xs)) xs (map summ xs) u)"
proof -
  obtain ys where u: "u = Leaf (sum_list (map summ ys)) ys (map summ ys)" "ys \<noteq> []"
    "length ys \<le> 2 * TREE_BASE"
    using assms(2,3) by (cases u) auto
  let ?n = "length xs + length ys" and ?all = "xs @ ys"
  show ?thesis
  proof (cases "?n > 2 * TREE_BASE")
    case False
    then show ?thesis
      using assms u by (simp add: append_items_def pushed_def)
  next
    case True
    define l where "l = take (midpoint ?n) ?all"
    define r where "r = drop (midpoint ?n) ?all"
    note hv = halves [OF True assms(1) u(3), folded l_def r_def]
    have "append_items (sum_list (map summ xs)) xs (map summ xs) u =
        Some (Leaf (sum_list (map summ l)) l (map summ l),
              Some (Leaf (sum_list (map summ r)) r (map summ r)))"
      by (simp only: append_items_def u(1) node_items.simps child_summaries.simps bind.bind_lunit
          Let_def if_P [OF True] l_def [symmetric]
          r_def [symmetric] hv sum_of_eq)
    moreover have "pushed summ m 0 (xs @ ys)
        (Some (Leaf (sum_list (map summ l)) l (map summ l),
               Some (Leaf (sum_list (map summ r)) r (map summ r))))"
      by (rule pushed_split) (use hv assms(4) in simp_all)
    ultimately show ?thesis using u(1) by simp
  qed
qed

lemma pushedE:
  assumes "pushed summ m h xs r"
  obtains t where "r = Some (t, None)" "tree_ok summ m t" "node_height t = h" "tree_items t = xs"
  | t u where "r = Some (t, Some u)" "tree_ok summ m t" "tree_ok summ TREE_BASE t"
      "node_height t = h" "tree_ok summ TREE_BASE u" "node_height u = h"
      "tree_items t @ tree_items u = xs"
  using assms by (auto simp: pushed_def split: option.splits prod.splits)

lemma tree_ok_internalE:
  assumes "tree_ok summ m t" and "node_height t > 0"
  obtains h ts where "t = Internal h (sum_list (map node_summary ts)) (map node_summary ts) ts"
    "ts \<noteq> []" "m \<le> length ts" "length ts \<le> 2 * TREE_BASE"
    "\<forall>t \<in> set ts. tree_ok summ TREE_BASE t \<and> h = Suc (node_height t)"
  using assms by (cases t) auto

lemma tree_ok_leafE:
  assumes "tree_ok summ m t" and "node_height t = 0"
  obtains xs where "t = Leaf (sum_list (map summ xs)) xs (map summ xs)" "xs \<noteq> []"
    "length xs \<le> 2 * TREE_BASE"
proof -
  from assms have "is_leaf t" using tree_ok_height by blast
  with assms that show thesis by (cases t) auto
qed

lemma push_tree_recursive_ok:
  assumes "t = tree_new \<or> tree_ok summ m t" and "m \<le> Suc TREE_BASE"
    and "tree_ok summ 1 other" and "node_height other \<le> node_height t"
  shows "pushed summ m (node_height t) (tree_items t @ tree_items other) (push_tree_recursive t other)"
  using assms
proof (induction t other arbitrary: m rule: push_tree_recursive.induct)
  case (2 s xs ss other)
  then have "s = sum_list (map summ xs) \<and> ss = map summ xs \<and> length xs \<le> 2 * TREE_BASE"
    by (auto simp: tree_new_def)
  with 2 append_items_ok [of xs summ other m] show ?case by simp
next
  case (1 h s ss ts other)
  let ?s = "s + node_summary other"
  from "1.prems"(1) have t: "ts \<noteq> []" "m \<le> length ts" "length ts \<le> 2 * TREE_BASE"
    "ss = map node_summary ts" "s = sum_list (map summ (concat (map tree_items ts)))"
    and ts: "\<forall>t \<in> set ts. tree_ok summ TREE_BASE t \<and> h = Suc (node_height t)"
    using summaries_of_items [of ts summ "\<lambda>_. TREE_BASE"] by (auto simp: tree_new_def)
  have s': "?s = sum_list (map summ (concat (map tree_items ts) @ tree_items other))"
    using t(5) summary_of_items [OF "1.prems"(3)] by simp
  have pos: "0 < h" using t(1) ts by (cases ts) auto
  have h: "usub h (node_height other) = Some (h - node_height other)"
    using "1.prems"(4) by (simp add: usub_def)
  consider (same) "node_height other = h"
    | (full) "node_height other < h" "h - node_height other = 1" "\<not> is_underflowing other"
    | (down) "node_height other < h" "\<not> (h - node_height other = 1 \<and> \<not> is_underflowing other)"
    using "1.prems"(4) by fastforce
  then show ?case
  proof cases
    case same
    with pos "1.prems"(3) obtain us where us: "other =
        Internal h (sum_list (map node_summary us)) (map node_summary us) us"
      "length us \<le> 2 * TREE_BASE" "\<forall>t \<in> set us. tree_ok summ TREE_BASE t \<and> h = Suc (node_height t)"
      by (auto elim!: tree_ok_internalE)
    have "pushed summ m h (concat (map tree_items (ts @ us)))
        (append_children h ?s (map node_summary ts) ts (map node_summary us) us)"
      by (rule append_children_ok) (use t ts us s' "1.prems"(2) in auto)
    then show ?thesis using same h us(1) t(4) by simp
  next
    case full
    have "pushed summ m h (concat (map tree_items (ts @ [other])))
        (append_children h ?s (map node_summary ts) ts (map node_summary [other]) [other])"
      by (rule append_children_ok)
        (use t ts full s' "1.prems"(2) tree_ok_full [OF "1.prems"(3)] in \<open>auto simp: TREE_BASE_def\<close>)
    then show ?thesis using full h t(4) by simp
  next
    case down
    let ?l = "last ts"
    have l: "tree_ok summ TREE_BASE ?l" "h = Suc (node_height ?l)" and split: "ts = butlast ts @ [?l]"
      using t(1) ts by auto
    have "pushed summ TREE_BASE (node_height ?l) (tree_items ?l @ tree_items other)
        (push_tree_recursive ?l other)"
      using "1.IH" h down t(1,4) l "1.prems"(3) by simp
    note r = this
    have items: "concat (map tree_items ts) = concat (map tree_items (butlast ts)) @ tree_items ?l"
      using arg_cong [OF split, of "\<lambda>ts. concat (map tree_items ts)"] by simp
    have init: "\<forall>t \<in> set (butlast ts). tree_ok summ TREE_BASE t \<and> h = Suc (node_height t)"
      "length (butlast ts) = length ts - 1"
      using ts by (auto dest: in_set_butlastD)
    from r show ?thesis
    proof (cases rule: pushedE)
      case (1 t')
      have "pushed summ m h (concat (map tree_items ((butlast ts @ [t']) @ us)))
          (append_children h ?s (map node_summary (butlast ts @ [t'])) (butlast ts @ [t'])
             (map node_summary us) us)" if "us = []" for us
        by (rule append_children_ok) (use that t(1-3) l(2) init 1 items s' "1.prems"(2) in auto)
      then show ?thesis
        using down h t(1,4) 1 items
        by (cases "is_underflowing other") (simp_all add: map_butlast assert_that_def)
    next
      case (2 t' u)
      have "pushed summ m h (concat (map tree_items ((butlast ts @ [t']) @ [u])))
          (append_children h ?s (map node_summary (butlast ts @ [t'])) (butlast ts @ [t'])
             (map node_summary [u]) [u])"
        by (rule append_children_ok)
          (use t(1-3) l(2) init 2 items s' "1.prems"(2) in \<open>auto simp: TREE_BASE_def\<close>)
      then show ?thesis
        using down h t(1,4) 2 items
        by (cases "is_underflowing other") (simp_all add: map_butlast assert_that_def)
    qed
  qed
qed

section \<open>Every operation is an operation on lists\<close>

definition represents :: "('a \<Rightarrow> 's::monoid_add) \<Rightarrow> ('a, 's) node \<Rightarrow> 'a list \<Rightarrow> bool" where
  "represents summ t xs \<longleftrightarrow> valid_tree summ t \<and> tree_items t = xs"

definition yields :: "('a \<Rightarrow> 's::monoid_add) \<Rightarrow> ('a, 's) node panics \<Rightarrow> 'a list \<Rightarrow> bool" where
  "yields summ r xs \<longleftrightarrow> (\<exists>t. r = Some t \<and> represents summ t xs)"

lemma yields_Some [simp]: "yields summ (Some t) xs = represents summ t xs"
  by (simp add: yields_def)

lemma yields_bind:
  "yields summ r xs \<Longrightarrow> (\<And>t. represents summ t xs \<Longrightarrow> yields summ (f t) ys) \<Longrightarrow>
     yields summ (r \<bind> f) ys"
  by (auto simp: yields_def)

lemma represents_new [simp]: "represents summ tree_new []"
  by (simp add: represents_def valid_tree_def tree_new_def)

lemma from_child_trees_ok:
  assumes "ts \<noteq> []" and "length ts \<le> 2 * TREE_BASE"
    and "\<forall>t \<in> set ts. tree_ok summ TREE_BASE t \<and> node_height t = k"
  shows "\<exists>t. from_child_trees ts = Some t \<and> tree_ok summ (length ts) t \<and>
           tree_items t = concat (map tree_items ts)"
  using assms by (cases ts) (simp_all add: from_child_trees_def nth_checked_def)

lemma push_tree_ok:
  "represents summ t xs \<Longrightarrow> u = tree_new \<or> tree_ok summ 1 u \<Longrightarrow>
     yields summ (push_tree t u) (xs @ tree_items u)"
  "represents summ t xs \<Longrightarrow> \<forall>u \<in> set us. tree_ok summ 1 u \<Longrightarrow>
     yields summ (push_trees t us) (xs @ concat (map tree_items us))"
proof (induction t u and t us arbitrary: xs and xs rule: push_tree_push_trees.induct)
  case (1 t other)
  show ?case
  proof (cases "other = tree_new")
    case True
    then show ?thesis using 1 by (simp add: tree_new_def)
  next
    case False
    then have other: "tree_ok summ 1 other" "\<not> is_leaf other \<or> node_items other \<noteq> Some []"
      using "1.prems"(2) by (cases other; auto)+
    show ?thesis
    proof (cases "node_height t < node_height other")
      case True
      then obtain h us where "other = Internal h (sum_list (map node_summary us)) (map node_summary us) us"
          "\<forall>u \<in> set us. tree_ok summ TREE_BASE u \<and> h = Suc (node_height u)"
        by (metis tree_ok_internalE [OF other(1)] gr_zeroI not_less0)
      moreover from this have "\<forall>u \<in> set us. tree_ok summ 1 u"
        using tree_ok_mono [of summ TREE_BASE _ 1] by (simp add: TREE_BASE_def)
      ultimately show ?thesis
        using 1 True other(2) by simp
    next
      case low: False
      have "pushed summ 2 (node_height t) (tree_items t @ tree_items other) (push_tree_recursive t other)"
        by (rule push_tree_recursive_ok)
          (use "1.prems"(1) other low in \<open>auto simp: represents_def valid_tree_def TREE_BASE_def\<close>)
      then show ?thesis
      proof (cases rule: pushedE)
        case (1 t')
        then show ?thesis
          using other low "1.prems"(1) by (simp add: represents_def valid_tree_def)
      next
        case (2 t' u)
        then obtain r where "from_child_trees [t', u] = Some r" "tree_ok summ 2 r"
            "tree_items r = tree_items t' @ tree_items u"
          using from_child_trees_ok [of "[t', u]" summ "node_height t"] by (auto simp: TREE_BASE_def numeral_2_eq_2)
        then show ?thesis
          using 2 other low "1.prems"(1) by (simp add: represents_def valid_tree_def)
      qed
    qed
  qed
next
  case (3 t u us)
  from 3 have "yields summ (push_tree t u) (xs @ tree_items u)" by simp
  then obtain t' where "push_tree t u = Some t'" "represents summ t' (xs @ tree_items u)"
    by (auto simp: yields_def simp del: push_tree.simps)
  with "3.IH"(2) [of t' "xs @ tree_items u"] "3.prems"(2) show ?case
    by (simp del: push_tree.simps)
qed simp

declare push_tree.simps [simp del]

lemma leaf_represents:
  "xs \<noteq> [] \<Longrightarrow> length xs \<le> 2 * TREE_BASE \<Longrightarrow>
     tree_ok summ m (Leaf (sum_list (map summ xs)) xs (map summ xs))"
  by simp

lemma tree_push_ok:
  assumes "represents summ t xs"
  shows "yields summ (tree_push summ x t) (xs @ [x])"
proof -
  have "from_child_trees [Leaf (summ x) [x] [summ x]] =
      Some (Internal 1 (summ x) [summ x] [Leaf (summ x) [x] [summ x]])"
    by (simp add: from_child_trees_def nth_checked_def TREE_BASE_def)
  then show ?thesis
    using push_tree_ok(1) [OF assms, of "Internal 1 (summ x) [summ x] [Leaf (summ x) [x] [summ x]]"]
    by (simp add: tree_push_def TREE_BASE_def)
qed

text \<open>Between two rounds of \<open>extend\<close>, the tree and the leaf being filled hold the items so far.\<close>

definition extending ::
  "('a \<Rightarrow> 's::monoid_add) \<Rightarrow> 'a list \<Rightarrow> ('a, 's) node \<times> ('a, 's) node option \<Rightarrow> bool" where
  "extending summ xs st \<longleftrightarrow>
     (\<exists>t ys zs. xs = ys @ zs \<and> represents summ t ys \<and> length zs \<le> 2 * TREE_BASE \<and>
        st = (t, if zs = [] then None else Some (Leaf (sum_list (map summ zs)) zs (map summ zs))))"

lemma extend_step_ok:
  assumes "extending summ xs st"
  shows "\<exists>st'. extend_step summ x st = Some st' \<and> extending summ (xs @ [x]) st'"
proof -
  let ?leaf = "\<lambda>zs. Leaf (sum_list (map summ zs)) zs (map summ zs)"
  obtain t ys zs where st: "xs = ys @ zs" "represents summ t ys" "length zs \<le> 2 * TREE_BASE"
      "st = (t, if zs = [] then None else Some (?leaf zs))"
    using assms by (auto simp: extending_def)
  consider "length zs < 2 * TREE_BASE" | (full) "length zs = 2 * TREE_BASE"
    using st(3) by linarith
  then show ?thesis
  proof cases
    case 1
    then have "extend_step summ x st = Some (t, Some (?leaf (zs @ [x])))"
      using st by (auto simp: extend_step_def)
    moreover have "extending summ (xs @ [x]) (t, Some (?leaf (zs @ [x])))"
      unfolding extending_def using 1 st by (intro exI [of _ t] exI [of _ ys] exI [of _ "zs @ [x]"]) simp
    ultimately show ?thesis by blast
  next
    case full
    then have ne: "zs \<noteq> []" by (auto simp: TREE_BASE_def)
    have "yields summ (push_tree t (?leaf zs)) (ys @ zs)"
      using push_tree_ok(1) [OF st(2), of "?leaf zs"] ne full by simp
    then obtain t' where t': "push_tree t (?leaf zs) = Some t'" "represents summ t' xs"
      using st(1) by (auto simp: yields_def)
    then have "extend_step summ x st = Some (t', Some (?leaf [x]))"
      using st(4) ne full by (simp add: extend_step_def TREE_BASE_def)
    moreover have "extending summ (xs @ [x]) (t', Some (?leaf [x]))"
      unfolding extending_def using t'
      by (intro exI [of _ t'] exI [of _ xs] exI [of _ "[x]"]) (simp add: TREE_BASE_def)
    ultimately show ?thesis by blast
  qed
qed

lemma extend_loop_ok:
  "extending summ xs st \<Longrightarrow>
     \<exists>st'. fold_panics (extend_step summ) zs st = Some st' \<and> extending summ (xs @ zs) st'"
proof (induction zs arbitrary: xs st)
  case (Cons z zs)
  from extend_step_ok [OF Cons.prems, of z] obtain st' where
    "extend_step summ z st = Some st'" "extending summ (xs @ [z]) st'" by blast
  with Cons.IH [of "xs @ [z]" st'] show ?case by simp
qed simp

lemma tree_extend_ok:
  assumes "represents summ t xs"
  shows "yields summ (tree_extend summ zs t) (xs @ zs)"
proof -
  let ?leaf = "\<lambda>zs. Leaf (sum_list (map summ zs)) zs (map summ zs)"
  have "extending summ xs (t, None)"
    unfolding extending_def using assms by (intro exI [of _ t] exI [of _ xs] exI [of _ "[]"]) simp
  then obtain st where st: "fold_panics (extend_step summ) zs (t, None) = Some st"
      "extending summ (xs @ zs) st"
    using extend_loop_ok by blast
  obtain t' ys us where t': "xs @ zs = ys @ us" "represents summ t' ys" "length us \<le> 2 * TREE_BASE"
      "st = (t', if us = [] then None else Some (?leaf us))"
    using st(2) by (auto simp: extending_def)
  have "us \<noteq> [] \<Longrightarrow> yields summ (push_tree t' (?leaf us)) (ys @ us)"
    using push_tree_ok(1) [OF t'(2), of "?leaf us"] t'(3) by simp
  then show ?thesis
    using st(1) t' by (simp add: tree_extend_def)
qed

lemma tree_ok_items_ne: "tree_ok summ m t \<Longrightarrow> tree_items t \<noteq> []"
proof (induction t arbitrary: m)
  case (Internal h s ss ts)
  then show ?case by (cases ts) auto
qed simp

lemma represents_cases:
  assumes "represents summ t xs"
  obtains "t = tree_new" "xs = []" | "tree_ok summ 2 t" "tree_items t = xs" "xs \<noteq> []"
  using assms tree_ok_items_ne
  by (fastforce simp: represents_def valid_tree_def tree_new_def)

lemma concat_last:
  assumes "ts \<noteq> []" and "f (last ts) \<noteq> []"
  shows "butlast (concat (map f ts)) = concat (map f (butlast ts)) @ butlast (f (last ts))"
    and "last (concat (map f ts)) = last (f (last ts))"
proof -
  have "concat (map f ts) = concat (map f (butlast ts)) @ f (last ts)"
    using assms(1) by (induction ts) auto
  with assms(2) show "butlast (concat (map f ts)) = concat (map f (butlast ts)) @ butlast (f (last ts))"
    and "last (concat (map f ts)) = last (f (last ts))"
    by (simp_all add: butlast_append)
qed

lemma update_last_leaf_recursive_ok:
  assumes "tree_ok summ m t"
  shows "\<exists>t'. update_last_leaf_recursive summ f t = Some (t', node_summary t') \<and>
           tree_ok summ m t' \<and> node_height t' = node_height t \<and>
           tree_items t' = butlast (tree_items t) @ [f (last (tree_items t))]"
  using assms
proof (induction summ f t arbitrary: m rule: update_last_leaf_recursive.induct)
  case (1 summ f h s ss ts)
  then have ts: "ts \<noteq> []" "m \<le> length ts" "length ts \<le> 2 * TREE_BASE" "ss = map node_summary ts"
    "\<forall>t \<in> set ts. tree_ok summ TREE_BASE t \<and> h = Suc (node_height t)"
    by auto
  then have l: "tree_ok summ TREE_BASE (last ts)" "h = Suc (node_height (last ts))" by simp_all
  with 1 ts obtain u where u: "update_last_leaf_recursive summ f (last ts) = Some (u, node_summary u)"
    "tree_ok summ TREE_BASE u" "node_height u = node_height (last ts)"
    "tree_items u = butlast (tree_items (last ts)) @ [f (last (tree_items (last ts)))]"
    by force
  let ?ts = "butlast ts @ [u]"
  have "update_last_leaf_recursive summ f (Internal h s ss ts) =
      Some (Internal h (sum_list (map node_summary ?ts)) (map node_summary ?ts) ?ts,
            sum_list (map node_summary ?ts))"
    using ts u by (simp add: map_butlast Let_def)
  moreover have "tree_ok summ m (Internal h (sum_list (map node_summary ?ts)) (map node_summary ?ts) ?ts)"
    by (rule internal_ok) (use ts l u in \<open>auto dest: in_set_butlastD\<close>)
  ultimately show ?case
    using ts(1) u(4) concat_last [OF ts(1), of tree_items] tree_ok_items_ne [OF l(1)] by auto
next
  case (2 summ f s xs ss)
  then show ?case by (simp add: map_butlast Let_def)
qed

lemma leftmost_leaf_ok:
  "tree_ok summ m t \<Longrightarrow> \<exists>s xs ss. leftmost_leaf t = Some (Leaf s xs ss) \<and> xs \<noteq> [] \<and>
     hd xs = hd (tree_items t)"
proof (induction t arbitrary: m rule: leftmost_leaf.induct)
  case (2 h s ss ts)
  then obtain u us where "ts = u # us" by (cases ts) auto
  with 2 tree_ok_items_ne [of summ TREE_BASE u] show ?case by fastforce
qed simp

lemma rightmost_leaf_ok:
  "tree_ok summ m t \<Longrightarrow> \<exists>s xs ss. rightmost_leaf t = Some (Leaf s xs ss) \<and> xs \<noteq> [] \<and>
     last xs = last (tree_items t)"
proof (induction t arbitrary: m rule: rightmost_leaf.induct)
  case (2 h s ss ts)
  then have "ts \<noteq> []" "tree_ok summ TREE_BASE (last ts)" by auto
  with "2.IH" [of TREE_BASE] tree_ok_items_ne [of summ TREE_BASE "last ts"]
    concat_last(2) [of ts tree_items]
  show ?case by auto
qed simp

lemma tree_ok_size:
  "tree_ok summ m t \<Longrightarrow> 0 < node_height t \<Longrightarrow> m * TREE_BASE ^ (node_height t - 1) \<le> length (tree_items t)"
proof (induction t arbitrary: m)
  case (Internal h s ss ts)
  have child: "TREE_BASE ^ (h - 1) \<le> length (tree_items t)" if "t \<in> set ts" for t
  proof (cases "node_height t")
    case 0
    then show ?thesis
      using that Internal.prems(1) tree_ok_items_ne [of summ TREE_BASE t] by (auto simp: Suc_le_eq)
  next
    case (Suc k)
    then show ?thesis using that Internal.IH [of t TREE_BASE] Internal.prems(1) by auto
  qed
  then have "(\<Sum>t\<leftarrow>ts. TREE_BASE ^ (h - 1)) \<le> (\<Sum>t\<leftarrow>ts. length (tree_items t))"
    by (intro sum_list_mono)
  then have "length ts * TREE_BASE ^ (h - 1) \<le> length (tree_items (Internal h s ss ts))"
    by (simp add: sum_list_triv length_concat comp_def)
  moreover have "m * TREE_BASE ^ (h - 1) \<le> length ts * TREE_BASE ^ (h - 1)"
    using Internal.prems(1) by simp
  ultimately have "m * TREE_BASE ^ (h - 1) \<le> length (tree_items (Internal h s ss ts))"
    by (rule order_trans [rotated])
  then show ?case by (simp only: node_height.simps)
qed simp

section \<open>The contract of a summarised sequence\<close>

text \<open>
  What the clients of the tree (the text buffer, the block list) rely on: there is a list the tree
  stands for, and pushing an item or a tree succeeds and appends to it.
\<close>

locale pushable =
  fixes rep :: "'t \<Rightarrow> 'a list \<Rightarrow> bool"
    and empty :: 't
    and push :: "'a \<Rightarrow> 't \<Rightarrow> 't panics"
    and join :: "'t \<Rightarrow> 't \<Rightarrow> 't panics"
  assumes rep_empty: "rep empty []"
    and rep_push: "rep t xs \<Longrightarrow> \<exists>t'. push x t = Some t' \<and> rep t' (xs @ [x])"
    and rep_join: "rep t xs \<Longrightarrow> rep u ys \<Longrightarrow> \<exists>t'. join t u = Some t' \<and> rep t' (xs @ ys)"
begin

lemma rep_pushes:
  "rep t xs \<Longrightarrow> \<exists>t'. fold_panics push ys t = Some t' \<and> rep t' (xs @ ys)"
proof (induction ys arbitrary: t xs)
  case (Cons y ys)
  from rep_push [OF Cons.prems, of y] obtain t' where "push y t = Some t'" "rep t' (xs @ [y])"
    by blast
  with Cons.IH [of t' "xs @ [y]"] show ?case by simp
qed simp

lemma rep_joins:
  "rep t xs \<Longrightarrow> list_all2 rep us yss \<Longrightarrow>
     \<exists>t'. fold_panics (\<lambda>u t. join t u) us t = Some t' \<and> rep t' (xs @ concat yss)"
proof (induction us arbitrary: t xs yss)
  case (Cons u us)
  from Cons.prems(2) obtain ys yss' where ys: "yss = ys # yss'" "rep u ys" "list_all2 rep us yss'"
    by (cases yss) auto
  from rep_join [OF Cons.prems(1) ys(2)] obtain t' where "join t u = Some t'" "rep t' (xs @ ys)"
    by blast
  with Cons.IH [of t' "xs @ ys" yss'] ys show ?case by simp
qed simp

end

lemma yields_exists: "yields summ r xs \<Longrightarrow> \<exists>t. r = Some t \<and> represents summ t xs"
  by (simp add: yields_def)

lemma represents_pushable: "represents summ u ys \<Longrightarrow> u = tree_new \<or> tree_ok summ 1 u"
  using tree_ok_mono [of summ 2 u 1] by (auto simp: represents_def valid_tree_def)

lemma push_tree_represents:
  assumes "represents summ t xs" and "represents summ u ys"
  shows "yields summ (push_tree t u) (xs @ ys)"
  using push_tree_ok(1) [OF assms(1) represents_pushable [OF assms(2)]] assms(2)
  by (simp add: represents_def)

interpretation pushed_items: pushable "represents summ" tree_new "tree_push summ" push_tree
  for summ :: "'a \<Rightarrow> 's::monoid_add"
  by unfold_locales
    (simp, rule yields_exists, erule tree_push_ok, rule yields_exists, erule (1) push_tree_represents)

section \<open>Properties of the tree\<close>

lemma represents_summary:
  assumes "represents summ t xs"
  shows "node_summary t = sum_list (map summ xs)"
  using represents_cases [OF assms]
proof cases
  case 2
  then show ?thesis using summary_of_items [OF 2(1)] by simp
qed (simp add: tree_new_def)

text \<open>
  A tree with fourteen numbers in two leaves, summarised by their sum, and a tree with a third.
\<close>

definition sample_leaf :: "nat list \<Rightarrow> (nat, nat) node" where
  "sample_leaf xs = Leaf (sum_list xs) xs xs"

definition sample_tree :: "(nat, nat) node" where
  "sample_tree = Internal 1 91 [21, 70] [sample_leaf [0..<7], sample_leaf [7..<14]]"

lemma sample_tree_represents: "represents (\<lambda>n. n) sample_tree [0..<14]"
  by (simp add: represents_def valid_tree_def sample_tree_def sample_leaf_def TREE_BASE_def upt_rec)

text \<open>
  C32. Appending one summarised tree to another (\<open>push_tree\<close>), of whatever heights, never panics, keeps
  the tree well-formed (balanced, inner nodes filled between their bounds and leaves not empty nor over
  theirs, every cached summary exact, for summaries that form a monoid) and yields
  the items of the first followed by those of the second, with the sum of the two summaries.
\<close>

theorem push_tree_correct:
  assumes "represents summ t xs" and "represents summ u ys"
  shows "\<exists>t'. push_tree t u = Some t' \<and> represents summ t' (xs @ ys) \<and>
           node_summary t' = node_summary t + node_summary u"
proof -
  from pushed_items.rep_join [OF assms] obtain t' where
    t': "push_tree t u = Some t'" "represents summ t' (xs @ ys)" by blast
  with assms show ?thesis by (simp add: represents_summary)
qed

theorem push_tree_correct_witness:
  "\<exists>t'. push_tree sample_tree sample_tree = Some t' \<and> tree_items t' = [0..<14] @ [0..<14]"
  using push_tree_correct [OF sample_tree_represents sample_tree_represents]
  by (auto simp: represents_def)

text \<open>
  Extending a tree by a sequence of items, which fills leaves and pushes each full one, never
  panics and yields the items of the tree followed by the sequence: the same items and summary as
  pushing the items one at a time with \<open>push\<close>.
\<close>

theorem tree_extend_correct:
  assumes "represents summ t xs"
  shows "\<exists>u v. tree_extend summ ys t = Some u \<and> fold_panics (tree_push summ) ys t = Some v \<and>
           represents summ u (xs @ ys) \<and> represents summ v (xs @ ys) \<and>
           node_summary u = node_summary v"
proof -
  from yields_exists [OF tree_extend_ok [OF assms]] obtain u where
    "tree_extend summ ys t = Some u" "represents summ u (xs @ ys)" by blast
  moreover from pushed_items.rep_pushes [OF assms] obtain v where
    "fold_panics (tree_push summ) ys t = Some v" "represents summ v (xs @ ys)" by blast
  ultimately show ?thesis by (simp add: represents_summary)
qed

theorem tree_extend_correct_witness:
  "\<exists>u. tree_extend (\<lambda>n. n) [14, 15] sample_tree = Some u \<and> node_summary u = 120"
proof -
  from tree_extend_correct [OF sample_tree_represents, of "[14, 15]"] obtain u where
    "tree_extend (\<lambda>n. n) [14, 15] sample_tree = Some u" "represents (\<lambda>n. n) u ([0..<14] @ [14, 15])"
    by blast
  then show ?thesis using represents_summary by (fastforce simp: upt_rec)
qed

text \<open>
  \<open>update_last\<close> replaces the last item by what the callback makes of it and nothing else, with
  every summary on the path recomputed; on an empty tree it does nothing.
\<close>

theorem update_last_correct:
  assumes "represents summ t xs"
  shows "\<exists>t'. update_last summ f t = Some t' \<and>
           represents summ t' (if xs = [] then [] else butlast xs @ [f (last xs)])"
  using represents_cases [OF assms]
proof cases
  case 1
  then show ?thesis by (simp add: update_last_def tree_new_def represents_def valid_tree_def)
next
  case 2
  from 2(1) have "\<not> tree_is_empty t" by (cases t) auto
  with 2 update_last_leaf_recursive_ok [OF 2(1), of f] show ?thesis
    by (auto simp: update_last_def represents_def valid_tree_def)
qed

theorem update_last_correct_witness:
  "\<exists>t'. update_last (\<lambda>n. n) Suc sample_tree = Some t' \<and> tree_items t' = [0..<13] @ [14]"
  using update_last_correct [OF sample_tree_represents, of Suc]
  by (auto simp: represents_def upt_rec)

text \<open>
  The queries answer from the list: the cached summary is the sum over all items, the tree is
  empty exactly when it has no items, and \<open>first\<close> and \<open>last\<close> never panic and return the ends.
\<close>

theorem tree_queries_correct:
  assumes "represents summ t xs"
  shows "node_summary t = sum_list (map summ xs) \<and> tree_is_empty t = (xs = []) \<and>
         tree_first t = Some (if xs = [] then None else Some (hd xs)) \<and>
         tree_last t = Some (if xs = [] then None else Some (last xs))"
  using represents_cases [OF assms]
proof cases
  case 1
  then show ?thesis by (simp add: tree_new_def tree_first_def tree_last_def)
next
  case 2
  from 2(1,3) have "\<not> tree_is_empty t" by (cases t) auto
  with 2 represents_summary [OF assms] leftmost_leaf_ok [OF 2(1)] rightmost_leaf_ok [OF 2(1)]
  show ?thesis by (auto simp: tree_first_def tree_last_def)
qed

theorem tree_queries_correct_witness:
  "tree_first sample_tree = Some (Some 0) \<and> tree_last sample_tree = Some (Some 13)"
  using tree_queries_correct [OF sample_tree_represents] by (simp add: upt_rec)

lemma tree_ok_capacity: "tree_ok summ m t \<Longrightarrow> length (tree_items t) \<le> (2 * TREE_BASE) ^ Suc (node_height t)"
proof (induction t arbitrary: m)
  case (Internal h s ss ts)
  have "length (tree_items t) \<le> (2 * TREE_BASE) ^ h" if "t \<in> set ts" for t
    using that Internal.IH [of t TREE_BASE] Internal.prems by auto
  then have "(\<Sum>t\<leftarrow>ts. length (tree_items t)) \<le> (\<Sum>t\<leftarrow>ts. (2 * TREE_BASE) ^ h)"
    by (intro sum_list_mono)
  also have "\<dots> = length ts * (2 * TREE_BASE) ^ h" by (simp add: sum_list_triv)
  also have "\<dots> \<le> (2 * TREE_BASE) * (2 * TREE_BASE) ^ h" using Internal.prems by (intro mult_le_mono1) simp
  finally show ?case by (simp add: length_concat comp_def)
qed simp

text \<open>A height that fits a number of items, and with up to \<open>2 ^ 64\<close> of them fits into the \<open>u8\<close> of a node.\<close>

definition logarithmic :: "nat \<Rightarrow> nat \<Rightarrow> bool" where
  "logarithmic h n \<longleftrightarrow>
     (0 < h \<longrightarrow> 2 * 6 ^ (h - 1) \<le> n) \<and> n \<le> 12 ^ (h + 1) \<and> (n < 2 ^ 64 \<longrightarrow> h \<le> 25)"

lemma represents_logarithmic:
  assumes "represents summ t xs"
  shows "logarithmic (node_height t) (length xs)"
  using represents_cases [OF assms]
proof cases
  case 1
  then show ?thesis by (simp add: tree_new_def logarithmic_def)
next
  case 2
  then have size: "0 < node_height t \<longrightarrow> 2 * 6 ^ (node_height t - 1) \<le> length xs"
    using tree_ok_size [OF 2(1)] by (auto simp: TREE_BASE_def)
  have "length xs \<le> 12 ^ (node_height t + 1)"
    using tree_ok_capacity [OF 2(1)] 2(2) by (simp add: TREE_BASE_def)
  moreover have "length xs < 2 ^ 64 \<longrightarrow> node_height t \<le> 25"
  proof (rule ccontr)
    assume "\<not> ?thesis"
    then have big: "length xs < 2 ^ 64" and "\<not> node_height t \<le> 25" by simp_all
    then have "25 \<le> node_height t - 1" by linarith
    then have "(6::nat) ^ 25 \<le> 6 ^ (node_height t - 1)" by (intro power_increasing) simp_all
    with size big show False by simp
  qed
  ultimately show ?thesis using size by (simp add: logarithmic_def)
qed

text \<open>A tree that is not higher is taken in at the same height or one more.\<close>

lemma push_tree_grows:
  assumes "represents summ t xs" and "represents summ u ys" and "node_height u \<le> node_height t"
    and "push_tree t u = Some t'"
  shows "node_height t' = node_height t \<or> node_height t' = Suc (node_height t)"
proof (cases "u = tree_new")
  case True
  then show ?thesis using assms(4) by (simp add: tree_new_def push_tree.simps)
next
  case False
  then have u: "tree_ok summ 1 u" using represents_pushable [OF assms(2)] by blast
  then have ne: "\<not> is_leaf u \<or> node_items u \<noteq> Some []" by (cases u) auto
  have "pushed summ 2 (node_height t) (tree_items t @ tree_items u) (push_tree_recursive t u)"
    by (rule push_tree_recursive_ok)
      (use assms(1,3) u in \<open>auto simp: represents_def valid_tree_def TREE_BASE_def\<close>)
  then show ?thesis
  proof (cases rule: pushedE)
    case (1 r)
    then show ?thesis using assms(3,4) ne by (simp add: push_tree.simps)
  next
    case (2 r v)
    then show ?thesis using assms(3,4) ne
      by (auto simp: push_tree.simps from_child_trees_def nth_checked_def split: bind_splits if_splits)
  qed
qed

text \<open>
  C33. The height stays logarithmic in the number of items through every operation that adds some: the trees that
  \<open>push_tree\<close>, \<open>push\<close> and \<open>extend\<close> make of well-formed trees with any summaries that form
  a monoid have, at height \<open>h\<close>, at most \<open>12 ^ (h + 1)\<close> items, and if \<open>h > 0\<close> at least \<open>2 * 6 ^ (h - 1)\<close>; so that with fewer
  than \<open>2 ^ 64\<close> items in all the height is at most 25, and the \<open>u8\<close> that a node keeps it in cannot overflow. Taking in a tree
  that is not higher adds at most one to the height.
\<close>

theorem height_is_logarithmic:
  assumes "represents summ t xs" and "represents summ u ys"
  shows "(\<exists>joined. push_tree t u = Some joined \<and> logarithmic (node_height joined) (length xs + length ys) \<and>
      (node_height u \<le> node_height t \<longrightarrow> node_height joined \<in> {node_height t, node_height t + 1})) \<and>
    (\<exists>pushed. tree_push summ x t = Some pushed \<and> logarithmic (node_height pushed) (length xs + 1)) \<and>
    (\<exists>extended. tree_extend summ zs t = Some extended \<and> logarithmic (node_height extended) (length xs + length zs))"
proof (intro conjI)
  obtain joined where j: "push_tree t u = Some joined" "represents summ joined (xs @ ys)"
    using pushed_items.rep_join [OF assms] by blast
  then show "\<exists>joined. push_tree t u = Some joined \<and> logarithmic (node_height joined) (length xs + length ys) \<and>
      (node_height u \<le> node_height t \<longrightarrow> node_height joined \<in> {node_height t, node_height t + 1})"
    using represents_logarithmic [OF j(2)] push_tree_grows [OF assms _ j(1)] by auto
  show "\<exists>pushed. tree_push summ x t = Some pushed \<and> logarithmic (node_height pushed) (length xs + 1)"
    using pushed_items.rep_push [OF assms(1), of x] represents_logarithmic by fastforce
  show "\<exists>extended. tree_extend summ zs t = Some extended \<and> logarithmic (node_height extended) (length xs + length zs)"
    using yields_exists [OF tree_extend_ok [OF assms(1), of zs]] represents_logarithmic by fastforce
qed

theorem height_is_logarithmic_witness:
  "\<exists>joined. push_tree sample_tree sample_tree = Some joined \<and> logarithmic (node_height joined) 28 \<and>
     node_height joined \<in> {1, 2}"
proof -
  have "node_height sample_tree = 1" by (simp add: sample_tree_def)
  then show ?thesis
    using height_is_logarithmic [OF sample_tree_represents sample_tree_represents, of 0 "[]"] by (simp add: numeral_2_eq_2)
qed

end
