(* ===== verification/Spec2Isabelle.thy ===== *)
theory Spec2Isabelle
  imports Warp_Prelude Ansi_Params Grid_Row Ring_Storage Grid_Point Grid_Storage Flat_Content
    Flat_Attributes Flat_Index Flat_Storage Flat_Correct Term_Mode Term_Grid Term_State
    Grapheme_Cursor Term_Handler Term_Screen Term_Safe Term_Screen_Safe Term_Exact Term_Facts
    Term_History Term_Findings Rust_Str Ansi_C_Decoder Tmux_Control Term_Images Dcs_Hooks Ansi_Decoder
    Ansi_Facts Ansi_Processor Ansi_Processor_Facts Ansi_Sync_Facts Keystrokes Escape_Encoder
    Encoder_Facts Vim_Types Vim_Fsa Text_Buffer Text_Facts Vim_Motions Vim_Objects Vim_Motion_Facts
    Vim_Object_Facts Vim_Text_Facts Sum_Tree
begin

text \<open>
  A verification development for the Warp terminal.

  \<^bold>\<open>The program.\<close> Warp is a terminal emulator in Rust. A processor takes the bytes of the shell, holds
  back those of a synchronized update, follows the control mode of tmux and gives the others to a
  parser of escape sequences; a decoder turns what the parser reports into calls of a handler, whose
  parameters are attributes, colors, modes, hooks and images; the terminal model applies the calls
  to grids of cells kept in ring buffers of rows; the input editor has a vim mode, a state machine
  that turns typed characters into editing events. This development models those parts, which carry
  the program's own logic; the user interface framework, the application views, persistence,
  networking and platform code around them are not modelled.

  \<^bold>\<open>The theories.\<close>

  \<^item> \<open>Warp_Prelude\<close>: panics as \<open>option\<close>, checked arithmetic and slice access, loops that may panic
    (\<open>fold_panics\<close>), characters, and the list theory of exchanging and scrolling blocks
    (\<open>scroll_up_spec\<close>, \<open>scroll_down_spec\<close>).
  \<^item> \<open>Ansi_Params\<close>: \<^verbatim>\<open>crates/warp_terminal/src/model/ansi/control_sequence_parameters.rs\<close>, the
    parameters of control sequences; its theorems are the round trips between colors and escape
    codes, the agreement of the spellings of a color, and the exact errors of prompt markers.
  \<^item> \<open>Grid_Row\<close>: \<^verbatim>\<open>crates/warp_terminal/src/model/grid/cell.rs\<close> and \<^verbatim>\<open>row.rs\<close>, cells and rows with
    their dirty counter; the invariant \<open>row_wf\<close> is what that counter promises, and the fast reset is
    proved to be a full reset under it.
  \<^item> \<open>Ring_Storage\<close>: \<^verbatim>\<open>app/src/terminal/model/grid/storage.rs\<close>, the ring of rows in its two storage
    orders. \<open>rows_of\<close> is the list of rows it shows. The locale \<open>row_ring\<close> states what the grid relies
    on and proves the scrolling loops against it; it is interpreted on the storage twice, by row
    index and by visible row.
  \<^item> \<open>Grid_Point\<close>: \<^verbatim>\<open>crates/warp_terminal/src/model/indexing.rs\<close>, positions, their wrapping arithmetic
    and their order.
  \<^item> \<open>Grid_Storage\<close>: \<^verbatim>\<open>app/src/terminal/model/grid/grid_storage.rs\<close>, cursors, scrollback limits,
    scrolling a region, resetting and truncating. Scrolling refines the list specification of the
    prelude on every \<open>live_grid\<close>.
  \<^item> \<open>Flat_Content\<close>, \<open>Flat_Attributes\<close>, \<open>Flat_Index\<close>, \<open>Flat_Storage\<close>:
    \<^verbatim>\<open>crates/warp_terminal/src/model/grid/flat_storage/\<close>, the scrollback: chunks of UTF-8 text,
    run-length encoded attributes, the index of rows with the sizes of their graphemes, and the
    storage that takes rows apart and puts them together again. \<open>Flat_Correct\<close> proves over whole
    histories that what is read is what was stored (up to \<open>norm_row\<close>), that the newest rows within the
    limit are kept and the others counted, and that changing the width keeps the text.
  \<^item> \<open>Term_Mode\<close>: \<^verbatim>\<open>crates/warp_terminal/src/model/mode.rs\<close> and
    \<^verbatim>\<open>app/src/terminal/model/grid/ansi_handler/tab_stops.rs\<close>, the flags of the terminal and of the
    keyboard protocol, and the tab stops.
  \<^item> \<open>Term_Grid\<close>: \<^verbatim>\<open>app/src/terminal/model/grid/indexing.rs\<close>, ranges of visible rows, and what every
    operation of the grid keeps of the size of its rows.
  \<^item> \<open>Term_State\<close>: \<^verbatim>\<open>app/src/terminal/model/grid/grid_handler.rs\<close>, the state of one terminal grid
    with its scrollback, cursor, dirty ranges, modes and keyboard modes. \<open>Grapheme_Cursor\<close> is
    \<^verbatim>\<open>grapheme_cursor.rs\<close>, the cursor over its characters.
  \<^item> \<open>Term_Handler\<close> and \<open>Term_Screen\<close>: \<^verbatim>\<open>app/src/terminal/model/grid/ansi_handler.rs\<close>, the operations
    of escape sequences on that state: input with wide and zero-width characters, wrapping, scrolling
    regions, tabs, erasing, clearing, attributes, modes, reports and the placing of images. \<open>handle_all\<close>
    runs a sequence of calls. \<open>Term_Safe\<close> and \<open>Term_Screen_Safe\<close> prove the invariant \<open>safe\<close> of the
    alternate screen under all of them, and that exactly the calls outside \<open>accepts\<close> panic. \<open>Term_Exact\<close> says what printed text and tabs
    do exactly, \<open>Term_Facts\<close> has a small logic of partial correctness for what every call keeps,
    \<open>Term_History\<close> puts the grid and the scrollback together, and \<open>Term_Findings\<close> has the places
    where the terminal does not do what it means to.
  \<^item> \<open>Rust_Str\<close>: what the code uses of Rust's strings, UTF-8 and number parsing. \<open>Ansi_C_Decoder\<close>:
    \<^verbatim>\<open>app/src/terminal/model/ansi/ansi_c_decoder.rs\<close>, the decoder of ANSI-C quoting, inverse to the
    full spellings of a text (\<open>spells\<close>); shorter numeric escapes are lost. \<open>Dcs_Hooks\<close>: \<^verbatim>\<open>ansi/dcs_hooks.rs\<close>, the hooks of a shell and
    how they are built from key-value pairs. \<open>Term_Images\<close>: \<^verbatim>\<open>kitty.rs\<close> and \<^verbatim>\<open>iterm_image.rs\<close>, the
    headers of images.
  \<^item> \<open>Ansi_Decoder\<close>: \<^verbatim>\<open>app/src/terminal/model/ansi/mod.rs\<close>, the decoder. \<open>perform\<close> takes an action of
    the parser to calls of the handler: \<open>Grid\<close> calls, which are those of \<open>handle_all\<close>, \<open>Session\<close>
    calls and replies. \<open>Ansi_Facts\<close> composes the two: decoded output panics the
    alternate screen at an image that the screen does not accept and nowhere else (what a completed
    image becomes is an argument, as decoding it is not modelled); and it says exactly what makes
    the decoder itself panic.
  \<^item> \<open>Ansi_Processor\<close>: the processor of the same file, \<open>parse_bytes_internal\<close> with its loops, buffers
    and tmux panes, as events in the order in which the handler gets them. \<open>Ansi_Processor_Facts\<close>
    proves that it ends, \<open>Ansi_Sync_Facts\<close> that a synchronized update has the effect of its bytes
    and that bytes are reported once and in order, in control mode those of the primary pane.
  \<^item> \<open>Tmux_Control\<close>: \<^verbatim>\<open>app/src/terminal/model/tmux\<close>, the parser of control mode, the commands sent to tmux and
    its answers; the parser inverts what tmux writes, and commands survive its quoting.
  \<^item> \<open>Keystrokes\<close>: the keystrokes of \<^verbatim>\<open>crates/warpui_core/src/keymap.rs\<close>, parsed and printed.
    \<open>Escape_Encoder\<close>: \<^verbatim>\<open>crates/warp_terminal/src/model/escape_sequences.rs\<close> and its keyboard protocol,
    the bytes that keystrokes and mouse events are sent as. \<open>Encoder_Facts\<close> reads the sequences back,
    and composes decoder, handler and encoder: the locale \<open>modes_provided\<close> is what the encoder needs of
    the modes, interpreted on the handler.
  \<^item> \<open>Vim_Types\<close> and \<open>Vim_Fsa\<close>: \<^verbatim>\<open>crates/vim/src/vim.rs\<close> and \<^verbatim>\<open>register.rs\<close>, the vim state machine: an
    invariant of all reachable states, the exact panics of a typed character, and what counts,
    insertions, the dot command and escape do over whole sequences of inputs.
  \<^item> \<open>Text_Buffer\<close>: \<^verbatim>\<open>crates/warpui_core/src/text\<close> and \<^verbatim>\<open>crates/string-offset\<close>, text buffers, points
    and the bounds of words; the locale \<open>buffer_of\<close> is what a motion needs of a buffer, interpreted on
    strings. \<open>Text_Facts\<close>: the locale \<open>visits_marks\<close> is the contract of an iterator that visits marked
    positions; it is interpreted on the bounds of words there and on the word motions of vim later.
  \<^item> \<open>Vim_Motions\<close> and \<open>Vim_Objects\<close>: the other files of \<^verbatim>\<open>crates/vim/src\<close>, the word motions, finding
    a character, matching brackets, paragraphs and the text objects. \<open>Vim_Motion_Facts\<close>,
    \<open>Vim_Object_Facts\<close> and \<open>Vim_Text_Facts\<close> describe each by the positions in the text: the words it
    visits, brackets that match mutually, the nearest blank line, a maximal run of characters, a pair
    of quotes; and they show where the end of the text, a leading newline and a blank block go wrong.
  \<^item> \<open>Sum_Tree\<close>: \<^verbatim>\<open>crates/sum_tree/src/lib.rs\<close>, the summarised B-tree. \<open>represents\<close> relates a
    well-formed tree to its list of items; every operation is proved to be the list operation and
    never to panic, and the height to be logarithmic. The locale \<open>pushable\<close> is the contract its
    clients rely on.

  \<^bold>\<open>Conventions.\<close> A Rust function that can panic returns an \<open>option\<close>, \<open>None\<close> being the panic;
  arithmetic is checked (the debug semantics): a subtraction below zero, a product of counts beyond
  32 bits, an index out of range and a failed \<open>assert!\<close> or \<open>debug_assert!\<close> are all panics. A
  \<open>usize\<close> is a \<open>nat\<close>: sums of lengths and positions stay far below \<open>2 ^ 64\<close>. \<open>u16\<close> flags are
  \<open>16 word\<close>s. A function that takes \<open>&mut self\<close> returns the new state; an accessor that
  hands out a mutable reference takes the function its caller applies. Feature flags are arguments.
  The loops of the modelled code run over a list or a range, or their termination is proved from a
  position that moves in one direction (\<open>to_next_tab\<close>, \<open>move_forward\<close>,
  \<open>move_backward\<close>, \<open>skip_empty_back\<close>) or from the characters that are
  left. Only \<open>parse_bytes_internal\<close> has fuel, as it calls itself on the buffer of an
  update: \<open>fuel_for\<close>, quadratic in the bytes read and buffered, is enough
  (\<open>parsing_ends\<close>).
  Parameters of the model are the parser of escape sequences (the \<open>vte\<close> package: a step
  from a byte to the actions it reports), the decoders of hexadecimal, base64, JSON and floating-
  point numbers, the clock, random image numbers, the order of a hash map, the letter case of
  characters beyond ASCII, the platform, and the hook that the session has pending. Collaborators of
  the grid that only listen (images, secrets, the filter of the view, the event channel) are
  represented by the list of what they are told.

  \<^bold>\<open>Not modelled.\<close> Logging, memory accounting and serialization of the modelled types; resizing of
  grids; the parser of escape sequences itself (the \<open>vte\<close>
  package); what the session does with its calls; decoding images, the map of
  images, and the floating-point arithmetic that measures an image (the numbers of cells it
  gives are arguments of the calls); the regular expression over generator output; and the components listed as such in the manifest.
\<close>

end
